(* ===== verification/Prelude.thy ===== *)
theory Prelude
  imports Main "HOL-Library.Word"
begin

text \<open>
  What every theory of the development shares: the names of the machine types, the
  status codes and the error convention of the program (\<^verbatim>\<open>include/error.h\<close>,
  \<^verbatim>\<open>src/error.c\<close>), the sequencing combinator that stands for the
  \<^verbatim>\<open>IDX_TRY\<close> macro, the collections of facts that the component theories feed,
  and generic lemmas on words, lists and results.
\<close>

section \<open>Fact collections\<close>

named_theorems try_simps \<open>equations that push a result through a sequence of fallible calls\<close>
named_theorems spec_simps \<open>characteristic equations of the operations of a component\<close>

section \<open>Machine types\<close>

type_synonym byte = "8 word"
type_synonym u16 = "16 word"
type_synonym u32 = "32 word"
type_synonym u64 = "64 word"
type_synonym bytes = "byte list"

section \<open>Status codes and the error convention\<close>

datatype idx_status =
    IDX_OK
  | IDX_ERR_INVALID_ARG
  | IDX_ERR_NO_MEMORY
  | IDX_ERR_IO
  | IDX_ERR_PARSE
  | IDX_ERR_NOT_FOUND
  | IDX_ERR_RANGE
  | IDX_ERR_INTERNAL
  | IDX_ERR_NETWORK
  | IDX_ERR_TIMEOUT
  | IDX_ERR_CLOSED
  | IDX_ERR_REMOTE

definition idx_status_str :: "idx_status \<Rightarrow> string" where
  "idx_status_str status = (case status of
      IDX_OK \<Rightarrow> ''ok''
    | IDX_ERR_INVALID_ARG \<Rightarrow> ''invalid argument''
    | IDX_ERR_NO_MEMORY \<Rightarrow> ''out of memory''
    | IDX_ERR_IO \<Rightarrow> ''I/O error''
    | IDX_ERR_PARSE \<Rightarrow> ''parse error''
    | IDX_ERR_NOT_FOUND \<Rightarrow> ''not found''
    | IDX_ERR_RANGE \<Rightarrow> ''value out of range''
    | IDX_ERR_INTERNAL \<Rightarrow> ''internal error''
    | IDX_ERR_NETWORK \<Rightarrow> ''network error''
    | IDX_ERR_TIMEOUT \<Rightarrow> ''timed out''
    | IDX_ERR_CLOSED \<Rightarrow> ''connection closed''
    | IDX_ERR_REMOTE \<Rightarrow> ''remote error'')"

text \<open>A recorded error. The message is what \<^verbatim>\<open>vsnprintf\<close> leaves in the 256 byte array.\<close>

record idx_error =
  err_status :: idx_status
  err_file :: "string option"
  err_line :: int
  err_message :: string

definition idx_error_msg_max :: nat where
  "idx_error_msg_max = 256"

definition idx_error_clear :: "idx_error option \<Rightarrow> idx_error option" where
  "idx_error_clear err = (case err of
      None \<Rightarrow> None
    | Some e \<Rightarrow> Some (e\<lparr>err_status := IDX_OK, err_file := None, err_line := 0, err_message := []\<rparr>))"

text \<open>
  \<open>formatted\<close> is the text the format string and its arguments produce, or \<open>None\<close> when
  \<^verbatim>\<open>vsnprintf\<close> reports an encoding failure; the array keeps at most 255 characters.
\<close>

definition idx_error_setf ::
    "idx_error option \<Rightarrow> idx_status \<Rightarrow> string \<Rightarrow> int \<Rightarrow> string option \<Rightarrow> idx_status \<times> idx_error option" where
  "idx_error_setf err status file line formatted =
     (let status = (if status = IDX_OK then IDX_ERR_INTERNAL else status) in
      case err of
        None \<Rightarrow> (status, None)
      | Some e \<Rightarrow>
          (status,
           Some (e\<lparr>err_status := status, err_file := Some file, err_line := line,
                   err_message := take (idx_error_msg_max - 1)
                     (case formatted of Some text \<Rightarrow> text | None \<Rightarrow> idx_status_str status)\<rparr>)))"

text \<open>
  A fallible function returns its outputs, or the status it fails with. The outputs are
  only meaningful when the status is \<open>IDX_OK\<close>, so the failing case carries none.
\<close>

type_synonym 'a result = "idx_status + 'a"

definition idx_try :: "'a result \<Rightarrow> ('a \<Rightarrow> 'b result) \<Rightarrow> 'b result" where
  "idx_try r k = (case r of Inl e \<Rightarrow> Inl e | Inr x \<Rightarrow> k x)"

lemma idx_try_simps [simp, try_simps]:
  "idx_try (Inl e) k = Inl e"
  "idx_try (Inr x) k = k x"
  by (simp_all add: idx_try_def)

lemma idx_try_Inr_iff: "idx_try r k = Inr y \<longleftrightarrow> (\<exists>x. r = Inr x \<and> k x = Inr y)"
  by (cases r) auto

lemma idx_try_Inl_iff: "idx_try r k = Inl e \<longleftrightarrow> r = Inl e \<or> (\<exists>x. r = Inr x \<and> k x = Inl e)"
  by (cases r) auto

lemma idx_try_cong [fundef_cong]:
  "r = r' \<Longrightarrow> (\<And>x. r' = Inr x \<Longrightarrow> k x = k' x) \<Longrightarrow> idx_try r k = idx_try r' k'"
  by (cases r') auto

subsection \<open>Operations that carry a state\<close>

text \<open>
  A fallible operation on a state that survives a failure: an arena or a buffer keeps what was
  done to it before the call that failed. \<open>op_try\<close> is \<^verbatim>\<open>IDX_TRY\<close> for them.
\<close>

type_synonym ('a, 's) op = "'s \<Rightarrow> 'a result \<times> 's"

definition op_return :: "'a result \<Rightarrow> ('a, 's) op" where
  "op_return r = (\<lambda>s. (r, s))"

definition op_try :: "('a, 's) op \<Rightarrow> ('a \<Rightarrow> ('b, 's) op) \<Rightarrow> ('b, 's) op" where
  "op_try m k = (\<lambda>s. case m s of (Inl e, t) \<Rightarrow> (Inl e, t) | (Inr x, t) \<Rightarrow> k x t)"

text \<open>A loop over a list that stops at the first failure and collects the results.\<close>

fun op_map :: "('a \<Rightarrow> ('b, 's) op) \<Rightarrow> 'a list \<Rightarrow> ('b list, 's) op" where
  "op_map f [] = op_return (Inr [])"
| "op_map f (x # xs) = op_try (f x) (\<lambda>y. op_try (op_map f xs) (\<lambda>ys. op_return (Inr (y # ys))))"

lemma op_return_iff [simp]: "op_return r s = (q, t) \<longleftrightarrow> r = q \<and> s = t"
  by (auto simp: op_return_def)

lemma op_try_Inr_iff:
  "op_try m k s = (Inr y, t) \<longleftrightarrow> (\<exists>x u. m s = (Inr x, u) \<and> k x u = (Inr y, t))"
  by (auto simp: op_try_def split: prod.splits sum.splits)

lemma op_try_Inl_iff:
  "op_try m k s = (Inl e, t) \<longleftrightarrow> m s = (Inl e, t) \<or> (\<exists>x u. m s = (Inr x, u) \<and> k x u = (Inl e, t))"
  by (auto simp: op_try_def split: prod.splits sum.splits)

lemma op_try_return [simp]: "op_try (op_return (Inr x)) k = k x" "op_try (op_return (Inl e)) k = op_return (Inl e)"
  by (simp_all add: op_try_def op_return_def)

lemma op_try_step: "m s = (r, t) \<Longrightarrow> op_try m k s = (case r of Inl e \<Rightarrow> (Inl e, t) | Inr x \<Rightarrow> k x t)"
  by (simp add: op_try_def split: sum.splits)

lemma op_map_Inr:
  "op_map f xs s = (Inr ys, t) \<Longrightarrow> length ys = length xs \<and>
     (\<forall>i < length xs. \<exists>u v. f (xs ! i) u = (Inr (ys ! i), v))"
proof (induction xs arbitrary: s ys t)
  case (Cons x xs)
  then obtain y u zs where y: "f x s = (Inr y, u)" and zs: "op_map f xs u = (Inr zs, t)" and ys: "ys = y # zs"
    by (auto simp: op_try_Inr_iff)
  have "\<exists>u v. f ((x # xs) ! i) u = (Inr ((y # zs) ! i), v)" if "i < length (x # xs)" for i
    using that y Cons.IH [OF zs] by (cases i) auto
  then show ?case using Cons.IH [OF zs] ys by simp
qed simp

lemma op_map_all:
  assumes "op_map f xs s = (Inr ys, t)" and "\<And>x u y v. x \<in> set xs \<Longrightarrow> f x u = (Inr y, v) \<Longrightarrow> P y"
  shows "list_all P ys"
  using op_map_Inr [OF assms(1)] assms(2) unfolding list_all_length by (metis nth_mem)

text \<open>What every successful run of an operation yields.\<close>

definition yields :: "('a, 's) op \<Rightarrow> ('a \<Rightarrow> bool) \<Rightarrow> bool" where
  "yields m P \<longleftrightarrow> (\<forall>s x t. m s = (Inr x, t) \<longrightarrow> P x)"

lemma yieldsD: "yields m P \<Longrightarrow> m s = (Inr x, t) \<Longrightarrow> P x"
  unfolding yields_def by blast

lemma yields_return: "(\<And>x. r = Inr x \<Longrightarrow> P x) \<Longrightarrow> yields (op_return r) P"
  by (simp add: yields_def)

lemma yields_try_return: "(\<And>x. r = Inr x \<Longrightarrow> yields (k x) P) \<Longrightarrow> yields (op_try (op_return r) k) P"
  by (auto simp: yields_def op_try_Inr_iff)

lemma yields_try: "yields m Q \<Longrightarrow> (\<And>x. Q x \<Longrightarrow> yields (k x) P) \<Longrightarrow> yields (op_try m k) P"
  unfolding yields_def op_try_Inr_iff by blast

lemma yields_try_any: "(\<And>x. yields (k x) P) \<Longrightarrow> yields (op_try m k) P"
  unfolding yields_def op_try_Inr_iff by blast

lemma yields_map: "(\<And>x. x \<in> set xs \<Longrightarrow> yields (f x) P) \<Longrightarrow> yields (op_map f xs) (list_all P)"
  unfolding yields_def by (blast intro: op_map_all)

lemma yields_if: "(b \<Longrightarrow> yields m P) \<Longrightarrow> (\<not> b \<Longrightarrow> yields n P) \<Longrightarrow> yields (if b then m else n) P"
  by simp

lemma yields_map_nth:
  assumes "\<And>i. i < n \<Longrightarrow> yields (f i) (P i)"
  shows "yields (op_map f [0..<n]) (\<lambda>ys. length ys = n \<and> (\<forall>i < n. P i (ys ! i)))"
  unfolding yields_def
proof (intro allI impI)
  fix s ys t assume "op_map f [0..<n] s = (Inr ys, t)"
  note m = op_map_Inr [OF this]
  have "P i (ys ! i)" if i: "i < n" for i
  proof -
    obtain u v where "f i u = (Inr (ys ! i), v)" using m i by auto
    then show ?thesis by (rule yieldsD [OF assms [OF i]])
  qed
  then show "length ys = n \<and> (\<forall>i < n. P i (ys ! i))" using m by simp
qed

lemma idx_error_setf_status: "fst (idx_error_setf err status file line fmt) \<noteq> IDX_OK"
  by (auto simp: idx_error_setf_def Let_def split: option.splits)

lemma idx_error_setf_message:
  "snd (idx_error_setf err status file line fmt) = Some e \<Longrightarrow>
     length (err_message e) < idx_error_msg_max"
  by (auto simp: idx_error_setf_def Let_def idx_error_msg_max_def split: option.splits)

section \<open>Words\<close>

text \<open>The largest 64-bit value: \<^verbatim>\<open>UINT64_MAX\<close> and the slot sentinel \<^verbatim>\<open>IDX_SLOT_NONE\<close>.\<close>

definition IDX_SLOT_NONE :: u64 where
  "IDX_SLOT_NONE = - 1"

lemma unat_IDX_SLOT_NONE: "unat IDX_SLOT_NONE = 2 ^ 64 - 1"
  by (simp add: IDX_SLOT_NONE_def unsigned_minus_1_eq_mask mask_eq_exp_minus_1)

lemma le_IDX_SLOT_NONE [simp]: "x \<le> IDX_SLOT_NONE"
  by (simp add: IDX_SLOT_NONE_def unsigned_minus_1_eq_mask mask_eq_exp_minus_1)

lemma unat_u64: "unat (x :: u64) < 18446744073709551616"
  using unsigned_less [of x, where 'a = nat] by simp

lemma unat_Suc_word:
  assumes "(x :: u64) < y"
  shows "unat (x + 1) = Suc (unat x)"
proof -
  have "unat x < unat y" using assms by (simp add: word_less_nat_alt)
  moreover have "unat y < 2 ^ 64" using unsigned_less [of y] by simp
  ultimately show ?thesis by (simp add: unat_word_ariths)
qed

lemma word_Suc_le_iff: "(x :: u64) < y \<Longrightarrow> x + 1 \<le> z \<longleftrightarrow> x < z"
  using unat_Suc_word [of x y] by (auto simp: word_le_nat_alt word_less_nat_alt)

lemma word_less_Suc_iff: "(x :: u64) < y \<Longrightarrow> z < x + 1 \<longleftrightarrow> z \<le> x"
  using word_Suc_le_iff [of x y z] by (simp flip: not_le add: linorder_not_less)

lemma unat_pred_word:
  assumes "(y :: u64) < x"
  shows "unat (x - 1) = unat x - 1"
proof -
  have "x \<noteq> 0" using assms by auto
  then show ?thesis by (rule unat_minus_one)
qed

lemma word_le_pred_iff: "(y :: u64) < x \<Longrightarrow> z \<le> x - 1 \<longleftrightarrow> z < x"
  using unat_pred_word [of y x]
  by (auto simp: word_le_nat_alt word_less_nat_alt)

lemma word_pred_less_iff: "(y :: u64) < x \<Longrightarrow> x - 1 < z \<longleftrightarrow> x \<le> z"
  using word_le_pred_iff [of y x z] by (simp flip: not_le add: linorder_not_less)

lemma unat_span:
  assumes "(a :: u64) \<le> b" and "unat b - unat a < 2 ^ 64 - 1"
  shows "unat (b - a + 1) = unat b - unat a + 1"
proof -
  have "unat (b - a) = unat b - unat a" using assms(1) by (simp add: unat_sub)
  with assms(2) show ?thesis by (simp add: unat_word_ariths)
qed

section \<open>Lists\<close>

lemma sorted_wrt_takeWhile_dropWhile:
  "sorted_wrt R xs \<Longrightarrow> sorted_wrt R (takeWhile P xs) \<and> sorted_wrt R (dropWhile P xs)"
  by (metis sorted_wrt_append takeWhile_dropWhile_id)

end
