(* ===== verification/Gaps.thy ===== *)
theory Gaps
  imports Prelude "HOL-Library.Multiset"
begin

text \<open>
  The set of slots known to be missing (\<^verbatim>\<open>src/gaps.c\<close>, \<^verbatim>\<open>include/gaps.h\<close>): a sorted
  array of inclusive ranges, each claimed by a fetcher or claimable. The array is the list
  \<open>ranges\<close>, its length is the field \<^verbatim>\<open>count\<close> of the code. The parameter \<open>alloc\<close> says of
  a number of entries whether \<^verbatim>\<open>realloc\<close> grants an array of that many. Every operation is
  one critical section of the mutex, except \<^verbatim>\<open>idx_gaps_release\<close>, which is three: the
  runs below take them as three steps, with any operation of another fetcher in between.
\<close>

section \<open>State\<close>

record idx_gaps_entry =
  e_from :: u64
  e_to :: u64
  e_claimed :: bool

record idx_gap_range =
  r_from :: u64
  r_to :: u64

record idx_gaps_stats =
  added :: u64
  resolved :: u64
  coarsened :: u64
  range_count :: nat
  slot_count :: u64
  lowest :: u64

record idx_gaps =
  ranges :: "idx_gaps_entry list"
  capacity :: nat
  max_ranges :: nat
  stats :: idx_gaps_stats

definition IDX_GAPS_DEFAULT_MAX_RANGES :: nat where
  "IDX_GAPS_DEFAULT_MAX_RANGES = 4096"

section \<open>Operations\<close>

definition slots_in :: "idx_gaps_entry list \<Rightarrow> u64" where
  "slots_in rs = fold (\<lambda>r total. total + (e_to r - e_from r + 1)) rs 0"

definition refresh_stats :: "idx_gaps \<Rightarrow> idx_gaps" where
  "refresh_stats g = g\<lparr>stats := (stats g)\<lparr>
      range_count := length (ranges g),
      slot_count := slots_in (ranges g),
      lowest := (case ranges g of [] \<Rightarrow> IDX_SLOT_NONE | r # _ \<Rightarrow> e_from r)\<rparr>\<rparr>"

definition idx_gaps_new :: "bool \<Rightarrow> nat \<Rightarrow> idx_gaps result" where
  "idx_gaps_new calloc_ok limit =
     (if \<not> calloc_ok then Inl IDX_ERR_NO_MEMORY
      else Inr \<lparr>ranges = [], capacity = 0,
                max_ranges = (if limit \<noteq> 0 then limit else IDX_GAPS_DEFAULT_MAX_RANGES),
                stats = \<lparr>added = 0, resolved = 0, coarsened = 0, range_count = 0,
                         slot_count = 0, lowest = IDX_SLOT_NONE\<rparr>\<rparr>)"

text \<open>
  \<open>reserve_one alloc n cap\<close>, for an array of \<open>n\<close> entries, is the capacity after making room
  for one more entry.
\<close>

definition reserve_one :: "(nat \<Rightarrow> bool) \<Rightarrow> nat \<Rightarrow> nat \<Rightarrow> nat result" where
  "reserve_one alloc n cap =
     (if n < cap then Inr cap
      else let grown = (if cap = 0 then 16 else cap * 2) in
           if alloc grown then Inr grown else Inl IDX_ERR_NO_MEMORY)"

definition remove_at :: "nat \<Rightarrow> 'a list \<Rightarrow> 'a list" where
  "remove_at index rs = take index rs @ drop (Suc index) rs"

text \<open>
  The loop of \<^verbatim>\<open>coalesce\<close> looks at the entries \<open>i\<close> and \<open>i + 1\<close>; on a merge it stays at
  \<open>i\<close>, otherwise it leaves entry \<open>i\<close> behind.
\<close>

definition adjacent :: "idx_gaps_entry \<Rightarrow> idx_gaps_entry \<Rightarrow> bool" where
  "adjacent a b \<longleftrightarrow> e_to a \<noteq> IDX_SLOT_NONE \<and> e_to a + 1 \<ge> e_from b"

fun coalesce :: "idx_gaps_entry list \<Rightarrow> idx_gaps_entry list" where
  "coalesce (a # b # rest) =
     (if \<not> e_claimed a \<and> \<not> e_claimed b \<and> adjacent a b
      then coalesce (a\<lparr>e_to := (if e_to b > e_to a then e_to b else e_to a)\<rparr> # rest)
      else a # coalesce (b # rest))"
| "coalesce rs = rs"

text \<open>The scan of \<^verbatim>\<open>coarsen\<close> for the closest pair of unclaimed neighbours.\<close>

definition closer :: "nat \<Rightarrow> u64 \<Rightarrow> (nat \<times> u64) option \<Rightarrow> (nat \<times> u64) option" where
  "closer i distance best = (case best of
      None \<Rightarrow> Some (i, distance)
    | Some (_, best_distance) \<Rightarrow> if distance < best_distance then Some (i, distance) else best)"

fun closest_pair :: "idx_gaps_entry list \<Rightarrow> nat \<Rightarrow> (nat \<times> u64) option \<Rightarrow> (nat \<times> u64) option" where
  "closest_pair (a # b # rest) i best =
     closest_pair (b # rest) (Suc i)
       (if e_claimed a \<or> e_claimed b then best else closer i (e_from b - e_to a) best)"
| "closest_pair _ i best = best"

definition mergeable :: "idx_gaps_entry list \<Rightarrow> nat \<Rightarrow> bool" where
  "mergeable rs i \<longleftrightarrow> Suc i < length rs \<and> \<not> e_claimed (rs ! i) \<and> \<not> e_claimed (rs ! Suc i)"

lemma mergeable_Cons [simp]:
  "mergeable (a # b # rest) 0 \<longleftrightarrow> \<not> e_claimed a \<and> \<not> e_claimed b"
  "mergeable (a # rest) (Suc i) \<longleftrightarrow> mergeable rest i"
  by (auto simp: mergeable_def)

lemma closest_pair_offset:
  "closest_pair rs i best = Some (k, d) \<Longrightarrow>
     best = Some (k, d) \<or> (\<exists>j. k = i + j \<and> mergeable rs j)"
proof (induction rs i best rule: closest_pair.induct)
  case (1 a b rest i best)
  let ?best = "if e_claimed a \<or> e_claimed b then best else closer i (e_from b - e_to a) best"
  from "1.prems" have "closest_pair (b # rest) (Suc i) ?best = Some (k, d)" by simp
  from "1.IH" [OF this] show ?case
  proof
    assume "?best = Some (k, d)"
    then have "best = Some (k, d) \<or> (k = i + 0 \<and> mergeable (a # b # rest) 0)"
      by (auto simp: closer_def split: if_splits option.splits)
    then show ?thesis by blast
  next
    assume "\<exists>j. k = Suc i + j \<and> mergeable (b # rest) j"
    then obtain j where "k = i + Suc j" "mergeable (a # b # rest) (Suc j)" by auto
    then show ?thesis by blast
  qed
qed auto

lemma closest_pair_mergeable: "closest_pair rs 0 None = Some (k, d) \<Longrightarrow> mergeable rs k"
  using closest_pair_offset [of rs 0 None k d] by auto

definition merge_at :: "nat \<Rightarrow> idx_gaps_entry list \<Rightarrow> idx_gaps_entry list" where
  "merge_at best rs = remove_at (Suc best) (rs[best := (rs ! best)\<lparr>e_to := e_to (rs ! Suc best)\<rparr>])"

lemma length_remove_at: "i < length rs \<Longrightarrow> length (remove_at i rs) = length rs - 1"
  by (simp add: remove_at_def)

lemma length_merge_at: "Suc i < length rs \<Longrightarrow> length (merge_at i rs) = length rs - 1"
  by (simp add: merge_at_def length_remove_at)

function coarsen :: "nat \<Rightarrow> idx_gaps_entry list \<Rightarrow> u64 \<Rightarrow> idx_gaps_entry list \<times> u64" where
  "coarsen limit rs n =
     (if length rs > limit then
        (case closest_pair rs 0 None of
           None \<Rightarrow> (rs, n)
         | Some (best, _) \<Rightarrow> coarsen limit (merge_at best rs) (n + 1))
      else (rs, n))"
  by pat_completeness auto
termination
  by (relation "measure (\<lambda>(limit, rs, n). length rs)")
    (auto dest!: closest_pair_mergeable simp: length_merge_at mergeable_def)

declare coarsen.simps [simp del]

text \<open>Where \<^verbatim>\<open>insert\<close> puts a new range: before the first one that does not start below it.\<close>

definition insert_sorted :: "u64 \<Rightarrow> u64 \<Rightarrow> idx_gaps_entry list \<Rightarrow> idx_gaps_entry list" where
  "insert_sorted from to rs =
     takeWhile (\<lambda>r. e_from r < from) rs @
     \<lparr>e_from = from, e_to = to, e_claimed = False\<rparr> #
     dropWhile (\<lambda>r. e_from r < from) rs"

definition gaps_insert :: "(nat \<Rightarrow> bool) \<Rightarrow> idx_gaps \<Rightarrow> u64 \<Rightarrow> u64 \<Rightarrow> idx_gaps result" where
  "gaps_insert alloc g from to =
     idx_try (reserve_one alloc (length (ranges g)) (capacity g)) (\<lambda>cap.
       let (rs, n) = coarsen (max_ranges g) (coalesce (insert_sorted from to (ranges g)))
                       (coarsened (stats g))
       in Inr (refresh_stats (g\<lparr>ranges := rs, capacity := cap,
                                stats := (stats g)\<lparr>coarsened := n\<rparr>\<rparr>)))"

fun idx_gaps_add :: "(nat \<Rightarrow> bool) \<Rightarrow> idx_gaps option \<Rightarrow> u64 \<Rightarrow> u64 \<Rightarrow> idx_gaps result" where
  "idx_gaps_add alloc None from to = Inl IDX_ERR_INVALID_ARG"
| "idx_gaps_add alloc (Some g) from to =
     (if to < from \<or> from = IDX_SLOT_NONE then Inr g
      else idx_try (gaps_insert alloc g from to) (\<lambda>g'.
             Inr (g'\<lparr>stats := (stats g')\<lparr>added := added (stats g') + 1\<rparr>\<rparr>)))"

text \<open>
  A claim takes the first unclaimed range. A range wider than \<open>max_span\<close> is split, which
  needs room for one more entry; without it the claim finds nothing.
\<close>

fun idx_gaps_claim :: "(nat \<Rightarrow> bool) \<Rightarrow> idx_gaps option \<Rightarrow> u64 \<Rightarrow> idx_gaps option \<times> idx_gap_range option" where
  "idx_gaps_claim alloc None max_span = (None, None)"
| "idx_gaps_claim alloc (Some g) max_span =
     (let max_span = (if max_span = 0 then 1 else max_span);
          before = takeWhile e_claimed (ranges g)
      in case dropWhile e_claimed (ranges g) of
           [] \<Rightarrow> (Some (refresh_stats g), None)
         | r # rest \<Rightarrow>
             if e_to r - e_from r + 1 > max_span then
               (let claimed_to = e_from r + max_span - 1 in
                case reserve_one alloc (length (ranges g)) (capacity g) of
                  Inl _ \<Rightarrow> (Some (refresh_stats g), None)
                | Inr cap \<Rightarrow>
                    (Some (refresh_stats (g\<lparr>ranges := before @
                         r\<lparr>e_to := claimed_to, e_claimed := True\<rparr> #
                         r\<lparr>e_from := claimed_to + 1, e_claimed := False\<rparr> # rest,
                         capacity := cap\<rparr>)),
                     Some \<lparr>r_from = e_from r, r_to = claimed_to\<rparr>))
             else
               (Some (refresh_stats (g\<lparr>ranges := before @ r\<lparr>e_claimed := True\<rparr> # rest\<rparr>)),
                Some \<lparr>r_from = e_from r, r_to = e_to r\<rparr>))"

text \<open>
  The loop of \<^verbatim>\<open>idx_gaps_resolve\<close>: \<open>n\<close> counts the entries already passed, so that the
  number of entries in the array is known where a split needs room.
\<close>

fun resolve_loop :: "(nat \<Rightarrow> bool) \<Rightarrow> u64 \<Rightarrow> u64 \<Rightarrow> idx_gaps_entry list \<Rightarrow> nat \<Rightarrow> nat \<Rightarrow> u64 \<Rightarrow>
    idx_gaps_entry list \<times> nat \<times> u64" where
  "resolve_loop alloc from to [] n cap res = ([], cap, res)"
| "resolve_loop alloc from to (r # rest) n cap res =
     (if e_to r < from \<or> e_from r > to then
        (let (rs, out) = resolve_loop alloc from to rest (Suc n) cap res in (r # rs, out))
      else if from \<le> e_from r \<and> to \<ge> e_to r then
        resolve_loop alloc from to rest n cap (res + (e_to r - e_from r + 1))
      else if from \<le> e_from r then
        (let (rs, out) = resolve_loop alloc from to rest (Suc n) cap (res + (to - e_from r + 1))
         in (r\<lparr>e_from := to + 1\<rparr> # rs, out))
      else if to \<ge> e_to r then
        (let (rs, out) = resolve_loop alloc from to rest (Suc n) cap (res + (e_to r - from + 1))
         in (r\<lparr>e_to := from - 1\<rparr> # rs, out))
      else
        (case reserve_one alloc (n + length (r # rest)) cap of
           Inl _ \<Rightarrow>
             (let (rs, out) = resolve_loop alloc from to rest (Suc n) cap (res + (to - from + 1))
              in (r\<lparr>e_to := from - 1\<rparr> # rs, out))
         | Inr cap' \<Rightarrow>
             (let (rs, out) = resolve_loop alloc from to rest (Suc (Suc n)) cap'
                                (res + (to - from + 1))
              in (r\<lparr>e_to := from - 1\<rparr> # r\<lparr>e_from := to + 1\<rparr> # rs, out))))"

fun idx_gaps_resolve :: "(nat \<Rightarrow> bool) \<Rightarrow> idx_gaps option \<Rightarrow> u64 \<Rightarrow> u64 \<Rightarrow> idx_gaps option" where
  "idx_gaps_resolve alloc None from to = None"
| "idx_gaps_resolve alloc (Some g) from to =
     (if to < from then Some g
      else let (rs, cap, res) = resolve_loop alloc from to (ranges g) 0 (capacity g)
                                  (resolved (stats g))
           in Some (refresh_stats (g\<lparr>ranges := rs, capacity := cap,
                                     stats := (stats g)\<lparr>resolved := res\<rparr>\<rparr>)))"

text \<open>
  The last critical section of \<^verbatim>\<open>idx_gaps_release\<close>: the counter goes back to what the
  first section read, then the range is inserted as claimable.
\<close>

definition release_reinsert ::
    "(nat \<Rightarrow> bool) \<Rightarrow> idx_gaps \<Rightarrow> u64 \<Rightarrow> u64 \<Rightarrow> u64 \<Rightarrow> idx_status \<times> idx_gaps" where
  "release_reinsert alloc g resolved_before from to =
     (let g' = g\<lparr>stats := (stats g)\<lparr>resolved := resolved_before\<rparr>\<rparr> in
      case gaps_insert alloc g' from to of
        Inl e \<Rightarrow> (e, g')
      | Inr g'' \<Rightarrow> (IDX_OK, g''))"

fun idx_gaps_release ::
    "(nat \<Rightarrow> bool) \<Rightarrow> idx_gaps option \<Rightarrow> u64 \<Rightarrow> u64 \<Rightarrow> idx_status \<times> idx_gaps option" where
  "idx_gaps_release alloc None from to = (IDX_ERR_INVALID_ARG, None)"
| "idx_gaps_release alloc (Some g) from to =
     (if to < from then (IDX_OK, Some g)
      else case idx_gaps_resolve alloc (Some g) from to of
             None \<Rightarrow> (IDX_OK, None)
           | Some g1 \<Rightarrow>
               (let (st, g2) = release_reinsert alloc g1 (resolved (stats g)) from to
                in (st, Some g2)))"

fun idx_gaps_watermark :: "idx_gaps option \<Rightarrow> u64 \<Rightarrow> u64" where
  "idx_gaps_watermark None highest_committed = highest_committed"
| "idx_gaps_watermark (Some g) highest_committed =
     (let low = (case ranges g of [] \<Rightarrow> IDX_SLOT_NONE | r # _ \<Rightarrow> e_from r) in
      if low = IDX_SLOT_NONE then highest_committed
      else if low = 0 then IDX_SLOT_NONE
      else let trustworthy = low - 1 in
           if highest_committed = IDX_SLOT_NONE \<or> trustworthy < highest_committed
           then trustworthy else highest_committed)"

definition idx_gaps_is_empty :: "idx_gaps option \<Rightarrow> bool" where
  "idx_gaps_is_empty gp = (case gp of None \<Rightarrow> True | Some g \<Rightarrow> ranges g = [])"

definition idx_gaps_get_stats :: "idx_gaps option \<Rightarrow> idx_gaps_stats option" where
  "idx_gaps_get_stats gp = map_option stats gp"

section \<open>Abstraction: the slots a list of ranges stands for\<close>

definition span :: "idx_gaps_entry \<Rightarrow> u64 set" where
  "span r = {e_from r..e_to r}"

definition outstanding_in :: "idx_gaps_entry list \<Rightarrow> u64 set" where
  "outstanding_in rs = (\<Union>r \<in> set rs. span r)"

definition claimed_in :: "idx_gaps_entry list \<Rightarrow> u64 set" where
  "claimed_in rs = outstanding_in (filter e_claimed rs)"

definition valid_entry :: "idx_gaps_entry \<Rightarrow> bool" where
  "valid_entry r \<longleftrightarrow> e_from r \<le> e_to r \<and> e_to r < IDX_SLOT_NONE"

text \<open>What the header promises: ranges sorted and disjoint, none of them empty.\<close>

definition ranges_ok :: "idx_gaps_entry list \<Rightarrow> bool" where
  "ranges_ok rs \<longleftrightarrow> sorted_wrt (\<lambda>a b. e_to a < e_from b) rs \<and> list_all valid_entry rs"

text \<open>
  What holds in the middle of an insertion: sorted by start, and only unclaimed ranges may
  overlap.
\<close>

definition ranges_weak :: "idx_gaps_entry list \<Rightarrow> bool" where
  "ranges_weak rs \<longleftrightarrow>
     sorted_wrt (\<lambda>a b. e_from a \<le> e_from b \<and> (e_claimed a \<or> e_claimed b \<longrightarrow> e_to a < e_from b)) rs \<and>
     list_all valid_entry rs"

lemma outstanding_in_simps [simp]:
  "outstanding_in [] = {}"
  "outstanding_in (r # rs) = span r \<union> outstanding_in rs"
  "outstanding_in (rs @ qs) = outstanding_in rs \<union> outstanding_in qs"
  by (auto simp: outstanding_in_def)

lemma claimed_in_simps [simp]:
  "claimed_in [] = {}"
  "claimed_in (r # rs) = (if e_claimed r then span r else {}) \<union> claimed_in rs"
  "claimed_in (rs @ qs) = claimed_in rs \<union> claimed_in qs"
  by (auto simp: claimed_in_def)

lemma claimed_in_filter_cong: "filter e_claimed rs = filter e_claimed qs \<Longrightarrow> claimed_in rs = claimed_in qs"
  by (simp add: claimed_in_def)

lemma claimed_in_subset: "claimed_in rs \<subseteq> outstanding_in rs"
  by (auto simp: claimed_in_def outstanding_in_def)

lemma ranges_ok_simps [simp]:
  "ranges_ok []"
  "ranges_ok (r # rs) \<longleftrightarrow> valid_entry r \<and> (\<forall>q \<in> set rs. e_to r < e_from q) \<and> ranges_ok rs"
  by (auto simp: ranges_ok_def)

lemma ranges_ok_append:
  "ranges_ok (rs @ qs) \<longleftrightarrow>
     ranges_ok rs \<and> ranges_ok qs \<and> (\<forall>r \<in> set rs. \<forall>q \<in> set qs. e_to r < e_from q)"
  by (auto simp: ranges_ok_def sorted_wrt_append)

lemma ranges_weak_simps [simp]:
  "ranges_weak []"
  "ranges_weak (r # rs) \<longleftrightarrow> valid_entry r \<and> ranges_weak rs \<and>
     (\<forall>q \<in> set rs. e_from r \<le> e_from q \<and> (e_claimed r \<or> e_claimed q \<longrightarrow> e_to r < e_from q))"
  by (auto simp: ranges_weak_def)

lemma ranges_ok_valid: "ranges_ok rs \<Longrightarrow> r \<in> set rs \<Longrightarrow> valid_entry r"
  by (simp add: ranges_ok_def list_all_iff)

section \<open>Merging\<close>

lemma coalesce_from: "r \<in> set (coalesce rs) \<Longrightarrow> e_from r \<in> e_from ` set rs"
  by (induction rs rule: coalesce.induct) (auto split: if_splits)

lemma coalesce_claimed: "filter e_claimed (coalesce rs) = filter e_claimed rs"
  by (induction rs rule: coalesce.induct) auto

lemma merged_span:
  assumes "e_from a \<le> e_from b" and "adjacent a b" and "valid_entry a" and "valid_entry b"
  shows "span (a\<lparr>e_to := (if e_to b > e_to a then e_to b else e_to a)\<rparr>) = span a \<union> span b"
proof -
  have "e_to a < IDX_SLOT_NONE" using assms(3) by (simp add: valid_entry_def)
  with assms(2) have "\<And>x. x < e_from b \<Longrightarrow> x \<le> e_to a"
    by (auto simp: adjacent_def dest: word_less_Suc_iff [THEN iffD1, OF _ less_le_trans])
  with assms show ?thesis
    by (auto simp: span_def valid_entry_def not_le intro: order.strict_implies_order)
qed

lemma coalesce_weak:
  "ranges_weak rs \<Longrightarrow> ranges_ok (coalesce rs) \<and> outstanding_in (coalesce rs) = outstanding_in rs"
proof (induction rs rule: coalesce.induct)
  case (1 a b rest)
  show ?case
  proof (cases "\<not> e_claimed a \<and> \<not> e_claimed b \<and> adjacent a b")
    case True
    let ?a = "a\<lparr>e_to := (if e_to b > e_to a then e_to b else e_to a)\<rparr>"
    from "1.prems" True have "ranges_weak (?a # rest)"
      by (auto simp: valid_entry_def)
    with "1.IH"(1) True have "ranges_ok (coalesce (?a # rest)) \<and>
        outstanding_in (coalesce (?a # rest)) = outstanding_in (?a # rest)"
      by blast
    moreover have "span ?a = span a \<union> span b"
      using "1.prems" True by (intro merged_span) auto
    ultimately show ?thesis using True by auto
  next
    case False
    from "1.prems" have "ranges_weak (b # rest)" by simp
    with "1.IH"(2) False have IH: "ranges_ok (coalesce (b # rest)) \<and>
        outstanding_in (coalesce (b # rest)) = outstanding_in (b # rest)"
      by blast
    have "e_to a < e_from b"
    proof (cases "e_claimed a \<or> e_claimed b")
      case True
      with "1.prems" show ?thesis by auto
    next
      case unclaimed: False
      from "1.prems" have "e_to a < IDX_SLOT_NONE" by (simp add: valid_entry_def)
      with False unclaimed have "e_to a + 1 < e_from b" by (auto simp: adjacent_def)
      with \<open>e_to a < IDX_SLOT_NONE\<close> show ?thesis
        by (meson order.strict_implies_order word_Suc_le_iff)
    qed
    moreover have "e_from b \<le> e_from q" if "q \<in> set (coalesce (b # rest))" for q
      using coalesce_from [OF that] "1.prems" by auto
    ultimately have "\<forall>q \<in> set (coalesce (b # rest)). e_to a < e_from q"
      by (meson less_le_trans)
    with IH "1.prems" False show ?thesis by auto
  qed
qed auto

lemma merge_at_split:
  assumes "mergeable rs k"
  obtains xs a b ys where
    "rs = xs @ a # b # ys" "merge_at k rs = xs @ a\<lparr>e_to := e_to b\<rparr> # ys"
    "\<not> e_claimed a" "\<not> e_claimed b"
proof -
  from assms have k: "Suc k < length rs" "\<not> e_claimed (rs ! k)" "\<not> e_claimed (rs ! Suc k)"
    by (auto simp: mergeable_def)
  let ?xs = "take k rs" and ?ys = "drop (Suc (Suc k)) rs"
  have split: "rs = ?xs @ rs ! k # rs ! Suc k # ?ys"
    using k by (simp add: Cons_nth_drop_Suc id_take_nth_drop)
  have "merge_at k rs = ?xs @ (rs ! k)\<lparr>e_to := e_to (rs ! Suc k)\<rparr> # ?ys"
    using k by (simp add: merge_at_def remove_at_def take_Suc_conv_app_nth)
  with split k show ?thesis using that by blast
qed

lemma merge_at_ok:
  assumes "ranges_ok rs" and "mergeable rs k"
  shows "ranges_ok (merge_at k rs) \<and> outstanding_in rs \<subseteq> outstanding_in (merge_at k rs) \<and>
         filter e_claimed (merge_at k rs) = filter e_claimed rs"
proof -
  obtain xs a b ys where rs: "rs = xs @ a # b # ys" "merge_at k rs = xs @ a\<lparr>e_to := e_to b\<rparr> # ys"
    "\<not> e_claimed a" "\<not> e_claimed b"
    using merge_at_split [OF assms(2)] .
  with assms(1) show ?thesis
    by (force simp: ranges_ok_append valid_entry_def span_def)
qed

lemma coarsen_ok:
  "ranges_ok rs \<Longrightarrow> coarsen limit rs n = (rs', n') \<Longrightarrow>
     ranges_ok rs' \<and> outstanding_in rs \<subseteq> outstanding_in rs' \<and>
     filter e_claimed rs' = filter e_claimed rs"
proof (induction limit rs n rule: coarsen.induct)
  case (1 limit rs n)
  show ?case
  proof (cases "length rs > limit \<and> closest_pair rs 0 None \<noteq> None")
    case True
    then obtain k d where pair: "closest_pair rs 0 None = Some (k, d)" by auto
    note step = merge_at_ok [OF "1.prems"(1) closest_pair_mergeable [OF pair]]
    from True pair "1.prems"(2) have "coarsen limit (merge_at k rs) (n + 1) = (rs', n')"
      by (simp add: coarsen.simps [of limit rs n])
    with "1.IH" [OF _ pair] True step show ?thesis by auto
  next
    case False
    then have "coarsen limit rs n = (rs, n)"
      by (auto simp: coarsen.simps [of limit rs n] split: option.splits)
    with "1.prems" show ?thesis by auto
  qed
qed

section \<open>Inserting\<close>

lemma dropWhile_from_ge:
  "ranges_ok rs \<Longrightarrow> r \<in> set (dropWhile (\<lambda>r. e_from r < from) rs) \<Longrightarrow> from \<le> e_from r"
proof (induction rs)
  case (Cons q rs)
  then show ?case
    by (auto simp: valid_entry_def split: if_splits)
qed simp

lemma takeWhile_from_less: "r \<in> set (takeWhile (\<lambda>r. e_from r < from) rs) \<Longrightarrow> e_from r < from"
  by (auto dest: set_takeWhileD)

lemma disjoint_intervals:
  "(a :: u64) \<le> b \<Longrightarrow> c \<le> d \<Longrightarrow> {a..b} \<inter> {c..d} = {} \<Longrightarrow> a \<le> c \<Longrightarrow> b < c"
  by (metis IntI atLeastAtMost_iff empty_iff not_le order_refl)

lemma ranges_weak_append:
  "ranges_weak (rs @ qs) \<longleftrightarrow> ranges_weak rs \<and> ranges_weak qs \<and>
     (\<forall>a \<in> set rs. \<forall>b \<in> set qs. e_from a \<le> e_from b \<and> (e_claimed a \<or> e_claimed b \<longrightarrow> e_to a < e_from b))"
  by (auto simp: ranges_weak_def sorted_wrt_append)

lemma ranges_ok_weak: "ranges_ok rs \<Longrightarrow> ranges_weak rs"
  by (induction rs) (auto simp: valid_entry_def intro: le_less_trans order.strict_implies_order)

lemma claimed_span: "r \<in> set rs \<Longrightarrow> e_claimed r \<Longrightarrow> span r \<subseteq> claimed_in rs"
  by (auto simp: claimed_in_def outstanding_in_def)

lemma insert_sorted_weak:
  assumes ok: "ranges_ok rs" and new: "from \<le> to" "to < IDX_SLOT_NONE"
    and free: "{from..to} \<inter> claimed_in rs = {}"
  shows "ranges_weak (insert_sorted from to rs)"
proof -
  let ?pre = "takeWhile (\<lambda>r. e_from r < from) rs" and ?post = "dropWhile (\<lambda>r. e_from r < from) rs"
  have "ranges_weak (?pre @ ?post)" using ok by (simp add: ranges_ok_weak)
  then have parts: "ranges_weak ?pre" "ranges_weak ?post"
    "\<forall>a \<in> set ?pre. \<forall>b \<in> set ?post. e_from a \<le> e_from b \<and> (e_claimed a \<or> e_claimed b \<longrightarrow> e_to a < e_from b)"
    unfolding ranges_weak_append by blast+
  have before: "e_from r \<le> from \<and> (e_claimed r \<longrightarrow> e_to r < from)" if r: "r \<in> set ?pre" for r
  proof -
    from r have "r \<in> set rs" by (rule set_takeWhileD [THEN conjunct1])
    with ok have v: "valid_entry r" by (rule ranges_ok_valid)
    have less: "e_from r < from" using r by (rule takeWhile_from_less)
    have "e_to r < from" if "e_claimed r"
    proof (rule disjoint_intervals [of "e_from r" "e_to r" "from" to])
      show "{e_from r..e_to r} \<inter> {from..to} = {}"
        using claimed_span [OF \<open>r \<in> set rs\<close> that] free unfolding span_def by blast
    qed (use v new less in \<open>auto simp: valid_entry_def\<close>)
    with less show ?thesis by auto
  qed
  have after: "from \<le> e_from r \<and> (e_claimed r \<longrightarrow> to < e_from r)" if r: "r \<in> set ?post" for r
  proof -
    from r have "r \<in> set rs" by (rule set_dropWhileD)
    with ok have v: "valid_entry r" by (rule ranges_ok_valid)
    have le: "from \<le> e_from r" using ok r by (rule dropWhile_from_ge)
    have "to < e_from r" if "e_claimed r"
    proof (rule disjoint_intervals [of "from" to "e_from r" "e_to r"])
      show "{from..to} \<inter> {e_from r..e_to r} = {}"
        using claimed_span [OF \<open>r \<in> set rs\<close> that] free unfolding span_def by blast
    qed (use v new le in \<open>auto simp: valid_entry_def\<close>)
    with le show ?thesis by auto
  qed
  from parts new before after show ?thesis
    unfolding insert_sorted_def ranges_weak_append ranges_weak_simps
    by (auto simp: valid_entry_def)
qed

lemma insert_sorted_filter:
  "filter e_claimed (insert_sorted from to rs) = filter e_claimed rs"
proof -
  have "filter e_claimed (takeWhile (\<lambda>r. e_from r < from) rs @ dropWhile (\<lambda>r. e_from r < from) rs) =
      filter e_claimed rs" by simp
  then show ?thesis unfolding insert_sorted_def by (simp del: takeWhile_dropWhile_id)
qed

lemma insert_sorted_outstanding:
  "outstanding_in (insert_sorted from to rs) = outstanding_in rs \<union> {from..to}"
proof -
  have "outstanding_in rs =
      outstanding_in (takeWhile (\<lambda>r. e_from r < from) rs) \<union> outstanding_in (dropWhile (\<lambda>r. e_from r < from) rs)"
    by (metis outstanding_in_simps(3) takeWhile_dropWhile_id)
  then show ?thesis by (auto simp: insert_sorted_def span_def)
qed

abbreviation outstanding :: "idx_gaps \<Rightarrow> u64 set" where
  "outstanding g \<equiv> outstanding_in (ranges g)"

abbreviation claimed_slots :: "idx_gaps \<Rightarrow> u64 set" where
  "claimed_slots g \<equiv> claimed_in (ranges g)"

abbreviation gaps_ok :: "idx_gaps \<Rightarrow> bool" where
  "gaps_ok g \<equiv> ranges_ok (ranges g)"

lemma ranges_refresh [simp]: "ranges (refresh_stats g) = ranges g"
  by (simp add: refresh_stats_def)

lemma gaps_insert_ok:
  assumes "gaps_ok g" "from \<le> to" "to < IDX_SLOT_NONE" "{from..to} \<inter> claimed_slots g = {}"
    and ins: "gaps_insert alloc g from to = Inr g'"
  shows "gaps_ok g' \<and> outstanding g \<union> {from..to} \<subseteq> outstanding g' \<and>
         claimed_slots g' = claimed_slots g"
proof -
  let ?rs = "insert_sorted from to (ranges g)"
  obtain rs n where c: "coarsen (max_ranges g) (coalesce ?rs) (coarsened (stats g)) = (rs, n)"
    by fastforce
  with ins have rs: "ranges g' = rs"
    by (auto simp: gaps_insert_def idx_try_Inr_iff)
  have weak: "ranges_weak ?rs" using assms(1-4) by (rule insert_sorted_weak)
  note co = coalesce_weak [OF weak]
  note ca = coarsen_ok [OF co [THEN conjunct1] c]
  have "filter e_claimed rs = filter e_claimed (ranges g)"
    using ca by (simp add: coalesce_claimed insert_sorted_filter)
  then have "claimed_in rs = claimed_slots g" by (rule claimed_in_filter_cong)
  with ca co rs show ?thesis by (auto simp: insert_sorted_outstanding)
qed

lemma gaps_insert_granted: "(\<forall>n. alloc n) \<Longrightarrow> \<exists>g'. gaps_insert alloc g from to = Inr g'"
  by (auto simp: gaps_insert_def reserve_one_def Let_def split: prod.splits)

section \<open>Resolving\<close>

lemma span_updates [simp]:
  "span (r\<lparr>e_claimed := c\<rparr>) = span r"
  "span (r\<lparr>e_to := x\<rparr>) = {e_from r..x}"
  "span (r\<lparr>e_from := x\<rparr>) = {x..e_to r}"
  by (auto simp: span_def)

lemma interval_after: "(t :: u64) < b \<Longrightarrow> {t + 1..b} = {t<..b}"
  by (auto simp: word_Suc_le_iff)

lemma interval_before: "(a :: u64) < f \<Longrightarrow> {a..f - 1} = {a..<f}"
  by (auto simp: word_le_pred_iff)

lemma valid_cut:
  "valid_entry r \<Longrightarrow> t < e_to r \<Longrightarrow> valid_entry (r\<lparr>e_from := t + 1\<rparr>)"
  "valid_entry r \<Longrightarrow> e_from r < f \<Longrightarrow> f \<le> e_to r \<Longrightarrow> valid_entry (r\<lparr>e_to := f - 1\<rparr>)"
proof -
  assume v: "valid_entry r"
  then have r: "e_from r \<le> e_to r" "e_to r < IDX_SLOT_NONE" by (simp_all add: valid_entry_def)
  show "t < e_to r \<Longrightarrow> valid_entry (r\<lparr>e_from := t + 1\<rparr>)"
    using r word_Suc_le_iff [of t "e_to r" "e_to r"] by (auto simp: valid_entry_def)
  assume f: "e_from r < f" "f \<le> e_to r"
  then have "f - 1 < f" using word_le_pred_iff [of "e_from r" f "f - 1"] by simp
  with f r word_le_pred_iff [of "e_from r" f "e_from r"]
  show "valid_entry (r\<lparr>e_to := f - 1\<rparr>)"
    unfolding valid_entry_def by (auto dest: less_trans less_le_trans)
qed

text \<open>The four ways \<^verbatim>\<open>idx_gaps_resolve\<close> cuts one range, and what is left of it.\<close>

fun cut_entry :: "bool \<Rightarrow> u64 \<Rightarrow> u64 \<Rightarrow> idx_gaps_entry \<Rightarrow> idx_gaps_entry list" where
  "cut_entry room f t r =
     (if e_to r < f \<or> e_from r > t then [r]
      else if f \<le> e_from r \<and> t \<ge> e_to r then []
      else if f \<le> e_from r then [r\<lparr>e_from := t + 1\<rparr>]
      else if t \<ge> e_to r then [r\<lparr>e_to := f - 1\<rparr>]
      else if room then [r\<lparr>e_to := f - 1\<rparr>, r\<lparr>e_from := t + 1\<rparr>]
      else [r\<lparr>e_to := f - 1\<rparr>])"

declare cut_entry.simps [simp del]

lemma resolve_loop_Cons:
  assumes "resolve_loop alloc f t (r # rest) n cap res = (rs', out)"
  obtains room n' cap' res' rs where "(\<forall>k. alloc k) \<longrightarrow> room"
    "resolve_loop alloc f t rest n' cap' res' = (rs, out)" "rs' = cut_entry room f t r @ rs"
proof -
  have refused: "\<not> (\<forall>k. alloc k)" if "reserve_one alloc m c = Inl e" for m c e
    using that by (auto simp: reserve_one_def Let_def split: if_splits)
  define room where "room \<longleftrightarrow> (\<exists>cap'. reserve_one alloc (n + length (r # rest)) cap = Inr cap')"
  have "\<exists>n' cap' res' rs. resolve_loop alloc f t rest n' cap' res' = (rs, out) \<and>
      rs' = cut_entry room f t r @ rs"
  proof (cases "reserve_one alloc (n + length (r # rest)) cap")
    case (Inl e)
    with assms show ?thesis
      by (auto simp: cut_entry.simps room_def split: if_splits prod.splits; blast)
  next
    case (Inr c)
    with assms show ?thesis
      by (auto simp: cut_entry.simps room_def split: if_splits prod.splits; blast)
  qed
  moreover have "(\<forall>k. alloc k) \<longrightarrow> room"
    using refused by (auto simp: room_def) (metis old.sum.exhaust)
  ultimately show ?thesis using that by blast
qed

definition inside :: "idx_gaps_entry \<Rightarrow> idx_gaps_entry \<Rightarrow> bool" where
  "inside x r \<longleftrightarrow> valid_entry x \<and> e_from r \<le> e_from x \<and> e_to x \<le> e_to r \<and> e_claimed x = e_claimed r"

lemma word_neighbours:
  "(t :: u64) < b \<Longrightarrow> t < t + 1" "(a :: u64) < f \<Longrightarrow> f - 1 < f"
  using word_Suc_le_iff [of t b "t + 1"] word_le_pred_iff [of a f "f - 1"] by auto

lemma inside_cuts:
  assumes "valid_entry r"
  shows "t < e_to r \<Longrightarrow> e_from r \<le> t \<Longrightarrow> inside (r\<lparr>e_from := t + 1\<rparr>) r"
    and "e_from r < f \<Longrightarrow> f \<le> e_to r \<Longrightarrow> inside (r\<lparr>e_to := f - 1\<rparr>) r"
  using valid_cut(1) [OF assms, of t] valid_cut(2) [OF assms, of f]
    word_neighbours(1) [of t "e_to r"] word_neighbours(2) [of "e_from r" f]
  by (simp_all add: inside_def)

lemma cut_entry_spans:
  assumes v: "valid_entry r" and ft: "f \<le> t"
  shows "outstanding_in (cut_entry room f t r) \<subseteq> span r - {f..t} \<and>
         (room \<longrightarrow> outstanding_in (cut_entry room f t r) = span r - {f..t}) \<and>
         (\<forall>x \<in> set (cut_entry room f t r). inside x r) \<and>
         ranges_ok (cut_entry room f t r)"
proof -
  have r: "e_from r \<le> e_to r" using v by (simp add: valid_entry_def)
  consider (apart) "e_to r < f \<or> e_from r > t"
    | (gone) "\<not> (e_to r < f \<or> e_from r > t)" "f \<le> e_from r" "e_to r \<le> t"
    | (low) "\<not> (e_to r < f \<or> e_from r > t)" "f \<le> e_from r" "e_from r \<le> t" "t < e_to r"
    | (high) "\<not> (e_to r < f \<or> e_from r > t)" "e_from r < f" "f \<le> e_to r" "e_to r \<le> t"
    | (mid) "\<not> (e_to r < f \<or> e_from r > t)" "e_from r < f" "f \<le> e_to r" "e_from r \<le> t" "t < e_to r"
    using r ft by (meson leI)
  then show ?thesis
  proof cases
    case apart
    then have eq: "cut_entry room f t r = [r]" by (simp add: cut_entry.simps)
    from apart v r show ?thesis unfolding eq by (auto simp: inside_def span_def)
  next
    case gone
    then have eq: "cut_entry room f t r = []" by (simp add: cut_entry.simps)
    from gone show ?thesis unfolding eq by (auto simp: span_def)
  next
    case low
    then have eq: "cut_entry room f t r = [r\<lparr>e_from := t + 1\<rparr>]" by (simp add: cut_entry.simps)
    from low v inside_cuts(1) [OF v low(4,3)] show ?thesis
      unfolding eq by (auto simp: span_def interval_after inside_def)
  next
    case high
    then have eq: "cut_entry room f t r = [r\<lparr>e_to := f - 1\<rparr>]" by (simp add: cut_entry.simps)
    from high v inside_cuts(2) [OF v high(2,3)] show ?thesis
      unfolding eq by (auto simp: span_def interval_before inside_def)
  next
    case mid
    then have eq: "cut_entry room f t r =
        (if room then [r\<lparr>e_to := f - 1\<rparr>, r\<lparr>e_from := t + 1\<rparr>] else [r\<lparr>e_to := f - 1\<rparr>])"
      by (auto simp: cut_entry.simps)
    have "f - 1 < f" "t < t + 1" using mid word_neighbours by blast+
    then have "f - 1 < t + 1" using ft by simp
    with mid ft inside_cuts(2) [OF v mid(2,3)] inside_cuts(1) [OF v mid(5,4)] show ?thesis
      unfolding eq by (auto simp: span_def interval_before interval_after inside_def)
  qed
qed

lemma resolve_loop_ok:
  "ranges_ok rs \<Longrightarrow> f \<le> t \<Longrightarrow> resolve_loop alloc f t rs n cap res = (rs', out) \<Longrightarrow>
     ranges_ok rs' \<and>
     (\<forall>x \<in> set rs'. \<exists>r \<in> set rs. e_from r \<le> e_from x) \<and>
     outstanding_in rs' \<subseteq> outstanding_in rs - {f..t} \<and>
     ((\<forall>k. alloc k) \<longrightarrow> outstanding_in rs' = outstanding_in rs - {f..t} \<and>
                          claimed_in rs' = claimed_in rs - {f..t})"
proof (induction rs arbitrary: n cap res rs' out)
  case Nil
  then show ?case by simp
next
  case (Cons r rest)
  obtain room n' cap' res' rs where room: "(\<forall>k. alloc k) \<longrightarrow> room"
    and loop: "resolve_loop alloc f t rest n' cap' res' = (rs, out)"
    and rs': "rs' = cut_entry room f t r @ rs"
    using resolve_loop_Cons [OF Cons.prems(3)] .
  from Cons.prems(1) have v: "valid_entry r" and rest: "ranges_ok rest"
    and sep: "\<forall>q \<in> set rest. e_to r < e_from q"
    by auto
  note IH = Cons.IH [OF rest Cons.prems(2) loop]
  note cut = cut_entry_spans [OF v Cons.prems(2), where room = room]
  have "e_to x < e_from y" if "x \<in> set (cut_entry room f t r)" "y \<in> set rs" for x y
    using cut IH that sep unfolding inside_def by (meson le_less_trans less_le_trans)
  then have ok: "ranges_ok rs'"
    using IH cut by (auto simp: rs' ranges_ok_append)
  have starts: "\<forall>x \<in> set rs'. \<exists>q \<in> set (r # rest). e_from q \<le> e_from x"
    using IH cut by (auto simp: rs' inside_def)
  have "claimed_in (cut_entry room f t r) = (if e_claimed r then outstanding_in (cut_entry room f t r) else {})"
    using cut by (auto simp: claimed_in_def outstanding_in_def inside_def)
  with IH room cut have "(\<forall>k. alloc k) \<longrightarrow> outstanding_in rs' = outstanding_in (r # rest) - {f..t} \<and>
      claimed_in rs' = claimed_in (r # rest) - {f..t}"
    by (auto simp: rs')
  moreover have "outstanding_in rs' \<subseteq> outstanding_in (r # rest) - {f..t}"
    using IH cut by (auto simp: rs')
  ultimately show ?case using ok starts by blast
qed

lemma idx_gaps_resolve_ok:
  assumes "gaps_ok g" "idx_gaps_resolve alloc (Some g) f t = Some g'"
  shows "gaps_ok g' \<and> outstanding g' \<subseteq> outstanding g - {f..t} \<and>
         ((\<forall>k. alloc k) \<longrightarrow> outstanding g' = outstanding g - {f..t} \<and>
                              claimed_slots g' = claimed_slots g - {f..t})"
proof (cases "t < f")
  case True
  with assms show ?thesis by auto
next
  case False
  then have ft: "f \<le> t" by simp
  obtain rs cap res where loop: "resolve_loop alloc f t (ranges g) 0 (capacity g) (resolved (stats g)) = (rs, cap, res)"
    by (metis prod_cases3)
  with False assms(2) have "ranges g' = rs" by auto
  with resolve_loop_ok [OF assms(1) ft loop] show ?thesis by simp
qed

lemma idx_gaps_resolve_Some: "\<exists>g'. idx_gaps_resolve alloc (Some g) f t = Some g'"
  by (auto split: prod.splits)

section \<open>Claiming\<close>

lemma claim_split_bounds:
  assumes "valid_entry r" "0 < m" "m < e_to r - e_from r + 1"
  shows "e_from r \<le> e_from r + m - 1" "e_from r + m - 1 < e_to r"
    "unat (e_from r + m - 1) - unat (e_from r) < unat m"
proof -
  have le: "e_from r \<le> e_to r" and top: "unat (e_to r) < 2 ^ 64 - 1"
    using assms(1) unat_IDX_SLOT_NONE by (auto simp: valid_entry_def word_less_nat_alt)
  then have "unat (e_from r) \<le> unat (e_to r)" by (simp add: word_le_nat_alt)
  moreover have "unat (e_to r - e_from r + 1) = unat (e_to r) - unat (e_from r) + 1"
    using le top by (intro unat_span) auto
  ultimately have room: "unat (e_from r) + unat m \<le> unat (e_to r)"
    using assms(3) by (simp add: word_less_nat_alt)
  have m: "0 < unat m" using assms(2) by (simp add: unat_gt_0 word_neq_0_conv)
  have "unat (e_from r + m) = unat (e_from r) + unat m"
    using room top by (simp add: unat_word_ariths)
  then have eq: "unat (e_from r + m - 1) = unat (e_from r) + unat m - 1"
    using m by (subst unat_minus_one) auto
  show "e_from r \<le> e_from r + m - 1" "e_from r + m - 1 < e_to r"
    "unat (e_from r + m - 1) - unat (e_from r) < unat m"
    using eq m room by (auto simp: word_le_nat_alt word_less_nat_alt)
qed

lemma valid_span_width:
  assumes "valid_entry r" "\<not> m < e_to r - e_from r + 1"
  shows "unat (e_to r) - unat (e_from r) < unat m"
proof -
  have "e_from r \<le> e_to r" and "unat (e_to r) < 2 ^ 64 - 1"
    using assms(1) unat_IDX_SLOT_NONE by (auto simp: valid_entry_def word_less_nat_alt)
  then have "unat (e_to r - e_from r + 1) = unat (e_to r) - unat (e_from r) + 1"
    by (intro unat_span) auto
  with assms(2) show ?thesis by (simp add: word_less_nat_alt)
qed

text \<open>A sorted list of ranges around one entry: everything else lies clear of its span.\<close>

lemma ranges_ok_around:
  assumes "ranges_ok (pre @ r # post)"
  shows "valid_entry r" "span r \<inter> outstanding_in pre = {}" "span r \<inter> outstanding_in post = {}"
proof -
  show v: "valid_entry r" using assms by (simp add: ranges_ok_append)
  have "\<forall>q \<in> set pre. e_to q < e_from r" "\<forall>q \<in> set post. e_to r < e_from q"
    using assms by (auto simp: ranges_ok_append)
  then show "span r \<inter> outstanding_in pre = {}" "span r \<inter> outstanding_in post = {}"
    by (fastforce simp: outstanding_in_def span_def)+
qed

lemma ranges_ok_first_unclaimed:
  assumes "ranges_ok (pre @ r # post)" "\<forall>q \<in> set pre. e_claimed q"
    "s \<in> outstanding_in (pre @ r # post) - claimed_in (pre @ r # post)"
  shows "e_from r \<le> s"
proof -
  have "outstanding_in pre = claimed_in pre"
    using assms(2) by (auto simp: claimed_in_def outstanding_in_def)
  with assms(3) have "s \<in> span r \<union> outstanding_in post" by auto
  moreover have "e_from r \<le> e_to r" "\<forall>q \<in> set post. e_to r < e_from q"
    using assms(1) by (auto simp: ranges_ok_append valid_entry_def)
  ultimately show ?thesis
    by (fastforce simp: outstanding_in_def span_def)
qed

lemma claimed_update [simp]: "claimed_in (r\<lparr>e_claimed := True\<rparr> # rs) = span r \<union> claimed_in rs"
  by simp

definition claim_spec :: "idx_gaps \<Rightarrow> u64 \<Rightarrow> idx_gaps \<Rightarrow> idx_gap_range \<Rightarrow> bool" where
  "claim_spec g m g' c \<longleftrightarrow>
     r_from c \<le> r_to c \<and> r_to c < IDX_SLOT_NONE \<and>
     {r_from c..r_to c} \<subseteq> outstanding g - claimed_slots g \<and>
     claimed_slots g' = claimed_slots g \<union> {r_from c..r_to c} \<and>
     unat (r_to c) - unat (r_from c) < unat (max 1 m) \<and>
     (\<forall>s \<in> outstanding g - claimed_slots g. r_from c \<le> s)"

lemma idx_gaps_claim_ok:
  assumes ok: "gaps_ok g" and claim: "idx_gaps_claim alloc (Some g) m = (Some g', res)"
  shows "gaps_ok g' \<and> outstanding g' = outstanding g \<and>
    (case res of
       None \<Rightarrow> ranges g' = ranges g \<and> ((\<forall>k. alloc k) \<longrightarrow> outstanding g = claimed_slots g)
     | Some c \<Rightarrow> claim_spec g m g' c)"
proof (cases "dropWhile e_claimed (ranges g)")
  case Nil
  then have "\<forall>r \<in> set (ranges g). e_claimed r" by (simp add: dropWhile_eq_Nil_conv)
  then have "outstanding g = claimed_slots g" by (auto simp: claimed_in_def outstanding_in_def)
  moreover from Nil claim have "g' = refresh_stats g" "res = None"
    by (auto simp: Let_def simp del: dropWhile_eq_Nil_conv)
  ultimately show ?thesis using ok by simp
next
  case (Cons r rest)
  let ?pre = "takeWhile e_claimed (ranges g)" and ?m = "if m = 0 then 1 else m"
  have split: "ranges g = ?pre @ r # rest" using Cons by (metis takeWhile_dropWhile_id)
  have r: "\<not> e_claimed r" using Cons by (metis dropWhile_eq_Cons_conv)
  have pre: "\<forall>q \<in> set ?pre. e_claimed q" by (auto dest: set_takeWhileD)
  define pre where "pre = ?pre"
  have g: "ranges g = pre @ r # rest" and pre: "\<forall>q \<in> set pre. e_claimed q"
    using split pre by (simp_all add: pre_def)
  have sorted: "ranges_ok (pre @ r # rest)" using ok g by simp
  note around = ranges_ok_around [OF sorted]
  have sub: "X \<subseteq> span r \<Longrightarrow> X \<subseteq> outstanding g - claimed_slots g" for X
    using around claimed_in_subset [of pre] claimed_in_subset [of rest] r unfolding g by auto
  have low: "\<forall>s \<in> outstanding g - claimed_slots g. e_from r \<le> s"
    using ranges_ok_first_unclaimed [OF sorted pre] g by metis
  have m1: "0 < ?m" "?m = max 1 m" by (auto simp: max_def word_gt_0 word_le_nat_alt Suc_le_eq unat_gt_0)
  show ?thesis
  proof (cases "?m < e_to r - e_from r + 1")
    case False
    with claim Cons have res: "res = Some \<lparr>r_from = e_from r, r_to = e_to r\<rparr>"
      "ranges g' = pre @ r\<lparr>e_claimed := True\<rparr> # rest"
      by (auto simp: Let_def pre_def)
    have "claim_spec g m g' \<lparr>r_from = e_from r, r_to = e_to r\<rparr>"
    proof -
      have "{e_from r..e_to r} \<subseteq> outstanding g - claimed_slots g"
        by (rule sub) (simp add: span_def)
      moreover have "claimed_slots g' = claimed_slots g \<union> {e_from r..e_to r}"
        using r by (auto simp: res(2) g span_def)
      moreover have "e_from r \<le> e_to r" "e_to r < IDX_SLOT_NONE"
        using around(1) by (simp_all add: valid_entry_def)
      ultimately show ?thesis
        unfolding claim_spec_def using low valid_span_width [OF around(1) False] m1(2) by simp
    qed
    moreover have "gaps_ok g' \<and> outstanding g' = outstanding g"
      using sorted by (auto simp: res(2) g ranges_ok_append valid_entry_def)
    ultimately show ?thesis by (simp add: res)
  next
    case True
    obtain cut where cut: "cut = e_from r + ?m - 1" by simp
    note bounds = claim_split_bounds [OF around(1) m1(1) True, folded cut]
    show ?thesis
    proof (cases "reserve_one alloc (length (ranges g)) (capacity g)")
      case (Inl e)
      then have "\<not> (\<forall>k. alloc k)" by (auto simp: reserve_one_def Let_def split: if_splits)
      with Inl True claim Cons ok show ?thesis by (auto simp: Let_def)
    next
      case (Inr cap)
      let ?c = "r\<lparr>e_to := cut, e_claimed := True\<rparr>" and ?rest = "r\<lparr>e_from := cut + 1, e_claimed := False\<rparr>"
      from Inr True claim Cons have res: "res = Some \<lparr>r_from = e_from r, r_to = cut\<rparr>"
        "ranges g' = pre @ ?c # ?rest # rest"
        by (auto simp: Let_def pre_def cut)
      have next_to: "cut < cut + 1" using word_neighbours(1) [OF bounds(2)] .
      have top: "cut < IDX_SLOT_NONE" "e_from r \<le> e_to r" "e_to r < IDX_SLOT_NONE"
        using bounds(2) around(1) by (auto simp: valid_entry_def intro: less_trans)
      have parts: "{e_from r..cut} \<union> {cut + 1..e_to r} = span r"
        using bounds by (auto simp: interval_after span_def)
      have claimed: "claimed_slots g' = claimed_slots g \<union> {e_from r..cut}"
        using r by (auto simp: res(2) g)
      have sub': "{e_from r..cut} \<subseteq> outstanding g - claimed_slots g"
        using parts by (intro sub) blast
      have "claim_spec g m g' \<lparr>r_from = e_from r, r_to = cut\<rparr>"
        unfolding claim_spec_def using bounds(1,3) top(1) sub' claimed low m1(2) by simp
      moreover have "outstanding g' = outstanding g"
        using parts by (auto simp: res(2) g)
      moreover have "gaps_ok g'"
      proof -
        have "valid_entry ?c" "valid_entry ?rest"
          using bounds(1) top valid_cut(1) [OF around(1) bounds(2)] by (auto simp: valid_entry_def)
        moreover have "e_to q < cut + 1" if "q \<in> set pre" for q
          using that sorted bounds(1) next_to
          by (meson less_le_trans less_trans list.set_intros(1) ranges_ok_append)
        moreover have "cut < e_from q" if "q \<in> set rest" for q
          using that sorted bounds(2) by (auto simp: ranges_ok_append intro: less_trans)
        ultimately show ?thesis
          using sorted next_to by (auto simp: res(2) ranges_ok_append)
      qed
      ultimately show ?thesis by (simp add: res)
    qed
  qed
qed

section \<open>Releasing and the watermark\<close>

lemma release_reinsert_ok:
  assumes "gaps_ok g" "from \<le> to" "to < IDX_SLOT_NONE" "{from..to} \<inter> claimed_slots g = {}"
    and "release_reinsert alloc g before from to = (st, g')"
  shows "gaps_ok g' \<and> outstanding g \<subseteq> outstanding g' \<and> claimed_slots g' = claimed_slots g \<and>
         ((\<forall>k. alloc k) \<longrightarrow> {from..to} \<subseteq> outstanding g' \<and> st = IDX_OK)"
proof -
  let ?g = "g\<lparr>stats := (stats g)\<lparr>resolved := before\<rparr>\<rparr>"
  have same: "ranges ?g = ranges g" by simp
  show ?thesis
  proof (cases "gaps_insert alloc ?g from to")
    case (Inl e)
    with assms(5) have out: "g' = ?g" by (simp add: release_reinsert_def)
    from Inl have "\<not> (\<forall>k. alloc k)" using gaps_insert_granted [of alloc ?g "from" to] by auto
    with assms(1) show ?thesis unfolding out same by auto
  next
    case (Inr g2)
    with assms(5) have out: "g' = g2" "st = IDX_OK" by (simp_all add: release_reinsert_def)
    have "gaps_ok g2 \<and> outstanding g \<union> {from..to} \<subseteq> outstanding g2 \<and> claimed_slots g2 = claimed_slots g"
      using gaps_insert_ok [OF _ assms(2,3) _ Inr] assms(1,4) unfolding same by simp
    then show ?thesis unfolding out by simp
  qed
qed

lemma idx_gaps_release_ok:
  assumes "gaps_ok g" "t < IDX_SLOT_NONE" "idx_gaps_release alloc (Some g) f t = (st, Some g')"
  shows "gaps_ok g' \<and>
         ((\<forall>k. alloc k) \<longrightarrow> outstanding g \<union> {f..t} \<subseteq> outstanding g' \<and>
                              claimed_slots g' = claimed_slots g - {f..t} \<and> st = IDX_OK)"
proof (cases "t < f")
  case True
  with assms show ?thesis by auto
next
  case False
  obtain g1 where g1: "idx_gaps_resolve alloc (Some g) f t = Some g1"
    using idx_gaps_resolve_Some by blast
  note res = idx_gaps_resolve_ok [OF assms(1) g1]
  have rel: "release_reinsert alloc g1 (resolved (stats g)) f t = (st, g')"
    using assms(3) False g1 by (auto split: prod.splits simp del: idx_gaps_resolve.simps)
  have free: "{f..t} \<inter> claimed_slots g1 = {}" using res claimed_in_subset [of "ranges g1"] by blast
  from False have "f \<le> t" by simp
  note ins = release_reinsert_ok [OF res [THEN conjunct1] \<open>f \<le> t\<close> assms(2) free rel]
  from ins res show ?thesis by auto
qed

definition first_slot :: "idx_gaps \<Rightarrow> u64" where
  "first_slot g = (case ranges g of [] \<Rightarrow> IDX_SLOT_NONE | r # _ \<Rightarrow> e_from r)"

lemma first_slot_least:
  assumes "gaps_ok g" "s \<in> outstanding g"
  shows "first_slot g \<le> s \<and> first_slot g \<in> outstanding g \<and> first_slot g < IDX_SLOT_NONE"
proof (cases "ranges g")
  case Nil
  with assms show ?thesis by simp
next
  case (Cons r rest)
  with assms have v: "e_from r \<le> e_to r" "e_to r < IDX_SLOT_NONE"
    and later: "\<forall>q \<in> set rest. e_to r < e_from q"
    by (auto simp: valid_entry_def)
  from assms(2) Cons have "s \<in> span r \<or> (\<exists>q \<in> set rest. s \<in> span q)"
    by (auto simp: outstanding_in_def)
  with v later have "e_from r \<le> s" by (fastforce simp: span_def)
  with v Cons show ?thesis by (auto simp: first_slot_def span_def)
qed

lemma idx_gaps_watermark_below:
  assumes "gaps_ok g" "idx_gaps_watermark (Some g) high \<noteq> IDX_SLOT_NONE" "s \<in> outstanding g"
  shows "idx_gaps_watermark (Some g) high < s"
proof -
  note first = first_slot_least [OF assms(1,3)]
  let ?w = "idx_gaps_watermark (Some g) high"
  have w: "?w = (if first_slot g = 0 then IDX_SLOT_NONE
      else if high = IDX_SLOT_NONE \<or> first_slot g - 1 < high then first_slot g - 1 else high)"
  proof -
    have "first_slot g \<noteq> IDX_SLOT_NONE" using first by auto
    then show ?thesis by (simp add: first_slot_def Let_def)
  qed
  from assms(2) have pos: "0 < first_slot g" unfolding w by (auto simp: word_gt_0 split: if_splits)
  have "first_slot g - 1 < first_slot g" using word_neighbours(2) [OF pos] .
  then have "?w < first_slot g" unfolding w using pos by (auto simp: not_less)
  with first show ?thesis by (meson less_le_trans)
qed

section \<open>Statistics\<close>

lemma card_word_interval:
  fixes a b :: u64
  assumes "a \<le> b"
  shows "card {a..b} = unat b - unat a + 1"
proof -
  have "unat ` {a..b} = {unat a..unat b}"
  proof
    show "unat ` {a..b} \<subseteq> {unat a..unat b}" by (auto simp: word_le_nat_alt)
    show "{unat a..unat b} \<subseteq> unat ` {a..b}"
    proof
      fix n assume n: "n \<in> {unat a..unat b}"
      then have "n < 18446744073709551616" using unat_u64 [of b] by simp
      then have "unat (word_of_nat n :: u64) = n" by (simp add: unat_of_nat)
      with n show "n \<in> unat ` {a..b}"
        by (intro image_eqI [of _ _ "word_of_nat n"]) (auto simp: word_le_nat_alt)
    qed
  qed
  moreover have "inj_on (unat :: u64 \<Rightarrow> nat) {a..b}" by (simp add: inj_on_def word_unat_eq_iff)
  ultimately have "card {a..b} = card {unat a..unat b}" by (metis card_image)
  with assms show ?thesis by (simp add: word_le_nat_alt Suc_diff_le)
qed

lemma slots_in_fold:
  "fold (\<lambda>r total. total + (e_to r - e_from r + 1)) rs z = z + (\<Sum>r\<leftarrow>rs. e_to r - e_from r + 1)"
  by (induction rs arbitrary: z) (simp_all add: ac_simps)

lemma span_card: "valid_entry r \<Longrightarrow> word_of_nat (card (span r)) = e_to r - e_from r + 1"
proof -
  assume "valid_entry r"
  then have le: "e_from r \<le> e_to r" by (simp add: valid_entry_def)
  then have "(word_of_nat (unat (e_to r) - unat (e_from r)) :: u64) = e_to r - e_from r"
    by (simp add: of_nat_diff word_le_nat_alt)
  with le show ?thesis by (simp add: span_def card_word_interval)
qed

lemma slots_in_card: "ranges_ok rs \<Longrightarrow> slots_in rs = word_of_nat (card (outstanding_in rs))"
proof (induction rs)
  case Nil
  then show ?case by (simp add: slots_in_def)
next
  case (Cons r rs)
  have "span r \<inter> outstanding_in rs = {}"
    using ranges_ok_around(3) [of "[]" r rs] Cons.prems by simp
  then have "card (outstanding_in (r # rs)) = card (span r) + card (outstanding_in rs)"
    by (simp add: card_Un_disjoint outstanding_in_def span_def)
  with Cons span_card [of r] show ?case
    by (simp add: slots_in_def slots_in_fold)
qed

definition stats_ok :: "idx_gaps \<Rightarrow> bool" where
  "stats_ok g \<longleftrightarrow> range_count (stats g) = length (ranges g) \<and>
     slot_count (stats g) = word_of_nat (card (outstanding g)) \<and>
     lowest (stats g) = first_slot g"

lemma stats_ok_refresh: "gaps_ok g \<Longrightarrow> stats_ok (refresh_stats g)"
  by (simp add: stats_ok_def refresh_stats_def slots_in_card first_slot_def)

lemma stats_ok_cong:
  "stats_ok g \<Longrightarrow> ranges h = ranges g \<Longrightarrow> range_count (stats h) = range_count (stats g) \<Longrightarrow>
     slot_count (stats h) = slot_count (stats g) \<Longrightarrow> lowest (stats h) = lowest (stats g) \<Longrightarrow> stats_ok h"
  by (simp add: stats_ok_def first_slot_def)

section \<open>The interface the fetchers and the pipeline rely on\<close>

text \<open>
  A store of outstanding slots: resolving takes exactly a range out, releasing never
  loses a slot and gives the range back to the claimants. The fetchers are proved against
  these laws.
\<close>

locale slot_store =
  fixes inv :: "'s \<Rightarrow> bool"
    and out :: "'s \<Rightarrow> u64 set"
    and resolve :: "'s \<Rightarrow> u64 \<Rightarrow> u64 \<Rightarrow> 's"
    and release :: "'s \<Rightarrow> u64 \<Rightarrow> u64 \<Rightarrow> 's"
  assumes inv_resolve: "inv s \<Longrightarrow> inv (resolve s f t)"
    and out_resolve: "inv s \<Longrightarrow> out (resolve s f t) = out s - {f..t}"
    and inv_release: "inv s \<Longrightarrow> t < IDX_SLOT_NONE \<Longrightarrow> inv (release s f t)"
    and out_release: "inv s \<Longrightarrow> t < IDX_SLOT_NONE \<Longrightarrow> out s \<union> {f..t} \<subseteq> out (release s f t)"
begin

text \<open>Resolving a sequence of ranges takes out their union and nothing else.\<close>

lemma resolve_all:
  "inv s \<Longrightarrow>
     inv (fold (\<lambda>(f, t) s. resolve s f t) qs s) \<and>
     out (fold (\<lambda>(f, t) s. resolve s f t) qs s) = out s - (\<Union>(f, t) \<in> set qs. {f..t})"
proof (induction qs arbitrary: s)
  case Nil
  then show ?case by simp
next
  case (Cons q qs)
  obtain f t where q: "q = (f, t)" by (cases q)
  from Cons.IH [OF inv_resolve [OF Cons.prems]] Cons.prems show ?case
    by (auto simp: q out_resolve)
qed

lemma resolve_then_release:
  assumes "inv s" "t < IDX_SLOT_NONE"
  shows "inv (release (fold (\<lambda>(f, t) s. resolve s f t) qs s) f t)"
    and "out s - (\<Union>(f, t) \<in> set qs. {f..t}) \<union> {f..t} \<subseteq>
         out (release (fold (\<lambda>(f, t) s. resolve s f t) qs s) f t)"
  using resolve_all [OF assms(1), of qs] inv_release out_release assms(2) by metis+

end

text \<open>What the two calls leave behind; the gap set with every allocation granted is such a store.\<close>

definition gaps_resolve :: "(nat \<Rightarrow> bool) \<Rightarrow> idx_gaps \<Rightarrow> u64 \<Rightarrow> u64 \<Rightarrow> idx_gaps" where
  "gaps_resolve alloc g f t = (case idx_gaps_resolve alloc (Some g) f t of Some g' \<Rightarrow> g' | None \<Rightarrow> g)"

definition gaps_release :: "(nat \<Rightarrow> bool) \<Rightarrow> idx_gaps \<Rightarrow> u64 \<Rightarrow> u64 \<Rightarrow> idx_gaps" where
  "gaps_release alloc g f t = (case snd (idx_gaps_release alloc (Some g) f t) of Some g' \<Rightarrow> g' | None \<Rightarrow> g)"

abbreviation granted :: "(nat \<Rightarrow> bool) \<Rightarrow> bool" where "granted alloc \<equiv> \<forall>n. alloc n"

lemma idx_gaps_release_Some: "\<exists>st g'. idx_gaps_release alloc (Some g) f t = (st, Some g')"
  using idx_gaps_resolve_Some [of alloc g f t]
  by (auto simp del: idx_gaps_resolve.simps split: prod.splits)

interpretation gap_store: slot_store gaps_ok outstanding "gaps_resolve (\<lambda>_. True)" "gaps_release (\<lambda>_. True)"
proof
  fix g f t
  assume ok: "gaps_ok g"
  obtain g' where "idx_gaps_resolve (\<lambda>_. True) (Some g) f t = Some g'"
    using idx_gaps_resolve_Some by blast
  with idx_gaps_resolve_ok [OF ok this]
  show "gaps_ok (gaps_resolve (\<lambda>_. True) g f t)" "outstanding (gaps_resolve (\<lambda>_. True) g f t) = outstanding g - {f..t}"
    by (simp_all add: gaps_resolve_def del: idx_gaps_resolve.simps)
next
  fix g f t
  assume ok: "gaps_ok g" and t: "t < IDX_SLOT_NONE"
  obtain st g' where "idx_gaps_release (\<lambda>_. True) (Some g) f t = (st, Some g')"
    using idx_gaps_release_Some by blast
  with idx_gaps_release_ok [OF ok t this]
  show "gaps_ok (gaps_release (\<lambda>_. True) g f t)" "outstanding g \<union> {f..t} \<subseteq> outstanding (gaps_release (\<lambda>_. True) g f t)"
    by (simp_all add: gaps_release_def del: idx_gaps_release.simps)
qed

section \<open>Runs of the gap set\<close>

text \<open>
  A run starts from \<^verbatim>\<open>idx_gaps_new\<close> and applies critical sections in any order, each with
  its own answers of the allocator, of which the run only promises \<open>P\<close>. \<open>M\<close> is what the callers
  have reported missing and not yet resolved. \<open>W\<close> are the calls of \<^verbatim>\<open>idx_gaps_release\<close> in
  progress: their three sections read the counter, take the range out and put it back, and
  anything may run in between. A range is inserted, by \<^verbatim>\<open>idx_gaps_add\<close> or at the end of a
  release, only where no fetcher holds a claim: the pipeline reports a slot once, and a
  fetcher releases what it claimed itself.
\<close>

datatype release = Counted u64 u64 u64 | Taken u64 u64 u64

definition window :: "release multiset \<Rightarrow> u64 set" where
  "window W = (\<Union>w \<in> set_mset W. case w of Counted _ _ _ \<Rightarrow> {} | Taken _ f t \<Rightarrow> {f..t})"

lemma window_simps [simp]:
  "window {#} = {}" "window (add_mset (Counted b f t) W) = window W" "window (add_mset (Taken b f t) W) = {f..t} \<union> window W"
  by (simp_all add: window_def)

inductive gaps_run :: "((nat \<Rightarrow> bool) \<Rightarrow> bool) \<Rightarrow> idx_gaps \<Rightarrow> u64 set \<Rightarrow> release multiset \<Rightarrow> bool" for P where
  start: "idx_gaps_new True limit = Inr g \<Longrightarrow> gaps_run P g {} {#}"
| add: "gaps_run P g M W \<Longrightarrow> P alloc \<Longrightarrow> t < IDX_SLOT_NONE \<Longrightarrow> {f..t} \<inter> claimed_slots g = {} \<Longrightarrow>
     idx_gaps_add alloc (Some g) f t = Inr g' \<Longrightarrow> gaps_run P g' (M \<union> {f..t}) W"
| claim: "gaps_run P g M W \<Longrightarrow> P alloc \<Longrightarrow> idx_gaps_claim alloc (Some g) m = (Some g', c) \<Longrightarrow>
     gaps_run P g' M W"
| resolve: "gaps_run P g M W \<Longrightarrow> P alloc \<Longrightarrow> idx_gaps_resolve alloc (Some g) f t = Some g' \<Longrightarrow>
     gaps_run P g' (M - {f..t}) W"
| release_count: "gaps_run P g M W \<Longrightarrow> f \<le> t \<Longrightarrow> t < IDX_SLOT_NONE \<Longrightarrow>
     gaps_run P g M (add_mset (Counted (resolved (stats g)) f t) W)"
| release_take: "gaps_run P g M (add_mset (Counted b f t) W) \<Longrightarrow> f \<le> t \<Longrightarrow> t < IDX_SLOT_NONE \<Longrightarrow> P alloc \<Longrightarrow>
     idx_gaps_resolve alloc (Some g) f t = Some g' \<Longrightarrow> gaps_run P g' M (add_mset (Taken b f t) W)"
| release_put: "gaps_run P g M (add_mset (Taken b f t) W) \<Longrightarrow> f \<le> t \<Longrightarrow> t < IDX_SLOT_NONE \<Longrightarrow> P alloc \<Longrightarrow>
     {f..t} \<inter> claimed_slots g = {} \<Longrightarrow> release_reinsert alloc g b f t = (st, g') \<Longrightarrow> gaps_run P g' M W"

lemma idx_gaps_add_ok:
  assumes "gaps_ok g" "t < IDX_SLOT_NONE" "{f..t} \<inter> claimed_slots g = {}"
    "idx_gaps_add alloc (Some g) f t = Inr g'"
  shows "gaps_ok g' \<and> outstanding g \<union> {f..t} \<subseteq> outstanding g' \<and> claimed_slots g' = claimed_slots g"
proof (cases "t < f \<or> f = IDX_SLOT_NONE")
  case True
  with assms show ?thesis by auto
next
  case False
  then have ft: "f \<le> t" by auto
  from False assms(4) obtain g1 where ins: "gaps_insert alloc g f t = Inr g1"
    and g': "ranges g' = ranges g1"
    by (auto simp: idx_try_Inr_iff)
  from gaps_insert_ok [OF assms(1) ft assms(2,3) ins] show ?thesis by (simp add: g')
qed

lemma gaps_run_ok: "gaps_run P g M W \<Longrightarrow> gaps_ok g"
proof (induction rule: gaps_run.induct)
  case (start limit g)
  then show ?case by (auto simp: idx_gaps_new_def)
next
  case (add g M W alloc t f g')
  then show ?case using idx_gaps_add_ok by blast
next
  case (claim g M W alloc m g' c)
  then show ?case using idx_gaps_claim_ok by blast
next
  case (resolve g M W alloc f t g')
  then show ?case using idx_gaps_resolve_ok by blast
next
  case (release_take g M b f t W alloc g')
  then show ?case using idx_gaps_resolve_ok by blast
next
  case (release_put g M b f t W alloc st g')
  then show ?case using release_reinsert_ok by blast
qed

lemma gaps_run_keeps: "gaps_run granted g M W \<Longrightarrow> M \<subseteq> outstanding g \<union> window W"
proof (induction rule: gaps_run.induct)
  case (add g M W alloc t f g')
  from idx_gaps_add_ok [OF gaps_run_ok [OF add(1)] add(3-5)] add.IH show ?case by blast
next
  case (claim g M W alloc m g' c)
  from idx_gaps_claim_ok [OF gaps_run_ok [OF claim(1)] claim(3)] claim.IH show ?case by auto
next
  case (resolve g M W alloc f t g')
  from idx_gaps_resolve_ok [OF gaps_run_ok [OF resolve(1)] resolve(3)] resolve(2) resolve.IH
  show ?case by auto
next
  case (release_take g M b f t W alloc g')
  from idx_gaps_resolve_ok [OF gaps_run_ok [OF release_take(1)] release_take(5)] release_take(4) release_take.IH
  show ?case by auto
next
  case (release_put g M b f t W alloc st g')
  from release_reinsert_ok [OF gaps_run_ok [OF release_put(1)] release_put(2,3,5,6)] release_put(4) release_put.IH
  show ?case by auto
qed simp_all

lemma gaps_insert_stats:
  assumes "gaps_ok g" "f \<le> t" "t < IDX_SLOT_NONE" "{f..t} \<inter> claimed_slots g = {}"
    "gaps_insert alloc g f t = Inr g'"
  shows "stats_ok g'"
proof -
  obtain h where "g' = refresh_stats h" using assms(5)
    by (auto simp: gaps_insert_def idx_try_Inr_iff split_beta)
  moreover have "gaps_ok g'" using gaps_insert_ok [OF assms] by simp
  ultimately show ?thesis using stats_ok_refresh [of h] by simp
qed

lemma idx_gaps_resolve_stats:
  assumes "gaps_ok g" "stats_ok g" "idx_gaps_resolve alloc (Some g) f t = Some g'"
  shows "stats_ok g'"
proof (cases "t < f")
  case False
  with assms(3) obtain h where "g' = refresh_stats h" by (auto split: prod.splits)
  moreover have "gaps_ok g'" using idx_gaps_resolve_ok [OF assms(1,3)] by simp
  ultimately show ?thesis using stats_ok_refresh [of h] by simp
qed (use assms in auto)

lemma release_reinsert_stats:
  assumes "gaps_ok g" "stats_ok g" "f \<le> t" "t < IDX_SLOT_NONE" "{f..t} \<inter> claimed_slots g = {}"
    "release_reinsert alloc g b f t = (st, g')"
  shows "stats_ok g'"
proof -
  let ?g = "g\<lparr>stats := (stats g)\<lparr>resolved := b\<rparr>\<rparr>"
  have ok: "stats_ok ?g" by (rule stats_ok_cong [OF assms(2)]) simp_all
  show ?thesis
  proof (cases "gaps_insert alloc ?g f t")
    case (Inl e)
    with assms(6) ok show ?thesis by (auto simp: release_reinsert_def)
  next
    case (Inr g2)
    with assms(6) have "g' = g2" by (simp add: release_reinsert_def)
    with gaps_insert_stats [OF _ assms(3,4) _ Inr] assms(1,5) show ?thesis by simp
  qed
qed

lemma idx_gaps_claim_stats:
  assumes "gaps_ok g" "idx_gaps_claim alloc (Some g) m = (Some g', c)"
  shows "stats_ok g'"
proof -
  obtain h where "g' = refresh_stats h"
    using assms(2) by (auto simp: Let_def split: list.splits sum.splits if_splits)
  moreover have "gaps_ok g'" using idx_gaps_claim_ok [OF assms] by simp
  ultimately show ?thesis using stats_ok_refresh [of h] by simp
qed

lemma idx_gaps_add_stats:
  assumes "gaps_ok g" "stats_ok g" "t < IDX_SLOT_NONE" "{f..t} \<inter> claimed_slots g = {}"
    "idx_gaps_add alloc (Some g) f t = Inr g'"
  shows "stats_ok g'"
proof (cases "t < f \<or> f = IDX_SLOT_NONE")
  case False
  with assms(5) obtain g1 where ins: "gaps_insert alloc g f t = Inr g1"
    and g': "g' = g1\<lparr>stats := (stats g1)\<lparr>added := added (stats g1) + 1\<rparr>\<rparr>"
    by (auto simp: idx_try_Inr_iff)
  have "stats_ok g1" using gaps_insert_stats [OF assms(1) _ assms(3,4) ins] False by auto
  then show ?thesis by (rule stats_ok_cong) (simp_all add: g')
qed (use assms in auto)

lemma gaps_run_stats: "gaps_run P g M W \<Longrightarrow> stats_ok g"
proof (induction rule: gaps_run.induct)
  case (start limit g)
  then show ?case by (auto simp: idx_gaps_new_def stats_ok_def first_slot_def)
next
  case (add g M W alloc t f g')
  then show ?case using idx_gaps_add_stats gaps_run_ok by blast
next
  case (claim g M W alloc m g' c)
  then show ?case using idx_gaps_claim_stats gaps_run_ok by blast
next
  case (resolve g M W alloc f t g')
  then show ?case using idx_gaps_resolve_stats gaps_run_ok by blast
next
  case (release_take g M b f t W alloc g')
  then show ?case using idx_gaps_resolve_stats gaps_run_ok by blast
next
  case (release_put g M b f t W alloc st g')
  then show ?case using release_reinsert_stats gaps_run_ok by blast
qed

section \<open>A sample run\<close>

text \<open>The set after reporting the slots 10 to 20 missing, and after a fetcher claimed four of them.\<close>

definition sample_gaps :: idx_gaps where
  "sample_gaps = \<lparr>ranges = [\<lparr>e_from = 10, e_to = 20, e_claimed = False\<rparr>], capacity = 16,
     max_ranges = 8, stats = \<lparr>added = 1, resolved = 0, coarsened = 0, range_count = 1,
       slot_count = 11, lowest = 10\<rparr>\<rparr>"

lemma IDX_SLOT_NONE_numeral: "IDX_SLOT_NONE = 18446744073709551615"
  by (simp add: IDX_SLOT_NONE_def)

lemma sample_add:
  "idx_gaps_new True 8 = Inr g \<Longrightarrow> idx_gaps_add (\<lambda>_. True) (Some g) 10 20 = Inr sample_gaps"
  by (auto simp: idx_gaps_new_def gaps_insert_def reserve_one_def insert_sorted_def coarsen.simps
      refresh_stats_def slots_in_def sample_gaps_def IDX_SLOT_NONE_numeral Let_def)

lemma sample_run: "gaps_run granted sample_gaps {10..20} {#}"
proof -
  obtain g where g: "idx_gaps_new True 8 = Inr g" by (simp add: idx_gaps_new_def)
  then have "claimed_slots g = {}" by (auto simp: idx_gaps_new_def)
  with gaps_run.add [OF gaps_run.start [OF g] _ _ _ sample_add [OF g], where P = granted] show ?thesis
    by (simp add: IDX_SLOT_NONE_numeral)
qed

text \<open>The same set while slots 15 to 20 are being released: they are out of it for a moment.\<close>

definition released_gaps :: idx_gaps where
  "released_gaps = \<lparr>ranges = [\<lparr>e_from = 10, e_to = 14, e_claimed = False\<rparr>], capacity = 16,
     max_ranges = 8, stats = \<lparr>added = 1, resolved = 6, coarsened = 0, range_count = 1,
       slot_count = 5, lowest = 10\<rparr>\<rparr>"

lemma sample_release: "gaps_run granted released_gaps {10..20} {#Taken 0 15 20#}"
proof -
  have "idx_gaps_resolve (\<lambda>_. True) (Some sample_gaps) 15 20 = Some released_gaps"
    by (simp add: sample_gaps_def released_gaps_def refresh_stats_def slots_in_def)
  moreover have "gaps_run granted sample_gaps {10..20} {#Counted 0 15 20#}"
    using gaps_run.release_count [OF sample_run, of 15 20]
    by (simp add: IDX_SLOT_NONE_numeral sample_gaps_def word_le_nat_alt)
  ultimately show ?thesis
    using gaps_run.release_take [of granted sample_gaps "{10..20}" 0 15 20 "{#}" "\<lambda>_. True" released_gaps]
    by (simp add: IDX_SLOT_NONE_numeral word_le_nat_alt del: idx_gaps_resolve.simps)
qed

section \<open>Properties\<close>

text \<open>
  C1: No hole is forgotten. In every run of the gap set in which memory is granted and ranges
  are inserted only where nothing is claimed and below the sentinel, each slot that was reported missing and not resolved since is still outstanding, or in the
  window of a release that will put it back: merging, coarsening, claiming, splitting and
  releasing never drop it.
\<close>

theorem gaps_never_forget:
  assumes "gaps_run granted g M W"
  shows "M \<subseteq> outstanding g \<union> window W \<and> (W = {#} \<longrightarrow> M \<subseteq> outstanding g)"
  using gaps_run_keeps [OF assms] by auto

theorem gaps_never_forget_witness:
  "gaps_run granted released_gaps {10..20} {#Taken 0 15 20#} \<and> {10..20} \<subseteq> outstanding released_gaps \<union> {15..20}"
  using sample_release gaps_never_forget [OF sample_release] by simp

text \<open>
  C2: The durable position is sound. In every run of the gap set in which memory is granted
  and ranges are inserted only where nothing is claimed and below the sentinel, a watermark other than the sentinel, which says nothing can be trusted yet, lies strictly
  below every slot that was reported missing, not resolved since and not in the window of a
  release just then; and it never exceeds the highest committed slot.
\<close>

theorem gaps_watermark_sound:
  assumes "gaps_run granted g M W" and "idx_gaps_watermark (Some g) highest_committed = w" and "w \<noteq> IDX_SLOT_NONE"
  shows "(\<forall>s \<in> M - window W. w < s) \<and> (highest_committed \<noteq> IDX_SLOT_NONE \<longrightarrow> w \<le> highest_committed)"
proof -
  have "w < s" if "s \<in> M - window W" for s
    using idx_gaps_watermark_below [OF gaps_run_ok [OF assms(1)]] gaps_run_keeps [OF assms(1)] assms(2,3) that by blast
  moreover have "highest_committed \<noteq> IDX_SLOT_NONE \<longrightarrow> w \<le> highest_committed"
    using assms(2,3) by (auto simp: Let_def split: if_splits list.splits)
  ultimately show ?thesis by blast
qed

theorem gaps_watermark_sound_witness:
  "idx_gaps_watermark (Some released_gaps) 500 = 9 \<and> (9 :: u64) < 12"
proof -
  have w: "idx_gaps_watermark (Some released_gaps) 500 = 9"
    by (simp add: released_gaps_def IDX_SLOT_NONE_numeral)
  have "(12 :: u64) \<in> {10..20} - window {#Taken 0 15 20#}" by (simp add: word_le_nat_alt)
  with gaps_watermark_sound [OF sample_release w] w show ?thesis by (simp add: IDX_SLOT_NONE_numeral)
qed

text \<open>
  C33: The representation invariant of the header holds in every run, whatever allocations
  fail, as long as no range is inserted over a claimed one and none ends at the sentinel
  (\<open>add_over_claim_overlaps\<close> shows what happens otherwise): ranges stay sorted, disjoint and
  non-empty, and the statistics agree with them (number of ranges, number of outstanding
  slots, lowest outstanding slot), also between the sections of a release.
\<close>

theorem gaps_run_invariant:
  assumes "gaps_run P g M W"
  shows "gaps_ok g \<and> stats_ok g"
  using gaps_run_ok [OF assms] gaps_run_stats [OF assms] by simp

theorem gaps_run_invariant_witness: "gaps_ok released_gaps \<and> stats_ok released_gaps"
  using gaps_run_invariant [OF sample_release] .

text \<open>
  A claim hands out the lowest claimable slots, at most \<open>max_span\<close> of them, none of
  which another fetcher holds; it marks exactly those as claimed and leaves the
  outstanding set as it was. A claim that finds nothing changes no range, and when memory
  is granted it means that every outstanding slot is already claimed.
\<close>

theorem gaps_claim_lowest:
  assumes "gaps_ok g" and "idx_gaps_claim alloc (Some g) max_span = (Some g', res)"
  shows "outstanding g' = outstanding g \<and>
    (case res of
       None \<Rightarrow> ranges g' = ranges g \<and> ((\<forall>k. alloc k) \<longrightarrow> outstanding g = claimed_slots g)
     | Some c \<Rightarrow> claim_spec g max_span g' c)"
  using idx_gaps_claim_ok [OF assms] by simp

theorem gaps_claim_lowest_witness:
  "\<exists>g'. idx_gaps_claim (\<lambda>_. True) (Some sample_gaps) 4 = (Some g', Some \<lparr>r_from = 10, r_to = 13\<rparr>) \<and>
     claim_spec sample_gaps 4 g' \<lparr>r_from = 10, r_to = 13\<rparr>"
proof -
  obtain g' where g': "idx_gaps_claim (\<lambda>_. True) (Some sample_gaps) 4 =
      (Some g', Some \<lparr>r_from = 10, r_to = 13\<rparr>)"
    by (simp add: sample_gaps_def reserve_one_def Let_def)
  from gaps_claim_lowest [OF gaps_run_ok [OF sample_run] g'] g' show ?thesis by auto
qed

text \<open>
  Resolving a range removes exactly its slots, from the claimed ones and from the
  claimable ones alike, when the array can grow for a split.
\<close>

theorem gaps_resolve_exact:
  assumes "gaps_ok g" and "\<forall>k. alloc k" and "idx_gaps_resolve alloc (Some g) from to = Some g'"
  shows "outstanding g' = outstanding g - {from..to} \<and> claimed_slots g' = claimed_slots g - {from..to}"
  using idx_gaps_resolve_ok [OF assms(1,3)] assms(2) by blast

theorem gaps_resolve_exact_witness:
  "\<exists>g'. idx_gaps_resolve (\<lambda>_. True) (Some sample_gaps) 12 14 = Some g' \<and>
     outstanding g' = outstanding sample_gaps - {12..14}"
proof -
  obtain g' where g': "idx_gaps_resolve (\<lambda>_. True) (Some sample_gaps) 12 14 = Some g'"
    using idx_gaps_resolve_Some by blast
  from gaps_resolve_exact [OF gaps_run_ok [OF sample_run] _ g'] g' show ?thesis by blast
qed

text \<open>
  Releasing a range after a failed fetch keeps every outstanding slot outstanding,
  makes the whole range claimable again, and never fails when memory is granted.
\<close>

theorem gaps_release_returns:
  assumes "gaps_ok g" and "to < IDX_SLOT_NONE" and "\<forall>k. alloc k"
    and "idx_gaps_release alloc (Some g) from to = (st, Some g')"
  shows "st = IDX_OK \<and> outstanding g \<union> {from..to} \<subseteq> outstanding g' \<and>
         claimed_slots g' \<inter> {from..to} = {}"
  using idx_gaps_release_ok [OF assms(1,2,4)] assms(3) by blast

theorem gaps_release_returns_witness:
  "\<exists>st g'. idx_gaps_release (\<lambda>_. True) (Some sample_gaps) 12 14 = (st, Some g') \<and>
     st = IDX_OK \<and> {12..14} \<subseteq> outstanding g'"
proof -
  obtain st g' where g': "idx_gaps_release (\<lambda>_. True) (Some sample_gaps) 12 14 = (st, Some g')"
    using idx_gaps_release_Some by blast
  from gaps_release_returns [OF gaps_run_ok [OF sample_run] _ _ g'] g' show ?thesis
    by (auto simp: IDX_SLOT_NONE_numeral simp del: idx_gaps_release.simps)
qed

section \<open>Where the code departs from its documentation\<close>

definition full_gaps :: idx_gaps where
  "full_gaps = \<lparr>ranges = map (\<lambda>i. \<lparr>e_from = 20 * word_of_nat i + 1, e_to = 20 * word_of_nat i + 10,
       e_claimed = False\<rparr>) [0..<16], capacity = 16, max_ranges = 4096,
     stats = \<lparr>added = 16, resolved = 0, coarsened = 0, range_count = 16, slot_count = 160, lowest = 1\<rparr>\<rparr>"

text \<open>
  The comment in \<^verbatim>\<open>idx_gaps_resolve\<close> says that without room to split, the upper part of
  the range is kept outstanding. The code keeps the lower part: resolving 4 to 5 in a full
  array whose only wide range is 1 to 10 forgets slot 8.
\<close>

theorem resolve_without_room_forgets:
  "8 \<in> outstanding full_gaps \<and>
   (\<exists>g'. idx_gaps_resolve (\<lambda>_. False) (Some full_gaps) 4 5 = Some g' \<and>
         8 \<notin> {4..5 :: u64} \<and> 8 \<notin> outstanding g')"
  by (simp add: full_gaps_def upt_rec reserve_one_def span_def word_le_nat_alt)

text \<open>
  Putting a range back can fail for want of memory, and the callers ignore that status. A
  fetcher that gives back the end of its claim in a full array loses those slots.
\<close>

definition claimed_gaps :: idx_gaps where
  "claimed_gaps = full_gaps\<lparr>ranges := (ranges full_gaps)[0 := \<lparr>e_from = 1, e_to = 10, e_claimed = True\<rparr>]\<rparr>"

theorem release_without_room_forgets:
  "8 \<in> outstanding claimed_gaps \<and>
   (\<exists>g'. idx_gaps_release (\<lambda>_. False) (Some claimed_gaps) 7 10 = (IDX_ERR_NO_MEMORY, Some g') \<and> 8 \<notin> outstanding g')"
  by (simp add: claimed_gaps_def full_gaps_def upt_rec reserve_one_def span_def word_le_nat_alt release_reinsert_def
      gaps_insert_def refresh_stats_def)

text \<open>
  \<^verbatim>\<open>idx_gaps_release\<close> drops the lock between taking the range out and putting it back.
  A watermark computed by another thread in that window passes over the released slots.
\<close>

theorem release_window_watermark:
  "\<exists>g1. idx_gaps_resolve (\<lambda>_. True) (Some sample_gaps) 10 20 = Some g1 \<and>
     idx_gaps_watermark (Some g1) 500 = 500 \<and>
     12 \<in> outstanding (snd (release_reinsert (\<lambda>_. True) g1 0 10 20))"
  by (simp add: sample_gaps_def refresh_stats_def release_reinsert_def gaps_insert_def
      reserve_one_def insert_sorted_def coarsen.simps Let_def span_def)

text \<open>
  The header says ranges are kept disjoint. That relies on the callers: reporting a range
  that overlaps a claimed one leaves both in the array, and slot 12 is held twice.
\<close>

theorem add_over_claim_overlaps:
  "\<exists>g1 c g2. idx_gaps_claim (\<lambda>_. True) (Some sample_gaps) 100 = (Some g1, Some c) \<and>
     idx_gaps_add (\<lambda>_. True) (Some g1) 12 25 = Inr g2 \<and> \<not> gaps_ok g2 \<and>
     slot_count (stats g2) = 25 \<and> outstanding g2 = {10..25}"
proof -
  have "{10..20} \<union> {12..25 :: u64} = {10..25}" by (auto simp: word_le_nat_alt)
  then show ?thesis
    by (simp add: sample_gaps_def refresh_stats_def gaps_insert_def reserve_one_def
        insert_sorted_def coarsen.simps Let_def span_def slots_in_def IDX_SLOT_NONE_numeral)
qed

end
