(* ===== verification/Ring.thy ===== *)
theory Ring
  imports Prelude "HOL-Library.Multiset"
begin

text \<open>
  The bounded hand-off between the receive thread and the processing thread
  (\<^verbatim>\<open>src/ring.c\<close>, \<^verbatim>\<open>include/ring.h\<close>). Every call holds the ring's mutex from its first
  read to its last write, except while it waits on a condition variable. A call is
  therefore a sequence of attempts: each attempt is one critical section and either
  finishes the call or parks the thread until it is woken or its deadline passes.
  \<open>'d\<close> is the type of parsed documents, \<open>'v\<close> of the borrowed nodes inside them. The
  documents a call hands to \<^verbatim>\<open>idx_json_free\<close> are part of its result.
\<close>

section \<open>State\<close>

record ('d, 'v) idx_ring_entry =
  seq :: u64
  slot :: u64
  doc :: "'d option"
  "value" :: 'v
  tag :: u64
  bytes :: nat

record idx_ring_stats =
  published :: u64
  consumed :: u64
  dropped :: u64
  st_bytes :: u64
  st_depth :: nat
  queued :: nat
  high_water :: nat

record ('d, 'v) idx_ring =
  queue :: "('d, 'v) idx_ring_entry list"
  depth :: nat
  head :: u64
  tail :: u64
  next_seq :: u64
  closed :: bool
  block_when_full :: bool
  stats :: idx_ring_stats

record idx_ring_options =
  opt_depth :: nat
  opt_block_when_full :: bool

definition IDX_RING_DEFAULT_DEPTH :: nat where
  "IDX_RING_DEFAULT_DEPTH = 8"

definition idx_ring_options_init :: "idx_ring_options option \<Rightarrow> idx_ring_options option" where
  "idx_ring_options_init = map_option (\<lambda>opts. opts\<lparr>opt_depth := IDX_RING_DEFAULT_DEPTH, opt_block_when_full := False\<rparr>)"

text \<open>How one attempt of a call ends: with a status, or parked on a condition variable.\<close>

datatype 'a attempt = Finished 'a | Waiting

section \<open>Operations\<close>

definition note_queued :: "('d, 'v) idx_ring \<Rightarrow> ('d, 'v) idx_ring" where
  "note_queued r = (let q = unat (head r - tail r) in
     r\<lparr>stats := (stats r)\<lparr>queued := q,
         high_water := (if q > high_water (stats r) then q else high_water (stats r))\<rparr>\<rparr>)"

text \<open>\<open>blank\<close> is the zeroed entry \<^verbatim>\<open>calloc\<close> fills the queue with.\<close>

definition idx_ring_new ::
    "bool \<Rightarrow> ('d, 'v) idx_ring_entry \<Rightarrow> idx_ring_options option \<Rightarrow> ('d, 'v) idx_ring result" where
  "idx_ring_new calloc_ok blank opts =
     (let d = (case opts of
                 None \<Rightarrow> IDX_RING_DEFAULT_DEPTH
               | Some op \<Rightarrow> if opt_depth op \<noteq> 0 then opt_depth op else IDX_RING_DEFAULT_DEPTH);
          block = (case opts of None \<Rightarrow> False | Some op \<Rightarrow> opt_block_when_full op)
      in if d < 2 then Inl IDX_ERR_RANGE
         else if \<not> calloc_ok then Inl IDX_ERR_NO_MEMORY
         else Inr \<lparr>queue = replicate d blank, depth = d, head = 0, tail = 0, next_seq = 0,
                   closed = False, block_when_full = block,
                   stats = \<lparr>published = 0, consumed = 0, dropped = 0, st_bytes = 0, st_depth = d,
                            queued = 0, high_water = 0\<rparr>\<rparr>)"

abbreviation index_of :: "u64 \<Rightarrow> ('d, 'v) idx_ring \<Rightarrow> nat" where
  "index_of i r \<equiv> unat i mod depth r"

definition docs_of :: "('d, 'v) idx_ring_entry \<Rightarrow> 'd list" where
  "docs_of e = (case doc e of None \<Rightarrow> [] | Some d \<Rightarrow> [d])"

text \<open>\<^verbatim>\<open>idx_ring_free\<close> hands every document still queued to \<^verbatim>\<open>idx_json_free\<close>, oldest first.\<close>

function idx_ring_free :: "('d, 'v) idx_ring \<Rightarrow> 'd list" where
  "idx_ring_free r =
     (if tail r = head r then []
      else docs_of (queue r ! index_of (tail r) r) @ idx_ring_free (r\<lparr>tail := tail r + 1\<rparr>))"
  by pat_completeness auto
termination
proof (relation "measure (\<lambda>r. unat (head r - tail r))")
  fix r :: "('d, 'v) idx_ring"
  assume "tail r \<noteq> head r"
  then have "head r - tail r \<noteq> 0" by simp
  then have "unat (head r - tail r - 1) < unat (head r - tail r)"
    by (metis unat_minus_one unat_gt_0 diff_Suc_less One_nat_def)
  then show "(r\<lparr>tail := tail r + 1\<rparr>, r) \<in> measure (\<lambda>r. unat (head r - tail r))"
    by (simp add: algebra_simps)
qed simp

declare idx_ring_free.simps [simp del]

definition drop_oldest :: "('d, 'v) idx_ring \<Rightarrow> ('d, 'v) idx_ring \<times> 'd list" where
  "drop_oldest r =
     (let i = index_of (tail r) r; oldest = queue r ! i in
      (r\<lparr>queue := (queue r)[i := oldest\<lparr>doc := None\<rparr>], tail := tail r + 1,
         stats := (stats r)\<lparr>dropped := dropped (stats r) + 1\<rparr>\<rparr>,
       docs_of oldest))"

definition enqueue :: "('d, 'v) idx_ring \<Rightarrow> ('d, 'v) idx_ring_entry \<Rightarrow> ('d, 'v) idx_ring" where
  "enqueue r e =
     note_queued (r\<lparr>queue := (queue r)[index_of (head r) r := e\<lparr>seq := next_seq r\<rparr>],
       next_seq := next_seq r + 1, head := head r + 1,
       stats := (stats r)\<lparr>published := published (stats r) + 1,
                          st_bytes := st_bytes (stats r) + word_of_nat (bytes e)\<rparr>\<rparr>)"

text \<open>
  One attempt of \<^verbatim>\<open>idx_ring_publish\<close>: the status, the ring and the documents freed. A
  thread woken from \<^verbatim>\<open>not_full\<close> makes the same attempt again: it tests \<open>closed\<close> first and
  then the loop condition.
\<close>

fun idx_ring_publish ::
    "('d, 'v) idx_ring option \<Rightarrow> ('d, 'v) idx_ring_entry option \<Rightarrow>
     (idx_status \<times> ('d, 'v) idx_ring option \<times> 'd list) attempt" where
  "idx_ring_publish r None = Finished (IDX_ERR_INVALID_ARG, r, [])"
| "idx_ring_publish None (Some e) = Finished (IDX_ERR_INVALID_ARG, None, docs_of e)"
| "idx_ring_publish (Some r) (Some e) =
     (if closed r then Finished (IDX_ERR_CLOSED, Some r, docs_of e)
      else if unat (head r - tail r) \<ge> depth r then
        (if \<not> block_when_full r then
           (let (r', freed) = drop_oldest r in Finished (IDX_OK, Some (enqueue r' e), freed))
         else Waiting)
      else Finished (IDX_OK, Some (enqueue r e), []))"

definition dequeue :: "('d, 'v) idx_ring \<Rightarrow> ('d, 'v) idx_ring" where
  "dequeue r =
     (let i = index_of (tail r) r in
      note_queued (r\<lparr>queue := (queue r)[i := (queue r ! i)\<lparr>doc := None\<rparr>], tail := tail r + 1,
        stats := (stats r)\<lparr>consumed := consumed (stats r) + 1\<rparr>\<rparr>))"

text \<open>
  One attempt of \<^verbatim>\<open>idx_ring_consume\<close>. \<open>expired\<close> says that the attempt resumes from a wait
  which \<^verbatim>\<open>pthread_cond_timedwait\<close> reports as timed out; only a positive timeout waits. Such an
  attempt gives up without looking at the queue again.
\<close>

fun idx_ring_consume ::
    "('d, 'v) idx_ring option \<Rightarrow> int \<Rightarrow> bool \<Rightarrow>
     (idx_status \<times> ('d, 'v) idx_ring option \<times> ('d, 'v) idx_ring_entry option) attempt" where
  "idx_ring_consume None timeout_ms expired = Finished (IDX_ERR_INVALID_ARG, None, None)"
| "idx_ring_consume (Some r) timeout_ms expired =
     (if timeout_ms > 0 \<and> expired then Finished (IDX_ERR_TIMEOUT, Some r, None)
      else if head r = tail r then
        (if closed r then Finished (IDX_ERR_CLOSED, Some r, None)
         else if timeout_ms \<le> 0 then Finished (IDX_ERR_TIMEOUT, Some r, None)
         else Waiting)
      else Finished (IDX_OK, Some (dequeue r), Some (queue r ! index_of (tail r) r)))"

fun idx_ring_release :: "('d, 'v) idx_ring_entry option \<Rightarrow> ('d, 'v) idx_ring_entry option \<times> 'd list" where
  "idx_ring_release None = (None, [])"
| "idx_ring_release (Some e) = (Some (e\<lparr>doc := None\<rparr>), docs_of e)"

definition idx_ring_close :: "('d, 'v) idx_ring option \<Rightarrow> ('d, 'v) idx_ring option" where
  "idx_ring_close = map_option (\<lambda>r. r\<lparr>closed := True\<rparr>)"

definition idx_ring_get_stats :: "('d, 'v) idx_ring option \<Rightarrow> idx_ring_stats option" where
  "idx_ring_get_stats = map_option stats"

text \<open>
  The absolute deadline \<^verbatim>\<open>deadline_from_now\<close> computes from the monotonic clock, as seconds
  and nanoseconds.
\<close>

definition deadline_from_now :: "int \<times> int \<Rightarrow> int \<Rightarrow> int \<times> int" where
  "deadline_from_now now timeout_ms =
     (let s = fst now + timeout_ms div 1000; n = snd now + (timeout_ms mod 1000) * 1000000
      in if n \<ge> 1000000000 then (s + 1, n - 1000000000) else (s, n))"

section \<open>Abstraction and invariant\<close>

definition queued_entries :: "('d, 'v) idx_ring \<Rightarrow> ('d, 'v) idx_ring_entry list" where
  "queued_entries r = map (\<lambda>i. queue r ! (i mod depth r)) [unat (tail r)..<unat (head r)]"

text \<open>\<open>ring_core\<close> holds at every point; \<open>ring_ok\<close> adds the statistic that is refreshed last.\<close>

definition ring_core :: "('d, 'v) idx_ring \<Rightarrow> bool" where
  "ring_core r \<longleftrightarrow>
     2 \<le> depth r \<and> length (queue r) = depth r \<and>
     unat (tail r) \<le> unat (head r) \<and> unat (head r) - unat (tail r) \<le> depth r \<and>
     next_seq r = head r \<and>
     published (stats r) = head r \<and> consumed (stats r) + dropped (stats r) = tail r \<and>
     unat (head r) - unat (tail r) \<le> high_water (stats r) \<and> high_water (stats r) \<le> depth r"

definition ring_ok :: "('d, 'v) idx_ring \<Rightarrow> bool" where
  "ring_ok r \<longleftrightarrow> ring_core r \<and> queued (stats r) = unat (head r) - unat (tail r)"

lemma length_queued_entries: "length (queued_entries r) = unat (head r) - unat (tail r)"
  by (simp add: queued_entries_def)

lemma mod_window:
  fixes i h d :: nat
  assumes "i < h" "h - i < d"
  shows "i mod d \<noteq> h mod d"
proof
  assume "i mod d = h mod d"
  then have "d dvd h - i" using assms(1) by (metis mod_eq_dvd_iff_nat less_imp_le)
  with assms show False by (auto dest: dvd_imp_le)
qed

lemma unat_diff_ring: "ring_core r \<Longrightarrow> unat (head r - tail r) = unat (head r) - unat (tail r)"
  by (simp add: ring_core_def unat_sub word_le_nat_alt)

lemma head_tail_eq: "head r = tail r \<longleftrightarrow> unat (head r) = unat (tail r)"
  by (rule word_unat_eq_iff)

lemma unat_step: "unat (x :: u64) < 2 ^ 64 - 1 \<Longrightarrow> unat (x + 1) = Suc (unat x)"
  by (simp add: unat_word_ariths)

text \<open>Writing the slot of the next head leaves the queued window alone.\<close>

lemma window_update:
  assumes "h - t < d" "t \<le> h" "length q = d"
  shows "map (\<lambda>i. (q[h mod d := e]) ! (i mod d)) [t..<h] = map (\<lambda>i. q ! (i mod d)) [t..<h]"
proof (rule map_cong [OF refl])
  fix i assume "i \<in> set [t..<h]"
  then have "i < h" "h - i < d" using assms by auto
  then have "h mod d \<noteq> i mod d" using mod_window by metis
  then show "(q[h mod d := e]) ! (i mod d) = q ! (i mod d)" by simp
qed

lemma window_update_tail:
  assumes "h - t \<le> d" "t < h" "length q = d"
  shows "map (\<lambda>i. (q[t mod d := e]) ! (i mod d)) [Suc t..<h] = map (\<lambda>i. q ! (i mod d)) [Suc t..<h]"
proof (rule map_cong [OF refl])
  fix i assume "i \<in> set [Suc t..<h]"
  then have "t < i" "i - t < d" using assms by auto
  then have "t mod d \<noteq> i mod d" by (rule mod_window)
  then show "(q[t mod d := e]) ! (i mod d) = q ! (i mod d)" by simp
qed

lemma enqueue_entries:
  assumes "ring_core r" "unat (head r) < 2 ^ 64 - 1" "unat (head r) - unat (tail r) < depth r"
  shows "queued_entries (enqueue r e) = queued_entries r @ [e\<lparr>seq := head r\<rparr>]"
    and "ring_ok (enqueue r e)"
proof -
  let ?q = "(queue r)[unat (head r) mod depth r := e\<lparr>seq := head r\<rparr>]"
  have ns: "next_seq r = head r" and r: "unat (tail r) \<le> unat (head r)" "length (queue r) = depth r" "2 \<le> depth r"
    using assms(1) by (auto simp: ring_core_def)
  have head: "unat (head r + 1) = Suc (unat (head r))" using assms(2) by (rule unat_step)
  have "queued_entries (enqueue r e) = map (\<lambda>i. ?q ! (i mod depth r)) [unat (tail r)..<Suc (unat (head r))]"
    using head ns by (simp add: queued_entries_def enqueue_def note_queued_def Let_def)
  also have "\<dots> = map (\<lambda>i. ?q ! (i mod depth r)) [unat (tail r)..<unat (head r)] @ [?q ! (unat (head r) mod depth r)]"
    using r by simp
  also have "\<dots> = queued_entries r @ [e\<lparr>seq := head r\<rparr>]"
    using window_update [OF assms(3) r(1,2)] r by (simp add: queued_entries_def)
  finally show "queued_entries (enqueue r e) = queued_entries r @ [e\<lparr>seq := head r\<rparr>]" .
  have "unat (head r + 1 - tail r) = Suc (unat (head r)) - unat (tail r)"
    using head r(1) by (subst unat_sub) (auto simp: word_le_nat_alt)
  with head assms r show "ring_ok (enqueue r e)"
    by (auto simp: ring_ok_def ring_core_def enqueue_def note_queued_def Let_def)
qed

lemma advance_entries:
  assumes "ring_core r" "head r \<noteq> tail r"
  shows "queued_entries r = (queue r ! index_of (tail r) r) #
           queued_entries (r\<lparr>queue := (queue r)[index_of (tail r) r := e], tail := tail r + 1\<rparr>)"
    and "unat (tail r + 1) = Suc (unat (tail r))" and "unat (tail r) < unat (head r)"
proof -
  have le: "unat (tail r) \<le> unat (head r)" and n: "unat (head r) - unat (tail r) \<le> depth r"
      "length (queue r) = depth r"
    using assms(1) by (auto simp: ring_core_def)
  show less: "unat (tail r) < unat (head r)"
    using le assms(2) head_tail_eq [of r] by (metis le_neq_implies_less)
  with unat_u64 [of "head r"] show tail: "unat (tail r + 1) = Suc (unat (tail r))"
    by (intro unat_step) simp
  show "queued_entries r = (queue r ! index_of (tail r) r) #
      queued_entries (r\<lparr>queue := (queue r)[index_of (tail r) r := e], tail := tail r + 1\<rparr>)"
    using less tail window_update_tail [OF n(1) less n(2)]
    by (simp add: queued_entries_def upt_conv_Cons)
qed

lemma dequeue_entries:
  assumes "ring_core r" "head r \<noteq> tail r"
  shows "queued_entries r = (queue r ! index_of (tail r) r) # queued_entries (dequeue r)"
    and "ring_ok (dequeue r)"
proof -
  note adv = advance_entries [OF assms]
  show "queued_entries r = (queue r ! index_of (tail r) r) # queued_entries (dequeue r)"
    using adv(1) by (simp add: queued_entries_def dequeue_def note_queued_def Let_def)
  have "unat (head r - (tail r + 1)) = unat (head r) - Suc (unat (tail r))"
    using adv(2,3) by (subst unat_sub) (auto simp: word_le_nat_alt)
  with adv(2,3) assms(1) show "ring_ok (dequeue r)"
    by (auto simp: ring_ok_def ring_core_def dequeue_def note_queued_def Let_def algebra_simps)
qed

lemma drop_oldest_entries:
  assumes "ring_core r" "head r \<noteq> tail r" "drop_oldest r = (r', freed)"
  shows "queued_entries r = (queue r ! index_of (tail r) r) # queued_entries r'"
    and "freed = docs_of (queue r ! index_of (tail r) r)"
    and "ring_core r'" and "unat (head r') - unat (tail r') < depth r'"
    and "head r' = head r" and "tail r' = tail r + 1"
proof -
  note adv = advance_entries [OF assms(1,2)]
  have r': "r' = fst (drop_oldest r)" "freed = snd (drop_oldest r)" using assms(3) by simp_all
  show "queued_entries r = (queue r ! index_of (tail r) r) # queued_entries r'"
    using adv(1) by (simp add: r' queued_entries_def drop_oldest_def Let_def)
  show "freed = docs_of (queue r ! index_of (tail r) r)" "head r' = head r" "tail r' = tail r + 1"
    by (simp_all add: r' drop_oldest_def Let_def)
  have "unat (head r - (tail r + 1)) = unat (head r) - Suc (unat (tail r))"
    using adv(2,3) by (subst unat_sub) (auto simp: word_le_nat_alt)
  with adv(2,3) assms(1) show "ring_core r'" "unat (head r') - unat (tail r') < depth r'"
    by (auto simp: ring_core_def r' drop_oldest_def note_queued_def Let_def algebra_simps)
qed

section \<open>One call\<close>

text \<open>What a completed publish does to the queue, the freed documents and the counters.\<close>

definition counters :: "('d, 'v) idx_ring \<Rightarrow> u64 \<times> u64 \<times> u64 \<times> nat" where
  "counters r = (consumed (stats r), dropped (stats r), st_bytes (stats r), high_water (stats r))"

lemma enqueue_counters:
  "ring_ok (enqueue r e) \<Longrightarrow> counters (enqueue r e) = (consumed (stats r), dropped (stats r),
     st_bytes (stats r) + word_of_nat (bytes e), max (high_water (stats r)) (length (queued_entries (enqueue r e))))"
  using unat_diff_ring [of "enqueue r e"] length_queued_entries [of "enqueue r e"]
  by (auto simp: ring_ok_def counters_def enqueue_def note_queued_def Let_def max_def)

lemma dequeue_counters:
  assumes "ring_core r" "head r \<noteq> tail r"
  shows "counters (dequeue r) = (consumed (stats r) + 1, dropped (stats r), st_bytes (stats r), high_water (stats r))"
proof -
  have "unat (head r - (tail r + 1)) = unat (head r) - Suc (unat (tail r))"
    using advance_entries(2,3) [OF assms] by (subst unat_sub) (auto simp: word_le_nat_alt)
  then have "unat (head r - (tail r + 1)) \<le> high_water (stats r)" using assms(1) by (auto simp: ring_core_def)
  then show ?thesis by (simp add: counters_def dequeue_def note_queued_def Let_def)
qed

lemma drop_counters:
  "fst (drop_oldest r) = q \<Longrightarrow> consumed (stats q) = consumed (stats r) \<and> dropped (stats q) = dropped (stats r) + 1 \<and>
     st_bytes (stats q) = st_bytes (stats r) \<and> high_water (stats q) = high_water (stats r)"
  by (auto simp: drop_oldest_def Let_def)

lemma publish_cases:
  assumes ok: "ring_ok r" and room: "unat (head r) < 2 ^ 64 - 1"
    and pub: "idx_ring_publish (Some r) (Some e) = Finished (st, Some r', freed)"
  obtains (closed) "closed r" "st = IDX_ERR_CLOSED" "r' = r" "freed = docs_of e"
  | (queued) "\<not> closed r" "st = IDX_OK" "freed = []"
      "queued_entries r' = queued_entries r @ [e\<lparr>seq := head r\<rparr>]" "tail r' = tail r" "head r' = head r + 1"
      "ring_ok r'" "block_when_full r' = block_when_full r" "closed r' = closed r"
      "counters r' = (consumed (stats r), dropped (stats r), st_bytes (stats r) + word_of_nat (bytes e),
         max (high_water (stats r)) (length (queued_entries r')))"
  | (dropped) oldest rest where "\<not> closed r" "st = IDX_OK" "\<not> block_when_full r"
      "queued_entries r = oldest # rest" "freed = docs_of oldest"
      "queued_entries r' = rest @ [e\<lparr>seq := head r\<rparr>]" "tail r' = tail r + 1" "head r' = head r + 1"
      "ring_ok r'" "block_when_full r' = block_when_full r" "closed r' = closed r"
      "unat (tail r + 1) = Suc (unat (tail r))"
      "counters r' = (consumed (stats r), dropped (stats r) + 1, st_bytes (stats r) + word_of_nat (bytes e),
         max (high_water (stats r)) (length (queued_entries r')))"
proof -
  have core: "ring_core r" using ok by (simp add: ring_ok_def)
  have same: "block_when_full (enqueue q e) = block_when_full q" "closed (enqueue q e) = closed q"
    "head (enqueue q e) = head q + 1" "tail (enqueue q e) = tail q" for q :: "('a, 'b) idx_ring"
    by (simp_all add: enqueue_def note_queued_def Let_def)
  show thesis
  proof (cases "closed r")
    case True
    with pub have "st = IDX_ERR_CLOSED" "r' = r" "freed = docs_of e" by simp_all
    with True show thesis by (rule that(1))
  next
    case open_ring: False
    show thesis
    proof (cases "unat (head r - tail r) \<ge> depth r")
      case False
      then have fits: "unat (head r) - unat (tail r) < depth r"
        by (simp add: unat_diff_ring [OF core])
      from False open_ring pub have "r' = enqueue r e" "st = IDX_OK" "freed = []" by auto
      with enqueue_entries [OF core room fits, of e] enqueue_counters [of r e] open_ring same show thesis
        by (intro that(2)) simp_all
    next
      case True
      obtain q fr where dropq: "drop_oldest r = (q, fr)" by fastforce
      from True open_ring pub dropq have out: "r' = enqueue q e" "st = IDX_OK" "freed = fr" "\<not> block_when_full r"
        by (auto split: if_splits)
      have "head r \<noteq> tail r" using True core by (auto simp: ring_core_def)
      note d = drop_oldest_entries [OF core this dropq] and a = advance_entries [OF core this]
      have same_q: "block_when_full q = block_when_full r" "closed q = closed r"
        using dropq by (auto simp: drop_oldest_def Let_def)
      have "unat (head q) < 2 ^ 64 - 1" using room d(5) by simp
      note e = enqueue_entries [OF d(3) this d(4), of e]
      show thesis
        by (rule that(3) [of "queue r ! index_of (tail r) r" "queued_entries q"])
          (use out d e same same_q open_ring a(2) enqueue_counters [OF e(2)] drop_counters [of r q] dropq in simp_all)
    qed
  qed
qed

lemma consume_cases:
  assumes ok: "ring_ok r"
    and con: "idx_ring_consume (Some r) timeout_ms expired = Finished (st, Some r', res)"
  obtains (empty) "r' = r" "res = None" "st = IDX_ERR_CLOSED \<or> st = IDX_ERR_TIMEOUT"
  | (entry) e where "queued_entries r = e # queued_entries r'" "res = Some e" "st = IDX_OK"
      "tail r' = tail r + 1" "head r' = head r" "ring_ok r'" "unat (tail r + 1) = Suc (unat (tail r))"
      "block_when_full r' = block_when_full r" "closed r' = closed r"
      "counters r' = (consumed (stats r) + 1, dropped (stats r), st_bytes (stats r), high_water (stats r))"
proof -
  have core: "ring_core r" using ok by (simp add: ring_ok_def)
  show thesis
  proof (cases "head r = tail r \<or> timeout_ms > 0 \<and> expired")
    case True
    with con that(1) show thesis by (auto split: if_splits)
  next
    case False
    then have ne: "head r \<noteq> tail r" by simp
    from False con have "r' = dequeue r" "res = Some (queue r ! index_of (tail r) r)" "st = IDX_OK"
      by (auto split: if_splits)
    with dequeue_entries [OF core ne] advance_entries(2) [OF core ne] dequeue_counters [OF core ne]
    show thesis by (intro that(2)) (simp_all add: dequeue_def note_queued_def Let_def)
  qed
qed

section \<open>Runs of the ring\<close>

text \<open>
  A run interleaves completed attempts of the producer and the consumer with closing, in
  any order. Its history is what the callers see: the entries whose publish succeeded, each
  stamped with the number of those before it; the entries consume returned; the largest number
  of entries queued after a call; and the documents given in, freed and handed out. \<open>lost\<close> are
  the positions that left the queue in a publish. The head counter must not wrap around.
\<close>

record ('d, 'v) history =
  accepted :: "('d, 'v) idx_ring_entry list"
  handed :: "('d, 'v) idx_ring_entry list"
  lost :: "nat list"
  peak :: nat
  given_docs :: "'d list"
  freed_docs :: "'d list"
  taken_docs :: "'d list"

definition no_history :: "('d, 'v) history" where
  "no_history = \<lparr>accepted = [], handed = [], lost = [], peak = 0, given_docs = [], freed_docs = [], taken_docs = []\<rparr>"

definition record_publish ::
    "('d, 'v) idx_ring \<Rightarrow> ('d, 'v) idx_ring_entry \<Rightarrow> idx_status \<Rightarrow> ('d, 'v) idx_ring \<Rightarrow> 'd list \<Rightarrow>
     ('d, 'v) history \<Rightarrow> ('d, 'v) history" where
  "record_publish r e st r' freed h = h\<lparr>
     accepted := accepted h @ (if st = IDX_OK then [e\<lparr>seq := word_of_nat (length (accepted h))\<rparr>] else []),
     lost := lost h @ (if tail r' = tail r then [] else [unat (tail r)]),
     peak := max (peak h) (length (queued_entries r')),
     given_docs := given_docs h @ docs_of e, freed_docs := freed_docs h @ freed\<rparr>"

definition record_consume :: "('d, 'v) idx_ring_entry option \<Rightarrow> ('d, 'v) history \<Rightarrow> ('d, 'v) history" where
  "record_consume res h = (case res of
      None \<Rightarrow> h
    | Some e \<Rightarrow> h\<lparr>handed := handed h @ [e], taken_docs := taken_docs h @ docs_of e\<rparr>)"

text \<open>The positions consumed, by the numbers on the entries handed out.\<close>

definition taken :: "('d, 'v) history \<Rightarrow> nat list" where
  "taken h = map (\<lambda>e. unat (seq e)) (handed h)"

inductive ring_run :: "('d, 'v) idx_ring \<Rightarrow> ('d, 'v) history \<Rightarrow> bool" where
  start: "idx_ring_new True blank opts = Inr r \<Longrightarrow> ring_run r no_history"
| publish: "ring_run r h \<Longrightarrow> unat (head r) < 2 ^ 64 - 1 \<Longrightarrow>
     idx_ring_publish (Some r) (Some e) = Finished (st, Some r', freed) \<Longrightarrow>
     ring_run r' (record_publish r e st r' freed h)"
| consume: "ring_run r h \<Longrightarrow> idx_ring_consume (Some r) timeout_ms expired = Finished (st, Some r', res) \<Longrightarrow>
     ring_run r' (record_consume res h)"
| close: "ring_run r h \<Longrightarrow> idx_ring_close (Some r) = Some r' \<Longrightarrow> ring_run r' h"

definition history_ok :: "('d, 'v) idx_ring \<Rightarrow> ('d, 'v) history \<Rightarrow> bool" where
  "history_ok r h \<longleftrightarrow>
     length (accepted h) = unat (head r) \<and>
     queued_entries r = drop (unat (tail r)) (accepted h) \<and>
     (\<forall>i < length (accepted h). unat (seq (accepted h ! i)) = i) \<and>
     handed h = map ((!) (accepted h)) (taken h) \<and>
     sorted_wrt (<) (taken h) \<and> sorted_wrt (<) (lost h) \<and>
     mset (taken h) + mset (lost h) = mset [0..<unat (tail r)] \<and>
     unat (consumed (stats r)) = length (handed h) \<and> unat (dropped (stats r)) = length (lost h) \<and>
     high_water (stats r) = peak h \<and> st_bytes (stats r) = word_of_nat (sum_list (map bytes (accepted h))) \<and>
     (block_when_full r \<longrightarrow> lost h = [])"

definition docs_ok :: "('d, 'v) idx_ring \<Rightarrow> ('d, 'v) history \<Rightarrow> bool" where
  "docs_ok r h \<longleftrightarrow> mset (given_docs h) =
     mset (freed_docs h) + mset (taken_docs h) + mset (concat (map docs_of (queued_entries r)))"

lemma mset_upt_bound: "mset xs + mset ys = mset [0..<n] \<Longrightarrow> x \<in> set xs \<or> x \<in> set ys \<Longrightarrow> x < n"
  by (metis atLeastLessThan_iff atLeastLessThan_upt set_mset_mset union_iff)

lemma sorted_snoc_fresh: "sorted_wrt (<) xs \<Longrightarrow> \<forall>x \<in> set xs. x < n \<Longrightarrow> sorted_wrt (<) (xs @ [n :: nat])"
  by (simp add: sorted_wrt_append)

lemma drop_Suc_of_Cons: "drop n xs = y # ys \<Longrightarrow> drop (Suc n) xs = ys"
  by (metis drop_Suc list.sel(3) tl_drop)

lemma docs_of_seq [simp]: "docs_of (e\<lparr>seq := s\<rparr>) = docs_of e"
  by (simp add: docs_of_def)

lemma ring_new_ok:
  assumes "idx_ring_new True blank opts = Inr r"
  shows "ring_ok r \<and> history_ok r no_history \<and> docs_ok r no_history"
  using assms
  by (auto simp: idx_ring_new_def ring_ok_def ring_core_def history_ok_def docs_ok_def no_history_def taken_def
      queued_entries_def Let_def split: if_splits)

lemma count_step: "unat (x :: u64) = n \<Longrightarrow> n < 2 ^ 64 - 1 \<Longrightarrow> unat (x + 1) = Suc n"
  using unat_step [of x] by simp

lemma history_sizes:
  "history_ok r h \<Longrightarrow> length (handed h) + length (lost h) = unat (tail r) \<and> (\<forall>i \<in> set (taken h) \<union> set (lost h). i < unat (tail r))"
proof -
  assume h: "history_ok r h"
  then have m: "mset (taken h) + mset (lost h) = mset [0..<unat (tail r)]" by (simp add: history_ok_def)
  from arg_cong [OF m, of size] have "length (handed h) + length (lost h) = unat (tail r)" by (simp add: taken_def)
  then show ?thesis using mset_upt_bound [OF m] by auto
qed

lemma below_counter: "unat (x + 1 :: u64) = Suc (unat x) \<Longrightarrow> unat x < 2 ^ 64 - 1"
  using unat_u64 [of "x + 1"] by simp

lemma handed_publish [simp]:
  "handed (record_publish r e st r' freed h) = handed h" "taken (record_publish r e st r' freed h) = taken h"
  by (simp_all add: record_publish_def taken_def)

lemma handed_grows:
  assumes "history_ok r h" "unat (tail r) \<le> unat (head r)"
  shows "handed h = map ((!) (accepted h @ ys)) (taken h)"
proof -
  have "\<forall>i \<in> set (taken h). i < length (accepted h)"
    using history_sizes [OF assms(1)] assms by (simp add: history_ok_def) (meson UnCI less_le_trans)
  then have "map ((!) (accepted h @ ys)) (taken h) = map ((!) (accepted h)) (taken h)" by (simp add: nth_append)
  then show ?thesis using assms(1) by (simp add: history_ok_def)
qed

lemma publish_ok:
  assumes "ring_ok r" "history_ok r h" "docs_ok r h" "unat (head r) < 2 ^ 64 - 1"
    and pub: "idx_ring_publish (Some r) (Some e) = Finished (st, Some r', freed)"
  shows "ring_ok r' \<and> history_ok r' (record_publish r e st r' freed h) \<and>
         docs_ok r' (record_publish r e st r' freed h)"
  using assms(1,4) pub
proof (cases rule: publish_cases)
  case closed
  have "length (queued_entries r) \<le> high_water (stats r)" using assms(1) by (simp add: ring_ok_def ring_core_def length_queued_entries)
  with closed assms(1-3) show ?thesis
    by (auto simp: record_publish_def history_ok_def docs_ok_def taken_def max_def)
next
  case queued
  have head: "unat (head r + 1) = Suc (unat (head r))" using assms(4) by (rule unat_step)
  have "unat (tail r) \<le> unat (head r)" using assms(1) by (simp add: ring_ok_def ring_core_def)
  moreover have "word_of_nat (length (accepted h)) = head r" using assms(2) by (simp add: history_ok_def)
  ultimately have "history_ok r' (record_publish r e st r' freed h)"
    using queued head assms(2) handed_grows [OF assms(2), of "[e\<lparr>seq := head r\<rparr>]"] unfolding history_ok_def handed_publish
    by (auto simp: record_publish_def nth_append less_Suc_eq counters_def)
  moreover have "docs_ok r' (record_publish r e st r' freed h)"
    using queued assms(3) by (simp add: record_publish_def docs_ok_def)
  ultimately show ?thesis using queued by simp
next
  case (dropped oldest rest)
  have head: "unat (head r + 1) = Suc (unat (head r))" using assms(4) by (rule unat_step)
  have acc: "drop (unat (tail r)) (accepted h) = oldest # rest" "length (accepted h) = unat (head r)"
    using dropped(4) assms(2) by (simp_all add: history_ok_def)
  then have lt: "unat (tail r) < unat (head r)" by (metis drop_eq_Nil list.distinct(1) not_le)
  have ne: "tail r + 1 \<noteq> tail r" using dropped by (metis n_not_Suc_n)
  note sizes = history_sizes [OF assms(2)]
  have sorted: "sorted_wrt (<) (lost h @ [unat (tail r)])"
    using assms(2) sizes by (intro sorted_snoc_fresh) (auto simp: history_ok_def)
  have parts: "mset (taken h) + mset (lost h @ [unat (tail r)]) = mset [0..<Suc (unat (tail r))]"
    using assms(2) by (simp add: history_ok_def)
  have "unat (dropped (stats r) + 1) = Suc (length (lost h))"
    using assms(2) sizes below_counter [OF dropped(12)] by (intro count_step) (auto simp: history_ok_def)
  moreover have "word_of_nat (length (accepted h)) = head r" using acc(2) by simp
  ultimately have "history_ok r' (record_publish r e st r' freed h)"
    using dropped head assms(2) acc drop_Suc_of_Cons [OF acc(1)] lt ne sorted parts
      handed_grows [OF assms(2), of "[e\<lparr>seq := head r\<rparr>]"] unfolding history_ok_def handed_publish
    by (auto simp: record_publish_def nth_append less_Suc_eq counters_def)
  moreover have "docs_ok r' (record_publish r e st r' freed h)"
    using dropped assms(3) by (simp add: record_publish_def docs_ok_def)
  ultimately show ?thesis using dropped by simp
qed

lemma consume_ok:
  assumes "ring_ok r" "history_ok r h" "docs_ok r h"
    and con: "idx_ring_consume (Some r) timeout_ms expired = Finished (st, Some r', res)"
  shows "ring_ok r' \<and> history_ok r' (record_consume res h) \<and> docs_ok r' (record_consume res h)"
  using assms(1) con
proof (cases rule: consume_cases)
  case empty
  with assms(1-3) show ?thesis by (simp add: record_consume_def)
next
  case (entry e)
  have acc: "drop (unat (tail r)) (accepted h) = e # queued_entries r'"
    using entry(1) assms(2) by (simp add: history_ok_def)
  then have lt: "unat (tail r) < length (accepted h)" by (metis drop_eq_Nil list.distinct(1) not_le)
  then have e: "e = accepted h ! unat (tail r)" using acc by (metis hd_drop_conv_nth list.sel(1))
  have "\<forall>i < length (accepted h). unat (seq (accepted h ! i)) = i" using assms(2) by (simp add: history_ok_def)
  then have at: "unat (seq e) = unat (tail r)" using lt unfolding e by blast
  then have taken: "taken (record_consume res h) = taken h @ [unat (tail r)]"
    using entry(2) by (simp add: taken_def record_consume_def)
  note sizes = history_sizes [OF assms(2)]
  have sorted: "sorted_wrt (<) (taken h @ [unat (tail r)])"
    using assms(2) sizes by (intro sorted_snoc_fresh) (auto simp: history_ok_def)
  have parts: "mset (taken h @ [unat (tail r)]) + mset (lost h) = mset [0..<Suc (unat (tail r))]"
    using assms(2) by (simp add: history_ok_def)
  have count: "unat (consumed (stats r) + 1) = Suc (length (handed h))"
    using assms(2) sizes below_counter [OF entry(7)] by (intro count_step) (auto simp: history_ok_def)
  have rest: "accepted (record_consume res h) = accepted h" "lost (record_consume res h) = lost h"
    "peak (record_consume res h) = peak h" "handed (record_consume res h) = handed h @ [e]"
    using entry(2) by (simp_all add: record_consume_def)
  have "history_ok r' (record_consume res h)"
    unfolding history_ok_def taken rest
    using entry assms(2) drop_Suc_of_Cons [OF acc] sorted parts count e
    by (simp add: history_ok_def counters_def)
  moreover have "docs_ok r' (record_consume res h)"
    using entry assms(3) by (simp add: record_consume_def docs_ok_def ac_simps)
  ultimately show ?thesis using entry by simp
qed

lemma close_same [simp]:
  "idx_ring_close (Some r) = Some r' \<longleftrightarrow> r' = r\<lparr>closed := True\<rparr>"
  "queued_entries (r\<lparr>closed := True\<rparr>) = queued_entries r"
  by (auto simp: idx_ring_close_def queued_entries_def)

lemma ring_run_ok: "ring_run r h \<Longrightarrow> ring_ok r \<and> history_ok r h \<and> docs_ok r h"
proof (induction rule: ring_run.induct)
  case (start blank opts r)
  then show ?case by (rule ring_new_ok)
next
  case (publish r h e st r' freed)
  then show ?case using publish_ok by blast
next
  case (consume r h timeout_ms expired st r' res)
  then show ?case using consume_ok by blast
next
  case (close r h r')
  then show ?case
    by (simp add: ring_ok_def ring_core_def history_ok_def docs_ok_def)
qed

section \<open>The interface of a bounded first-in first-out buffer\<close>

locale fifo_buffer =
  fixes ok :: "'q \<Rightarrow> bool"
    and items :: "'q \<Rightarrow> 'a list"
    and front :: "'q \<Rightarrow> 'a"
    and pop :: "'q \<Rightarrow> 'q"
  assumes ok_pop: "ok q \<Longrightarrow> items q \<noteq> [] \<Longrightarrow> ok (pop q)"
    and items_pop: "ok q \<Longrightarrow> items q \<noteq> [] \<Longrightarrow> items q = front q # items (pop q)"
begin

lemma pop_many:
  "ok q \<Longrightarrow> n \<le> length (items q) \<Longrightarrow> ok ((pop ^^ n) q) \<and> items ((pop ^^ n) q) = drop n (items q)"
proof (induction n)
  case 0
  then show ?case by simp
next
  case (Suc n)
  then have "ok ((pop ^^ n) q)" and rest: "items ((pop ^^ n) q) = drop n (items q)" by auto
  moreover have "drop n (items q) \<noteq> []" using Suc.prems by simp
  ultimately show ?case using ok_pop items_pop by (metis drop_Suc funpow.simps(2) list.sel(3) o_apply tl_drop)
qed

text \<open>Reading the front before each pop reads the contents in order.\<close>

lemma drain:
  "ok q \<Longrightarrow> map (\<lambda>i. front ((pop ^^ i) q)) [0..<length (items q)] = items q"
proof (rule nth_equalityI)
  fix i assume "ok q" and i: "i < length (map (\<lambda>i. front ((pop ^^ i) q)) [0..<length (items q)])"
  then have "ok ((pop ^^ i) q)" "items ((pop ^^ i) q) = drop i (items q)"
    using pop_many [of q i] by auto
  moreover from i have "drop i (items q) \<noteq> []" "hd (drop i (items q)) = items q ! i"
    by (simp_all add: hd_drop_conv_nth)
  ultimately show "map (\<lambda>i. front ((pop ^^ i) q)) [0..<length (items q)] ! i = items q ! i"
    using i items_pop by (metis add_0 diff_zero length_map length_upt list.sel(1) nth_map_upt)
qed simp

end

definition ring_front :: "('d, 'v) idx_ring \<Rightarrow> ('d, 'v) idx_ring_entry" where
  "ring_front r = queue r ! index_of (tail r) r"

lemma queued_empty_iff: "ring_ok r \<Longrightarrow> queued_entries r = [] \<longleftrightarrow> head r = tail r"
  by (auto simp: queued_entries_def ring_ok_def ring_core_def head_tail_eq)

interpretation ring_buffer: fifo_buffer ring_ok queued_entries ring_front dequeue
proof
  fix r :: "('d, 'v) idx_ring"
  assume "ring_ok r" "queued_entries r \<noteq> []"
  then have "ring_core r" "head r \<noteq> tail r" by (simp_all add: queued_empty_iff ring_ok_def)
  from dequeue_entries [OF this]
  show "ring_ok (dequeue r)" "queued_entries r = ring_front r # queued_entries (dequeue r)"
    by (simp_all add: ring_front_def)
qed

lemma free_window:
  "unat (tail r) \<le> unat (head r) \<Longrightarrow> idx_ring_free r = concat (map docs_of (queued_entries r))"
proof (induction r rule: idx_ring_free.induct)
  case (1 r)
  show ?case
  proof (cases "tail r = head r")
    case True
    then show ?thesis by (simp add: idx_ring_free.simps [of r] queued_entries_def)
  next
    case False
    then have less: "unat (tail r) < unat (head r)"
      using "1.prems" head_tail_eq [of r] by (metis le_neq_implies_less)
    then have tail: "unat (tail r + 1) = Suc (unat (tail r))"
      using unat_u64 [of "head r"] by (intro unat_step) simp
    have "queued_entries r = (queue r ! index_of (tail r) r) # queued_entries (r\<lparr>tail := tail r + 1\<rparr>)"
      using less tail by (simp add: queued_entries_def upt_conv_Cons)
    moreover have "idx_ring_free (r\<lparr>tail := tail r + 1\<rparr>) =
        concat (map docs_of (queued_entries (r\<lparr>tail := tail r + 1\<rparr>)))"
      using "1.IH" [OF False] less tail by simp
    ultimately show ?thesis using False by (simp add: idx_ring_free.simps [of r])
  qed
qed

lemma ring_free_docs: "ring_ok r \<Longrightarrow> idx_ring_free r = concat (map docs_of (queued_entries r))"
  by (rule free_window) (simp add: ring_ok_def ring_core_def)

section \<open>Draining a closed ring\<close>

text \<open>The consumer's loop: at most \<open>n\<close> consumes, stopping at the first that gives no entry.\<close>

fun consume_all :: "nat \<Rightarrow> ('d, 'v) idx_ring \<Rightarrow> ('d, 'v) idx_ring_entry list \<times> idx_status" where
  "consume_all 0 r = ([], IDX_OK)"
| "consume_all (Suc n) r = (case idx_ring_consume (Some r) 0 False of
      Finished (st, Some r', Some e) \<Rightarrow> (let (es, st') = consume_all n r' in (e # es, st'))
    | Finished (st, _, _) \<Rightarrow> ([], st)
    | Waiting \<Rightarrow> ([], IDX_OK))"

lemma closed_dequeue: "closed (dequeue r) = closed r"
  by (simp add: dequeue_def note_queued_def Let_def)

lemma consume_all_closed:
  "ring_ok r \<Longrightarrow> closed r \<Longrightarrow>
   consume_all (Suc (length (queued_entries r))) r = (queued_entries r, IDX_ERR_CLOSED)"
proof (induction "length (queued_entries r)" arbitrary: r)
  case 0
  then have "head r = tail r" using queued_empty_iff by force
  with 0 show ?case by simp
next
  case (Suc n)
  then have ne: "queued_entries r \<noteq> []" by auto
  note pop = ring_buffer.ok_pop [OF Suc.prems(1) ne] ring_buffer.items_pop [OF Suc.prems(1) ne]
  have "consume_all (Suc (length (queued_entries (dequeue r)))) (dequeue r) =
      (queued_entries (dequeue r), IDX_ERR_CLOSED)"
    using Suc pop by (intro Suc.hyps(1)) (simp_all add: closed_dequeue)
  moreover have "head r \<noteq> tail r" using ne Suc.prems queued_empty_iff by blast
  ultimately show ?case using pop(2) by (simp add: ring_front_def)
qed

section \<open>Sample runs\<close>

datatype ('d, 'v) ring_op = Publish "('d, 'v) idx_ring_entry" | Consume | Close

fun ring_script :: "('d, 'v) ring_op list \<Rightarrow> ('d, 'v) idx_ring \<times> ('d, 'v) history \<Rightarrow>
    (('d, 'v) idx_ring \<times> ('d, 'v) history) option" where
  "ring_script [] s = Some s"
| "ring_script (Publish e # ops) (r, h) =
     (case idx_ring_publish (Some r) (Some e) of
        Finished (st, Some r', freed) \<Rightarrow>
          if head r + 1 \<noteq> 0 then ring_script ops (r', record_publish r e st r' freed h) else None
      | _ \<Rightarrow> None)"
| "ring_script (Consume # ops) (r, h) =
     (case idx_ring_consume (Some r) 0 False of
        Finished (st, Some r', res) \<Rightarrow> ring_script ops (r', record_consume res h)
      | _ \<Rightarrow> None)"
| "ring_script (Close # ops) (r, h) =
     (case idx_ring_close (Some r) of Some r' \<Rightarrow> ring_script ops (r', h) | None \<Rightarrow> None)"

lemma counter_room: "unat (x :: u64) < 2 ^ 64 - 1 \<longleftrightarrow> x + 1 \<noteq> 0"
  using unat_u64 [of x] by (auto simp: unat_eq_0 [symmetric] unat_word_ariths mod_Suc)

lemma ring_script_run: "ring_run r h \<Longrightarrow> ring_script ops (r, h) = Some (r', h') \<Longrightarrow> ring_run r' h'"
proof (induction ops arbitrary: r h)
  case (Cons op ops)
  note rest = Cons.IH and prems = Cons.prems
  show ?case
  proof (cases op)
    case (Publish e)
    then obtain st r1 freed where
      "idx_ring_publish (Some r) (Some e) = Finished (st, Some r1, freed)" "head r + 1 \<noteq> 0"
      "ring_script ops (r1, record_publish r e st r1 freed h) = Some (r', h')"
      using prems(2)
      by (simp del: idx_ring_publish.simps
        split: attempt.splits prod.splits option.splits if_splits)
    then show ?thesis using rest ring_run.publish [OF prems(1) _ _] counter_room [of "head r"] by blast
  next
    case Consume
    then obtain st r1 res where
      "idx_ring_consume (Some r) 0 False = Finished (st, Some r1, res)"
      "ring_script ops (r1, record_consume res h) = Some (r', h')"
      using prems(2) by (simp del: idx_ring_consume.simps split: attempt.splits prod.splits option.splits)
    then show ?thesis using rest ring_run.consume [OF prems(1)] by blast
  next
    case Close
    then show ?thesis using prems rest ring_run.close [OF prems(1)] by (auto split: option.splits)
  qed
qed simp

definition blank_entry :: "(nat, unit) idx_ring_entry" where
  "blank_entry = \<lparr>seq = 0, slot = 0, doc = None, value = (), tag = 0, bytes = 0\<rparr>"

definition block_entry :: "nat \<Rightarrow> (nat, unit) idx_ring_entry" where
  "block_entry n = \<lparr>seq = 0, slot = word_of_nat n, doc = Some n, value = (), tag = 0, bytes = 1\<rparr>"

definition sample_ring :: "(nat, unit) ring_op list \<Rightarrow> ((nat, unit) idx_ring \<times> (nat, unit) history) option" where
  "sample_ring ops =
     (case idx_ring_new True blank_entry (Some \<lparr>opt_depth = 2, opt_block_when_full = False\<rparr>) of
        Inr r \<Rightarrow> ring_script ops (r, no_history)
      | Inl _ \<Rightarrow> None)"

lemma sample_ring_run: "sample_ring ops = Some (r, h) \<Longrightarrow> ring_run r h"
  by (auto simp: sample_ring_def split: sum.splits intro: ring_script_run [OF ring_run.start])

text \<open>Five documents through a ring of depth two: the first and third are dropped, the others consumed or queued.\<close>

definition sample_ops :: "(nat, unit) ring_op list" where
  "sample_ops = [Publish (block_entry 7), Publish (block_entry 8), Publish (block_entry 9), Consume,
     Publish (block_entry 10), Publish (block_entry 11), Consume, Close]"

definition sample_history :: "(nat, unit) history" where
  "sample_history = snd (the (sample_ring sample_ops))"

lemma sample_history_run: "\<exists>r. ring_run r sample_history \<and> closed r \<and> map tag (queued_entries r) = [0]"
proof -
  have "case sample_ring sample_ops of None \<Rightarrow> False
      | Some (r, h) \<Rightarrow> closed r \<and> map tag (queued_entries r) = [0]"
    by code_simp
  then obtain r h where s: "sample_ring sample_ops = Some (r, h)"
    and r: "closed r" "map tag (queued_entries r) = [0]"
    by (cases "sample_ring sample_ops") auto
  have "ring_run r sample_history" using sample_ring_run [OF s] by (simp add: sample_history_def s)
  then show ?thesis using r by (intro exI conjI)
qed

lemma sample_history_docs:
  "given_docs sample_history = [7, 8, 9, 10, 11]" "freed_docs sample_history = [7, 9]"
  "taken_docs sample_history = [8, 10]" "taken sample_history = [1, 3]"
  "lost sample_history = [0, 2]"
  by code_simp+

section \<open>Properties\<close>

text \<open>
  C3: The ring is a first-in first-out queue. In every interleaving of fewer than
  \<open>2 ^ 64\<close> publishes, consumes, timed-out waits and closes: each entry consume returned is the accepted entry whose number it
  carries, and these numbers increase; every number before those still queued was either
  returned or dropped, never both; what is queued is the accepted entries after them, in
  order. The published, consumed and dropped counters count the accepted, returned and dropped
  entries, the byte counter adds the accepted sizes, the high-water mark is the largest number
  queued after any call and never exceeds the depth, and a ring that blocks when full never
  drops.
\<close>

theorem ring_run_fifo:
  assumes "ring_run r h"
  shows "handed h = map ((!) (accepted h)) (map (\<lambda>e. unat (seq e)) (handed h)) \<and>
    sorted_wrt (<) (map (\<lambda>e. unat (seq e)) (handed h)) \<and> sorted_wrt (<) (lost h) \<and>
    mset (map (\<lambda>e. unat (seq e)) (handed h)) + mset (lost h) = mset [0..<length (handed h) + length (lost h)] \<and>
    queued_entries r = drop (length (handed h) + length (lost h)) (accepted h) \<and>
    unat (published (stats r)) = length (accepted h) \<and> unat (consumed (stats r)) = length (handed h) \<and>
    unat (dropped (stats r)) = length (lost h) \<and> queued (stats r) = length (queued_entries r) \<and>
    st_bytes (stats r) = word_of_nat (sum_list (map bytes (accepted h))) \<and>
    high_water (stats r) = peak h \<and> length (queued_entries r) \<le> peak h \<and> peak h \<le> depth r \<and>
    (block_when_full r \<longrightarrow> lost h = [])"
proof -
  have ok: "ring_ok r" "history_ok r h" using ring_run_ok [OF assms] by simp_all
  then show ?thesis using history_sizes [OF ok(2)]
    by (simp add: ring_ok_def ring_core_def history_ok_def taken_def length_queued_entries)
qed

theorem ring_run_fifo_witness:
  "\<exists>r. ring_run r sample_history \<and> map (\<lambda>e. unat (seq e)) (handed sample_history) = [1, 3] \<and>
     unat (consumed (stats r)) = 2 \<and> unat (dropped (stats r)) = 2"
proof -
  obtain r where r: "ring_run r sample_history" using sample_history_run by blast
  have taken: "map (\<lambda>e. unat (seq e)) (handed sample_history) = [1, 3]"
    using sample_history_docs(4) unfolding taken_def .
  from arg_cong [OF this, of length] have "length (handed sample_history) = 2"
    unfolding length_map by simp
  moreover have "length (lost sample_history) = 2" unfolding sample_history_docs(5) by simp
  ultimately have "unat (consumed (stats r)) = 2" "unat (dropped (stats r)) = 2"
    using ring_run_fifo [OF r] by argo+
  with r taken show ?thesis by (intro exI conjI)
qed

text \<open>
  Documents are never leaked and never freed twice. In every run the documents given
  to publish are, as a multiset, those the ring freed, those handed to the consumer and
  those still queued; freeing the ring then frees exactly the queued ones.
\<close>

theorem ring_run_owns_documents:
  assumes "ring_run r h"
  shows "mset (given_docs h) = mset (freed_docs h) + mset (taken_docs h) + mset (idx_ring_free r)"
  using ring_run_ok [OF assms] by (simp add: docs_ok_def ring_free_docs)

theorem ring_run_owns_documents_witness:
  "\<exists>r. ring_run r sample_history \<and>
     mset [7, 8, 9, 10, 11] = mset [7, 9] + mset [8, 10] + mset (idx_ring_free r)"
proof -
  obtain r where "ring_run r sample_history" using sample_history_run by blast
  with ring_run_owns_documents [OF this] show ?thesis
    unfolding sample_history_docs by blast
qed

text \<open>
  A drop is visible to the consumer. If two entries were consumed one after the other,
  every position between their sequence numbers was dropped, so a jump of the sequence
  number by more than one tells exactly how many entries were lost there.
\<close>

theorem ring_gap_is_loss:
  assumes "ring_run r h" and "taken h = xs @ a # b # ys" and "a < i" and "i < b"
  shows "i \<in> set (lost h)"
proof -
  have ok: "sorted_wrt (<) (taken h)" "mset (taken h) + mset (lost h) = mset [0..<unat (tail r)]"
    using ring_run_ok [OF assms(1)] by (simp_all add: history_ok_def)
  have "b < unat (tail r)" using mset_upt_bound [OF ok(2)] assms(2) by auto
  then have "i \<in># mset (taken h) + mset (lost h)" using ok(2) assms(4) by auto
  moreover have "i \<notin> set (taken h)"
    using ok(1) assms(2-4) by (fastforce simp: sorted_wrt_append)
  ultimately show ?thesis by auto
qed

theorem ring_gap_is_loss_witness:
  "\<exists>r. ring_run r sample_history \<and> taken sample_history = [1, 3] \<and> 2 \<in> set (lost sample_history)"
proof -
  obtain r where r: "ring_run r sample_history" using sample_history_run by blast
  have "taken sample_history = [] @ 1 # 3 # []" by (simp add: sample_history_docs)
  then have "2 \<in> set (lost sample_history)" by (rule ring_gap_is_loss [OF r]) simp_all
  with r show ?thesis by (auto simp: sample_history_docs)
qed

text \<open>
  C38: Closing lets the consumer finish. On a closed ring every publish fails with CLOSED
  and frees its document, while repeated consumes return everything still queued, oldest
  first, and only then report CLOSED.
\<close>

theorem ring_close_drains:
  assumes "ring_run r h" and "closed r"
  shows "consume_all (Suc (length (queued_entries r))) r = (queued_entries r, IDX_ERR_CLOSED) \<and>
         (\<forall>e. idx_ring_publish (Some r) (Some e) = Finished (IDX_ERR_CLOSED, Some r, docs_of e))"
proof -
  have "ring_ok r" using ring_run_ok [OF assms(1)] by blast
  from consume_all_closed [OF this assms(2)] assms(2) show ?thesis
    by (simp del: consume_all.simps idx_ring_consume.simps)
qed

theorem ring_close_drains_witness:
  "\<exists>r. ring_run r sample_history \<and> consume_all 2 r = (queued_entries r, IDX_ERR_CLOSED)"
proof -
  obtain r where r: "ring_run r sample_history" "closed r" "map tag (queued_entries r) = [0]"
    using sample_history_run by (elim exE conjE)
  then have "length (map tag (queued_entries r)) = 1" by simp
  then have "Suc (length (queued_entries r)) = 2" by simp
  with ring_close_drains [OF r(1,2)] r(1) show ?thesis by metis
qed

end
