(* ===== verification/Fetcher.thy ===== *)
theory Fetcher
  imports Gaps Ring
begin

text \<open>
  The gap recovery workers (\<^verbatim>\<open>src/fetcher.c\<close>, \<^verbatim>\<open>include/fetcher.h\<close>). A worker claims a
  range of missing slots, asks the endpoint which of them exist, fetches those and hands
  them to the ring. The endpoint is a parameter (\<open>endpoint\<close>), so are the answers of the stop
  flag and of the ring. Other threads run between a worker's calls, so one claim is modelled
  as the sequence of calls it makes on the shared structures.
\<close>

section \<open>State\<close>

record idx_fetcher_stats =
  ranges_claimed :: u64
  blocks_fetched :: u64
  slots_absent :: u64
  fetch_failures :: u64
  ranges_abandoned :: u64
  span_narrowings :: u64
  workers :: nat

record idx_fetcher_options =
  claim_span :: u64
  idle_ms :: int

record idx_fetcher_pool =
  options :: idx_fetcher_options
  worker_count :: nat
  stop :: bool
  span :: u64
  pool_stats :: idx_fetcher_stats

definition IDX_FETCHER_DEFAULT_IDLE_MS :: int where "IDX_FETCHER_DEFAULT_IDLE_MS = 250"
definition IDX_FETCHER_DEFAULT_CLAIM_SPAN :: u64 where "IDX_FETCHER_DEFAULT_CLAIM_SPAN = 64"

definition idx_fetcher_options_init :: "idx_fetcher_options option \<Rightarrow> idx_fetcher_options option" where
  "idx_fetcher_options_init = map_option (\<lambda>_.
     \<lparr>claim_span = IDX_FETCHER_DEFAULT_CLAIM_SPAN, idle_ms = IDX_FETCHER_DEFAULT_IDLE_MS\<rparr>)"

definition current_span :: "idx_fetcher_pool \<Rightarrow> u64" where
  "current_span pool = span pool"

definition stopping :: "idx_fetcher_pool \<Rightarrow> bool" where
  "stopping pool = stop pool"

definition narrow_span :: "idx_fetcher_pool \<Rightarrow> u64 \<Rightarrow> idx_fetcher_pool" where
  "narrow_span pool failed_width =
     (if failed_width \<le> 1 \<or> span pool < failed_width then pool
      else pool\<lparr>span := failed_width div 2,
             pool_stats := (pool_stats pool)\<lparr>span_narrowings := span_narrowings (pool_stats pool) + 1\<rparr>\<rparr>)"

section \<open>One claim\<close>

text \<open>
  What the endpoint answers: which slots of a range exist, and the block of a slot, a
  document with its result node. Both are calls of the RPC client, which is not modelled.
\<close>

record ('d, 'v) endpoint =
  get_blocks :: "u64 \<Rightarrow> u64 \<Rightarrow> u64 list result"
  get_block :: "u64 \<Rightarrow> ('d \<times> 'v) result"

datatype counter = Blocks_fetched | Slots_absent | Fetch_failures | Ranges_abandoned

datatype ('d, 'v) action =
    Resolve u64 u64
  | Release u64 u64
  | Publish_entry "('d, 'v) idx_ring_entry" idx_status
  | Narrow u64
  | Bump counter u64

definition publish_block :: "u64 \<Rightarrow> 'd \<times> 'v \<Rightarrow> ('d, 'v) idx_ring_entry" where
  "publish_block s response =
     \<lparr>seq = 0, slot = s, doc = Some (fst response), value = snd response, tag = 0, bytes = 0\<rparr>"

text \<open>
  The loop over the enumerated slots. \<open>asked i\<close> is what the stop flag reads before the
  \<open>i\<close>-th slot, \<open>sent s\<close> the status of the ring for slot \<open>s\<close>. The result is the calls
  made and the cursor the loop ends with, \<open>None\<close> when the function returned inside it.
\<close>

fun work_slots ::
    "('d, 'v) endpoint \<Rightarrow> (nat \<Rightarrow> bool) \<Rightarrow> (u64 \<Rightarrow> idx_status) \<Rightarrow> u64 \<Rightarrow> nat \<Rightarrow> u64 \<Rightarrow> u64 list \<Rightarrow>
     ('d, 'v) action list \<times> u64 option" where
  "work_slots rpc asked sent to i cursor [] = ([], Some cursor)"
| "work_slots rpc asked sent to i cursor (s # slots) =
     (if asked i then ([], Some cursor)
      else if s < cursor \<or> s > to then work_slots rpc asked sent to (i + 1) cursor slots
      else
        let skipped = (if s > cursor then [Resolve cursor (s - 1), Bump Slots_absent (s - cursor)] else [])
        in case get_block rpc s of
             Inl st \<Rightarrow>
               if st = IDX_ERR_NOT_FOUND then
                 (let (acts, res) = work_slots rpc asked sent to (i + 1) (s + 1) slots
                  in (skipped @ [Resolve s s, Bump Slots_absent 1] @ acts, res))
               else (skipped @ [Release s to, Bump Fetch_failures 1], None)
           | Inr response \<Rightarrow>
               if sent s \<noteq> IDX_OK then
                 (skipped @ [Publish_entry (publish_block s response) (sent s), Release s to], None)
               else
                 (let (acts, res) = work_slots rpc asked sent to (i + 1) (s + 1) slots
                  in (skipped @ [Publish_entry (publish_block s response) IDX_OK, Bump Blocks_fetched 1] @ acts, res)))"

definition work_range ::
    "('d, 'v) endpoint \<Rightarrow> (nat \<Rightarrow> bool) \<Rightarrow> (u64 \<Rightarrow> idx_status) \<Rightarrow> idx_gap_range \<Rightarrow> ('d, 'v) action list" where
  "work_range rpc asked sent claim =
     (case get_blocks rpc (r_from claim) (r_to claim) of
        Inl st \<Rightarrow>
          (if st = IDX_ERR_NOT_FOUND then
             [Resolve (r_from claim) (r_to claim), Bump Slots_absent (r_to claim - r_from claim + 1)]
           else if st = IDX_ERR_REMOTE then
             (let width = r_to claim - r_from claim + 1 in
              if width > 1 then [Narrow width, Release (r_from claim) (r_to claim)]
              else [Resolve (r_from claim) (r_to claim), Bump Ranges_abandoned 1])
           else [Release (r_from claim) (r_to claim), Bump Fetch_failures 1])
      | Inr slots \<Rightarrow>
          (let (acts, res) = work_slots rpc asked sent (r_to claim) 0 (r_from claim) slots in
           acts @ (case res of
               None \<Rightarrow> []
             | Some cursor \<Rightarrow>
                 if cursor \<le> r_to claim
                 then [Resolve cursor (r_to claim), Bump Slots_absent (r_to claim - cursor + 1)] else [])))"

section \<open>The calls on the shared structures\<close>

definition bump :: "counter \<Rightarrow> u64 \<Rightarrow> idx_fetcher_pool \<Rightarrow> idx_fetcher_pool" where
  "bump c by pool = pool\<lparr>pool_stats := (case c of
      Blocks_fetched \<Rightarrow> (pool_stats pool)\<lparr>blocks_fetched := blocks_fetched (pool_stats pool) + by\<rparr>
    | Slots_absent \<Rightarrow> (pool_stats pool)\<lparr>slots_absent := slots_absent (pool_stats pool) + by\<rparr>
    | Fetch_failures \<Rightarrow> (pool_stats pool)\<lparr>fetch_failures := fetch_failures (pool_stats pool) + by\<rparr>
    | Ranges_abandoned \<Rightarrow> (pool_stats pool)\<lparr>ranges_abandoned := ranges_abandoned (pool_stats pool) + by\<rparr>)\<rparr>"

fun act_on_pool :: "('d, 'v) action \<Rightarrow> idx_fetcher_pool \<Rightarrow> idx_fetcher_pool" where
  "act_on_pool (Narrow width) pool = narrow_span pool width"
| "act_on_pool (Bump c by) pool = bump c by pool"
| "act_on_pool _ pool = pool"

text \<open>The status of a release is ignored, as the source does.\<close>

fun act_on_gaps :: "(nat \<Rightarrow> bool) \<Rightarrow> ('d, 'v) action \<Rightarrow> idx_gaps \<Rightarrow> idx_gaps" where
  "act_on_gaps alloc (Resolve f t) g = gaps_resolve alloc g f t"
| "act_on_gaps alloc (Release f t) g = gaps_release alloc g f t"
| "act_on_gaps alloc _ g = g"

text \<open>Each call has its own answers of the allocator.\<close>

definition act_all :: "(nat \<Rightarrow> bool) list \<Rightarrow> ('d, 'v) action list \<Rightarrow> idx_gaps \<Rightarrow> idx_gaps" where
  "act_all allocs acts = fold (\<lambda>(alloc, a). act_on_gaps alloc a) (zip allocs acts)"

text \<open>
  One turn of \<^verbatim>\<open>run_worker\<close> up to the work itself: stop, go idle, or take a claim. \<open>alloc\<close>
  is the allocator of the gap set.
\<close>

datatype turn = Stop | Idle | Work idx_gap_range

definition run_worker :: "(nat \<Rightarrow> bool) \<Rightarrow> idx_fetcher_pool \<Rightarrow> idx_gaps option \<Rightarrow> turn \<times> idx_fetcher_pool \<times> idx_gaps option" where
  "run_worker alloc pool g =
     (if stopping pool then (Stop, pool, g)
      else case idx_gaps_claim alloc g (current_span pool) of
          (g', None) \<Rightarrow> (Idle, pool, g')
        | (g', Some claim) \<Rightarrow>
            (Work claim,
             pool\<lparr>pool_stats := (pool_stats pool)\<lparr>ranges_claimed := ranges_claimed (pool_stats pool) + 1\<rparr>\<rparr>, g'))"

section \<open>Starting and stopping the pool\<close>

text \<open>
  What the start needs from the caller: the endpoint address and the worker count of the
  configuration, and whether the gap set and the ring were given.
\<close>

record start_request =
  config :: "(string \<times> nat) option"
  gaps_given :: bool
  output_given :: bool
  request_options :: idx_fetcher_options

text \<open>
  The loop that starts the workers: \<open>opened i\<close> is the status of connecting the \<open>i\<close>-th,
  \<open>created i\<close> whether its thread could be created. The result is how many run.
\<close>

function start_workers :: "(nat \<Rightarrow> idx_status) \<Rightarrow> (nat \<Rightarrow> bool) \<Rightarrow> nat \<Rightarrow> nat \<Rightarrow> idx_status \<times> nat" where
  "start_workers opened created wanted i =
     (if i < wanted then
        (if opened i \<noteq> IDX_OK then (opened i, i)
         else if \<not> created i then (IDX_ERR_INTERNAL, i)
         else start_workers opened created wanted (i + 1))
      else (IDX_OK, i))"
  by pat_completeness auto
termination by (relation "measure (\<lambda>(_, _, wanted, i). wanted - i)") auto

declare start_workers.simps [simp del]

definition zero_stats :: idx_fetcher_stats where
  "zero_stats = \<lparr>ranges_claimed = 0, blocks_fetched = 0, slots_absent = 0, fetch_failures = 0,
     ranges_abandoned = 0, span_narrowings = 0, workers = 0\<rparr>"

definition idx_fetcher_pool_stop :: "idx_fetcher_pool option \<Rightarrow> idx_fetcher_pool option" where
  "idx_fetcher_pool_stop = map_option (\<lambda>pool. pool\<lparr>stop := True, worker_count := 0\<rparr>)"

definition idx_fetcher_pool_start ::
    "(nat \<Rightarrow> idx_status) \<Rightarrow> (nat \<Rightarrow> bool) \<Rightarrow> bool \<Rightarrow> bool \<Rightarrow> start_request option \<Rightarrow> idx_fetcher_pool result" where
  "idx_fetcher_pool_start opened created pool_ok workers_ok request =
     (case request of
        None \<Rightarrow> Inl IDX_ERR_INVALID_ARG
      | Some req \<Rightarrow>
          (case config req of
             None \<Rightarrow> Inl IDX_ERR_INVALID_ARG
           | Some (rpc_url, concurrency) \<Rightarrow>
               if \<not> gaps_given req \<or> \<not> output_given req then Inl IDX_ERR_INVALID_ARG
               else if rpc_url = [] then Inl IDX_ERR_INVALID_ARG
               else let wanted = (if concurrency = 0 then 1 else concurrency);
                        op = request_options req;
                        op = (if claim_span op = 0 then op\<lparr>claim_span := IDX_FETCHER_DEFAULT_CLAIM_SPAN\<rparr> else op);
                        op = (if idle_ms op \<le> 0 then op\<lparr>idle_ms := IDX_FETCHER_DEFAULT_IDLE_MS\<rparr> else op)
                    in if \<not> pool_ok \<or> \<not> workers_ok then Inl IDX_ERR_NO_MEMORY
                       else let (st, n) = start_workers opened created wanted 0 in
                         if st \<noteq> IDX_OK then Inl st
                         else Inr \<lparr>options = op, worker_count = n, stop = False, span = claim_span op,
                                   pool_stats = zero_stats\<lparr>workers := n\<rparr>\<rparr>))"

definition idx_fetcher_pool_get_stats :: "idx_fetcher_pool option \<Rightarrow> idx_fetcher_stats option" where
  "idx_fetcher_pool_get_stats = map_option pool_stats"

section \<open>What a claim does to its slots\<close>

definition resolved_by :: "('d, 'v) action list \<Rightarrow> u64 set" where
  "resolved_by acts = (\<Union>a \<in> set acts. case a of Resolve f t \<Rightarrow> {f..t} | _ \<Rightarrow> {})"

definition released_by :: "('d, 'v) action list \<Rightarrow> u64 set" where
  "released_by acts = (\<Union>a \<in> set acts. case a of Release f t \<Rightarrow> {f..t} | _ \<Rightarrow> {})"

definition published_by :: "('d, 'v) action list \<Rightarrow> u64 set" where
  "published_by acts = (\<Union>a \<in> set acts. case a of
      Publish_entry e st \<Rightarrow> if st = IDX_OK then {slot e} else {} | _ \<Rightarrow> {})"

lemma by_simps [simp]:
  "resolved_by [] = {}" "resolved_by (a # acts) = (case a of Resolve f t \<Rightarrow> {f..t} | _ \<Rightarrow> {}) \<union> resolved_by acts"
  "released_by [] = {}" "released_by (a # acts) = (case a of Release f t \<Rightarrow> {f..t} | _ \<Rightarrow> {}) \<union> released_by acts"
  "published_by [] = {}" "published_by (a # acts) = (case a of
      Publish_entry e st \<Rightarrow> if st = IDX_OK then {slot e} else {} | _ \<Rightarrow> {}) \<union> published_by acts"
  "resolved_by (xs @ ys) = resolved_by xs \<union> resolved_by ys"
  "released_by (xs @ ys) = released_by xs \<union> released_by ys"
  "published_by (xs @ ys) = published_by xs \<union> published_by ys"
  by (auto simp: resolved_by_def released_by_def published_by_def)

lemma slot_publish_block [simp]: "slot (publish_block s r) = s"
  by (simp add: publish_block_def)

text \<open>Cutting an interval of slots at one of them.\<close>

lemma cut_slots:
  fixes c s t :: u64
  assumes "c \<le> s" "s \<le> t" "t < IDX_SLOT_NONE"
  shows "(if s > c then {c..s - 1} else {}) = {c..<s}" and "{s + 1..<t + 1} = {s<..t}" and "s + 1 \<le> t + 1"
    and "{c..<t + 1} = {c..t}" and "s < s + 1"
proof -
  have s: "s < IDX_SLOT_NONE" using assms(2,3) by (rule le_less_trans)
  have t1: "x < t + 1 \<longleftrightarrow> x \<le> t" for x by (rule word_less_Suc_iff [OF assms(3)])
  have s1: "s + 1 \<le> x \<longleftrightarrow> s < x" for x by (rule word_Suc_le_iff [OF s])
  show "(if s > c then {c..s - 1} else {}) = {c..<s}"
  proof (cases "c < s")
    case True
    then have "x \<le> s - 1 \<longleftrightarrow> x < s" for x by (rule word_le_pred_iff)
    then show ?thesis using True by (simp add: set_eq_iff)
  next
    case False
    then show ?thesis by simp
  qed
  show "{s + 1..<t + 1} = {s<..t}" "{c..<t + 1} = {c..t}"
    by (rule set_eqI, simp only: t1 s1 atLeastLessThan_iff greaterThanAtMost_iff atLeastAtMost_iff)+
  show "s + 1 \<le> t + 1" unfolding s1 t1 using assms(2) .
  show "s < s + 1" using word_less_Suc_iff [OF s, of s] by simp
qed

definition split3 :: "'a set \<Rightarrow> 'a set \<Rightarrow> 'a set \<Rightarrow> 'a set \<Rightarrow> bool" where
  "split3 R P L A \<longleftrightarrow> R \<union> P \<union> L = A \<and> R \<inter> P = {} \<and> R \<inter> L = {} \<and> P \<inter> L = {}"

lemma split3_join:
  "split3 R P L A \<Longrightarrow> split3 R' P' L' B \<Longrightarrow> A \<inter> B = {} \<Longrightarrow> split3 (R \<union> R') (P \<union> P') (L \<union> L') (A \<union> B)"
  unfolding split3_def by blast

lemma split3_base: "split3 A {} {} A" "split3 {} A {} A" "split3 {} {} A A"
  by (simp_all add: split3_def)

definition accounts :: "('d, 'v) action list \<Rightarrow> u64 set \<Rightarrow> bool" where
  "accounts acts A \<longleftrightarrow> split3 (resolved_by acts) (published_by acts) (released_by acts) A"

lemma accounts_append: "accounts xs A \<Longrightarrow> accounts ys B \<Longrightarrow> A \<inter> B = {} \<Longrightarrow> accounts (xs @ ys) (A \<union> B)"
  unfolding accounts_def by_simps by (rule split3_join)

lemma accounts_single:
  "accounts [Resolve f t, Bump c n] {f..t}" "accounts [Release f t, Bump c n] {f..t}"
  "accounts [Publish_entry (publish_block s r) IDX_OK, Bump c n] {s}"
  "st \<noteq> IDX_OK \<Longrightarrow> accounts [Publish_entry (publish_block s r) st, Release f t] {f..t}" "accounts [] {}"
  by (simp_all add: accounts_def split3_def)

lemma word_split:
  fixes c s t :: u64
  assumes "c \<le> s" "s < IDX_SLOT_NONE"
  shows "{c..<s} \<inter> {s} = {}" "({c..<s} \<union> {s}) \<inter> {s + 1..<d} = {}" "({c..<s} \<union> {s}) \<inter> {s + 1..t} = {}"
    "{c..<s} \<inter> {s..t} = {}"
    "s < d \<Longrightarrow> {c..<s} \<union> {s} \<union> {s + 1..<d} = {c..<d}" "s \<le> t \<Longrightarrow> {c..<s} \<union> {s} \<union> {s + 1..t} = {c..t}"
    "s \<le> t \<Longrightarrow> {c..<s} \<union> {s..t} = {c..t}"
proof -
  have s1: "s + 1 \<le> x \<longleftrightarrow> s < x" for x by (rule word_Suc_le_iff [OF assms(2)])
  have after: "{s + 1..<d} = {x. s < x \<and> x < d}" "{s + 1..t} = {x. s < x \<and> x \<le> t}"
    by (rule set_eqI, simp only: atLeastLessThan_iff atLeastAtMost_iff mem_Collect_eq s1)+
  show "{c..<s} \<inter> {s} = {}" "({c..<s} \<union> {s}) \<inter> {s + 1..<d} = {}" "({c..<s} \<union> {s}) \<inter> {s + 1..t} = {}"
    "{c..<s} \<inter> {s..t} = {}"
    unfolding after by auto
  show "s < d \<Longrightarrow> {c..<s} \<union> {s} \<union> {s + 1..<d} = {c..<d}" "s \<le> t \<Longrightarrow> {c..<s} \<union> {s} \<union> {s + 1..t} = {c..t}"
    "s \<le> t \<Longrightarrow> {c..<s} \<union> {s..t} = {c..t}"
    unfolding after using assms(1) by auto
qed

definition loop_accounts :: "u64 \<Rightarrow> u64 \<Rightarrow> ('d, 'v) action list \<Rightarrow> u64 option \<Rightarrow> bool" where
  "loop_accounts t cursor acts res \<longleftrightarrow> (case res of
      Some c \<Rightarrow> cursor \<le> c \<and> c \<le> t + 1 \<and> accounts acts {cursor..<c}
    | None \<Rightarrow> accounts acts {cursor..t})"

lemma loop_accounts_step:
  assumes t: "s \<le> t" "t < IDX_SLOT_NONE" and c: "cursor \<le> s"
    and one: "accounts one {s}" and rest: "loop_accounts t (s + 1) acts res"
  shows "loop_accounts t cursor
    ((if s > cursor then [Resolve cursor (s - 1), Bump Slots_absent (s - cursor)] else []) @ one @ acts) res"
proof -
  note cut = cut_slots [OF c t]
  have s: "s < IDX_SLOT_NONE" using t by (rule le_less_trans)
  note split = word_split [OF c s]
  have skip: "accounts (if s > cursor then [Resolve cursor (s - 1), Bump Slots_absent (s - cursor)] else []) {cursor..<s}"
    using accounts_single(1) [of cursor "s - 1"] accounts_single(5) cut(1) by (cases "cursor < s") auto
  have head: "accounts ((if s > cursor then [Resolve cursor (s - 1), Bump Slots_absent (s - cursor)] else []) @ one)
      ({cursor..<s} \<union> {s})"
    by (rule accounts_append [OF skip one split(1)])
  show ?thesis
  proof (cases res)
    case None
    then have "accounts acts {s + 1..t}" using rest by (simp add: loop_accounts_def)
    from accounts_append [OF head this split(3)] split(6) [OF t(1)] None show ?thesis
      by (simp add: loop_accounts_def)
  next
    case (Some d)
    then have d: "s + 1 \<le> d" "d \<le> t + 1" "accounts acts {s + 1..<d}" using rest by (simp_all add: loop_accounts_def)
    then have "s < d" using word_Suc_le_iff [OF s] by blast
    moreover from this c have "cursor \<le> d" by simp
    ultimately show ?thesis
      using accounts_append [OF head d(3) split(2)] split(5) d(2) Some by (simp add: loop_accounts_def)
  qed
qed

lemma loop_accounts_release:
  assumes "s \<le> t" "t < IDX_SLOT_NONE" "cursor \<le> s" "accounts rest {s..t}"
  shows "loop_accounts t cursor
    ((if s > cursor then [Resolve cursor (s - 1), Bump Slots_absent (s - cursor)] else []) @ rest) None"
proof -
  have s: "s < IDX_SLOT_NONE" using assms(1,2) by (rule le_less_trans)
  have skip: "accounts (if s > cursor then [Resolve cursor (s - 1), Bump Slots_absent (s - cursor)] else []) {cursor..<s}"
    using accounts_single(1) [of cursor "s - 1"] accounts_single(5) cut_slots(1) [OF assms(3,1,2)]
    by (cases "cursor < s") auto
  from accounts_append [OF skip assms(4) word_split(4) [OF assms(3) s]] word_split(7) [OF assms(3) s assms(1)]
  show ?thesis by (simp add: loop_accounts_def)
qed

text \<open>What one claimed slot makes the loop do, and whether the function returns there.\<close>

definition skip_to :: "u64 \<Rightarrow> u64 \<Rightarrow> ('d, 'v) action list" where
  "skip_to cursor s = (if s > cursor then [Resolve cursor (s - 1), Bump Slots_absent (s - cursor)] else [])"

definition visit :: "('d, 'v) endpoint \<Rightarrow> (u64 \<Rightarrow> idx_status) \<Rightarrow> u64 \<Rightarrow> u64 \<Rightarrow> ('d, 'v) action list \<times> bool" where
  "visit rpc sent t s = (case get_block rpc s of
      Inl st \<Rightarrow> if st = IDX_ERR_NOT_FOUND then ([Resolve s s, Bump Slots_absent 1], False)
                else ([Release s t, Bump Fetch_failures 1], True)
    | Inr r \<Rightarrow> if sent s \<noteq> IDX_OK then ([Publish_entry (publish_block s r) (sent s), Release s t], True)
               else ([Publish_entry (publish_block s r) IDX_OK, Bump Blocks_fetched 1], False))"

lemma work_slots_visit:
  assumes "\<not> asked i" "cursor \<le> s" "s \<le> t"
  shows "work_slots rpc asked sent t i cursor (s # slots) =
    (if snd (visit rpc sent t s) then (skip_to cursor s @ fst (visit rpc sent t s), None)
     else (skip_to cursor s @ fst (visit rpc sent t s) @ fst (work_slots rpc asked sent t (i + 1) (s + 1) slots),
           snd (work_slots rpc asked sent t (i + 1) (s + 1) slots)))"
proof -
  have guard: "(s < cursor \<or> s > t) = False" using assms(2,3) by auto
  show ?thesis
    unfolding work_slots.simps(2) guard Let_def visit_def skip_to_def using assms(1)
    by (auto split: sum.split prod.split)
qed

lemma visit_accounts:
  "if snd (visit rpc sent t s) then accounts (fst (visit rpc sent t s)) {s..t}
   else accounts (fst (visit rpc sent t s)) {s}"
  using accounts_single(1) [of s s Slots_absent 1]
  by (auto simp: visit_def accounts_single split: sum.split)

lemma work_slots_accounts:
  assumes t: "t < IDX_SLOT_NONE"
  shows "cursor \<le> t + 1 \<Longrightarrow>
    loop_accounts t cursor (fst (work_slots rpc asked sent t i cursor slots)) (snd (work_slots rpc asked sent t i cursor slots))"
proof (induction slots arbitrary: i cursor)
  case Nil
  then show ?case by (simp add: loop_accounts_def accounts_single)
next
  case (Cons s slots)
  consider "asked i" | "\<not> asked i" "s < cursor \<or> s > t" | "\<not> asked i" "cursor \<le> s" "s \<le> t" by force
  then show ?case
  proof cases
    case 1
    then show ?thesis using Cons.prems by (simp add: loop_accounts_def accounts_single)
  next
    case 2
    then show ?thesis using Cons.IH [OF Cons.prems, of "i + 1"] by simp
  next
    case 3
    have "s + 1 \<le> t + 1" using cut_slots(3) [OF 3(2,3) t] .
    note rest = Cons.IH [OF this, of "i + 1"]
    show ?thesis
    proof (cases "snd (visit rpc sent t s)")
      case True
      then have "accounts (fst (visit rpc sent t s)) {s..t}" using visit_accounts [of rpc sent t s] by simp
      from loop_accounts_release [OF 3(3) t 3(2) this] True show ?thesis
        unfolding work_slots_visit [of asked i cursor s t, OF 3] by (simp add: skip_to_def)
    next
      case False
      then have "accounts (fst (visit rpc sent t s)) {s}" using visit_accounts [of rpc sent t s] by simp
      from loop_accounts_step [OF 3(3) t 3(2) this rest] False show ?thesis
        unfolding work_slots_visit [of asked i cursor s t, OF 3] by (simp add: skip_to_def)
    qed
  qed
qed

lemma work_range_accounts_all:
  assumes "r_from claim \<le> r_to claim" "r_to claim < IDX_SLOT_NONE"
  shows "accounts (work_range rpc asked sent claim) {r_from claim..r_to claim}"
proof (cases "get_blocks rpc (r_from claim) (r_to claim)")
  case (Inl st)
  then show ?thesis
    by (simp add: work_range_def Let_def) (simp add: accounts_def split3_def)
next
  case (Inr slots)
  let ?f = "r_from claim" and ?t = "r_to claim"
  obtain acts res where run: "work_slots rpc asked sent ?t 0 ?f slots = (acts, res)" by fastforce
  have cut: "{?f..<?t + 1} = {?f..?t}" "?f \<le> ?t + 1" "x < ?t + 1 \<longleftrightarrow> x \<le> ?t" for x
    using cut_slots(4) [OF assms(1) order_refl assms(2)] assms(1) word_less_Suc_iff [OF assms(2)]
    by (auto intro: less_imp_le)
  have loop: "loop_accounts ?t ?f acts res"
    using work_slots_accounts [OF assms(2) cut(2), of rpc asked sent 0 slots] run by simp
  show ?thesis
  proof (cases res)
    case None
    then show ?thesis using loop Inr run by (simp add: work_range_def loop_accounts_def)
  next
    case (Some c)
    then have c: "?f \<le> c" "c \<le> ?t + 1" "accounts acts {?f..<c}" using loop by (simp_all add: loop_accounts_def)
    show ?thesis
    proof (cases "c \<le> ?t")
      case True
      have "{?f..<c} \<inter> {c..?t} = {}" by auto
      moreover have "{?f..<c} \<union> {c..?t} = {?f..?t}" using c(1) True by auto
      ultimately show ?thesis
        using accounts_append [OF c(3) accounts_single(1) [of c ?t]] Inr run Some True
        by (simp add: work_range_def)
    next
      case False
      then have "c = ?t + 1" using c(2) cut(3) [of c] by auto
      then show ?thesis using c(3) cut(1) Inr run Some False by (simp add: work_range_def)
    qed
  qed
qed

text \<open>Without a stop, a slot the endpoint lists and does not disown is never resolved.\<close>

lemma work_slots_keep:
  assumes t: "t < IDX_SLOT_NONE" and asked: "\<And>i. \<not> asked i"
    and x: "x \<le> t" "get_block rpc x \<noteq> Inl IDX_ERR_NOT_FOUND"
  shows "sorted_wrt (<) slots \<Longrightarrow> x \<in> set slots \<Longrightarrow> cursor \<le> x \<Longrightarrow>
    x \<notin> resolved_by (fst (work_slots rpc asked sent t i cursor slots)) \<and>
    (case snd (work_slots rpc asked sent t i cursor slots) of Some c \<Rightarrow> x < c | None \<Rightarrow> True)"
proof (induction slots arbitrary: i cursor)
  case Nil
  then show ?case by simp
next
  case (Cons s slots)
  have sx: "s \<le> x" "x = s \<or> x \<in> set slots" "sorted_wrt (<) slots" "\<forall>y \<in> set slots. s < y"
    using Cons.prems by auto
  then have st: "s \<le> t" "s < IDX_SLOT_NONE" using x(1) t by auto
  have after: "s + 1 \<le> y \<longleftrightarrow> s < y" for y by (rule word_Suc_le_iff [OF st(2)])
  show ?case
  proof (cases "s < cursor")
    case True
    then have "x \<in> set slots" using sx Cons.prems(3) by auto
    then show ?thesis using Cons.IH [OF sx(3) _ Cons.prems(3), of "i + 1"] True asked by simp
  next
    case False
    then have cs: "cursor \<le> s" by simp
    let ?rest = "work_slots rpc asked sent t (i + 1) (s + 1) slots"
    have skip: "x \<notin> resolved_by (skip_to cursor s)"
    proof (cases "cursor < s")
      case True
      have "\<not> x \<le> s - 1" unfolding word_le_pred_iff [OF True] using sx(1) by (simp add: not_less)
      then show ?thesis by (simp add: skip_to_def)
    qed (simp add: skip_to_def)
    have here: "x \<notin> resolved_by (fst (visit rpc sent t s))"
      using x sx(1) by (auto simp: visit_def split: sum.split)
    have "loop_accounts t (s + 1) (fst ?rest) (snd ?rest)"
      using cut_slots(3) [OF cs st(1) t] by (rule work_slots_accounts [OF t])
    then have low: "resolved_by (fst ?rest) \<subseteq> {s<..}" "case snd ?rest of Some c \<Rightarrow> s < c | None \<Rightarrow> True"
      by (auto simp: loop_accounts_def accounts_def split3_def after split: option.splits)
    have "x \<notin> resolved_by (fst ?rest) \<and> (case snd ?rest of Some c \<Rightarrow> x < c | None \<Rightarrow> True)"
    proof (cases "x = s")
      case True
      then show ?thesis using low by auto
    next
      case False
      then have "x \<in> set slots" "s + 1 \<le> x" using sx after by auto
      then show ?thesis using Cons.IH [OF sx(3)] by blast
    qed
    then show ?thesis
      unfolding work_slots_visit [of asked i cursor s t, OF asked cs st(1)] using skip here
      by (cases "snd (visit rpc sent t s)") simp_all
  qed
qed

section \<open>What a claim does to the gap set\<close>

lemma act_on_gaps_step:
  assumes "gaps_ok g" "\<forall>f t. a = Release f t \<longrightarrow> t < IDX_SLOT_NONE"
  shows "gaps_ok (act_on_gaps alloc a g) \<and> (granted alloc \<longrightarrow>
    outstanding g \<union> released_by [a] - resolved_by [a] \<subseteq> outstanding (act_on_gaps alloc a g))"
proof (cases a)
  case (Resolve f t)
  obtain g' where "idx_gaps_resolve alloc (Some g) f t = Some g'" using idx_gaps_resolve_Some by blast
  with idx_gaps_resolve_ok [OF assms(1) this] Resolve show ?thesis
    by (auto simp: gaps_resolve_def simp del: idx_gaps_resolve.simps)
next
  case (Release f t)
  obtain st g' where "idx_gaps_release alloc (Some g) f t = (st, Some g')" using idx_gaps_release_Some by blast
  with idx_gaps_release_ok [OF assms(1) _ this] Release assms(2) show ?thesis
    by (auto simp: gaps_release_def simp del: idx_gaps_release.simps)
qed (use assms in simp_all)

lemma act_on_gaps_keeps:
  assumes "\<forall>a \<in> set acts. \<forall>f t. a = Release f t \<longrightarrow> t < IDX_SLOT_NONE"
  shows "gaps_ok g \<Longrightarrow> length allocs = length acts \<Longrightarrow> gaps_ok (act_all allocs acts g) \<and> (list_all granted allocs \<longrightarrow>
    outstanding g \<union> released_by acts - resolved_by acts \<subseteq> outstanding (act_all allocs acts g))"
  using assms
proof (induction acts arbitrary: g allocs)
  case Nil
  then show ?case by (simp add: act_all_def)
next
  case (Cons a acts)
  obtain alloc rest where allocs: "allocs = alloc # rest" "length rest = length acts"
    using Cons.prems(2) by (cases allocs) auto
  have "\<forall>f t. a = Release f t \<longrightarrow> t < IDX_SLOT_NONE" using Cons.prems(3) by simp
  note step = act_on_gaps_step [OF Cons.prems(1) this, of alloc]
  have "\<forall>a \<in> set acts. \<forall>f t. a = Release f t \<longrightarrow> t < IDX_SLOT_NONE" using Cons.prems(3) by simp
  note later = Cons.IH [OF conjunct1 [OF step] allocs(2) this]
  have "outstanding g \<union> released_by (a # acts) - resolved_by (a # acts) \<subseteq>
      outstanding (act_all rest acts (act_on_gaps alloc a g))" if "list_all granted allocs"
  proof -
    from that have "granted alloc" "list_all granted rest" using allocs(1) by simp_all
    then have "outstanding g \<union> released_by [a] - resolved_by [a] \<subseteq> outstanding (act_on_gaps alloc a g)"
      "outstanding (act_on_gaps alloc a g) \<union> released_by acts - resolved_by acts \<subseteq>
        outstanding (act_all rest acts (act_on_gaps alloc a g))"
      using step later by blast+
    then show ?thesis by auto
  qed
  moreover have eq: "act_all allocs (a # acts) g = act_all rest acts (act_on_gaps alloc a g)"
    by (simp add: allocs(1) act_all_def)
  ultimately show ?case using later unfolding eq by blast
qed

lemma work_slots_releases:
  "Release f u \<in> set (fst (work_slots rpc asked sent t i cursor slots)) \<Longrightarrow> u = t"
proof (induction slots arbitrary: i cursor)
  case (Cons s slots)
  show ?case
  proof (cases "asked i \<or> s < cursor \<or> s > t")
    case True
    then show ?thesis using Cons by (cases "asked i") auto
  next
    case False
    then have "\<not> asked i" "cursor \<le> s" "s \<le> t" by auto
    note eq = work_slots_visit [of asked i cursor s t, OF this]
    have "Release f u \<in> set (skip_to cursor s @ fst (visit rpc sent t s)) \<Longrightarrow> u = t"
      by (auto simp: skip_to_def visit_def split: sum.splits if_splits)
    then show ?thesis using Cons unfolding eq by (cases "snd (visit rpc sent t s)") auto
  qed
qed simp

lemma work_range_releases:
  "Release f t \<in> set (work_range rpc asked sent claim) \<Longrightarrow> t = r_to claim"
proof (cases "get_blocks rpc (r_from claim) (r_to claim)")
  case (Inl st)
  then show "Release f t \<in> set (work_range rpc asked sent claim) \<Longrightarrow> ?thesis"
    by (auto simp: work_range_def Let_def split: if_splits)
next
  case (Inr slots)
  then show "Release f t \<in> set (work_range rpc asked sent claim) \<Longrightarrow> ?thesis"
    using work_slots_releases [of f t rpc asked sent "r_to claim" 0 "r_from claim" slots]
    by (auto simp: work_range_def split_beta split: if_splits option.splits)
qed

section \<open>Properties\<close>

text \<open>
  C34: A claim accounts for every one of its slots exactly once. Whatever the endpoint, the
  ring and the stop flag answer, the slots a worker marks resolved, those it gives back and
  those it hands to the ring are disjoint, and together they are the claimed range.
\<close>

theorem work_range_accounts:
  assumes "r_from claim \<le> r_to claim" "r_to claim < IDX_SLOT_NONE"
  shows "resolved_by (work_range rpc asked sent claim) \<union> published_by (work_range rpc asked sent claim) \<union>
      released_by (work_range rpc asked sent claim) = {r_from claim..r_to claim} \<and>
    resolved_by (work_range rpc asked sent claim) \<inter> published_by (work_range rpc asked sent claim) = {} \<and>
    resolved_by (work_range rpc asked sent claim) \<inter> released_by (work_range rpc asked sent claim) = {} \<and>
    published_by (work_range rpc asked sent claim) \<inter> released_by (work_range rpc asked sent claim) = {}"
  using work_range_accounts_all [OF assms] by (simp add: accounts_def split3_def)

definition sample_endpoint :: "(nat, unit) endpoint" where
  "sample_endpoint = \<lparr>get_blocks = (\<lambda>_ _. Inr [10, 12]), get_block = (\<lambda>s. Inr (unat s, ()))\<rparr>"

definition sample_claim :: idx_gap_range where
  "sample_claim = \<lparr>r_from = 10, r_to = 13\<rparr>"

lemma sample_claim_ok: "r_from sample_claim \<le> r_to sample_claim" "r_to sample_claim < IDX_SLOT_NONE"
  by (simp_all add: sample_claim_def IDX_SLOT_NONE_def word_less_nat_alt word_le_nat_alt unsigned_minus_1_eq_mask
      mask_eq_exp_minus_1)

lemma sample_work:
  "work_range sample_endpoint (\<lambda>_. False) (\<lambda>_. IDX_OK) sample_claim =
     [Publish_entry (publish_block 10 (10, ())) IDX_OK, Bump Blocks_fetched 1, Resolve 11 11, Bump Slots_absent 1,
      Publish_entry (publish_block 12 (12, ())) IDX_OK, Bump Blocks_fetched 1, Resolve 13 13, Bump Slots_absent 1]"
  by (simp add: work_range_def sample_endpoint_def sample_claim_def Let_def word_less_nat_alt word_le_nat_alt)

theorem work_range_accounts_witness:
  "resolved_by (work_range sample_endpoint (\<lambda>_. False) (\<lambda>_. IDX_OK) sample_claim) \<union> {10, 12} = {10..13}"
  using work_range_accounts [OF sample_claim_ok, of sample_endpoint "\<lambda>_. False" "\<lambda>_. IDX_OK"]
  unfolding sample_work by (simp add: sample_claim_def ac_simps insert_commute)

text \<open>
  C8: Gap recovery loses no block the endpoint still has. With the endpoint listing slots in
  ascending order, as getBlocks documents, and no stop request, a slot it lists and does not
  disown is never resolved by the claim. The gap set stays well formed whatever the
  allocator answers; when it grants every request, a listed slot that was outstanding still
  is afterwards, and all that the claim gives back is outstanding. (When the allocator
  refuses, a slot given back can be lost, because the status of the release is ignored:
  \<open>release_without_room_forgets\<close>.)
\<close>

theorem work_range_keeps_existing:
  assumes "gaps_ok g" "r_from claim \<le> r_to claim" "r_to claim < IDX_SLOT_NONE" "\<And>i. \<not> asked i"
    and "get_blocks rpc (r_from claim) (r_to claim) = Inr slots" "sorted_wrt (<) slots"
    and "x \<in> set slots" "x \<in> {r_from claim..r_to claim}" "get_block rpc x \<noteq> Inl IDX_ERR_NOT_FOUND"
    and "length allocs = length (work_range rpc asked sent claim)"
  shows "let acts = work_range rpc asked sent claim; g' = act_all allocs acts g in
    gaps_ok g' \<and> x \<notin> resolved_by acts \<and>
    (list_all granted allocs \<longrightarrow>
      released_by acts \<subseteq> outstanding g' \<and> (x \<in> outstanding g \<longrightarrow> x \<in> outstanding g'))"
proof -
  let ?acts = "work_range rpc asked sent claim"
  have "x \<notin> resolved_by ?acts"
    using work_slots_keep [where slots = slots and cursor = "r_from claim" and i = 0 and asked = asked and sent = sent,
        OF assms(3,4) _ assms(9,6,7)] assms(5,8)
    by (auto simp: work_range_def split_beta split: option.splits)
  moreover have "\<forall>a \<in> set ?acts. \<forall>f t. a = Release f t \<longrightarrow> t < IDX_SLOT_NONE"
    using work_range_releases [of _ _ rpc asked sent claim] assms(3) by blast
  note act_on_gaps_keeps [OF this assms(1,10)]
  moreover have "released_by ?acts \<inter> resolved_by ?acts = {}"
    using work_range_accounts_all [OF assms(2,3), of rpc asked sent] by (auto simp: accounts_def split3_def)
  ultimately show ?thesis unfolding Let_def by blast
qed

text \<open>
  A stop request makes a claim forget blocks. When the flag is seen between two slots,
  the loop is left but the code after it still marks the rest of the range as absent: here
  the endpoint lists 10 and 12, the worker is stopped after 10, and slot 12, which exists
  and was neither fetched nor given back, is resolved.
\<close>

theorem stop_forgets_blocks:
  "work_range sample_endpoint (\<lambda>i. i = 1) (\<lambda>_. IDX_OK) sample_claim =
     [Publish_entry (publish_block 10 (10, ())) IDX_OK, Bump Blocks_fetched 1, Resolve 11 13, Bump Slots_absent 3] \<and>
   12 \<in> resolved_by (work_range sample_endpoint (\<lambda>i. i = 1) (\<lambda>_. IDX_OK) sample_claim)"
  by (simp add: work_range_def sample_endpoint_def sample_claim_def Let_def word_less_nat_alt word_le_nat_alt)

text \<open>Here the endpoint cannot serve slot 12, and the claim gives 12 and 13 back.\<close>

definition failing_endpoint :: "(nat, unit) endpoint" where
  "failing_endpoint = \<lparr>get_blocks = (\<lambda>_ _. Inr [10, 12]),
     get_block = (\<lambda>s. if s = 10 then Inr (10, ()) else Inl IDX_ERR_TIMEOUT)\<rparr>"

lemma failing_work:
  "work_range failing_endpoint (\<lambda>_. False) (\<lambda>_. IDX_OK) sample_claim =
     [Publish_entry (publish_block 10 (10, ())) IDX_OK, Bump Blocks_fetched 1, Resolve 11 11, Bump Slots_absent 1,
      Release 12 13, Bump Fetch_failures 1]"
  by (simp add: work_range_def failing_endpoint_def sample_claim_def Let_def word_less_nat_alt word_le_nat_alt)

theorem work_range_keeps_existing_witness:
  "{12, 13} \<subseteq> outstanding (act_all (replicate 6 (\<lambda>_. True))
      (work_range failing_endpoint (\<lambda>_. False) (\<lambda>_. IDX_OK) sample_claim) sample_gaps)"
proof -
  have "gaps_ok sample_gaps" by (rule gaps_run_ok [OF sample_run])
  from work_range_keeps_existing [OF this sample_claim_ok, of "\<lambda>_. False" failing_endpoint "[10, 12]" 12
      "replicate 6 (\<lambda>_. True)" "\<lambda>_. IDX_OK"]
  have "granted (\<lambda>_. True) \<Longrightarrow> released_by (work_range failing_endpoint (\<lambda>_. False) (\<lambda>_. IDX_OK) sample_claim) \<subseteq>
      outstanding (act_all (replicate 6 (\<lambda>_. True))
        (work_range failing_endpoint (\<lambda>_. False) (\<lambda>_. IDX_OK) sample_claim) sample_gaps)"
    unfolding failing_work Let_def by (simp add: failing_endpoint_def sample_claim_def word_less_nat_alt word_le_nat_alt list.pred_set)
  moreover have "{12, 13} \<subseteq> released_by (work_range failing_endpoint (\<lambda>_. False) (\<lambda>_. IDX_OK) sample_claim)"
    unfolding failing_work by (simp add: word_le_nat_alt)
  ultimately show ?thesis by blast
qed

lemma half_less: "\<not> w \<le> 1 \<Longrightarrow> w div 2 < (w :: u64) \<and> 0 < w div 2"
  by (simp add: word_less_nat_alt word_le_nat_alt unat_div)

lemma narrow_span_step:
  "0 < span pool \<Longrightarrow> 0 < span (narrow_span pool w) \<and> span (narrow_span pool w) \<le> span pool \<and>
     (1 < w \<longrightarrow> span (narrow_span pool w) < w)"
  using half_less [of w] by (auto simp: narrow_span_def not_le not_less)

lemma narrow_span_fold:
  "0 < span pool \<Longrightarrow> 0 < span (fold (\<lambda>w p. narrow_span p w) ws pool) \<and>
     span (fold (\<lambda>w p. narrow_span p w) ws pool) \<le> span pool \<and>
     (\<forall>w \<in> set ws. 1 < w \<longrightarrow> span (fold (\<lambda>w p. narrow_span p w) ws pool) < w)"
proof (induction ws arbitrary: pool)
  case (Cons w ws)
  note step = narrow_span_step [OF Cons.prems, of w]
  show ?case using step Cons.IH [OF conjunct1 [OF step]] by force
qed simp

text \<open>
  C39: Narrowing converges and does not overshoot. However many workers report the same
  rejected width, the claim width is halved once for it; it never grows, never reaches zero,
  and afterwards lies below every reported width greater than one.
\<close>

theorem narrow_span_converges:
  assumes "0 < span pool"
  shows "let pool' = fold (\<lambda>w p. narrow_span p w) ws pool in
    0 < span pool' \<and> span pool' \<le> span pool \<and> (\<forall>w \<in> set ws. 1 < w \<longrightarrow> span pool' < w) \<and>
    narrow_span (narrow_span pool w) w = narrow_span pool w"
proof -
  have "narrow_span (narrow_span pool w) w = narrow_span pool w"
    using narrow_span_step [OF assms, of w] by (cases "1 < w") (auto simp: narrow_span_def not_less)
  then show ?thesis using narrow_span_fold [OF assms, of ws] by (simp add: Let_def)
qed

theorem narrow_span_converges_witness:
  "span (fold (\<lambda>w p. narrow_span p w) [64, 64, 32] \<lparr>options = \<lparr>claim_span = 64, idle_ms = 250\<rparr>,
     worker_count = 2, stop = False, span = 64, pool_stats = zero_stats\<rparr>) < 32"
  using narrow_span_converges [of "\<lparr>options = \<lparr>claim_span = 64, idle_ms = 250\<rparr>,
     worker_count = 2, stop = False, span = 64, pool_stats = zero_stats\<rparr>" "[64, 64, 32]" 0]
  by (simp only: Let_def) simp

end
