(* ===== verification/Bytes.thy ===== *)
theory Bytes
  imports Prelude
begin

unbundle bit_operations_syntax

text \<open>
  Byte slices, the bounds-checked reader over them, the growable byte buffer and the hex
  codec (\<^verbatim>\<open>src/bytes.c\<close>, \<^verbatim>\<open>include/bytes.h\<close>). A slice is the list of the bytes it
  views, so \<^verbatim>\<open>NULL\<close> with length zero is the empty list; the storage of a buffer is
  the list of all bytes it has allocated, of which the first \<open>b_len\<close> are its contents.
\<close>

section \<open>Slices\<close>

type_synonym idx_slice = bytes

definition SIZE_MAX :: nat where
  "SIZE_MAX = 18446744073709551615"

fun idx_slice_make :: "bytes option \<Rightarrow> nat \<Rightarrow> idx_slice" where
  "idx_slice_make None len = []"
| "idx_slice_make (Some data) len = take len data"

definition chars_to_bytes :: "string \<Rightarrow> bytes" where
  "chars_to_bytes = map (\<lambda>c. of_char c)"

fun idx_slice_from_str :: "string option \<Rightarrow> idx_slice" where
  "idx_slice_from_str None = idx_slice_make None 0"
| "idx_slice_from_str (Some str) = idx_slice_make (Some (chars_to_bytes str)) (length str)"

definition idx_slice_is_empty :: "idx_slice \<Rightarrow> bool" where
  "idx_slice_is_empty view \<longleftrightarrow> length view = 0"

definition idx_slice_equal :: "idx_slice \<Rightarrow> idx_slice \<Rightarrow> bool" where
  "idx_slice_equal a b =
     (if length a \<noteq> length b then False
      else if length a = 0 then True
      else (\<forall>i < length a. a ! i = b ! i))"

definition idx_slice_sub :: "idx_slice \<Rightarrow> nat \<Rightarrow> nat \<Rightarrow> idx_slice" where
  "idx_slice_sub view offset len =
     (if offset \<ge> length view then idx_slice_make None 0
      else let available = length view - offset in
        idx_slice_make (Some (drop offset view)) (if len < available then len else available))"

lemma idx_slice_equal_iff [spec_simps]: "idx_slice_equal a b \<longleftrightarrow> a = b"
  by (auto simp: idx_slice_equal_def intro: nth_equalityI)

lemma idx_slice_sub_eq [spec_simps]: "idx_slice_sub view offset len = take len (drop offset view)"
  by (auto simp: idx_slice_sub_def Let_def)

lemma idx_slice_is_empty_iff [spec_simps]: "idx_slice_is_empty view \<longleftrightarrow> view = []"
  by (simp add: idx_slice_is_empty_def)

section \<open>Cursors\<close>

record idx_cursor =
  c_input :: idx_slice
  c_offset :: nat

definition idx_cursor_init :: "idx_slice \<Rightarrow> idx_cursor" where
  "idx_cursor_init view = \<lparr>c_input = view, c_offset = 0\<rparr>"

definition idx_cursor_remaining :: "idx_cursor \<Rightarrow> nat" where
  "idx_cursor_remaining cursor = length (c_input cursor) - c_offset cursor"

definition idx_cursor_exhausted :: "idx_cursor \<Rightarrow> bool" where
  "idx_cursor_exhausted cursor \<longleftrightarrow> idx_cursor_remaining cursor = 0"

definition idx_cursor_take :: "idx_cursor \<Rightarrow> nat \<Rightarrow> (idx_slice \<times> idx_cursor) result" where
  "idx_cursor_take cursor len =
     (if len > idx_cursor_remaining cursor then Inl IDX_ERR_RANGE
      else Inr (idx_slice_make (Some (drop (c_offset cursor) (c_input cursor))) len,
                cursor\<lparr>c_offset := c_offset cursor + len\<rparr>))"

definition idx_cursor_copy :: "idx_cursor \<Rightarrow> nat \<Rightarrow> (bytes \<times> idx_cursor) result" where
  "idx_cursor_copy cursor len = idx_try (idx_cursor_take cursor len) (\<lambda>(taken, cursor). Inr (taken, cursor))"

definition idx_cursor_skip :: "idx_cursor \<Rightarrow> nat \<Rightarrow> idx_cursor result" where
  "idx_cursor_skip cursor len = idx_try (idx_cursor_take cursor len) (\<lambda>(_, cursor). Inr cursor)"

definition idx_cursor_u8 :: "idx_cursor \<Rightarrow> (byte \<times> idx_cursor) result" where
  "idx_cursor_u8 cursor = idx_try (idx_cursor_copy cursor 1) (\<lambda>(raw, cursor). Inr (raw ! 0, cursor))"

definition idx_cursor_u16le :: "idx_cursor \<Rightarrow> (u16 \<times> idx_cursor) result" where
  "idx_cursor_u16le cursor = idx_try (idx_cursor_copy cursor 2) (\<lambda>(raw, cursor).
     Inr (ucast (raw ! 0) OR push_bit 8 (ucast (raw ! 1)), cursor))"

definition idx_cursor_u32le :: "idx_cursor \<Rightarrow> (u32 \<times> idx_cursor) result" where
  "idx_cursor_u32le cursor = idx_try (idx_cursor_copy cursor 4) (\<lambda>(raw, cursor).
     Inr (ucast (raw ! 0) OR push_bit 8 (ucast (raw ! 1)) OR push_bit 16 (ucast (raw ! 2)) OR
          push_bit 24 (ucast (raw ! 3)), cursor))"

definition idx_cursor_u64le :: "idx_cursor \<Rightarrow> (u64 \<times> idx_cursor) result" where
  "idx_cursor_u64le cursor = idx_try (idx_cursor_copy cursor 8) (\<lambda>(raw, cursor).
     Inr (fold (\<lambda>i value. value OR push_bit (8 * i) (ucast (raw ! i))) [0..<8] 0, cursor))"

section \<open>Buffers\<close>

record idx_buffer =
  b_data :: bytes
  b_len :: nat
  b_capacity :: nat

definition IDX_BUFFER_MIN_CAPACITY :: nat where
  "IDX_BUFFER_MIN_CAPACITY = 64"

definition idx_buffer_init :: "idx_buffer option \<Rightarrow> idx_buffer option" where
  "idx_buffer_init = map_option (\<lambda>_. \<lparr>b_data = [], b_len = 0, b_capacity = 0\<rparr>)"

text \<open>
  The loop that picks the new capacity. It is entered with a positive capacity; at zero,
  which the caller excludes, doubling would not progress.
\<close>

function grow_capacity :: "nat \<Rightarrow> nat \<Rightarrow> nat" where
  "grow_capacity capacity needed =
     (if capacity < needed \<and> capacity \<noteq> 0 then
        (if capacity > SIZE_MAX div 2 then needed else grow_capacity (capacity * 2) needed)
      else capacity)"
  by pat_completeness auto
termination by (relation "measure (\<lambda>(capacity, needed). needed - capacity)") auto

declare grow_capacity.simps [simp del]

text \<open>\<open>alloc n\<close> says whether the allocator grants \<open>n\<close> bytes; \<open>junk\<close> fills what it adds.\<close>

definition realloc :: "(nat \<Rightarrow> bool) \<Rightarrow> byte \<Rightarrow> bytes \<Rightarrow> nat \<Rightarrow> bytes option" where
  "realloc alloc junk data n =
     (if alloc n then Some (take n data @ replicate (n - length data) junk) else None)"

fun idx_buffer_reserve ::
    "(nat \<Rightarrow> bool) \<Rightarrow> byte \<Rightarrow> idx_buffer option \<Rightarrow> nat \<Rightarrow> idx_buffer result" where
  "idx_buffer_reserve alloc junk None additional = Inl IDX_ERR_INVALID_ARG"
| "idx_buffer_reserve alloc junk (Some buffer) additional =
     (if additional \<le> b_capacity buffer - b_len buffer then Inr buffer
      else if additional > SIZE_MAX - b_len buffer then Inl IDX_ERR_RANGE
      else let needed = b_len buffer + additional;
               capacity = grow_capacity
                 (if b_capacity buffer > 0 then b_capacity buffer else IDX_BUFFER_MIN_CAPACITY) needed
           in case realloc alloc junk (b_data buffer) capacity of
                None \<Rightarrow> Inl IDX_ERR_NO_MEMORY
              | Some grown \<Rightarrow> Inr (buffer\<lparr>b_data := grown, b_capacity := capacity\<rparr>))"

text \<open>\<open>data\<close> is \<open>None\<close> for a \<^verbatim>\<open>NULL\<close> pointer; \<open>len\<close> is then what the caller passed.\<close>

definition idx_buffer_append ::
    "(nat \<Rightarrow> bool) \<Rightarrow> byte \<Rightarrow> idx_buffer option \<Rightarrow> bytes option \<Rightarrow> nat \<Rightarrow> idx_buffer option result" where
  "idx_buffer_append alloc junk buffer data len =
     (if len = 0 then Inr buffer
      else case data of
        None \<Rightarrow> Inl IDX_ERR_INVALID_ARG
      | Some bs \<Rightarrow> idx_try (idx_buffer_reserve alloc junk buffer len) (\<lambda>b.
          Inr (Some (b\<lparr>b_data := take (b_len b) (b_data b) @ take len bs @ drop (b_len b + len) (b_data b),
                       b_len := b_len b + len\<rparr>))))"

definition idx_buffer_append_byte ::
    "(nat \<Rightarrow> bool) \<Rightarrow> byte \<Rightarrow> idx_buffer option \<Rightarrow> byte \<Rightarrow> idx_buffer option result" where
  "idx_buffer_append_byte alloc junk buffer byte = idx_buffer_append alloc junk buffer (Some [byte]) 1"

definition idx_buffer_clear :: "idx_buffer option \<Rightarrow> idx_buffer option" where
  "idx_buffer_clear = map_option (\<lambda>b. b\<lparr>b_len := 0\<rparr>)"

definition idx_buffer_free :: "idx_buffer option \<Rightarrow> idx_buffer option" where
  "idx_buffer_free = idx_buffer_init"

fun idx_buffer_slice :: "idx_buffer option \<Rightarrow> idx_slice" where
  "idx_buffer_slice None = idx_slice_make None 0"
| "idx_buffer_slice (Some b) = idx_slice_make (Some (b_data b)) (b_len b)"

section \<open>Hex\<close>

definition k_hex_digits :: string where
  "k_hex_digits = ''0123456789abcdef''"

definition idx_hex_encoded_size :: "nat \<Rightarrow> nat" where
  "idx_hex_encoded_size byte_count = byte_count * 2"

definition hex_pair :: "byte \<Rightarrow> string" where
  "hex_pair b = [k_hex_digits ! unat (drop_bit 4 b), k_hex_digits ! unat (b AND 0x0F)]"

text \<open>The text written before the terminator, into an array of \<open>out_size\<close> characters.\<close>

definition idx_hex_encode :: "idx_slice \<Rightarrow> nat \<Rightarrow> string result" where
  "idx_hex_encode view out_size =
     (if out_size < idx_hex_encoded_size (length view) + 1 then Inl IDX_ERR_RANGE
      else Inr (concat (map hex_pair view)))"

definition hex_value :: "char \<Rightarrow> int" where
  "hex_value c =
     (if of_char c \<ge> (48::nat) \<and> of_char c \<le> (57::nat) then of_char c - 48
      else if of_char c \<ge> (97::nat) \<and> of_char c \<le> (102::nat) then of_char c - 97 + 10
      else if of_char c \<ge> (65::nat) \<and> of_char c \<le> (70::nat) then of_char c - 65 + 10
      else - 1)"

fun hex_decode_loop :: "string \<Rightarrow> bytes result" where
  "hex_decode_loop (h # l # rest) =
     (let high = hex_value h; low = hex_value l in
      if high < 0 \<or> low < 0 then Inl IDX_ERR_PARSE
      else idx_try (hex_decode_loop rest) (\<lambda>bs.
        Inr (word_of_int (push_bit 4 high OR low) # bs)))"
| "hex_decode_loop _ = Inr []"

fun idx_hex_decode :: "string option \<Rightarrow> nat \<Rightarrow> bytes result" where
  "idx_hex_decode None out_size = Inl IDX_ERR_INVALID_ARG"
| "idx_hex_decode (Some text) out_size =
     (if length text mod 2 \<noteq> 0 then Inl IDX_ERR_PARSE
      else if out_size < length text div 2 then Inl IDX_ERR_RANGE
      else hex_decode_loop text)"

section \<open>Little-endian reads\<close>

text \<open>The number a little-endian byte string denotes.\<close>

fun le_value :: "bytes \<Rightarrow> nat" where
  "le_value [] = 0"
| "le_value (b # bs) = unat b + 256 * le_value bs"

lemma le_value_append: "le_value (xs @ ys) = le_value xs + 2 ^ (8 * length xs) * le_value ys"
  by (induction xs) (simp_all add: power_add algebra_simps)

lemma unat_byte: "unat (b :: byte) < 256"
  using unsigned_less [of b, where 'a = nat] by simp

lemma le_value_less: "le_value bs < 2 ^ (8 * length bs)"
proof (induction bs)
  case (Cons b bs)
  then have "le_value bs + 1 \<le> 2 ^ (8 * length bs)" by simp
  then have "256 * (le_value bs + 1) \<le> 256 * 2 ^ (8 * length bs)" by (intro mult_le_mono) simp_all
  then show ?case using unat_byte [of b] by (simp add: power_add algebra_simps)
qed simp

text \<open>One step of assembling a word: the next byte goes above the bits already set.\<close>

lemma unat_or_push:
  fixes v :: "'a::len word" and b :: byte
  assumes "unat v < 2 ^ i" and "i + 8 \<le> LENGTH('a)"
  shows "unat (v OR push_bit i (ucast b)) = unat v + 2 ^ i * unat b"
proof -
  have v: "\<not> bit v n" if "i \<le> n" for n
  proof -
    have "unat v < 2 ^ n" using assms(1) that
      by (meson less_le_trans one_le_numeral power_increasing)
    then have "\<not> bit (unat v) n" by (simp add: bit_iff_odd)
    then show ?thesis by (auto simp: bit_simps)
  qed
  have "v OR push_bit i (ucast b) = v + push_bit i (ucast b)"
    by (rule disjunctive_add_eq_or [symmetric], rule bit_word_eqI) (auto simp: bit_simps v)
  moreover have "unat (push_bit i (ucast b) :: 'a word) = 2 ^ i * unat b"
  proof -
    have "unat b * 2 ^ i < 256 * 2 ^ i" using unat_byte [of b] by (intro mult_strict_right_mono) simp_all
    also have "\<dots> = 2 ^ (i + 8)" by (simp add: power_add)
    also have "\<dots> \<le> 2 ^ LENGTH('a)" using assms(2) by (intro power_increasing) simp_all
    finally have *: "2 ^ i * unat b < 2 ^ LENGTH('a)" by (simp add: mult.commute)
    have "(256 :: nat) = 2 ^ 8" by simp
    then have "unat b < 2 ^ LENGTH('a)"
      using unat_byte [of b] assms(2) by (metis add_leE less_le_trans one_le_numeral power_increasing)
    then have "unat (ucast b :: 'a word) = unat b" by (simp add: unsigned_ucast_eq take_bit_eq_mod)
    moreover have "unat (push_bit i (ucast b) :: 'a word)
        = take_bit LENGTH('a) (push_bit i (unat (ucast b :: 'a word)))"
      by (rule unsigned_push_bit_eq)
    ultimately show ?thesis using * by (simp add: push_bit_eq_mult take_bit_eq_mod mult.commute)
  qed
  moreover have "unat v + 2 ^ i * unat b < 2 ^ LENGTH('a)"
  proof -
    have "2 ^ i * (unat b + 1) \<le> 2 ^ i * 256" using unat_byte [of b] by (intro mult_le_mono) simp_all
    then have "2 ^ i + 2 ^ i * unat b \<le> 2 ^ i * 256" by (simp only: distrib_left mult_1_right add.commute)
    then have "unat v + 2 ^ i * unat b < 2 ^ i * 256" using assms(1) by linarith
    then have "unat v + 2 ^ i * unat b < 2 ^ (i + 8)" by (simp only: power_add) simp
    also have "(2::nat) ^ (i + 8) \<le> 2 ^ LENGTH('a)" using assms(2) by (intro power_increasing) simp_all
    finally show ?thesis .
  qed
  ultimately show ?thesis by (simp add: unat_word_ariths)
qed

definition cursor_ok :: "idx_cursor \<Rightarrow> bool" where
  "cursor_ok c \<longleftrightarrow> c_offset c \<le> length (c_input c)"

definition unread :: "idx_cursor \<Rightarrow> bytes" where
  "unread c = drop (c_offset c) (c_input c)"

lemma idx_cursor_take_eq [spec_simps]:
  "idx_cursor_take c len =
     (if len \<le> length (unread c) then Inr (take len (unread c), c\<lparr>c_offset := c_offset c + len\<rparr>)
      else Inl IDX_ERR_RANGE)"
  by (simp add: idx_cursor_take_def idx_cursor_remaining_def unread_def)

lemma idx_cursor_copy_eq [spec_simps]: "idx_cursor_copy c len = idx_cursor_take c len"
  by (cases "idx_cursor_take c len") (auto simp: idx_cursor_copy_def)

lemma idx_cursor_skip_eq [spec_simps]:
  "idx_cursor_skip c len =
     (if len \<le> length (unread c) then Inr (c\<lparr>c_offset := c_offset c + len\<rparr>) else Inl IDX_ERR_RANGE)"
  by (simp add: idx_cursor_skip_def idx_cursor_take_eq)

definition le_word :: "nat \<Rightarrow> bytes \<Rightarrow> 'a::len word" where
  "le_word n raw = fold (\<lambda>i v. v OR push_bit (8 * i) (ucast (raw ! i))) [0..<n] 0"

lemma unat_le_word:
  "8 * n \<le> LENGTH('a::len) \<Longrightarrow> n \<le> length raw \<Longrightarrow> unat (le_word n raw :: 'a word) = le_value (take n raw)"
proof (induction n)
  case 0
  show ?case by (simp add: le_word_def)
next
  case (Suc n)
  then have IH: "unat (le_word n raw :: 'a word) = le_value (take n raw)" by simp
  have len: "length (take n raw) = n" using Suc.prems by simp
  then have "unat (le_word n raw :: 'a word) < 2 ^ (8 * n)" using le_value_less [of "take n raw"] IH by simp
  moreover have "8 * n + 8 \<le> LENGTH('a)" using Suc.prems(1) by simp
  ultimately have "unat (le_word n raw OR push_bit (8 * n) (ucast (raw ! n)) :: 'a word)
      = le_value (take n raw) + 2 ^ (8 * n) * unat (raw ! n)"
    using unat_or_push IH by metis
  moreover have "take (Suc n) raw = take n raw @ [raw ! n]"
    using Suc.prems by (simp add: take_Suc_conv_app_nth)
  ultimately show ?case using len by (simp add: le_word_def le_value_append)
qed

lemma idx_cursor_u8_eq [spec_simps]:
  "idx_cursor_u8 c = (if unread c = [] then Inl IDX_ERR_RANGE
     else Inr (hd (unread c), c\<lparr>c_offset := c_offset c + 1\<rparr>))"
  by (cases "unread c") (simp_all add: idx_cursor_u8_def idx_cursor_copy_eq idx_cursor_take_eq)

lemma idx_cursor_u16le_eq:
  "idx_cursor_u16le c = (if 2 \<le> length (unread c)
     then Inr (le_word 2 (take 2 (unread c)), c\<lparr>c_offset := c_offset c + 2\<rparr>) else Inl IDX_ERR_RANGE)"
  by (simp add: idx_cursor_u16le_def idx_cursor_copy_eq idx_cursor_take_eq le_word_def eval_nat_numeral)

lemma idx_cursor_u32le_eq:
  "idx_cursor_u32le c = (if 4 \<le> length (unread c)
     then Inr (le_word 4 (take 4 (unread c)), c\<lparr>c_offset := c_offset c + 4\<rparr>) else Inl IDX_ERR_RANGE)"
proof -
  have "[0..<4] = [0, 1, 2, 3 :: nat]" by (simp add: upt_rec)
  then show ?thesis by (simp add: idx_cursor_u32le_def idx_cursor_copy_eq idx_cursor_take_eq le_word_def or.assoc)
qed

lemma idx_cursor_u64le_eq:
  "idx_cursor_u64le c = (if 8 \<le> length (unread c)
     then Inr (le_word 8 (take 8 (unread c)), c\<lparr>c_offset := c_offset c + 8\<rparr>) else Inl IDX_ERR_RANGE)"
  by (simp add: idx_cursor_u64le_def idx_cursor_copy_eq idx_cursor_take_eq le_word_def)

section \<open>The buffer as a byte string\<close>

definition buffer_ok :: "idx_buffer \<Rightarrow> bool" where
  "buffer_ok b \<longleftrightarrow> length (b_data b) = b_capacity b \<and> b_len b \<le> b_capacity b \<and> b_capacity b \<le> SIZE_MAX"

lemma grow_capacity_bounds:
  "0 < capacity \<Longrightarrow> capacity \<le> SIZE_MAX \<Longrightarrow> needed \<le> SIZE_MAX \<Longrightarrow>
     capacity \<le> grow_capacity capacity needed \<and> needed \<le> grow_capacity capacity needed \<and>
     grow_capacity capacity needed \<le> SIZE_MAX"
proof (induction capacity needed rule: grow_capacity.induct)
  case (1 capacity needed)
  show ?case
  proof (cases "capacity < needed \<and> \<not> capacity > SIZE_MAX div 2")
    case True
    then have "capacity * 2 \<le> SIZE_MAX" by (auto simp: SIZE_MAX_def)
    with 1 True show ?thesis by (subst (1 2 3) grow_capacity.simps) auto
  next
    case False
    with 1 show ?thesis by (subst (1 2 3) grow_capacity.simps) auto
  qed
qed

lemma reserve_ok:
  assumes "buffer_ok b" and "idx_buffer_reserve alloc junk (Some b) n = Inr b'"
  shows "buffer_ok b'" "idx_buffer_slice (Some b') = idx_buffer_slice (Some b)"
    "b_len b' = b_len b" "b_len b + n \<le> b_capacity b'"
proof -
  consider (room) "n \<le> b_capacity b - b_len b" "b' = b"
    | (grow) grown where "n > b_capacity b - b_len b" "n \<le> SIZE_MAX - b_len b"
      "realloc alloc junk (b_data b) (grow_capacity (if b_capacity b > 0 then b_capacity b
         else IDX_BUFFER_MIN_CAPACITY) (b_len b + n)) = Some grown"
      "b' = b\<lparr>b_data := grown, b_capacity := grow_capacity (if b_capacity b > 0 then b_capacity b
         else IDX_BUFFER_MIN_CAPACITY) (b_len b + n)\<rparr>"
    using assms(2) by (auto simp: Let_def split: if_splits option.splits)
  then have "buffer_ok b' \<and> take (b_len b) (b_data b') = take (b_len b) (b_data b) \<and>
      b_len b' = b_len b \<and> b_len b + n \<le> b_capacity b'"
  proof cases
    case room
    then show ?thesis using assms(1) by (auto simp: buffer_ok_def)
  next
    case grow
    let ?base = "if b_capacity b > 0 then b_capacity b else IDX_BUFFER_MIN_CAPACITY"
    let ?c = "grow_capacity ?base (b_len b + n)"
    have c: "?base \<le> ?c" "b_len b + n \<le> ?c" "?c \<le> SIZE_MAX"
      using grow_capacity_bounds [of ?base "b_len b + n"] assms(1) grow(2)
      by (auto simp: buffer_ok_def SIZE_MAX_def IDX_BUFFER_MIN_CAPACITY_def split: if_splits)
    have "grown = take ?c (b_data b) @ replicate (?c - length (b_data b)) junk"
      using grow(3) by (simp add: realloc_def split: if_splits)
    then show ?thesis using assms(1) c grow(4) by (auto simp: buffer_ok_def split: if_splits)
  qed
  then show "buffer_ok b'" "idx_buffer_slice (Some b') = idx_buffer_slice (Some b)"
    "b_len b' = b_len b" "b_len b + n \<le> b_capacity b'" by simp_all
qed

lemma reserve_granted:
  assumes "\<And>n. alloc n" and "n \<le> SIZE_MAX - b_len b"
  shows "\<exists>b'. idx_buffer_reserve alloc junk (Some b) n = Inr b'"
  using assms by (auto simp: Let_def realloc_def split: option.splits)

lemma append_ok:
  assumes "buffer_ok b" and "idx_buffer_append alloc junk (Some b) (Some bs) (length bs) = Inr (Some b')"
  shows "buffer_ok b' \<and> idx_buffer_slice (Some b') = idx_buffer_slice (Some b) @ bs"
proof (cases "bs = []")
  case True
  with assms show ?thesis by (simp add: idx_buffer_append_def)
next
  case False
  with assms(2) obtain b1 where res: "idx_buffer_reserve alloc junk (Some b) (length bs) = Inr b1"
    and b': "b' = b1\<lparr>b_data := take (b_len b1) (b_data b1) @ bs @ drop (b_len b1 + length bs) (b_data b1),
                       b_len := b_len b1 + length bs\<rparr>"
    by (auto simp: idx_buffer_append_def idx_try_Inr_iff simp del: idx_buffer_reserve.simps)
  from reserve_ok [OF assms(1) res] b' assms(1) show ?thesis by (auto simp: buffer_ok_def)
qed

section \<open>Hex round trip\<close>

lemma hex_digit_value:
  "n < 16 \<Longrightarrow> hex_value (k_hex_digits ! n) = int n"
proof -
  have "\<forall>n \<in> set [0..<16]. hex_value (k_hex_digits ! n) = int n" by code_simp
  then show "n < 16 \<Longrightarrow> hex_value (k_hex_digits ! n) = int n" by simp
qed

lemma nibbles: "word_of_int (push_bit 4 (uint (drop_bit 4 b)) OR uint (b AND 0x0F)) = (b :: byte)"
proof (rule bit_word_eqI)
  fix n
  assume n: "n < LENGTH(8)"
  have m: "(0x0F :: byte) = mask 4" by (simp add: mask_eq_exp_minus_1)
  show "bit (word_of_int (push_bit 4 (uint (drop_bit 4 b)) OR uint (b AND 0x0F)) :: byte) n = bit b n"
    using n by (cases "n < 4") (auto simp: m bit_simps)
qed

lemma hex_decode_pair: "hex_decode_loop (hex_pair b @ t) = idx_try (hex_decode_loop t) (\<lambda>bs. Inr (b # bs))"
proof -
  have m: "(0x0F :: byte) = mask 4" by (simp add: mask_eq_exp_minus_1)
  have "unat (drop_bit 4 b) < 16"
  proof -
    have "unat (drop_bit 4 b) = drop_bit 4 (take_bit LENGTH(8) (unat b))" by (rule unsigned_drop_bit_eq)
    then show ?thesis using unat_byte [of b] by (simp add: drop_bit_eq_div take_bit_eq_mod)
  qed
  moreover have "unat (b AND 0x0F) < 16"
  proof -
    have "unat (take_bit 4 b) = take_bit 4 (unat b)" by (rule unsigned_take_bit_eq)
    then show ?thesis using take_bit_nat_less_exp [of 4 "unat b"] by (simp only: m take_bit_eq_mask) simp
  qed
  ultimately show ?thesis using nibbles [of b]
    by (simp add: hex_pair_def hex_digit_value Let_def)
qed

lemma hex_decode_encode: "hex_decode_loop (concat (map hex_pair bs)) = Inr bs"
  by (induction bs) (simp_all add: hex_decode_pair)

lemma length_hex_text: "length (concat (map hex_pair bs)) = 2 * length bs"
  by (induction bs) (simp_all add: hex_pair_def)

section \<open>Reverse lookup tables\<close>

text \<open>The tables the text codecs build: the position of each letter, 0xFF elsewhere.\<close>

definition reverse_table :: "string \<Rightarrow> nat \<Rightarrow> bytes" where
  "reverse_table letters n =
     fold (\<lambda>i table. table[of_char (letters ! i) := word_of_nat i]) [0..<n] (replicate 256 0xFF)"

lemma of_char_less: "(of_char c :: nat) < 256"
  by (metis of_char_mod_256 mod_less_divisor zero_less_numeral)

lemma reverse_table_nth:
  "distinct letters \<Longrightarrow> n \<le> length letters \<Longrightarrow>
   length (reverse_table letters n) = 256 \<and>
   (\<forall>i < n. reverse_table letters n ! of_char (letters ! i) = word_of_nat i) \<and>
   (\<forall>c. c \<notin> set (take n letters) \<longrightarrow> reverse_table letters n ! of_char c = 0xFF)"
proof (induction n)
  case 0
  show ?case by (simp add: reverse_table_def of_char_less)
next
  case (Suc n)
  have step: "reverse_table letters (Suc n) = (reverse_table letters n)[of_char (letters ! n) := word_of_nat n]"
    by (simp add: reverse_table_def)
  have other: "letters ! n = letters ! i \<longleftrightarrow> n = i" if "i < n" for i
    using Suc.prems that by (simp add: nth_eq_iff_index_eq)
  have "set (take (Suc n) letters) = insert (letters ! n) (set (take n letters))"
    using Suc.prems by (simp add: take_Suc_conv_app_nth)
  then show ?case using Suc
    by (auto simp: other step nth_list_update of_char_less less_Suc_eq)
qed

section \<open>Properties\<close>

text \<open>
  The reader is exact and never leaves its input. Every little-endian read of a cursor
  either fails with RANGE, exactly when fewer bytes are left than the width, or returns the
  number the next bytes denote and moves past exactly those.
\<close>

theorem cursor_reads_le:
  "(case idx_cursor_u16le c of
      Inl e \<Rightarrow> e = IDX_ERR_RANGE \<and> length (unread c) < 2
    | Inr (v, c') \<Rightarrow> 2 \<le> length (unread c) \<and> unat v = le_value (take 2 (unread c)) \<and> unread c' = drop 2 (unread c)) \<and>
   (case idx_cursor_u32le c of
      Inl e \<Rightarrow> e = IDX_ERR_RANGE \<and> length (unread c) < 4
    | Inr (v, c') \<Rightarrow> 4 \<le> length (unread c) \<and> unat v = le_value (take 4 (unread c)) \<and> unread c' = drop 4 (unread c)) \<and>
   (case idx_cursor_u64le c of
      Inl e \<Rightarrow> e = IDX_ERR_RANGE \<and> length (unread c) < 8
    | Inr (v, c') \<Rightarrow> 8 \<le> length (unread c) \<and> unat v = le_value (take 8 (unread c)) \<and> unread c' = drop 8 (unread c))"
  by (simp add: idx_cursor_u16le_eq idx_cursor_u32le_eq idx_cursor_u64le_eq unat_le_word)
     (simp add: unread_def add.commute)

text \<open>
  Appending to a buffer appends to its contents. Whatever the allocator grants, an
  append either fails without an output (RANGE only when the length would overflow, else
  NO_MEMORY) or yields a well-formed buffer whose contents are the old ones followed by the
  new bytes; when memory is granted and the length fits it succeeds.
\<close>

theorem buffer_append_refines:
  assumes "buffer_ok b"
  shows "case idx_buffer_append alloc junk (Some b) (Some bs) (length bs) of
      Inl e \<Rightarrow> (e = IDX_ERR_RANGE \<and> b_len b + length bs > SIZE_MAX) \<or>
               (e = IDX_ERR_NO_MEMORY \<and> (\<exists>n. \<not> alloc n))
    | Inr res \<Rightarrow> (\<exists>b'. res = Some b' \<and> buffer_ok b' \<and>
               idx_buffer_slice (Some b') = idx_buffer_slice (Some b) @ bs)"
proof (cases "idx_buffer_append alloc junk (Some b) (Some bs) (length bs)")
  case (Inl e)
  then have "idx_buffer_reserve alloc junk (Some b) (length bs) = Inl e"
    by (auto simp: idx_buffer_append_def idx_try_Inl_iff simp del: idx_buffer_reserve.simps split: if_splits)
  then show ?thesis using Inl
    by (auto simp: Let_def realloc_def split: if_splits option.splits)
next
  case (Inr res)
  then obtain b' where "res = Some b'"
    by (auto simp: idx_buffer_append_def idx_try_Inr_iff simp del: idx_buffer_reserve.simps split: if_splits)
  with append_ok [OF assms] Inr show ?thesis by simp
qed

theorem buffer_append_refines_witness:
  "buffer_ok \<lparr>b_data = [1, 2, 0], b_len = 2, b_capacity = 3\<rparr> \<and>
   (\<exists>b'. idx_buffer_append (\<lambda>_. True) 0 (Some \<lparr>b_data = [1, 2, 0], b_len = 2, b_capacity = 3\<rparr>) (Some [7]) 1
      = Inr (Some b') \<and> idx_buffer_slice (Some b') = [1, 2, 7])"
proof -
  have ok: "buffer_ok \<lparr>b_data = [1, 2, 0], b_len = 2, b_capacity = 3\<rparr>"
    by (simp add: buffer_ok_def SIZE_MAX_def)
  show ?thesis using buffer_append_refines [OF ok, where alloc = "\<lambda>_. True" and junk = 0 and bs = "[7]"] ok
    by (simp add: idx_buffer_append_def)
qed

text \<open>
  Hex round trip. Encoding into an array with room for the terminator succeeds with two
  digits a byte, and decoding that text into an array of the original size gives the bytes
  back.
\<close>

theorem hex_roundtrip:
  assumes "2 * length bs < out_size" and "length bs \<le> in_size"
  shows "\<exists>t. idx_hex_encode bs out_size = Inr t \<and> length t = idx_hex_encoded_size (length bs) \<and>
             idx_hex_decode (Some t) in_size = Inr bs"
  using assms
  by (auto simp: idx_hex_encode_def idx_hex_encoded_size_def length_hex_text hex_decode_encode)

theorem hex_roundtrip_witness:
  "\<exists>t. idx_hex_encode [0, 171] 5 = Inr t \<and> length t = 4 \<and> idx_hex_decode (Some t) 2 = Inr [0, 171]"
  using hex_roundtrip [of "[0, 171]" 5 2] by (simp add: idx_hex_encoded_size_def)

end
