(* ===== verification/Base64.thy ===== *)
theory Base64
  imports Bytes
begin

unbundle bit_operations_syntax

text \<open>
  The base64 codec (\<^verbatim>\<open>src/base64.c\<close>). Three input bytes are packed in a 32-bit word and
  cut in four six-bit letters; the decoder packs four letters and emits up to three bytes.
\<close>

section \<open>Model\<close>

definition k_alphabet64 :: string where
  "k_alphabet64 = ''ABCDEFGHIJKLMNOPQRSTUVWXYZabcdefghijklmnopqrstuvwxyz0123456789+/''"

definition ensure_reverse_table64 :: bytes where
  "ensure_reverse_table64 =
     fold (\<lambda>i table. table[of_char (k_alphabet64 ! i) := word_of_nat i]) [0..<64] (replicate 256 0xFF)"

definition g_reverse64 :: "char \<Rightarrow> byte" where
  "g_reverse64 c = ensure_reverse_table64 ! of_char c"

definition idx_base64_encoded_size :: "nat \<Rightarrow> nat" where
  "idx_base64_encoded_size byte_count = ((byte_count + 2) div 3) * 4"

definition idx_base64_decoded_max :: "nat \<Rightarrow> nat" where
  "idx_base64_decoded_max text_len = text_len div 4 * 3"

definition letter :: "u32 \<Rightarrow> char" where
  "letter w = k_alphabet64 ! unat (w AND 0x3F)"

text \<open>The group loop of the encoder and the one or two bytes it leaves over.\<close>

fun encode_groups :: "bytes \<Rightarrow> string" where
  "encode_groups (a # b # c # rest) =
     (let triple = push_bit 16 (ucast a) OR push_bit 8 (ucast b) OR (ucast c :: u32) in
      [letter (drop_bit 18 triple), letter (drop_bit 12 triple), letter (drop_bit 6 triple), letter triple]
      @ encode_groups rest)"
| "encode_groups [a] =
     (let triple = push_bit 16 (ucast a :: u32) in
      [letter (drop_bit 18 triple), letter (drop_bit 12 triple), CHR ''='', CHR ''=''])"
| "encode_groups [a, b] =
     (let triple = push_bit 16 (ucast a) OR push_bit 8 (ucast b :: u32) in
      [letter (drop_bit 18 triple), letter (drop_bit 12 triple), letter (drop_bit 6 triple), CHR ''=''])"
| "encode_groups [] = []"

definition idx_base64_encode :: "idx_slice \<Rightarrow> nat \<Rightarrow> string result" where
  "idx_base64_encode input out_size =
     (let needed = idx_base64_encoded_size (length input) in
      if out_size < needed + 1 then Inl IDX_ERR_RANGE else Inr (encode_groups input))"

text \<open>
  The four characters of a group from position \<open>j\<close> on: \<open>last_char\<close> is the group's fourth
  character, which the padding rule of the third inspects.
\<close>

fun decode_quad :: "bool \<Rightarrow> char \<Rightarrow> nat \<Rightarrow> string \<Rightarrow> u32 \<Rightarrow> u32 result" where
  "decode_quad is_last last_char j [] quad = Inr quad"
| "decode_quad is_last last_char j (c # cs) quad =
     (if c = CHR ''='' then
        (if \<not> is_last \<or> j < 2 \<or> (j = 2 \<and> last_char \<noteq> CHR ''='') then Inl IDX_ERR_PARSE
         else decode_quad is_last last_char (j + 1) cs (push_bit 6 quad))
      else let v = g_reverse64 c in
        if v = 0xFF then Inl IDX_ERR_PARSE
        else decode_quad is_last last_char (j + 1) cs (push_bit 6 quad OR ucast v))"

definition emit_bytes :: "nat \<Rightarrow> u32 \<Rightarrow> bytes" where
  "emit_bytes emit quad =
     (if emit > 0 then [ucast (drop_bit 16 quad AND 0xFF)] else []) @
     (if emit > 1 then [ucast (drop_bit 8 quad AND 0xFF)] else []) @
     (if emit > 2 then [ucast (quad AND 0xFF)] else [])"

fun decode_groups :: "nat \<Rightarrow> string \<Rightarrow> bytes result" where
  "decode_groups padding (c0 # c1 # c2 # c3 # rest) =
     (let is_last = (rest = []) in
      idx_try (decode_quad is_last c3 0 [c0, c1, c2, c3] 0) (\<lambda>quad.
      let emit = (if is_last then 3 - padding else 3) in
      idx_try (decode_groups padding rest) (\<lambda>bs. Inr (emit_bytes emit quad @ bs))))"
| "decode_groups padding _ = Inr []"

fun idx_base64_decode :: "string option \<Rightarrow> nat \<Rightarrow> bytes result" where
  "idx_base64_decode None out_size = Inl IDX_ERR_INVALID_ARG"
| "idx_base64_decode (Some text) out_size =
     (if length text mod 4 \<noteq> 0 then Inl IDX_ERR_PARSE
      else if length text = 0 then Inr []
      else
        let padding = (if text ! (length text - 1) = CHR ''=''
                       then (if text ! (length text - 2) = CHR ''='' then 2 else 1) else 0);
            needed = length text div 4 * 3 - padding
        in if out_size < needed then Inl IDX_ERR_RANGE else decode_groups padding text)"

section \<open>Letters\<close>

lemma alphabet64_distinct: "distinct k_alphabet64" "length k_alphabet64 = 64" "CHR ''='' \<notin> set k_alphabet64"
  by (simp_all add: k_alphabet64_def)

lemma g_reverse64_alphabet: "i < 64 \<Longrightarrow> g_reverse64 (k_alphabet64 ! i) = word_of_nat i"
  using reverse_table_nth [of k_alphabet64 64]
  by (simp add: alphabet64_distinct g_reverse64_def ensure_reverse_table64_def reverse_table_def)

lemma and_mask6: "(w :: u32) AND 0x3F = take_bit 6 w"
proof -
  have "(0x3F :: u32) = mask 6" by (simp add: mask_eq_exp_minus_1)
  then show ?thesis by (simp only: take_bit_eq_mask)
qed

lemma and_mask8: "(w :: u32) AND 0xFF = take_bit 8 w"
proof -
  have "(0xFF :: u32) = mask 8" by (simp add: mask_eq_exp_minus_1)
  then show ?thesis by (simp only: take_bit_eq_mask)
qed

lemma unat_take_bit6: "unat (take_bit 6 (w :: u32)) < 64"
proof -
  have "unat (take_bit 6 w) = take_bit 6 (unat w)" by (rule unsigned_take_bit_eq)
  then show ?thesis using take_bit_nat_less_exp [of 6 "unat w"] by simp
qed

lemma letter_not_pad: "letter w \<noteq> CHR ''=''"
  using alphabet64_distinct(2,3) unat_take_bit6 [of w] by (metis letter_def and_mask6 nth_mem)

lemma reverse_letter: "ucast (g_reverse64 (letter w)) = take_bit 6 w" "g_reverse64 (letter w) \<noteq> 0xFF"
proof -
  have r: "g_reverse64 (letter w) = word_of_nat (unat (take_bit 6 w))"
    using unat_take_bit6 [of w] by (simp only: letter_def and_mask6 g_reverse64_alphabet)
  have "unat (g_reverse64 (letter w)) = unat (take_bit 6 w)"
    using unat_take_bit6 [of w] by (simp only: r unat_of_nat) simp
  moreover have "unat (ucast v :: u32) = unat v" for v :: byte
    using unat_byte [of v] by (simp add: unsigned_ucast_eq take_bit_eq_mod)
  ultimately show "ucast (g_reverse64 (letter w)) = take_bit 6 w" by (simp add: word_unat_eq_iff)
  show "g_reverse64 (letter w) \<noteq> 0xFF"
    using unat_take_bit6 [of w] \<open>unat (g_reverse64 (letter w)) = unat (take_bit 6 w)\<close> by auto
qed

text \<open>Four letters of a word put together again are its low 24 bits.\<close>

lemma regroup:
  "push_bit 6 (push_bit 6 (push_bit 6 (take_bit 6 (drop_bit 18 t)) OR take_bit 6 (drop_bit 12 t))
     OR take_bit 6 (drop_bit 6 t)) OR take_bit 6 t = take_bit 24 (t :: u32)"
proof (rule bit_word_eqI)
  fix n
  assume n: "n < LENGTH(32)"
  consider "n < 6" | "6 \<le> n" "n < 12" | "12 \<le> n" "n < 18" | "18 \<le> n" "n < 24" | "24 \<le> n" by linarith
  then show "bit (push_bit 6 (push_bit 6 (push_bit 6 (take_bit 6 (drop_bit 18 t)) OR take_bit 6 (drop_bit 12 t))
     OR take_bit 6 (drop_bit 6 t)) OR take_bit 6 t) n = bit (take_bit 24 t) n"
    using n by cases (auto simp: bit_simps)
qed

section \<open>Round trip\<close>

lemma quad_letters:
  "decode_quad is_last c3 0 [letter (drop_bit 18 t), letter (drop_bit 12 t), letter (drop_bit 6 t), letter t] 0
     = Inr (take_bit 24 t)"
  using regroup [of t] by (simp add: letter_not_pad reverse_letter Let_def)

lemma quad_one_pad:
  "decode_quad True CHR ''='' 0 [letter (drop_bit 18 t), letter (drop_bit 12 t), letter (drop_bit 6 t), CHR ''=''] 0
     = Inr (take_bit 24 t AND NOT (mask 6))"
proof -
  have "push_bit 6 (push_bit 6 (push_bit 6 (take_bit 6 (drop_bit 18 t)) OR take_bit 6 (drop_bit 12 t))
     OR take_bit 6 (drop_bit 6 t)) = take_bit 24 t AND NOT (mask 6)"
    unfolding regroup [symmetric] by (rule bit_word_eqI) (auto simp: bit_simps)
  then show ?thesis by (simp add: letter_not_pad reverse_letter Let_def)
qed

lemma quad_two_pads:
  "decode_quad True CHR ''='' 0 [letter (drop_bit 18 t), letter (drop_bit 12 t), CHR ''='', CHR ''=''] 0
     = Inr (take_bit 24 t AND NOT (mask 12))"
proof -
  have "push_bit 6 (push_bit 6 (push_bit 6 (take_bit 6 (drop_bit 18 t)) OR take_bit 6 (drop_bit 12 t)))
      = take_bit 24 t AND NOT (mask 12)"
    unfolding regroup [symmetric] by (rule bit_word_eqI) (auto simp: bit_simps)
  then show ?thesis by (simp add: letter_not_pad reverse_letter Let_def)
qed

definition pads :: "bytes \<Rightarrow> nat" where
  "pads bs = (if length bs mod 3 = 0 then 0 else 3 - length bs mod 3)"

lemma encode_groups_empty: "encode_groups bs = [] \<longleftrightarrow> bs = []"
  by (cases bs rule: encode_groups.cases) (simp_all add: Let_def)

lemma emit_triple:
  fixes a b c :: byte
  defines "t \<equiv> push_bit 16 (ucast a) OR push_bit 8 (ucast b) OR (ucast c :: u32)"
  shows "emit_bytes 3 (take_bit 24 t) = [a, b, c]"
    "emit_bytes 2 (take_bit 24 t AND NOT (mask 6)) = [a, b]"
    "emit_bytes 1 (take_bit 24 t AND NOT (mask 12)) = [a]"
proof -
  have a: "m \<le> 16 \<Longrightarrow> ucast (take_bit 8 (drop_bit 16 (take_bit 24 t AND NOT (mask m)))) = a"
    and b: "m \<le> 8 \<Longrightarrow> ucast (take_bit 8 (drop_bit 8 (take_bit 24 t AND NOT (mask m)))) = b"
    and c: "ucast (take_bit 8 (take_bit 24 t)) = c" for m
    unfolding t_def by ((rule bit_word_eqI; auto simp: bit_simps dest: bit_imp_le_length)+)
  have t: "take_bit 24 t AND NOT (mask 0) = take_bit 24 t" by simp
  show "emit_bytes 3 (take_bit 24 t) = [a, b, c]"
    using a [of 0] b [of 0] c by (simp only: emit_bytes_def and_mask8 t) simp
  show "emit_bytes 2 (take_bit 24 t AND NOT (mask 6)) = [a, b]"
    using a [of 6] b [of 6] by (simp only: emit_bytes_def and_mask8) simp
  show "emit_bytes 1 (take_bit 24 t AND NOT (mask 12)) = [a]"
    using a [of 12] by (simp only: emit_bytes_def and_mask8) simp
qed

lemma decode_group:
  "decode_groups p (letter (drop_bit 18 t) # letter (drop_bit 12 t) # letter (drop_bit 6 t) # letter t # rest) =
     idx_try (decode_groups p rest) (\<lambda>bs. Inr (emit_bytes (if rest = [] then 3 - p else 3) (take_bit 24 t) @ bs))"
  by (simp only: decode_groups.simps Let_def quad_letters idx_try_simps)

lemma decode_group_two:
  "decode_groups 1 [letter (drop_bit 18 t), letter (drop_bit 12 t), letter (drop_bit 6 t), CHR ''=''] =
     Inr (emit_bytes 2 (take_bit 24 t AND NOT (mask 6)))"
  by (simp del: decode_quad.simps add: Let_def quad_one_pad)

lemma decode_group_one:
  "decode_groups 2 [letter (drop_bit 18 t), letter (drop_bit 12 t), CHR ''='', CHR ''=''] =
     Inr (emit_bytes 1 (take_bit 24 t AND NOT (mask 12)))"
  by (simp del: decode_quad.simps add: Let_def quad_two_pads)

lemma pads_group: "pads (a # b # c # rest) = pads rest" "pads [a] = 2" "pads [a, b] = 1" "pads [] = 0"
  by (simp_all add: pads_def mod_Suc)

lemma decode_encode_groups: "decode_groups (pads bs) (encode_groups bs) = Inr bs"
proof (induction bs rule: encode_groups.induct)
  case (1 a b c rest)
  define t where "t = push_bit 16 (ucast a) OR push_bit 8 (ucast b) OR (ucast c :: u32)"
  have "emit_bytes 3 (take_bit 24 t) = [a, b, c]" unfolding t_def by (rule emit_triple)
  then show ?case
    unfolding encode_groups.simps Let_def append.simps decode_group pads_group
    unfolding t_def [symmetric] using 1 by (cases "rest = []") (simp_all add: encode_groups_empty pads_group)
next
  case (2 a)
  show ?case using emit_triple(3) [of a 0 0]
    unfolding encode_groups.simps Let_def pads_group decode_group_one by simp
next
  case (3 a b)
  show ?case using emit_triple(2) [of a b 0]
    unfolding encode_groups.simps Let_def pads_group decode_group_two by simp
qed simp

lemma length_encode_groups: "length (encode_groups bs) = idx_base64_encoded_size (length bs)"
proof (induction bs rule: encode_groups.induct)
  case (1 a b c rest)
  have "(length rest + 3 + 2) div 3 = (length rest + 2) div 3 + 1" by simp
  then show ?case using 1 by (simp add: Let_def idx_base64_encoded_size_def)
qed (simp_all add: Let_def idx_base64_encoded_size_def)

lemma last_encode_groups:
  "bs \<noteq> [] \<Longrightarrow>
   (encode_groups bs ! (length (encode_groups bs) - 1) = CHR ''='' \<longleftrightarrow> 0 < pads bs) \<and>
   (encode_groups bs ! (length (encode_groups bs) - 2) = CHR ''='' \<longleftrightarrow> 1 < pads bs)"
proof (induction bs rule: encode_groups.induct)
  case (1 a b c rest)
  show ?case
  proof (cases "rest = []")
    case True
    then show ?thesis by (simp add: Let_def pads_def letter_not_pad)
  next
    case False
    then have "2 \<le> length (encode_groups rest)"
      by (cases rest rule: encode_groups.cases) (simp_all add: Let_def)
    then obtain k where "length (encode_groups rest) = Suc (Suc k)"
      by (metis Suc_le_D numeral_2_eq_2 Suc_le_mono)
    then show ?thesis using 1 False by (simp add: Let_def pads_def mod_Suc)
  qed
qed (simp_all add: Let_def pads_def letter_not_pad)

section \<open>Properties\<close>

text \<open>
  Base64 round trip. Encoding succeeds exactly when the array has room for the
  advertised size and the terminator, the text has that size, and decoding it into an array
  of the original length gives the bytes back.
\<close>

theorem base64_roundtrip:
  assumes "idx_base64_encoded_size (length bs) < out_size" and "length bs \<le> in_size"
  shows "\<exists>t. idx_base64_encode bs out_size = Inr t \<and> length t = idx_base64_encoded_size (length bs) \<and>
             idx_base64_decode (Some t) in_size = Inr bs"
proof (cases "bs = []")
  case True
  with assms show ?thesis by (simp add: idx_base64_encode_def idx_base64_encoded_size_def)
next
  case False
  let ?t = "encode_groups bs"
  have len: "length ?t = (length bs + 2) div 3 * 4"
    by (simp add: length_encode_groups idx_base64_encoded_size_def)
  have pad: "(if ?t ! (length ?t - 1) = CHR ''='' then (if ?t ! (length ?t - 2) = CHR ''='' then 2 else 1) else 0)
      = pads bs"
    using last_encode_groups [OF False] mod_less_divisor [of 3 "length bs"] by (auto simp: pads_def)
  have "length ?t div 4 * 3 - pads bs \<le> length bs"
    by (cases "length bs mod 3 = 0") (simp_all add: len pads_def, presburger+)
  moreover have "?t \<noteq> []" using False by (simp add: encode_groups_empty)
  moreover have "length ?t \<noteq> 0" using False by (simp add: encode_groups_empty)
  ultimately have "idx_base64_decode (Some ?t) in_size = Inr bs"
    using assms(2) decode_encode_groups [of bs] pad
    by (simp only: idx_base64_decode.simps Let_def if_False) (simp add: len)
  then show ?thesis using assms(1) by (simp add: idx_base64_encode_def length_encode_groups Let_def)
qed

theorem base64_roundtrip_witness:
  "\<exists>t. idx_base64_encode [1, 2, 3, 4] 9 = Inr t \<and> length t = 8 \<and> idx_base64_decode (Some t) 4 = Inr [1, 2, 3, 4]"
  using base64_roundtrip [of "[1, 2, 3, 4]" 9 4] by (simp add: idx_base64_encoded_size_def)

end
