(* ===== verification/HashMap.thy ===== *)
theory HashMap
  imports Bytes
begin

text \<open>
  The open-addressing table keyed by byte strings (\<^verbatim>\<open>src/map.c\<close>, \<^verbatim>\<open>include/map.h\<close>):
  FNV-1a hashing, linear probing over a power-of-two table, tombstones, rebuilding at three
  quarters load, and keys of up to 32 bytes stored inline. A value is an opaque pointer,
  \<open>None\<close> when it is \<^verbatim>\<open>NULL\<close>; entries are named by their index. Each operation returns the
  status with the table it leaves, on failure too. Sizes are naturals, reduced modulo
  \<open>2 ^ 64\<close> where the source's arithmetic can wrap.
\<close>

unbundle bit_operations_syntax

section \<open>State\<close>

datatype slot_state = SLOT_EMPTY | SLOT_OCCUPIED | SLOT_TOMBSTONE

record 'v idx_map_entry =
  state :: slot_state
  hash :: u64
  key_len :: nat
  inline_key :: bytes
  heap_key :: "bytes option"
  "value" :: "'v option"

record 'v idx_map =
  entries :: "'v idx_map_entry list"
  capacity :: nat
  count :: nat
  tombstones :: nat

definition IDX_MAP_INLINE_KEY :: nat where "IDX_MAP_INLINE_KEY = 32"
definition IDX_MAP_MIN_CAPACITY :: nat where "IDX_MAP_MIN_CAPACITY = 16"
definition IDX_MAP_LOAD_NUMERATOR :: nat where "IDX_MAP_LOAD_NUMERATOR = 3"
definition IDX_MAP_LOAD_DENOMINATOR :: nat where "IDX_MAP_LOAD_DENOMINATOR = 4"

text \<open>What \<^verbatim>\<open>calloc\<close> fills a table with: all bytes zero.\<close>

definition zero_entry :: "'v idx_map_entry" where
  "zero_entry = \<lparr>state = SLOT_EMPTY, hash = 0, key_len = 0, inline_key = replicate IDX_MAP_INLINE_KEY 0,
                heap_key = None, value = None\<rparr>"

text \<open>\<^verbatim>\<open>calloc\<close> refuses a size that overflows; an entry takes 72 bytes. \<open>alloc\<close> is the rest of its choice.\<close>

definition sizeof_entry :: nat where "sizeof_entry = 72"

definition calloc_grants :: "(nat \<Rightarrow> bool) \<Rightarrow> nat \<Rightarrow> bool" where
  "calloc_grants alloc n \<longleftrightarrow> n * sizeof_entry \<le> SIZE_MAX \<and> alloc n"

section \<open>Operations\<close>

definition hash_bytes :: "idx_slice \<Rightarrow> u64" where
  "hash_bytes key = fold (\<lambda>b h. (h XOR ucast b) * 1099511628211) key 1469598103934665603"

definition entry_key :: "'v idx_map_entry \<Rightarrow> bytes" where
  "entry_key e = (if key_len e > IDX_MAP_INLINE_KEY then (case heap_key e of None \<Rightarrow> [] | Some k \<Rightarrow> k)
                  else inline_key e)"

definition entry_matches :: "'v idx_map_entry \<Rightarrow> idx_slice \<Rightarrow> u64 \<Rightarrow> bool" where
  "entry_matches e key h =
     (if state e \<noteq> SLOT_OCCUPIED \<or> hash e \<noteq> h \<or> key_len e \<noteq> length key then False
      else if length key = 0 then True
      else take (length key) (entry_key e) = key)"

definition entry_release_key :: "'v idx_map_entry \<Rightarrow> 'v idx_map_entry" where
  "entry_release_key e = e\<lparr>heap_key := None\<rparr>"

text \<open>The entry after the call, with the status; \<open>malloc_ok\<close> matters only for a long key.\<close>

definition entry_store_key :: "bool \<Rightarrow> 'v idx_map_entry \<Rightarrow> idx_slice \<Rightarrow> idx_status \<times> 'v idx_map_entry" where
  "entry_store_key malloc_ok e key =
     (let e = e\<lparr>key_len := length key, heap_key := None\<rparr> in
      if length key > IDX_MAP_INLINE_KEY then
        (if \<not> malloc_ok then (IDX_ERR_NO_MEMORY, e) else (IDX_OK, e\<lparr>heap_key := Some key\<rparr>))
      else (IDX_OK, e\<lparr>inline_key := key @ drop (length key) (inline_key e)\<rparr>))"

definition idx_map_init :: "'v idx_map option \<Rightarrow> 'v idx_map option" where
  "idx_map_init = map_option (\<lambda>_. \<lparr>entries = [], capacity = 0, count = 0, tombstones = 0\<rparr>)"

text \<open>The probe loop of \<^verbatim>\<open>find_slot\<close>, with \<open>n\<close> probes left.\<close>

fun probe_loop ::
    "'v idx_map_entry list \<Rightarrow> nat \<Rightarrow> idx_slice \<Rightarrow> u64 \<Rightarrow> bool \<Rightarrow> nat \<Rightarrow> nat \<Rightarrow> nat option \<Rightarrow> nat option" where
  "probe_loop es m key h for_insert 0 index first_tombstone =
     (if for_insert then first_tombstone else None)"
| "probe_loop es m key h for_insert (Suc n) index first_tombstone =
     (let e = es ! index in
      if state e = SLOT_EMPTY then
        (if for_insert then Some (case first_tombstone of Some t \<Rightarrow> t | None \<Rightarrow> index) else None)
      else if state e = SLOT_TOMBSTONE then
        probe_loop es m key h for_insert n ((index + 1) AND m)
          (case first_tombstone of None \<Rightarrow> Some index | Some t \<Rightarrow> Some t)
      else if entry_matches e key h then Some index
      else probe_loop es m key h for_insert n ((index + 1) AND m) first_tombstone)"

definition find_slot :: "'v idx_map \<Rightarrow> idx_slice \<Rightarrow> u64 \<Rightarrow> bool \<Rightarrow> nat option" where
  "find_slot mp key h for_insert =
     (if capacity mp = 0 then None
      else let m = capacity mp - 1 in
        probe_loop (entries mp) m key h for_insert (capacity mp) (unat h AND m) None)"

text \<open>
  Moving the occupied entries over. The source stores through the slot it finds without a
  test; the model reports INTERNAL if there were none, which \<open>rehash_total\<close> rules out.
\<close>

fun move_entries :: "'v idx_map_entry list \<Rightarrow> 'v idx_map \<Rightarrow> 'v idx_map result" where
  "move_entries [] rebuilt = Inr rebuilt"
| "move_entries (old # rest) rebuilt =
     (if state old \<noteq> SLOT_OCCUPIED then move_entries rest rebuilt
      else case find_slot rebuilt (idx_slice_make (Some (entry_key old)) (key_len old)) (hash old) True of
          None \<Rightarrow> Inl IDX_ERR_INTERNAL
        | Some i \<Rightarrow> move_entries rest
            (rebuilt\<lparr>entries := (entries rebuilt)[i := old], count := count rebuilt + 1\<rparr>))"

definition rehash :: "(nat \<Rightarrow> bool) \<Rightarrow> 'v idx_map \<Rightarrow> nat \<Rightarrow> idx_status \<times> 'v idx_map" where
  "rehash alloc mp new_capacity =
     (if \<not> calloc_grants alloc new_capacity then (IDX_ERR_NO_MEMORY, mp)
      else case move_entries (entries mp)
             \<lparr>entries = replicate new_capacity zero_entry, capacity = new_capacity, count = 0, tombstones = 0\<rparr> of
          Inl st \<Rightarrow> (st, mp)
        | Inr rebuilt \<Rightarrow> (IDX_OK, mp\<lparr>entries := entries rebuilt, capacity := capacity rebuilt,
                                      count := count rebuilt, tombstones := 0\<rparr>))"

definition ensure_room :: "(nat \<Rightarrow> bool) \<Rightarrow> 'v idx_map \<Rightarrow> idx_status \<times> 'v idx_map" where
  "ensure_room alloc mp =
     (if capacity mp = 0 then rehash alloc mp IDX_MAP_MIN_CAPACITY
      else let used = (count mp + tombstones mp) mod 2 ^ 64 in
        if (used * IDX_MAP_LOAD_DENOMINATOR) mod 2 ^ 64 < (capacity mp * IDX_MAP_LOAD_NUMERATOR) mod 2 ^ 64
        then (IDX_OK, mp)
        else if (count mp * IDX_MAP_LOAD_DENOMINATOR) mod 2 ^ 64
                  \<ge> (capacity mp * IDX_MAP_LOAD_NUMERATOR) mod 2 ^ 64
          then (if capacity mp > SIZE_MAX div 2 then (IDX_ERR_RANGE, mp)
                else rehash alloc mp (capacity mp * 2))
          else rehash alloc mp (capacity mp))"

text \<open>\<^verbatim>\<open>idx_map_put\<close>, cut after the call that makes room.\<close>

definition put_in_room :: "bool \<Rightarrow> 'v idx_map \<Rightarrow> idx_slice \<Rightarrow> 'v option \<Rightarrow> idx_status \<times> 'v idx_map" where
  "put_in_room malloc_ok mp key v =
     (let h = hash_bytes key in
      case find_slot mp key h True of
        None \<Rightarrow> (IDX_ERR_INTERNAL, mp)
      | Some i \<Rightarrow>
          (let slot = entries mp ! i in
           if state slot = SLOT_OCCUPIED then
             (IDX_OK, mp\<lparr>entries := (entries mp)[i := slot\<lparr>value := v\<rparr>]\<rparr>)
           else
             let mp = (if state slot = SLOT_TOMBSTONE
                       then mp\<lparr>tombstones := (if tombstones mp = 0 then SIZE_MAX else tombstones mp - 1)\<rparr>
                       else mp);
                 (st, slot) = entry_store_key malloc_ok slot key
             in if st \<noteq> IDX_OK then (st, mp\<lparr>entries := (entries mp)[i := slot]\<rparr>)
                else (IDX_OK, mp\<lparr>
                  entries := (entries mp)[i := slot\<lparr>state := SLOT_OCCUPIED, hash := h, value := v\<rparr>],
                  count := count mp + 1\<rparr>)))"

fun idx_map_put ::
    "(nat \<Rightarrow> bool) \<Rightarrow> bool \<Rightarrow> 'v idx_map option \<Rightarrow> idx_slice \<Rightarrow> 'v option \<Rightarrow> idx_status \<times> 'v idx_map option" where
  "idx_map_put alloc malloc_ok None key v = (IDX_ERR_INVALID_ARG, None)"
| "idx_map_put alloc malloc_ok (Some mp) key v =
     (let (st, mp) = ensure_room alloc mp in
      if st \<noteq> IDX_OK then (st, Some mp)
      else let (st, mp) = put_in_room malloc_ok mp key v in (st, Some mp))"

fun idx_map_get :: "'v idx_map option \<Rightarrow> idx_slice \<Rightarrow> 'v option option" where
  "idx_map_get None key = None"
| "idx_map_get (Some mp) key =
     (case find_slot mp key (hash_bytes key) False of
        None \<Rightarrow> None
      | Some i \<Rightarrow> Some (value (entries mp ! i)))"

definition idx_map_contains :: "'v idx_map option \<Rightarrow> idx_slice \<Rightarrow> bool" where
  "idx_map_contains mp key \<longleftrightarrow> idx_map_get mp key \<noteq> None"

fun idx_map_remove :: "'v idx_map option \<Rightarrow> idx_slice \<Rightarrow> bool \<times> 'v idx_map option" where
  "idx_map_remove None key = (False, None)"
| "idx_map_remove (Some mp) key =
     (case find_slot mp key (hash_bytes key) False of
        None \<Rightarrow> (False, Some mp)
      | Some i \<Rightarrow>
          (True, Some (mp\<lparr>
             entries := (entries mp)[i := (entry_release_key (entries mp ! i))\<lparr>
                            state := SLOT_TOMBSTONE, key_len := 0, value := None\<rparr>],
             count := count mp - 1, tombstones := tombstones mp + 1\<rparr>)))"

definition idx_map_count :: "'v idx_map option \<Rightarrow> nat" where
  "idx_map_count mp = (case mp of None \<Rightarrow> 0 | Some m \<Rightarrow> count m)"

definition idx_map_clear :: "'v idx_map option \<Rightarrow> 'v idx_map option" where
  "idx_map_clear = map_option (\<lambda>m. if entries m = [] then m
     else m\<lparr>entries := replicate (capacity m) zero_entry, count := 0, tombstones := 0\<rparr>)"

definition idx_map_free :: "'v idx_map option \<Rightarrow> 'v idx_map option" where
  "idx_map_free mp = idx_map_init (idx_map_clear mp)"

text \<open>The next occupied entry from \<open>cursor\<close> on: the new cursor, its key and its value.\<close>

function next_loop :: "'v idx_map \<Rightarrow> nat \<Rightarrow> (nat \<times> idx_slice \<times> 'v option) option" where
  "next_loop mp i =
     (if i < capacity mp then
        (if state (entries mp ! i) \<noteq> SLOT_OCCUPIED then next_loop mp (i + 1)
         else Some (i + 1, idx_slice_make (Some (entry_key (entries mp ! i))) (key_len (entries mp ! i)),
                    value (entries mp ! i)))
      else None)"
  by pat_completeness auto
termination by (relation "measure (\<lambda>(mp, i). capacity mp - i)") auto

declare next_loop.simps [simp del]

fun idx_map_next :: "'v idx_map option \<Rightarrow> nat \<Rightarrow> (nat \<times> idx_slice \<times> 'v option) option" where
  "idx_map_next None cursor = None"
| "idx_map_next (Some mp) cursor = next_loop mp cursor"

section \<open>Invariant and abstraction\<close>

abbreviation occupied :: "'v idx_map_entry \<Rightarrow> bool" where
  "occupied e \<equiv> state e = SLOT_OCCUPIED"

definition stored_key :: "'v idx_map_entry \<Rightarrow> bytes" where
  "stored_key e = take (key_len e) (entry_key e)"

definition entry_ok :: "'v idx_map_entry \<Rightarrow> bool" where
  "entry_ok e \<longleftrightarrow> length (inline_key e) = IDX_MAP_INLINE_KEY \<and>
     (occupied e \<longrightarrow> length (stored_key e) = key_len e \<and> hash e = hash_bytes (stored_key e))"

text \<open>The index of the \<open>p\<close>-th probe for a hash.\<close>

definition walk :: "nat \<Rightarrow> u64 \<Rightarrow> nat \<Rightarrow> nat" where
  "walk cap h p = (unat h + p) mod cap"

text \<open>Every occupied entry lies on its probe sequence with no empty slot before it.\<close>

definition reachable :: "'v idx_map_entry list \<Rightarrow> u64 \<Rightarrow> nat \<Rightarrow> bool" where
  "reachable es h i \<longleftrightarrow> (\<exists>p < length es. i = walk (length es) h p \<and>
     (\<forall>q < p. state (es ! walk (length es) h q) \<noteq> SLOT_EMPTY))"

definition table_ok :: "'v idx_map_entry list \<Rightarrow> bool" where
  "table_ok es \<longleftrightarrow> (\<exists>k. length es = 2 ^ k) \<and> (\<forall>i < length es. entry_ok (es ! i)) \<and>
     (\<forall>i < length es. occupied (es ! i) \<longrightarrow> reachable es (hash (es ! i)) i) \<and>
     (\<forall>i < length es. \<forall>j < length es. occupied (es ! i) \<longrightarrow> occupied (es ! j) \<longrightarrow>
        stored_key (es ! i) = stored_key (es ! j) \<longrightarrow> i = j)"

definition tally :: "slot_state \<Rightarrow> 'v idx_map_entry list \<Rightarrow> nat" where
  "tally s es = length (filter (\<lambda>e. state e = s) es)"

text \<open>\<open>map_wf\<close> is what the table keeps whatever fails; \<open>map_ok\<close> adds the tombstone count.\<close>

definition map_wf :: "'v idx_map \<Rightarrow> bool" where
  "map_wf mp \<longleftrightarrow> capacity mp = length (entries mp) \<and> capacity mp * sizeof_entry \<le> SIZE_MAX \<and>
     (capacity mp \<noteq> 0 \<longrightarrow> table_ok (entries mp)) \<and> count mp = tally SLOT_OCCUPIED (entries mp)"

definition map_ok :: "'v idx_map \<Rightarrow> bool" where
  "map_ok mp \<longleftrightarrow> map_wf mp \<and> tombstones mp = tally SLOT_TOMBSTONE (entries mp)"

definition lookup :: "'v idx_map_entry list \<Rightarrow> bytes \<Rightarrow> 'v option option" where
  "lookup es key = map_option value (find (\<lambda>e. occupied e \<and> stored_key e = key) es)"

definition map_abs :: "'v idx_map \<Rightarrow> bytes \<Rightarrow> 'v option option" where
  "map_abs mp = lookup (entries mp)"

subsection \<open>Arithmetic of probing\<close>

lemma and_pow2: "x AND (2 ^ k - 1) = x mod (2 ^ k :: nat)"
proof -
  have "2 ^ k - 1 = (mask k :: nat)" by (rule mask_eq_exp_minus_1 [symmetric])
  then show ?thesis by (simp only: take_bit_eq_mask [symmetric] take_bit_eq_mod)
qed

lemma walk_less: "0 < cap \<Longrightarrow> walk cap h p < cap"
  by (simp add: walk_def)

lemma walk_0: "unat h AND (2 ^ k - 1) = walk (2 ^ k) h 0"
  by (simp only: walk_def and_pow2 add_0_right)

lemma walk_Suc: "(walk (2 ^ k) h p + 1) AND (2 ^ k - 1) = walk (2 ^ k) h (Suc p)"
  by (simp only: walk_def and_pow2) (simp add: mod_simps)

lemma walk_covers:
  assumes "i < cap"
  shows "\<exists>q < cap. walk cap h q = i"
proof (intro exI conjI)
  let ?q = "(i + cap - unat h mod cap) mod cap"
  show "?q < cap" using assms by simp
  have "walk cap h ?q = (unat h mod cap + (i + cap - unat h mod cap)) mod cap"
    by (simp add: walk_def mod_simps)
  also have "unat h mod cap + (i + cap - unat h mod cap) = i + cap"
    using assms mod_less_divisor [of cap "unat h"] by linarith
  finally show "walk cap h ?q = i" using assms by simp
qed

subsection \<open>Entries\<close>

lemma entry_matches_iff:
  assumes "entry_ok e"
  shows "entry_matches e key (hash_bytes key) \<longleftrightarrow> occupied e \<and> stored_key e = key"
proof (cases "occupied e")
  case True
  then have "length (stored_key e) = key_len e" "hash e = hash_bytes (stored_key e)"
    using assms by (simp_all add: entry_ok_def)
  then show ?thesis using True by (cases "key_len e") (auto simp: entry_matches_def stored_key_def)
qed (simp add: entry_matches_def)

lemma zero_entry_simps [simp]: "state zero_entry = SLOT_EMPTY" "entry_ok zero_entry"
  by (simp_all add: zero_entry_def entry_ok_def)

lemma store_key_ok:
  assumes "entry_ok e" and "entry_store_key malloc_ok e key = (IDX_OK, e')"
  shows "entry_ok (e'\<lparr>state := SLOT_OCCUPIED, hash := hash_bytes key, value := v\<rparr>) \<and>
         stored_key (e'\<lparr>state := SLOT_OCCUPIED, hash := hash_bytes key, value := v\<rparr>) = key"
  using assms
  by (auto simp: entry_store_key_def entry_ok_def stored_key_def entry_key_def Let_def split: if_splits)

lemma store_key_fail:
  assumes "entry_store_key malloc_ok e key = (st, e')" and "st \<noteq> IDX_OK"
  shows "st = IDX_ERR_NO_MEMORY" "\<not> malloc_ok" "state e' = state e" "inline_key e' = inline_key e"
  using assms by (auto simp: entry_store_key_def Let_def split: if_splits)

subsection \<open>Lookup\<close>

lemma table_unique:
  "table_ok es \<Longrightarrow> i < length es \<Longrightarrow> j < length es \<Longrightarrow> occupied (es ! i) \<Longrightarrow> occupied (es ! j) \<Longrightarrow>
   stored_key (es ! i) = stored_key (es ! j) \<Longrightarrow> i = j"
  unfolding table_ok_def by blast

lemma lookup_None: "lookup es key = None \<longleftrightarrow> (\<forall>i < length es. \<not> (occupied (es ! i) \<and> stored_key (es ! i) = key))"
  by (auto simp: lookup_def find_None_iff in_set_conv_nth)

lemma lookup_Some:
  assumes "table_ok es"
  shows "lookup es key = Some v \<longleftrightarrow>
    (\<exists>i < length es. occupied (es ! i) \<and> stored_key (es ! i) = key \<and> value (es ! i) = v)"
proof
  assume "lookup es key = Some v"
  then show "\<exists>i < length es. occupied (es ! i) \<and> stored_key (es ! i) = key \<and> value (es ! i) = v"
    by (auto simp: lookup_def find_Some_iff)
next
  assume "\<exists>i < length es. occupied (es ! i) \<and> stored_key (es ! i) = key \<and> value (es ! i) = v"
  then obtain i where i: "i < length es" "occupied (es ! i)" "stored_key (es ! i) = key" "value (es ! i) = v"
    by blast
  then have "\<forall>j < i. \<not> (occupied (es ! j) \<and> stored_key (es ! j) = key)"
    using table_unique [OF assms i(1)] by (metis less_irrefl less_trans)
  with i have "find (\<lambda>e. occupied e \<and> stored_key e = key) es = Some (es ! i)"
    by (auto simp: find_Some_iff)
  with i show "lookup es key = Some v" by (simp add: lookup_def)
qed

lemma lookup_eqI:
  assumes "table_ok es"
    and "\<And>k v. (\<exists>i < length es. occupied (es ! i) \<and> stored_key (es ! i) = k \<and> value (es ! i) = v) \<longleftrightarrow> f k = Some v"
  shows "lookup es = f"
proof
  fix k
  have "\<And>v. lookup es k = Some v \<longleftrightarrow> f k = Some v" using lookup_Some [OF assms(1)] assms(2) by blast
  then show "lookup es k = f k" by (metis not_Some_eq)
qed

subsection \<open>The probe loop\<close>

lemma probe_found:
  assumes ok: "table_ok es" and len: "length es = 2 ^ k" and i: "i < length es" "occupied (es ! i)"
    and key: "stored_key (es ! i) = key" and pi: "i = walk (2 ^ k) (hash_bytes key) pi"
    and before: "\<forall>q < pi. state (es ! walk (2 ^ k) (hash_bytes key) q) \<noteq> SLOT_EMPTY"
  shows "p \<le> pi \<Longrightarrow> pi < p + n \<Longrightarrow>
    probe_loop es (2 ^ k - 1) key (hash_bytes key) fi n (walk (2 ^ k) (hash_bytes key) p) t = Some i"
proof (induction n arbitrary: p t)
  case (Suc n)
  let ?j = "walk (2 ^ k) (hash_bytes key) p"
  have j: "?j < length es" by (simp add: len walk_less)
  then have e: "entry_ok (es ! ?j)" using ok by (simp add: table_ok_def)
  show ?case
  proof (cases "?j = i")
    case True
    then show ?thesis using i key e by (simp add: Let_def entry_matches_iff)
  next
    case False
    then have "p < pi" using Suc.prems(1) pi by (cases "p = pi") auto
    then have "state (es ! ?j) \<noteq> SLOT_EMPTY" using before by blast
    moreover have "\<not> (occupied (es ! ?j) \<and> stored_key (es ! ?j) = key)"
      using False table_unique [OF ok i(1) j i(2)] key by auto
    moreover have "probe_loop es (2 ^ k - 1) key (hash_bytes key) fi n (walk (2 ^ k) (hash_bytes key) (Suc p)) t' = Some i" for t'
      using Suc \<open>p < pi\<close> by (intro Suc.IH) simp_all
    ultimately show ?thesis using e
      by (simp only: probe_loop.simps Let_def entry_matches_iff walk_Suc) simp
  qed
qed simp

lemma probe_absent:
  assumes ok: "table_ok es" and len: "length es = 2 ^ k"
    and absent: "\<forall>i < length es. \<not> (occupied (es ! i) \<and> stored_key (es ! i) = key)"
  defines "w \<equiv> walk (2 ^ k) (hash_bytes key)"
  shows "probe_loop es (2 ^ k - 1) key (hash_bytes key) False n (w p) t0 = None"
    and "probe_loop es (2 ^ k - 1) key (hash_bytes key) True n (w p) (Some t) = Some t"
    and "case probe_loop es (2 ^ k - 1) key (hash_bytes key) True n (w p) None of
        None \<Rightarrow> \<forall>q. p \<le> q \<and> q < p + n \<longrightarrow> occupied (es ! w q)
      | Some j \<Rightarrow> \<exists>r. p \<le> r \<and> r < p + n \<and> j = w r \<and> \<not> occupied (es ! w r) \<and>
          (\<forall>q. p \<le> q \<and> q < r \<longrightarrow> state (es ! w q) \<noteq> SLOT_EMPTY)"
proof -
  have entry: "entry_ok (es ! w p)" "\<not> entry_matches (es ! w p) key (hash_bytes key)" for p
  proof -
    have "w p < length es" by (simp add: w_def len walk_less)
    then show "entry_ok (es ! w p)" using ok by (simp add: table_ok_def)
    then show "\<not> entry_matches (es ! w p) key (hash_bytes key)"
      using absent \<open>w p < length es\<close> by (simp add: entry_matches_iff)
  qed
  have step: "(w p + 1) AND (2 ^ k - 1) = w (Suc p)" for p unfolding w_def by (rule walk_Suc)
  note loop = probe_loop.simps(2) Let_def entry step if_False
  show "probe_loop es (2 ^ k - 1) key (hash_bytes key) False n (w p) t0 = None"
  proof (induction n arbitrary: p t0)
    case (Suc n)
    then show ?case by (simp only: loop) simp
  qed simp
  show tomb: "probe_loop es (2 ^ k - 1) key (hash_bytes key) True n (w p) (Some t) = Some t" for p n t
  proof (induction n arbitrary: p)
    case (Suc n)
    then show ?case by (simp only: loop) simp
  qed simp
  show "case probe_loop es (2 ^ k - 1) key (hash_bytes key) True n (w p) None of
        None \<Rightarrow> \<forall>q. p \<le> q \<and> q < p + n \<longrightarrow> occupied (es ! w q)
      | Some j \<Rightarrow> \<exists>r. p \<le> r \<and> r < p + n \<and> j = w r \<and> \<not> occupied (es ! w r) \<and>
          (\<forall>q. p \<le> q \<and> q < r \<longrightarrow> state (es ! w q) \<noteq> SLOT_EMPTY)"
  proof (induction n arbitrary: p)
    case (Suc n)
    consider "\<not> occupied (es ! w p)" | "occupied (es ! w p)" by blast
    then show ?case
    proof cases
      case 1
      then have "probe_loop es (2 ^ k - 1) key (hash_bytes key) True (Suc n) (w p) None = Some (w p)"
        by (cases "state (es ! w p)") (simp_all only: loop tomb slot_state.distinct if_True option.case simp_thms)
      then show ?thesis using 1 by (simp only: option.case) (intro exI [of _ p], auto)
    next
      case 2
      then have eq: "probe_loop es (2 ^ k - 1) key (hash_bytes key) True (Suc n) (w p) None =
          probe_loop es (2 ^ k - 1) key (hash_bytes key) True n (w (Suc p)) None"
        by (simp only: loop slot_state.distinct)
      have here: "p \<le> q \<Longrightarrow> q = p \<or> Suc p \<le> q" for q by auto
      show ?thesis
      proof (cases "probe_loop es (2 ^ k - 1) key (hash_bytes key) True n (w (Suc p)) None")
        case None
        then show ?thesis using Suc.IH [of "Suc p"] here 2 unfolding eq by auto
      next
        case (Some j)
        then obtain r where r: "Suc p \<le> r" "r < Suc p + n" "j = w r" "\<not> occupied (es ! w r)"
          "\<forall>q. Suc p \<le> q \<and> q < r \<longrightarrow> state (es ! w q) \<noteq> SLOT_EMPTY"
          using Suc.IH [of "Suc p"] by auto
        then have "\<forall>q. p \<le> q \<and> q < r \<longrightarrow> state (es ! w q) \<noteq> SLOT_EMPTY" using here 2 by force
        then show ?thesis unfolding eq Some using r by (simp, intro exI [of _ r]) simp
      qed
    qed
  qed auto
qed

subsection \<open>Finding a slot\<close>

lemma find_slot_present:
  assumes "table_ok (entries mp)" "capacity mp = length (entries mp)"
    and "i < length (entries mp)" "occupied (entries mp ! i)" "stored_key (entries mp ! i) = key"
  shows "find_slot mp key (hash_bytes key) fi = Some i"
proof -
  obtain k where k: "length (entries mp) = 2 ^ k" using assms(1) by (auto simp: table_ok_def)
  have "reachable (entries mp) (hash (entries mp ! i)) i" "entry_ok (entries mp ! i)"
    using assms by (simp_all add: table_ok_def)
  then obtain p where "p < 2 ^ k" "i = walk (2 ^ k) (hash_bytes key) p"
    "\<forall>q < p. state (entries mp ! walk (2 ^ k) (hash_bytes key) q) \<noteq> SLOT_EMPTY"
    using assms(4,5) by (auto simp: reachable_def k entry_ok_def)
  then have "probe_loop (entries mp) (2 ^ k - 1) key (hash_bytes key) fi (2 ^ k)
      (walk (2 ^ k) (hash_bytes key) 0) None = Some i"
    using assms by (intro probe_found [OF _ k]) simp_all
  moreover have "capacity mp = 2 ^ k" using assms(2) k by simp
  ultimately show ?thesis by (simp only: find_slot_def Let_def walk_0) simp
qed

lemma find_slot_absent:
  assumes "table_ok (entries mp)" "capacity mp = length (entries mp)"
    and "lookup (entries mp) key = None"
  shows "find_slot mp key (hash_bytes key) False = None"
    and "find_slot mp key (hash_bytes key) True = Some j \<Longrightarrow>
      j < length (entries mp) \<and> \<not> occupied (entries mp ! j) \<and> reachable (entries mp) (hash_bytes key) j"
    and "\<exists>i < length (entries mp). \<not> occupied (entries mp ! i) \<Longrightarrow>
      find_slot mp key (hash_bytes key) True \<noteq> None"
proof -
  obtain k where k: "length (entries mp) = 2 ^ k" using assms(1) by (auto simp: table_ok_def)
  then have cap: "capacity mp = 2 ^ k" using assms(2) by simp
  have eq: "find_slot mp key (hash_bytes key) fi = probe_loop (entries mp) (2 ^ k - 1) key (hash_bytes key) fi
      (2 ^ k) (walk (2 ^ k) (hash_bytes key) 0) None" for fi
    by (simp only: find_slot_def Let_def cap walk_0) simp
  have absent: "\<forall>i < length (entries mp). \<not> (occupied (entries mp ! i) \<and> stored_key (entries mp ! i) = key)"
    using assms(3) by (simp add: lookup_None)
  note probe = probe_absent [OF assms(1) k absent, where n = "2 ^ k" and p = 0]
  show "find_slot mp key (hash_bytes key) False = None" unfolding eq by (rule probe)
  show "find_slot mp key (hash_bytes key) True = Some j \<Longrightarrow>
      j < length (entries mp) \<and> \<not> occupied (entries mp ! j) \<and> reachable (entries mp) (hash_bytes key) j"
    using probe(3) unfolding eq by (auto simp: reachable_def k walk_less)
  assume "\<exists>i < length (entries mp). \<not> occupied (entries mp ! i)"
  then obtain q where "q < 2 ^ k" "\<not> occupied (entries mp ! walk (2 ^ k) (hash_bytes key) q)"
    using walk_covers k by metis
  then show "find_slot mp key (hash_bytes key) True \<noteq> None"
    using probe(3) unfolding eq by (auto split: option.splits)
qed

subsection \<open>Changing one entry\<close>

lemma tally_update:
  "i < length es \<Longrightarrow> tally s (es[i := e]) + (if state (es ! i) = s then 1 else 0) =
     tally s es + (if state e = s then 1 else 0)"
proof -
  assume i: "i < length es"
  have "tally s es = tally s (take i es @ es ! i # drop (Suc i) es)" using id_take_nth_drop [OF i] by simp
  then show ?thesis using i by (simp add: tally_def upd_conv_take_nth_drop)
qed

lemma tally_occupied_less: "tally SLOT_OCCUPIED es < length es \<Longrightarrow> \<exists>i < length es. \<not> occupied (es ! i)"
proof (rule ccontr)
  assume less: "tally SLOT_OCCUPIED es < length es" and "\<not> (\<exists>i < length es. \<not> occupied (es ! i))"
  then have "\<forall>e \<in> set es. occupied e" by (auto simp: in_set_conv_nth)
  then show False using less by (simp add: tally_def)
qed

text \<open>Filling a free slot at the end of its probe path with a fresh key.\<close>

lemma fill_slot:
  assumes ok: "table_ok es" and j: "j < length es" "\<not> occupied (es ! j)" "reachable es (hash e) j"
    and e: "entry_ok e" "occupied e" and fresh: "lookup es (stored_key e) = None"
  shows "table_ok (es[j := e])" "lookup (es[j := e]) = (lookup es)(stored_key e \<mapsto> value e)"
proof -
  have keep: "reachable (es[j := e]) h i" if "reachable es h i" for h i
  proof -
    from that obtain p where "p < length es" "i = walk (length es) h p"
      "\<forall>q < p. state (es ! walk (length es) h q) \<noteq> SLOT_EMPTY" unfolding reachable_def by blast
    then show ?thesis using e(2) unfolding reachable_def
      by (intro exI [of _ p]) (simp add: nth_list_update j(1))
  qed
  have absent: "\<not> (occupied (es ! i) \<and> stored_key (es ! i) = stored_key e)" if "i < length es" for i
    using fresh that by (simp add: lookup_None)
  show ok': "table_ok (es[j := e])"
    unfolding table_ok_def
  proof (intro conjI allI impI)
    show "\<exists>k. length (es[j := e]) = 2 ^ k" using ok by (simp add: table_ok_def)
    show "entry_ok (es[j := e] ! i)" if "i < length (es[j := e])" for i
      using that ok e by (cases "i = j") (simp_all add: table_ok_def)
    show "reachable (es[j := e]) (hash (es[j := e] ! i)) i"
      if "i < length (es[j := e])" "occupied (es[j := e] ! i)" for i
      using that ok j keep by (cases "i = j") (simp_all add: table_ok_def)
    show "i = i'" if "i < length (es[j := e])" "i' < length (es[j := e])" "occupied (es[j := e] ! i)"
      "occupied (es[j := e] ! i')" "stored_key (es[j := e] ! i) = stored_key (es[j := e] ! i')" for i i'
      using that absent table_unique [OF ok, of i i'] by (cases "i = j"; cases "i' = j") auto
  qed
  show "lookup (es[j := e]) = (lookup es)(stored_key e \<mapsto> value e)"
  proof (rule lookup_eqI [OF ok'])
    fix k v
    show "(\<exists>i < length (es[j := e]). occupied (es[j := e] ! i) \<and> stored_key (es[j := e] ! i) = k \<and>
        value (es[j := e] ! i) = v) \<longleftrightarrow> ((lookup es)(stored_key e \<mapsto> value e)) k = Some v"
      (is "?L \<longleftrightarrow> ?R")
    proof
      assume ?L
      then obtain i where i: "i < length es" "occupied (es[j := e] ! i)" "stored_key (es[j := e] ! i) = k"
        "value (es[j := e] ! i) = v" by auto
      then show ?R using absent [OF i(1)] lookup_Some [OF ok] by (cases "i = j") auto
    next
      assume r: ?R
      show ?L
      proof (cases "k = stored_key e")
        case True
        then show ?thesis using r j e by (intro exI [of _ j]) simp
      next
        case False
        then obtain i where "i < length es" "occupied (es ! i)" "stored_key (es ! i) = k" "value (es ! i) = v"
          using r lookup_Some [OF ok] by auto
        then show ?thesis using j by (intro exI [of _ i]) (auto simp: nth_list_update)
      qed
    qed
  qed
qed

subsection \<open>Rebuilding\<close>

lemma table_ok_zero: "table_ok (replicate (2 ^ k) zero_entry)"
  by (auto simp: table_ok_def)

lemma find_append: "find P (xs @ ys) = (case find P xs of None \<Rightarrow> find P ys | Some x \<Rightarrow> Some x)"
  by (induction xs) simp_all

lemma lookup_snoc:
  "lookup (es @ [e]) = (if occupied e \<and> lookup es (stored_key e) = None
     then (lookup es)(stored_key e \<mapsto> value e) else if occupied e then lookup (es @ [e]) else lookup es)"
  by (auto simp: lookup_def fun_eq_iff find_append split: option.splits)

lemma tally_snoc: "tally s (es @ [e]) = tally s es + (if state e = s then 1 else 0)"
  by (simp add: tally_def)

lemma tally_append: "tally s (xs @ ys) = tally s xs + tally s ys"
  by (simp add: tally_def)

lemma tally_zero_iff: "tally s es = 0 \<longleftrightarrow> (\<forall>i < length es. state (es ! i) \<noteq> s)"
  by (simp add: tally_def filter_empty_conv all_set_conv_all_nth)

definition rebuilt_ok :: "'v idx_map_entry list \<Rightarrow> 'v idx_map \<Rightarrow> bool" where
  "rebuilt_ok moved R \<longleftrightarrow> table_ok (entries R) \<and> capacity R = length (entries R) \<and>
     count R = tally SLOT_OCCUPIED (entries R) \<and> count R = tally SLOT_OCCUPIED moved \<and>
     tombstones R = 0 \<and> tally SLOT_TOMBSTONE (entries R) = 0 \<and> lookup (entries R) = lookup moved"

lemma move_one:
  assumes R: "rebuilt_ok moved R" and e: "entry_ok e" "occupied e" "lookup moved (stored_key e) = None"
    and room: "tally SLOT_OCCUPIED moved < capacity R"
  shows "\<exists>j. find_slot R (stored_key e) (hash e) True = Some j \<and>
    rebuilt_ok (moved @ [e]) (R\<lparr>entries := (entries R)[j := e], count := count R + 1\<rparr>)"
proof -
  let ?es = "entries R"
  have ok: "table_ok ?es" "capacity R = length ?es" and fresh: "lookup ?es (stored_key e) = None"
    and h: "hash e = hash_bytes (stored_key e)"
    using R e by (simp_all add: rebuilt_ok_def entry_ok_def)
  have "\<exists>i < length ?es. \<not> occupied (?es ! i)"
    using R room by (intro tally_occupied_less) (simp add: rebuilt_ok_def)
  then obtain j where find: "find_slot R (stored_key e) (hash e) True = Some j"
    using find_slot_absent(3) [OF ok fresh] h by auto
  then have j: "j < length ?es" "\<not> occupied (?es ! j)" "reachable ?es (hash e) j"
    using find_slot_absent(2) [OF ok fresh] h by auto
  note fill = fill_slot [OF ok(1) j e(1,2) fresh]
  have "state (?es ! j) = SLOT_EMPTY"
    using R j(1,2) by (cases "state (?es ! j)") (auto simp: rebuilt_ok_def tally_zero_iff)
  then have "tally SLOT_OCCUPIED (?es[j := e]) = tally SLOT_OCCUPIED ?es + 1"
    "tally SLOT_TOMBSTONE (?es[j := e]) = tally SLOT_TOMBSTONE ?es"
    using tally_update [OF j(1), of SLOT_OCCUPIED e] tally_update [OF j(1), of SLOT_TOMBSTONE e] e(2) by simp_all
  then show ?thesis using R e fill find
    by (intro exI [of _ j]) (simp add: rebuilt_ok_def tally_snoc lookup_snoc)
qed

lemma move_entries_ok:
  assumes "table_ok (moved @ rest)" "rebuilt_ok moved R" "tally SLOT_OCCUPIED (moved @ rest) < capacity R"
  shows "\<exists>R'. move_entries rest R = Inr R' \<and> rebuilt_ok (moved @ rest) R' \<and> capacity R' = capacity R"
  using assms
proof (induction rest arbitrary: moved R)
  case Nil
  then show ?case by simp
next
  case (Cons e rest)
  have prems: "table_ok ((moved @ [e]) @ rest)" "tally SLOT_OCCUPIED ((moved @ [e]) @ rest) < capacity R"
    using Cons.prems by simp_all
  show ?case
  proof (cases "occupied e")
    case False
    then have "rebuilt_ok (moved @ [e]) R"
      using Cons.prems(2) by (simp add: rebuilt_ok_def tally_snoc lookup_snoc)
    then show ?thesis using Cons.IH [of "moved @ [e]" R] prems False by simp
  next
    case True
    have at: "(moved @ e # rest) ! length moved = e" by simp
    then have eok: "entry_ok e"
      using Cons.prems(1) unfolding table_ok_def by (metis add_less_cancel_left length_append less_add_same_cancel1 list.size(4) zero_less_Suc add_Suc_right add_0_right)
    have "lookup moved (stored_key e) = None"
      unfolding lookup_None
    proof (intro allI impI notI)
      fix i assume i: "i < length moved" "occupied (moved ! i) \<and> stored_key (moved ! i) = stored_key e"
      then have "i = length moved"
        using True by (intro table_unique [OF Cons.prems(1)]) (simp_all add: nth_append)
      with i show False by simp
    qed
    moreover have "tally SLOT_OCCUPIED moved < capacity R" using Cons.prems(3) by (simp add: tally_append)
    ultimately obtain j where find: "find_slot R (stored_key e) (hash e) True = Some j"
      and R': "rebuilt_ok (moved @ [e]) (R\<lparr>entries := (entries R)[j := e], count := count R + 1\<rparr>)"
      using move_one [OF Cons.prems(2) eok True] by blast
    then show ?thesis
      using Cons.IH [OF prems(1) R'] prems(2) True by (simp add: stored_key_def)
  qed
qed

lemma tally_le: "tally s es \<le> length es"
  by (simp add: tally_def)

lemma tally_two: "tally SLOT_OCCUPIED es + tally SLOT_TOMBSTONE es \<le> length es"
  by (induction es) (auto simp: tally_def)

text \<open>A rebuild into a table with room succeeds, keeps every binding and clears the tombstones.\<close>

lemma rehash_total:
  assumes "capacity mp = 0 \<and> entries mp = [] \<or> table_ok (entries mp)"
    and "tally SLOT_OCCUPIED (entries mp) < 2 ^ k" "calloc_grants alloc (2 ^ k)"
  shows "\<exists>mp'. rehash alloc mp (2 ^ k) = (IDX_OK, mp') \<and> map_ok mp' \<and> capacity mp' = 2 ^ k \<and>
    tombstones mp' = 0 \<and> count mp' = tally SLOT_OCCUPIED (entries mp) \<and> map_abs mp' = map_abs mp"
proof -
  let ?R = "\<lparr>entries = replicate (2 ^ k) zero_entry, capacity = 2 ^ k, count = 0, tombstones = 0\<rparr>"
  have R: "rebuilt_ok [] ?R"
    by (auto simp: rebuilt_ok_def table_ok_zero tally_def lookup_def find_None_iff fun_eq_iff)
  have "\<exists>R'. move_entries (entries mp) ?R = Inr R' \<and> rebuilt_ok (entries mp) R' \<and> capacity R' = 2 ^ k"
  proof (cases "entries mp = []")
    case True
    then show ?thesis using R by simp
  next
    case False
    then have "table_ok ([] @ entries mp)" using assms(1) by simp
    from move_entries_ok [OF this R] show ?thesis using assms(2) by simp
  qed
  then show ?thesis using assms(3)
    by (auto simp: rehash_def rebuilt_ok_def map_ok_def map_wf_def map_abs_def calloc_grants_def)
qed

lemma rehash_refused: "\<not> calloc_grants alloc n \<Longrightarrow> rehash alloc mp n = (IDX_ERR_NO_MEMORY, mp)"
  by (simp add: rehash_def)

text \<open>Making room either leaves the table alone, rebuilds it, or fails without touching it.\<close>

definition room_made :: "(nat \<Rightarrow> bool) \<Rightarrow> 'v idx_map \<Rightarrow> idx_status \<Rightarrow> 'v idx_map \<Rightarrow> bool" where
  "room_made alloc mp st mp' \<longleftrightarrow>
     (st = IDX_OK \<and> mp' = mp \<and> capacity mp \<noteq> 0 \<and>
        (count mp + tombstones mp) mod 2 ^ 64 * 4 mod 2 ^ 64 < capacity mp * 3) \<or>
     (st = IDX_OK \<and> map_ok mp' \<and> map_abs mp' = map_abs mp \<and> count mp' < capacity mp') \<or>
     (st = IDX_ERR_NO_MEMORY \<and> mp' = mp \<and> (\<exists>n \<le> max 16 (2 * capacity mp). \<not> calloc_grants alloc n))"

lemma rehash_made:
  assumes "rehash alloc mp (2 ^ j) = (st, mp')" "2 ^ j \<le> max 16 (2 * capacity mp)"
    and "capacity mp = 0 \<and> entries mp = [] \<or> table_ok (entries mp)"
    and "tally SLOT_OCCUPIED (entries mp) < 2 ^ j"
  shows "room_made alloc mp st mp'"
proof (cases "calloc_grants alloc (2 ^ j)")
  case True
  then show ?thesis using rehash_total [OF assms(3,4) True] assms(1,4) by (auto simp: room_made_def)
next
  case False
  then have "\<exists>n \<le> max 16 (2 * capacity mp). \<not> calloc_grants alloc n" using assms(2) by blast
  then show ?thesis using rehash_refused [OF False, of mp] assms(1) by (simp add: room_made_def)
qed

lemma ensure_room_made:
  assumes "map_wf mp" "ensure_room alloc mp = (st, mp')"
  shows "room_made alloc mp st mp'"
proof (cases "capacity mp = 0")
  case True
  then have es: "entries mp = []" using assms(1) by (simp add: map_wf_def)
  have "rehash alloc mp (2 ^ 4) = (st, mp')"
    using assms(2) True by (simp add: ensure_room_def IDX_MAP_MIN_CAPACITY_def)
  then show ?thesis by (rule rehash_made) (simp_all add: es True tally_def)
next
  case False
  have bound: "capacity mp * 72 \<le> 18446744073709551615"
    using assms(1) by (simp add: map_wf_def sizeof_entry_def SIZE_MAX_def)
  have cnt: "count mp \<le> capacity mp" using assms(1) tally_le by (auto simp: map_wf_def)
  have ok: "table_ok (entries mp)" and cap: "capacity mp = length (entries mp)"
    and tal: "tally SLOT_OCCUPIED (entries mp) = count mp"
    using assms(1) False by (simp_all add: map_wf_def)
  then obtain k where k: "capacity mp = 2 ^ k" by (auto simp: table_ok_def)
  have small: "capacity mp * 3 mod 2 ^ 64 = capacity mp * 3" "count mp * 4 mod 2 ^ 64 = count mp * 4"
    "\<not> capacity mp > SIZE_MAX div 2"
    using bound cnt by (simp_all add: SIZE_MAX_def)
  note room = ensure_room_def IDX_MAP_LOAD_DENOMINATOR_def IDX_MAP_LOAD_NUMERATOR_def Let_def
  consider (asis) "(count mp + tombstones mp) mod 2 ^ 64 * 4 mod 2 ^ 64 < capacity mp * 3"
    | (double) "\<not> (count mp + tombstones mp) mod 2 ^ 64 * 4 mod 2 ^ 64 < capacity mp * 3"
        "count mp * 4 \<ge> capacity mp * 3"
    | (same) "\<not> (count mp + tombstones mp) mod 2 ^ 64 * 4 mod 2 ^ 64 < capacity mp * 3"
        "\<not> count mp * 4 \<ge> capacity mp * 3" by blast
  then show ?thesis
  proof cases
    case asis
    then have "ensure_room alloc mp = (IDX_OK, mp)" using False by (simp only: room small if_True if_False simp_thms)
    then show ?thesis using assms(2) asis False by (simp add: room_made_def)
  next
    case double
    then have "ensure_room alloc mp = rehash alloc mp (2 ^ Suc k)"
      using False by (simp only: room small if_True if_False simp_thms) (simp add: k mult.commute)
    then have "rehash alloc mp (2 ^ Suc k) = (st, mp')" using assms(2) by simp
    then show ?thesis
      by (rule rehash_made) (use ok cnt k False tal in \<open>simp_all add: order_le_less_trans\<close>)
  next
    case same
    then have "ensure_room alloc mp = rehash alloc mp (2 ^ k)"
      using False by (simp only: room small if_True if_False simp_thms) (simp add: k)
    then have "rehash alloc mp (2 ^ k) = (st, mp')" using assms(2) by simp
    then show ?thesis
      by (rule rehash_made) (use ok same(2) k tal in simp_all)
  qed
qed

section \<open>Insertion, removal and iteration\<close>

lemma set_value_ok:
  assumes ok: "table_ok es" and i: "i < length es" "occupied (es ! i)"
  shows "table_ok (es[i := (es ! i)\<lparr>value := v\<rparr>])"
    "lookup (es[i := (es ! i)\<lparr>value := v\<rparr>]) = (lookup es)(stored_key (es ! i) \<mapsto> v)"
proof -
  let ?e = "(es ! i)\<lparr>value := v\<rparr>"
  have same: "state (es[i := ?e] ! j) = state (es ! j)" "hash (es[i := ?e] ! j) = hash (es ! j)"
    "stored_key (es[i := ?e] ! j) = stored_key (es ! j)" "entry_ok (es[i := ?e] ! j) = entry_ok (es ! j)"
    "value (es[i := ?e] ! j) = (if i = j then v else value (es ! j))" if "j < length es" for j
    using that i(1) by (cases "i = j"; simp add: stored_key_def entry_key_def entry_ok_def)+
  have inside: "walk (length es) h q < length es" for h q using i(1) by (intro walk_less) linarith
  show ok': "table_ok (es[i := ?e])"
    using ok unfolding table_ok_def reachable_def by (simp add: same inside)
  show "lookup (es[i := ?e]) = (lookup es)(stored_key (es ! i) \<mapsto> v)"
  proof (rule lookup_eqI [OF ok'])
    fix k w
    show "(\<exists>j < length (es[i := ?e]). occupied (es[i := ?e] ! j) \<and> stored_key (es[i := ?e] ! j) = k \<and>
        value (es[i := ?e] ! j) = w) \<longleftrightarrow> ((lookup es)(stored_key (es ! i) \<mapsto> v)) k = Some w"
    proof (cases "k = stored_key (es ! i)")
      case True
      have "j = i" if "j < length es" "occupied (es ! j)" "stored_key (es ! j) = k" for j
        using table_unique [OF ok that(1) i(1) that(2) i(2)] that(3) True by simp
      then have "(\<exists>j < length (es[i := ?e]). occupied (es[i := ?e] ! j) \<and>
          stored_key (es[i := ?e] ! j) = k \<and> value (es[i := ?e] ! j) = w) \<longleftrightarrow> v = w"
        using same i True by (metis length_list_update)
      then show ?thesis using True by simp
    next
      case False
      then show ?thesis using lookup_Some [OF ok, of k w] same by auto
    qed
  qed
qed

text \<open>Changing an entry that is not occupied before or after is invisible.\<close>

lemma touch_free_slot:
  assumes ok: "table_ok es" and i: "i < length es" "\<not> occupied (es ! i)"
    and e: "state e = state (es ! i)" "entry_ok e"
  shows "table_ok (es[i := e])" "lookup (es[i := e]) = lookup es"
proof -
  have state: "state (es[i := e] ! j) = state (es ! j)" "entry_ok (es[i := e] ! j)"
    "occupied (es ! j) \<Longrightarrow> es[i := e] ! j = es ! j" if "j < length es" for j
    using that i e ok by (cases "i = j"; simp add: table_ok_def)+
  have inside: "walk (length es) h q < length es" for h q using i(1) by (intro walk_less) linarith
  show ok': "table_ok (es[i := e])"
    using ok unfolding table_ok_def reachable_def by (simp add: state inside)
  show "lookup (es[i := e]) = lookup es"
    by (rule lookup_eqI [OF ok']) (use lookup_Some [OF ok] state in auto)
qed

text \<open>Turning an occupied entry into a tombstone removes its key.\<close>

lemma bury_slot:
  assumes ok: "table_ok es" and i: "i < length es" "occupied (es ! i)"
    and e: "state e = SLOT_TOMBSTONE" "entry_ok e"
  shows "table_ok (es[i := e])" "lookup (es[i := e]) = (lookup es)(stored_key (es ! i) := None)"
proof -
  have state: "state (es[i := e] ! j) = SLOT_EMPTY \<longleftrightarrow> state (es ! j) = SLOT_EMPTY" "entry_ok (es[i := e] ! j)"
    "occupied (es[i := e] ! j) \<longleftrightarrow> occupied (es ! j) \<and> j \<noteq> i"
    "j \<noteq> i \<Longrightarrow> es[i := e] ! j = es ! j" if "j < length es" for j
    using that i e ok by (cases "i = j"; simp add: table_ok_def)+
  have inside: "walk (length es) h q < length es" for h q using i(1) by (intro walk_less) linarith
  show ok': "table_ok (es[i := e])"
    using ok unfolding table_ok_def reachable_def by (simp add: state inside)
  show "lookup (es[i := e]) = (lookup es)(stored_key (es ! i) := None)"
  proof (rule lookup_eqI [OF ok'])
    fix k v
    show "(\<exists>j < length (es[i := e]). occupied (es[i := e] ! j) \<and> stored_key (es[i := e] ! j) = k \<and>
        value (es[i := e] ! j) = v) \<longleftrightarrow> ((lookup es)(stored_key (es ! i) := None)) k = Some v"
    proof (cases "k = stored_key (es ! i)")
      case True
      have "j = i" if "j < length es" "occupied (es ! j)" "stored_key (es ! j) = k" for j
        using table_unique [OF ok that(1) i(1) that(2) i(2)] that(3) True by simp
      then show ?thesis using True state by (metis fun_upd_same length_list_update option.distinct(1))
    next
      case False
      then have "(\<exists>j < length (es[i := e]). occupied (es[i := e] ! j) \<and> stored_key (es[i := e] ! j) = k \<and>
          value (es[i := e] ! j) = v) \<longleftrightarrow> (\<exists>j < length es. occupied (es ! j) \<and> stored_key (es ! j) = k \<and>
          value (es ! j) = v)"
        using state by (metis length_list_update)
      then show ?thesis using False lookup_Some [OF ok, of k v] by simp
    qed
  qed
qed

definition put_done :: "bool \<Rightarrow> 'v idx_map \<Rightarrow> idx_slice \<Rightarrow> 'v option \<Rightarrow> idx_status \<Rightarrow> 'v idx_map \<Rightarrow> bool" where
  "put_done malloc_ok mp key v st mp' \<longleftrightarrow> map_wf mp' \<and>
     (st = IDX_OK \<and> map_abs mp' = (map_abs mp)(key \<mapsto> v) \<and> (map_ok mp \<longrightarrow> map_ok mp') \<or>
      st = IDX_ERR_INTERNAL \<and> mp' = mp \<and> count mp = capacity mp \<or>
      st = IDX_ERR_NO_MEMORY \<and> map_abs mp' = map_abs mp \<and> \<not> malloc_ok \<and> length key > IDX_MAP_INLINE_KEY)"

lemma put_existing:
  assumes "map_wf mp" "capacity mp \<noteq> 0" "i < length (entries mp)" "occupied (entries mp ! i)"
    and "stored_key (entries mp ! i) = key"
  shows "put_done malloc_ok mp key v IDX_OK (mp\<lparr>entries := (entries mp)[i := (entries mp ! i)\<lparr>value := v\<rparr>]\<rparr>)"
proof -
  have ok: "table_ok (entries mp)" using assms by (simp add: map_wf_def)
  have "tally s ((entries mp)[i := (entries mp ! i)\<lparr>value := v\<rparr>]) = tally s (entries mp)" for s
    using tally_update [OF assms(3), of s "(entries mp ! i)\<lparr>value := v\<rparr>"] by simp
  then show ?thesis using set_value_ok [OF ok assms(3,4), of v] assms
    by (auto simp: put_done_def map_wf_def map_ok_def map_abs_def)
qed

lemma put_fresh:
  assumes wf: "map_wf mp" "capacity mp \<noteq> 0" and i: "i < length (entries mp)" "\<not> occupied (entries mp ! i)"
    and reach: "reachable (entries mp) (hash_bytes key) i" and fresh: "lookup (entries mp) key = None"
    and store: "entry_store_key malloc_ok (entries mp ! i) key = (st, e)"
  defines "mp1 \<equiv> (if state (entries mp ! i) = SLOT_TOMBSTONE
     then mp\<lparr>tombstones := (if tombstones mp = 0 then SIZE_MAX else tombstones mp - 1)\<rparr> else mp)"
  shows "put_done malloc_ok mp key v st
    (if st \<noteq> IDX_OK then mp1\<lparr>entries := (entries mp)[i := e]\<rparr>
     else mp1\<lparr>entries := (entries mp)[i := e\<lparr>state := SLOT_OCCUPIED, hash := hash_bytes key, value := v\<rparr>],
              count := count mp + 1\<rparr>)"
proof -
  have ok: "table_ok (entries mp)" using wf by (simp add: map_wf_def)
  then have eok: "entry_ok (entries mp ! i)" using i(1) by (simp add: table_ok_def)
  show ?thesis
  proof (cases "st = IDX_OK")
    case True
    let ?e = "e\<lparr>state := SLOT_OCCUPIED, hash := hash_bytes key, value := v\<rparr>"
    have e: "entry_ok ?e" "stored_key ?e = key"
      using store_key_ok [OF eok, of malloc_ok key e v] store True by simp_all
    have "table_ok ((entries mp)[i := ?e])" "lookup ((entries mp)[i := ?e]) = (lookup (entries mp))(key \<mapsto> v)"
      using fill_slot [OF ok i, of ?e] reach e fresh by simp_all
    moreover have "tally SLOT_OCCUPIED ((entries mp)[i := ?e]) = tally SLOT_OCCUPIED (entries mp) + 1"
      "tally SLOT_TOMBSTONE ((entries mp)[i := ?e]) + (if state (entries mp ! i) = SLOT_TOMBSTONE then 1 else 0)
         = tally SLOT_TOMBSTONE (entries mp)"
      using tally_update [OF i(1), of SLOT_OCCUPIED ?e] tally_update [OF i(1), of SLOT_TOMBSTONE ?e] i(2)
      by simp_all
    ultimately show ?thesis using wf True
      by (auto simp: put_done_def map_wf_def map_ok_def map_abs_def mp1_def)
  next
    case False
    note fail = store_key_fail [OF store False]
    have e: "state e = state (entries mp ! i)" "entry_ok e"
      using fail eok i(2) by (simp_all add: entry_ok_def)
    have "tally SLOT_OCCUPIED ((entries mp)[i := e]) = tally SLOT_OCCUPIED (entries mp)"
      using tally_update [OF i(1), of SLOT_OCCUPIED e] e(1) by simp
    moreover have "length key > IDX_MAP_INLINE_KEY"
      using store False by (auto simp: entry_store_key_def Let_def split: if_splits)
    ultimately show ?thesis using wf False fail touch_free_slot [OF ok i e]
      by (auto simp: put_done_def map_wf_def map_abs_def mp1_def)
  qed
qed

lemma put_in_room_done:
  assumes "map_wf mp" "capacity mp \<noteq> 0" "put_in_room malloc_ok mp key v = (st, mp')"
  shows "put_done malloc_ok mp key v st mp'"
proof -
  have ok: "table_ok (entries mp)" and cap: "capacity mp = length (entries mp)"
    using assms by (simp_all add: map_wf_def)
  show ?thesis
  proof (cases "lookup (entries mp) key")
    case (Some w)
    then obtain i where i: "i < length (entries mp)" "occupied (entries mp ! i)" "stored_key (entries mp ! i) = key"
      using lookup_Some [OF ok] by blast
    then show ?thesis using put_existing [OF assms(1,2) i, of malloc_ok v] assms(3) find_slot_present [OF ok cap i]
      by (auto simp: put_in_room_def Let_def)
  next
    case None
    show ?thesis
    proof (cases "find_slot mp key (hash_bytes key) True")
      case no: None
      then have "\<not> tally SLOT_OCCUPIED (entries mp) < length (entries mp)"
        using find_slot_absent(3) [OF ok cap None] tally_occupied_less by blast
      then have "count mp = capacity mp" using assms(1) tally_le [of SLOT_OCCUPIED "entries mp"]
        by (simp add: map_wf_def)
      then show ?thesis using assms no by (simp add: put_in_room_def put_done_def)
    next
      case (Some i)
      note slot = find_slot_absent(2) [OF ok cap None Some]
      obtain st1 e where store: "entry_store_key malloc_ok (entries mp ! i) key = (st1, e)" by fastforce
      have "put_done malloc_ok mp key v st mp'"
        using put_fresh [OF assms(1,2) _ _ _ None store, of v] slot assms(3) Some store
        by (auto simp: put_in_room_def Let_def split: if_splits)
      then show ?thesis .
    qed
  qed
qed

lemma put_cases:
  assumes "map_wf mp" "idx_map_put alloc malloc_ok (Some mp) key v = (st, res)"
  shows "\<exists>mp'. res = Some mp' \<and> map_wf mp' \<and>
    (st = IDX_OK \<and> map_abs mp' = (map_abs mp)(key \<mapsto> v) \<and> (map_ok mp \<longrightarrow> map_ok mp') \<or>
     st = IDX_ERR_INTERNAL \<and> \<not> map_ok mp \<and> map_abs mp' = map_abs mp \<or>
     st = IDX_ERR_NO_MEMORY \<and> map_abs mp' = map_abs mp \<and>
       (\<not> malloc_ok \<and> length key > IDX_MAP_INLINE_KEY \<or>
        (\<exists>n \<le> max 16 (2 * capacity mp). \<not> calloc_grants alloc n)))"
proof -
  obtain st1 mp1 where room: "ensure_room alloc mp = (st1, mp1)" by fastforce
  note made = ensure_room_made [OF assms(1) room, unfolded room_made_def]
  show ?thesis
  proof (cases "st1 = IDX_OK")
    case False
    then show ?thesis using made assms room by auto
  next
    case True
    obtain st2 mp2 where put: "put_in_room malloc_ok mp1 key v = (st2, mp2)" by fastforce
    have res: "st = st2" "res = Some mp2" using assms(2) room True put by auto
    have wf1: "map_wf mp1" "capacity mp1 \<noteq> 0" "map_abs mp1 = map_abs mp" "map_ok mp \<longrightarrow> map_ok mp1"
      using made True assms(1) by (auto simp: map_ok_def)
    have full: "\<not> map_ok mp" if "count mp1 = capacity mp1"
    proof
      assume ok: "map_ok mp"
      then have bound: "capacity mp * 72 \<le> 18446744073709551615" and eq: "capacity mp = length (entries mp)"
        and cnt: "count mp + tombstones mp \<le> capacity mp"
        using tally_two [of "entries mp"] by (auto simp: map_ok_def map_wf_def sizeof_entry_def SIZE_MAX_def)
      then have "(count mp + tombstones mp) mod 2 ^ 64 * 4 mod 2 ^ 64 = (count mp + tombstones mp) * 4" by simp
      then show False using made True that cnt by auto
    qed
    show ?thesis using put_in_room_done [OF wf1(1,2) put] wf1(3,4) full
      unfolding put_done_def res by auto
  qed
qed

lemma get_eq: "map_wf mp \<Longrightarrow> idx_map_get (Some mp) key = map_abs mp key"
proof -
  assume wf: "map_wf mp"
  show ?thesis
  proof (cases "capacity mp = 0")
    case True
    then show ?thesis using wf by (simp add: find_slot_def map_wf_def map_abs_def lookup_def)
  next
    case False
    then have ok: "table_ok (entries mp)" "capacity mp = length (entries mp)" using wf by (simp_all add: map_wf_def)
    show ?thesis
    proof (cases "lookup (entries mp) key")
      case None
      then show ?thesis using find_slot_absent(1) [OF ok None] by (simp add: map_abs_def)
    next
      case (Some v)
      then obtain i where i: "i < length (entries mp)" "occupied (entries mp ! i)"
        "stored_key (entries mp ! i) = key" "value (entries mp ! i) = v" using lookup_Some [OF ok(1)] by blast
      then show ?thesis using find_slot_present [OF ok i(1-3), of False] Some by (simp add: map_abs_def)
    qed
  qed
qed

lemma remove_cases:
  assumes "map_wf mp" "idx_map_remove (Some mp) key = (found, res)"
  shows "\<exists>mp'. res = Some mp' \<and> map_wf mp' \<and> (map_ok mp \<longrightarrow> map_ok mp') \<and> found = (map_abs mp key \<noteq> None) \<and>
    map_abs mp' = (map_abs mp)(key := None)"
proof (cases "find_slot mp key (hash_bytes key) False")
  case None
  then have "map_abs mp key = None" using get_eq [OF assms(1), of key] by simp
  then have "(map_abs mp)(key := None) = map_abs mp" by auto
  then show ?thesis using assms None \<open>map_abs mp key = None\<close> by auto
next
  case (Some i)
  then have "capacity mp \<noteq> 0" by (auto simp: find_slot_def split: if_splits)
  then have ok: "table_ok (entries mp)" "capacity mp = length (entries mp)" using assms(1) by (simp_all add: map_wf_def)
  have some: "map_abs mp key \<noteq> None" unfolding get_eq [OF assms(1), symmetric] using Some by simp
  then obtain j v where j: "j < length (entries mp)" "occupied (entries mp ! j)" "stored_key (entries mp ! j) = key"
    using lookup_Some [OF ok(1), of key] unfolding map_abs_def by blast
  then have i: "i < length (entries mp)" "occupied (entries mp ! i)" "stored_key (entries mp ! i) = key"
    using find_slot_present [OF ok j, of False] Some by simp_all
  let ?e = "(entry_release_key (entries mp ! i))\<lparr>state := SLOT_TOMBSTONE, key_len := 0, value := None\<rparr>"
  have "entry_ok (entries mp ! i)" using ok i(1) by (simp add: table_ok_def)
  then have "entry_ok ?e" by (simp add: entry_ok_def entry_release_key_def)
  then have bury: "table_ok ((entries mp)[i := ?e])" "lookup ((entries mp)[i := ?e]) = (lookup (entries mp))(key := None)"
    using bury_slot [OF ok(1) i(1,2), of ?e] i(3) by simp_all
  have tal: "tally SLOT_OCCUPIED ((entries mp)[i := ?e]) + 1 = tally SLOT_OCCUPIED (entries mp)"
    "tally SLOT_TOMBSTONE ((entries mp)[i := ?e]) = tally SLOT_TOMBSTONE (entries mp) + 1"
    using tally_update [OF i(1), of SLOT_OCCUPIED ?e] tally_update [OF i(1), of SLOT_TOMBSTONE ?e] i(2) by simp_all
  have "res = Some (mp\<lparr>entries := (entries mp)[i := ?e], count := count mp - 1, tombstones := tombstones mp + 1\<rparr>)"
    "found = True" using assms(2) Some by auto
  then show ?thesis using bury tal assms(1) some by (auto simp: map_wf_def map_ok_def map_abs_def)
qed

text \<open>The caller's loop over \<^verbatim>\<open>idx_map_next\<close>, at most \<open>n\<close> steps of it.\<close>

fun iterate :: "nat \<Rightarrow> 'v idx_map \<Rightarrow> nat \<Rightarrow> (idx_slice \<times> 'v option) list" where
  "iterate 0 mp cursor = []"
| "iterate (Suc n) mp cursor = (case idx_map_next (Some mp) cursor of
      None \<Rightarrow> []
    | Some (cursor', key, v) \<Rightarrow> (key, v) # iterate n mp cursor')"

abbreviation bindings :: "'v idx_map_entry list \<Rightarrow> (idx_slice \<times> 'v option) list" where
  "bindings es \<equiv> map (\<lambda>e. (stored_key e, value e)) (filter occupied es)"

lemma next_loop_bindings:
  assumes "capacity mp = length (entries mp)"
  shows "case next_loop mp i of
      None \<Rightarrow> bindings (drop i (entries mp)) = []
    | Some (j, key, v) \<Rightarrow> bindings (drop i (entries mp)) = (key, v) # bindings (drop j (entries mp))"
  using assms
proof (induction mp i rule: next_loop.induct)
  case (1 mp i)
  show ?case
  proof (cases "i < capacity mp")
    case True
    then have "drop i (entries mp) = entries mp ! i # drop (i + 1) (entries mp)"
      using 1 by (simp add: Cons_nth_drop_Suc)
    then show ?thesis using 1 True
      by (cases "occupied (entries mp ! i)")
        (simp_all add: next_loop.simps [of mp i] stored_key_def split: option.splits prod.splits)
  next
    case False
    then show ?thesis using 1 by (simp add: next_loop.simps [of mp i])
  qed
qed

lemma iterate_bindings:
  "capacity mp = length (entries mp) \<Longrightarrow> length (bindings (drop i (entries mp))) < n \<Longrightarrow>
   iterate n mp i = bindings (drop i (entries mp))"
proof (induction n arbitrary: i)
  case (Suc n)
  note nxt = next_loop_bindings [OF Suc.prems(1), of i]
  show ?case
  proof (cases "next_loop mp i")
    case None
    then show ?thesis using nxt by simp
  next
    case (Some r)
    obtain j key v where r: "r = (j, key, v)" by (cases r)
    then have b: "bindings (drop i (entries mp)) = (key, v) # bindings (drop j (entries mp))"
      using nxt Some by simp
    have "length (bindings (drop j (entries mp))) < n" using Suc.prems(2) unfolding b by simp
    from Suc.IH [OF Suc.prems(1) this] show ?thesis using b Some r by simp
  qed
qed simp

lemma distinct_map_filter:
  "(\<And>i j. i < length xs \<Longrightarrow> j < length xs \<Longrightarrow> P (xs ! i) \<Longrightarrow> P (xs ! j) \<Longrightarrow> f (xs ! i) = f (xs ! j) \<Longrightarrow> i = j)
   \<Longrightarrow> distinct (map f (filter P xs))"
proof (induction xs)
  case (Cons x xs)
  have "distinct (map f (filter P xs))"
    using Cons.prems [of "Suc i" "Suc j" for i j] by (intro Cons.IH) force
  moreover have "f x \<notin> f ` set (filter P xs)" if "P x"
  proof
    assume "f x \<in> f ` set (filter P xs)"
    then obtain j where "j < length xs" "P (xs ! j)" "f x = f (xs ! j)" by (auto simp: in_set_conv_nth)
    then show False using Cons.prems [of 0 "Suc j"] that by simp
  qed
  ultimately show ?case by simp
qed simp

lemma distinct_bindings: "table_ok es \<Longrightarrow> distinct (map fst (bindings es))"
  using distinct_map_filter [of es occupied stored_key] table_unique [of es] by (simp add: comp_def)

lemma bindings_lookup: "map_of (bindings es) = lookup es"
  by (induction es) (auto simp: lookup_def fun_eq_iff)

section \<open>The interface of a dictionary\<close>

datatype ('k, 'v) dict_op = Put 'k 'v | Drop 'k

text \<open>A sequence of operations on an implementation, stopping at the first failure, and on a function.\<close>

fun dict_run :: "('m \<Rightarrow> 'k \<Rightarrow> 'v \<Rightarrow> 'm option) \<Rightarrow> ('m \<Rightarrow> 'k \<Rightarrow> 'm) \<Rightarrow> ('k, 'v) dict_op list \<Rightarrow> 'm \<Rightarrow> 'm option" where
  "dict_run put drop_key [] m = Some m"
| "dict_run put drop_key (Put k v # ops) m =
     (case put m k v of None \<Rightarrow> None | Some m' \<Rightarrow> dict_run put drop_key ops m')"
| "dict_run put drop_key (Drop k # ops) m = dict_run put drop_key ops (drop_key m k)"

fun dict_effect :: "('k, 'v) dict_op list \<Rightarrow> ('k \<Rightarrow> 'v option) \<Rightarrow> 'k \<Rightarrow> 'v option" where
  "dict_effect [] f = f"
| "dict_effect (Put k v # ops) f = dict_effect ops (f(k \<mapsto> v))"
| "dict_effect (Drop k # ops) f = dict_effect ops (f(k := None))"

text \<open>\<open>put\<close> yields nothing when it fails; the laws speak of the puts that succeed.\<close>

locale dictionary =
  fixes invar :: "'m \<Rightarrow> bool"
    and abs :: "'m \<Rightarrow> 'k \<Rightarrow> 'v option"
    and get :: "'m \<Rightarrow> 'k \<Rightarrow> 'v option"
    and put :: "'m \<Rightarrow> 'k \<Rightarrow> 'v \<Rightarrow> 'm option"
    and drop_key :: "'m \<Rightarrow> 'k \<Rightarrow> 'm"
  assumes get: "invar m \<Longrightarrow> get m k = abs m k"
    and put: "invar m \<Longrightarrow> put m k v = Some m' \<Longrightarrow> invar m' \<and> abs m' = (abs m)(k \<mapsto> v)"
    and drop_key: "invar m \<Longrightarrow> invar (drop_key m k) \<and> abs (drop_key m k) = (abs m)(k := None)"
begin

lemma run_effect:
  "invar m \<Longrightarrow> dict_run put drop_key ops m = Some m' \<Longrightarrow> invar m' \<and> abs m' = dict_effect ops (abs m)"
proof (induction ops arbitrary: m)
  case (Cons op ops)
  show ?case
  proof (cases op)
    case (Put k v)
    then obtain m1 where m1: "put m k v = Some m1" "dict_run put drop_key ops m1 = Some m'"
      using Cons.prems(2) by (auto split: option.splits)
    note p = put [OF Cons.prems(1) m1(1)]
    have "invar m' \<and> abs m' = dict_effect ops (abs m1)" using p m1(2) by (intro Cons.IH) simp_all
    then show ?thesis unfolding Put dict_effect.simps using p by simp
  next
    case (Drop k)
    note p = drop_key [OF Cons.prems(1), of k]
    have "invar m' \<and> abs m' = dict_effect ops (abs (drop_key m k))"
      using p Cons.prems(2) Drop by (intro Cons.IH) simp_all
    then show ?thesis unfolding Drop dict_effect.simps using p by simp
  qed
qed simp

lemma run_get: "invar m \<Longrightarrow> dict_run put drop_key ops m = Some m' \<Longrightarrow> get m' k = dict_effect ops (abs m) k"
  using run_effect get by simp

end

definition dict_put :: "(nat \<Rightarrow> bool) \<Rightarrow> bool \<Rightarrow> 'v idx_map \<Rightarrow> idx_slice \<Rightarrow> 'v option \<Rightarrow> 'v idx_map option" where
  "dict_put alloc malloc_ok mp key v =
     (case idx_map_put alloc malloc_ok (Some mp) key v of (st, res) \<Rightarrow> if st = IDX_OK then res else None)"

definition dict_drop :: "'v idx_map \<Rightarrow> idx_slice \<Rightarrow> 'v idx_map" where
  "dict_drop mp key = (case idx_map_remove (Some mp) key of (_, Some mp') \<Rightarrow> mp' | (_, None) \<Rightarrow> mp)"

lemma dict_drop_ok:
  assumes "map_wf mp"
  shows "map_wf (dict_drop mp key) \<and> (map_ok mp \<longrightarrow> map_ok (dict_drop mp key)) \<and>
    map_abs (dict_drop mp key) = (map_abs mp)(key := None)"
proof -
  obtain f r where r: "idx_map_remove (Some mp) key = (f, r)" by fastforce
  from remove_cases [OF assms r] r show ?thesis by (auto simp: dict_drop_def simp del: idx_map_remove.simps)
qed

lemma dict_put_ok:
  assumes "map_wf mp" "dict_put alloc malloc_ok mp key v = Some mp'"
  shows "map_wf mp' \<and> (map_ok mp \<longrightarrow> map_ok mp') \<and> map_abs mp' = (map_abs mp)(key \<mapsto> v)"
proof -
  obtain st r where r: "idx_map_put alloc malloc_ok (Some mp) key v = (st, r)" by fastforce
  from put_cases [OF assms(1) r] r assms(2) show ?thesis
    by (auto simp: dict_put_def simp del: idx_map_put.simps split: if_splits)
qed

interpretation map_dict: dictionary map_ok map_abs "\<lambda>mp. idx_map_get (Some mp)" "dict_put alloc malloc_ok" dict_drop
  for alloc malloc_ok
proof unfold_locales
  fix m :: "'v idx_map" and k v m'
  assume ok: "map_ok m"
  then have wf: "map_wf m" by (simp add: map_ok_def)
  show "idx_map_get (Some m) k = map_abs m k" by (rule get_eq [OF wf])
  show "map_ok m' \<and> map_abs m' = (map_abs m)(k \<mapsto> v)" if "dict_put alloc malloc_ok m k v = Some m'"
    using dict_put_ok [OF wf that] ok by blast
  show "map_ok (dict_drop m k) \<and> map_abs (dict_drop m k) = (map_abs m)(k := None)"
    using dict_drop_ok [OF wf] ok by blast
qed

lemma dict_put_granted:
  assumes "map_ok mp" "\<forall>n \<le> max 16 (2 * capacity mp). calloc_grants alloc n"
  shows "\<exists>mp'. dict_put alloc True mp key v = Some mp'"
proof -
  obtain st r where r: "idx_map_put alloc True (Some mp) key v = (st, r)" by fastforce
  have "map_wf mp" using assms(1) by (simp add: map_ok_def)
  from put_cases [OF this r] have "st = IDX_OK \<and> (\<exists>mp'. r = Some mp')" using assms by blast
  then show ?thesis using r by (auto simp: dict_put_def simp del: idx_map_put.simps)
qed

section \<open>Properties\<close>

definition fresh_map :: "'v idx_map" where
  "fresh_map = \<lparr>entries = [], capacity = 0, count = 0, tombstones = 0\<rparr>"

lemma fresh_map_ok: "map_ok fresh_map" "map_abs fresh_map = Map.empty"
  by (simp_all add: fresh_map_def map_ok_def map_wf_def tally_def map_abs_def lookup_def fun_eq_iff)

text \<open>
  C20: The table is a dictionary. After any sequence of insertions and removals on a fresh
  table, every lookup returns what the last operation on its key says, whatever collisions,
  tombstones and rebuilds happened on the way.
\<close>

theorem map_is_dictionary:
  assumes "idx_map_init (Some junk) = Some mp" and "dict_run (dict_put alloc malloc_ok) dict_drop ops mp = Some mp'"
  shows "idx_map_get (Some mp') key = dict_effect ops Map.empty key"
proof -
  have "mp = fresh_map" using assms(1) by (simp add: idx_map_init_def fresh_map_def)
  with assms(2) have "dict_run (dict_put alloc malloc_ok) dict_drop ops fresh_map = Some mp'" by simp
  from map_dict.run_get [OF fresh_map_ok(1) this] show ?thesis by (simp only: fresh_map_ok(2))
qed

theorem map_is_dictionary_witness:
  "\<exists>mp'. dict_run (dict_put (\<lambda>_. True) True) dict_drop [Drop [2], Put [1] (Some ())] fresh_map = Some mp' \<and>
     idx_map_get (Some mp') [1] = Some (Some ())"
proof -
  have same: "dict_drop (fresh_map :: unit idx_map) [2] = fresh_map"
    by (simp add: dict_drop_def fresh_map_def find_slot_def)
  have "\<forall>n \<le> max 16 (2 * capacity fresh_map). calloc_grants (\<lambda>_. True) n"
    by (simp add: fresh_map_def calloc_grants_def sizeof_entry_def SIZE_MAX_def)
  then obtain mp' where "dict_put (\<lambda>_. True) True fresh_map [1] (Some ()) = Some mp'"
    using dict_put_granted fresh_map_ok(1) by blast
  then have run: "dict_run (dict_put (\<lambda>_. True) True) dict_drop [Drop [2], Put [1] (Some ())] fresh_map = Some mp'"
    using same by simp
  have "idx_map_init (Some fresh_map) = Some fresh_map" by (simp add: idx_map_init_def fresh_map_def)
  from map_is_dictionary [OF this run, of "[1]"] run show ?thesis by simp
qed

text \<open>
  A failing insertion loses nothing. Whatever the allocators do, an insertion keeps the
  table well formed; it either succeeds and binds exactly the key, or fails and leaves every
  binding as it was; and on a table whose tombstone count is exact the only failure is
  NO_MEMORY, so with memory granted it succeeds.
\<close>

theorem map_put_atomic:
  assumes "map_wf mp"
  shows "\<exists>st mp'. idx_map_put alloc malloc_ok (Some mp) key v = (st, Some mp') \<and> map_wf mp' \<and>
    (if st = IDX_OK then map_abs mp' = (map_abs mp)(key \<mapsto> v) else map_abs mp' = map_abs mp) \<and>
    (map_ok mp \<longrightarrow> st = IDX_OK \<or> st = IDX_ERR_NO_MEMORY) \<and>
    (map_ok mp \<and> malloc_ok \<and> (\<forall>n \<le> max 16 (2 * capacity mp). calloc_grants alloc n) \<longrightarrow>
       st = IDX_OK \<and> map_ok mp')"
proof -
  obtain st r where r: "idx_map_put alloc malloc_ok (Some mp) key v = (st, r)" by fastforce
  from put_cases [OF assms r] obtain mp' where mp': "r = Some mp'" "map_wf mp'"
    and out: "st = IDX_OK \<and> map_abs mp' = (map_abs mp)(key \<mapsto> v) \<and> (map_ok mp \<longrightarrow> map_ok mp') \<or>
     st = IDX_ERR_INTERNAL \<and> \<not> map_ok mp \<and> map_abs mp' = map_abs mp \<or>
     st = IDX_ERR_NO_MEMORY \<and> map_abs mp' = map_abs mp \<and>
       (\<not> malloc_ok \<and> length key > IDX_MAP_INLINE_KEY \<or>
        (\<exists>n \<le> max 16 (2 * capacity mp). \<not> calloc_grants alloc n))" by (elim exE conjE)
  have "(if st = IDX_OK then map_abs mp' = (map_abs mp)(key \<mapsto> v) else map_abs mp' = map_abs mp)"
    using out by (elim disjE conjE) simp_all
  moreover have "map_ok mp \<longrightarrow> st = IDX_OK \<or> st = IDX_ERR_NO_MEMORY" using out by blast
  moreover have "map_ok mp \<and> malloc_ok \<and> (\<forall>n \<le> max 16 (2 * capacity mp). calloc_grants alloc n) \<longrightarrow>
       st = IDX_OK \<and> map_ok mp'" using out by blast
  moreover have "idx_map_put alloc malloc_ok (Some mp) key v = (st, Some mp')" using r unfolding mp'(1) .
  ultimately show ?thesis using mp'(2) by blast
qed

theorem map_put_atomic_witness:
  "\<exists>st mp'. idx_map_put (\<lambda>_. False) True (Some fresh_map) [1] (Some ()) = (st, Some mp') \<and> map_wf mp'"
proof -
  have "map_wf (fresh_map :: unit idx_map)" by (rule fresh_map_ok(1) [unfolded map_ok_def, THEN conjunct1])
  from map_put_atomic [OF this] show ?thesis by blast
qed

text \<open>
  Removal and iteration agree with the bindings: a removal reports whether the key was
  bound and unbinds exactly it, and a walk with \<^verbatim>\<open>idx_map_next\<close> yields every binding once.
\<close>

theorem map_remove_iterate:
  assumes "map_wf mp"
  shows "(\<exists>mp'. idx_map_remove (Some mp) key = (map_abs mp key \<noteq> None, Some mp') \<and> map_wf mp' \<and>
      map_abs mp' = (map_abs mp)(key := None)) \<and>
    map_of (iterate (capacity mp + 1) mp 0) = map_abs mp \<and>
    distinct (map fst (iterate (capacity mp + 1) mp 0)) \<and>
    length (iterate (capacity mp + 1) mp 0) = idx_map_count (Some mp)"
proof (intro conjI)
  obtain f r where r: "idx_map_remove (Some mp) key = (f, r)" by fastforce
  from remove_cases [OF assms r] r
  show "\<exists>mp'. idx_map_remove (Some mp) key = (map_abs mp key \<noteq> None, Some mp') \<and> map_wf mp' \<and>
      map_abs mp' = (map_abs mp)(key := None)" by (auto simp del: idx_map_remove.simps)
  have cap: "capacity mp = length (entries mp)" using assms by (simp add: map_wf_def)
  have it: "iterate (capacity mp + 1) mp 0 = bindings (entries mp)"
    using iterate_bindings [OF cap, of 0 "capacity mp + 1"] cap
    by (simp add: le_imp_less_Suc del: iterate.simps)
  show "map_of (iterate (capacity mp + 1) mp 0) = map_abs mp"
    unfolding it by (simp only: bindings_lookup map_abs_def)
  show "distinct (map fst (iterate (capacity mp + 1) mp 0))"
    unfolding it using distinct_bindings assms by (cases "capacity mp = 0") (auto simp: map_wf_def)
  show "length (iterate (capacity mp + 1) mp 0) = idx_map_count (Some mp)"
    unfolding it using assms by (simp add: idx_map_count_def map_wf_def tally_def)
qed

text \<open>A table of sixteen slots whose only used slot is a tombstone, at the home of a long key.\<close>

definition long_key :: bytes where
  "long_key = replicate 33 0"

definition buried_map :: "unit idx_map" where
  "buried_map = \<lparr>entries = (replicate 16 zero_entry)[9 := zero_entry\<lparr>state := SLOT_TOMBSTONE\<rparr>],
                 capacity = 16, count = 0, tombstones = 1\<rparr>"

lemma hash_long_key: "hash_bytes long_key = 2710608545492304921"
  by code_simp

lemma buried_map_ok: "map_ok buried_map"
proof -
  have nth: "(replicate 16 zero_entry)[9 := zero_entry\<lparr>state := SLOT_TOMBSTONE\<rparr>] ! i =
      (if i = 9 then zero_entry\<lparr>state := SLOT_TOMBSTONE\<rparr> else zero_entry)" if "i < 16" for i
    using that by (simp add: nth_list_update)
  have "entry_ok (zero_entry\<lparr>state := SLOT_TOMBSTONE\<rparr>)" by (simp add: entry_ok_def zero_entry_def)
  moreover have "\<exists>k. (16 :: nat) = 2 ^ k" by (rule exI [of _ 4]) simp
  ultimately have "table_ok (entries buried_map)" by (auto simp: table_ok_def buried_map_def nth)
  moreover have "tally s (entries buried_map) = (if s = SLOT_TOMBSTONE then 1 else if s = SLOT_EMPTY then 15 else 0)" for s
    using tally_update [of 9 "replicate 16 zero_entry :: unit idx_map_entry list" s "zero_entry\<lparr>state := SLOT_TOMBSTONE\<rparr>"]
    by (cases s) (simp_all add: buried_map_def tally_def)
  ultimately show ?thesis
    by (simp add: map_ok_def map_wf_def) (simp add: buried_map_def sizeof_entry_def SIZE_MAX_def)
qed


theorem map_remove_iterate_witness:
  "idx_map_remove (Some buried_map) long_key = (False, Some buried_map) \<and> iterate 17 buried_map 0 = []"
proof -
  have wf: "map_wf buried_map" "map_abs buried_map long_key = None"
    using buried_map_ok by (auto simp: map_ok_def map_abs_def lookup_None buried_map_def nth_list_update)
  have cap: "capacity buried_map + 1 = 17" "count buried_map = 0" by (simp_all add: buried_map_def)
  show ?thesis
    using map_remove_iterate [OF wf(1), of long_key, unfolded cap] wf(2) cap(2)
    by (auto simp: idx_map_count_def split: option.splits)
qed

text \<open>
  A failing insertion over a tombstone miscounts. The tombstone counter is decreased
  before the long key is copied; when that copy fails the slot is still a tombstone, so the
  counter is one short, and the table's bookkeeping is no longer exact.
\<close>

theorem map_failed_put_miscounts:
  "map_ok buried_map \<and>
   (\<exists>mp'. idx_map_put (\<lambda>_. True) False (Some buried_map) long_key None = (IDX_ERR_NO_MEMORY, Some mp') \<and>
      tombstones mp' = 0 \<and> tally SLOT_TOMBSTONE (entries mp') = 1 \<and> \<not> map_ok mp')"
proof -
  let ?tomb = "zero_entry\<lparr>state := SLOT_TOMBSTONE\<rparr> :: unit idx_map_entry"
  have wf: "table_ok (entries buried_map)" "capacity buried_map = length (entries buried_map)"
    using buried_map_ok by (simp_all add: map_ok_def map_wf_def buried_map_def)
  have at: "entries buried_map ! 9 = ?tomb" "9 < length (entries buried_map)" by (simp_all add: buried_map_def)
  have mask: "unat (hash_bytes long_key) AND 15 = 9" by (simp add: hash_long_key)
  have loop: "probe_loop (entries buried_map) 15 long_key h True (Suc n) 9 None =
      probe_loop (entries buried_map) 15 long_key h True n (10 AND 15) (Some 9)" for h n
    using at by (simp add: Let_def)
  have "entries buried_map ! 10 = zero_entry" by (simp add: buried_map_def)
  then have rest: "probe_loop (entries buried_map) 15 long_key h True (Suc n) 10 (Some 9) = Some 9" for h n
    by (simp add: Let_def)
  have index: "10 AND 15 = (10 :: nat)" by simp
  have "find_slot buried_map long_key (hash_bytes long_key) True =
      probe_loop (entries buried_map) 15 long_key (hash_bytes long_key) True (Suc (Suc 14)) 9 None"
    by (simp add: find_slot_def buried_map_def mask)
  also have "\<dots> = Some 9" unfolding loop index by (rule rest)
  finally have find: "find_slot buried_map long_key (hash_bytes long_key) True = Some 9" .
  have room: "ensure_room (\<lambda>_. True) buried_map = (IDX_OK, buried_map)"
    by (simp add: ensure_room_def buried_map_def IDX_MAP_LOAD_DENOMINATOR_def IDX_MAP_LOAD_NUMERATOR_def)
  let ?e = "?tomb\<lparr>key_len := 33, heap_key := None\<rparr>"
  have put: "idx_map_put (\<lambda>_. True) False (Some buried_map) long_key None =
      (IDX_ERR_NO_MEMORY, Some (buried_map\<lparr>tombstones := 0, entries := (entries buried_map)[9 := ?e]\<rparr>))"
    using find at by (simp add: room put_in_room_def entry_store_key_def Let_def long_key_def IDX_MAP_INLINE_KEY_def)
      (simp add: buried_map_def)
  have "tally SLOT_TOMBSTONE ((entries buried_map)[9 := ?e]) = 1"
    using tally_update [OF at(2), of SLOT_TOMBSTONE ?e] at(1) buried_map_ok
    by (simp add: map_ok_def buried_map_def)
  then show ?thesis using buried_map_ok put by (simp add: map_ok_def)
qed

end
