(* ===== verification/Base58.thy ===== *)
theory Base58
  imports Bytes
begin

text \<open>
  The base58 codec of keys and signatures (\<^verbatim>\<open>src/base58.c\<close>). The scratch array of a
  conversion is a byte list; its carry loop runs from the last cell down, as in the source,
  with the 32-bit carry reduced where the source stores it. \<open>calloc_ok\<close> is the outcome of
  the heap allocation that inputs beyond the stack scratch need.
\<close>

section \<open>Model\<close>

definition k_alphabet :: string where
  "k_alphabet = ''123456789ABCDEFGHJKLMNPQRSTUVWXYZabcdefghijkmnopqrstuvwxyz''"

definition ensure_reverse_table :: bytes where
  "ensure_reverse_table =
     fold (\<lambda>i table. table[of_char (k_alphabet ! i) := word_of_nat i]) [0..<58] (replicate 256 0xFF)"

definition g_reverse :: "char \<Rightarrow> byte" where
  "g_reverse c = ensure_reverse_table ! of_char c"

definition IDX_BASE58_STACK_SCRATCH :: nat where
  "IDX_BASE58_STACK_SCRATCH = 512"

definition scratch_acquire :: "bool \<Rightarrow> nat \<Rightarrow> bytes result" where
  "scratch_acquire calloc_ok bytes_wanted =
     (if bytes_wanted \<le> IDX_BASE58_STACK_SCRATCH then Inr (replicate bytes_wanted 0)
      else if \<not> calloc_ok then Inl IDX_ERR_NO_MEMORY
      else Inr (replicate bytes_wanted 0))"

definition idx_base58_encoded_max :: "nat \<Rightarrow> nat" where
  "idx_base58_encoded_max byte_count = byte_count * 138 div 100 + 1"

definition idx_base58_decoded_max :: "nat \<Rightarrow> nat" where
  "idx_base58_decoded_max text_len = text_len"

text \<open>The inner loop of the encoder: \<open>j\<close> cells are still ahead.\<close>

fun encode_carry :: "nat \<Rightarrow> nat \<Rightarrow> nat \<Rightarrow> nat \<Rightarrow> bytes \<Rightarrow> bytes \<times> nat" where
  "encode_carry used 0 carry consumed digits = (digits, consumed)"
| "encode_carry used (Suc j) carry consumed digits =
     (if carry \<noteq> 0 \<or> consumed < used then
        (let carry = (carry + 256 * unat (digits ! j)) mod 2 ^ 32 in
         encode_carry used j (carry div 58) (consumed + 1) (digits[j := word_of_nat (carry mod 58)]))
      else (digits, consumed))"

fun encode_bytes :: "nat \<Rightarrow> bytes \<Rightarrow> bytes \<times> nat \<Rightarrow> bytes \<times> nat" where
  "encode_bytes digits_size [] (digits, used) = (digits, used)"
| "encode_bytes digits_size (b # bs) (digits, used) =
     encode_bytes digits_size bs (encode_carry used digits_size (unat b) 0 digits)"

definition idx_base58_encode :: "bool \<Rightarrow> idx_slice \<Rightarrow> nat \<Rightarrow> string result" where
  "idx_base58_encode calloc_ok input out_size =
     (let leading_zeros = length (takeWhile (\<lambda>b. b = 0) input);
          digits_size = idx_base58_encoded_max (length input)
      in idx_try (scratch_acquire calloc_ok digits_size) (\<lambda>digits.
           let (digits, used) = encode_bytes digits_size (drop leading_zeros input) (digits, 0);
               total = leading_zeros + used
           in if out_size < total + 1 then Inl IDX_ERR_RANGE
              else Inr (replicate leading_zeros CHR ''1'' @
                        map (\<lambda>i. k_alphabet ! unat (digits ! (digits_size - used + i))) [0..<used])))"

fun decode_carry :: "nat \<Rightarrow> nat \<Rightarrow> nat \<Rightarrow> nat \<Rightarrow> bytes \<Rightarrow> bytes \<times> nat" where
  "decode_carry used 0 carry consumed cells = (cells, consumed)"
| "decode_carry used (Suc j) carry consumed cells =
     (if carry \<noteq> 0 \<or> consumed < used then
        (let carry = (carry + 58 * unat (cells ! j)) mod 2 ^ 32 in
         decode_carry used j (drop_bit 8 carry) (consumed + 1) (cells[j := word_of_nat (and carry 0xFF)]))
      else (cells, consumed))"

fun decode_chars :: "nat \<Rightarrow> string \<Rightarrow> bytes \<times> nat \<Rightarrow> (bytes \<times> nat) result" where
  "decode_chars bytes_size [] (cells, used) = Inr (cells, used)"
| "decode_chars bytes_size (c # cs) (cells, used) =
     (let digit = g_reverse c in
      if digit = 0xFF then Inl IDX_ERR_PARSE
      else decode_chars bytes_size cs (decode_carry used bytes_size (unat digit) 0 cells))"

fun idx_base58_decode :: "bool \<Rightarrow> string option \<Rightarrow> nat \<Rightarrow> bytes result" where
  "idx_base58_decode calloc_ok None out_size = Inl IDX_ERR_INVALID_ARG"
| "idx_base58_decode calloc_ok (Some text) out_size =
     (let leading_ones = length (takeWhile (\<lambda>c. c = CHR ''1'') text);
          bytes_size = idx_base58_decoded_max (length text)
      in idx_try (scratch_acquire calloc_ok bytes_size) (\<lambda>cells.
         idx_try (decode_chars bytes_size (drop leading_ones text) (cells, 0)) (\<lambda>(cells, used).
           let total = leading_ones + used
           in if out_size < total then Inl IDX_ERR_RANGE
              else Inr (replicate leading_ones 0 @ take used (drop (bytes_size - used) cells)))))"

definition idx_base58_decode_exact :: "bool \<Rightarrow> string option \<Rightarrow> nat \<Rightarrow> bytes result" where
  "idx_base58_decode_exact calloc_ok text expected_len =
     idx_try (idx_base58_decode calloc_ok text expected_len) (\<lambda>out.
       if length out \<noteq> expected_len then Inl IDX_ERR_PARSE else Inr out)"

section \<open>Numbers in a base\<close>

text \<open>The digits of a number, least significant first, without leading zeros.\<close>

fun digits_of :: "nat \<Rightarrow> nat \<Rightarrow> nat list" where
  "digits_of b n = (if n = 0 \<or> b < 2 then [] else n mod b # digits_of b (n div b))"

declare digits_of.simps [simp del]

lemma digits_of_0 [simp]: "digits_of b 0 = []"
  by (simp add: digits_of.simps)

lemma digits_of_pos: "2 \<le> b \<Longrightarrow> 0 < n \<Longrightarrow> digits_of b n = n mod b # digits_of b (n div b)"
  by (simp add: digits_of.simps)

fun value_of :: "nat \<Rightarrow> nat list \<Rightarrow> nat" where
  "value_of b [] = 0"
| "value_of b (d # ds) = d + b * value_of b ds"

lemma value_digits_of: "2 \<le> b \<Longrightarrow> value_of b (digits_of b n) = n"
proof (induction b n rule: digits_of.induct)
  case (1 b n)
  then show ?case by (cases "n = 0") (simp_all add: digits_of_pos)
qed

lemma digits_of_less: "2 \<le> b \<Longrightarrow> d \<in> set (digits_of b n) \<Longrightarrow> d < b"
proof (induction b n rule: digits_of.induct)
  case (1 b n)
  then show ?case by (cases "n = 0") (auto simp: digits_of_pos)
qed

lemma digits_of_last: "2 \<le> b \<Longrightarrow> 0 < n \<Longrightarrow> digits_of b n \<noteq> [] \<and> last (digits_of b n) \<noteq> 0"
proof (induction b n rule: digits_of.induct)
  case (1 b n)
  show ?case
  proof (cases "n div b = 0")
    case True
    then have "n < b" using 1 by (simp add: div_eq_0_iff)
    then show ?thesis using 1 by (simp add: digits_of_pos)
  next
    case False
    then show ?thesis using 1 by (simp add: digits_of_pos)
  qed
qed

lemma length_digits_of: "2 \<le> b \<Longrightarrow> n < b ^ k \<Longrightarrow> length (digits_of b n) \<le> k"
proof (induction k arbitrary: n)
  case (Suc k)
  show ?case
  proof (cases "n = 0")
    case False
    have "n div b < b ^ k" using Suc.prems by (simp add: less_mult_imp_div_less mult.commute)
    then show ?thesis using Suc False by (simp add: digits_of_pos)
  qed simp
qed simp

lemma value_of_pos: "ds \<noteq> [] \<Longrightarrow> last ds \<noteq> 0 \<Longrightarrow> 0 < b \<Longrightarrow> 0 < value_of b ds"
  by (induction ds) (auto split: if_splits)

text \<open>A digit list is determined by its value once its top digit is not zero.\<close>

lemma digits_of_value:
  "2 \<le> b \<Longrightarrow> \<forall>d \<in> set ds. d < b \<Longrightarrow> ds = [] \<or> last ds \<noteq> 0 \<Longrightarrow> digits_of b (value_of b ds) = ds"
proof (induction ds)
  case (Cons d ds)
  have "0 < value_of b (d # ds)" using Cons.prems value_of_pos [of "d # ds" b] by simp
  moreover have "(d + b * value_of b ds) mod b = d" "(d + b * value_of b ds) div b = value_of b ds"
    using Cons.prems by auto
  ultimately show ?case using Cons by (auto simp: digits_of_pos split: if_splits)
qed simp

lemma value_of_append: "value_of b (xs @ ys) = value_of b xs + b ^ length xs * value_of b ys"
  by (induction xs) (simp_all add: algebra_simps)

lemma value_of_bound: "\<forall>d \<in> set ds. d < b \<Longrightarrow> value_of b ds < b ^ length ds"
proof (induction ds)
  case (Cons d ds)
  then have "value_of b ds + 1 \<le> b ^ length ds" by simp
  then have "b * (value_of b ds + 1) \<le> b * b ^ length ds" by (intro mult_le_mono) simp_all
  then have "b * value_of b ds + b \<le> b ^ length (d # ds)" by (simp add: algebra_simps)
  moreover have "d < b" using Cons.prems by simp
  ultimately show ?case by simp
qed simp

text \<open>Multiply by \<open>m\<close> and add \<open>c\<close>, digit by digit.\<close>

function mac :: "nat \<Rightarrow> nat \<Rightarrow> nat list \<Rightarrow> nat \<Rightarrow> nat list" where
  "mac b m (x # xs) c = (m * x + c) mod b # mac b m xs ((m * x + c) div b)"
| "mac b m [] c = (if c = 0 \<or> b < 2 then [] else c mod b # mac b m [] (c div b))"
  by pat_completeness auto
termination by (relation "measures [\<lambda>(b, m, xs, c). length xs, \<lambda>(b, m, xs, c). c]") auto

declare mac.simps(2) [simp del]

lemma mac_Nil: "mac b m [] c = digits_of b c"
proof (induction b c rule: digits_of.induct)
  case (1 b c)
  then show ?case by (subst mac.simps(2), subst digits_of.simps) simp
qed

lemma mac_digits: "2 \<le> b \<Longrightarrow> 0 < m \<Longrightarrow> mac b m (digits_of b n) c = digits_of b (m * n + c)"
proof (induction b n arbitrary: c rule: digits_of.induct)
  case (1 b n)
  show ?case
  proof (cases "n = 0")
    case True
    then show ?thesis by (simp only: mac_Nil digits_of_0) simp
  next
    case False
    have n: "m * n + c = b * (m * (n div b)) + (m * (n mod b) + c)"
    proof -
      have "m * n + c = m * (b * (n div b) + n mod b) + c" by (simp only: mult_div_mod_eq)
      then show ?thesis by (simp only: distrib_left ac_simps)
    qed
    have "(m * n + c) mod b = (m * (n mod b) + c) mod b" by (subst n) simp
    moreover have "(m * n + c) div b = m * (n div b) + (m * (n mod b) + c) div b"
      using "1.prems" by (subst n) simp
    moreover have "mac b m (digits_of b (n div b)) ((m * (n mod b) + c) div b) =
        digits_of b (m * (n div b) + (m * (n mod b) + c) div b)"
      using 1 False by simp
    ultimately show ?thesis using "1.prems" False by (simp add: digits_of_pos)
  qed
qed

section \<open>The carry loops\<close>

text \<open>Both inner loops are the same multiply-and-add over an array with the digits at its end.\<close>

fun carry_loop :: "nat \<Rightarrow> nat \<Rightarrow> nat \<Rightarrow> nat \<Rightarrow> nat \<Rightarrow> nat \<Rightarrow> bytes \<Rightarrow> bytes \<times> nat" where
  "carry_loop b m used 0 carry consumed cells = (cells, consumed)"
| "carry_loop b m used (Suc j) carry consumed cells =
     (if carry \<noteq> 0 \<or> consumed < used then
        (let carry = (carry + m * unat (cells ! j)) mod 2 ^ 32 in
         carry_loop b m used j (carry div b) (consumed + 1) (cells[j := word_of_nat (carry mod b)]))
      else (cells, consumed))"

lemma encode_carry_eq: "encode_carry used j carry consumed cells = carry_loop 58 256 used j carry consumed cells"
  by (induction j arbitrary: carry consumed cells) (simp_all add: Let_def)

lemma and_255: "and (n :: nat) 255 = n mod 256"
proof -
  have m: "(255 :: nat) = mask 8" by (simp add: mask_eq_exp_minus_1)
  show ?thesis by (simp only: m take_bit_eq_mask [symmetric] take_bit_eq_mod) simp
qed

lemma decode_carry_eq: "decode_carry used j carry consumed cells = carry_loop 256 58 used j carry consumed cells"
  by (induction j arbitrary: carry consumed cells) (simp_all add: Let_def and_255 drop_bit_eq_div)

definition store_digits :: "nat \<Rightarrow> nat list \<Rightarrow> bytes" where
  "store_digits j ds = replicate (j - length ds) 0 @ map word_of_nat (rev ds)"

lemma store_digits_Nil: "store_digits j [] = replicate j 0"
  by (simp add: store_digits_def)

lemma store_digits_Suc: "store_digits (Suc j) (d # ds) = store_digits j ds @ [word_of_nat d]"
  by (simp add: store_digits_def)

lemma length_store_digits: "length ds \<le> j \<Longrightarrow> length (store_digits j ds) = j"
  by (simp add: store_digits_def)

lemma store_digits_top:
  "i < length ds \<Longrightarrow> store_digits j ds ! (j - length ds + i) = word_of_nat (rev ds ! i)"
  using nth_append_length_plus [of "replicate (j - length ds) 0" "map word_of_nat (rev ds)" i]
  by (simp add: store_digits_def)

lemma drop_store_digits: "drop (j - length ds) (store_digits j ds) = map word_of_nat (rev ds)"
  by (simp add: store_digits_def)

lemma carry_loop_mac:
  assumes "2 \<le> b" "b \<le> 256" "0 < m" "m * b < 2 ^ 32"
  shows "carry < m \<Longrightarrow> used - consumed = length xs \<Longrightarrow> \<forall>x \<in> set xs. x < b \<Longrightarrow> length xs \<le> j \<Longrightarrow>
     length (mac b m xs carry) \<le> j \<Longrightarrow>
     carry_loop b m used j carry consumed (store_digits j xs @ rest) =
       (store_digits j (mac b m xs carry) @ rest, consumed + length (mac b m xs carry))"
proof (induction j arbitrary: xs carry consumed rest)
  case 0
  then show ?case by simp
next
  case (Suc j)
  show ?case
  proof (cases xs)
    case Nil
    show ?thesis
    proof (cases "carry = 0")
      case True
      then show ?thesis using Suc.prems Nil by (simp add: mac_Nil)
    next
      case False
      then have mac: "mac b m [] carry = carry mod b # mac b m [] (carry div b)"
        using assms(1) by (simp add: mac.simps(2))
      have small: "carry mod 2 ^ 32 = carry"
      proof -
        have "carry < m * b" using Suc.prems(1) assms(1)
          by (metis less_le_trans mult_le_mono2 nat_mult_1_right numeral_le_one_iff order_trans one_le_numeral)
        then show ?thesis using assms(4) by simp
      qed
      have "carry_loop b m used j (carry div b) (consumed + 1) (store_digits j [] @ word_of_nat (carry mod b) # rest)
        = (store_digits j (mac b m [] (carry div b)) @ word_of_nat (carry mod b) # rest,
           consumed + 1 + length (mac b m [] (carry div b)))"
        using Suc.prems Nil mac by (intro Suc.IH) (auto intro: le_less_trans [OF div_le_dividend])
      moreover have "(store_digits (Suc j) [] @ rest)[j := word_of_nat (carry mod b)]
          = store_digits j [] @ word_of_nat (carry mod b) # rest"
        by (simp add: store_digits_Nil replicate_append_same [symmetric] list_update_append)
      moreover have "(store_digits (Suc j) [] @ rest) ! j = 0"
        by (simp add: store_digits_Nil nth_append del: replicate.simps)
      ultimately show ?thesis using False Nil mac small
        by (simp add: Let_def store_digits_Suc)
    qed
  next
    case (Cons x xs')
    have x: "x < b" and unx: "unat (word_of_nat x :: byte) = x"
      using Suc.prems(3) Cons assms(2) by (simp_all add: unat_of_nat)
    have bound: "m * x + carry < m * b"
    proof -
      have "m * (x + 1) \<le> m * b" using x by (intro mult_le_mono2) simp
      then show ?thesis using Suc.prems(1) by simp
    qed
    then have small: "(carry + m * x) mod 2 ^ 32 = m * x + carry" using assms(4) by simp
    have cells: "(store_digits (Suc j) xs @ rest) ! j = word_of_nat x"
      "(store_digits (Suc j) xs @ rest)[j := v] = store_digits j xs' @ v # rest" for v
      using Suc.prems(4) length_store_digits [of xs' j]
      by (simp_all add: Cons store_digits_Suc nth_append list_update_append)
    have "carry_loop b m used j ((m * x + carry) div b) (consumed + 1)
        (store_digits j xs' @ word_of_nat ((m * x + carry) mod b) # rest)
      = (store_digits j (mac b m xs' ((m * x + carry) div b)) @ word_of_nat ((m * x + carry) mod b) # rest,
         consumed + 1 + length (mac b m xs' ((m * x + carry) div b)))"
      using Suc.prems Cons bound
      by (intro Suc.IH) (auto simp: less_mult_imp_div_less)
    moreover have "consumed < used" using Suc.prems(2) Cons by simp
    ultimately show ?thesis using Cons cells small unx
      by (simp add: Let_def store_digits_Suc)
  qed
qed

section \<open>The conversions\<close>

lemma value_of_rev_Cons: "value_of b (rev (d # ds)) = value_of b (rev ds) + b ^ length ds * d"
  by (simp add: value_of_append)

definition be_value :: "nat \<Rightarrow> nat list \<Rightarrow> nat \<Rightarrow> nat" where
  "be_value m ds n = fold (\<lambda>d n. m * n + d) ds n"

lemma be_value_Cons: "be_value m (d # ds) n = be_value m ds (m * n + d)"
  by (simp add: be_value_def)

lemma be_value_eq: "be_value m ds n = m ^ length ds * n + value_of m (rev ds)"
  by (induction ds arbitrary: n) (simp_all add: be_value_def value_of_append algebra_simps)

lemma be_value_mono: "0 < m \<Longrightarrow> n \<le> be_value m ds n"
  by (simp add: be_value_eq trans_le_add1)

lemma carry_loop_digits:
  assumes "2 \<le> b" "b \<le> 256" "0 < m" "m * b < 2 ^ 32" "c < m" "m * n + c < b ^ S"
  shows "carry_loop b m (length (digits_of b n)) S c 0 (store_digits S (digits_of b n)) =
     (store_digits S (digits_of b (m * n + c)), length (digits_of b (m * n + c)))"
proof -
  have "n \<le> m * n" using assms(3) by simp
  then have "n < b ^ S" using assms(6) by linarith
  then have "length (digits_of b n) \<le> S" "length (digits_of b (m * n + c)) \<le> S"
    using length_digits_of [OF assms(1)] assms(6) by simp_all
  then show ?thesis
    using carry_loop_mac [OF assms(1-4), of c "length (digits_of b n)" 0 "digits_of b n" S "[]"] assms(5)
      digits_of_less [OF assms(1), of _ n] by (simp add: mac_digits [OF assms(1,3)])
qed

lemma encode_bytes_digits:
  "be_value 256 (map unat bs) n < 58 ^ S \<Longrightarrow>
   encode_bytes S bs (store_digits S (digits_of 58 n), length (digits_of 58 n)) =
     (store_digits S (digits_of 58 (be_value 256 (map unat bs) n)),
      length (digits_of 58 (be_value 256 (map unat bs) n)))"
proof (induction bs arbitrary: n)
  case Nil
  show ?case by (simp add: be_value_def)
next
  case (Cons b bs)
  then have "256 * n + unat b < 58 ^ S"
    using be_value_mono [of 256 "256 * n + unat b" "map unat bs"] by (simp add: be_value_Cons)
  then have "carry_loop 58 256 (length (digits_of 58 n)) S (unat b) 0 (store_digits S (digits_of 58 n)) =
     (store_digits S (digits_of 58 (256 * n + unat b)), length (digits_of 58 (256 * n + unat b)))"
    by (intro carry_loop_digits) (simp_all add: unat_byte)
  with Cons show ?case by (simp add: encode_carry_eq be_value_Cons)
qed

lemma decode_chars_digits:
  "\<forall>c \<in> set cs. g_reverse c < 58 \<Longrightarrow> be_value 58 (map (\<lambda>c. unat (g_reverse c)) cs) n < 256 ^ S \<Longrightarrow>
   decode_chars S cs (store_digits S (digits_of 256 n), length (digits_of 256 n)) =
     Inr (store_digits S (digits_of 256 (be_value 58 (map (\<lambda>c. unat (g_reverse c)) cs) n)),
          length (digits_of 256 (be_value 58 (map (\<lambda>c. unat (g_reverse c)) cs) n)))"
proof (induction cs arbitrary: n)
  case Nil
  show ?case by (simp add: be_value_def)
next
  case (Cons c cs)
  then have "58 * n + unat (g_reverse c) < 256 ^ S"
    using be_value_mono [of 58 "58 * n + unat (g_reverse c)" "map (\<lambda>c. unat (g_reverse c)) cs"]
    by (simp add: be_value_Cons)
  moreover have "unat (g_reverse c) < 58" using Cons.prems(1) by (simp add: word_less_nat_alt)
  ultimately have "carry_loop 256 58 (length (digits_of 256 n)) S (unat (g_reverse c)) 0
      (store_digits S (digits_of 256 n)) =
     (store_digits S (digits_of 256 (58 * n + unat (g_reverse c))),
      length (digits_of 256 (58 * n + unat (g_reverse c))))"
    by (intro carry_loop_digits) simp_all
  moreover have "g_reverse c \<noteq> 0xFF" using Cons.prems(1) by auto
  ultimately show ?case using Cons by (simp add: decode_carry_eq be_value_Cons Let_def)
qed

lemma decode_chars_bad:
  "\<exists>c \<in> set cs. g_reverse c = 0xFF \<Longrightarrow> decode_chars S cs (cells, used) = Inl IDX_ERR_PARSE"
proof (induction cs arbitrary: cells used)
  case (Cons c cs)
  then show ?case
    by (cases "decode_carry used S (unat (g_reverse c)) 0 cells") (auto simp: Let_def)
qed simp

text \<open>The reverse table inverts the alphabet and marks everything else.\<close>

lemma alphabet_distinct: "distinct k_alphabet" "length k_alphabet = 58"
  by (simp_all add: k_alphabet_def)

lemma g_reverse_alphabet: "i < 58 \<Longrightarrow> g_reverse (k_alphabet ! i) = word_of_nat i"
  using reverse_table_nth [of k_alphabet 58]
  by (simp add: alphabet_distinct g_reverse_def ensure_reverse_table_def reverse_table_def)

lemma g_reverse_other: "c \<notin> set k_alphabet \<Longrightarrow> g_reverse c = 0xFF"
  using reverse_table_nth [of k_alphabet 58]
  by (simp add: alphabet_distinct g_reverse_def ensure_reverse_table_def reverse_table_def)

lemma g_reverse_in:
  "c \<in> set k_alphabet \<Longrightarrow> unat (g_reverse c) < 58 \<and> k_alphabet ! unat (g_reverse c) = c"
  by (auto simp: in_set_conv_nth alphabet_distinct g_reverse_alphabet unat_of_nat)

section \<open>What the conversions compute\<close>

lemma encoded_max_enough: "(n :: nat) < 256 ^ len \<Longrightarrow> n < 58 ^ idx_base58_encoded_max len"
proof -
  assume n: "n < 256 ^ len"
  let ?s = "idx_base58_encoded_max len"
  have "((256 :: nat) ^ len) ^ 100 = (256 ^ 100) ^ len" by (simp only: power_mult [symmetric] mult.commute)
  also have "\<dots> \<le> (58 ^ 138) ^ len" by (intro power_mono) simp_all
  also have "\<dots> = 58 ^ (138 * len)" by (simp only: power_mult)
  also have "\<dots> < 58 ^ (?s * 100)"
    unfolding idx_base58_encoded_max_def by (intro power_strict_increasing) (simp_all add: algebra_simps)
  also have "\<dots> = (58 ^ ?s) ^ 100" by (simp only: power_mult)
  finally have "(256 :: nat) ^ len < 58 ^ ?s" by (rule power_less_imp_less_base) simp
  with n show "n < 58 ^ ?s" by simp
qed

definition acquired :: "bool \<Rightarrow> nat \<Rightarrow> bool" where
  "acquired calloc_ok n \<longleftrightarrow> n \<le> IDX_BASE58_STACK_SCRATCH \<or> calloc_ok"

lemma scratch_acquire_eq: "scratch_acquire calloc_ok n =
    (if acquired calloc_ok n then Inr (store_digits n (digits_of b 0)) else Inl IDX_ERR_NO_MEMORY)"
  by (simp add: scratch_acquire_def acquired_def store_digits_Nil)

abbreviation "zeros bs \<equiv> length (takeWhile (\<lambda>b. b = 0) bs)"
abbreviation "ones t \<equiv> length (takeWhile (\<lambda>c. c = CHR ''1'') t)"

definition number_of_bytes :: "bytes \<Rightarrow> nat" where
  "number_of_bytes bs = value_of 256 (rev (map unat bs))"

definition number_of_text :: "string \<Rightarrow> nat" where
  "number_of_text t = value_of 58 (rev (map (\<lambda>c. unat (g_reverse c)) t))"

definition text58 :: "bytes \<Rightarrow> string" where
  "text58 bs = replicate (zeros bs) CHR ''1'' @
     map ((!) k_alphabet) (rev (digits_of 58 (number_of_bytes (drop (zeros bs) bs))))"

definition bytes58 :: "string \<Rightarrow> bytes" where
  "bytes58 t = replicate (ones t) 0 @
     map word_of_nat (rev (digits_of 256 (number_of_text (drop (ones t) t))))"

lemma number_of_bytes_bound: "number_of_bytes bs < 256 ^ length bs"
  using value_of_bound [of "rev (map unat bs)" 256] unat_byte by (auto simp: number_of_bytes_def)

lemma number_of_bytes_length: "length (digits_of 58 (number_of_bytes bs)) \<le> idx_base58_encoded_max (length bs)"
  by (intro length_digits_of encoded_max_enough number_of_bytes_bound) simp

lemma encoded_max_drop: "z \<le> len \<Longrightarrow> z + idx_base58_encoded_max (len - z) \<le> idx_base58_encoded_max len"
  by (auto simp: idx_base58_encoded_max_def)

lemma length_text58: "length (text58 bs) \<le> idx_base58_encoded_max (length bs)"
proof -
  have z: "zeros bs \<le> length bs" by (rule length_takeWhile_le)
  have "length (text58 bs) = zeros bs + length (digits_of 58 (number_of_bytes (drop (zeros bs) bs)))"
    by (simp add: text58_def)
  also have "\<dots> \<le> zeros bs + idx_base58_encoded_max (length bs - zeros bs)"
    using number_of_bytes_length [of "drop (zeros bs) bs"] by simp
  finally show ?thesis using encoded_max_drop [OF z] by simp
qed

lemma encode_eq:
  "idx_base58_encode calloc_ok bs out_size =
     (if \<not> acquired calloc_ok (idx_base58_encoded_max (length bs)) then Inl IDX_ERR_NO_MEMORY
      else if out_size < length (text58 bs) + 1 then Inl IDX_ERR_RANGE
      else Inr (text58 bs))"
proof -
  let ?S = "idx_base58_encoded_max (length bs)" and ?rest = "drop (zeros bs) bs"
  let ?ds = "digits_of 58 (number_of_bytes ?rest)"
  have "be_value 256 (map unat ?rest) 0 = number_of_bytes ?rest"
    by (simp add: be_value_eq number_of_bytes_def)
  moreover have "number_of_bytes ?rest < 58 ^ ?S"
  proof (rule encoded_max_enough)
    have "number_of_bytes ?rest < 256 ^ (length bs - zeros bs)"
      using number_of_bytes_bound [of ?rest] by simp
    also have "(256 :: nat) ^ (length bs - zeros bs) \<le> 256 ^ length bs" by (intro power_increasing) simp_all
    finally show "number_of_bytes ?rest < 256 ^ length bs" .
  qed
  ultimately have loop: "encode_bytes ?S ?rest (store_digits ?S (digits_of 58 0), 0)
      = (store_digits ?S ?ds, length ?ds)" and len: "length ?ds \<le> ?S"
    using encode_bytes_digits [of ?rest 0 ?S] by (simp_all add: length_digits_of)
  have "map (\<lambda>i. k_alphabet ! unat (store_digits ?S ?ds ! (?S - length ?ds + i))) [0..<length ?ds]
      = map (\<lambda>i. k_alphabet ! (rev ?ds ! i)) [0..<length ?ds]"
  proof (rule map_cong [OF refl])
    fix i assume i: "i \<in> set [0..<length ?ds]"
    then have "rev ?ds ! i \<in> set ?ds" using nth_mem [of i "rev ?ds"] by simp
    then have "rev ?ds ! i < 58" using digits_of_less [of 58] by simp
    moreover have "store_digits ?S ?ds ! (?S - length ?ds + i) = word_of_nat (rev ?ds ! i)"
      using i by (intro store_digits_top) simp
    ultimately show "k_alphabet ! unat (store_digits ?S ?ds ! (?S - length ?ds + i)) = k_alphabet ! (rev ?ds ! i)"
      by (simp add: unat_of_nat)
  qed
  also have "\<dots> = map ((!) k_alphabet) (map ((!) (rev ?ds)) [0..<length (rev ?ds)])" by simp
  also have "\<dots> = map ((!) k_alphabet) (rev ?ds)" by (simp only: map_nth)
  finally show ?thesis using loop
    by (simp add: idx_base58_encode_def Let_def scratch_acquire_eq [where b = 58] text58_def)
qed

definition valid58 :: "string \<Rightarrow> bool" where
  "valid58 t \<longleftrightarrow> set t \<subseteq> set k_alphabet"

lemma g_reverse_less: "c \<in> set k_alphabet \<Longrightarrow> g_reverse c < 58"
  using g_reverse_in by (simp add: word_less_nat_alt)

lemma number_of_text_bound: "valid58 t \<Longrightarrow> number_of_text t < 58 ^ length t"
  using value_of_bound [of "rev (map (\<lambda>c. unat (g_reverse c)) t)" 58] g_reverse_in
  by (auto simp: number_of_text_def valid58_def)

lemma number_of_text_bytes: "valid58 t \<Longrightarrow> length t \<le> n \<Longrightarrow> number_of_text t < 256 ^ n"
proof -
  assume "valid58 t" and n: "length t \<le> n"
  then have "number_of_text t < 58 ^ length t" using number_of_text_bound by blast
  also have "(58 :: nat) ^ length t \<le> 256 ^ length t" by (intro power_mono) simp_all
  also have "(256 :: nat) ^ length t \<le> 256 ^ n" using n by (intro power_increasing) simp_all
  finally show "number_of_text t < 256 ^ n" .
qed

lemma valid58_drop: "valid58 t \<Longrightarrow> valid58 (drop n t)"
  by (auto simp: valid58_def dest: in_set_dropD)

lemma invalid58_drop: "\<not> valid58 t \<Longrightarrow> \<exists>c \<in> set (drop (ones t) t). g_reverse c = 0xFF"
proof -
  assume "\<not> valid58 t"
  then obtain c where c: "c \<in> set t" "c \<notin> set k_alphabet" by (auto simp: valid58_def)
  have "t = takeWhile (\<lambda>c. c = CHR ''1'') t @ drop (ones t) t"
    by (metis dropWhile_eq_drop takeWhile_dropWhile_id)
  then have "c \<in> set (takeWhile (\<lambda>c. c = CHR ''1'') t) \<or> c \<in> set (drop (ones t) t)"
    using c(1) by (metis Un_iff set_append)
  moreover have "CHR ''1'' \<in> set k_alphabet" by (simp add: k_alphabet_def)
  ultimately show ?thesis using c(2) g_reverse_other by (auto dest: set_takeWhileD)
qed

lemma decode_eq:
  "idx_base58_decode calloc_ok (Some t) out_size =
     (if \<not> acquired calloc_ok (length t) then Inl IDX_ERR_NO_MEMORY
      else if \<not> valid58 t then Inl IDX_ERR_PARSE
      else if out_size < length (bytes58 t) then Inl IDX_ERR_RANGE
      else Inr (bytes58 t))"
proof (cases "valid58 t")
  case False
  then show ?thesis using decode_chars_bad [OF invalid58_drop [OF False]]
    by (simp add: Let_def scratch_acquire_eq [where b = 256] idx_base58_decoded_max_def)
next
  case True
  let ?rest = "drop (ones t) t"
  let ?ds = "digits_of 256 (number_of_text ?rest)"
  have "be_value 58 (map (\<lambda>c. unat (g_reverse c)) ?rest) 0 = number_of_text ?rest"
    by (simp add: be_value_eq number_of_text_def)
  moreover have small: "number_of_text ?rest < 256 ^ length t"
    using True by (intro number_of_text_bytes valid58_drop) simp_all
  moreover have "\<forall>c \<in> set ?rest. g_reverse c < 58"
    using valid58_drop [OF True, of "ones t"] g_reverse_less by (auto simp: valid58_def)
  ultimately have "decode_chars (length t) ?rest (store_digits (length t) (digits_of 256 0), 0)
      = Inr (store_digits (length t) ?ds, length ?ds)"
    using decode_chars_digits [of ?rest 0 "length t"] by simp
  then show ?thesis using True
    by (simp add: Let_def scratch_acquire_eq [where b = 256] idx_base58_decoded_max_def bytes58_def
        drop_store_digits)
qed

section \<open>Round trips\<close>

lemma takeWhile_replicate: "length (takeWhile (\<lambda>x. x = a) (replicate n a @ xs)) = n + length (takeWhile (\<lambda>x. x = a) xs)"
  by (induction n) simp_all

lemma alphabet_one: "i < 58 \<Longrightarrow> k_alphabet ! i = CHR ''1'' \<longleftrightarrow> i = 0"
proof -
  have "k_alphabet ! 0 = CHR ''1''" by (simp add: k_alphabet_def)
  then show "i < 58 \<Longrightarrow> ?thesis" using alphabet_distinct nth_eq_iff_index_eq [of k_alphabet i 0] by auto
qed

text \<open>A list is its leading run of \<open>a\<close> followed by a rest that does not start with \<open>a\<close>.\<close>

lemma leading_run:
  obtains n rest where "xs = replicate n a @ rest" "rest = [] \<or> hd rest \<noteq> a"
    "length (takeWhile (\<lambda>x. x = a) xs) = n" "drop (length (takeWhile (\<lambda>x. x = a) xs)) xs = rest"
proof
  let ?n = "length (takeWhile (\<lambda>x. x = a) xs)"
  have "takeWhile (\<lambda>x. x = a) xs = replicate ?n a"
    by (metis (mono_tags, lifting) replicate_length_same set_takeWhileD)
  then show "xs = replicate ?n a @ drop ?n xs"
    by (metis (no_types, lifting) dropWhile_eq_drop takeWhile_dropWhile_id)
  show "drop ?n xs = [] \<or> hd (drop ?n xs) \<noteq> a"
    by (metis (mono_tags, lifting) dropWhile_eq_drop hd_dropWhile)
qed simp_all

lemma run_split:
  "rest = [] \<or> hd rest \<noteq> a \<Longrightarrow>
   length (takeWhile (\<lambda>x. x = a) (replicate n a @ rest)) = n"
  by (cases rest) (simp_all add: takeWhile_replicate)

lemma digits_head:
  "2 \<le> b \<Longrightarrow> digits_of b n = [] \<or> hd (rev (digits_of b n)) \<noteq> 0"
  using digits_of_last [of b n] by (cases "n = 0") (simp_all add: hd_rev)

lemma digits_of_rev_value:
  assumes "2 \<le> b" "\<forall>d \<in> set ds. d < b" "ds = [] \<or> hd ds \<noteq> 0"
  shows "rev (digits_of b (value_of b (rev ds))) = ds"
  using digits_of_value [OF assms(1), of "rev ds"] assms(2,3) by (simp add: last_rev)

lemma bytes58_text58: "valid58 (text58 bs) \<and> bytes58 (text58 bs) = bs"
proof -
  obtain z rest where bs: "bs = replicate z 0 @ rest" and hd: "rest = [] \<or> hd rest \<noteq> 0"
    and z: "zeros bs = z" and rest: "drop (zeros bs) bs = rest" by (rule leading_run)
  define ds where "ds = rev (digits_of 58 (number_of_bytes rest))"
  have less: "\<forall>d \<in> set ds. d < 58" using digits_of_less [of 58] by (auto simp: ds_def)
  have enc: "text58 bs = replicate z CHR ''1'' @ map ((!) k_alphabet) ds"
    unfolding text58_def rest unfolding z ds_def by simp
  have "ds = [] \<or> hd ds \<noteq> 0" using digits_head [of 58] by (auto simp: ds_def)
  then have "map ((!) k_alphabet) ds = [] \<or> hd (map ((!) k_alphabet) ds) \<noteq> CHR ''1''"
    using less by (cases ds) (simp_all add: alphabet_one)
  then have ones: "ones (text58 bs) = z" unfolding enc by (rule run_split)
  have "number_of_text (map ((!) k_alphabet) ds) = value_of 58 (rev ds)"
  proof -
    have "map (\<lambda>c. unat (g_reverse c)) (map ((!) k_alphabet) ds) = ds"
      unfolding map_map using less by (intro map_idI) (fastforce simp: g_reverse_alphabet unat_of_nat)
    then show ?thesis by (simp only: number_of_text_def)
  qed
  also have "\<dots> = number_of_bytes rest" by (simp add: ds_def value_digits_of)
  finally have num: "number_of_text (drop (ones (text58 bs)) (text58 bs)) = number_of_bytes rest"
    unfolding ones by (simp add: enc)
  have "rev (digits_of 256 (number_of_bytes rest)) = map unat rest"
    unfolding number_of_bytes_def
  proof (rule digits_of_rev_value)
    show "map unat rest = [] \<or> hd (map unat rest) \<noteq> 0" using hd by (cases rest) (simp_all add: unat_eq_0)
  qed (auto simp: unat_byte)
  then have "bytes58 (text58 bs) = bs"
    unfolding bytes58_def num unfolding ones by (simp add: bs map_idI)
  moreover have "valid58 (text58 bs)"
    using less alphabet_distinct by (auto simp: valid58_def enc) (simp add: k_alphabet_def)
  ultimately show ?thesis by simp
qed

lemma text58_bytes58:
  assumes "valid58 t"
  shows "text58 (bytes58 t) = t"
proof -
  obtain o1 rest where t: "t = replicate o1 CHR ''1'' @ rest" and hd: "rest = [] \<or> hd rest \<noteq> CHR ''1''"
    and o1: "ones t = o1" and rest: "drop (ones t) t = rest" by (rule leading_run)
  define ds where "ds = rev (digits_of 256 (number_of_text rest))"
  have less: "\<forall>d \<in> set ds. d < 256" using digits_of_less [of 256] by (auto simp: ds_def)
  have dec: "bytes58 t = replicate o1 0 @ map word_of_nat ds"
    unfolding bytes58_def rest unfolding o1 ds_def by simp
  have "ds = [] \<or> hd ds \<noteq> 0" using digits_head [of 256] by (auto simp: ds_def)
  then have "map word_of_nat ds = [] \<or> hd (map word_of_nat ds) \<noteq> (0 :: byte)"
    using less by (cases ds) (auto simp: unat_eq_0 [symmetric] unat_of_nat)
  then have zeros: "zeros (bytes58 t) = o1" unfolding dec by (rule run_split)
  have "number_of_bytes (map word_of_nat ds) = value_of 256 (rev ds)"
  proof -
    have "map unat (map word_of_nat ds :: bytes) = ds"
      unfolding map_map using less by (intro map_idI) (fastforce simp: unat_of_nat)
    then show ?thesis by (simp only: number_of_bytes_def)
  qed
  also have "\<dots> = number_of_text rest" by (simp add: ds_def value_digits_of)
  finally have num: "number_of_bytes (drop (zeros (bytes58 t)) (bytes58 t)) = number_of_text rest"
    unfolding zeros by (simp add: dec)
  have valid: "c \<in> set rest \<Longrightarrow> c \<in> set k_alphabet" for c
    using assms by (auto simp: valid58_def t)
  have "rev (digits_of 58 (number_of_text rest)) = map (\<lambda>c. unat (g_reverse c)) rest"
    unfolding number_of_text_def
  proof (rule digits_of_rev_value)
    show "map (\<lambda>c. unat (g_reverse c)) rest = [] \<or> hd (map (\<lambda>c. unat (g_reverse c)) rest) \<noteq> 0"
    proof (cases rest)
      case (Cons c cs)
      then have "c \<noteq> CHR ''1''" "k_alphabet ! unat (g_reverse c) = c"
        using hd g_reverse_in [of c] valid [of c] by auto
      then have "unat (g_reverse c) \<noteq> 0" by (metis alphabet_one zero_less_numeral)
      then show ?thesis using Cons by simp
    qed simp
  qed (use valid g_reverse_in in auto)
  then show ?thesis
    unfolding text58_def num unfolding zeros using valid g_reverse_in by (simp add: t cong: map_cong)
qed

section \<open>Properties\<close>

text \<open>
  Base58 is a bijection between byte strings and texts over the alphabet. What the
  encoder writes decodes back to the same bytes, leading zeros included, and what the
  decoder accepts encodes back to the same text.
\<close>

theorem base58_roundtrip:
  assumes "length bs \<le> n" and "length t < m"
  shows "(idx_base58_encode True bs m' = Inr t' \<longrightarrow> idx_base58_decode True (Some t') n = Inr bs) \<and>
         (idx_base58_decode True (Some t) n' = Inr bs' \<longrightarrow> idx_base58_encode True bs' m = Inr t)"
  using assms bytes58_text58 text58_bytes58
  by (auto simp del: idx_base58_decode.simps simp: encode_eq decode_eq acquired_def split: if_splits)

theorem base58_roundtrip_witness:
  "idx_base58_encode True [0, 255] 8 = Inr ''15Q'' \<and> idx_base58_decode True (Some ''15Q'') 2 = Inr [0, 255]"
proof -
  have enc: "idx_base58_encode True [0, 255] 8 = Inr ''15Q''"
    by (simp add: encode_eq acquired_def text58_def number_of_bytes_def digits_of.simps k_alphabet_def
        idx_base58_encoded_max_def)
  have "length [0, 255 :: byte] \<le> 2" "length ''15Q'' < 8" by simp_all
  from base58_roundtrip [OF this] enc show ?thesis by blast
qed

text \<open>
  The advertised sizes are enough. An array of \<^verbatim>\<open>idx_base58_encoded_max\<close> characters
  plus the terminator holds every encoding, one of \<^verbatim>\<open>idx_base58_decoded_max\<close> bytes every
  decoding, and a decode fails with PARSE exactly on a character outside the alphabet.
\<close>

theorem base58_sizes:
  "(\<exists>t. idx_base58_encode True bs (idx_base58_encoded_max (length bs) + 1) = Inr t) \<and>
   (case idx_base58_decode True (Some t) (idx_base58_decoded_max (length t)) of
      Inr bs \<Rightarrow> set t \<subseteq> set k_alphabet
    | Inl e \<Rightarrow> e = IDX_ERR_PARSE \<and> \<not> set t \<subseteq> set k_alphabet)"
proof -
  have "length (bytes58 t) \<le> length t" if "valid58 t"
  proof -
    have "length (digits_of 256 (number_of_text (drop (ones t) t))) \<le> length t - ones t"
      using that by (intro length_digits_of number_of_text_bytes valid58_drop) simp_all
    then show ?thesis using length_takeWhile_le [of _ t] by (simp add: bytes58_def le_diff_conv2 add.commute)
  qed
  then show ?thesis using length_text58 [of bs]
    by (auto simp del: idx_base58_decode.simps
        simp: encode_eq decode_eq acquired_def valid58_def idx_base58_decoded_max_def)
qed

end
