(* ===== verification/Types.thy ===== *)
theory Types
  imports Base58
begin

text \<open>
  Public keys, signatures and hashes (\<^verbatim>\<open>src/types.c\<close>, \<^verbatim>\<open>include/types.h\<close>). Each is a
  fixed array of bytes, modelled as the list of its bytes; \<open>key_ok\<close> and \<open>signature_ok\<close> say
  that the list has the array's length. A \<^verbatim>\<open>NULL\<close> text or key is \<open>None\<close>.
\<close>

section \<open>Model\<close>

type_synonym idx_pubkey = bytes
type_synonym idx_signature = bytes
type_synonym idx_hash = bytes

definition IDX_PUBKEY_LEN :: nat where "IDX_PUBKEY_LEN = 32"
definition IDX_SIGNATURE_LEN :: nat where "IDX_SIGNATURE_LEN = 64"
definition IDX_HASH_LEN :: nat where "IDX_HASH_LEN = 32"
definition IDX_PUBKEY_STR_MAX :: nat where "IDX_PUBKEY_STR_MAX = 45"
definition IDX_SIGNATURE_STR_MAX :: nat where "IDX_SIGNATURE_STR_MAX = 89"
definition IDX_HASH_STR_MAX :: nat where "IDX_HASH_STR_MAX = 45"

definition IDX_PUBKEY_DEFAULT :: idx_pubkey where
  "IDX_PUBKEY_DEFAULT = replicate IDX_PUBKEY_LEN 0"

definition IDX_PROGRAM_SYSTEM :: idx_pubkey where
  "IDX_PROGRAM_SYSTEM = replicate IDX_PUBKEY_LEN 0"

definition IDX_PROGRAM_TOKEN :: idx_pubkey where
  "IDX_PROGRAM_TOKEN = [
     0x06, 0xdd, 0xf6, 0xe1, 0xd7, 0x65, 0xa1, 0x93, 0xd9, 0xcb, 0xe1,
     0x46, 0xce, 0xeb, 0x79, 0xac, 0x1c, 0xb4, 0x85, 0xed, 0x5f, 0x5b,
     0x37, 0x91, 0x3a, 0x8c, 0xf5, 0x85, 0x7e, 0xff, 0x00, 0xa9]"

definition IDX_PROGRAM_TOKEN_2022 :: idx_pubkey where
  "IDX_PROGRAM_TOKEN_2022 = [
     0x06, 0xdd, 0xf6, 0xe1, 0xee, 0x75, 0x8f, 0xde, 0x18, 0x42, 0x5d,
     0xbc, 0xe4, 0x6c, 0xcd, 0xda, 0xb6, 0x1a, 0xfc, 0x4d, 0x83, 0xb9,
     0x0d, 0x27, 0xfe, 0xbd, 0xf9, 0x28, 0xd8, 0xa1, 0x8b, 0xfc]"

definition IDX_PROGRAM_VOTE :: idx_pubkey where
  "IDX_PROGRAM_VOTE = [
     0x07, 0x61, 0x48, 0x1d, 0x35, 0x74, 0x74, 0xbb, 0x7c, 0x4d, 0x76,
     0x24, 0xeb, 0xd3, 0xbd, 0xb3, 0xd8, 0x35, 0x5e, 0x73, 0xd1, 0x10,
     0x43, 0xfc, 0x0d, 0xa3, 0x53, 0x80, 0x00, 0x00, 0x00, 0x00]"

definition IDX_PROGRAM_MEMO :: idx_pubkey where
  "IDX_PROGRAM_MEMO = [
     0x05, 0x4a, 0x53, 0x5a, 0x99, 0x29, 0x21, 0x06, 0x4d, 0x24, 0xe8,
     0x71, 0x60, 0xda, 0x38, 0x7c, 0x7c, 0x35, 0xb5, 0xdd, 0xbc, 0x92,
     0xbb, 0x81, 0xe4, 0x1f, 0xa8, 0x40, 0x41, 0x05, 0x44, 0x8d]"

definition idx_pubkey_from_bytes :: "bytes \<Rightarrow> idx_pubkey" where
  "idx_pubkey_from_bytes bs = take IDX_PUBKEY_LEN bs"

definition idx_pubkey_equal :: "idx_pubkey \<Rightarrow> idx_pubkey \<Rightarrow> bool" where
  "idx_pubkey_equal a b \<longleftrightarrow> take IDX_PUBKEY_LEN a = take IDX_PUBKEY_LEN b"

definition idx_pubkey_is_default :: "idx_pubkey \<Rightarrow> bool" where
  "idx_pubkey_is_default key = idx_pubkey_equal key IDX_PUBKEY_DEFAULT"

definition idx_pubkey_slice :: "idx_pubkey \<Rightarrow> idx_slice" where
  "idx_pubkey_slice key = idx_slice_make (Some key) IDX_PUBKEY_LEN"

text \<open>
  Keys, signatures and hashes fit the stack scratch of the codec, so the heap outcome passed
  down is irrelevant for the encoders; a decoder may be given a longer text.
\<close>

definition idx_pubkey_from_base58 :: "bool \<Rightarrow> string option \<Rightarrow> idx_pubkey result" where
  "idx_pubkey_from_base58 calloc_ok text = idx_base58_decode_exact calloc_ok text IDX_PUBKEY_LEN"

fun idx_pubkey_to_base58 :: "bool \<Rightarrow> idx_pubkey option \<Rightarrow> string result" where
  "idx_pubkey_to_base58 calloc_ok None = Inl IDX_ERR_INVALID_ARG"
| "idx_pubkey_to_base58 calloc_ok (Some key) =
     idx_base58_encode calloc_ok (idx_pubkey_slice key) IDX_PUBKEY_STR_MAX"

definition idx_signature_from_base58 :: "bool \<Rightarrow> string option \<Rightarrow> idx_signature result" where
  "idx_signature_from_base58 calloc_ok text = idx_base58_decode_exact calloc_ok text IDX_SIGNATURE_LEN"

fun idx_signature_to_base58 :: "bool \<Rightarrow> idx_signature option \<Rightarrow> string result" where
  "idx_signature_to_base58 calloc_ok None = Inl IDX_ERR_INVALID_ARG"
| "idx_signature_to_base58 calloc_ok (Some signature) =
     idx_base58_encode calloc_ok (idx_slice_make (Some signature) IDX_SIGNATURE_LEN) IDX_SIGNATURE_STR_MAX"

definition idx_signature_equal :: "idx_signature \<Rightarrow> idx_signature \<Rightarrow> bool" where
  "idx_signature_equal a b \<longleftrightarrow> take IDX_SIGNATURE_LEN a = take IDX_SIGNATURE_LEN b"

definition idx_hash_from_base58 :: "bool \<Rightarrow> string option \<Rightarrow> idx_hash result" where
  "idx_hash_from_base58 calloc_ok text = idx_base58_decode_exact calloc_ok text IDX_HASH_LEN"

fun idx_hash_to_base58 :: "bool \<Rightarrow> idx_hash option \<Rightarrow> string result" where
  "idx_hash_to_base58 calloc_ok None = Inl IDX_ERR_INVALID_ARG"
| "idx_hash_to_base58 calloc_ok (Some hash) =
     idx_base58_encode calloc_ok (idx_slice_make (Some hash) IDX_HASH_LEN) IDX_HASH_STR_MAX"

definition idx_hash_equal :: "idx_hash \<Rightarrow> idx_hash \<Rightarrow> bool" where
  "idx_hash_equal a b \<longleftrightarrow> take IDX_HASH_LEN a = take IDX_HASH_LEN b"

section \<open>Lengths\<close>

definition key_ok :: "bytes \<Rightarrow> bool" where
  "key_ok k \<longleftrightarrow> length k = IDX_PUBKEY_LEN"

definition signature_ok :: "bytes \<Rightarrow> bool" where
  "signature_ok s \<longleftrightarrow> length s = IDX_SIGNATURE_LEN"

lemma idx_pubkey_equal_iff [spec_simps]: "key_ok a \<Longrightarrow> key_ok b \<Longrightarrow> idx_pubkey_equal a b \<longleftrightarrow> a = b"
  by (simp add: idx_pubkey_equal_def key_ok_def)

lemma decode_exact_length: "idx_base58_decode_exact calloc_ok text n = Inr bs \<Longrightarrow> length bs = n"
  by (auto simp: idx_base58_decode_exact_def idx_try_Inr_iff split: if_splits)

lemma pubkey_from_base58_ok: "idx_pubkey_from_base58 calloc_ok text = Inr k \<Longrightarrow> key_ok k"
  by (simp add: idx_pubkey_from_base58_def key_ok_def decode_exact_length)

lemma signature_from_base58_ok: "idx_signature_from_base58 calloc_ok text = Inr s \<Longrightarrow> signature_ok s"
  by (simp add: idx_signature_from_base58_def signature_ok_def decode_exact_length)

lemma program_key_ok [simp]:
  "key_ok IDX_PROGRAM_SYSTEM" "key_ok IDX_PROGRAM_TOKEN" "key_ok IDX_PROGRAM_TOKEN_2022"
  "key_ok IDX_PROGRAM_VOTE" "key_ok IDX_PROGRAM_MEMO" "key_ok IDX_PUBKEY_DEFAULT"
  by (simp_all add: key_ok_def IDX_PUBKEY_LEN_def IDX_PROGRAM_SYSTEM_def IDX_PROGRAM_TOKEN_def
      IDX_PROGRAM_TOKEN_2022_def IDX_PROGRAM_VOTE_def IDX_PROGRAM_MEMO_def IDX_PUBKEY_DEFAULT_def)

text \<open>A text bound that is tight enough for the fixed string sizes of the header.\<close>

lemma power_drop:
  assumes "(256 :: nat) ^ n \<le> 58 ^ m" "z \<le> n" "n \<le> m"
  shows "(256 :: nat) ^ (n - z) \<le> 58 ^ (m - z)"
proof -
  have "(256 :: nat) ^ (n - z) * 256 ^ z = 256 ^ n" using assms(2) by (simp add: power_add [symmetric])
  also have "\<dots> \<le> 58 ^ m" by (rule assms(1))
  also have "(58 :: nat) ^ m = 58 ^ (m - z) * 58 ^ z" using assms(2,3) by (simp add: power_add [symmetric])
  also have "\<dots> \<le> 58 ^ (m - z) * 256 ^ z" by (intro mult_le_mono2 power_mono) simp_all
  finally show ?thesis by simp
qed

lemma text58_bound:
  assumes "(256 :: nat) ^ length bs \<le> 58 ^ m" "length bs \<le> m"
  shows "length (text58 bs) \<le> m"
proof -
  let ?z = "zeros bs"
  have z: "?z \<le> length bs" by (rule length_takeWhile_le)
  have "number_of_bytes (drop ?z bs) < 256 ^ (length bs - ?z)"
    using number_of_bytes_bound [of "drop ?z bs"] by simp
  also have "\<dots> \<le> 58 ^ (m - ?z)" using power_drop [OF assms(1) z assms(2)] .
  finally have "length (digits_of 58 (number_of_bytes (drop ?z bs))) \<le> m - ?z"
    by (intro length_digits_of) simp_all
  then show ?thesis using z assms(2) by (simp add: text58_def)
qed

lemma exact_roundtrip:
  assumes "(256 :: nat) ^ length bs \<le> 58 ^ m" "length bs \<le> m" "m \<le> 512" "idx_base58_encoded_max (length bs) \<le> 512"
  shows "\<exists>t. idx_base58_encode calloc_ok bs (m + 1) = Inr t \<and> length t \<le> m \<and>
     idx_base58_decode_exact calloc_ok (Some t) (length bs) = Inr bs"
  using text58_bound [OF assms(1,2)] assms(3,4) bytes58_text58 [of bs]
  by (simp add: encode_eq decode_eq acquired_def IDX_BASE58_STACK_SCRATCH_def idx_base58_decode_exact_def
      del: idx_base58_decode.simps)

lemma alphabet_nth:
  "k_alphabet ! 0 = CHR ''1''" "k_alphabet ! 1 = CHR ''2''" "k_alphabet ! Suc 0 = CHR ''2''" "k_alphabet ! 2 = CHR ''3''" "k_alphabet ! 3 = CHR ''4''"
  "k_alphabet ! 4 = CHR ''5''" "k_alphabet ! 5 = CHR ''6''" "k_alphabet ! 6 = CHR ''7''" "k_alphabet ! 7 = CHR ''8''"
  "k_alphabet ! 8 = CHR ''9''" "k_alphabet ! 9 = CHR ''A''" "k_alphabet ! 10 = CHR ''B''" "k_alphabet ! 11 = CHR ''C''"
  "k_alphabet ! 12 = CHR ''D''" "k_alphabet ! 13 = CHR ''E''" "k_alphabet ! 14 = CHR ''F''" "k_alphabet ! 15 = CHR ''G''"
  "k_alphabet ! 16 = CHR ''H''" "k_alphabet ! 17 = CHR ''J''" "k_alphabet ! 18 = CHR ''K''" "k_alphabet ! 19 = CHR ''L''"
  "k_alphabet ! 20 = CHR ''M''" "k_alphabet ! 21 = CHR ''N''" "k_alphabet ! 22 = CHR ''P''" "k_alphabet ! 23 = CHR ''Q''"
  "k_alphabet ! 24 = CHR ''R''" "k_alphabet ! 25 = CHR ''S''" "k_alphabet ! 26 = CHR ''T''" "k_alphabet ! 27 = CHR ''U''"
  "k_alphabet ! 28 = CHR ''V''" "k_alphabet ! 29 = CHR ''W''" "k_alphabet ! 30 = CHR ''X''" "k_alphabet ! 31 = CHR ''Y''"
  "k_alphabet ! 32 = CHR ''Z''" "k_alphabet ! 33 = CHR ''a''" "k_alphabet ! 34 = CHR ''b''" "k_alphabet ! 35 = CHR ''c''"
  "k_alphabet ! 36 = CHR ''d''" "k_alphabet ! 37 = CHR ''e''" "k_alphabet ! 38 = CHR ''f''" "k_alphabet ! 39 = CHR ''g''"
  "k_alphabet ! 40 = CHR ''h''" "k_alphabet ! 41 = CHR ''i''" "k_alphabet ! 42 = CHR ''j''" "k_alphabet ! 43 = CHR ''k''"
  "k_alphabet ! 44 = CHR ''m''" "k_alphabet ! 45 = CHR ''n''" "k_alphabet ! 46 = CHR ''o''" "k_alphabet ! 47 = CHR ''p''"
  "k_alphabet ! 48 = CHR ''q''" "k_alphabet ! 49 = CHR ''r''" "k_alphabet ! 50 = CHR ''s''" "k_alphabet ! 51 = CHR ''t''"
  "k_alphabet ! 52 = CHR ''u''" "k_alphabet ! 53 = CHR ''v''" "k_alphabet ! 54 = CHR ''w''" "k_alphabet ! 55 = CHR ''x''"
  "k_alphabet ! 56 = CHR ''y''" "k_alphabet ! 57 = CHR ''z''"
  by (simp_all add: k_alphabet_def)

lemma program_text:
  assumes "length k = 32" "hd k \<noteq> 0" "digits_of 58 (number_of_bytes k) = ds" "length ds < 45"
  shows "idx_pubkey_to_base58 calloc_ok (Some k) = Inr (map ((!) k_alphabet) (rev ds))"
proof -
  have "zeros k = 0" using assms(1,2) by (cases k) auto
  then have "text58 k = map ((!) k_alphabet) (rev ds)" using assms(3) by (simp add: text58_def)
  then show ?thesis using assms(1,4)
    by (simp add: idx_pubkey_slice_def IDX_PUBKEY_LEN_def encode_eq acquired_def IDX_BASE58_STACK_SCRATCH_def
        idx_base58_encoded_max_def IDX_PUBKEY_STR_MAX_def)
qed

lemma digits_IDX_PROGRAM_TOKEN:
  "digits_of 58 (number_of_bytes IDX_PROGRAM_TOKEN) =
     [9, 12, 4, 23, 28, 2, 1, 5, 50, 25, 8, 38, 53, 10, 52, 29, 11, 30, 14, 22, 18, 15,
      34, 21, 34, 17, 9, 54, 21, 41, 56, 32, 37, 38, 23, 39, 37, 43, 45, 37, 43, 46, 26]"
proof -
  let ?ds = "[9, 12, 4, 23, 28, 2, 1, 5, 50, 25, 8, 38, 53, 10, 52, 29, 11, 30, 14, 22, 18, 15,
      34, 21, 34, 17, 9, 54, 21, 41, 56, 32, 37, 38, 23, 39, 37, 43, 45, 37, 43, 46, 26]"
  have "number_of_bytes IDX_PROGRAM_TOKEN = value_of 58 ?ds"
    by (simp add: number_of_bytes_def IDX_PROGRAM_TOKEN_def)
  moreover have "digits_of 58 (value_of 58 ?ds) = ?ds" by (rule digits_of_value) simp_all
  ultimately show ?thesis by simp
qed

lemma digits_IDX_PROGRAM_TOKEN_2022:
  "digits_of 58 (number_of_bytes IDX_PROGRAM_TOKEN_2022) =
     [34, 13, 52, 55, 22, 47, 13, 30, 11, 48, 10, 45, 16, 22, 0, 11, 19, 14, 22, 13, 5, 25,
      9, 43, 36, 40, 13, 28, 4, 22, 48, 19, 34, 21, 10, 36, 23, 57, 45, 37, 43, 46, 26]"
proof -
  let ?ds = "[34, 13, 52, 55, 22, 47, 13, 30, 11, 48, 10, 45, 16, 22, 0, 11, 19, 14, 22, 13, 5, 25,
      9, 43, 36, 40, 13, 28, 4, 22, 48, 19, 34, 21, 10, 36, 23, 57, 45, 37, 43, 46, 26]"
  have "number_of_bytes IDX_PROGRAM_TOKEN_2022 = value_of 58 ?ds"
    by (simp add: number_of_bytes_def IDX_PROGRAM_TOKEN_2022_def)
  moreover have "digits_of 58 (value_of 58 ?ds) = ?ds" by (rule digits_of_value) simp_all
  ultimately show ?thesis by simp
qed

lemma digits_IDX_PROGRAM_VOTE:
  "digits_of 58 (number_of_bytes IDX_PROGRAM_VOTE) =
     [0, 0, 0, 0, 0, 0, 0, 0, 0, 0, 0, 0, 0, 0, 0, 0, 0, 0, 0, 0, 0, 0,
      0, 0, 0, 0, 0, 0, 0, 0, 0, 0, 0, 0, 0, 0, 0, 0, 0, 37, 51, 46, 28]"
proof -
  let ?ds = "[0, 0, 0, 0, 0, 0, 0, 0, 0, 0, 0, 0, 0, 0, 0, 0, 0, 0, 0, 0, 0, 0,
      0, 0, 0, 0, 0, 0, 0, 0, 0, 0, 0, 0, 0, 0, 0, 0, 0, 37, 51, 46, 28]"
  have "number_of_bytes IDX_PROGRAM_VOTE = value_of 58 ?ds"
    by (simp add: number_of_bytes_def IDX_PROGRAM_VOTE_def)
  moreover have "digits_of 58 (value_of 58 ?ds) = ?ds" by (rule digits_of_value) simp_all
  ultimately show ?thesis by simp
qed

lemma digits_IDX_PROGRAM_MEMO:
  "digits_of 58 (number_of_bytes IDX_PROGRAM_MEMO) =
     [49, 16, 35, 38, 44, 15, 19, 12, 39, 30, 48, 11, 29, 56, 20, 55, 29, 35, 21, 50, 56, 26,
      7, 16, 45, 48, 5, 8, 34, 18, 30, 9, 10, 9, 48, 39, 3, 48, 25, 46, 44, 37, 20]"
proof -
  let ?ds = "[49, 16, 35, 38, 44, 15, 19, 12, 39, 30, 48, 11, 29, 56, 20, 55, 29, 35, 21, 50, 56, 26,
      7, 16, 45, 48, 5, 8, 34, 18, 30, 9, 10, 9, 48, 39, 3, 48, 25, 46, 44, 37, 20]"
  have "number_of_bytes IDX_PROGRAM_MEMO = value_of 58 ?ds"
    by (simp add: number_of_bytes_def IDX_PROGRAM_MEMO_def)
  moreover have "digits_of 58 (value_of 58 ?ds) = ?ds" by (rule digits_of_value) simp_all
  ultimately show ?thesis by simp
qed

lemma text_IDX_PROGRAM_TOKEN:
  "idx_pubkey_to_base58 calloc_ok (Some IDX_PROGRAM_TOKEN) = Inr ''TokenkegQfeZyiNwAJbNbGKPFXCWuBvf9Ss623VQ5DA''"
  by (subst program_text [OF _ _ digits_IDX_PROGRAM_TOKEN])
    (simp_all only: alphabet_nth rev.simps append.simps list.map, simp_all add: IDX_PROGRAM_TOKEN_def)

lemma text_IDX_PROGRAM_TOKEN_2022:
  "idx_pubkey_to_base58 calloc_ok (Some IDX_PROGRAM_TOKEN_2022) = Inr ''TokenzQdBNbLqP5VEhdkAS6EPFLC1PHnBqCXEpPxuEb''"
  by (subst program_text [OF _ _ digits_IDX_PROGRAM_TOKEN_2022])
    (simp_all only: alphabet_nth rev.simps append.simps list.map, simp_all add: IDX_PROGRAM_TOKEN_2022_def)

lemma text_IDX_PROGRAM_VOTE:
  "idx_pubkey_to_base58 calloc_ok (Some IDX_PROGRAM_VOTE) = Inr ''Vote111111111111111111111111111111111111111''"
  by (subst program_text [OF _ _ digits_IDX_PROGRAM_VOTE])
    (simp_all only: alphabet_nth rev.simps append.simps list.map, simp_all add: IDX_PROGRAM_VOTE_def)

lemma text_IDX_PROGRAM_MEMO:
  "idx_pubkey_to_base58 calloc_ok (Some IDX_PROGRAM_MEMO) = Inr ''MemoSq4gqABAXKb96qnH8TysNcWxMyWCqXgDLGmfcHr''"
  by (subst program_text [OF _ _ digits_IDX_PROGRAM_MEMO])
    (simp_all only: alphabet_nth rev.simps append.simps list.map, simp_all add: IDX_PROGRAM_MEMO_def)

section \<open>Properties\<close>

text \<open>
  Keys and signatures survive their text form. Every 32-byte key and 64-byte signature
  encodes without error into the fixed-size array of the header, terminator included, and
  parsing that text gives the same bytes back.
\<close>

theorem key_text_roundtrip:
  assumes "key_ok k" and "signature_ok s"
  shows "(\<exists>t. idx_pubkey_to_base58 calloc_ok (Some k) = Inr t \<and> length t < IDX_PUBKEY_STR_MAX \<and>
              idx_pubkey_from_base58 calloc_ok (Some t) = Inr k) \<and>
         (\<exists>t. idx_signature_to_base58 calloc_ok (Some s) = Inr t \<and> length t < IDX_SIGNATURE_STR_MAX \<and>
              idx_signature_from_base58 calloc_ok (Some t) = Inr s)"
proof -
  have "\<exists>t. idx_base58_encode calloc_ok k (44 + 1) = Inr t \<and> length t \<le> 44 \<and>
      idx_base58_decode_exact calloc_ok (Some t) (length k) = Inr k"
    using assms(1) by (intro exact_roundtrip) (simp_all add: key_ok_def IDX_PUBKEY_LEN_def idx_base58_encoded_max_def)
  moreover have "\<exists>t. idx_base58_encode calloc_ok s (88 + 1) = Inr t \<and> length t \<le> 88 \<and>
      idx_base58_decode_exact calloc_ok (Some t) (length s) = Inr s"
    using assms(2) by (intro exact_roundtrip) (simp_all add: signature_ok_def IDX_SIGNATURE_LEN_def idx_base58_encoded_max_def)
  ultimately show ?thesis using assms
    by (auto simp: key_ok_def signature_ok_def idx_pubkey_slice_def idx_pubkey_from_base58_def
        idx_signature_from_base58_def IDX_PUBKEY_LEN_def IDX_SIGNATURE_LEN_def IDX_PUBKEY_STR_MAX_def
        IDX_SIGNATURE_STR_MAX_def less_Suc_eq_le)
qed

theorem key_text_roundtrip_witness:
  "\<exists>t. idx_pubkey_to_base58 False (Some IDX_PROGRAM_TOKEN) = Inr t \<and> length t < IDX_PUBKEY_STR_MAX \<and>
       idx_pubkey_from_base58 False (Some t) = Inr IDX_PROGRAM_TOKEN"
  using key_text_roundtrip [of IDX_PROGRAM_TOKEN "replicate 64 0" False]
  by (simp add: signature_ok_def IDX_SIGNATURE_LEN_def)

text \<open>
  The program ids written as raw bytes are the ones their comments name: each encodes
  to the documented base58 text.
\<close>

theorem program_ids_text:
  "idx_pubkey_to_base58 calloc_ok (Some IDX_PROGRAM_SYSTEM) = Inr ''11111111111111111111111111111111'' \<and>
   idx_pubkey_to_base58 calloc_ok (Some IDX_PROGRAM_TOKEN) = Inr ''TokenkegQfeZyiNwAJbNbGKPFXCWuBvf9Ss623VQ5DA'' \<and>
   idx_pubkey_to_base58 calloc_ok (Some IDX_PROGRAM_TOKEN_2022) = Inr ''TokenzQdBNbLqP5VEhdkAS6EPFLC1PHnBqCXEpPxuEb'' \<and>
   idx_pubkey_to_base58 calloc_ok (Some IDX_PROGRAM_VOTE) = Inr ''Vote111111111111111111111111111111111111111'' \<and>
   idx_pubkey_to_base58 calloc_ok (Some IDX_PROGRAM_MEMO) = Inr ''MemoSq4gqABAXKb96qnH8TysNcWxMyWCqXgDLGmfcHr''"
proof (intro conjI)
  show "idx_pubkey_to_base58 calloc_ok (Some IDX_PROGRAM_SYSTEM) = Inr ''11111111111111111111111111111111''"
  proof -
    have z: "zeros (replicate 32 0 :: bytes) = 32" using takeWhile_replicate [of "0 :: byte" 32 "[]"] by simp
    have "text58 (replicate 32 0) = replicate 32 CHR ''1''" by (simp add: text58_def z number_of_bytes_def)
    also have "\<dots> = ''11111111111111111111111111111111''" by code_simp
    finally show ?thesis
      by (simp add: idx_pubkey_slice_def IDX_PUBKEY_LEN_def encode_eq acquired_def IDX_BASE58_STACK_SCRATCH_def
          idx_base58_encoded_max_def IDX_PUBKEY_STR_MAX_def IDX_PROGRAM_SYSTEM_def)
  qed
qed (rule text_IDX_PROGRAM_TOKEN text_IDX_PROGRAM_TOKEN_2022 text_IDX_PROGRAM_VOTE text_IDX_PROGRAM_MEMO)+

end
