(* ===== verification/Decimal.thy ===== *)
theory Decimal
  imports Base58
begin

text \<open>
  Decimal text, which several components print and parse: the C library's digit test, the
  number a digit string denotes and the text \<^verbatim>\<open>%llu\<close> prints.
\<close>

section \<open>Digits\<close>

definition isdigit :: "char \<Rightarrow> bool" where
  "isdigit c \<longleftrightarrow> 48 \<le> (of_char c :: nat) \<and> (of_char c :: nat) \<le> 57"

definition decimal_value :: "string \<Rightarrow> nat" where
  "decimal_value ds = be_value 10 (map (\<lambda>c. of_char c - 48) ds) 0"

definition decimal :: "nat \<Rightarrow> string" where
  "decimal n = (if n = 0 then ''0'' else map (\<lambda>d. char_of (d + 48)) (rev (digits_of 10 n)))"

lemma decimal_digit: "d < 10 \<Longrightarrow> isdigit (char_of (d + 48)) \<and> of_char (char_of (d + 48) :: char) = (d + 48 :: nat)"
  by (simp add: isdigit_def)

lemma set_decimal: "c \<in> set (decimal n) \<Longrightarrow> isdigit c"
proof -
  assume c: "c \<in> set (decimal n)"
  show ?thesis
  proof (cases "n = 0")
    case True
    then show ?thesis using c by (simp add: decimal_def isdigit_def)
  next
    case False
    then obtain d where d: "d \<in> set (digits_of 10 n)" "c = char_of (d + 48)" using c by (auto simp: decimal_def)
    then have "d < 10" using digits_of_less [of 10 d n] by simp
    then show ?thesis using d(2) decimal_digit by simp
  qed
qed

lemma decimal_nonempty: "decimal n \<noteq> []"
  using digits_of_last [of 10 n] by (auto simp: decimal_def)

lemma decimal_value_decimal: "decimal_value (decimal n) = n"
proof (cases "n = 0")
  case True
  then show ?thesis by (simp add: decimal_value_def decimal_def be_value_def)
next
  case False
  have "map (\<lambda>c. of_char c - 48 :: nat) (map (\<lambda>d. char_of (d + 48)) (rev (digits_of 10 n))) = rev (digits_of 10 n)"
    unfolding map_map
  proof (rule map_idI)
    fix d assume "d \<in> set (rev (digits_of 10 n))"
    then have "d < 10" using digits_of_less [of 10 d n] by simp
    then show "((\<lambda>c. of_char c - 48 :: nat) \<circ> (\<lambda>d. char_of (d + 48))) d = d" by simp
  qed
  then show ?thesis using False
    by (simp only: decimal_value_def decimal_def if_False be_value_eq rev_rev_ident) (simp add: value_digits_of)
qed

lemma length_decimal: "n < 2 ^ 64 \<Longrightarrow> length (decimal n) \<le> 20"
  using length_digits_of [of 10 n 20] by (simp add: decimal_def)

end
