(* ===== verification/SlotCursor.thy ===== *)
theory SlotCursor
  imports Types Decimal
begin

text \<open>
  The durable indexing position (\<^verbatim>\<open>src/slot_cursor.c\<close>, \<^verbatim>\<open>include/slot_cursor.h\<close>): the two
  frontiers, the text file that keeps the committed one, and the write-then-rename update.
  The file system keeps, beside what is read under each name, what a crash may leave there;
  \<open>io\<close> says which of the calls that use it fail. C strings are character lists, cut at a NUL where the source reads them as strings.
\<close>

section \<open>State\<close>

record idx_slot_cursor =
  last_indexed :: u64
  last_seen :: u64
  start_slot :: u64
  path :: string

definition IDX_SLOT_CURSOR_LINE_MAX :: nat where "IDX_SLOT_CURSOR_LINE_MAX = 256"
definition IDX_SLOT_CURSOR_PATH_MAX :: nat where "IDX_SLOT_CURSOR_PATH_MAX = 512"

text \<open>
  A file shows its readers some text, and \<open>synced\<close> says that the disk holds just that text; of
  a file that is not synced a crash may leave anything. A directory entry can be undone by a
  crash as well, the directory never being synced: \<open>earlier\<close> keeps what a name stood for.
\<close>

record disk_file =
  shown :: string
  synced :: bool

record file_system =
  files :: "string \<Rightarrow> disk_file option"
  earlier :: "string \<Rightarrow> disk_file option list"

definition read_under :: "file_system \<Rightarrow> string \<Rightarrow> string option" where
  "read_under fs name = map_option shown (files fs name)"

definition remains :: "disk_file option \<Rightarrow> string option \<Rightarrow> bool" where
  "remains entry found = (case entry of
      None \<Rightarrow> found = None
    | Some f \<Rightarrow> if synced f then found = Some (shown f) else found \<noteq> None)"

definition crash_leaves :: "file_system \<Rightarrow> string \<Rightarrow> string option \<Rightarrow> bool" where
  "crash_leaves fs name found = list_ex (\<lambda>entry. remains entry found) (files fs name # earlier fs name)"

text \<open>
  Outcomes of the library calls: each is \<open>True\<close> when the call succeeds. \<open>left_over\<close> is what the
  temporary file holds once one of the calls that write it has failed.
\<close>

record io =
  open_read_ok :: bool
  read_ok :: bool
  open_write_ok :: bool
  puts_ok :: bool
  print_ok :: bool
  flush_ok :: bool
  sync_ok :: bool
  close_ok :: bool
  rename_ok :: bool
  remove_ok :: bool
  left_over :: string

section \<open>Frontiers\<close>

definition idx_slot_cursor_init :: "idx_slot_cursor option \<Rightarrow> u64 \<Rightarrow> idx_slot_cursor option" where
  "idx_slot_cursor_init cursor start = map_option (\<lambda>c.
     \<lparr>last_indexed = IDX_SLOT_NONE, last_seen = IDX_SLOT_NONE, start_slot = start, path = []\<rparr>) cursor"

definition idx_slot_cursor_record_indexed :: "idx_slot_cursor option \<Rightarrow> u64 \<Rightarrow> idx_slot_cursor option" where
  "idx_slot_cursor_record_indexed cursor slot = map_option (\<lambda>c.
     if last_indexed c = IDX_SLOT_NONE \<or> slot > last_indexed c then c\<lparr>last_indexed := slot\<rparr> else c) cursor"

definition idx_slot_cursor_set_indexed :: "idx_slot_cursor option \<Rightarrow> u64 \<Rightarrow> idx_slot_cursor option" where
  "idx_slot_cursor_set_indexed cursor slot = map_option (\<lambda>c. c\<lparr>last_indexed := slot\<rparr>) cursor"

definition idx_slot_cursor_observe :: "idx_slot_cursor option \<Rightarrow> u64 \<Rightarrow> idx_slot_cursor option" where
  "idx_slot_cursor_observe cursor slot = map_option (\<lambda>c.
     if last_seen c = IDX_SLOT_NONE \<or> slot > last_seen c then c\<lparr>last_seen := slot\<rparr> else c) cursor"

definition idx_slot_cursor_resume_slot :: "idx_slot_cursor option \<Rightarrow> u64" where
  "idx_slot_cursor_resume_slot cursor = (case cursor of
      None \<Rightarrow> 0
    | Some c \<Rightarrow> if last_indexed c \<noteq> IDX_SLOT_NONE then last_indexed c + 1 else start_slot c)"

section \<open>Parsing the file\<close>

text \<open>A C string ends at its first NUL.\<close>

definition cstr :: "string \<Rightarrow> string" where
  "cstr = takeWhile (\<lambda>c. of_char c \<noteq> (0 :: nat))"

definition trim_space :: "char \<Rightarrow> bool" where
  "trim_space c \<longleftrightarrow> c = CHR '' '' \<or> c = CHR 0x09 \<or> c = CHR 0x0D \<or> c = CHR 0x0A"

definition trim :: "string \<Rightarrow> string" where
  "trim text = rev (dropWhile trim_space (rev (dropWhile trim_space text)))"

text \<open>\<^verbatim>\<open>isspace\<close> in the C locale also accepts vertical tab and form feed.\<close>

definition isspace :: "char \<Rightarrow> bool" where
  "isspace c \<longleftrightarrow> trim_space c \<or> c = CHR 0x0B \<or> c = CHR 0x0C"

text \<open>
  \<^verbatim>\<open>strtoull\<close> in base ten: the number, whether it was out of range (the number is then
  \<^verbatim>\<open>ULLONG_MAX\<close>), and the text after it; without digits the text is returned whole.
\<close>

definition strtoull :: "string \<Rightarrow> nat \<times> bool \<times> string" where
  "strtoull s =
     (let t = dropWhile isspace s;
          signed = (t \<noteq> [] \<and> (hd t = CHR ''+'' \<or> hd t = CHR ''-''));
          negative = (t \<noteq> [] \<and> hd t = CHR ''-'');
          u = (if signed then tl t else t);
          ds = takeWhile isdigit u
      in if ds = [] then (0, False, s)
         else if decimal_value ds > SIZE_MAX then (SIZE_MAX, True, dropWhile isdigit u)
         else (if negative then (2 ^ 64 - decimal_value ds) mod 2 ^ 64 else decimal_value ds,
               False, dropWhile isdigit u))"

definition parse_slot :: "string \<Rightarrow> u64 result" where
  "parse_slot v =
     (if v = [] then Inl IDX_ERR_PARSE
      else if CHR ''-'' \<in> set v then Inl IDX_ERR_RANGE
      else let (parsed, erange, rest) = strtoull v in
        if erange \<or> word_of_nat parsed = IDX_SLOT_NONE then Inl IDX_ERR_RANGE
        else if rest = v \<or> rest \<noteq> [] then Inl IDX_ERR_PARSE
        else Inr (word_of_nat parsed))"

text \<open>One \<^verbatim>\<open>fgets\<close>: the line it stores and the unread rest; none at the end of the file.\<close>

definition fgets :: "string \<Rightarrow> (string \<times> string) option" where
  "fgets text =
     (if text = [] then None
      else let room = take (IDX_SLOT_CURSOR_LINE_MAX - 1) text;
               n = (if CHR 0x0A \<in> set room then length (takeWhile (\<lambda>c. c \<noteq> CHR 0x0A) room) + 1 else length room)
           in Some (take n text, drop n text))"

text \<open>Whether that read met the end of the file, as \<^verbatim>\<open>feof\<close> reports it.\<close>

definition met_eof :: "string \<Rightarrow> bool" where
  "met_eof text \<longleftrightarrow> length text < IDX_SLOT_CURSOR_LINE_MAX - 1 \<and> CHR 0x0A \<notin> set text"

text \<open>One line of the loop: \<open>latest\<close> is the value found so far.\<close>

definition load_line :: "u64 \<Rightarrow> string \<Rightarrow> bool \<Rightarrow> u64 result" where
  "load_line latest raw eof =
     (let line = cstr raw in
      if CHR 0x0A \<notin> set line \<and> \<not> eof then Inl IDX_ERR_PARSE
      else let content = trim (takeWhile (\<lambda>c. c \<noteq> CHR ''#'') line) in
        if content = [] then Inr latest
        else if CHR ''='' \<notin> set content then Inl IDX_ERR_PARSE
        else let key = trim (takeWhile (\<lambda>c. c \<noteq> CHR ''='') content);
                 v = trim (tl (dropWhile (\<lambda>c. c \<noteq> CHR ''='') content))
             in if key = ''last_indexed'' then parse_slot v else Inl IDX_ERR_PARSE)"

lemma fgets_shorter: "fgets text = Some (line, rest) \<Longrightarrow> length rest < length text"
  by (cases "text") (auto simp: fgets_def Let_def IDX_SLOT_CURSOR_LINE_MAX_def split: if_splits)

function load_lines :: "string \<Rightarrow> u64 \<Rightarrow> u64 result" where
  "load_lines text latest = (case fgets text of
      None \<Rightarrow> Inr latest
    | Some (line, rest) \<Rightarrow> idx_try (load_line latest line (met_eof text)) (load_lines rest))"
  by pat_completeness auto
termination by (relation "measure (\<lambda>(text, _). length text)") (auto dest: fgets_shorter)

declare load_lines.simps [simp del]

text \<open>The status with the cursor left behind; a failed load leaves it as it was.\<close>

fun idx_slot_cursor_load ::
    "file_system \<Rightarrow> io \<Rightarrow> idx_slot_cursor option \<Rightarrow> string option \<Rightarrow> idx_status \<times> idx_slot_cursor option" where
  "idx_slot_cursor_load fs io None p = (IDX_ERR_INVALID_ARG, None)"
| "idx_slot_cursor_load fs io (Some c) None = (IDX_ERR_INVALID_ARG, Some c)"
| "idx_slot_cursor_load fs io (Some c) (Some p) =
     (case read_under fs p of
        None \<Rightarrow> (IDX_ERR_NOT_FOUND, Some c)
      | Some text \<Rightarrow>
          if \<not> open_read_ok io then (IDX_ERR_IO, Some c)
          else case load_lines text IDX_SLOT_NONE of
              Inl st \<Rightarrow> (st, Some c)
            | Inr latest \<Rightarrow> if \<not> read_ok io then (IDX_ERR_IO, Some c)
                          else (IDX_OK, Some (c\<lparr>last_indexed := latest\<rparr>)))"

fun idx_slot_cursor_open ::
    "file_system \<Rightarrow> io \<Rightarrow> idx_slot_cursor option \<Rightarrow> string option \<Rightarrow> u64 \<Rightarrow> idx_status \<times> idx_slot_cursor option" where
  "idx_slot_cursor_open fs io None p start = (IDX_ERR_INVALID_ARG, None)"
| "idx_slot_cursor_open fs io (Some c) p start =
     (let cursor = the (idx_slot_cursor_init (Some c) start) in
      case p of
        None \<Rightarrow> (IDX_OK, Some cursor)
      | Some name \<Rightarrow>
          if name = [] then (IDX_OK, Some cursor)
          else if length name \<ge> IDX_SLOT_CURSOR_PATH_MAX then (IDX_ERR_RANGE, Some cursor)
          else let (st, res) = idx_slot_cursor_load fs io (Some (cursor\<lparr>path := name\<rparr>)) p in
            if st = IDX_ERR_NOT_FOUND then (IDX_OK, res) else (st, res))"

section \<open>Writing the file\<close>

definition cursor_text :: "idx_slot_cursor \<Rightarrow> string" where
  "cursor_text c = ''# solana_c_indexer slot cursor'' @ [CHR 0x0A] @
     (if last_indexed c \<noteq> IDX_SLOT_NONE
      then ''last_indexed = '' @ decimal (unat (last_indexed c)) @ [CHR 0x0A] else [])"

text \<open>The calls of the C library and the system on the file system.\<close>

definition put_file :: "string \<Rightarrow> disk_file option \<Rightarrow> file_system \<Rightarrow> file_system" where
  "put_file name f fs = fs\<lparr>files := (files fs)(name := f)\<rparr>"

definition set_entry :: "string \<Rightarrow> disk_file option \<Rightarrow> file_system \<Rightarrow> file_system" where
  "set_entry name f fs = fs\<lparr>files := (files fs)(name := f),
     earlier := (earlier fs)(name := files fs name # earlier fs name)\<rparr>"

definition rename_file :: "string \<Rightarrow> string \<Rightarrow> file_system \<Rightarrow> file_system" where
  "rename_file old new fs = set_entry old None (set_entry new (files fs old) fs)"

definition remove_file :: "io \<Rightarrow> string \<Rightarrow> file_system \<Rightarrow> file_system" where
  "remove_file io name fs = (if remove_ok io then set_entry name None fs else fs)"

text \<open>
  The steps of a save: its status and the states the file system goes through, a crash being
  possible in each. The text is complete under the temporary name once every call that writes
  it has succeeded, and on the disk once \<^verbatim>\<open>fsync\<close> was called and succeeded.
\<close>

fun save_steps :: "file_system \<Rightarrow> io \<Rightarrow> idx_slot_cursor option \<Rightarrow> idx_status \<times> file_system list" where
  "save_steps fs io None = (IDX_ERR_INVALID_ARG, [])"
| "save_steps fs io (Some c) =
     (if path c = [] then (IDX_OK, [])
      else let tmp = path c @ ''.tmp'' in
        if length tmp \<ge> IDX_SLOT_CURSOR_PATH_MAX + 8 then (IDX_ERR_RANGE, [])
        else if \<not> open_write_ok io then (IDX_ERR_IO, [])
        else let opened = set_entry tmp (Some \<lparr>shown = [], synced = False\<rparr>) fs;
                 printed = (if puts_ok io \<and> last_indexed c \<noteq> IDX_SLOT_NONE then print_ok io else puts_ok io);
                 flushed = (printed \<and> flush_ok io);
                 content = (if flushed then cursor_text c else left_over io);
                 on_disk = (flushed \<and> sync_ok io);
                 closed = put_file tmp (Some \<lparr>shown = content, synced = on_disk\<rparr>) opened;
                 written = [opened, put_file tmp (Some \<lparr>shown = content, synced = False\<rparr>) opened, closed];
                 wrote = (printed \<and> (flush_ok io \<and> sync_ok io) \<and> close_ok io)
             in if \<not> wrote then (IDX_ERR_IO, written @ [remove_file io tmp closed])
                else if \<not> rename_ok io then (IDX_ERR_IO, written @ [remove_file io tmp closed])
                else (IDX_OK, written @ [rename_file tmp (path c) closed]))"

definition idx_slot_cursor_save ::
    "file_system \<Rightarrow> io \<Rightarrow> idx_slot_cursor option \<Rightarrow> idx_status \<times> file_system" where
  "idx_slot_cursor_save fs io cursor = (let (st, states) = save_steps fs io cursor in (st, last (fs # states)))"

section \<open>Round trip\<close>

lemma isdigit_other: "isdigit c \<Longrightarrow> c \<noteq> CHR ''-'' \<and> c \<noteq> CHR ''+'' \<and> c \<noteq> CHR ''#'' \<and> c \<noteq> CHR ''='' \<and>
    c \<noteq> CHR 0x0A \<and> of_char c \<noteq> (0 :: nat) \<and> \<not> trim_space c \<and> \<not> isspace c"
  by (auto simp: isdigit_def trim_space_def isspace_def)

lemma strtoull_digits:
  assumes "\<forall>c \<in> set ds. isdigit c" "ds \<noteq> []" "decimal_value ds \<le> SIZE_MAX"
  shows "strtoull ds = (decimal_value ds, False, [])"
proof -
  have "\<not> isspace (hd ds)" "hd ds \<noteq> CHR ''+''" "hd ds \<noteq> CHR ''-''"
    using assms(1,2) isdigit_other [of "hd ds"] by simp_all
  moreover have "dropWhile isspace ds = ds" using \<open>\<not> isspace (hd ds)\<close> by (cases ds) simp_all
  moreover have tw: "takeWhile isdigit ds = ds" and dw: "dropWhile isdigit ds = []" using assms(1) by simp_all
  ultimately show ?thesis using assms(2,3)
    by (simp add: strtoull_def Let_def tw dw del: takeWhile_eq_all_conv)
qed

lemma parse_slot_decimal: "w \<noteq> IDX_SLOT_NONE \<Longrightarrow> parse_slot (decimal (unat w)) = Inr w"
proof -
  assume w: "w \<noteq> IDX_SLOT_NONE"
  have "strtoull (decimal (unat w)) = (unat w, False, [])"
    using strtoull_digits [of "decimal (unat w)"] set_decimal decimal_nonempty unat_u64 [of w]
    by (simp add: decimal_value_decimal SIZE_MAX_def)
  moreover have "CHR ''-'' \<notin> set (decimal (unat w))" using set_decimal isdigit_other by blast
  ultimately show ?thesis using w decimal_nonempty [of "unat w"] by (simp add: parse_slot_def)
qed

lemma fgets_line:
  assumes "CHR 0x0A \<notin> set l" "length l < 254"
  shows "fgets (l @ CHR 0x0A # rest) = Some (l @ [CHR 0x0A], rest)"
proof -
  let ?t = "l @ CHR 0x0A # rest"
  have "take (256 - 1) ?t = l @ CHR 0x0A # take (254 - length l) rest"
    using assms(2) by (simp add: take_Cons')
  moreover have "takeWhile (\<lambda>c. c \<noteq> CHR 0x0A) (l @ CHR 0x0A # xs) = l" for xs
    using assms(1) by (subst takeWhile_append2) auto
  ultimately have "fgets ?t = Some (take (length l + 1) ?t, drop (length l + 1) ?t)"
    unfolding fgets_def Let_def IDX_SLOT_CURSOR_LINE_MAX_def by (simp only:) simp
  then show ?thesis by simp
qed

lemma load_lines_Nil: "load_lines [] w = Inr w"
  by (subst load_lines.simps) (simp add: fgets_def)

lemma load_lines_line:
  "fgets t = Some (l, r) \<Longrightarrow> load_lines t w = idx_try (load_line w l (met_eof t)) (load_lines r)"
  by (subst load_lines.simps) simp

lemma load_line_header: "load_line w (''# solana_c_indexer slot cursor'' @ [CHR 0x0A]) eof = Inr w"
  by (simp add: load_line_def cstr_def trim_def Let_def)

lemma trim_plain:
  assumes "xs \<noteq> []" "\<not> trim_space (hd xs)" "\<not> trim_space (last xs)" "\<forall>c \<in> set ys. trim_space c"
  shows "trim (xs @ ys) = xs"
proof -
  have "dropWhile trim_space (xs @ ys) = xs @ ys" using assms(1,2) by (cases xs) simp_all
  moreover have "dropWhile trim_space (rev ys @ rev xs) = rev xs"
    using assms(1,3,4) by (subst dropWhile_append2) (auto simp: hd_rev dropWhile_eq_self_iff)
  ultimately show ?thesis by (simp add: trim_def)
qed

lemma load_line_value:
  assumes "w \<noteq> IDX_SLOT_NONE"
  shows "load_line v (''last_indexed = '' @ decimal (unat w) @ [CHR 0x0A]) eof = Inr w"
proof -
  let ?ds = "decimal (unat w)" and ?raw = "''last_indexed = '' @ decimal (unat w) @ [CHR 0x0A]"
  have digit: "c \<in> set ?ds \<Longrightarrow> isdigit c" for c by (rule set_decimal)
  note other = isdigit_other [OF digit]
  have cstr: "cstr ?raw = ?raw" unfolding cstr_def takeWhile_eq_all_conv using other by auto
  have "takeWhile (\<lambda>c. c \<noteq> CHR ''#'') ?raw = ?raw" unfolding takeWhile_eq_all_conv using other by auto
  moreover have "trim ((''last_indexed = '' @ ?ds) @ [CHR 0x0A]) = ''last_indexed = '' @ ?ds"
    using decimal_nonempty [of "unat w"] other [of "last ?ds"] by (intro trim_plain) (auto simp: trim_space_def)
  ultimately have content: "trim (takeWhile (\<lambda>c. c \<noteq> CHR ''#'') ?raw) = ''last_indexed = '' @ ?ds" by simp
  have vee: "trim ('' '' @ ?ds) = ?ds"
    using trim_plain [of ?ds "[]"] decimal_nonempty [of "unat w"] other [of "hd ?ds"] other [of "last ?ds"]
    by (simp add: trim_def trim_space_def)
  have key: "trim ''last_indexed '' = ''last_indexed''" by (simp add: trim_def trim_space_def)
  show ?thesis
    unfolding load_line_def Let_def cstr content
    using vee key parse_slot_decimal [OF assms] by simp
qed

lemma load_cursor_text: "load_lines (cursor_text c) IDX_SLOT_NONE = Inr (last_indexed c)"
proof (cases "last_indexed c = IDX_SLOT_NONE")
  case True
  have "fgets (''# solana_c_indexer slot cursor'' @ CHR 0x0A # []) =
      Some (''# solana_c_indexer slot cursor'' @ [CHR 0x0A], [])" by (rule fgets_line) simp_all
  then show ?thesis using True load_line_header
    by (simp add: cursor_text_def load_lines_line load_lines_Nil)
next
  case False
  let ?l1 = "''# solana_c_indexer slot cursor''" and ?l2 = "''last_indexed = '' @ decimal (unat (last_indexed c))"
  have one: "fgets (?l1 @ CHR 0x0A # ?l2 @ [CHR 0x0A]) = Some (?l1 @ [CHR 0x0A], ?l2 @ [CHR 0x0A])"
    by (rule fgets_line) simp_all
  have "length (decimal (unat (last_indexed c))) \<le> 20"
    using unat_u64 [of "last_indexed c"] by (intro length_decimal) simp
  moreover have "CHR 0x0A \<notin> set (decimal (unat (last_indexed c)))" using set_decimal isdigit_other by blast
  ultimately have two: "fgets (?l2 @ CHR 0x0A # []) = Some (?l2 @ [CHR 0x0A], [])"
    by (intro fgets_line) simp_all
  have ct: "cursor_text c = ?l1 @ CHR 0x0A # ?l2 @ [CHR 0x0A]" using False by (simp add: cursor_text_def)
  have "load_lines (?l2 @ [CHR 0x0A]) IDX_SLOT_NONE = Inr (last_indexed c)"
    using load_lines_line [OF two] load_line_value [OF False] load_lines_Nil by simp
  then show ?thesis unfolding ct load_lines_line [OF one] load_line_header by simp
qed

section \<open>The two frontiers\<close>

datatype cursor_event = Indexed u64 | Seen u64

fun cursor_step :: "cursor_event \<Rightarrow> idx_slot_cursor option \<Rightarrow> idx_slot_cursor option" where
  "cursor_step (Indexed slot) c = idx_slot_cursor_record_indexed c slot"
| "cursor_step (Seen slot) c = idx_slot_cursor_observe c slot"

fun indexed_slots :: "cursor_event list \<Rightarrow> u64 list" where
  "indexed_slots [] = []"
| "indexed_slots (Indexed s # es) = s # indexed_slots es"
| "indexed_slots (Seen s # es) = indexed_slots es"

fun seen_slots :: "cursor_event list \<Rightarrow> u64 list" where
  "seen_slots [] = []"
| "seen_slots (Indexed s # es) = seen_slots es"
| "seen_slots (Seen s # es) = s # seen_slots es"

text \<open>The highest of some slots, or the sentinel when there are none.\<close>

definition frontier :: "u64 \<Rightarrow> u64 list \<Rightarrow> u64" where
  "frontier f slots = fold (\<lambda>s f. if f = IDX_SLOT_NONE \<or> s > f then s else f) slots f"

lemma cursor_steps:
  "fold cursor_step es (Some c) =
     Some (c\<lparr>last_indexed := frontier (last_indexed c) (indexed_slots es),
             last_seen := frontier (last_seen c) (seen_slots es)\<rparr>)"
proof (induction es arbitrary: c)
  case (Cons e es)
  then show ?case
    by (cases e) (simp_all add: frontier_def idx_slot_cursor_record_indexed_def idx_slot_cursor_observe_def)
qed (simp add: frontier_def)

lemma frontier_max:
  "IDX_SLOT_NONE \<notin> set slots \<Longrightarrow> f \<noteq> IDX_SLOT_NONE \<Longrightarrow> frontier f slots = Max (insert f (set slots))"
proof (induction slots arbitrary: f)
  case (Cons s slots)
  have "Max (insert f (set (s # slots))) = Max (insert (max f s) (set slots))"
    by (cases "slots = []") (simp_all add: max.assoc)
  moreover have "(if f = IDX_SLOT_NONE \<or> s > f then s else f) = max f s"
    using Cons.prems by (auto simp: max_def)
  moreover have "max f s \<noteq> IDX_SLOT_NONE" using Cons.prems by (auto simp: max_def)
  ultimately show ?case using Cons by (simp add: frontier_def)
qed (simp add: frontier_def)

lemma frontier_fresh:
  "IDX_SLOT_NONE \<notin> set slots \<Longrightarrow>
   frontier IDX_SLOT_NONE slots = (if slots = [] then IDX_SLOT_NONE else Max (set slots))"
  using frontier_max [of "tl slots" "hd slots"] by (cases slots) (auto simp: frontier_def)

section \<open>Saving\<close>

lemma entries [simp]:
  "files (set_entry a f fs) q = (if q = a then f else files fs q)"
  "earlier (set_entry a f fs) q = (if q = a then files fs a # earlier fs a else earlier fs q)"
  "files (put_file a f fs) q = (if q = a then f else files fs q)"
  "earlier (put_file a f fs) q = earlier fs q"
  by (simp_all add: set_entry_def put_file_def)

lemma renamed [simp]:
  "a \<noteq> b \<Longrightarrow> files (rename_file a b fs) q = (if q = a then None else if q = b then files fs a else files fs q)"
  "a \<noteq> b \<Longrightarrow> earlier (rename_file a b fs) q = (if q = a \<or> q = b then files fs q # earlier fs q else earlier fs q)"
  by (simp_all add: rename_file_def)

lemma removed [simp]:
  "files (remove_file io a fs) q = (if q = a \<and> remove_ok io then None else files fs q)"
  "earlier (remove_file io a fs) q = (if q = a \<and> remove_ok io then files fs a # earlier fs a else earlier fs q)"
  by (simp_all add: remove_file_def)

text \<open>A state in which nothing but the temporary file has changed.\<close>

definition aside :: "string \<Rightarrow> file_system \<Rightarrow> file_system \<Rightarrow> bool" where
  "aside tmp fs s \<longleftrightarrow> (\<forall>q. q \<noteq> tmp \<longrightarrow> files s q = files fs q \<and> earlier s q = earlier fs q)"

lemma aside [simp]:
  "aside tmp fs (set_entry tmp f s) \<longleftrightarrow> aside tmp fs s"
  "aside tmp fs (put_file tmp f s) \<longleftrightarrow> aside tmp fs s"
  "aside tmp fs (remove_file io tmp s) \<longleftrightarrow> aside tmp fs s"
  "aside tmp fs fs"
  by (simp_all add: aside_def)

text \<open>
  Every state of a save but the last leaves all other files alone; a save that succeeds ends
  with the complete and synced file taking the path over.
\<close>

lemma save_steps_states:
  assumes "path c \<noteq> []" and "save_steps fs io (Some c) = (st, states)"
  shows "if st = IDX_OK then \<exists>s before. list_all (aside (path c @ ''.tmp'') fs) (s # before) \<and>
       files s (path c @ ''.tmp'') = Some \<lparr>shown = cursor_text c, synced = True\<rparr> \<and>
       states = before @ [rename_file (path c @ ''.tmp'') (path c) s]
     else list_all (aside (path c @ ''.tmp'') fs) states \<and>
       (states \<noteq> [] \<and> remove_ok io \<longrightarrow> files (last states) (path c @ ''.tmp'') = None)"
proof -
  let ?tmp = "path c @ ''.tmp''"
  let ?o = "set_entry ?tmp (Some \<lparr>shown = [], synced = False\<rparr>) fs"
  let ?s = "put_file ?tmp (Some \<lparr>shown = cursor_text c, synced = True\<rparr>) ?o"
  let ?b = "[?o, put_file ?tmp (Some \<lparr>shown = cursor_text c, synced = False\<rparr>) ?o, ?s]"
  have tmp: "?tmp \<noteq> path c" by simp
  show ?thesis
  proof (cases "st = IDX_OK")
    case True
    then have "states = ?b @ [rename_file ?tmp (path c) ?s]"
      using assms by (auto simp: Let_def split: if_splits)
    moreover have "list_all (aside ?tmp fs) (?s # ?b)" by simp
    ultimately show ?thesis using True by (simp only: if_True simp_thms) (rule exI [of _ ?s], rule exI [of _ ?b], simp)
  next
    case False
    then show ?thesis using assms by (auto simp: Let_def split: if_splits)
  qed
qed

lemma save_steps_ok:
  assumes "path c \<noteq> []"
  shows "fst (save_steps fs io (Some c)) = IDX_OK \<longleftrightarrow> length (path c) < IDX_SLOT_CURSOR_PATH_MAX + 4 \<and>
    open_write_ok io \<and> puts_ok io \<and> (last_indexed c \<noteq> IDX_SLOT_NONE \<longrightarrow> print_ok io) \<and>
    flush_ok io \<and> sync_ok io \<and> close_ok io \<and> rename_ok io"
  using assms by (auto simp: Let_def)

lemma aside_reads:
  "aside (p @ ''.tmp'') fs s \<Longrightarrow> read_under s p = read_under fs p \<and> crash_leaves s p = crash_leaves fs p"
  by (simp add: aside_def read_under_def crash_leaves_def fun_eq_iff)

lemma renamed_reads:
  assumes "aside (p @ ''.tmp'') fs s" "files s (p @ ''.tmp'') = Some \<lparr>shown = t, synced = True\<rparr>"
  defines "s' \<equiv> rename_file (p @ ''.tmp'') p s"
  shows "read_under s' p = Some t" "crash_leaves s' p found \<longleftrightarrow> crash_leaves fs p found \<or> found = Some t"
    "q \<noteq> p \<Longrightarrow> q \<noteq> p @ ''.tmp'' \<Longrightarrow> files s' q = files fs q \<and> earlier s' q = earlier fs q"
    "read_under s' (p @ ''.tmp'') = None"
  using assms(1,2) unfolding s'_def by (auto simp: aside_def read_under_def crash_leaves_def remains_def)

text \<open>What a reader and a crash find in a state of the save.\<close>

definition safe_state :: "idx_slot_cursor \<Rightarrow> file_system \<Rightarrow> file_system \<Rightarrow> bool" where
  "safe_state c fs s \<longleftrightarrow>
     read_under s (path c) \<in> {read_under fs (path c), Some (cursor_text c)} \<and>
     (\<forall>found. crash_leaves s (path c) found \<longrightarrow>
        crash_leaves fs (path c) found \<or> found = Some (cursor_text c)) \<and>
     (\<forall>q. q \<noteq> path c \<and> q \<noteq> path c @ ''.tmp'' \<longrightarrow> files s q = files fs q \<and> earlier s q = earlier fs q)"

lemma aside_safe: "aside (path c @ ''.tmp'') fs s \<Longrightarrow> safe_state c fs s"
  using aside_reads [of "path c" fs s] by (simp add: safe_state_def aside_def)

lemma renamed_safe:
  assumes "aside (path c @ ''.tmp'') fs s"
    "files s (path c @ ''.tmp'') = Some \<lparr>shown = cursor_text c, synced = True\<rparr>"
  shows "safe_state c fs (rename_file (path c @ ''.tmp'') (path c) s)"
  using renamed_reads [OF assms] unfolding safe_state_def by simp

lemma save_steps_safe:
  assumes "path c \<noteq> []" and "save_steps fs io (Some c) = (st, states)"
  shows "(\<forall>s \<in> set states. safe_state c fs s) \<and>
    read_under (last (fs # states)) (path c) = (if st = IDX_OK then Some (cursor_text c) else read_under fs (path c)) \<and>
    (st = IDX_OK \<or> states \<noteq> [] \<and> remove_ok io \<longrightarrow> read_under (last (fs # states)) (path c @ ''.tmp'') = None)"
proof (cases "st = IDX_OK")
  case True
  then obtain s before where s: "list_all (aside (path c @ ''.tmp'') fs) (s # before)"
    "files s (path c @ ''.tmp'') = Some \<lparr>shown = cursor_text c, synced = True\<rparr>"
    "states = before @ [rename_file (path c @ ''.tmp'') (path c) s]"
    using save_steps_states [OF assms] by auto
  then have aside: "aside (path c @ ''.tmp'') fs s" "\<forall>b \<in> set before. aside (path c @ ''.tmp'') fs b"
    by (simp_all add: list_all_iff)
  then have "\<forall>s \<in> set states. safe_state c fs s"
    using renamed_safe [OF aside(1) s(2)] aside_safe s(3) by auto
  then show ?thesis using renamed_reads(1,4) [OF aside(1) s(2)] True s(3) by simp
next
  case False
  then have s: "\<forall>s \<in> set states. aside (path c @ ''.tmp'') fs s"
    "states \<noteq> [] \<and> remove_ok io \<longrightarrow> files (last states) (path c @ ''.tmp'') = None"
    using save_steps_states [OF assms] by (simp_all add: list_all_iff)
  then have "aside (path c @ ''.tmp'') fs (last (fs # states))" by simp
  with s False aside_safe aside_reads show ?thesis by (auto simp: read_under_def)
qed

section \<open>Properties\<close>

text \<open>
  The frontiers are high-water marks. From a fresh cursor, after any interleaving of
  recorded and observed slots, the durable frontier is the highest recorded slot and the
  runtime one the highest observed, neither affects the other, and indexing resumes right
  after the durable frontier, or at the configured start when nothing was recorded.
\<close>

theorem cursor_frontiers:
  assumes "IDX_SLOT_NONE \<notin> set (indexed_slots es)" "IDX_SLOT_NONE \<notin> set (seen_slots es)"
  shows "\<exists>c'. fold cursor_step es (idx_slot_cursor_init (Some c) start) = Some c' \<and>
    last_indexed c' = (if indexed_slots es = [] then IDX_SLOT_NONE else Max (set (indexed_slots es))) \<and>
    last_seen c' = (if seen_slots es = [] then IDX_SLOT_NONE else Max (set (seen_slots es))) \<and>
    idx_slot_cursor_resume_slot (Some c') =
      (if indexed_slots es = [] then start else Max (set (indexed_slots es)) + 1)"
proof -
  have "Max (set (indexed_slots es)) \<noteq> IDX_SLOT_NONE" if "indexed_slots es \<noteq> []"
    using Max_in [of "set (indexed_slots es)"] that assms(1) by fastforce
  then show ?thesis using assms
    by (simp add: idx_slot_cursor_init_def cursor_steps frontier_fresh idx_slot_cursor_resume_slot_def)
qed

theorem cursor_frontiers_witness:
  "\<exists>c'. fold cursor_step [Indexed 5, Seen 9, Indexed 3] (idx_slot_cursor_init
        (Some \<lparr>last_indexed = 0, last_seen = 0, start_slot = 0, path = []\<rparr>) 7) = Some c' \<and>
     last_indexed c' = 5 \<and> last_seen c' = 9 \<and> idx_slot_cursor_resume_slot (Some c') = 6"
proof -
  have "IDX_SLOT_NONE \<notin> set (indexed_slots [Indexed 5, Seen 9, Indexed 3])"
    "IDX_SLOT_NONE \<notin> set (seen_slots [Indexed 5, Seen 9, Indexed 3])"
    by (simp_all add: IDX_SLOT_NONE_def)
  from cursor_frontiers [OF this, of "\<lparr>last_indexed = 0, last_seen = 0, start_slot = 0, path = []\<rparr>" 7]
  show ?thesis by (simp add: max_def)
qed

text \<open>
  C24: Saving is atomic, also across a crash. After every call of the save, whatever calls
  have failed, a reader finds under the cursor's path the file of before or the complete new
  text, and so does one who comes after a crash at that moment; no other file but the
  temporary one is touched. Success is reported just when every call succeeded: the new text
  is then the one found. Otherwise the file of before is, and the temporary file is gone
  unless it was never opened or cannot be removed.
\<close>

theorem cursor_save_atomic:
  assumes "path c \<noteq> []"
  shows "let (st, states) = save_steps fs io (Some c); fs' = snd (idx_slot_cursor_save fs io (Some c)) in
    (\<forall>s \<in> set states.
       read_under s (path c) \<in> {read_under fs (path c), Some (cursor_text c)} \<and>
       (\<forall>found. crash_leaves s (path c) found \<longrightarrow>
          crash_leaves fs (path c) found \<or> found = Some (cursor_text c)) \<and>
       (\<forall>q. q \<noteq> path c \<and> q \<noteq> path c @ ''.tmp'' \<longrightarrow> files s q = files fs q \<and> earlier s q = earlier fs q)) \<and>
    (st = IDX_OK \<longleftrightarrow> length (path c) < IDX_SLOT_CURSOR_PATH_MAX + 4 \<and> open_write_ok io \<and> puts_ok io \<and>
       (last_indexed c \<noteq> IDX_SLOT_NONE \<longrightarrow> print_ok io) \<and> flush_ok io \<and> sync_ok io \<and> close_ok io \<and> rename_ok io) \<and>
    read_under fs' (path c) = (if st = IDX_OK then Some (cursor_text c) else read_under fs (path c)) \<and>
    (st = IDX_OK \<or> states \<noteq> [] \<and> remove_ok io \<longrightarrow> read_under fs' (path c @ ''.tmp'') = None)"
proof -
  obtain st states where run: "save_steps fs io (Some c) = (st, states)" by fastforce
  then have saved: "snd (idx_slot_cursor_save fs io (Some c)) = last (fs # states)"
    by (simp add: idx_slot_cursor_save_def)
  have safe: "\<forall>s \<in> set states. safe_state c fs s"
    and ends: "read_under (last (fs # states)) (path c) = (if st = IDX_OK then Some (cursor_text c) else read_under fs (path c)) \<and>
      (st = IDX_OK \<or> states \<noteq> [] \<and> remove_ok io \<longrightarrow> read_under (last (fs # states)) (path c @ ''.tmp'') = None)"
    using save_steps_safe [OF assms run] by blast+
  show ?thesis
    using safe ends save_steps_ok [OF assms, of fs io]
    unfolding run saved Let_def safe_state_def prod.case fst_conv by argo
qed

definition sample_io :: io where
  "sample_io = \<lparr>open_read_ok = True, read_ok = True, open_write_ok = True, puts_ok = True, print_ok = True,
     flush_ok = True, sync_ok = True, close_ok = True, rename_ok = True, remove_ok = True, left_over = []\<rparr>"

definition sample_cursor :: idx_slot_cursor where
  "sample_cursor = \<lparr>last_indexed = 41, last_seen = 0, start_slot = 0, path = ''cursor''\<rparr>"

definition sample_files :: file_system where
  "sample_files = \<lparr>files = [''cursor'' \<mapsto> \<lparr>shown = ''# old'', synced = True\<rparr>], earlier = (\<lambda>_. [])\<rparr>"

theorem cursor_save_atomic_witness:
  "path sample_cursor \<noteq> [] \<and> fst (save_steps sample_files sample_io (Some sample_cursor)) = IDX_OK \<and>
   fst (save_steps sample_files (sample_io\<lparr>sync_ok := False\<rparr>) (Some sample_cursor)) \<noteq> IDX_OK \<and>
   read_under (snd (idx_slot_cursor_save sample_files (sample_io\<lparr>sync_ok := False\<rparr>) (Some sample_cursor))) ''cursor'' =
     Some ''# old''"
proof -
  have "path sample_cursor \<noteq> []" by (simp add: sample_cursor_def)
  from this cursor_save_atomic [OF this, of sample_files sample_io]
    cursor_save_atomic [OF this, of sample_files "sample_io\<lparr>sync_ok := False\<rparr>"]
  show ?thesis
    unfolding Let_def split_beta
    by (simp add: sample_io_def sample_cursor_def IDX_SLOT_CURSOR_PATH_MAX_def sample_files_def read_under_def del: save_steps.simps)
qed

text \<open>
  C36: Progress survives a restart. A cursor saved without error and opened again from the
  same path has the same durable frontier, so it resumes at the same slot.
\<close>

theorem cursor_restart:
  assumes "path c \<noteq> []" "length (path c) < IDX_SLOT_CURSOR_PATH_MAX"
    and "idx_slot_cursor_save fs io (Some c) = (IDX_OK, fs')" and "open_read_ok io'" "read_ok io'"
  shows "\<exists>c'. idx_slot_cursor_open fs' io' (Some old) (Some (path c)) (start_slot c) = (IDX_OK, Some c') \<and>
    last_indexed c' = last_indexed c \<and> path c' = path c \<and>
    idx_slot_cursor_resume_slot (Some c') = idx_slot_cursor_resume_slot (Some c)"
proof -
  have "read_under fs' (path c) = Some (cursor_text c)"
    using save_steps_safe [OF assms(1), of fs io] assms(3)
    by (auto simp: idx_slot_cursor_save_def simp del: save_steps.simps split: prod.splits)
  then show ?thesis using assms(1,2,4,5)
    by (simp add: Let_def idx_slot_cursor_init_def load_cursor_text idx_slot_cursor_resume_slot_def)
qed

theorem cursor_restart_witness:
  "\<exists>c'. idx_slot_cursor_open (snd (idx_slot_cursor_save sample_files sample_io (Some sample_cursor))) sample_io
      (Some \<lparr>last_indexed = 0, last_seen = 0, start_slot = 0, path = []\<rparr>) (Some ''cursor'') 0 = (IDX_OK, Some c') \<and>
     last_indexed c' = 41"
proof -
  obtain fs' where saved: "idx_slot_cursor_save sample_files sample_io (Some sample_cursor) = (IDX_OK, fs')"
    by (auto simp: idx_slot_cursor_save_def Let_def sample_io_def sample_cursor_def IDX_SLOT_CURSOR_PATH_MAX_def
        IDX_SLOT_NONE_def)
  from cursor_restart [OF _ _ this, of sample_io "\<lparr>last_indexed = 0, last_seen = 0, start_slot = 0, path = []\<rparr>"]
  show ?thesis unfolding saved
    by (auto simp: sample_cursor_def sample_io_def IDX_SLOT_CURSOR_PATH_MAX_def simp del: idx_slot_cursor_open.simps)
qed

end
