(* ===== verification/BufferWriter.thy ===== *)
theory BufferWriter
  imports Bytes
begin

text \<open>
  Writing to a growable buffer as a sequence of fallible calls. \<open>writes alloc f bs\<close> says what
  a call \<open>f\<close> does to every well-formed buffer: it appends \<open>bs\<close>, or it fails with the allocator's
  or the size error after appending some of it; the contents that were there before are
  never touched, and with memory granted and room in \<^verbatim>\<open>size_t\<close> it succeeds. Sequences and
  loops of such calls write the concatenation.
\<close>

type_synonym 'a buffer_op = "('a, idx_buffer option) op"

definition buf_append :: "(nat \<Rightarrow> bool) \<Rightarrow> byte \<Rightarrow> bytes option \<Rightarrow> nat \<Rightarrow> unit buffer_op" where
  "buf_append alloc junk data len = (\<lambda>buffer. case idx_buffer_append alloc junk buffer data len of
     Inl e \<Rightarrow> (Inl e, buffer) | Inr grown \<Rightarrow> (Inr (), grown))"

definition buf_append_byte :: "(nat \<Rightarrow> bool) \<Rightarrow> byte \<Rightarrow> byte \<Rightarrow> unit buffer_op" where
  "buf_append_byte alloc junk b = (\<lambda>buffer. case idx_buffer_append_byte alloc junk buffer b of
     Inl e \<Rightarrow> (Inl e, buffer) | Inr grown \<Rightarrow> (Inr (), grown))"

definition contents :: "idx_buffer \<Rightarrow> bytes" where
  "contents b = idx_buffer_slice (Some b)"

definition wrote :: "(nat \<Rightarrow> bool) \<Rightarrow> bytes \<Rightarrow> idx_buffer \<Rightarrow> 'a result \<Rightarrow> idx_buffer \<Rightarrow> bool" where
  "wrote alloc bs b r b' \<longleftrightarrow> buffer_ok b' \<and> (\<exists>n. contents b' = contents b @ take n bs) \<and>
     (\<forall>x. r = Inr x \<longrightarrow> contents b' = contents b @ bs) \<and>
     (\<forall>e. r = Inl e \<longrightarrow> e = IDX_ERR_NO_MEMORY \<or> e = IDX_ERR_RANGE) \<and>
     ((\<forall>n. alloc n) \<longrightarrow> length (contents b) + length bs \<le> SIZE_MAX \<longrightarrow> (\<exists>x. r = Inr x))"

definition writes :: "(nat \<Rightarrow> bool) \<Rightarrow> 'a buffer_op \<Rightarrow> bytes \<Rightarrow> bool" where
  "writes alloc f bs \<longleftrightarrow>
     (\<forall>b. buffer_ok b \<longrightarrow> (\<exists>r b'. f (Some b) = (r, Some b') \<and> wrote alloc bs b r b'))"

lemma length_contents: "buffer_ok b \<Longrightarrow> length (contents b) = b_len b"
  by (simp add: contents_def buffer_ok_def)

lemma writes_append: "writes alloc (buf_append alloc junk (Some bs) (length bs)) bs"
  unfolding writes_def
proof (intro allI impI)
  fix b assume ok: "buffer_ok b"
  show "\<exists>r b'. buf_append alloc junk (Some bs) (length bs) (Some b) = (r, Some b') \<and> wrote alloc bs b r b'"
  proof (cases "idx_buffer_append alloc junk (Some b) (Some bs) (length bs)")
    case (Inl e)
    then have res: "idx_buffer_reserve alloc junk (Some b) (length bs) = Inl e"
      by (auto simp: idx_buffer_append_def idx_try_Inl_iff simp del: idx_buffer_reserve.simps split: if_splits)
    have "length bs \<le> SIZE_MAX - b_len b" if "b_len b + length bs \<le> SIZE_MAX" using that by simp
    then have "\<not> ((\<forall>n. alloc n) \<and> b_len b + length bs \<le> SIZE_MAX)"
      using reserve_granted [of alloc "length bs" b junk] res by (auto simp del: idx_buffer_reserve.simps)
    moreover have "e = IDX_ERR_NO_MEMORY \<or> e = IDX_ERR_RANGE"
      using res by (auto simp: Let_def realloc_def split: if_splits option.splits)
    ultimately show ?thesis using Inl ok length_contents [OF ok]
      by (auto simp: buf_append_def wrote_def intro!: exI [of _ 0])
  next
    case (Inr res)
    then obtain b' where b': "res = Some b'"
      by (auto simp: idx_buffer_append_def idx_try_Inr_iff simp del: idx_buffer_reserve.simps split: if_splits)
    show ?thesis using append_ok [OF ok Inr [unfolded b']] Inr b'
      by (auto simp: buf_append_def wrote_def contents_def intro!: exI [of _ "length bs"])
  qed
qed

lemma writes_append_byte: "writes alloc (buf_append_byte alloc junk c) [c]"
  using writes_append [of alloc junk "[c]"]
  by (simp add: buf_append_byte_def buf_append_def idx_buffer_append_byte_def)

lemma writes_return: "writes alloc (op_return (Inr x)) []"
  by (simp add: writes_def wrote_def op_return_def)

lemma writes_try:
  assumes f: "writes alloc f bs" and g: "\<And>x. writes alloc (g x) cs"
  shows "writes alloc (op_try f g) (bs @ cs)"
  unfolding writes_def
proof (intro allI impI)
  fix b assume ok: "buffer_ok b"
  obtain r b1 where 1: "f (Some b) = (r, Some b1)" "wrote alloc bs b r b1"
    using f ok unfolding writes_def by blast
  show "\<exists>r b'. op_try f g (Some b) = (r, Some b') \<and> wrote alloc (bs @ cs) b r b'"
  proof (cases r)
    case (Inl e)
    obtain n where "contents b1 = contents b @ take n bs" using 1(2) by (auto simp: wrote_def)
    then have "contents b1 = contents b @ take (min n (length bs)) (bs @ cs)" by (simp add: min_def)
    then have "\<exists>n. contents b1 = contents b @ take n (bs @ cs)" by blast
    then have "wrote alloc (bs @ cs) b (Inl e) b1"
      using 1(2) Inl unfolding wrote_def by (auto simp del: take_append)
    then show ?thesis using 1(1) Inl by (simp add: op_try_def)
  next
    case (Inr x)
    then have c1: "contents b1 = contents b @ bs" and ok1: "buffer_ok b1" using 1(2) by (auto simp: wrote_def)
    obtain q b2 where 2: "g x (Some b1) = (q, Some b2)" "wrote alloc cs b1 q b2"
      using g [of x] ok1 unfolding writes_def by blast
    obtain n where "contents b2 = contents b1 @ take n cs" using 2(2) by (auto simp: wrote_def)
    then have "\<exists>n. contents b2 = contents b @ take n (bs @ cs)" using c1 by (intro exI [of _ "length bs + n"]) simp
    then have "wrote alloc (bs @ cs) b q b2" using 2(2) c1 unfolding wrote_def by simp
    then show ?thesis using 1(1) 2(1) Inr by (simp add: op_try_def)
  qed
qed

lemma writes_map:
  "(\<And>x. x \<in> set xs \<Longrightarrow> writes alloc (f x) (g x)) \<Longrightarrow> writes alloc (op_map f xs) (concat (map g xs))"
proof (induction xs)
  case (Cons x xs)
  have "writes alloc (op_map f (x # xs)) (g x @ concat (map g xs) @ [])"
    unfolding op_map.simps
    by (intro writes_try) (use Cons in \<open>auto intro: writes_return\<close>)
  then show ?case by simp
qed (simp add: writes_return)

end
