(* ===== verification/Json.thy ===== *)
theory Json
  imports Decimal BufferWriter
begin

text \<open>
  JSON reading and the minimal writer (\<^verbatim>\<open>src/json.c\<close>, \<^verbatim>\<open>include/json.h\<close>). The vendored
  parser is a parameter; what it hands back is the tree \<open>json\<close>, with the number kinds it
  distinguishes (unsigned, signed and floating) and object members in text order, duplicates
  included. A string is its bytes. A value handle is \<open>None\<close> when absent; a \<^verbatim>\<open>NULL\<close> key is \<open>None\<close>.
  A double is its 64-bit pattern.
\<close>

section \<open>Values\<close>

datatype json =
    JNull
  | JBool bool
  | JUint u64
  | JSint u64
  | JReal u64
  | JStr bytes
  | JArr "json list"
  | JObj "(bytes \<times> json) list"

type_synonym idx_json_val = "json option"

record idx_json_doc =
  doc_root :: idx_json_val

section \<open>Parsing\<close>

definition idx_json_parse :: "(bytes \<Rightarrow> idx_json_doc option) \<Rightarrow> bool \<Rightarrow> idx_slice \<Rightarrow> idx_json_doc result" where
  "idx_json_parse yyjson_read malloc_ok input = (case yyjson_read input of
      None \<Rightarrow> Inl IDX_ERR_PARSE
    | Some doc \<Rightarrow> if malloc_ok then Inr doc else Inl IDX_ERR_NO_MEMORY)"

fun idx_json_parse_insitu ::
    "(bytes \<Rightarrow> idx_json_doc option) \<Rightarrow> bool \<Rightarrow> bytes option \<Rightarrow> nat \<Rightarrow> nat \<Rightarrow> idx_json_doc result" where
  "idx_json_parse_insitu yyjson_read malloc_ok None len capacity = Inl IDX_ERR_INVALID_ARG"
| "idx_json_parse_insitu yyjson_read malloc_ok (Some data) len capacity =
     (if capacity < (len + 4) mod 2 ^ 64 then Inl IDX_ERR_INVALID_ARG
      else case yyjson_read (take len data) of
        None \<Rightarrow> Inl IDX_ERR_PARSE
      | Some doc \<Rightarrow> if malloc_ok then Inr doc else Inl IDX_ERR_NO_MEMORY)"

fun idx_json_root :: "idx_json_doc option \<Rightarrow> idx_json_val" where
  "idx_json_root None = None"
| "idx_json_root (Some doc) = doc_root doc"

section \<open>Inspection\<close>

definition idx_json_is_present :: "idx_json_val \<Rightarrow> bool" where
  "idx_json_is_present v \<longleftrightarrow> v \<noteq> None"

definition idx_json_is_null :: "idx_json_val \<Rightarrow> bool" where
  "idx_json_is_null v \<longleftrightarrow> v = Some JNull"

fun idx_json_is_object :: "idx_json_val \<Rightarrow> bool" where
  "idx_json_is_object (Some (JObj _)) = True"
| "idx_json_is_object _ = False"

fun idx_json_is_array :: "idx_json_val \<Rightarrow> bool" where
  "idx_json_is_array (Some (JArr _)) = True"
| "idx_json_is_array _ = False"

fun idx_json_is_string :: "idx_json_val \<Rightarrow> bool" where
  "idx_json_is_string (Some (JStr _)) = True"
| "idx_json_is_string _ = False"

fun idx_json_is_number :: "idx_json_val \<Rightarrow> bool" where
  "idx_json_is_number (Some (JUint _)) = True"
| "idx_json_is_number (Some (JSint _)) = True"
| "idx_json_is_number (Some (JReal _)) = True"
| "idx_json_is_number _ = False"

fun idx_json_is_bool :: "idx_json_val \<Rightarrow> bool" where
  "idx_json_is_bool (Some (JBool _)) = True"
| "idx_json_is_bool _ = False"

definition idx_json_type_name :: "idx_json_val \<Rightarrow> string" where
  "idx_json_type_name v =
     (if v = None then ''absent''
      else if idx_json_is_null v then ''null''
      else if idx_json_is_bool v then ''boolean''
      else if idx_json_is_number v then ''number''
      else if idx_json_is_string v then ''string''
      else if idx_json_is_array v then ''array''
      else if idx_json_is_object v then ''object''
      else ''unknown'')"

section \<open>Navigation\<close>

fun find_member :: "bytes \<Rightarrow> (bytes \<times> json) list \<Rightarrow> idx_json_val" where
  "find_member key [] = None"
| "find_member key ((k, v) # rest) = (if k = key then Some v else find_member key rest)"

fun idx_json_get :: "idx_json_val \<Rightarrow> string option \<Rightarrow> idx_json_val" where
  "idx_json_get (Some (JObj members)) (Some key) = find_member (chars_to_bytes key) members"
| "idx_json_get _ _ = None"

fun idx_json_array_size :: "idx_json_val \<Rightarrow> nat" where
  "idx_json_array_size (Some (JArr items)) = length items"
| "idx_json_array_size _ = 0"

fun idx_json_array_get :: "idx_json_val \<Rightarrow> nat \<Rightarrow> idx_json_val" where
  "idx_json_array_get (Some (JArr items)) index = (if index < length items then Some (items ! index) else None)"
| "idx_json_array_get _ index = None"

text \<open>The item and the advanced cursor, or \<open>None\<close> when the walk is over.\<close>

definition idx_json_array_next :: "idx_json_val \<Rightarrow> nat \<Rightarrow> (idx_json_val \<times> nat) option" where
  "idx_json_array_next array cursor =
     (if \<not> idx_json_is_array array then None
      else case idx_json_array_get array cursor of
        None \<Rightarrow> None
      | Some item \<Rightarrow> Some (Some item, cursor + 1))"

text \<open>The iterator steps from the first member to the one at the cursor.\<close>

fun step_members :: "nat \<Rightarrow> (bytes \<times> json) list \<Rightarrow> (bytes \<times> json) option" where
  "step_members cursor [] = None"
| "step_members 0 (member # rest) = Some member"
| "step_members (Suc cursor) (member # rest) = step_members cursor rest"

fun idx_json_object_next :: "idx_json_val \<Rightarrow> nat \<Rightarrow> (idx_slice \<times> idx_json_val \<times> nat) option" where
  "idx_json_object_next (Some (JObj members)) cursor =
     map_option (\<lambda>(k, v). (k, Some v, cursor + 1)) (step_members cursor members)"
| "idx_json_object_next _ cursor = None"

section \<open>Typed reads\<close>

definition idx_json_missing :: "'a result" where
  "idx_json_missing = Inl IDX_ERR_NOT_FOUND"

definition idx_json_wrong_type :: "'a result" where
  "idx_json_wrong_type = Inl IDX_ERR_PARSE"

fun idx_json_as_u64 :: "idx_json_val \<Rightarrow> u64 result" where
  "idx_json_as_u64 None = idx_json_missing"
| "idx_json_as_u64 (Some (JUint n)) = Inr n"
| "idx_json_as_u64 (Some (JSint n)) = (if sint n < 0 then Inl IDX_ERR_RANGE else Inr n)"
| "idx_json_as_u64 (Some _) = idx_json_wrong_type"

definition idx_json_read_u64 :: "idx_json_val \<Rightarrow> string option \<Rightarrow> u64 result" where
  "idx_json_read_u64 object key = idx_json_as_u64 (idx_json_get object key)"

text \<open>The parser's signed view of an unsigned number is the same 64 bits.\<close>

definition idx_json_read_i64 :: "idx_json_val \<Rightarrow> string option \<Rightarrow> u64 result" where
  "idx_json_read_i64 object key = (case idx_json_get object key of
      None \<Rightarrow> idx_json_missing
    | Some (JSint n) \<Rightarrow> Inr n
    | Some (JUint n) \<Rightarrow> Inr n
    | Some _ \<Rightarrow> idx_json_wrong_type)"

text \<open>\<open>of_uint\<close> and \<open>of_sint\<close> are the C conversions from the integer types to double.\<close>

definition idx_json_read_double ::
    "(u64 \<Rightarrow> u64) \<Rightarrow> (u64 \<Rightarrow> u64) \<Rightarrow> idx_json_val \<Rightarrow> string option \<Rightarrow> u64 result" where
  "idx_json_read_double of_uint of_sint object key = (case idx_json_get object key of
      None \<Rightarrow> idx_json_missing
    | Some (JReal d) \<Rightarrow> Inr d
    | Some (JUint n) \<Rightarrow> Inr (of_uint n)
    | Some (JSint n) \<Rightarrow> Inr (of_sint n)
    | Some _ \<Rightarrow> idx_json_wrong_type)"

definition idx_json_read_bool :: "idx_json_val \<Rightarrow> string option \<Rightarrow> bool result" where
  "idx_json_read_bool object key = (case idx_json_get object key of
      None \<Rightarrow> idx_json_missing
    | Some (JBool b) \<Rightarrow> Inr b
    | Some _ \<Rightarrow> idx_json_wrong_type)"

fun idx_json_as_string :: "idx_json_val \<Rightarrow> idx_slice result" where
  "idx_json_as_string None = idx_json_missing"
| "idx_json_as_string (Some (JStr s)) = Inr s"
| "idx_json_as_string (Some _) = idx_json_wrong_type"

definition idx_json_read_string :: "idx_json_val \<Rightarrow> string option \<Rightarrow> idx_slice result" where
  "idx_json_read_string object key = idx_json_as_string (idx_json_get object key)"

definition idx_json_read_object :: "idx_json_val \<Rightarrow> string option \<Rightarrow> idx_json_val result" where
  "idx_json_read_object object key = (let v = idx_json_get object key in
     if \<not> idx_json_is_present v then idx_json_missing
     else if \<not> idx_json_is_object v then idx_json_wrong_type
     else Inr v)"

definition idx_json_read_array :: "idx_json_val \<Rightarrow> string option \<Rightarrow> idx_json_val result" where
  "idx_json_read_array object key = (let v = idx_json_get object key in
     if \<not> idx_json_is_present v then idx_json_missing
     else if \<not> idx_json_is_array v then idx_json_wrong_type
     else Inr v)"

text \<open>The optional readers return the value they store, or \<open>None\<close> for \<^verbatim>\<open>false\<close>.\<close>

definition idx_json_opt_u64 :: "idx_json_val \<Rightarrow> string option \<Rightarrow> u64 option" where
  "idx_json_opt_u64 object key = (let v = idx_json_get object key in
     if \<not> idx_json_is_present v \<or> idx_json_is_null v then None
     else case idx_json_as_u64 v of Inl _ \<Rightarrow> None | Inr n \<Rightarrow> Some n)"

definition idx_json_opt_string :: "idx_json_val \<Rightarrow> string option \<Rightarrow> idx_slice option" where
  "idx_json_opt_string object key = (let v = idx_json_get object key in
     if \<not> idx_json_is_present v \<or> idx_json_is_null v then None
     else case idx_json_as_string v of Inl _ \<Rightarrow> None | Inr s \<Rightarrow> Some s)"

definition idx_json_opt_bool :: "idx_json_val \<Rightarrow> string option \<Rightarrow> bool option" where
  "idx_json_opt_bool object key = (case idx_json_get object key of
      Some (JBool b) \<Rightarrow> Some b
    | _ \<Rightarrow> None)"

section \<open>Writing\<close>

text \<open>
  The buffer keeps what was appended before a failing call. \<open>alloc\<close> and \<open>junk\<close> are the
  allocator's answers and the bytes it adds.
\<close>

definition write_byte_escaped :: "(nat \<Rightarrow> bool) \<Rightarrow> byte \<Rightarrow> byte \<Rightarrow> unit buffer_op" where
  "write_byte_escaped alloc junk c =
     (if c = 0x22 then buf_append alloc junk (Some [0x5C, 0x22]) 2
      else if c = 0x5C then buf_append alloc junk (Some [0x5C, 0x5C]) 2
      else if c = 0x0A then buf_append alloc junk (Some [0x5C, 0x6E]) 2
      else if c = 0x0D then buf_append alloc junk (Some [0x5C, 0x72]) 2
      else if c = 0x09 then buf_append alloc junk (Some [0x5C, 0x74]) 2
      else if c = 0x08 then buf_append alloc junk (Some [0x5C, 0x62]) 2
      else if c = 0x0C then buf_append alloc junk (Some [0x5C, 0x66]) 2
      else if c < 0x20 then
        buf_append alloc junk (Some ([0x5C, 0x75, 0x30, 0x30] @ chars_to_bytes (hex_pair c))) 6
      else buf_append_byte alloc junk c)"

definition idx_json_write_escaped :: "(nat \<Rightarrow> bool) \<Rightarrow> byte \<Rightarrow> idx_slice \<Rightarrow> unit buffer_op" where
  "idx_json_write_escaped alloc junk raw = (\<lambda>out. case out of
     None \<Rightarrow> (Inl IDX_ERR_INVALID_ARG, None)
   | Some _ \<Rightarrow>
       op_try (buf_append_byte alloc junk 0x22) (\<lambda>_.
       op_try (op_map (write_byte_escaped alloc junk) raw) (\<lambda>_.
       buf_append_byte alloc junk 0x22)) out)"

definition quoted :: "string \<Rightarrow> string" where
  "quoted s = [CHR 0x22] @ s @ [CHR 0x22]"

definition rpc_prefix :: "u64 \<Rightarrow> string" where
  "rpc_prefix ident = ''{'' @ quoted ''jsonrpc'' @ '':'' @ quoted ''2.0'' @ '','' @ quoted ''id'' @ '':'' @
     decimal (unat ident) @ '','' @ quoted ''method'' @ '':''"

definition idx_json_write_rpc_request ::
    "(nat \<Rightarrow> bool) \<Rightarrow> byte \<Rightarrow> u64 \<Rightarrow> string option \<Rightarrow> string option \<Rightarrow> unit buffer_op" where
  "idx_json_write_rpc_request alloc junk ident mname params_json = (\<lambda>out.
     if out = None \<or> mname = None then (Inl IDX_ERR_INVALID_ARG, out)
     else let prefix = rpc_prefix ident; written = length prefix in
       if written \<ge> 64 then (Inl IDX_ERR_INTERNAL, out)
       else op_try (buf_append alloc junk (Some (chars_to_bytes prefix)) written) (\<lambda>_.
            op_try (idx_json_write_escaped alloc junk (idx_slice_from_str mname)) (\<lambda>_.
            op_try (case params_json of
                      None \<Rightarrow> op_return (Inr ())
                    | Some params \<Rightarrow>
                        op_try (buf_append alloc junk (Some (chars_to_bytes ('','' @ quoted ''params'' @ '':''))) 10) (\<lambda>_.
                        buf_append alloc junk (Some (chars_to_bytes params)) (length params))) (\<lambda>_.
            buf_append_byte alloc junk (of_char CHR ''}'')))) out)"

section \<open>Facts about reading\<close>

lemma find_member_Some: "find_member key members = Some v \<Longrightarrow> (key, v) \<in> set members"
  by (induction members) (auto split: if_splits)

lemma read_array_Inr:
  "idx_json_read_array object key = Inr v \<longleftrightarrow> (\<exists>items. v = Some (JArr items) \<and> idx_json_get object key = v)"
  by (cases "idx_json_get object key" rule: idx_json_is_array.cases)
    (auto simp: idx_json_read_array_def Let_def idx_json_is_present_def idx_json_missing_def idx_json_wrong_type_def)

lemma read_object_Inr:
  "idx_json_read_object object key = Inr v \<longleftrightarrow> (\<exists>ms. v = Some (JObj ms) \<and> idx_json_get object key = v)"
  by (cases "idx_json_get object key" rule: idx_json_is_object.cases)
    (auto simp: idx_json_read_object_def Let_def idx_json_is_present_def idx_json_missing_def idx_json_wrong_type_def)

lemma is_array_iff: "idx_json_is_array v \<longleftrightarrow> (\<exists>items. v = Some (JArr items))"
  by (cases v rule: idx_json_is_array.cases) auto

lemma is_object_iff: "idx_json_is_object v \<longleftrightarrow> (\<exists>ms. v = Some (JObj ms))"
  by (cases v rule: idx_json_is_object.cases) auto

lemma is_string_iff: "idx_json_is_string v \<longleftrightarrow> (\<exists>s. v = Some (JStr s))"
  by (cases v rule: idx_json_is_string.cases) auto

section \<open>Reading back an escaped string\<close>

text \<open>
  A reader of JSON strings, written from the grammar: it takes the bytes after the opening
  quote and returns the text and what follows the closing quote. Raw control bytes are
  refused, and so are escapes it does not know; \<open>\u\<close> escapes are read for the ASCII range.
\<close>

definition simple_escape :: "byte \<Rightarrow> byte option" where
  "simple_escape e =
     (if e = 0x22 then Some 0x22 else if e = 0x5C then Some 0x5C else if e = 0x2F then Some 0x2F
      else if e = 0x62 then Some 0x08 else if e = 0x66 then Some 0x0C else if e = 0x6E then Some 0x0A
      else if e = 0x72 then Some 0x0D else if e = 0x74 then Some 0x09 else None)"

definition hex_code :: "bytes \<Rightarrow> byte option" where
  "hex_code digits = (case hex_decode_loop (map (\<lambda>b. char_of (unat b)) digits) of
     Inr [high, low] \<Rightarrow> (if high = 0 \<and> low < 0x80 then Some low else None)
   | _ \<Rightarrow> None)"

fun read_string :: "bytes \<Rightarrow> (bytes \<times> bytes) option" where
  "read_string [] = None"
| "read_string (c # rest) =
     (if c = 0x22 then Some ([], rest)
      else if c = 0x5C then
        (case rest of
           [] \<Rightarrow> None
         | e # after \<Rightarrow>
             (if e = 0x75 then
                (if length after < 4 then None
                 else case hex_code (take 4 after) of
                   None \<Rightarrow> None
                 | Some b \<Rightarrow> map_option (\<lambda>(s, r). (b # s, r)) (read_string (drop 4 after)))
              else case simple_escape e of
                None \<Rightarrow> None
              | Some b \<Rightarrow> map_option (\<lambda>(s, r). (b # s, r)) (read_string after)))
      else if c < 0x20 then None
      else map_option (\<lambda>(s, r). (c # s, r)) (read_string rest))"

text \<open>The bytes one input byte is written as.\<close>

definition escape_byte :: "byte \<Rightarrow> bytes" where
  "escape_byte c =
     (if c = 0x22 then [0x5C, 0x22] else if c = 0x5C then [0x5C, 0x5C] else if c = 0x0A then [0x5C, 0x6E]
      else if c = 0x0D then [0x5C, 0x72] else if c = 0x09 then [0x5C, 0x74] else if c = 0x08 then [0x5C, 0x62]
      else if c = 0x0C then [0x5C, 0x66]
      else if c < 0x20 then [0x5C, 0x75, 0x30, 0x30] @ chars_to_bytes (hex_pair c)
      else [c])"

lemma length_hex_pair: "length (hex_pair c) = 2"
  by (simp add: hex_pair_def)

lemma length_chars_to_bytes [simp]: "length (chars_to_bytes s) = length s"
  by (simp add: chars_to_bytes_def)

lemma unat_of_char: "unat (of_char c :: byte) = of_char c"
proof -
  have "(of_char c :: byte) = word_of_nat (of_char c)" by (simp add: of_nat_of_char)
  then have "unat (of_char c :: byte) = unat (word_of_nat (of_char c) :: byte)" by (rule arg_cong)
  also have "\<dots> = of_char c" using of_char_less [of c] by (simp add: unsigned_of_nat take_bit_nat_eq_self del: of_nat_of_char)
  finally show ?thesis .
qed

lemma bytes_to_chars: "map (\<lambda>b. char_of (unat b)) (chars_to_bytes s) = s"
  by (induction s) (simp_all add: chars_to_bytes_def unat_of_char)

lemma hex_code_pair: "c < 0x20 \<Longrightarrow> hex_code (0x30 # 0x30 # chars_to_bytes (hex_pair c)) = Some c"
proof -
  assume "c < 0x20"
  then have "c < 0x80" by (rule less_trans) simp
  have "0x30 # 0x30 # chars_to_bytes (hex_pair c) = chars_to_bytes (concat (map hex_pair [0, c]))"
    by (simp add: hex_pair_def chars_to_bytes_def k_hex_digits_def)
  then have "hex_decode_loop (map (\<lambda>b. char_of (unat b)) (0x30 # 0x30 # chars_to_bytes (hex_pair c))) = Inr [0, c]"
    by (simp only: bytes_to_chars hex_decode_encode)
  then show ?thesis using \<open>c < 0x80\<close> by (simp only: hex_code_def) simp
qed

lemma read_escape:
  "read_string (escape_byte c @ rest) = map_option (\<lambda>(s, r). (c # s, r)) (read_string rest)"
proof (cases "c < 0x20 \<and> c \<notin> {0x0A, 0x0D, 0x09, 0x08, 0x0C}")
  case True
  then have "escape_byte c = [0x5C, 0x75] @ 0x30 # 0x30 # chars_to_bytes (hex_pair c)"
    by (auto simp: escape_byte_def)
  moreover obtain x y where "chars_to_bytes (hex_pair c) = [x, y]"
    using length_hex_pair [of c] by (auto simp: hex_pair_def chars_to_bytes_def)
  ultimately show ?thesis using hex_code_pair [of c] True by simp
next
  case False
  then consider "c \<in> {0x0A, 0x0D, 0x09, 0x08, 0x0C, 0x22, 0x5C}" | "\<not> c < 0x20" "c \<noteq> 0x22" "c \<noteq> 0x5C"
    by blast
  then show ?thesis by cases (auto simp: escape_byte_def simple_escape_def)
qed

lemma read_escaped: "read_string (concat (map escape_byte raw) @ 0x22 # rest) = Some (raw, rest)"
proof (induction raw)
  case (Cons c raw)
  then show ?case by (simp add: read_escape del: read_string.simps)
qed simp

lemma writes_byte_escaped: "writes alloc (write_byte_escaped alloc junk c) (escape_byte c)"
proof -
  have w2: "writes alloc (buf_append alloc junk (Some [a, b]) 2) [a, b]" for a b
    using writes_append [of alloc junk "[a, b]"] by (simp add: numeral_2_eq_2)
  have w6: "writes alloc (buf_append alloc junk (Some ([0x5C, 0x75, 0x30, 0x30] @ chars_to_bytes (hex_pair c))) 6)
      ([0x5C, 0x75, 0x30, 0x30] @ chars_to_bytes (hex_pair c))"
    using writes_append [of alloc junk "[0x5C, 0x75, 0x30, 0x30] @ chars_to_bytes (hex_pair c)"]
    by (simp add: length_hex_pair)
  show ?thesis using w2 w6 writes_append_byte by (simp add: write_byte_escaped_def escape_byte_def)
qed

definition escaped :: "bytes \<Rightarrow> bytes" where
  "escaped raw = 0x22 # concat (map escape_byte raw) @ [0x22]"

lemma writes_escaped: "writes alloc (idx_json_write_escaped alloc junk raw) (escaped raw)"
proof -
  have "writes alloc (op_try (buf_append_byte alloc junk 0x22) (\<lambda>_.
       op_try (op_map (write_byte_escaped alloc junk) raw) (\<lambda>_.
       buf_append_byte alloc junk 0x22))) ([0x22] @ concat (map escape_byte raw) @ [0x22])"
    by (intro writes_try writes_append_byte writes_map writes_byte_escaped)
  then show ?thesis by (simp add: writes_def idx_json_write_escaped_def escaped_def)
qed

text \<open>The prefix of a request always fits its 64-byte array: an id has at most twenty digits.\<close>

lemma length_rpc_prefix: "length (rpc_prefix ident) < 64"
  using length_decimal [of "unat ident"] unat_u64 [of ident] by (simp add: rpc_prefix_def quoted_def)

definition rpc_params :: "string option \<Rightarrow> bytes" where
  "rpc_params params_json = (case params_json of
     None \<Rightarrow> []
   | Some params \<Rightarrow> chars_to_bytes ('','' @ quoted ''params'' @ '':'') @ chars_to_bytes params)"

lemma writes_chars: "writes alloc (buf_append alloc junk (Some (chars_to_bytes s)) (length s)) (chars_to_bytes s)"
  using writes_append [of alloc junk "chars_to_bytes s"] by simp

lemma writes_rpc_request:
  "writes alloc (idx_json_write_rpc_request alloc junk ident (Some mname) params_json)
     (chars_to_bytes (rpc_prefix ident) @ escaped (chars_to_bytes mname) @ rpc_params params_json @ [of_char CHR ''}''])"
proof -
  have params: "writes alloc (case params_json of
      None \<Rightarrow> op_return (Inr ())
    | Some params \<Rightarrow>
        op_try (buf_append alloc junk (Some (chars_to_bytes ('','' @ quoted ''params'' @ '':''))) 10) (\<lambda>_.
        buf_append alloc junk (Some (chars_to_bytes params)) (length params))) (rpc_params params_json)"
  proof (cases params_json)
    case (Some params)
    have "writes alloc (buf_append alloc junk (Some (chars_to_bytes ('','' @ quoted ''params'' @ '':''))) 10)
        (chars_to_bytes ('','' @ quoted ''params'' @ '':''))"
      using writes_chars [of alloc junk "'','' @ quoted ''params'' @ '':''"] by (simp add: quoted_def eval_nat_numeral)
    then show ?thesis unfolding Some rpc_params_def option.case by (intro writes_try writes_chars)
  qed (simp add: writes_return rpc_params_def)
  have "writes alloc (op_try (buf_append alloc junk (Some (chars_to_bytes (rpc_prefix ident))) (length (rpc_prefix ident))) (\<lambda>_.
            op_try (idx_json_write_escaped alloc junk (chars_to_bytes mname)) (\<lambda>_.
            op_try (case params_json of
                      None \<Rightarrow> op_return (Inr ())
                    | Some params \<Rightarrow>
                        op_try (buf_append alloc junk (Some (chars_to_bytes ('','' @ quoted ''params'' @ '':''))) 10) (\<lambda>_.
                        buf_append alloc junk (Some (chars_to_bytes params)) (length params))) (\<lambda>_.
            buf_append_byte alloc junk (of_char CHR ''}'')))))
       (chars_to_bytes (rpc_prefix ident) @ escaped (chars_to_bytes mname) @ rpc_params params_json @ [of_char CHR ''}''])"
    by (intro writes_try writes_chars writes_escaped writes_append_byte params)
  moreover have "idx_slice_from_str (Some mname) = chars_to_bytes mname" by simp
  ultimately show ?thesis using length_rpc_prefix [of ident]
    by (simp add: writes_def idx_json_write_rpc_request_def Let_def not_le [symmetric] del: idx_slice_from_str.simps)
qed

section \<open>Properties\<close>

text \<open>
  C37: Escaped text reads back. With memory granted and room for it, the writer succeeds and
  appends one JSON string, whatever bytes the text holds: reading the appended bytes as a
  JSON string gives the text back and stops exactly at the closing quote, so nothing a text
  contains can end the string early.
\<close>

theorem json_escape_roundtrip:
  assumes "buffer_ok b" "\<forall>n. alloc n" "length (contents b) + 6 * length raw + 2 \<le> SIZE_MAX"
  shows "\<exists>b' body. idx_json_write_escaped alloc junk raw (Some b) = (Inr (), Some b') \<and> buffer_ok b' \<and>
     contents b' = contents b @ 0x22 # body \<and> (\<forall>rest. read_string (body @ rest) = Some (raw, rest))"
proof -
  have "length (concat (map escape_byte raw)) \<le> 6 * length raw"
    by (induction raw) (auto simp: escape_byte_def length_hex_pair)
  then have fits: "length (contents b) + length (escaped raw) \<le> SIZE_MAX" using assms(3) by (simp add: escaped_def)
  obtain r b' where "idx_json_write_escaped alloc junk raw (Some b) = (r, Some b')" "wrote alloc (escaped raw) b r b'"
    using writes_escaped [of alloc junk raw] assms(1) unfolding writes_def by blast
  moreover from this(2) obtain u where "r = Inr u" using assms(2) fits unfolding wrote_def by blast
  moreover have "read_string ((concat (map escape_byte raw) @ [0x22]) @ rest) = Some (raw, rest)" for rest
    using read_escaped [of raw rest] by simp
  ultimately show ?thesis by (auto simp: wrote_def escaped_def)
qed

theorem json_escape_roundtrip_witness:
  "\<exists>b' body. idx_json_write_escaped (\<lambda>_. True) 0 [0x22, 0x01] (Some \<lparr>b_data = [], b_len = 0, b_capacity = 0\<rparr>)
      = (Inr (), Some b') \<and> buffer_ok b' \<and> contents b' = 0x22 # body \<and>
     (\<forall>rest. read_string (body @ rest) = Some ([0x22, 0x01], rest))"
  using json_escape_roundtrip [of "\<lparr>b_data = [], b_len = 0, b_capacity = 0\<rparr>" "\<lambda>_. True" "[0x22, 0x01]" 0]
  by (simp add: buffer_ok_def contents_def SIZE_MAX_def)

text \<open>
  The optional readers agree with the required ones. Each yields a value exactly when the
  typed read of the same field succeeds, and then the same one; every error of the typed
  read, a wrong type and a negative number included, reads as an absent field.
\<close>

theorem json_opt_agrees:
  "idx_json_opt_u64 object key = (case idx_json_read_u64 object key of Inl _ \<Rightarrow> None | Inr n \<Rightarrow> Some n) \<and>
   idx_json_opt_string object key = (case idx_json_read_string object key of Inl _ \<Rightarrow> None | Inr s \<Rightarrow> Some s) \<and>
   idx_json_opt_bool object key = (case idx_json_read_bool object key of Inl _ \<Rightarrow> None | Inr b \<Rightarrow> Some b)"
  by (cases "idx_json_get object key" rule: idx_json_as_u64.cases)
    (simp_all add: idx_json_opt_u64_def idx_json_opt_string_def idx_json_opt_bool_def idx_json_read_u64_def
      idx_json_read_string_def idx_json_read_bool_def Let_def idx_json_is_present_def idx_json_is_null_def
      idx_json_missing_def idx_json_wrong_type_def)

end
