(* ===== verification/Arena.thy ===== *)
theory Arena
  imports Bytes
begin

text \<open>
  The bump allocator that decoded blocks live in (\<^verbatim>\<open>src/arena.c\<close>,
  \<^verbatim>\<open>include/arena.h\<close>). An arena is the list of its chunks, oldest first, with the position
  of the chunk being filled; a chunk is the address of its data, its capacity and how much of
  it is used. The C library's allocator is the parameter \<open>malloc\<close>: from the chunks the arena
  holds and the number of bytes asked for it gives the address of the new block, or \<open>None\<close>.
  A \<^verbatim>\<open>NULL\<close> arena is \<open>None\<close>. What an allocation returns is an address.
\<close>

section \<open>Model\<close>

record idx_arena_chunk =
  k_data :: nat
  k_capacity :: nat
  k_used :: nat

record idx_arena =
  a_chunks :: "idx_arena_chunk list"
  a_current :: "nat option"
  a_chunk_size :: nat
  a_bytes_reserved :: nat
  a_bytes_used :: nat

type_synonym malloc_fn = "idx_arena_chunk list \<Rightarrow> nat \<Rightarrow> nat option"

text \<open>
  \<^verbatim>\<open>sizeof(idx_arena_chunk)\<close> and \<^verbatim>\<open>_Alignof(max_align_t)\<close> are those of the LP64 ABI the
  program is built for: three words, padded to the 16-byte alignment of the data that follows.
\<close>

definition SIZEOF_idx_arena_chunk :: nat where "SIZEOF_idx_arena_chunk = 32"
definition ALIGNOF_max_align_t :: nat where "ALIGNOF_max_align_t = 16"
definition IDX_ARENA_DEFAULT_CHUNK_SIZE :: nat where "IDX_ARENA_DEFAULT_CHUNK_SIZE = 64 * 1024"

definition idx_arena_init :: "idx_arena option \<Rightarrow> nat \<Rightarrow> idx_arena option" where
  "idx_arena_init arena chunk_size = map_option (\<lambda>_.
     \<lparr>a_chunks = [], a_current = None,
      a_chunk_size = (if chunk_size > 0 then chunk_size else IDX_ARENA_DEFAULT_CHUNK_SIZE),
      a_bytes_reserved = 0, a_bytes_used = 0\<rparr>) arena"

definition is_power_of_two :: "nat \<Rightarrow> bool" where
  "is_power_of_two v \<longleftrightarrow> v \<noteq> 0 \<and> v AND (v - 1) = 0"

definition padding_for :: "idx_arena_chunk \<Rightarrow> nat \<Rightarrow> nat" where
  "padding_for chunk align =
     (let cursor = word_of_nat (k_data chunk + k_used chunk) :: u64;
          aligned = (cursor + word_of_nat align - 1) AND NOT (word_of_nat align - 1)
      in unat (aligned - cursor))"

definition chunk_fits :: "idx_arena_chunk \<Rightarrow> nat \<Rightarrow> nat \<Rightarrow> bool" where
  "chunk_fits chunk want align =
     (let padding = padding_for chunk align in
      if padding > k_capacity chunk - k_used chunk then False
      else want \<le> k_capacity chunk - k_used chunk - padding)"

definition chunk_new ::
    "malloc_fn \<Rightarrow> nat \<Rightarrow> nat \<Rightarrow> (idx_arena_chunk, idx_arena) op" where
  "chunk_new malloc want align = (\<lambda>arena.
     if want > SIZE_MAX - (align - 1) then (Inl IDX_ERR_RANGE, arena)
     else let needed = want + (align - 1);
              capacity = (if needed > a_chunk_size arena then needed else a_chunk_size arena)
      in if capacity > SIZE_MAX - SIZEOF_idx_arena_chunk then (Inl IDX_ERR_RANGE, arena)
      else case malloc (a_chunks arena) (SIZEOF_idx_arena_chunk + capacity) of
        None \<Rightarrow> (Inl IDX_ERR_NO_MEMORY, arena)
      | Some p \<Rightarrow>
          (Inr \<lparr>k_data = p + SIZEOF_idx_arena_chunk, k_capacity = capacity, k_used = 0\<rparr>,
           arena\<lparr>a_bytes_reserved := a_bytes_reserved arena + capacity\<rparr>))"

text \<open>The walk from the current chunk to the first one with room; \<open>i\<close> is the position.\<close>

fun find_chunk :: "nat \<Rightarrow> nat \<Rightarrow> idx_arena_chunk list \<Rightarrow> nat \<Rightarrow> nat option" where
  "find_chunk want align [] i = None"
| "find_chunk want align (chunk # rest) i =
     (if chunk_fits chunk want align then Some i else find_chunk want align rest (Suc i))"

definition walk_from_current :: "nat \<Rightarrow> nat \<Rightarrow> idx_arena \<Rightarrow> nat option" where
  "walk_from_current want align arena = (case a_current arena of
      None \<Rightarrow> None
    | Some c \<Rightarrow> find_chunk want align (drop c (a_chunks arena)) c)"

definition take_from :: "nat \<Rightarrow> nat \<Rightarrow> nat \<Rightarrow> idx_arena \<Rightarrow> nat \<times> idx_arena" where
  "take_from want align i arena =
     (let chunk = a_chunks arena ! i; padding = padding_for chunk align in
      (k_data chunk + k_used chunk + padding,
       arena\<lparr>a_chunks := (a_chunks arena)[i := chunk\<lparr>k_used := k_used chunk + padding + want\<rparr>],
             a_current := Some i,
             a_bytes_used := a_bytes_used arena + padding + want\<rparr>))"

text \<open>
  A new chunk is linked behind the last one, whichever chunk the walk to the tail starts from,
  and is filled like any other; its use count starts at zero.
\<close>

fun idx_arena_alloc_aligned :: "malloc_fn \<Rightarrow> nat \<Rightarrow> nat \<Rightarrow> (nat, idx_arena option) op" where
  "idx_arena_alloc_aligned malloc want align None = (Inl IDX_ERR_INVALID_ARG, None)"
| "idx_arena_alloc_aligned malloc want align (Some arena) =
     (if \<not> is_power_of_two align then (Inl IDX_ERR_INVALID_ARG, Some arena)
      else case walk_from_current want align arena of
        Some i \<Rightarrow> (case take_from want align i arena of (p, arena) \<Rightarrow> (Inr p, Some arena))
      | None \<Rightarrow>
          (case chunk_new malloc want align arena of
             (Inl e, arena) \<Rightarrow> (Inl e, Some arena)
           | (Inr chunk, arena) \<Rightarrow>
               (case take_from want align (length (a_chunks arena))
                       (arena\<lparr>a_chunks := a_chunks arena @ [chunk]\<rparr>) of
                  (p, arena) \<Rightarrow> (Inr p, Some arena))))"

definition idx_arena_alloc :: "malloc_fn \<Rightarrow> nat \<Rightarrow> (nat, idx_arena option) op" where
  "idx_arena_alloc malloc want = idx_arena_alloc_aligned malloc want ALIGNOF_max_align_t"

definition idx_arena_calloc :: "malloc_fn \<Rightarrow> nat \<Rightarrow> nat \<Rightarrow> (nat, idx_arena option) op" where
  "idx_arena_calloc malloc count width =
     (if count \<noteq> 0 \<and> width > SIZE_MAX div count then op_return (Inl IDX_ERR_RANGE)
      else idx_arena_alloc malloc (count * width))"

text \<open>The copied text comes back with its address.\<close>

fun idx_arena_strdup :: "malloc_fn \<Rightarrow> string option \<Rightarrow> (nat \<times> string, idx_arena option) op" where
  "idx_arena_strdup malloc None = op_return (Inl IDX_ERR_INVALID_ARG)"
| "idx_arena_strdup malloc (Some str) =
     op_try (idx_arena_alloc_aligned malloc (length str + 1) 1) (\<lambda>p. op_return (Inr (p, str)))"

definition idx_arena_reset :: "idx_arena option \<Rightarrow> idx_arena option" where
  "idx_arena_reset = map_option (\<lambda>arena.
     arena\<lparr>a_chunks := map (\<lambda>chunk. chunk\<lparr>k_used := 0\<rparr>) (a_chunks arena),
           a_current := (if a_chunks arena = [] then None else Some 0),
           a_bytes_used := 0\<rparr>)"

text \<open>The chunks that are freed come back with the empty arena.\<close>

fun idx_arena_destroy :: "idx_arena option \<Rightarrow> idx_arena option \<times> idx_arena_chunk list" where
  "idx_arena_destroy None = (None, [])"
| "idx_arena_destroy (Some arena) = (idx_arena_init (Some arena) (a_chunk_size arena), a_chunks arena)"

section \<open>Alignment\<close>

lemma and_pred_even: "0 < m \<Longrightarrow> (2 * m) AND (2 * m - 1) = 2 * (m AND (m - 1 :: nat))"
  by (subst and_rec) (cases m, simp_all)

lemma power_of_two_iff: "is_power_of_two v \<longleftrightarrow> (\<exists>k. v = 2 ^ k)"
proof
  show "is_power_of_two v \<Longrightarrow> \<exists>k. v = 2 ^ k"
  proof (induction v rule: less_induct)
    case (less v)
    show ?case
    proof (cases "even v")
      case True
      then obtain m where m: "v = 2 * m" by blast
      with less.prems have "0 < m" by (simp add: is_power_of_two_def)
      with less.prems m have "is_power_of_two m" using and_pred_even [of m] by (simp add: is_power_of_two_def)
      then obtain k where "m = 2 ^ k" using less.IH [of m] m \<open>0 < m\<close> by auto
      then show ?thesis using m by (intro exI [of _ "Suc k"]) simp
    next
      case False
      then obtain m where m: "v = 2 * m + 1" using oddE by blast
      have "v AND (v - 1) = 2 * m" unfolding m by (subst and_rec) simp
      then have "v = 2 ^ 0" using less.prems m by (simp add: is_power_of_two_def)
      then show ?thesis by blast
    qed
  qed
next
  assume "\<exists>k. v = 2 ^ k"
  then obtain k where k: "v = 2 ^ k" by blast
  have "is_power_of_two (2 ^ k)"
  proof (induction k)
    case (Suc k)
    then show ?case using and_pred_even [of "2 ^ k"] by (simp add: is_power_of_two_def)
  qed (simp add: is_power_of_two_def)
  then show "is_power_of_two v" using k by simp
qed


lemma and_not_mask_dvd: "2 ^ k dvd unat ((w :: 'a::len word) AND NOT (mask k))"
proof -
  have "take_bit k (w AND NOT (mask k)) = 0" by (rule bit_word_eqI) (simp add: bit_simps)
  then have "take_bit k (unat (w AND NOT (mask k))) = 0"
    by (metis unsigned_0 unsigned_take_bit_eq)
  then show ?thesis by (simp add: take_bit_eq_0_iff)
qed

lemma and_not_mask_value:
  assumes "k \<le> LENGTH('a::len)"
  shows "unat ((w :: 'a word) AND NOT (mask k)) = 2 ^ k * (unat w div 2 ^ k)"
proof -
  have "w AND NOT (mask k) = push_bit k (drop_bit k w)" by (rule bit_word_eqI) (auto simp: bit_simps)
  then have "unat (w AND NOT (mask k)) = take_bit LENGTH('a) (push_bit k (drop_bit k (unat w)))"
    by (simp add: unsigned_push_bit_eq unsigned_drop_bit_eq take_bit_nat_eq_self [OF unsigned_less])
  also have "\<dots> = take_bit LENGTH('a) (2 ^ k * (unat w div 2 ^ k))"
    by (simp add: push_bit_eq_mult drop_bit_eq_div mult.commute)
  also have "\<dots> = 2 ^ k * (unat w div 2 ^ k)"
  proof -
    have "2 ^ k * (unat w div 2 ^ k) \<le> unat w" by simp
    also have "unat w < 2 ^ LENGTH('a)" using unsigned_less [of w] by simp
    finally show ?thesis by (simp add: take_bit_nat_eq_self)
  qed
  finally show ?thesis .
qed

lemma pred_mask: "word_of_nat (2 ^ k) - 1 = (mask k :: 'a::len word)"
  by (simp add: mask_eq_exp_minus_1)

definition chunk_ok :: "idx_arena_chunk \<Rightarrow> bool" where
  "chunk_ok c \<longleftrightarrow> k_used c \<le> k_capacity c \<and> k_data c + k_capacity c < 2 ^ 64"

definition chunk_area :: "idx_arena_chunk \<Rightarrow> nat set" where
  "chunk_area c = {k_data c ..< k_data c + k_capacity c}"

definition chunk_taken :: "idx_arena_chunk \<Rightarrow> nat set" where
  "chunk_taken c = {k_data c ..< k_data c + k_used c}"

lemma padding_eq:
  assumes "chunk_ok c"
  shows "padding_for c (2 ^ k) =
     unat (((word_of_nat (k_data c + k_used c + 2 ^ k - 1) :: u64) AND NOT (mask k)) -
           word_of_nat (k_data c + k_used c))"
proof -
  have "(word_of_nat (k_data c + k_used c) + word_of_nat (2 ^ k) - 1 :: u64)
      = word_of_nat (k_data c + k_used c + 2 ^ k - 1)"
    by (subst of_nat_diff) (simp_all add: trans_le_add2)
  then show ?thesis by (simp add: padding_for_def Let_def pred_mask del: of_nat_power of_nat_add)
qed

lemma unat_u64_of_nat: "n < 2 ^ 64 \<Longrightarrow> unat (word_of_nat n :: u64) = n"
  by (simp add: unsigned_of_nat take_bit_nat_eq_self)

lemma chunk_fits_place:
  assumes ok: "chunk_ok c" and fits: "chunk_fits c want align" and al: "is_power_of_two align"
  defines "p \<equiv> k_data c + k_used c + padding_for c align"
  shows "align dvd p \<and> p + want \<le> k_data c + k_capacity c"
proof -
  obtain k where k: "align = 2 ^ k" using al power_of_two_iff by blast
  let ?a = "k_data c + k_used c"
  let ?w = "(word_of_nat (?a + 2 ^ k - 1) :: u64) AND NOT (mask k)"
  have room: "padding_for c align + want \<le> k_capacity c - k_used c"
    using fits by (auto simp: chunk_fits_def Let_def split: if_splits)
  then have end_le: "p + want \<le> k_data c + k_capacity c" using ok by (auto simp: p_def chunk_ok_def)
  have pad: "padding_for c align = unat (?w - word_of_nat ?a)" unfolding k by (rule padding_eq [OF ok])
  then have "word_of_nat (padding_for c align) = ?w - word_of_nat ?a" by simp
  then have "word_of_nat p = ?w" by (simp add: p_def del: of_nat_diff)
  then have "unat (word_of_nat p :: u64) = unat ?w" by (rule arg_cong)
  moreover have "p < 2 ^ 64" using end_le ok by (simp add: chunk_ok_def)
  ultimately have "p = unat ?w" using unat_u64_of_nat [of p] by simp
  then show ?thesis using and_not_mask_dvd [of k "word_of_nat (?a + 2 ^ k - 1) :: u64"] end_le k by simp
qed

lemma new_chunk_fits:
  assumes ok: "chunk_ok c" and cap: "want + (align - 1) \<le> k_capacity c" and used: "k_used c = 0"
    and al: "is_power_of_two align"
  shows "chunk_fits c want align"
proof -
  obtain k where k: "align = 2 ^ k" using al power_of_two_iff by blast
  have pos: "0 < align" using k by simp
  let ?n = "k_data c + align - 1"
  have n: "?n < 2 ^ 64" using ok cap pos by (auto simp: chunk_ok_def)
  have kl: "k \<le> 64"
  proof (rule ccontr)
    assume "\<not> k \<le> 64"
    then have "(2 :: nat) ^ 65 \<le> 2 ^ k" by (intro power_increasing) simp_all
    then show False using n k by simp
  qed
  let ?al = "(word_of_nat ?n :: u64) AND NOT (mask k)"
  have val: "unat ?al = align * (?n div align)"
    using and_not_mask_value [of k "word_of_nat ?n :: u64"] kl unat_u64_of_nat [OF n] k by simp
  have split: "align * (?n div align) + ?n mod align = ?n" by simp
  have md: "?n mod align \<le> align - 1" using pos by (metis Suc_pred' less_Suc_eq_le mod_less_divisor)
  have lower: "k_data c \<le> align * (?n div align)" using split md pos by linarith
  have "padding_for c align = unat (?al - word_of_nat (k_data c))"
    using padding_eq [OF ok, of k] used k by simp
  also have "\<dots> = align * (?n div align) - k_data c"
  proof -
    have d: "unat (word_of_nat (k_data c) :: u64) = k_data c"
      using ok by (intro unat_u64_of_nat) (simp add: chunk_ok_def)
    have "(word_of_nat (k_data c) :: u64) \<le> ?al" using lower val d by (simp only: word_le_nat_alt)
    then show ?thesis using val d by (simp only: unat_sub)
  qed
  also have "\<dots> \<le> align - 1" using split pos by linarith
  finally have "padding_for c align \<le> align - 1" .
  then show ?thesis using cap used by (auto simp: chunk_fits_def Let_def)
qed

section \<open>Well-formed arenas\<close>

text \<open>
  Chunks lie apart in memory, none is filled beyond its capacity, and behind the current one
  only empty chunks are kept. The allocator's documented contract is that a block it returns
  lies apart from the blocks still held and that its end is an address.
\<close>

definition arena_ok :: "idx_arena \<Rightarrow> bool" where
  "arena_ok a \<longleftrightarrow> list_all chunk_ok (a_chunks a) \<and>
     sorted_wrt (\<lambda>c d. chunk_area c \<inter> chunk_area d = {}) (a_chunks a) \<and>
     (case a_current a of None \<Rightarrow> a_chunks a = []
      | Some i \<Rightarrow> i < length (a_chunks a) \<and> list_all (\<lambda>c. k_used c = 0) (drop (Suc i) (a_chunks a)))"

definition arena_taken :: "idx_arena \<Rightarrow> nat set" where
  "arena_taken a = (\<Union>c \<in> set (a_chunks a). chunk_taken c)"

definition malloc_sound :: "malloc_fn \<Rightarrow> bool" where
  "malloc_sound malloc \<longleftrightarrow> (\<forall>chunks n p. malloc chunks n = Some p \<longrightarrow>
     p + n < 2 ^ 64 \<and> (\<forall>c \<in> set chunks. {p ..< p + n} \<inter> chunk_area c = {}))"

lemma taken_in_area: "chunk_ok c \<Longrightarrow> chunk_taken c \<subseteq> chunk_area c"
  by (auto simp: chunk_taken_def chunk_area_def chunk_ok_def)

lemma find_chunk_Some:
  "find_chunk want align cs i = Some j \<Longrightarrow> i \<le> j \<and> j - i < length cs \<and> chunk_fits (cs ! (j - i)) want align \<and>
     (\<forall>m < j - i. \<not> chunk_fits (cs ! m) want align)"
proof (induction cs arbitrary: i)
  case (Cons c cs)
  show ?case
  proof (cases "chunk_fits c want align")
    case False
    then have s: "find_chunk want align cs (Suc i) = Some j" using Cons.prems by simp
    then have "Suc i \<le> j" and *: "j - Suc i < length cs" "chunk_fits (cs ! (j - Suc i)) want align"
      "\<forall>m < j - Suc i. \<not> chunk_fits (cs ! m) want align"
      using Cons.IH [OF s] by auto
    then have "i < j" by simp
    then have eq: "j - i = Suc (j - Suc i)" by simp
    have "\<not> chunk_fits ((c # cs) ! m) want align" if "m < j - i" for m
      using that False *(3) eq by (cases m) auto
    then show ?thesis using * \<open>i < j\<close> eq by simp
  qed (use Cons.prems in auto)
qed simp

lemma find_chunk_first:
  "j < length cs \<Longrightarrow> chunk_fits (cs ! j) want align \<Longrightarrow> (\<And>m. m < j \<Longrightarrow> \<not> chunk_fits (cs ! m) want align) \<Longrightarrow>
     find_chunk want align cs i = Some (i + j)"
proof (induction cs arbitrary: i j)
  case (Cons c cs)
  show ?case
  proof (cases j)
    case (Suc j')
    have "\<not> chunk_fits c want align" using Cons.prems(3) [of 0] Suc by simp
    moreover have "find_chunk want align cs (Suc i) = Some (Suc i + j')"
    proof (rule Cons.IH)
      show "\<not> chunk_fits (cs ! m) want align" if "m < j'" for m
        using Cons.prems(3) [of "Suc m"] that Suc by simp
    qed (use Cons.prems Suc in auto)
    ultimately show ?thesis using Suc by simp
  qed (use Cons.prems in simp)
qed simp

lemma find_chunk_None: "find_chunk want align cs i = None \<longleftrightarrow> (\<forall>c \<in> set cs. \<not> chunk_fits c want align)"
  by (induction cs arbitrary: i) auto

text \<open>Where an allocation is placed: in a chunk that has room, with only empty ones behind it.\<close>

definition spot :: "nat \<Rightarrow> nat \<Rightarrow> nat \<Rightarrow> idx_arena \<Rightarrow> bool" where
  "spot want align i a \<longleftrightarrow> arena_ok a \<and> i < length (a_chunks a) \<and> chunk_fits (a_chunks a ! i) want align \<and>
     list_all (\<lambda>c. k_used c = 0) (drop (Suc i) (a_chunks a))"

lemma walk_spot:
  assumes "arena_ok a" "walk_from_current want align a = Some i"
  shows "spot want align i a"
proof -
  obtain c where c: "a_current a = Some c" and f: "find_chunk want align (drop c (a_chunks a)) c = Some i"
    using assms(2) by (auto simp: walk_from_current_def split: option.splits)
  have cl: "c < length (a_chunks a)" "list_all (\<lambda>c. k_used c = 0) (drop (Suc c) (a_chunks a))"
    using assms(1) c by (auto simp: arena_ok_def)
  have i: "c \<le> i" "i - c < length (a_chunks a) - c" "chunk_fits (drop c (a_chunks a) ! (i - c)) want align"
    using find_chunk_Some [OF f] by auto
  then have "list_all (\<lambda>c. k_used c = 0) (drop (Suc i) (a_chunks a))"
    using cl(2) set_drop_subset_set_drop [of "Suc c" "Suc i" "a_chunks a"] by (auto simp: list_all_iff)
  then show ?thesis using assms(1) i cl by (auto simp: spot_def)
qed

lemma new_spot:
  assumes ok: "arena_ok a" and sound: "malloc_sound malloc" and al: "is_power_of_two align"
    and new: "chunk_new malloc want align a = (Inr c, b)"
  shows "spot want align (length (a_chunks a)) (b\<lparr>a_chunks := a_chunks b @ [c], a_current := Some (length (a_chunks a))\<rparr>)"
    "a_chunks b = a_chunks a" "a_current b = a_current a"
proof -
  define capacity where "capacity = max (want + (align - 1)) (a_chunk_size a)"
  obtain p where p: "malloc (a_chunks a) (SIZEOF_idx_arena_chunk + capacity) = Some p"
    and c: "c = \<lparr>k_data = p + SIZEOF_idx_arena_chunk, k_capacity = capacity, k_used = 0\<rparr>"
    and b: "a_chunks b = a_chunks a" "a_current b = a_current a"
    using new by (auto simp: chunk_new_def Let_def capacity_def max_def split: if_splits option.splits)
  have m: "p + (SIZEOF_idx_arena_chunk + capacity) < 2 ^ 64"
    "\<forall>d \<in> set (a_chunks a). {p ..< p + (SIZEOF_idx_arena_chunk + capacity)} \<inter> chunk_area d = {}"
    using sound p unfolding malloc_sound_def by blast+
  have cok: "chunk_ok c" using m(1) c by (simp add: chunk_ok_def)
  have sub: "chunk_area c \<subseteq> {p ..< p + (SIZEOF_idx_arena_chunk + capacity)}" using c by (auto simp: chunk_area_def)
  then have "\<forall>d \<in> set (a_chunks a). chunk_area d \<inter> chunk_area c = {}" using m(2) by blast
  moreover have "chunk_fits c want align" using cok al c by (intro new_chunk_fits) (auto simp: capacity_def)
  ultimately show "spot want align (length (a_chunks a)) (b\<lparr>a_chunks := a_chunks b @ [c], a_current := Some (length (a_chunks a))\<rparr>)"
    using ok cok b by (simp add: spot_def arena_ok_def sorted_wrt_append)
  show "a_chunks b = a_chunks a" "a_current b = a_current a" by (rule b)+
qed

lemma take_from_spec:
  assumes spot: "spot want align i a" and al: "is_power_of_two align" and tk: "take_from want align i a = (p, b)"
  shows "arena_ok b \<and> align dvd p \<and> {p ..< p + want} \<inter> arena_taken a = {} \<and>
     arena_taken a \<union> {p ..< p + want} \<subseteq> arena_taken b"
proof -
  let ?cs = "a_chunks a"
  let ?c = "?cs ! i"
  let ?pad = "padding_for ?c align"
  let ?c' = "?c\<lparr>k_used := k_used ?c + ?pad + want\<rparr>"
  have ok: "arena_ok a" and i: "i < length ?cs" and fits: "chunk_fits ?c want align"
    and rest: "list_all (\<lambda>c. k_used c = 0) (drop (Suc i) ?cs)"
    using spot by (simp_all add: spot_def)
  have cok: "chunk_ok ?c" using ok i by (simp add: arena_ok_def list_all_length)
  have place: "align dvd p" "p + want \<le> k_data ?c + k_capacity ?c" and p: "p = k_data ?c + k_used ?c + ?pad"
    and cs: "a_chunks b = ?cs[i := ?c']" and cur: "a_current b = Some i"
    using chunk_fits_place [OF cok fits al] tk by (auto simp: take_from_def Let_def)
  have area: "chunk_area ?c' = chunk_area ?c" by (simp add: chunk_area_def)
  have c'ok: "chunk_ok ?c'" using place(2) p cok by (simp add: chunk_ok_def)
  have nth: "a_chunks b ! j = (if j = i then ?c' else ?cs ! j)" if "j < length ?cs" for j
    using that by (simp add: cs nth_list_update)
  have areas: "chunk_area (a_chunks b ! j) = chunk_area (?cs ! j)" if "j < length ?cs" for j
    using that area by (simp add: nth)
  have "list_all chunk_ok (a_chunks b)"
    using ok c'ok i by (auto simp: list_all_length cs nth_list_update arena_ok_def)
  moreover have "sorted_wrt (\<lambda>c d. chunk_area c \<inter> chunk_area d = {}) (a_chunks b)"
    using ok areas by (simp add: arena_ok_def sorted_wrt_iff_nth_less cs del: nth_list_update)
  moreover have "list_all (\<lambda>c. k_used c = 0) (drop (Suc i) (a_chunks b))" using rest cs by simp
  ultimately have "arena_ok b" using i cs cur by (simp add: arena_ok_def)
  moreover have "{p ..< p + want} \<inter> chunk_taken (?cs ! j) = {}" if j: "j < length ?cs" for j
  proof (cases "j = i")
    case False
    have "chunk_area (?cs ! j) \<inter> chunk_area ?c = {}"
      using ok i j False by (auto simp: arena_ok_def sorted_wrt_iff_nth_less Int_commute elim!: linorder_neqE_nat)
    moreover have "chunk_taken (?cs ! j) \<subseteq> chunk_area (?cs ! j)"
      using ok j by (intro taken_in_area) (simp add: arena_ok_def list_all_length)
    moreover have "{p ..< p + want} \<subseteq> chunk_area ?c" using place(2) p by (auto simp: chunk_area_def)
    ultimately show ?thesis by blast
  qed (auto simp: chunk_taken_def p)
  then have "\<forall>c \<in> set ?cs. {p ..< p + want} \<inter> chunk_taken c = {}" by (metis in_set_conv_nth)
  then have "{p ..< p + want} \<inter> arena_taken a = {}" unfolding arena_taken_def by blast
  moreover have "chunk_taken (?cs ! j) \<subseteq> arena_taken b" if "j < length ?cs" for j
  proof -
    have "chunk_taken (?cs ! j) \<subseteq> chunk_taken (a_chunks b ! j)" using nth [OF that] by (auto simp: chunk_taken_def)
    moreover have "a_chunks b ! j \<in> set (a_chunks b)" using that cs by simp
    ultimately show ?thesis unfolding arena_taken_def by blast
  qed
  then have "\<forall>c \<in> set ?cs. chunk_taken c \<subseteq> arena_taken b" by (metis in_set_conv_nth)
  then have "arena_taken a \<subseteq> arena_taken b" unfolding arena_taken_def [of a] by blast
  moreover have "{p ..< p + want} \<subseteq> arena_taken b"
  proof -
    have "{p ..< p + want} \<subseteq> chunk_taken ?c'" using p by (auto simp: chunk_taken_def)
    moreover have "?c' \<in> set (a_chunks b)" using i cs by (simp add: set_update_memI)
    ultimately show ?thesis unfolding arena_taken_def by blast
  qed
  ultimately show ?thesis using place(1) by blast
qed

lemma alloc_cases:
  assumes ok: "arena_ok a" and sound: "malloc_sound malloc"
    and run: "idx_arena_alloc_aligned malloc want align (Some a) = (r, b)"
  shows "\<exists>c. b = Some c \<and> (case r of
      Inl e \<Rightarrow> c = a
    | Inr p \<Rightarrow> \<exists>i a'. spot want align i a' \<and> is_power_of_two align \<and> take_from want align i a' = (p, c) \<and>
        arena_taken a' = arena_taken a)"
proof (cases "is_power_of_two align")
  case True
  show ?thesis
  proof (cases "walk_from_current want align a")
    case (Some i)
    obtain p c where "take_from want align i a = (p, c)" by fastforce
    moreover from this have "b = Some c \<and> r = Inr p" using run True Some by simp
    ultimately show ?thesis using True walk_spot [OF ok Some] by (simp, blast)
  next
    case None
    show ?thesis
    proof (cases "chunk_new malloc want align a")
      case (Pair q d)
      show ?thesis
      proof (cases q)
        case (Inl e)
        then have "d = a" using Pair by (auto simp: chunk_new_def Let_def split: if_splits option.splits)
        then show ?thesis using run True None Pair Inl by auto
      next
        case (Inr c)
        let ?n = "length (a_chunks a)"
        let ?d = "d\<lparr>a_chunks := a_chunks d @ [c], a_current := Some ?n\<rparr>"
        note new = new_spot [OF ok sound True Pair [unfolded Inr]]
        have "arena_taken ?d = arena_taken a"
          using new Pair Inr by (auto simp: arena_taken_def chunk_taken_def chunk_new_def Let_def
              split: if_splits option.splits)
        moreover have "take_from want align ?n (d\<lparr>a_chunks := a_chunks d @ [c]\<rparr>) = take_from want align ?n ?d"
          by (simp add: take_from_def Let_def)
        moreover obtain p e where tk: "take_from want align ?n (d\<lparr>a_chunks := a_chunks d @ [c]\<rparr>) = (p, e)"
          by fastforce
        moreover from this have "b = Some e \<and> r = Inr p" using run True None Pair Inr new(2) by simp
        ultimately show ?thesis using True new(1,2) by (simp, blast)
      qed
    qed
  qed
qed (use run in auto)

lemma alloc_spec:
  assumes "arena_ok a" "malloc_sound malloc"
    and "idx_arena_alloc_aligned malloc want align (Some a) = (r, b)"
  shows "\<exists>c. b = Some c \<and> arena_ok c \<and> arena_taken a \<subseteq> arena_taken c \<and> (\<forall>p. r = Inr p \<longrightarrow>
     align dvd p \<and> {p ..< p + want} \<inter> arena_taken a = {} \<and> {p ..< p + want} \<subseteq> arena_taken c)"
proof -
  obtain c where c: "b = Some c" and rc: "case r of Inl e \<Rightarrow> c = a
    | Inr p \<Rightarrow> \<exists>i a'. spot want align i a' \<and> is_power_of_two align \<and> take_from want align i a' = (p, c) \<and>
        arena_taken a' = arena_taken a"
    using alloc_cases [OF assms] by blast
  show ?thesis
  proof (cases r)
    case (Inl e)
    then show ?thesis using c rc assms(1) by auto
  next
    case (Inr p)
    then obtain i a' where "spot want align i a'" "is_power_of_two align" "take_from want align i a' = (p, c)"
      and "arena_taken a' = arena_taken a"
      using rc by auto
    then show ?thesis using take_from_spec [of want align i a' p c] c Inr by simp
  qed
qed

lemma reset_ok: "arena_ok a \<Longrightarrow> idx_arena_reset (Some a) = Some b \<Longrightarrow> arena_ok b \<and> arena_taken b = {}"
  by (auto simp: idx_arena_reset_def arena_ok_def arena_taken_def chunk_taken_def chunk_ok_def chunk_area_def
      list_all_iff sorted_wrt_map drop_map)

lemma init_ok: "idx_arena_init (Some x) n = Some a \<Longrightarrow> arena_ok a \<and> arena_taken a = {}"
  by (auto simp: idx_arena_init_def arena_ok_def arena_taken_def)

text \<open>The arenas a program can hold: started empty, then any sequence of operations.\<close>

inductive arena_reached :: "malloc_fn \<Rightarrow> idx_arena \<Rightarrow> bool" for malloc where
  start: "idx_arena_init (Some x) n = Some a \<Longrightarrow> arena_reached malloc a"
| alloc: "arena_reached malloc a \<Longrightarrow> idx_arena_alloc_aligned malloc want align (Some a) = (r, Some b) \<Longrightarrow>
    arena_reached malloc b"
| reset: "arena_reached malloc a \<Longrightarrow> idx_arena_reset (Some a) = Some b \<Longrightarrow> arena_reached malloc b"
| destroy: "arena_reached malloc a \<Longrightarrow> idx_arena_destroy (Some a) = (Some b, freed) \<Longrightarrow> arena_reached malloc b"

lemma reached_ok: "arena_reached malloc a \<Longrightarrow> malloc_sound malloc \<Longrightarrow> arena_ok a"
proof (induction rule: arena_reached.induct)
  case (alloc a want align r b)
  then show ?case using alloc_spec [of a malloc want align r "Some b"] by auto
next
  case (destroy a b freed)
  then show ?case using init_ok [of a "a_chunk_size a" b] by simp
qed (use init_ok reset_ok in blast)+

abbreviation serve :: "malloc_fn \<Rightarrow> (nat \<times> nat) list \<Rightarrow> (nat list, idx_arena option) op" where
  "serve malloc \<equiv> op_map (\<lambda>(want, align). idx_arena_alloc_aligned malloc want align)"

text \<open>
  Blocks that are aligned as asked for and lie apart from the addresses in \<open>T\<close> and from each
  other.
\<close>

fun laid_out :: "nat set \<Rightarrow> (nat \<times> nat) list \<Rightarrow> nat list \<Rightarrow> bool" where
  "laid_out T ((want, align) # reqs) (p # ps) \<longleftrightarrow> align dvd p \<and> {p ..< p + want} \<inter> T = {} \<and>
     laid_out (T \<union> {p ..< p + want}) reqs ps"
| "laid_out T reqs ps \<longleftrightarrow> reqs = [] \<and> ps = []"

lemma laid_out_mono: "laid_out U reqs ps \<Longrightarrow> T \<subseteq> U \<Longrightarrow> laid_out T reqs ps"
proof (induction U reqs ps arbitrary: T rule: laid_out.induct)
  case (1 U want align reqs p ps)
  have l: "laid_out (U \<union> {p ..< p + want}) reqs ps" "align dvd p" "{p ..< p + want} \<inter> U = {}"
    using "1.prems"(1) by (simp_all only: laid_out.simps)
  have "T \<union> {p ..< p + want} \<subseteq> U \<union> {p ..< p + want}" using "1.prems"(2) by (rule Un_mono) simp
  then have "laid_out (T \<union> {p ..< p + want}) reqs ps" by (rule "1.IH" [OF l(1)])
  moreover have "{p ..< p + want} \<inter> T = {}" using l(3) "1.prems"(2) by blast
  ultimately show ?case using l(2) by (simp only: laid_out.simps simp_thms)
qed simp_all

lemma serve_spec:
  assumes sound: "malloc_sound malloc"
  shows "arena_ok a \<Longrightarrow> serve malloc reqs (Some a) = (Inr ps, b) \<Longrightarrow> laid_out (arena_taken a) reqs ps"
proof (induction reqs arbitrary: a ps)
  case (Cons req reqs)
  obtain want align where req: "req = (want, align)" by (cases req)
  obtain p u qs where p: "idx_arena_alloc_aligned malloc want align (Some a) = (Inr p, u)"
    and qs: "serve malloc reqs u = (Inr qs, b)" and ps: "ps = p # qs"
    using Cons.prems(2) req by (auto simp: op_try_Inr_iff)
  obtain d where d: "u = Some d" "arena_ok d" "arena_taken a \<subseteq> arena_taken d" "align dvd p"
    "{p ..< p + want} \<inter> arena_taken a = {}" "{p ..< p + want} \<subseteq> arena_taken d"
    using alloc_spec [OF Cons.prems(1) sound p] by auto
  have "laid_out (arena_taken d) reqs qs" using Cons.IH [OF d(2)] qs d(1) by simp
  moreover have "arena_taken a \<union> {p ..< p + want} \<subseteq> arena_taken d" using d(3,6) by (rule Un_least)
  ultimately have "laid_out (arena_taken a \<union> {p ..< p + want}) reqs qs" by (rule laid_out_mono)
  then show ?case using d(4,5) req ps by (simp only: laid_out.simps simp_thms)
qed simp

section \<open>Reuse after a reset\<close>

text \<open>
  \<open>shadows x y\<close>: the arena \<open>y\<close> has the chunks of \<open>x\<close>, filled alike, and possibly more empty
  ones behind; both are filling the same chunk, except that \<open>x\<close> may not have a chunk yet.
\<close>

definition cleared :: "idx_arena_chunk list \<Rightarrow> idx_arena_chunk list" where
  "cleared = map (\<lambda>c. c\<lparr>k_used := 0\<rparr>)"

definition shadows :: "idx_arena \<Rightarrow> idx_arena \<Rightarrow> bool" where
  "shadows x y \<longleftrightarrow> (\<exists>tail. a_chunks y = a_chunks x @ tail \<and> list_all (\<lambda>c. k_used c = 0) tail) \<and>
     (case a_current x of
        None \<Rightarrow> a_chunks x = [] \<and> (a_chunks y = [] \<or> a_current y = Some 0)
      | Some i \<Rightarrow> a_current y = Some i)"

lemma cleared_cleared [simp]: "cleared (cleared cs) = cleared cs"
  by (simp add: cleared_def)

lemma cleared_unused: "list_all (\<lambda>c. k_used c = 0) cs \<Longrightarrow> cleared cs = cs"
  by (induction cs) (auto simp: cleared_def)

lemma cleared_take_from:
  "i < length (a_chunks a) \<Longrightarrow> take_from want align i a = (p, b) \<Longrightarrow> cleared (a_chunks b) = cleared (a_chunks a)"
  by (auto simp: take_from_def Let_def cleared_def map_update list_update_same_conv)

text \<open>An allocation either lands in a chunk the walk finds, or in a new one at the end.\<close>

lemma alloc_Inr:
  assumes ok: "arena_ok x" and sound: "malloc_sound malloc"
    and run: "idx_arena_alloc_aligned malloc want align (Some x) = (Inr p, Some x')"
  shows "is_power_of_two align \<and>
    ((\<exists>i. walk_from_current want align x = Some i \<and> spot want align i x \<and> take_from want align i x = (p, x')) \<or>
     (\<exists>c d. walk_from_current want align x = None \<and> k_used c = 0 \<and> chunk_fits c want align \<and>
        a_chunks d = a_chunks x @ [c] \<and> take_from want align (length (a_chunks x)) d = (p, x')))"
proof (cases "walk_from_current want align x")
  case (Some i)
  then show ?thesis using run walk_spot [OF ok Some] by (auto split: if_splits prod.splits)
next
  case None
  then obtain c d where al: "is_power_of_two align" and new: "chunk_new malloc want align x = (Inr c, d)"
    and tk: "take_from want align (length (a_chunks d)) (d\<lparr>a_chunks := a_chunks d @ [c]\<rparr>) = (p, x')"
    using run by (auto split: if_splits prod.splits sum.splits)
  note new_spot [OF ok sound al new]
  moreover have "k_used c = 0" using new by (auto simp: chunk_new_def Let_def split: if_splits option.splits)
  ultimately show ?thesis using al tk None
    by (auto simp: spot_def nth_append intro!: exI [of _ c] exI [of _ "d\<lparr>a_chunks := a_chunks x @ [c]\<rparr>"])
qed

lemma serve_grows:
  assumes sound: "malloc_sound malloc"
  shows "arena_ok x \<Longrightarrow> serve malloc reqs (Some x) = (Inr ps, Some z) \<Longrightarrow>
     \<exists>tail. cleared (a_chunks z) = cleared (a_chunks x) @ tail"
proof (induction reqs arbitrary: x ps)
  case (Cons req reqs)
  obtain want align where req: "req = (want, align)" by (cases req)
  obtain p u qs where p: "idx_arena_alloc_aligned malloc want align (Some x) = (Inr p, u)"
    and qs: "serve malloc reqs u = (Inr qs, Some z)"
    using Cons.prems(2) req by (auto simp: op_try_Inr_iff)
  obtain x' where x': "u = Some x'" "arena_ok x'" using alloc_spec [OF Cons.prems(1) sound p] by auto
  have "\<exists>tail. cleared (a_chunks x') = cleared (a_chunks x) @ tail"
    using alloc_Inr [OF Cons.prems(1) sound p [unfolded x'(1)]]
  proof (elim conjE disjE exE)
    fix i assume "spot want align i x" "take_from want align i x = (p, x')"
    then show ?thesis using cleared_take_from [of i x] by (simp add: spot_def)
  next
    fix c d assume "a_chunks d = a_chunks x @ [c]" "take_from want align (length (a_chunks x)) d = (p, x')"
    then show ?thesis using cleared_take_from [of "length (a_chunks x)" d] by (simp add: cleared_def)
  qed
  then show ?case using Cons.IH [OF x'(2)] qs x'(1) by fastforce
qed auto

lemma find_chunk_append:
  "find_chunk want align cs i = Some j \<Longrightarrow> find_chunk want align (cs @ tail) i = Some j"
  by (induction cs arbitrary: i) (auto split: if_splits)

text \<open>The same request on the shadowing arena is served at the same place, without the allocator.\<close>

lemma shadow_step:
  assumes ok: "arena_ok x" and sound: "malloc_sound malloc" and sh: "shadows x y"
    and run: "idx_arena_alloc_aligned malloc want align (Some x) = (Inr p, Some x')"
    and pre: "cleared (a_chunks y) = cleared (a_chunks x') @ rest"
  shows "\<exists>y'. idx_arena_alloc_aligned malloc' want align (Some y) = (Inr p, Some y') \<and> shadows x' y' \<and>
     cleared (a_chunks y') = cleared (a_chunks y) \<and> a_bytes_reserved y' = a_bytes_reserved y"
proof -
  obtain tail where tail: "a_chunks y = a_chunks x @ tail" "list_all (\<lambda>c. k_used c = 0) tail"
    using sh by (auto simp: shadows_def)
  have served: ?thesis
    if al: "is_power_of_two align" and w: "walk_from_current want align y = Some i"
      and tk: "take_from want align i d = (p, x')" and d: "a_chunks d = take (length (a_chunks d)) (a_chunks y)"
      and i: "i < length (a_chunks d)" and un: "list_all (\<lambda>c. k_used c = 0) (drop (length (a_chunks d)) (a_chunks y))"
    for i d
  proof -
    obtain q y' where tky: "take_from want align i y = (q, y')" by fastforce
    have nth: "a_chunks y ! i = a_chunks d ! i" using d i by (metis nth_take)
    have iy: "i < length (a_chunks y)" using d i by (metis length_take min_less_iff_conj)
    have split: "a_chunks y = a_chunks d @ drop (length (a_chunks d)) (a_chunks y)"
      using d by (metis append_take_drop_id)
    have "q = p" "a_current y' = Some i" "a_current x' = Some i" "a_bytes_reserved y' = a_bytes_reserved y"
      "\<exists>e. a_chunks x' = (a_chunks d)[i := e] \<and> a_chunks y' = (a_chunks y)[i := e]"
      using tk tky nth by (auto simp: take_from_def Let_def)
    moreover from this have "a_chunks y' = a_chunks x' @ drop (length (a_chunks d)) (a_chunks y)"
      using split i by (metis list_update_append1)
    ultimately have "shadows x' y'" using un by (auto simp: shadows_def)
    moreover have "idx_arena_alloc_aligned malloc' want align (Some y) = (Inr p, Some y')"
      using al w tky \<open>q = p\<close> by simp
    ultimately show ?thesis
      using cleared_take_from [OF iy tky] \<open>a_bytes_reserved y' = a_bytes_reserved y\<close> by blast
  qed
  show ?thesis using alloc_Inr [OF ok sound run]
  proof (elim conjE disjE exE)
    fix i assume al: "is_power_of_two align" and w: "walk_from_current want align x = Some i"
      and sp: "spot want align i x" and tk: "take_from want align i x = (p, x')"
    obtain k where k: "a_current x = Some k" "k < length (a_chunks x)"
      and f: "find_chunk want align (drop k (a_chunks x)) k = Some i"
      using w ok by (auto simp: walk_from_current_def arena_ok_def split: option.splits)
    have "walk_from_current want align y = Some i"
      using find_chunk_append [OF f] k sh tail(1) by (simp add: walk_from_current_def shadows_def)
    then show ?thesis using al tk sp tail by (intro served [of i x]) (auto simp: spot_def)
  next
    fix c d assume al: "is_power_of_two align" and w: "walk_from_current want align x = None"
      and c: "k_used c = 0" "chunk_fits c want align" and d: "a_chunks d = a_chunks x @ [c]"
      and tk: "take_from want align (length (a_chunks x)) d = (p, x')"
    let ?n = "length (a_chunks x)"
    have "cleared (a_chunks x') = cleared (a_chunks x) @ [c]"
      using cleared_take_from [of ?n d want align p x'] d tk c(1) by (simp add: cleared_def)
    then have "cleared tail = c # rest" using pre tail(1) by (simp add: cleared_def)
    then obtain tail' where tail': "tail = c # tail'" using tail(2) cleared_unused by metis
    have "walk_from_current want align y = Some ?n"
    proof (cases "a_current x")
      case None
      then show ?thesis using sh tail tail' c(2) ok by (auto simp: walk_from_current_def shadows_def arena_ok_def)
    next
      case (Some k)
      then have "k < ?n" and nofit: "\<forall>c \<in> set (drop k (a_chunks x)). \<not> chunk_fits c want align"
        using w ok by (auto simp: walk_from_current_def arena_ok_def find_chunk_None)
      then have "find_chunk want align (drop k (a_chunks x) @ c # tail') k = Some (k + length (drop k (a_chunks x)))"
        using c(2) nofit by (intro find_chunk_first) (auto simp: nth_append simp del: nth_drop)
      then show ?thesis using Some sh tail(1) tail' \<open>k < ?n\<close>
        by (simp add: walk_from_current_def shadows_def)
    qed
    then show ?thesis using al tk tail tail' d by (intro served [of ?n d]) auto
  qed
qed

lemma serve_again:
  assumes sound: "malloc_sound malloc"
  shows "arena_ok x \<Longrightarrow> serve malloc reqs (Some x) = (Inr ps, Some z) \<Longrightarrow> shadows x y \<Longrightarrow>
     cleared (a_chunks y) = cleared (a_chunks z) \<Longrightarrow>
     \<exists>w. serve malloc' reqs (Some y) = (Inr ps, Some w) \<and> a_chunks w = a_chunks z \<and>
       a_bytes_reserved w = a_bytes_reserved y"
proof (induction reqs arbitrary: x y ps)
  case Nil
  then obtain tail where "a_chunks y = a_chunks z @ tail" by (auto simp: shadows_def)
  moreover from this have "tail = []" using Nil by (simp add: cleared_def)
  ultimately show ?case using Nil by simp
next
  case (Cons req reqs)
  obtain want align where req: "req = (want, align)" by (cases req)
  obtain p u qs where p: "idx_arena_alloc_aligned malloc want align (Some x) = (Inr p, u)"
    and qs: "serve malloc reqs u = (Inr qs, Some z)" and ps: "ps = p # qs"
    using Cons.prems(2) req by (auto simp: op_try_Inr_iff)
  obtain x' where x': "u = Some x'" "arena_ok x'" using alloc_spec [OF Cons.prems(1) sound p] by auto
  obtain rest where "cleared (a_chunks z) = cleared (a_chunks x') @ rest"
    using serve_grows [OF sound x'(2)] qs x'(1) by blast
  then obtain y' where y': "idx_arena_alloc_aligned malloc' want align (Some y) = (Inr p, Some y')"
    "shadows x' y'" "cleared (a_chunks y') = cleared (a_chunks y)" "a_bytes_reserved y' = a_bytes_reserved y"
    using shadow_step [OF Cons.prems(1) sound Cons.prems(3) p [unfolded x'(1)]] Cons.prems(4) by metis
  obtain w where "serve malloc' reqs (Some y') = (Inr qs, Some w)" "a_chunks w = a_chunks z"
    "a_bytes_reserved w = a_bytes_reserved y'"
    using Cons.IH [OF x'(2) qs [unfolded x'(1)] y'(2)] y'(3) Cons.prems(4) by auto
  then show ?case using y' req ps by (simp add: op_try_Inr_iff)
qed

section \<open>Operations built on the arena\<close>

text \<open>
  \<open>keeps malloc m\<close>: whether \<open>m\<close> succeeds or fails, a reachable arena stays reachable, so the
  properties of reachable arenas hold for whatever is allocated afterwards.
\<close>

definition keeps :: "malloc_fn \<Rightarrow> ('a, idx_arena option) op \<Rightarrow> bool" where
  "keeps malloc m \<longleftrightarrow> (\<forall>a r b. arena_reached malloc a \<longrightarrow> m (Some a) = (r, b) \<longrightarrow>
     (\<exists>c. b = Some c \<and> arena_reached malloc c))"

lemma keeps_return: "keeps malloc (op_return r)"
  by (auto simp: keeps_def)

lemma keeps_try: "keeps malloc m \<Longrightarrow> (\<And>x. keeps malloc (k x)) \<Longrightarrow> keeps malloc (op_try m k)"
  unfolding keeps_def op_try_def by (fastforce split: prod.splits sum.splits)

lemma keeps_map: "(\<And>x. x \<in> set xs \<Longrightarrow> keeps malloc (f x)) \<Longrightarrow> keeps malloc (op_map f xs)"
  by (induction xs) (auto intro!: keeps_try keeps_return)

lemma keeps_if: "keeps malloc m \<Longrightarrow> keeps malloc n \<Longrightarrow> keeps malloc (if b then m else n)"
  by simp

lemma keeps_pair: "(\<And>x y. keeps malloc (f x y)) \<Longrightarrow> keeps malloc (case p of (x, y) \<Rightarrow> f x y)"
  by (cases p) simp

lemma alloc_gives_Some:
  "idx_arena_alloc_aligned malloc want align (Some a) = (r, b) \<Longrightarrow> \<exists>c. b = Some c"
  by (auto split: if_splits option.splits prod.splits sum.splits)

lemma keeps_alloc: "keeps malloc (idx_arena_alloc malloc want)"
  unfolding keeps_def idx_arena_alloc_def
  using alloc_gives_Some arena_reached.alloc by metis

lemma keeps_calloc: "keeps malloc (idx_arena_calloc malloc count width)"
  by (simp add: idx_arena_calloc_def keeps_alloc keeps_return)

lemmas keeps_intros = keeps_return keeps_try keeps_map keeps_if keeps_pair keeps_alloc keeps_calloc

section \<open>Properties\<close>

text \<open>
  C21: Allocations never overlap. In every arena a program can reach, with an allocator that
  keeps its contract, the blocks a sequence of requests is served with are aligned as asked,
  lie apart from each other and from everything handed out since the last reset.
\<close>

theorem arena_blocks_apart:
  assumes "malloc_sound malloc" "arena_reached malloc a"
    and "op_map (\<lambda>(want, align). idx_arena_alloc_aligned malloc want align) reqs (Some a) = (Inr ps, b)"
  shows "laid_out (arena_taken a) reqs ps"
  using serve_spec [OF assms(1) reached_ok [OF assms(2,1)]] assms(3) .

text \<open>An allocator with a single block, enough for the witnesses.\<close>

definition one_block_malloc :: malloc_fn where
  "one_block_malloc chunks n = (if chunks = [] \<and> n < 65536 then Some 4096 else None)"

definition one_chunk :: "nat option \<Rightarrow> nat \<Rightarrow> idx_arena" where
  "one_chunk current used = \<lparr>a_chunks = [\<lparr>k_data = 4128, k_capacity = 64, k_used = used\<rparr>],
     a_current = current, a_chunk_size = 64, a_bytes_reserved = 64, a_bytes_used = used\<rparr>"

definition no_chunk :: idx_arena where
  "no_chunk = \<lparr>a_chunks = [], a_current = None, a_chunk_size = 64, a_bytes_reserved = 0, a_bytes_used = 0\<rparr>"

lemma one_block_sound: "malloc_sound one_block_malloc"
  by (auto simp: malloc_sound_def one_block_malloc_def)

lemma no_chunk_reached: "arena_reached malloc no_chunk"
  by (rule arena_reached.start [of no_chunk 64]) (simp add: idx_arena_init_def no_chunk_def)

lemmas arena_eval = walk_from_current_def chunk_new_def take_from_def chunk_fits_def padding_for_def
  is_power_of_two_def SIZE_MAX_def SIZEOF_idx_arena_chunk_def one_block_malloc_def one_chunk_def no_chunk_def op_try_def Let_def

lemma one_chunk_run:
  "serve one_block_malloc [(10, 1), (24, 16)] (Some no_chunk) = (Inr [4128, 4144], Some (one_chunk (Some 0) 40))"
  by (simp add: arena_eval op_return_def)

theorem arena_blocks_apart_witness:
  "laid_out (arena_taken no_chunk) [(10, 1), (24, 16)] [4128, 4144]"
  using arena_blocks_apart [OF one_block_sound no_chunk_reached one_chunk_run] .

text \<open>
  A reset arena serves the same work without the allocator. Requests that were served once
  after a reset are served again after the next one at the same addresses, whatever
  \<^verbatim>\<open>malloc\<close> would answer now, and the arena reserves nothing more.
\<close>

theorem arena_reset_reuses:
  assumes "malloc_sound malloc" "arena_reached malloc a"
    and "op_map (\<lambda>(want, align). idx_arena_alloc_aligned malloc want align) reqs (idx_arena_reset (Some a)) =
           (Inr ps, Some b)"
  shows "\<exists>c. op_map (\<lambda>(want, align). idx_arena_alloc_aligned malloc' want align) reqs (idx_arena_reset (Some b)) =
           (Inr ps, Some c) \<and> a_chunks c = a_chunks b \<and> a_bytes_reserved c = a_bytes_reserved b"
proof -
  obtain x where x: "idx_arena_reset (Some a) = Some x" by (simp add: idx_arena_reset_def)
  obtain y where y: "idx_arena_reset (Some b) = Some y" by (simp add: idx_arena_reset_def)
  have ok: "arena_ok x" using reset_ok [OF reached_ok [OF assms(2,1)] x] by simp
  obtain tail where tail: "cleared (a_chunks b) = cleared (a_chunks x) @ tail"
    using serve_grows [OF assms(1) ok] assms(3) x by fastforce
  have xs: "a_chunks x = cleared (a_chunks a)" "a_current x = (if a_chunks a = [] then None else Some 0)"
    and ys: "a_chunks y = cleared (a_chunks b)" "a_current y = (if a_chunks b = [] then None else Some 0)"
      "a_bytes_reserved y = a_bytes_reserved b"
    using x y by (auto simp: idx_arena_reset_def cleared_def)
  have split: "a_chunks y = a_chunks x @ tail" using tail xs(1) ys(1) by simp
  have "list_all (\<lambda>c. k_used c = 0) (cleared (a_chunks b))" by (simp add: cleared_def list_all_iff)
  then have "list_all (\<lambda>c. k_used c = 0) tail" using tail by simp
  moreover have "a_chunks a \<noteq> [] \<Longrightarrow> a_chunks b \<noteq> []" using tail xs(1) by (auto simp: cleared_def)
  moreover have "a_current x = None \<Longrightarrow> a_chunks y = [] \<or> a_current y = Some 0"
    using ys by (auto simp: cleared_def)
  ultimately have "shadows x y" using split xs ys by (auto simp: shadows_def cleared_def)
  moreover have "cleared (a_chunks y) = cleared (a_chunks b)" using ys(1) by simp
  ultimately show ?thesis
    using serve_again [OF assms(1) ok assms(3) [unfolded x], of y malloc'] y ys(3) by simp
qed

theorem arena_reset_reuses_witness:
  "\<exists>c. op_map (\<lambda>(want, align). idx_arena_alloc_aligned (\<lambda>_ _. None) want align) [(10, 1), (24, 16)]
           (idx_arena_reset (Some (one_chunk (Some 0) 40))) = (Inr [4128, 4144], Some c) \<and>
     a_chunks c = a_chunks (one_chunk (Some 0) 40) \<and> a_bytes_reserved c = a_bytes_reserved (one_chunk (Some 0) 40)"
proof -
  have "idx_arena_reset (Some no_chunk) = Some no_chunk" by (simp add: idx_arena_reset_def no_chunk_def)
  then show ?thesis
    using arena_reset_reuses [OF one_block_sound no_chunk_reached, of "[(10, 1), (24, 16)]" "[4128, 4144]"
        "one_chunk (Some 0) 40" "\<lambda>_ _. None"] one_chunk_run by simp
qed

end
