(* ===== verification/Block.thy ===== *)
theory Block
  imports Json Types Arena
begin

text \<open>
  The decoded block model (\<^verbatim>\<open>src/block.c\<close>, \<^verbatim>\<open>include/block.h\<close>): block, transactions,
  accounts, instructions and metadata, decoded from the JSON form of a block. An array with its
  count is a list, \<^verbatim>\<open>NULL\<close> with count zero the empty one. Decoding carries the arena it
  allocates from; \<open>malloc\<close> is the allocator behind the arena and \<open>calloc_ok\<close> the outcome of
  the base58 scratch allocation. Structure sizes are those of the LP64 ABI.
\<close>

section \<open>Data model\<close>

datatype idx_tx_version = IDX_TX_VERSION_LEGACY | IDX_TX_VERSION_0

definition idx_tx_version_name :: "idx_tx_version \<Rightarrow> string" where
  "idx_tx_version_name version = (case version of
      IDX_TX_VERSION_LEGACY \<Rightarrow> ''legacy''
    | IDX_TX_VERSION_0 \<Rightarrow> ''v0'')"

record idx_account =
  pubkey :: idx_pubkey
  is_signer :: bool
  is_writable :: bool
  from_lookup_table :: bool

record idx_instruction =
  program_id_index :: byte
  account_indices :: "byte list"
  ix_data :: idx_slice
  stack_height :: u16

record idx_inner_instructions =
  grp_index :: byte
  grp_instructions :: "idx_instruction list"

record idx_token_balance =
  account_index :: byte
  tb_mint :: idx_pubkey
  tb_owner :: idx_pubkey
  tb_program_id :: idx_pubkey
  tb_has_owner :: bool
  tb_has_program_id :: bool
  tb_amount :: u64
  tb_decimals :: byte

record idx_transaction =
  version :: idx_tx_version
  signatures :: "idx_signature list"
  num_required_signatures :: byte
  num_readonly_signed :: byte
  num_readonly_unsigned :: byte
  recent_blockhash :: idx_hash
  accounts :: "idx_account list"
  static_account_count :: nat
  instructions :: "idx_instruction list"
  inner_instructions :: "idx_inner_instructions list"
  has_meta :: bool
  success :: bool
  fee :: u64
  pre_balances :: "u64 list"
  post_balances :: "u64 list"
  pre_token_balances :: "idx_token_balance list"
  post_token_balances :: "idx_token_balance list"
  logs :: "idx_slice list"

text \<open>Unix seconds are kept as their 64 bits, read as signed.\<close>

record idx_block =
  slot :: u64
  blockhash :: idx_hash
  previous_blockhash :: idx_hash
  parent_slot :: u64
  block_height :: u64
  has_block_height :: bool
  block_time :: u64
  has_block_time :: bool
  transactions :: "idx_transaction list"

definition SIZEOF_idx_account :: nat where "SIZEOF_idx_account = 35"
definition SIZEOF_idx_instruction :: nat where "SIZEOF_idx_instruction = 48"
definition SIZEOF_idx_inner_instructions :: nat where "SIZEOF_idx_inner_instructions = 24"
definition SIZEOF_idx_token_balance :: nat where "SIZEOF_idx_token_balance = 120"
definition SIZEOF_idx_slice :: nat where "SIZEOF_idx_slice = 16"
definition SIZEOF_idx_transaction :: nat where "SIZEOF_idx_transaction = 208"

definition zero_hash :: idx_hash where
  "zero_hash = replicate IDX_HASH_LEN 0"

definition zero_token_balance :: idx_token_balance where
  "zero_token_balance = \<lparr>account_index = 0, tb_mint = IDX_PUBKEY_DEFAULT, tb_owner = IDX_PUBKEY_DEFAULT,
     tb_program_id = IDX_PUBKEY_DEFAULT, tb_has_owner = False, tb_has_program_id = False,
     tb_amount = 0, tb_decimals = 0\<rparr>"

definition zero_transaction :: idx_transaction where
  "zero_transaction = \<lparr>version = IDX_TX_VERSION_LEGACY, signatures = [],
     num_required_signatures = 0, num_readonly_signed = 0, num_readonly_unsigned = 0,
     recent_blockhash = zero_hash, accounts = [], static_account_count = 0, instructions = [],
     inner_instructions = [], has_meta = False, success = False, fee = 0, pre_balances = [],
     post_balances = [], pre_token_balances = [], post_token_balances = [], logs = []\<rparr>"

section \<open>Access\<close>

definition idx_instruction_program_id :: "idx_transaction \<Rightarrow> idx_instruction \<Rightarrow> idx_pubkey" where
  "idx_instruction_program_id tx ix = pubkey (accounts tx ! unat (program_id_index ix))"

definition idx_instruction_account :: "idx_transaction \<Rightarrow> idx_instruction \<Rightarrow> nat \<Rightarrow> idx_pubkey option" where
  "idx_instruction_account tx ix position =
     (if position \<ge> length (account_indices ix) then None
      else Some (pubkey (accounts tx ! unat (account_indices ix ! position))))"

section \<open>Fields\<close>

type_synonym 'a arena_op = "('a, idx_arena option) op"

text \<open>The text of a slice as the characters the base58 decoder reads.\<close>

definition chars_of :: "idx_slice \<Rightarrow> string option" where
  "chars_of view = Some (map (\<lambda>b. char_of (unat b)) view)"

definition read_u8_field :: "idx_json_val \<Rightarrow> string option \<Rightarrow> byte result" where
  "read_u8_field object key = idx_try (idx_json_read_u64 object key) (\<lambda>v.
     if v > 0xFF then Inl IDX_ERR_PARSE else Inr (ucast v))"

definition decode_pubkey_value :: "bool \<Rightarrow> idx_json_val \<Rightarrow> idx_pubkey result" where
  "decode_pubkey_value calloc_ok v = idx_try (idx_json_as_string v) (\<lambda>view.
     idx_pubkey_from_base58 calloc_ok (chars_of view))"

definition read_hash_field :: "bool \<Rightarrow> idx_json_val \<Rightarrow> string option \<Rightarrow> idx_hash result" where
  "read_hash_field calloc_ok object key = idx_try (idx_json_read_string object key) (\<lambda>view.
     idx_hash_from_base58 calloc_ok (chars_of view))"

definition read_pubkey_field :: "bool \<Rightarrow> idx_json_val \<Rightarrow> string option \<Rightarrow> idx_pubkey result" where
  "read_pubkey_field calloc_ok object key = idx_try (idx_json_read_string object key) (\<lambda>view.
     idx_pubkey_from_base58 calloc_ok (chars_of view))"

text \<open>\<^verbatim>\<open>char\<close> is signed: a byte above 127 compares below the digits.\<close>

fun parse_digits :: "bytes \<Rightarrow> u64 \<Rightarrow> u64 result" where
  "parse_digits [] v = Inr v"
| "parse_digits (c # rest) v =
     (if sint c < 48 \<or> sint c > 57 then Inl IDX_ERR_PARSE
      else let digit = word_of_int (sint c - 48) in
        if v > (- 1 - digit) div 10 then Inl IDX_ERR_PARSE
        else parse_digits rest (v * 10 + digit))"

definition parse_u64_decimal :: "idx_slice \<Rightarrow> u64 result" where
  "parse_u64_decimal view = (if length view = 0 then Inl IDX_ERR_PARSE else parse_digits view 0)"

section \<open>Accounts\<close>

definition make_account :: "bool \<Rightarrow> idx_json_val \<Rightarrow> bool \<Rightarrow> bool \<Rightarrow> bool \<Rightarrow> idx_account arena_op" where
  "make_account calloc_ok v signer writable loaded = op_return (idx_try (decode_pubkey_value calloc_ok v) (\<lambda>k.
     Inr \<lparr>pubkey = k, is_signer = signer, is_writable = writable, from_lookup_table = loaded\<rparr>))"

definition resolve_accounts ::
    "malloc_fn \<Rightarrow> bool \<Rightarrow> idx_json_val \<Rightarrow> idx_json_val \<Rightarrow> idx_tx_version \<Rightarrow> idx_transaction \<Rightarrow>
     idx_transaction arena_op" where
  "resolve_accounts malloc calloc_ok message meta ver tx =
     op_try (op_return (idx_json_read_array message (Some ''accountKeys''))) (\<lambda>static_keys.
     let static_count = idx_json_array_size static_keys;
         loaded = idx_json_get meta (Some ''loadedAddresses'');
         has_loaded = (ver \<noteq> IDX_TX_VERSION_LEGACY \<and> idx_json_is_object meta \<and> idx_json_is_object loaded);
         loaded_writable = (if has_loaded then idx_json_get loaded (Some ''writable'') else None);
         loaded_readonly = (if has_loaded then idx_json_get loaded (Some ''readonly'') else None);
         writable_count = idx_json_array_size loaded_writable;
         readonly_count = idx_json_array_size loaded_readonly;
         total = static_count + writable_count + readonly_count
     in op_try (if total > 0 then idx_arena_calloc malloc total SIZEOF_idx_account else op_return (Inr 0)) (\<lambda>_.
     let sigs = unat (num_required_signatures tx);
         ro_signed = unat (num_readonly_signed tx);
         ro_unsigned = unat (num_readonly_unsigned tx)
     in if sigs > static_count \<or> ro_signed > sigs \<or> ro_unsigned > static_count - sigs
        then op_return (Inl IDX_ERR_PARSE)
        else let writable_signed_end = sigs - ro_signed;
                 writable_unsigned_end = static_count - ro_unsigned
        in op_try (op_map (\<lambda>i. make_account calloc_ok (idx_json_array_get static_keys i) (i < sigs)
                       (if i < sigs then i < writable_signed_end else i < writable_unsigned_end) False)
                     [0..<static_count]) (\<lambda>statics.
           op_try (op_map (\<lambda>i. make_account calloc_ok (idx_json_array_get loaded_writable i) False True True)
                     [0..<writable_count]) (\<lambda>writables.
           op_try (op_map (\<lambda>i. make_account calloc_ok (idx_json_array_get loaded_readonly i) False False True)
                     [0..<readonly_count]) (\<lambda>readonlys.
           op_return (Inr (tx\<lparr>accounts := statics @ writables @ readonlys,
                              static_account_count := static_count\<rparr>)))))))"

section \<open>Instructions\<close>

text \<open>The index is narrowed to a byte after the comparison with the account count.\<close>

definition take_index :: "idx_json_val \<Rightarrow> nat \<Rightarrow> byte result" where
  "take_index v account_count = idx_try (idx_json_as_u64 v) (\<lambda>index.
     if unat index \<ge> account_count then Inl IDX_ERR_PARSE else Inr (ucast index))"

definition decode_instruction ::
    "malloc_fn \<Rightarrow> bool \<Rightarrow> nat \<Rightarrow> idx_json_val \<Rightarrow> idx_instruction arena_op" where
  "decode_instruction malloc calloc_ok account_count source =
     op_try (op_return (idx_json_read_u64 source (Some ''programIdIndex''))) (\<lambda>program_index.
     if unat program_index \<ge> account_count then op_return (Inl IDX_ERR_PARSE)
     else op_try (op_return (idx_json_read_array source (Some ''accounts''))) (\<lambda>accts.
     let count = idx_json_array_size accts in
     op_try (if count > 0
             then op_try (idx_arena_calloc malloc count 1) (\<lambda>_.
                  op_map (\<lambda>i. op_return (take_index (idx_json_array_get accts i) account_count)) [0..<count])
             else op_return (Inr [])) (\<lambda>indices.
     op_try (op_return (idx_json_read_string source (Some ''data''))) (\<lambda>data_text.
     op_try (if length data_text = 0 then op_return (Inr (idx_slice_make None 0))
             else let capacity = idx_base58_decoded_max (length data_text) in
               op_try (idx_arena_alloc malloc capacity) (\<lambda>_.
               op_return (idx_base58_decode calloc_ok (chars_of data_text) capacity))) (\<lambda>data.
     op_return (Inr \<lparr>program_id_index = ucast program_index, account_indices = indices, ix_data = data,
        stack_height = (case idx_json_opt_u64 source (Some ''stackHeight'') of
            Some h \<Rightarrow> if h \<le> 0xFFFF then ucast h else 0
          | None \<Rightarrow> 0)\<rparr>))))))"

definition decode_instructions ::
    "malloc_fn \<Rightarrow> bool \<Rightarrow> nat \<Rightarrow> idx_json_val \<Rightarrow> idx_instruction list arena_op" where
  "decode_instructions malloc calloc_ok account_count array =
     (let count = idx_json_array_size array in
      if count > 0 then
        op_try (idx_arena_calloc malloc count SIZEOF_idx_instruction) (\<lambda>_.
        op_map (\<lambda>i. decode_instruction malloc calloc_ok account_count (idx_json_array_get array i)) [0..<count])
      else op_return (Inr []))"

definition decode_inner_instructions ::
    "malloc_fn \<Rightarrow> bool \<Rightarrow> idx_json_val \<Rightarrow> nat \<Rightarrow> idx_inner_instructions list arena_op" where
  "decode_inner_instructions malloc calloc_ok meta account_count =
     (if \<not> idx_json_is_object meta then op_return (Inr [])
      else let groups = idx_json_get meta (Some ''innerInstructions'') in
        if \<not> idx_json_is_array groups then op_return (Inr [])
        else let count = idx_json_array_size groups in
          if count = 0 then op_return (Inr [])
          else op_try (idx_arena_calloc malloc count SIZEOF_idx_inner_instructions) (\<lambda>_.
            op_map (\<lambda>i. let grp = idx_json_array_get groups i in
              op_try (op_return (read_u8_field grp (Some ''index''))) (\<lambda>index.
              op_try (op_return (idx_json_read_array grp (Some ''instructions''))) (\<lambda>ixs.
              op_try (decode_instructions malloc calloc_ok account_count ixs) (\<lambda>decoded.
              op_return (Inr \<lparr>grp_index = index, grp_instructions = decoded\<rparr>))))) [0..<count]))"

section \<open>Version, signatures and metadata\<close>

definition read_version :: "idx_json_val \<Rightarrow> idx_tx_version result" where
  "read_version entry = (let v = idx_json_get entry (Some ''version'') in
     if \<not> idx_json_is_present v then Inr IDX_TX_VERSION_LEGACY
     else if idx_json_is_string v then
       idx_try (idx_json_as_string v) (\<lambda>view.
         if idx_slice_equal view (idx_slice_from_str (Some ''legacy'')) then Inr IDX_TX_VERSION_LEGACY
         else Inl IDX_ERR_PARSE)
     else idx_try (idx_json_as_u64 v) (\<lambda>number.
       if number \<noteq> 0 then Inl IDX_ERR_PARSE else Inr IDX_TX_VERSION_0))"

definition decode_signatures :: "malloc_fn \<Rightarrow> bool \<Rightarrow> idx_json_val \<Rightarrow> idx_signature list arena_op" where
  "decode_signatures malloc calloc_ok transaction =
     op_try (op_return (idx_json_read_array transaction (Some ''signatures''))) (\<lambda>sigs.
     let count = idx_json_array_size sigs in
     if count > 0 then
       op_try (idx_arena_calloc malloc count IDX_SIGNATURE_LEN) (\<lambda>_.
       op_map (\<lambda>i. op_return (idx_try (idx_json_as_string (idx_json_array_get sigs i)) (\<lambda>view.
          idx_signature_from_base58 calloc_ok (chars_of view)))) [0..<count])
     else op_return (Inr []))"

definition decode_meta_summary :: "idx_json_val \<Rightarrow> idx_transaction \<Rightarrow> idx_transaction" where
  "decode_meta_summary meta tx =
     (let tx = tx\<lparr>has_meta := False, success := True, fee := 0\<rparr> in
      if \<not> idx_json_is_object meta then tx
      else let error = idx_json_get meta (Some ''err'') in
        tx\<lparr>has_meta := True,
           success := (\<not> idx_json_is_present error \<or> idx_json_is_null error),
           fee := (case idx_json_opt_u64 meta (Some ''fee'') of Some n \<Rightarrow> n | None \<Rightarrow> 0)\<rparr>)"

definition decode_balances :: "malloc_fn \<Rightarrow> idx_json_val \<Rightarrow> nat \<Rightarrow> (u64 list \<times> u64 list) arena_op" where
  "decode_balances malloc meta account_count =
     (if \<not> idx_json_is_object meta then op_return (Inr ([], []))
      else let pre = idx_json_get meta (Some ''preBalances'');
               post = idx_json_get meta (Some ''postBalances'');
               has_pre = idx_json_is_array pre;
               has_post = idx_json_is_array post;
               count = idx_json_array_size pre
        in if \<not> has_pre \<and> \<not> has_post then op_return (Inr ([], []))
           else if \<not> has_pre \<or> \<not> has_post then op_return (Inl IDX_ERR_PARSE)
           else if idx_json_array_size post \<noteq> count then op_return (Inl IDX_ERR_PARSE)
           else if count \<noteq> account_count then op_return (Inl IDX_ERR_PARSE)
           else if count = 0 then op_return (Inr ([], []))
           else op_try (idx_arena_calloc malloc count 8) (\<lambda>_.
                op_try (idx_arena_calloc malloc count 8) (\<lambda>_.
                op_try (op_map (\<lambda>i.
                  op_try (op_return (idx_json_as_u64 (idx_json_array_get pre i))) (\<lambda>before.
                  op_try (op_return (idx_json_as_u64 (idx_json_array_get post i))) (\<lambda>after.
                  op_return (Inr (before, after))))) [0..<count]) (\<lambda>pairs.
                op_return (Inr (map fst pairs, map snd pairs))))))"

definition decode_token_balance :: "bool \<Rightarrow> nat \<Rightarrow> idx_json_val \<Rightarrow> idx_token_balance result" where
  "decode_token_balance calloc_ok account_count entry =
     idx_try (idx_json_read_u64 entry (Some ''accountIndex'')) (\<lambda>index.
     if unat index \<ge> account_count then Inl IDX_ERR_PARSE
     else idx_try (read_pubkey_field calloc_ok entry (Some ''mint'')) (\<lambda>mint.
     let out = zero_token_balance\<lparr>account_index := ucast index, tb_mint := mint\<rparr>;
         owner = idx_json_get entry (Some ''owner'')
     in idx_try (if idx_json_is_string owner
                 then idx_try (decode_pubkey_value calloc_ok owner) (\<lambda>k.
                        Inr (out\<lparr>tb_owner := k, tb_has_owner := True\<rparr>))
                 else Inr out) (\<lambda>out.
     let program_id = idx_json_get entry (Some ''programId'')
     in idx_try (if idx_json_is_string program_id
                 then idx_try (decode_pubkey_value calloc_ok program_id) (\<lambda>k.
                        Inr (out\<lparr>tb_program_id := k, tb_has_program_id := True\<rparr>))
                 else Inr out) (\<lambda>out.
     idx_try (idx_json_read_object entry (Some ''uiTokenAmount'')) (\<lambda>ui.
     idx_try (idx_json_read_string ui (Some ''amount'')) (\<lambda>amount_text.
     idx_try (parse_u64_decimal amount_text) (\<lambda>amount.
     idx_try (idx_json_read_u64 ui (Some ''decimals'')) (\<lambda>decimals.
     if decimals > 0xFF then Inl IDX_ERR_PARSE
     else Inr (out\<lparr>tb_amount := amount, tb_decimals := ucast decimals\<rparr>)))))))))"

definition decode_token_balances ::
    "malloc_fn \<Rightarrow> bool \<Rightarrow> idx_json_val \<Rightarrow> string \<Rightarrow> nat \<Rightarrow> idx_token_balance list arena_op" where
  "decode_token_balances malloc calloc_ok meta key account_count =
     (if \<not> idx_json_is_object meta then op_return (Inr [])
      else let array = idx_json_get meta (Some key) in
        if \<not> idx_json_is_array array then op_return (Inr [])
        else let count = idx_json_array_size array in
          if count = 0 then op_return (Inr [])
          else op_try (idx_arena_calloc malloc count SIZEOF_idx_token_balance) (\<lambda>_.
            op_map (\<lambda>i. op_return (decode_token_balance calloc_ok account_count (idx_json_array_get array i)))
              [0..<count]))"

definition decode_logs :: "malloc_fn \<Rightarrow> idx_json_val \<Rightarrow> idx_slice list arena_op" where
  "decode_logs malloc meta =
     (if \<not> idx_json_is_object meta then op_return (Inr [])
      else let array = idx_json_get meta (Some ''logMessages'') in
        if \<not> idx_json_is_array array then op_return (Inr [])
        else let count = idx_json_array_size array in
          if count = 0 then op_return (Inr [])
          else op_try (idx_arena_calloc malloc count SIZEOF_idx_slice) (\<lambda>_.
            op_map (\<lambda>i. op_return (idx_json_as_string (idx_json_array_get array i))) [0..<count]))"

section \<open>Transactions and blocks\<close>

definition decode_transaction :: "malloc_fn \<Rightarrow> bool \<Rightarrow> idx_json_val \<Rightarrow> idx_transaction arena_op" where
  "decode_transaction malloc calloc_ok entry =
     op_try (op_return (read_version entry)) (\<lambda>ver.
     op_try (op_return (idx_json_read_object entry (Some ''transaction''))) (\<lambda>transaction.
     op_try (op_return (idx_json_read_object transaction (Some ''message''))) (\<lambda>message.
     let meta = idx_json_get entry (Some ''meta'') in
     op_try (decode_signatures malloc calloc_ok transaction) (\<lambda>sigs.
     op_try (op_return (idx_json_read_object message (Some ''header''))) (\<lambda>header.
     op_try (op_return (read_u8_field header (Some ''numRequiredSignatures''))) (\<lambda>required.
     op_try (op_return (read_u8_field header (Some ''numReadonlySignedAccounts''))) (\<lambda>ro_signed.
     op_try (op_return (read_u8_field header (Some ''numReadonlyUnsignedAccounts''))) (\<lambda>ro_unsigned.
     op_try (op_return (read_hash_field calloc_ok message (Some ''recentBlockhash''))) (\<lambda>recent.
     op_try (resolve_accounts malloc calloc_ok message meta ver
               (zero_transaction\<lparr>version := ver, signatures := sigs, num_required_signatures := required,
                  num_readonly_signed := ro_signed, num_readonly_unsigned := ro_unsigned,
                  recent_blockhash := recent\<rparr>)) (\<lambda>tx.
     let account_count = length (accounts tx) in
     op_try (op_return (idx_json_read_array message (Some ''instructions''))) (\<lambda>ixs.
     op_try (decode_instructions malloc calloc_ok account_count ixs) (\<lambda>decoded.
     op_try (decode_inner_instructions malloc calloc_ok meta account_count) (\<lambda>inner.
     let tx = decode_meta_summary meta (tx\<lparr>instructions := decoded, inner_instructions := inner\<rparr>) in
     op_try (decode_balances malloc meta account_count) (\<lambda>(pre, post).
     op_try (decode_token_balances malloc calloc_ok meta ''preTokenBalances'' account_count) (\<lambda>pre_token.
     op_try (decode_token_balances malloc calloc_ok meta ''postTokenBalances'' account_count) (\<lambda>post_token.
     op_try (decode_logs malloc meta) (\<lambda>lines.
     op_return (Inr (tx\<lparr>pre_balances := pre, post_balances := post, pre_token_balances := pre_token,
                        post_token_balances := post_token, logs := lines\<rparr>)))))))))))))))))))"

definition decode_block_header :: "bool \<Rightarrow> idx_json_val \<Rightarrow> u64 \<Rightarrow> idx_block result" where
  "decode_block_header calloc_ok block s =
     idx_try (read_hash_field calloc_ok block (Some ''blockhash'')) (\<lambda>hash.
     idx_try (idx_json_read_u64 block (Some ''parentSlot'')) (\<lambda>parent.
     idx_try (if idx_json_is_string (idx_json_get block (Some ''previousBlockhash''))
              then read_hash_field calloc_ok block (Some ''previousBlockhash'')
              else Inr zero_hash) (\<lambda>previous.
     let height = idx_json_opt_u64 block (Some ''blockHeight'');
         seconds = idx_json_get block (Some ''blockTime'')
     in idx_try (if idx_json_is_present seconds \<and> \<not> idx_json_is_null seconds
                 then idx_try (idx_json_read_i64 block (Some ''blockTime'')) (\<lambda>t. Inr (t, True))
                 else Inr (0, False)) (\<lambda>(time, has_time).
     Inr \<lparr>slot = s, blockhash = hash, previous_blockhash = previous, parent_slot = parent,
          block_height = (case height of Some h \<Rightarrow> h | None \<Rightarrow> 0), has_block_height = (height \<noteq> None),
          block_time = time, has_block_time = has_time, transactions = []\<rparr>))))"

definition idx_block_decode :: "malloc_fn \<Rightarrow> bool \<Rightarrow> idx_json_val \<Rightarrow> u64 \<Rightarrow> idx_block arena_op" where
  "idx_block_decode malloc calloc_ok block s = (\<lambda>arena.
     if arena = None then (Inl IDX_ERR_INVALID_ARG, arena)
     else if \<not> idx_json_is_object block then (Inl IDX_ERR_PARSE, arena)
     else op_try (op_return (decode_block_header calloc_ok block s)) (\<lambda>out.
          op_try (op_return (idx_json_read_array block (Some ''transactions''))) (\<lambda>txs.
          let count = idx_json_array_size txs in
          op_try (if count > 0 then
                    op_try (idx_arena_calloc malloc count SIZEOF_idx_transaction) (\<lambda>_.
                    op_map (\<lambda>i. decode_transaction malloc calloc_ok (idx_json_array_get txs i)) [0..<count])
                  else op_return (Inr [])) (\<lambda>decoded.
          op_return (Inr (out\<lparr>transactions := decoded\<rparr>))))) arena)"

section \<open>Decimal amounts\<close>

lemma signed_range:
  assumes "n < 256"
  shows "(int n + 128) mod 256 - 128 = (if n < 128 then int n else int n - 256)"
proof (cases "n < 128")
  case True
  then have "(int n + 128) mod 256 = int n + 128" by (intro mod_pos_pos_trivial) simp_all
  then show ?thesis using True by simp
next
  case False
  have "(int n + 128) mod 256 = ((int n - 128) + 256) mod 256" by (simp add: add.commute)
  also have "\<dots> = (int n - 128) mod 256" by (rule mod_add_self2)
  also have "\<dots> = int n - 128" using assms False by (intro mod_pos_pos_trivial) simp_all
  finally show ?thesis using False by simp
qed

lemma sint_byte: "sint (c :: byte) = (if unat c < 128 then int (unat c) else int (unat c) - 256)"
proof -
  have "sint (word_of_int (int (unat c)) :: byte) = (int (unat c) + 128) mod 256 - 128"
    using int_word_sint [where 'a = 8, of "int (unat c)"] by simp
  also have "\<dots> = (if unat c < 128 then int (unat c) else int (unat c) - 256)"
    using unat_byte [of c] by (rule signed_range)
  finally show ?thesis by simp
qed

lemma sint_digit: "\<not> (sint c < 48 \<or> sint c > 57) \<longleftrightarrow> isdigit (char_of (unat (c :: byte)))"
proof -
  define n where "n = unat c"
  have n: "n < 256" using unat_byte [of c] by (simp add: n_def)
  have "of_char (char_of n :: char) = n" using n by simp
  moreover have "sint c = (if n < 128 then int n else int n - 256)" unfolding n_def by (rule sint_byte)
  ultimately show ?thesis using n unfolding isdigit_def n_def [symmetric] by auto
qed

text \<open>One step of the accumulation: the guard holds exactly when the next value fits in 64 bits.\<close>

lemma accumulate_u64:
  fixes v digit :: u64
  assumes d: "unat digit \<le> 9"
  shows "v > (- 1 - digit) div 10 \<longleftrightarrow> unat v * 10 + unat digit \<ge> 2 ^ 64"
    "unat v * 10 + unat digit < 2 ^ 64 \<Longrightarrow> unat (v * 10 + digit) = unat v * 10 + unat digit"
proof -
  have max: "unat (- 1 :: u64) = 2 ^ 64 - 1" by (simp add: unsigned_minus_1_eq_mask mask_eq_exp_minus_1)
  have le: "digit \<le> (- 1 :: u64)" by (simp add: word_order.extremum)
  have "unat ((- 1 - digit) div 10) = (2 ^ 64 - 1 - unat digit) div 10"
    using le max by (simp add: unat_div unat_sub)
  then have "v > (- 1 - digit) div 10 \<longleftrightarrow> (2 ^ 64 - 1 - unat digit) div 10 < unat v"
    by (simp add: word_less_nat_alt)
  also have "\<dots> \<longleftrightarrow> unat v * 10 + unat digit \<ge> 2 ^ 64" using d by auto
  finally show "v > (- 1 - digit) div 10 \<longleftrightarrow> unat v * 10 + unat digit \<ge> 2 ^ 64" .
  show "unat v * 10 + unat digit < 2 ^ 64 \<Longrightarrow> unat (v * 10 + digit) = unat v * 10 + unat digit"
    by (simp add: unat_word_ariths)
qed

definition ascii_digits :: "bytes \<Rightarrow> string" where
  "ascii_digits view = map (\<lambda>b. char_of (unat b)) view"

lemma decimal_value_Cons: "be_value 10 (map (\<lambda>c. of_char c - 48) (c # cs)) n =
    be_value 10 (map (\<lambda>c. of_char c - 48) cs) (10 * n + (of_char c - 48))"
  by (simp add: be_value_def)

lemma parse_digits_eq:
  "parse_digits view v =
     (if list_all isdigit (ascii_digits view) \<and>
         be_value 10 (map (\<lambda>c. of_char c - 48) (ascii_digits view)) (unat v) < 2 ^ 64
      then Inr (word_of_nat (be_value 10 (map (\<lambda>c. of_char c - 48) (ascii_digits view)) (unat v)))
      else Inl IDX_ERR_PARSE)"
proof (induction view arbitrary: v)
  case Nil
  then show ?case using unat_u64 [of v] by (simp add: ascii_digits_def be_value_def)
next
  case (Cons c view)
  let ?ch = "char_of (unat c) :: char"
  have of_ch: "of_char ?ch = unat c" using unat_byte [of c] by simp
  show ?case
  proof (cases "isdigit ?ch")
    case False
    then have "sint c < 48 \<or> sint c > 57" using sint_digit [of c] by blast
    then show ?thesis using False by (simp add: ascii_digits_def)
  next
    case True
    let ?d = "word_of_int (sint c - 48) :: u64"
    let ?n = "10 * unat v + (unat c - 48)"
    have rng: "48 \<le> unat c" "unat c \<le> 57" using True of_ch by (auto simp: isdigit_def)
    then have sc: "sint c - 48 = int (unat c - 48)"
      unfolding sint_byte by (simp add: of_nat_diff)
    have d: "unat ?d = unat c - 48"
      unfolding sc of_int_of_nat_eq using rng by (intro unat_u64_of_nat) simp
    then have d9: "unat ?d \<le> 9" using rng by simp
    note step = accumulate_u64 [OF d9, of v, unfolded d]
    have eq: "parse_digits (c # view) v =
        (if v > (- 1 - ?d) div 10 then Inl IDX_ERR_PARSE else parse_digits view (v * 10 + ?d))"
      using True sint_digit [of c] by (simp add: Let_def)
    have asc: "ascii_digits (c # view) = ?ch # ascii_digits view" by (simp add: ascii_digits_def)
    have mono: "?n \<le> be_value 10 (map (\<lambda>c. of_char c - 48) (ascii_digits view)) ?n" by (rule be_value_mono) simp
    show ?thesis
    proof (cases "?n < 2 ^ 64")
      case False
      then have "v > (- 1 - ?d) div 10" using step(1) by (simp add: mult.commute)
      then show ?thesis using False mono by (simp only: eq asc decimal_value_Cons of_ch if_True) simp
    next
      case small: True
      then have "\<not> v > (- 1 - ?d) div 10" "unat (v * 10 + ?d) = ?n" using step by (simp_all add: mult.commute)
      then show ?thesis using True
        by (simp only: eq asc decimal_value_Cons of_ch if_False Cons.IH list.pred_inject simp_thms)
    qed
  qed
qed

lemma parse_u64_decimal_eq:
  "parse_u64_decimal view =
     (if view \<noteq> [] \<and> list_all isdigit (ascii_digits view) \<and> decimal_value (ascii_digits view) < 2 ^ 64
      then Inr (word_of_nat (decimal_value (ascii_digits view))) else Inl IDX_ERR_PARSE)"
  by (simp add: parse_u64_decimal_def parse_digits_eq decimal_value_def)

section \<open>Well-formed transactions\<close>

text \<open>Every index names one of \<open>n\<close> accounts.\<close>

definition ix_ok :: "nat \<Rightarrow> idx_instruction \<Rightarrow> bool" where
  "ix_ok n ix \<longleftrightarrow> unat (program_id_index ix) < n \<and> list_all (\<lambda>b. unat b < n) (account_indices ix)"

definition token_balance_ok :: "nat \<Rightarrow> idx_token_balance \<Rightarrow> bool" where
  "token_balance_ok n tb \<longleftrightarrow> unat (account_index tb) < n \<and> key_ok (tb_mint tb) \<and> key_ok (tb_owner tb) \<and>
     key_ok (tb_program_id tb)"

text \<open>
  The header partitions the static keys: signers first, the writable ones of each class before
  the readonly ones; the loaded addresses follow, writable before readonly, none a signer.
\<close>

definition accounts_ok :: "idx_transaction \<Rightarrow> bool" where
  "accounts_ok tx \<longleftrightarrow>
     (let n = static_account_count tx; sigs = unat (num_required_signatures tx) in
      n \<le> length (accounts tx) \<and> sigs \<le> n \<and> unat (num_readonly_signed tx) \<le> sigs \<and>
      unat (num_readonly_unsigned tx) \<le> n - sigs \<and>
      (version tx = IDX_TX_VERSION_LEGACY \<longrightarrow> length (accounts tx) = n) \<and>
      (\<forall>i < length (accounts tx). let a = accounts tx ! i in
         key_ok (pubkey a) \<and> (is_signer a \<longleftrightarrow> i < sigs) \<and> (from_lookup_table a \<longleftrightarrow> n \<le> i) \<and>
         (i < n \<longrightarrow> (is_writable a \<longleftrightarrow> i < sigs - unat (num_readonly_signed tx) \<or>
            sigs \<le> i \<and> i < n - unat (num_readonly_unsigned tx)))) \<and>
      (\<forall>i j. n \<le> i \<longrightarrow> i < j \<longrightarrow> j < length (accounts tx) \<longrightarrow> is_writable (accounts tx ! j) \<longrightarrow>
         is_writable (accounts tx ! i)))"

definition tx_ok :: "idx_transaction \<Rightarrow> bool" where
  "tx_ok tx \<longleftrightarrow> accounts_ok tx \<and> list_all signature_ok (signatures tx) \<and>
     list_all (ix_ok (length (accounts tx))) (instructions tx) \<and>
     list_all (\<lambda>g. list_all (ix_ok (length (accounts tx))) (grp_instructions g)) (inner_instructions tx) \<and>
     length (pre_balances tx) = length (post_balances tx) \<and>
     (pre_balances tx = [] \<or> length (pre_balances tx) = length (accounts tx)) \<and>
     list_all (token_balance_ok (length (accounts tx))) (pre_token_balances tx @ post_token_balances tx)"

lemma unat_narrow: "unat (ucast (w :: u64) :: byte) = unat w mod 256"
  by (simp add: unsigned_ucast_eq take_bit_eq_mod)

lemma narrow_below: "unat (w :: u64) < n \<Longrightarrow> unat (ucast w :: byte) < n"
  using mod_less_eq_dividend [of "unat w" 256] by (simp only: unat_narrow)

lemma take_index_Inr: "take_index v n = Inr b \<Longrightarrow> unat b < n"
  by (auto simp: take_index_def idx_try_Inr_iff narrow_below split: if_splits)

lemma decode_pubkey_value_ok: "decode_pubkey_value calloc_ok v = Inr k \<Longrightarrow> key_ok k"
  by (auto simp: decode_pubkey_value_def idx_try_Inr_iff pubkey_from_base58_ok)

lemma read_pubkey_field_ok: "read_pubkey_field calloc_ok v key = Inr k \<Longrightarrow> key_ok k"
  by (auto simp: read_pubkey_field_def idx_try_Inr_iff pubkey_from_base58_ok)

lemma yields_indices:
  "yields (if count > 0
      then op_try (idx_arena_calloc malloc count 1) (\<lambda>_.
           op_map (\<lambda>i. op_return (take_index (idx_json_array_get accts i) n)) [0..<count])
      else op_return (Inr [])) (list_all (\<lambda>b. unat b < n))"
  by (intro yields_if yields_try_any yields_map yields_return) (auto dest: take_index_Inr)

lemma yields_instruction:
  "yields (decode_instruction malloc calloc_ok n source) (\<lambda>ix. ix_ok n ix \<and>
     (\<exists>p. idx_json_read_u64 source (Some ''programIdIndex'') = Inr p \<and> unat p < n \<and> program_id_index ix = ucast p))"
  unfolding decode_instruction_def Let_def
  by (intro yields_try_return yields_if yields_try [OF yields_indices] yields_try_any yields_return)
    (auto simp: ix_ok_def narrow_below)

lemma yields_instructions: "yields (decode_instructions malloc calloc_ok n array) (list_all (ix_ok n))"
  unfolding decode_instructions_def Let_def
  by (intro yields_if yields_try_any yields_map yields_return)
    (auto intro!: yields_def [THEN iffD2] dest: yieldsD [OF yields_instruction])

lemma yields_inner:
  "yields (decode_inner_instructions malloc calloc_ok meta n) (list_all (\<lambda>g. list_all (ix_ok n) (grp_instructions g)))"
  unfolding decode_inner_instructions_def Let_def
  by (intro yields_if yields_try_return yields_map yields_return yields_try [OF yields_instructions]
      yields_try_any [where m = "idx_arena_calloc malloc c w" for c w]) auto

definition account_is :: "bool \<Rightarrow> bool \<Rightarrow> bool \<Rightarrow> idx_account \<Rightarrow> bool" where
  "account_is signer writable loaded a \<longleftrightarrow> key_ok (pubkey a) \<and> (is_signer a \<longleftrightarrow> signer) \<and>
     (is_writable a \<longleftrightarrow> writable) \<and> (from_lookup_table a \<longleftrightarrow> loaded)"

lemma yields_account:
  "yields (make_account calloc_ok v signer writable loaded) (account_is signer writable loaded)"
  unfolding make_account_def
  by (intro yields_return) (auto simp: account_is_def idx_try_Inr_iff decode_pubkey_value_ok)

text \<open>The three lists the resolved accounts are made of.\<close>

definition classes :: "nat \<Rightarrow> nat \<Rightarrow> nat \<Rightarrow> nat \<Rightarrow> idx_account list \<Rightarrow> idx_account list \<Rightarrow> idx_account list \<Rightarrow> bool" where
  "classes n sigs ro_signed ro_unsigned statics writables readonlys \<longleftrightarrow>
     length statics = n \<and>
     (\<forall>i < n. account_is (i < sigs) (if i < sigs then i < sigs - ro_signed else i < n - ro_unsigned) False (statics ! i)) \<and>
     list_all (account_is False True True) writables \<and> list_all (account_is False False True) readonlys"

lemma classes_accounts_ok:
  assumes cl: "classes n sigs ro_signed ro_unsigned statics writables readonlys"
    and hd: "sigs \<le> n" "ro_signed \<le> sigs" "ro_unsigned \<le> n - sigs"
    and tx: "accounts tx = statics @ writables @ readonlys" "static_account_count tx = n"
      "unat (num_required_signatures tx) = sigs" "unat (num_readonly_signed tx) = ro_signed"
      "unat (num_readonly_unsigned tx) = ro_unsigned"
    and leg: "version tx = IDX_TX_VERSION_LEGACY \<Longrightarrow> writables = [] \<and> readonlys = []"
  shows "accounts_ok tx"
proof -
  let ?A = "accounts tx"
  let ?w = "length writables"
  have len: "length ?A = n + ?w + length readonlys" "length statics = n" using cl tx by (simp_all add: classes_def)
  have stat: "account_is (i < sigs) (if i < sigs then i < sigs - ro_signed else i < n - ro_unsigned) False (?A ! i)"
    if "i < n" for i
    using cl that len tx by (simp add: classes_def nth_append)
  have wr: "account_is False True True (?A ! i)" if "n \<le> i" "i < n + ?w" for i
  proof -
    have "i - n < ?w" using that by linarith
    then show ?thesis using cl that len(2) tx(1) by (simp add: classes_def nth_append list_all_length)
  qed
  have ro: "account_is False False True (?A ! i)" if "n + ?w \<le> i" "i < length ?A" for i
  proof -
    have "\<not> i - n < ?w" "i - n - ?w < length readonlys" using that len(1) by linarith+
    then show ?thesis using cl that len(2) tx(1) by (simp add: classes_def nth_append list_all_length)
  qed
  have each: "key_ok (pubkey (?A ! i)) \<and> (is_signer (?A ! i) \<longleftrightarrow> i < sigs) \<and> (from_lookup_table (?A ! i) \<longleftrightarrow> n \<le> i) \<and>
      (i < n \<longrightarrow> (is_writable (?A ! i) \<longleftrightarrow> i < sigs - ro_signed \<or> sigs \<le> i \<and> i < n - ro_unsigned))"
    if i: "i < length ?A" for i
  proof -
    consider "i < n" | "n \<le> i" "i < n + ?w" | "n + ?w \<le> i" by linarith
    then show ?thesis
    proof cases
      case 1
      then show ?thesis using stat [OF 1] by (auto simp: account_is_def)
    qed (use wr ro i hd(1) in \<open>auto simp: account_is_def\<close>)
  qed
  have order: "is_writable (?A ! i)" if "n \<le> i" "i < j" "j < length ?A" "is_writable (?A ! j)" for i j
  proof -
    have "\<not> n + ?w \<le> j" using ro [of j] that by (auto simp: account_is_def)
    then show ?thesis using wr [of i] that by (auto simp: account_is_def)
  qed
  have legacy: "version tx = IDX_TX_VERSION_LEGACY \<Longrightarrow> length ?A = n" using leg len by simp
  show ?thesis
    unfolding accounts_ok_def Let_def tx(2-5) using each order legacy hd len by auto
qed

lemma yields_resolve:
  assumes ver: "version tx = ver"
  shows "yields (resolve_accounts malloc calloc_ok message meta ver tx) (\<lambda>res. accounts_ok res \<and>
     (\<exists>as n. res = tx\<lparr>accounts := as, static_account_count := n\<rparr>))"
  unfolding resolve_accounts_def Let_def
proof (rule yields_try_return, rule yields_try_any, rule yields_if, goal_cases)
  case (1 static_keys)
  show ?case by (intro yields_return) simp
next
  case (2 static_keys)
  let ?n = "idx_json_array_size static_keys"
  let ?sigs = "unat (num_required_signatures tx)"
  let ?ros = "unat (num_readonly_signed tx)"
  let ?rou = "unat (num_readonly_unsigned tx)"
  have hd: "?sigs \<le> ?n" "?ros \<le> ?sigs" "?rou \<le> ?n - ?sigs" using 2(2) by simp_all
  show ?case
  proof (rule yields_try [OF yields_map_nth [where P = "\<lambda>i. account_is (i < ?sigs)
        (if i < ?sigs then i < ?sigs - ?ros else i < ?n - ?rou) False", OF yields_account]],
      rule yields_try [OF yields_map_nth [where P = "\<lambda>i. account_is False True True", OF yields_account]],
      rule yields_try [OF yields_map_nth [where P = "\<lambda>i. account_is False False True", OF yields_account]],
      rule yields_return)
    fix statics writables readonlys res
    assume st: "length statics = ?n \<and> (\<forall>i < ?n. account_is (i < ?sigs)
        (if i < ?sigs then i < ?sigs - ?ros else i < ?n - ?rou) False (statics ! i))"
      and wr: "length writables = idx_json_array_size
          (if ver \<noteq> IDX_TX_VERSION_LEGACY \<and> idx_json_is_object meta \<and>
              idx_json_is_object (idx_json_get meta (Some ''loadedAddresses''))
           then idx_json_get (idx_json_get meta (Some ''loadedAddresses'')) (Some ''writable'') else None) \<and>
        (\<forall>i < idx_json_array_size
          (if ver \<noteq> IDX_TX_VERSION_LEGACY \<and> idx_json_is_object meta \<and>
              idx_json_is_object (idx_json_get meta (Some ''loadedAddresses''))
           then idx_json_get (idx_json_get meta (Some ''loadedAddresses'')) (Some ''writable'') else None).
          account_is False True True (writables ! i))"
      and ro: "length readonlys = idx_json_array_size
          (if ver \<noteq> IDX_TX_VERSION_LEGACY \<and> idx_json_is_object meta \<and>
              idx_json_is_object (idx_json_get meta (Some ''loadedAddresses''))
           then idx_json_get (idx_json_get meta (Some ''loadedAddresses'')) (Some ''readonly'') else None) \<and>
        (\<forall>i < idx_json_array_size
          (if ver \<noteq> IDX_TX_VERSION_LEGACY \<and> idx_json_is_object meta \<and>
              idx_json_is_object (idx_json_get meta (Some ''loadedAddresses''))
           then idx_json_get (idx_json_get meta (Some ''loadedAddresses'')) (Some ''readonly'') else None).
          account_is False False True (readonlys ! i))"
      and res: "Inr (tx\<lparr>accounts := statics @ writables @ readonlys, static_account_count := ?n\<rparr>) = Inr res"
    have "classes ?n ?sigs ?ros ?rou statics writables readonlys"
      using st wr ro by (simp add: classes_def list_all_length)
    moreover have "ver = IDX_TX_VERSION_LEGACY \<Longrightarrow> writables = [] \<and> readonlys = []" using wr ro by simp
    ultimately have "accounts_ok (tx\<lparr>accounts := statics @ writables @ readonlys, static_account_count := ?n\<rparr>)"
      using hd ver by (intro classes_accounts_ok) auto
    then show "accounts_ok res \<and> (\<exists>as n. res = tx\<lparr>accounts := as, static_account_count := n\<rparr>)" using res by auto
  qed
qed

lemma yields_signatures: "yields (decode_signatures malloc calloc_ok transaction) (list_all signature_ok)"
  unfolding decode_signatures_def Let_def
  by (intro yields_try_return yields_if yields_try_any yields_map yields_return)
    (auto simp: idx_try_Inr_iff signature_from_base58_ok)

lemma yields_balances:
  "yields (decode_balances malloc meta n) (\<lambda>(pre, post). length pre = length post \<and> (pre = [] \<or> length pre = n))"
  unfolding decode_balances_def Let_def
  by (intro yields_if yields_return yields_try [OF yields_map_nth [where P = "\<lambda>_ _. True"]]
      yields_try_any [where m = "idx_arena_calloc malloc c w" for c w]) (auto simp: yields_def)

lemma token_balance_ok: "decode_token_balance calloc_ok n entry = Inr tb \<Longrightarrow> token_balance_ok n tb"
  by (auto simp: decode_token_balance_def idx_try_Inr_iff Let_def token_balance_ok_def zero_token_balance_def
      narrow_below decode_pubkey_value_ok read_pubkey_field_ok split: if_splits)

lemma yields_token_balances:
  "yields (decode_token_balances malloc calloc_ok meta key n) (list_all (token_balance_ok n))"
  unfolding decode_token_balances_def Let_def
  by (intro yields_if yields_return yields_try_any yields_map) (auto intro: token_balance_ok)

lemma meta_summary_keeps:
  "decode_meta_summary meta tx = tx\<lparr>has_meta := has_meta (decode_meta_summary meta tx),
     success := success (decode_meta_summary meta tx), fee := fee (decode_meta_summary meta tx)\<rparr>"
  by (simp add: decode_meta_summary_def Let_def)

lemma tx_ok_build:
  assumes res: "accounts_ok tx" and n: "length (accounts tx) = n" and sigs: "list_all signature_ok (signatures tx)"
    and ixs: "list_all (ix_ok n) ixs" and inner: "list_all (\<lambda>g. list_all (ix_ok n) (grp_instructions g)) groups"
    and bal: "length pre = length post" "pre = [] \<or> length pre = n"
    and tok: "list_all (token_balance_ok n) pt" "list_all (token_balance_ok n) qt"
  shows "tx_ok ((decode_meta_summary meta (tx\<lparr>instructions := ixs, inner_instructions := groups\<rparr>))
     \<lparr>pre_balances := pre, post_balances := post, pre_token_balances := pt, post_token_balances := qt, logs := lines\<rparr>)"
  using assms
  by (subst meta_summary_keeps) (simp add: tx_ok_def accounts_ok_def Let_def)

lemma yields_transaction: "yields (decode_transaction malloc calloc_ok entry) tx_ok"
  unfolding decode_transaction_def Let_def
proof (rule yields_try_return, rule yields_try_return, rule yields_try_return,
    rule yields_try [OF yields_signatures], (rule yields_try_return)+,
    rule yields_try [OF yields_resolve], goal_cases)
  case (2 ver transaction message sigs header required ro_signed ro_unsigned recent tx)
  then have sigs: "list_all signature_ok (signatures tx)" and acc: "accounts_ok tx" by auto
  show ?case
  proof (rule yields_try_return, rule yields_try [OF yields_instructions], rule yields_try [OF yields_inner],
      rule yields_try [OF yields_balances], goal_cases)
    case (1 ixs decoded inner pp)
    obtain pre post where pp: "pp = (pre, post)" by (cases pp)
    show ?case
      unfolding pp prod.case
      by (rule yields_try [OF yields_token_balances], rule yields_try [OF yields_token_balances],
          rule yields_try_any, rule yields_return) (use 1 sigs acc pp in \<open>auto intro!: tx_ok_build\<close>)
  qed
qed simp

definition block_ok :: "idx_block \<Rightarrow> bool" where
  "block_ok b \<longleftrightarrow> length (blockhash b) = IDX_HASH_LEN \<and> length (previous_blockhash b) = IDX_HASH_LEN \<and>
     list_all tx_ok (transactions b)"

lemma read_hash_length: "read_hash_field calloc_ok object key = Inr h \<Longrightarrow> length h = IDX_HASH_LEN"
  by (auto simp: read_hash_field_def idx_try_Inr_iff idx_hash_from_base58_def decode_exact_length)

lemma block_header_ok:
  "decode_block_header calloc_ok block s = Inr b \<Longrightarrow> slot b = s \<and> length (blockhash b) = IDX_HASH_LEN \<and>
     length (previous_blockhash b) = IDX_HASH_LEN \<and> transactions b = []"
  by (auto simp: decode_block_header_def idx_try_Inr_iff Let_def zero_hash_def read_hash_length split: if_splits)

lemma yields_block:
  "yields (idx_block_decode malloc calloc_ok block s) (\<lambda>b. slot b = s \<and> block_ok b \<and>
     (\<exists>txs. idx_json_get block (Some ''transactions'') = Some (JArr txs) \<and> length (transactions b) = length txs))"
proof -
  have "yields (op_try (op_return (decode_block_header calloc_ok block s)) (\<lambda>out.
          op_try (op_return (idx_json_read_array block (Some ''transactions''))) (\<lambda>txs.
          op_try (if idx_json_array_size txs > 0 then
                    op_try (idx_arena_calloc malloc (idx_json_array_size txs) SIZEOF_idx_transaction) (\<lambda>_.
                    op_map (\<lambda>i. decode_transaction malloc calloc_ok (idx_json_array_get txs i))
                      [0..<idx_json_array_size txs])
                  else op_return (Inr [])) (\<lambda>decoded.
          op_return (Inr (out\<lparr>transactions := decoded\<rparr>))))))
     (\<lambda>b. slot b = s \<and> block_ok b \<and>
     (\<exists>txs. idx_json_get block (Some ''transactions'') = Some (JArr txs) \<and> length (transactions b) = length txs))"
  proof (rule yields_try_return, rule yields_try_return, goal_cases)
    case (1 out txs)
    have list: "yields (if idx_json_array_size txs > 0 then
                    op_try (idx_arena_calloc malloc (idx_json_array_size txs) SIZEOF_idx_transaction) (\<lambda>_.
                    op_map (\<lambda>i. decode_transaction malloc calloc_ok (idx_json_array_get txs i))
                      [0..<idx_json_array_size txs])
                  else op_return (Inr []))
        (\<lambda>ys. length ys = idx_json_array_size txs \<and> (\<forall>i < idx_json_array_size txs. tx_ok (ys ! i)))"
      by (intro yields_if yields_try_any yields_map_nth yields_transaction yields_return) auto
    show ?case
      by (rule yields_try [OF list], rule yields_return)
        (use 1 block_header_ok [of calloc_ok block s out] in \<open>auto simp: block_ok_def list_all_length read_array_Inr\<close>)
  qed
  then show ?thesis unfolding yields_def idx_block_decode_def Let_def by (auto split: if_splits)
qed

section \<open>Decoding and the arena\<close>

lemma keeps_instructions: "keeps malloc (decode_instructions malloc calloc_ok n array)"
  unfolding decode_instructions_def decode_instruction_def Let_def by (intro keeps_intros)

lemma keeps_resolve: "keeps malloc (resolve_accounts malloc calloc_ok message meta ver tx)"
  unfolding resolve_accounts_def make_account_def Let_def by (intro keeps_intros)

lemma keeps_metadata:
  "keeps malloc (decode_inner_instructions malloc calloc_ok meta n)"
  "keeps malloc (decode_signatures malloc calloc_ok transaction)"
  "keeps malloc (decode_balances malloc meta n)"
  "keeps malloc (decode_token_balances malloc calloc_ok meta key n)"
  "keeps malloc (decode_logs malloc meta)"
  unfolding decode_inner_instructions_def decode_signatures_def decode_balances_def decode_token_balances_def
    decode_logs_def Let_def
  by (intro keeps_intros keeps_instructions)+

lemma keeps_transaction: "keeps malloc (decode_transaction malloc calloc_ok entry)"
  unfolding decode_transaction_def Let_def
  by (intro keeps_intros keeps_instructions keeps_resolve keeps_metadata)

lemma keeps_block: "keeps malloc (idx_block_decode malloc calloc_ok block s)"
proof -
  have "keeps malloc (op_try (op_return (decode_block_header calloc_ok block s)) (\<lambda>out.
          op_try (op_return (idx_json_read_array block (Some ''transactions''))) (\<lambda>txs.
          let count = idx_json_array_size txs in
          op_try (if count > 0 then
                    op_try (idx_arena_calloc malloc count SIZEOF_idx_transaction) (\<lambda>_.
                    op_map (\<lambda>i. decode_transaction malloc calloc_ok (idx_json_array_get txs i)) [0..<count])
                  else op_return (Inr [])) (\<lambda>decoded.
          op_return (Inr (out\<lparr>transactions := decoded\<rparr>))))))"
    unfolding Let_def by (intro keeps_intros keeps_transaction)
  then show ?thesis unfolding keeps_def idx_block_decode_def by (auto split: if_splits)
qed

section \<open>A sample block\<close>

text \<open>A legacy transaction that invokes its only account, in the JSON form a node sends.\<close>

definition jobj :: "(string \<times> json) list \<Rightarrow> json" where
  "jobj members = JObj (map (\<lambda>(k, v). (chars_to_bytes k, v)) members)"

lemma chars_to_bytes_eq [simp]: "chars_to_bytes a = chars_to_bytes b \<longleftrightarrow> a = b"
proof
  assume "chars_to_bytes a = chars_to_bytes b"
  then have "map (\<lambda>b. char_of (unat b)) (chars_to_bytes a) = map (\<lambda>b. char_of (unat b)) (chars_to_bytes b) "
    by (rule arg_cong)
  then show "a = b" by (simp only: bytes_to_chars)
qed simp

lemma get_jobj: "idx_json_get (Some (jobj members)) (Some key) = map_of members key"
proof -
  have "find_member (chars_to_bytes key) (map (\<lambda>(k, v). (chars_to_bytes k, v)) members) = map_of members key"
    by (induction members) auto
  then show ?thesis by (simp add: jobj_def)
qed

lemma jobj_object [simp]: "idx_json_is_object (Some (jobj members))"
  by (simp add: jobj_def)

definition sample_key :: json where
  "sample_key = JStr (replicate 32 0x31)"

definition sample_message :: json where
  "sample_message = jobj
     [(''header'', jobj [(''numRequiredSignatures'', JUint 1), (''numReadonlySignedAccounts'', JUint 0),
         (''numReadonlyUnsignedAccounts'', JUint 0)]),
      (''recentBlockhash'', sample_key), (''accountKeys'', JArr [sample_key]),
      (''instructions'', JArr [jobj [(''programIdIndex'', JUint 0), (''accounts'', JArr []), (''data'', JStr [])]])]"

definition sample_block :: json where
  "sample_block = jobj
     [(''blockhash'', sample_key), (''parentSlot'', JUint 4),
      (''transactions'', JArr [jobj [(''transaction'', jobj [(''signatures'', JArr []), (''message'', sample_message)])]])]"

definition sample_arena :: idx_arena where
  "sample_arena = \<lparr>a_chunks = [\<lparr>k_data = 4128, k_capacity = 4096, k_used = 0\<rparr>], a_current = Some 0,
     a_chunk_size = 4096, a_bytes_reserved = 4096, a_bytes_used = 0\<rparr>"

lemma sample_key_bytes:
  "idx_base58_decode_exact calloc_ok (chars_of (replicate 32 0x31)) 32 = Inr (replicate 32 0)"
proof -
  have "\<forall>c. idx_base58_decode_exact c (chars_of (replicate 32 0x31)) 32 = Inr (replicate 32 0)"
    by code_simp
  then show ?thesis by blast
qed

lemmas sample_simps = get_jobj sample_block_def sample_message_def sample_key_def sample_arena_def
  idx_block_decode_def decode_block_header_def decode_transaction_def read_version_def decode_signatures_def
  read_u8_field_def read_hash_field_def decode_pubkey_value_def resolve_accounts_def make_account_def
  decode_instructions_def decode_instruction_def decode_inner_instructions_def decode_meta_summary_def
  decode_balances_def decode_token_balances_def decode_logs_def
  idx_json_read_u64_def idx_json_read_string_def idx_json_read_object_def idx_json_read_array_def
  idx_json_is_present_def idx_json_is_null_def idx_json_opt_u64_def idx_hash_from_base58_def idx_pubkey_from_base58_def

lemma sample_decodes:
  "\<exists>out c. idx_block_decode malloc calloc_ok (Some sample_block) 5 (Some sample_arena) = (Inr out, Some c)"
  by (simp add: sample_simps Let_def sample_key_bytes IDX_HASH_LEN_def IDX_PUBKEY_LEN_def op_try_def op_return_def
      idx_arena_calloc_def idx_arena_alloc_def walk_from_current_def take_from_def chunk_fits_def padding_for_def
      is_power_of_two_def SIZE_MAX_def ALIGNOF_max_align_t_def SIZEOF_idx_transaction_def SIZEOF_idx_account_def
      SIZEOF_idx_instruction_def)

section \<open>Properties\<close>

text \<open>
  C7: A decoded block is well formed. Whatever JSON the node sent, when decoding succeeds the
  block has the slot asked for, one transaction for each entry, and in every transaction each
  account index of an instruction (inner ones included) and of a token balance names a
  resolved account, keys, signatures and hashes have their lengths, the header partitions
  the static keys into signers and writable accounts, loaded addresses follow and never sign,
  and lamport balances are absent or one per account.
\<close>

theorem block_decode_well_formed:
  assumes "idx_block_decode malloc calloc_ok block s (Some arena) = (Inr out, rest)"
  shows "slot out = s \<and> block_ok out \<and>
     (\<exists>txs. idx_json_get block (Some ''transactions'') = Some (JArr txs) \<and> length (transactions out) = length txs)"
  using yieldsD [OF yields_block assms] .

theorem block_decode_well_formed_witness:
  "\<exists>out rest. idx_block_decode one_block_malloc True (Some sample_block) 5 (Some sample_arena) = (Inr out, rest) \<and>
     slot out = 5 \<and> block_ok out \<and> length (transactions out) = 1"
proof -
  obtain out c where run: "idx_block_decode one_block_malloc True (Some sample_block) 5 (Some sample_arena) = (Inr out, Some c)"
    using sample_decodes by blast
  obtain txs where "idx_json_get (Some sample_block) (Some ''transactions'') = Some (JArr txs)"
    "length (transactions out) = length txs"
    using block_decode_well_formed [OF run] by blast
  then have "length (transactions out) = 1" by (auto simp: sample_block_def get_jobj)
  then show ?thesis using block_decode_well_formed [OF run] run by blast
qed

text \<open>
  Decoding leaves the arena sound. Whether it succeeds or fails midway, the arena it drew
  from is one the arena's own operations reach, so later blocks placed in it still lie apart
  and it can be reset and reused.
\<close>

theorem block_decode_keeps_arena:
  assumes "arena_reached malloc a" "idx_block_decode malloc calloc_ok block s (Some a) = (r, b)"
  shows "\<exists>c. b = Some c \<and> arena_reached malloc c"
  using keeps_block assms unfolding keeps_def by blast

theorem block_decode_keeps_arena_witness:
  "\<exists>r c. idx_block_decode one_block_malloc True (Some sample_block) 5 (Some no_chunk) = (r, Some c) \<and>
     arena_reached one_block_malloc c"
proof -
  obtain r b where run: "idx_block_decode one_block_malloc True (Some sample_block) 5 (Some no_chunk) = (r, b)"
    by fastforce
  then show ?thesis using block_decode_keeps_arena [OF no_chunk_reached run] by blast
qed

text \<open>
  Token amounts are read exactly. A decimal string is accepted exactly when it is not
  empty, holds only digits and denotes a number below \<open>2 ^ 64\<close>; then the result is that
  number. Everything else is a parse error, so no amount is ever wrapped.
\<close>

theorem token_amount_exact:
  "parse_u64_decimal view =
     (if view \<noteq> [] \<and> list_all isdigit (ascii_digits view) \<and> decimal_value (ascii_digits view) < 2 ^ 64
      then Inr (word_of_nat (decimal_value (ascii_digits view))) else Inl IDX_ERR_PARSE)"
  by (rule parse_u64_decimal_eq)

text \<open>
  An index past 255 names the wrong account. The program index of an instruction is
  compared with the account count at 64 bits and then kept in a byte: decoding accepts any
  index below the count, and the stored one is its remainder modulo 256, so in a transaction
  with more than 256 accounts an instruction can be attributed to another program.
\<close>

theorem program_index_narrowed:
  assumes "decode_instruction malloc calloc_ok n source s = (Inr ix, t)"
    and "idx_json_read_u64 source (Some ''programIdIndex'') = Inr p"
  shows "unat p < n \<and> unat (program_id_index ix) = unat p mod 256 \<and>
     (unat (program_id_index ix) = unat p \<longleftrightarrow> unat p < 256)"
proof -
  have "unat p < n" "program_id_index ix = ucast p" using yieldsD [OF yields_instruction assms(1)] assms(2) by auto
  moreover have "unat p mod 256 = unat p \<longleftrightarrow> unat p < 256"
    by (metis mod_less mod_less_divisor zero_less_numeral)
  ultimately show ?thesis by (simp add: unat_narrow)
qed

theorem program_index_narrowed_witness:
  "\<exists>ix t. decode_instruction one_block_malloc True 300
       (Some (jobj [(''programIdIndex'', JUint 257), (''accounts'', JArr []), (''data'', JStr [])])) None = (Inr ix, t) \<and>
     unat (program_id_index ix) = 1"
proof -
  let ?source = "Some (jobj [(''programIdIndex'', JUint 257), (''accounts'', JArr []), (''data'', JStr [])])"
  have p: "idx_json_read_u64 ?source (Some ''programIdIndex'') = Inr 257" by (simp add: idx_json_read_u64_def get_jobj)
  have "\<exists>ix t. decode_instruction one_block_malloc True 300 ?source None = (Inr ix, t)"
    by (simp add: decode_instruction_def Let_def idx_json_read_u64_def idx_json_read_array_def idx_json_read_string_def
        idx_json_is_present_def get_jobj op_try_def op_return_def)
  then obtain ix t where run: "decode_instruction one_block_malloc True 300 ?source None = (Inr ix, t)" by blast
  then show ?thesis using program_index_narrowed [OF run p] by auto
qed

end
