(* ===== verification/Balance.thy ===== *)
theory Balance
  imports Block
begin

text \<open>
  Balance observations (\<^verbatim>\<open>src/balance.c\<close>, \<^verbatim>\<open>include/balance.h\<close>): the lamport balances a
  transaction moved, and the join of its two sparse lists of token balances. Signed deltas are
  kept as their 64 bits, read as signed. The rows a loop has filled so far are a list.
\<close>

section \<open>Model\<close>

record idx_sol_balance =
  sb_account :: idx_pubkey
  sb_lamports :: u64
  sb_delta :: u64

record idx_token_balance_state =
  st_account :: idx_pubkey
  st_mint :: idx_pubkey
  st_owner :: idx_pubkey
  st_amount :: u64
  st_previous :: u64
  st_decimals :: byte
  st_has_owner :: bool
  st_existed_before :: bool
  st_closed :: bool

definition SIZEOF_idx_sol_balance :: nat where "SIZEOF_idx_sol_balance = 48"
definition SIZEOF_idx_token_balance_state :: nat where "SIZEOF_idx_token_balance_state = 120"

definition INT64_MAX :: u64 where "INT64_MAX = 0x7fffffffffffffff"

definition signed_delta :: "u64 \<Rightarrow> u64 \<Rightarrow> u64 result" where
  "signed_delta before after =
     (let increased = after \<ge> before;
          magnitude = (if increased then after - before else before - after)
      in if magnitude > INT64_MAX then Inl IDX_ERR_RANGE
         else Inr (if increased then magnitude else - magnitude))"

fun sol_rows :: "idx_transaction \<Rightarrow> nat list \<Rightarrow> idx_sol_balance list \<Rightarrow> idx_sol_balance list result" where
  "sol_rows tx [] balances = Inr balances"
| "sol_rows tx (i # rest) balances =
     (let before = pre_balances tx ! i; after = post_balances tx ! i in
      if before = after then sol_rows tx rest balances
      else idx_try (signed_delta before after) (\<lambda>delta.
        sol_rows tx rest (balances @
          [\<lparr>sb_account = pubkey (accounts tx ! i), sb_lamports = after, sb_delta = delta\<rparr>])))"

fun idx_sol_balance_extract :: "malloc_fn \<Rightarrow> idx_transaction option \<Rightarrow> idx_sol_balance list arena_op" where
  "idx_sol_balance_extract malloc None = op_return (Inl IDX_ERR_INVALID_ARG)"
| "idx_sol_balance_extract malloc (Some tx) = (\<lambda>arena.
     if arena = None then (Inl IDX_ERR_INVALID_ARG, arena)
     else if pre_balances tx = [] \<or> post_balances tx = [] then (Inr [], arena)
     else op_try (idx_arena_calloc malloc (length (pre_balances tx)) SIZEOF_idx_sol_balance) (\<lambda>_.
       op_return (sol_rows tx [0..<length (pre_balances tx)] [])) arena)"

definition same_holding :: "idx_token_balance \<Rightarrow> idx_token_balance \<Rightarrow> bool" where
  "same_holding a b \<longleftrightarrow> account_index a = account_index b \<and> idx_pubkey_equal (tb_mint a) (tb_mint b)"

text \<open>The outer loop of the check with the entries already passed.\<close>

fun check_unique_from :: "idx_token_balance list \<Rightarrow> idx_token_balance list \<Rightarrow> unit result" where
  "check_unique_from passed [] = Inr ()"
| "check_unique_from passed (x # rest) =
     (if list_ex (same_holding x) passed then Inl IDX_ERR_PARSE
      else check_unique_from (passed @ [x]) rest)"

definition check_unique :: "idx_token_balance list \<Rightarrow> unit result" where
  "check_unique entries = check_unique_from [] entries"

definition find_holding :: "idx_token_balance list \<Rightarrow> idx_token_balance \<Rightarrow> idx_token_balance option" where
  "find_holding entries needle = find (\<lambda>entry. same_holding entry needle) entries"

definition zero_state :: idx_token_balance_state where
  "zero_state = \<lparr>st_account = IDX_PUBKEY_DEFAULT, st_mint = IDX_PUBKEY_DEFAULT, st_owner = IDX_PUBKEY_DEFAULT,
     st_amount = 0, st_previous = 0, st_decimals = 0, st_has_owner = False, st_existed_before = False,
     st_closed = False\<rparr>"

definition fill_holding ::
    "idx_token_balance_state \<Rightarrow> idx_transaction \<Rightarrow> idx_token_balance \<Rightarrow> idx_token_balance_state" where
  "fill_holding st tx entry =
     (let st = st\<lparr>st_account := pubkey (accounts tx ! unat (account_index entry)), st_mint := tb_mint entry,
                  st_decimals := tb_decimals entry, st_has_owner := tb_has_owner entry\<rparr>
      in if tb_has_owner entry then st\<lparr>st_owner := tb_owner entry\<rparr> else st)"

fun post_states :: "idx_transaction \<Rightarrow> idx_token_balance list \<Rightarrow> idx_token_balance_state list \<Rightarrow>
    idx_token_balance_state list" where
  "post_states tx [] states = states"
| "post_states tx (after # rest) states =
     (let before = find_holding (pre_token_balances tx) after;
          previous = (case before of None \<Rightarrow> 0 | Some entry \<Rightarrow> tb_amount entry)
      in if previous = tb_amount after then post_states tx rest states
         else post_states tx rest (states @
           [(fill_holding zero_state tx after)\<lparr>st_amount := tb_amount after, st_existed_before := before \<noteq> None,
                                               st_previous := previous\<rparr>]))"

fun pre_states :: "idx_transaction \<Rightarrow> idx_token_balance list \<Rightarrow> idx_token_balance_state list \<Rightarrow>
    idx_token_balance_state list" where
  "pre_states tx [] states = states"
| "pre_states tx (before # rest) states =
     (if tb_amount before = 0 \<or> find_holding (post_token_balances tx) before \<noteq> None
      then pre_states tx rest states
      else pre_states tx rest (states @
        [(fill_holding zero_state tx before)\<lparr>st_amount := 0, st_previous := tb_amount before,
                                             st_existed_before := True, st_closed := True\<rparr>]))"

fun idx_token_balance_extract :: "malloc_fn \<Rightarrow> idx_transaction option \<Rightarrow> idx_token_balance_state list arena_op" where
  "idx_token_balance_extract malloc None = op_return (Inl IDX_ERR_INVALID_ARG)"
| "idx_token_balance_extract malloc (Some tx) = (\<lambda>arena.
     if arena = None then (Inl IDX_ERR_INVALID_ARG, arena)
     else let pre = pre_token_balances tx; post = post_token_balances tx in
       if pre = [] \<and> post = [] \<or> accounts tx = [] then (Inr [], arena)
       else op_try (op_return (check_unique pre)) (\<lambda>_.
            op_try (op_return (check_unique post)) (\<lambda>_.
            op_try (idx_arena_calloc malloc (length pre + length post) SIZEOF_idx_token_balance_state) (\<lambda>_.
            op_return (Inr (pre_states tx pre (post_states tx post [])))))) arena)"

section \<open>Lamports\<close>

definition change :: "u64 \<Rightarrow> u64 \<Rightarrow> int" where
  "change before after = int (unat after) - int (unat before)"

lemma signed_delta_eq:
  "signed_delta before after =
     (if \<bar>change before after\<bar> < 2 ^ 63 then Inr (word_of_int (change before after)) else Inl IDX_ERR_RANGE)"
proof -
  define x y where "x = unat before" and "y = unat after"
  let ?m = "if before \<le> after then after - before else before - after"
  have le: "before \<le> after \<longleftrightarrow> x \<le> y" by (simp add: x_def y_def word_le_nat_alt)
  have m: "unat ?m = (if x \<le> y then y - x else x - y)"
    using le unat_sub [of before after] unat_sub [of after before]
    by (cases "before \<le> after") (simp_all add: x_def y_def)
  have "?m > INT64_MAX \<longleftrightarrow> unat ?m \<ge> 2 ^ 63" by (auto simp: INT64_MAX_def word_less_nat_alt)
  also have "\<dots> \<longleftrightarrow> \<not> \<bar>int y - int x\<bar> < 2 ^ 63"
    unfolding m by (auto split: if_splits)
  finally have far: "?m > INT64_MAX \<longleftrightarrow> \<not> \<bar>change before after\<bar> < 2 ^ 63"
    by (simp only: change_def x_def y_def)
  have "(if before \<le> after then ?m else - ?m) = after - before" by simp
  also have "\<dots> = word_of_int (change before after)"
    by (simp add: change_def flip: word_of_int_uint)
  finally show ?thesis using far unfolding signed_delta_def Let_def by presburger
qed

definition moved :: "idx_transaction \<Rightarrow> nat \<Rightarrow> bool" where
  "moved tx i \<longleftrightarrow> pre_balances tx ! i \<noteq> post_balances tx ! i"

definition account_change :: "idx_transaction \<Rightarrow> nat \<Rightarrow> int" where
  "account_change tx i = change (pre_balances tx ! i) (post_balances tx ! i)"

definition sol_row :: "idx_transaction \<Rightarrow> nat \<Rightarrow> idx_sol_balance" where
  "sol_row tx i = \<lparr>sb_account = pubkey (accounts tx ! i), sb_lamports = post_balances tx ! i,
     sb_delta = word_of_int (account_change tx i)\<rparr>"

lemma account_change_0: "account_change tx i = 0 \<longleftrightarrow> \<not> moved tx i"
  unfolding account_change_def change_def moved_def
  by (metis eq_iff_diff_eq_0 of_nat_eq_iff word_unat_eq_iff)

lemma sol_rows_step:
  "sol_rows tx (i # rest) rows =
     (if \<not> moved tx i then sol_rows tx rest rows
      else if \<bar>account_change tx i\<bar> < 2 ^ 63 then sol_rows tx rest (rows @ [sol_row tx i]) else Inl IDX_ERR_RANGE)"
  by (simp add: Let_def signed_delta_eq moved_def sol_row_def account_change_def)

lemma sol_rows_eq:
  "sol_rows tx is rows =
     (if \<forall>i \<in> set is. \<bar>account_change tx i\<bar> < 2 ^ 63 then Inr (rows @ map (sol_row tx) (filter (moved tx) is))
      else Inl IDX_ERR_RANGE)"
proof (induction "is" arbitrary: rows)
  case (Cons i rest)
  show ?case unfolding sol_rows_step using Cons account_change_0 [of tx i] by (auto simp del: sol_rows.simps(2))
qed simp

lemma sol_row_delta: "\<bar>account_change tx i\<bar> < 2 ^ 63 \<Longrightarrow> sint (sb_delta (sol_row tx i)) = account_change tx i"
  by (simp add: sol_row_def sint_sbintrunc' signed_take_bit_int_eq_self)

definition lamport_total :: "u64 list \<Rightarrow> int" where
  "lamport_total balances = (\<Sum>b\<leftarrow>balances. int (unat b))"

lemma map_index: "map (\<lambda>i. f (xs ! i)) [0..<length xs] = map f xs"
  by (rule nth_equalityI) simp_all

lemma total_change:
  assumes "length (pre_balances tx) = length (post_balances tx)"
  shows "(\<Sum>i\<leftarrow>filter (moved tx) [0..<length (pre_balances tx)]. account_change tx i) =
     lamport_total (post_balances tx) - lamport_total (pre_balances tx)"
proof -
  have "(\<Sum>i\<leftarrow>filter (moved tx) [0..<length (pre_balances tx)]. account_change tx i) =
      (\<Sum>i\<leftarrow>[0..<length (pre_balances tx)]. account_change tx i)"
    by (rule sum_list_map_filter) (simp add: account_change_0)
  also have "\<dots> = (\<Sum>i\<leftarrow>[0..<length (post_balances tx)]. int (unat (post_balances tx ! i))) -
      (\<Sum>i\<leftarrow>[0..<length (pre_balances tx)]. int (unat (pre_balances tx ! i)))"
    unfolding account_change_def change_def assms by (rule sum_list_subtractf)
  also have "\<dots> = lamport_total (post_balances tx) - lamport_total (pre_balances tx)"
    by (simp only: lamport_total_def map_index [of "\<lambda>b. int (unat b)"])
  finally show ?thesis .
qed

section \<open>Tokens\<close>

text \<open>What the join is keyed on, and how much of a holding a list records.\<close>

definition holding :: "idx_token_balance \<Rightarrow> byte \<times> idx_pubkey" where
  "holding e = (account_index e, tb_mint e)"

definition amount_in :: "idx_token_balance list \<Rightarrow> byte \<times> idx_pubkey \<Rightarrow> u64" where
  "amount_in entries h = (case find (\<lambda>e. holding e = h) entries of None \<Rightarrow> 0 | Some e \<Rightarrow> tb_amount e)"

definition keyed :: "idx_token_balance list \<Rightarrow> bool" where
  "keyed entries \<longleftrightarrow> list_all (\<lambda>e. key_ok (tb_mint e)) entries"

lemma same_holding_iff: "key_ok (tb_mint a) \<Longrightarrow> key_ok (tb_mint b) \<Longrightarrow> same_holding a b \<longleftrightarrow> holding a = holding b"
  by (simp add: same_holding_def holding_def idx_pubkey_equal_iff)

lemma check_unique_from_iff:
  "keyed (passed @ entries) \<Longrightarrow> distinct (map holding passed) \<Longrightarrow>
     check_unique_from passed entries = (if distinct (map holding (passed @ entries)) then Inr () else Inl IDX_ERR_PARSE)"
proof (induction entries arbitrary: passed)
  case (Cons x rest)
  have "list_ex (same_holding x) passed \<longleftrightarrow> holding x \<in> holding ` set passed"
    using Cons.prems(1) by (auto simp: keyed_def list_ex_iff list_all_iff same_holding_iff image_iff)
  then show ?case using Cons.IH [of "passed @ [x]"] Cons.prems by auto
qed simp

lemma check_unique_iff:
  "keyed entries \<Longrightarrow> check_unique entries = (if distinct (map holding entries) then Inr () else Inl IDX_ERR_PARSE)"
  using check_unique_from_iff [of "[]" entries] by (simp add: check_unique_def)

lemma find_holding_eq:
  "keyed entries \<Longrightarrow> key_ok (tb_mint needle) \<Longrightarrow> find_holding entries needle = find (\<lambda>e. holding e = holding needle) entries"
  unfolding find_holding_def by (rule find_cong) (auto simp: keyed_def list_all_iff same_holding_iff)

lemma find_holding_None:
  "keyed entries \<Longrightarrow> key_ok (tb_mint needle) \<Longrightarrow> find_holding entries needle = None \<longleftrightarrow> holding needle \<notin> holding ` set entries"
  by (simp add: find_holding_eq find_None_iff image_iff) metis

lemma amount_in_absent: "h \<notin> holding ` set entries \<Longrightarrow> amount_in entries h = 0"
  by (auto simp: amount_in_def find_Some_iff split: option.splits)

lemma amount_in_entry:
  assumes "distinct (map holding entries)" "e \<in> set entries"
  shows "amount_in entries (holding e) = tb_amount e"
proof (cases "find (\<lambda>d. holding d = holding e) entries")
  case None
  then show ?thesis using assms(2) by (auto simp: find_None_iff)
next
  case (Some d)
  then have "d \<in> set entries" "holding d = holding e" by (auto simp: find_Some_iff)
  then have "d = e" using assms by (auto simp: distinct_map dest: inj_onD)
  then show ?thesis using Some by (simp add: amount_in_def)
qed

text \<open>The row for a holding with an amount before and an amount after.\<close>

definition describes :: "idx_transaction \<Rightarrow> byte \<times> idx_pubkey \<Rightarrow> idx_token_balance_state \<Rightarrow> bool" where
  "describes tx h row \<longleftrightarrow> st_account row = pubkey (accounts tx ! unat (fst h)) \<and> st_mint row = snd h \<and>
     st_previous row = amount_in (pre_token_balances tx) h \<and> st_amount row = amount_in (post_token_balances tx) h \<and>
     (st_existed_before row \<longleftrightarrow> h \<in> holding ` set (pre_token_balances tx)) \<and>
     (st_closed row \<longleftrightarrow> h \<notin> holding ` set (post_token_balances tx))"

definition changed :: "idx_transaction \<Rightarrow> idx_token_balance \<Rightarrow> bool" where
  "changed tx e \<longleftrightarrow> amount_in (pre_token_balances tx) (holding e) \<noteq> tb_amount e"

definition gone :: "idx_transaction \<Rightarrow> idx_token_balance \<Rightarrow> bool" where
  "gone tx e \<longleftrightarrow> tb_amount e \<noteq> 0 \<and> holding e \<notin> holding ` set (post_token_balances tx)"

lemma fill_holding_fields [simp]:
  "st_account (fill_holding st tx e) = pubkey (accounts tx ! unat (account_index e))"
  "st_mint (fill_holding st tx e) = tb_mint e"
  "st_existed_before (fill_holding st tx e) = st_existed_before st" "st_closed (fill_holding st tx e) = st_closed st"
  by (simp_all add: fill_holding_def Let_def)

lemma post_states_rows:
  assumes "keyed (pre_token_balances tx)" "distinct (map holding (post_token_balances tx))"
  shows "keyed entries \<Longrightarrow> set entries \<subseteq> set (post_token_balances tx) \<Longrightarrow>
     \<exists>rows. post_states tx entries states = states @ rows \<and>
       list_all2 (describes tx) (map holding (filter (changed tx) entries)) rows"
proof (induction entries arbitrary: states)
  case (Cons e entries)
  have key: "key_ok (tb_mint e)" and rest: "keyed entries" using Cons.prems(1) by (auto simp: keyed_def)
  note IH = Cons.IH [OF rest]
  let ?b = "find_holding (pre_token_balances tx) e"
  have prev: "(case ?b of None \<Rightarrow> 0 | Some entry \<Rightarrow> tb_amount entry) = amount_in (pre_token_balances tx) (holding e)"
    using find_holding_eq [OF assms(1) key] by (simp add: amount_in_def)
  let ?row = "(fill_holding zero_state tx e)\<lparr>st_amount := tb_amount e, st_existed_before := ?b \<noteq> None,
     st_previous := amount_in (pre_token_balances tx) (holding e)\<rparr>"
  have row: "describes tx (holding e) ?row"
    using find_holding_None [OF assms(1) key] amount_in_entry [OF assms(2)] Cons.prems(2)
    by (auto simp: describes_def zero_state_def) (simp_all add: holding_def)
  have step: "post_states tx (e # entries) states = post_states tx entries (if changed tx e then states @ [?row] else states)"
    by (simp add: prev changed_def Let_def)
  show ?case
  proof (cases "changed tx e")
    case True
    obtain rows where "post_states tx entries (states @ [?row]) = (states @ [?row]) @ rows"
      "list_all2 (describes tx) (map holding (filter (changed tx) entries)) rows"
      using IH [of "states @ [?row]"] Cons.prems(2) by auto
    then show ?thesis using True row step by simp
  next
    case False
    then show ?thesis using IH [of states] Cons.prems(2) step by simp
  qed
qed simp

lemma pre_states_rows:
  assumes "keyed (post_token_balances tx)" "distinct (map holding (pre_token_balances tx))"
  shows "keyed entries \<Longrightarrow> set entries \<subseteq> set (pre_token_balances tx) \<Longrightarrow>
     \<exists>rows. pre_states tx entries states = states @ rows \<and>
       list_all2 (describes tx) (map holding (filter (gone tx) entries)) rows"
proof (induction entries arbitrary: states)
  case (Cons e entries)
  have key: "key_ok (tb_mint e)" and rest: "keyed entries" using Cons.prems(1) by (auto simp: keyed_def)
  note IH = Cons.IH [OF rest]
  note absent = find_holding_None [OF assms(1) key]
  let ?row = "(fill_holding zero_state tx e)\<lparr>st_amount := 0, st_previous := tb_amount e, st_existed_before := True,
     st_closed := True\<rparr>"
  have row: "gone tx e \<Longrightarrow> describes tx (holding e) ?row"
    using amount_in_entry [OF assms(2)] amount_in_absent Cons.prems(2)
    by (auto simp: describes_def gone_def zero_state_def) (simp_all add: holding_def)
  have step: "pre_states tx (e # entries) states = pre_states tx entries (if gone tx e then states @ [?row] else states)"
    using absent by (auto simp: gone_def)
  show ?case
  proof (cases "gone tx e")
    case True
    obtain rows where "pre_states tx entries (states @ [?row]) = (states @ [?row]) @ rows"
      "list_all2 (describes tx) (map holding (filter (gone tx) entries)) rows"
      using IH [of "states @ [?row]"] Cons.prems(2) by auto
    then show ?thesis using True row step by simp
  next
    case False
    then show ?thesis using IH [of states] Cons.prems(2) step by simp
  qed
qed simp

lemma holdings_joined:
  assumes "distinct (map holding (pre_token_balances tx))" "distinct (map holding (post_token_balances tx))"
  defines "holds \<equiv> map holding (filter (changed tx) (post_token_balances tx)) @
     map holding (filter (gone tx) (pre_token_balances tx))"
  shows "distinct holds \<and> set holds =
     {h. amount_in (pre_token_balances tx) h \<noteq> amount_in (post_token_balances tx) h}"
proof
  show "distinct holds"
    using assms(1,2) unfolding holds_def
    by (auto simp: distinct_map_filter gone_def)
  show "set holds = {h. amount_in (pre_token_balances tx) h \<noteq> amount_in (post_token_balances tx) h}"
  proof (intro set_eqI iffI)
    fix h assume "h \<in> set holds"
    then show "h \<in> {h. amount_in (pre_token_balances tx) h \<noteq> amount_in (post_token_balances tx) h}"
      using amount_in_entry [OF assms(1)] amount_in_entry [OF assms(2)]
      by (auto simp: holds_def changed_def gone_def amount_in_absent)
  next
    fix h assume h: "h \<in> {h. amount_in (pre_token_balances tx) h \<noteq> amount_in (post_token_balances tx) h}"
    show "h \<in> set holds"
    proof (cases "h \<in> holding ` set (post_token_balances tx)")
      case True
      then show ?thesis using h amount_in_entry [OF assms(2)] by (auto simp: holds_def changed_def)
    next
      case False
      then have "amount_in (pre_token_balances tx) h \<noteq> 0" using h by (simp add: amount_in_absent)
      then obtain e where "e \<in> set (pre_token_balances tx)" "holding e = h"
        using amount_in_absent [of h "pre_token_balances tx"] by auto
      then show ?thesis using False \<open>amount_in (pre_token_balances tx) h \<noteq> 0\<close> amount_in_entry [OF assms(1)]
        by (force simp: holds_def gone_def)
    qed
  qed
qed

lemma token_extract_eq:
  assumes "list_all (token_balance_ok (length (accounts tx))) (pre_token_balances tx @ post_token_balances tx)"
  shows "idx_token_balance_extract malloc (Some tx) (Some a) =
     (if pre_token_balances tx = [] \<and> post_token_balances tx = [] then (Inr [], Some a)
      else if \<not> distinct (map holding (pre_token_balances tx)) \<or> \<not> distinct (map holding (post_token_balances tx))
      then (Inl IDX_ERR_PARSE, Some a)
      else case idx_arena_calloc malloc (length (pre_token_balances tx) + length (post_token_balances tx))
          SIZEOF_idx_token_balance_state (Some a) of
        (Inl e, b) \<Rightarrow> (Inl e, b)
      | (Inr _, b) \<Rightarrow> (Inr (pre_states tx (pre_token_balances tx) (post_states tx (post_token_balances tx) [])), b))"
proof -
  have k: "keyed (pre_token_balances tx)" "keyed (post_token_balances tx)"
    using assms by (auto simp: keyed_def list_all_iff token_balance_ok_def)
  have "accounts tx = [] \<Longrightarrow> pre_token_balances tx = [] \<and> post_token_balances tx = []"
    using assms by (cases "pre_token_balances tx"; cases "post_token_balances tx") (auto simp: token_balance_ok_def)
  then show ?thesis
    by (cases "accounts tx = []") (simp_all add: op_try_def op_return_def check_unique_iff k Let_def)
qed

section \<open>Properties\<close>

text \<open>
  C9: Lamport observations are exact and conserve the total. On a decoded transaction, the
  rows are the accounts whose balance moved, in account order, each with the balance after
  and a delta, read as signed, equal to after minus before and never zero; the deltas sum to
  the change of the transaction's total.
\<close>

theorem sol_balances_conserve:
  assumes "tx_ok tx" and run: "idx_sol_balance_extract malloc (Some tx) (Some a) = (Inr rows, b)"
  shows "rows = map (sol_row tx) (filter (moved tx) [0..<length (pre_balances tx)]) \<and>
     (\<forall>i < length (pre_balances tx). moved tx i \<longrightarrow> sint (sb_delta (sol_row tx i)) = account_change tx i \<and> account_change tx i \<noteq> 0) \<and>
     (\<Sum>row\<leftarrow>rows. sint (sb_delta row)) = lamport_total (post_balances tx) - lamport_total (pre_balances tx)"
proof -
  let ?is = "[0..<length (pre_balances tx)]"
  have len: "length (pre_balances tx) = length (post_balances tx)" using assms(1) by (simp add: tx_ok_def)
  have "rows = map (sol_row tx) (filter (moved tx) ?is) \<and> (\<forall>i \<in> set ?is. \<bar>account_change tx i\<bar> < 2 ^ 63)"
    using run len by (auto simp: op_try_Inr_iff sol_rows_eq split: if_splits)
  then have rows: "rows = map (sol_row tx) (filter (moved tx) ?is)"
    and near: "\<forall>i \<in> set ?is. \<bar>account_change tx i\<bar> < 2 ^ 63" by blast+
  have delta: "sint (sb_delta (sol_row tx i)) = account_change tx i" if "i \<in> set ?is" for i
    using near that sol_row_delta by blast
  have "map (\<lambda>row. sint (sb_delta row)) rows = map (account_change tx) (filter (moved tx) ?is)"
    unfolding rows by (simp add: delta)
  then have "(\<Sum>row\<leftarrow>rows. sint (sb_delta row)) = lamport_total (post_balances tx) - lamport_total (pre_balances tx)"
    using total_change [OF len] by simp
  then show ?thesis using rows delta by (simp add: account_change_0)
qed

text \<open>
  C6: Token observations are the join of the two lists. On a decoded transaction there is
  exactly one row for each holding (token account and mint) whose amount, zero where a list
  does not name it, differs between the two lists, and no other; the row carries both
  amounts, and says the holding existed before, or is closed, exactly when the first list
  names it, or the second does not.
\<close>

theorem token_balances_join:
  assumes "tx_ok tx" and run: "idx_token_balance_extract malloc (Some tx) (Some a) = (Inr rows, b)"
  shows "\<exists>holds. distinct holds \<and>
     set holds = {h. amount_in (pre_token_balances tx) h \<noteq> amount_in (post_token_balances tx) h} \<and>
     list_all2 (describes tx) holds rows"
proof -
  have ok: "list_all (token_balance_ok (length (accounts tx))) (pre_token_balances tx @ post_token_balances tx)"
    using assms(1) by (simp add: tx_ok_def)
  then have k: "keyed (pre_token_balances tx)" "keyed (post_token_balances tx)"
    by (auto simp: keyed_def list_all_iff token_balance_ok_def)
  let ?holds = "map holding (filter (changed tx) (post_token_balances tx)) @
     map holding (filter (gone tx) (pre_token_balances tx))"
  have d: "distinct (map holding (pre_token_balances tx))" "distinct (map holding (post_token_balances tx))"
    and rows: "rows = pre_states tx (pre_token_balances tx) (post_states tx (post_token_balances tx) [])"
    using run unfolding token_extract_eq [OF ok] by (auto split: if_splits prod.splits sum.splits)
  obtain xs where xs: "post_states tx (post_token_balances tx) [] = xs"
    "list_all2 (describes tx) (map holding (filter (changed tx) (post_token_balances tx))) xs"
    using post_states_rows [OF k(1) d(2) k(2) subset_refl, of "[]"] by auto
  obtain ys where "rows = xs @ ys" "list_all2 (describes tx) (map holding (filter (gone tx) (pre_token_balances tx))) ys"
    using pre_states_rows [OF k(2) d(1) k(1) subset_refl, of xs] rows xs(1) by auto
  then have "list_all2 (describes tx) ?holds rows" using xs(2) by (simp add: list_all2_appendI)
  then show ?thesis using holdings_joined [OF d] by blast
qed

section \<open>A concrete transaction\<close>

text \<open>The payer spends two lamports and empties a token account into nothing.\<close>

definition sample_holding :: "u64 \<Rightarrow> idx_token_balance" where
  "sample_holding amount = zero_token_balance\<lparr>tb_amount := amount\<rparr>"

definition moving_tx :: idx_transaction where
  "moving_tx = \<lparr>version = IDX_TX_VERSION_LEGACY, signatures = [], num_required_signatures = 1,
     num_readonly_signed = 0, num_readonly_unsigned = 0, recent_blockhash = zero_hash,
     accounts = [\<lparr>pubkey = IDX_PUBKEY_DEFAULT, is_signer = True, is_writable = True, from_lookup_table = False\<rparr>],
     static_account_count = 1, instructions = [], inner_instructions = [], has_meta = True, success = True, fee = 2,
     pre_balances = [5], post_balances = [3], pre_token_balances = [sample_holding 7], post_token_balances = [],
     logs = []\<rparr>"

lemma moving_tx_ok: "tx_ok moving_tx"
  by (simp add: tx_ok_def moving_tx_def accounts_ok_def token_balance_ok_def sample_holding_def zero_token_balance_def
      Let_def)

theorem sol_balances_conserve_witness:
  "\<exists>rows b. idx_sol_balance_extract one_block_malloc (Some moving_tx) (Some sample_arena) = (Inr rows, b) \<and>
     map sb_lamports rows = [3] \<and> (\<Sum>row\<leftarrow>rows. sint (sb_delta row)) = - 2"
proof -
  have "\<exists>rows b. idx_sol_balance_extract one_block_malloc (Some moving_tx) (Some sample_arena) = (Inr rows, b)"
    by (simp add: moving_tx_def sample_arena_def idx_arena_calloc_def idx_arena_alloc_def arena_eval
        ALIGNOF_max_align_t_def SIZEOF_idx_sol_balance_def op_return_def signed_delta_def INT64_MAX_def)
  then obtain rows b where run: "idx_sol_balance_extract one_block_malloc (Some moving_tx) (Some sample_arena) = (Inr rows, b)"
    by blast
  have "rows = map (sol_row moving_tx) (filter (moved moving_tx) [0..<length (pre_balances moving_tx)])"
    and total: "(\<Sum>row\<leftarrow>rows. sint (sb_delta row)) = lamport_total (post_balances moving_tx) - lamport_total (pre_balances moving_tx)"
    using sol_balances_conserve [OF moving_tx_ok run] by blast+
  then have "map sb_lamports rows = [3]" by (simp add: moving_tx_def moved_def sol_row_def)
  moreover have "(\<Sum>row\<leftarrow>rows. sint (sb_delta row)) = - 2" using total by (simp add: moving_tx_def lamport_total_def)
  ultimately show ?thesis using run by (intro exI conjI)
qed

theorem token_balances_join_witness:
  "\<exists>rows b holds. idx_token_balance_extract one_block_malloc (Some moving_tx) (Some sample_arena) = (Inr rows, b) \<and>
     set holds = {(0, IDX_PUBKEY_DEFAULT)} \<and> list_all2 (describes moving_tx) holds rows"
proof -
  have ok: "list_all (token_balance_ok (length (accounts moving_tx))) (pre_token_balances moving_tx @ post_token_balances moving_tx)"
    using moving_tx_ok by (simp add: tx_ok_def)
  have "\<exists>rows b. idx_token_balance_extract one_block_malloc (Some moving_tx) (Some sample_arena) = (Inr rows, b)"
    unfolding token_extract_eq [OF ok]
    by (simp add: moving_tx_def sample_arena_def idx_arena_calloc_def idx_arena_alloc_def arena_eval
        ALIGNOF_max_align_t_def SIZEOF_idx_token_balance_state_def op_return_def)
  then obtain rows b where run: "idx_token_balance_extract one_block_malloc (Some moving_tx) (Some sample_arena) = (Inr rows, b)"
    by blast
  obtain holds where "set holds = {h. amount_in (pre_token_balances moving_tx) h \<noteq> amount_in (post_token_balances moving_tx) h}"
    "list_all2 (describes moving_tx) holds rows"
    using token_balances_join [OF moving_tx_ok run] by blast
  moreover have "{h. amount_in (pre_token_balances moving_tx) h \<noteq> amount_in (post_token_balances moving_tx) h} =
      {(0, IDX_PUBKEY_DEFAULT)}"
    by (auto simp: amount_in_def moving_tx_def sample_holding_def zero_token_balance_def holding_def)
  ultimately show ?thesis using run by auto
qed

end
