(* ===== verification/InstructionData.thy ===== *)
theory InstructionData
  imports Block
begin

text \<open>
  What the per-program instruction decoders share: resolving a named operand, reading a key
  from the instruction data (the static helpers of \<^verbatim>\<open>src/system_program.c\<close>,
  \<^verbatim>\<open>src/token_program.c\<close> and \<^verbatim>\<open>src/token_2022.c\<close>, which differ only in their messages), and the
  wire form of numbers and keys, with the rules that run a decoder on encoded data.
\<close>

section \<open>Model\<close>

definition require_account :: "idx_transaction \<Rightarrow> idx_instruction \<Rightarrow> nat \<Rightarrow> idx_pubkey result" where
  "require_account tx ix position = (case idx_instruction_account tx ix position of
      None \<Rightarrow> Inl IDX_ERR_PARSE
    | Some account \<Rightarrow> Inr account)"

definition read_pubkey :: "idx_cursor \<Rightarrow> (idx_pubkey \<times> idx_cursor) result" where
  "read_pubkey cursor = idx_cursor_copy cursor IDX_PUBKEY_LEN"

section \<open>Wire form\<close>

fun le_bytes :: "nat \<Rightarrow> nat \<Rightarrow> bytes" where
  "le_bytes 0 v = []"
| "le_bytes (Suc n) v = word_of_nat v # le_bytes n (v div 256)"

lemma length_le_bytes [simp]: "length (le_bytes n v) = n"
  by (induction n arbitrary: v) auto

lemma le_value_le_bytes: "le_value (le_bytes n v) = v mod 256 ^ n"
proof (induction n arbitrary: v)
  case (Suc n)
  have "unat (word_of_nat v :: byte) = v mod 256" by (simp add: unsigned_of_nat take_bit_eq_mod)
  then have "le_value (le_bytes (Suc n) v) = v mod 256 + 256 * (v div 256 mod 256 ^ n)" using Suc by simp
  also have "\<dots> = v mod (256 * 256 ^ n)" using mod_mult2_eq [of v 256 "256 ^ n"] by simp
  finally show ?case by simp
qed simp

definition u16_bytes :: "u16 \<Rightarrow> bytes" where "u16_bytes w = le_bytes 2 (unat w)"
definition u32_bytes :: "u32 \<Rightarrow> bytes" where "u32_bytes w = le_bytes 4 (unat w)"
definition u64_bytes :: "u64 \<Rightarrow> bytes" where "u64_bytes w = le_bytes 8 (unat w)"

lemma length_word_bytes [simp]: "length (u16_bytes a) = 2" "length (u32_bytes b) = 4" "length (u64_bytes c) = 8"
  by (simp_all add: u16_bytes_def u32_bytes_def u64_bytes_def)

lemma le_word_le_bytes:
  fixes w :: "'a::len word"
  assumes "8 * n = LENGTH('a)"
  shows "le_word n (le_bytes n (unat w)) = w"
proof -
  have "unat (le_word n (le_bytes n (unat w)) :: 'a word) = le_value (le_bytes n (unat w))"
    using assms by (simp add: unat_le_word)
  also have "\<dots> = unat w mod 256 ^ n" by (rule le_value_le_bytes)
  also have "(256 :: nat) ^ n = 2 ^ LENGTH('a)" using assms by (simp add: power_mult flip: assms)
  also have "unat w mod 2 ^ LENGTH('a) = unat w" using unsigned_less [of w] by simp
  finally show ?thesis by (simp add: word_unat_eq_iff)
qed

text \<open>\<open>consumes f v bs\<close>: on input that starts with \<open>bs\<close> the reader \<open>f\<close> yields \<open>v\<close> and goes past them.\<close>

definition consumes :: "(idx_cursor \<Rightarrow> ('a \<times> idx_cursor) result) \<Rightarrow> 'a \<Rightarrow> bytes \<Rightarrow> bool" where
  "consumes f v bs \<longleftrightarrow>
     (\<forall>c rest. unread c = bs @ rest \<longrightarrow> (\<exists>d. f c = Inr (v, d) \<and> unread d = rest))"

lemma unread_advance:
  "unread (c\<lparr>c_offset := c_offset c + n\<rparr>) = drop n (unread c)"
  "unread (c\<lparr>c_offset := Suc (c_offset c)\<rparr>) = drop 1 (unread c)"
  "unread (c\<lparr>c_offset := Suc (Suc (c_offset c))\<rparr>) = drop 2 (unread c)"
  by (simp_all add: unread_def add.commute)

lemma consumes_u8: "consumes idx_cursor_u8 b [b]"
  by (simp add: consumes_def idx_cursor_u8_eq unread_advance)

lemma consumes_u16: "consumes idx_cursor_u16le w (u16_bytes w)"
  using le_word_le_bytes [of 2 w]
  by (simp add: consumes_def idx_cursor_u16le_eq unread_advance) (simp add: u16_bytes_def)

lemma consumes_u32: "consumes idx_cursor_u32le w (u32_bytes w)"
  using le_word_le_bytes [of 4 w]
  by (simp add: consumes_def idx_cursor_u32le_eq unread_advance) (simp add: u32_bytes_def)

lemma consumes_u64: "consumes idx_cursor_u64le w (u64_bytes w)"
  using le_word_le_bytes [of 8 w]
  by (simp add: consumes_def idx_cursor_u64le_eq unread_advance) (simp add: u64_bytes_def)

lemma consumes_take: "consumes (\<lambda>c. idx_cursor_take c (length bs)) bs bs"
  by (simp add: consumes_def idx_cursor_take_eq unread_advance)

lemma consumes_pubkey: "key_ok k \<Longrightarrow> consumes read_pubkey k k"
  by (simp add: consumes_def read_pubkey_def idx_cursor_copy_eq idx_cursor_take_eq unread_advance key_ok_def)

text \<open>The rules that step through a decoder.\<close>

lemma try_read:
  assumes "consumes f v bs" "unread c = bs @ rest" "\<And>d. unread d = rest \<Longrightarrow> k v d = Inr w"
  shows "idx_try (f c) (\<lambda>(x, d). k x d) = Inr w"
  using assms unfolding consumes_def by fastforce

text \<open>The same with the input first, so that it decides which key is read.\<close>

lemma try_pubkey:
  assumes "unread c = key @ rest" "key_ok key" "\<And>d. unread d = rest \<Longrightarrow> k key d = Inr w"
  shows "idx_try (read_pubkey c) (\<lambda>(x, d). k x d) = Inr w"
  by (rule try_read [OF consumes_pubkey [OF assms(2)] assms(1)]) (rule assms(3))

lemma try_account:
  assumes "idx_instruction_account tx ix p = Some a" "k a = Inr w"
  shows "idx_try (require_account tx ix p) k = Inr w"
  using assms by (simp add: require_account_def)

text \<open>And the converse: what a reader yields is what the input starts with.\<close>

lemma le_bytes_le_value: "le_bytes (length bs) (le_value bs) = bs"
proof (induction bs)
  case (Cons b bs)
  have "(unat b + 256 * le_value bs) div 256 = le_value bs" using unat_byte [of b] by simp
  moreover have "word_of_nat (unat b + 256 * le_value bs) = b"
  proof -
    have "unat (word_of_nat (unat b + 256 * le_value bs) :: byte) = (unat b + 256 * le_value bs) mod 256"
      by (simp only: unsigned_of_nat take_bit_eq_mod) simp
    also have "\<dots> = unat b" using unat_byte [of b] by simp
    finally show ?thesis by (simp only: word_unat_eq_iff)
  qed
  ultimately show ?case using Cons by simp
qed simp

lemma le_bytes_le_word:
  assumes "8 * n = LENGTH('a::len)" "n \<le> length raw"
  shows "le_bytes n (unat (le_word n raw :: 'a word)) = take n raw"
  using unat_le_word [where 'a = 'a, of n raw] le_bytes_le_value [of "take n raw"] assms by simp

lemma u8_Inr: "idx_cursor_u8 c = Inr (v, d) \<Longrightarrow> unread c = v # unread d"
  by (cases "unread c") (auto simp: idx_cursor_u8_eq unread_advance)

lemma take_prefix: "n \<le> length (unread c) \<Longrightarrow> unread c = take n (unread c) @ drop n (unread c)"
  by simp

lemma u32_Inr: "idx_cursor_u32le c = Inr (v, d) \<Longrightarrow> unread c = u32_bytes v @ unread d"
  using le_bytes_le_word [where 'a = 32, of 4 "take 4 (unread c)"]
  by (auto simp: idx_cursor_u32le_eq u32_bytes_def unread_advance split: if_splits)

lemma u64_Inr: "idx_cursor_u64le c = Inr (v, d) \<Longrightarrow> unread c = u64_bytes v @ unread d"
  using le_bytes_le_word [where 'a = 64, of 8 "take 8 (unread c)"]
  by (auto simp: idx_cursor_u64le_eq u64_bytes_def unread_advance split: if_splits)

lemma take_Inr: "idx_cursor_take c n = Inr (v, d) \<Longrightarrow> unread c = v @ unread d \<and> length v = n"
  by (auto simp: idx_cursor_take_eq unread_advance split: if_splits)

lemma pubkey_Inr: "read_pubkey c = Inr (k, d) \<Longrightarrow> unread c = k @ unread d \<and> key_ok k"
  by (auto simp: read_pubkey_def idx_cursor_copy_eq key_ok_def dest: take_Inr)

lemma account_Inr: "require_account tx ix p = Inr a \<longleftrightarrow> idx_instruction_account tx ix p = Some a"
  by (auto simp: require_account_def split: option.splits)

text \<open>The errors a reader can give.\<close>

lemma reader_Inl:
  "idx_cursor_u8 c = Inl e \<Longrightarrow> e = IDX_ERR_RANGE" "idx_cursor_u32le c = Inl e \<Longrightarrow> e = IDX_ERR_RANGE"
  "idx_cursor_u64le c = Inl e \<Longrightarrow> e = IDX_ERR_RANGE" "idx_cursor_take c n = Inl e \<Longrightarrow> e = IDX_ERR_RANGE"
  "read_pubkey c = Inl e \<Longrightarrow> e = IDX_ERR_RANGE" "require_account tx ix p = Inl e \<Longrightarrow> e = IDX_ERR_PARSE"
  by (auto simp: idx_cursor_u8_eq idx_cursor_u32le_eq idx_cursor_u64le_eq idx_cursor_take_eq read_pubkey_def
      idx_cursor_copy_eq require_account_def split: if_splits option.splits)

lemma unread_init: "unread (idx_cursor_init view) = view"
  by (simp add: unread_def idx_cursor_init_def)

text \<open>Each operand with its position is the key of the account the instruction names there.\<close>

definition named_accounts :: "idx_transaction \<Rightarrow> idx_instruction \<Rightarrow> (nat \<times> idx_pubkey) list \<Rightarrow> bool" where
  "named_accounts tx ix named \<longleftrightarrow> (\<forall>(p, k) \<in> set named. idx_instruction_account tx ix p = Some k)"

lemma remaining_eq: "idx_cursor_remaining c = length (unread c)"
  by (simp add: idx_cursor_remaining_def unread_def)

lemma take_remaining:
  "idx_cursor_take c (idx_cursor_remaining c) = Inr (unread c, c\<lparr>c_offset := c_offset c + length (unread c)\<rparr>)"
  by (simp add: remaining_eq idx_cursor_take_eq)

end
