(* ===== verification/Venue.thy ===== *)
theory Venue
  imports InstructionData
begin

text \<open>
  What the trading venues share (\<^verbatim>\<open>src/venue.c\<close> but for its dispatchers, \<^verbatim>\<open>include/venue.h\<close>):
  the venue kinds and their programs, the records a decoder fills, and the envelope an Anchor
  program emits its events in. A field of a record is valid when its \<open>has\<close> flag is set.
\<close>

section \<open>Model\<close>

datatype idx_venue =
    IDX_VENUE_NONE
  | IDX_VENUE_PUMP_CURVE
  | IDX_VENUE_PUMP_AMM
  | IDX_VENUE_RAYDIUM_AMM_V4
  | IDX_VENUE_RAYDIUM_CLMM
  | IDX_VENUE_RAYDIUM_CPMM
  | IDX_VENUE_JUPITER

definition IDX_PROGRAM_PUMP_CURVE :: idx_pubkey where
  "IDX_PROGRAM_PUMP_CURVE = [
     0x01, 0x56, 0xe0, 0xf6, 0x93, 0x66, 0x5a, 0xcf, 0x44, 0xdb, 0x15, 0x68, 0xbf, 0x17,
     0x5b, 0xaa, 0x51, 0x89, 0xcb, 0x97, 0xf5, 0xd2, 0xff, 0x3b, 0x65, 0x5d, 0x2b, 0xb6,
     0xfd, 0x6d, 0x18, 0xb0]"

definition IDX_PROGRAM_PUMP_AMM :: idx_pubkey where
  "IDX_PROGRAM_PUMP_AMM = [
     0x0c, 0x14, 0xde, 0xfc, 0x82, 0x5e, 0xc6, 0x76, 0x94, 0x25, 0x08, 0x18, 0xbb, 0x65,
     0x40, 0x65, 0xf4, 0x29, 0x8d, 0x31, 0x56, 0xd5, 0x71, 0xb4, 0xd4, 0xf8, 0x09, 0x0c,
     0x18, 0xe9, 0xa8, 0x63]"

definition IDX_PROGRAM_RAYDIUM_AMM_V4 :: idx_pubkey where
  "IDX_PROGRAM_RAYDIUM_AMM_V4 = [
     0x4b, 0xd9, 0x49, 0xc4, 0x36, 0x02, 0xc3, 0x3f, 0x20, 0x77, 0x90, 0xed, 0x16, 0xa3,
     0x52, 0x4c, 0xa1, 0xb9, 0x97, 0x5c, 0xf1, 0x21, 0xa2, 0xa9, 0x0c, 0xff, 0xec, 0x7d,
     0xf8, 0xb6, 0x8a, 0xcd]"

definition IDX_PROGRAM_RAYDIUM_CLMM :: idx_pubkey where
  "IDX_PROGRAM_RAYDIUM_CLMM = [
     0xa5, 0xd5, 0xca, 0x9e, 0x04, 0xcf, 0x5d, 0xb5, 0x90, 0xb7, 0x14, 0xba, 0x2f, 0xe3,
     0x2c, 0xb1, 0x59, 0x13, 0x3f, 0xc1, 0xc1, 0x92, 0xb7, 0x22, 0x57, 0xfd, 0x07, 0xd3,
     0x9c, 0xb0, 0x40, 0x1e]"

definition IDX_PROGRAM_RAYDIUM_CPMM :: idx_pubkey where
  "IDX_PROGRAM_RAYDIUM_CPMM = [
     0xa9, 0x2a, 0x5a, 0x8b, 0x4f, 0x29, 0x59, 0x52, 0x84, 0x25, 0x50, 0xaa, 0x93, 0xfd,
     0x5b, 0x95, 0xb5, 0xac, 0xe6, 0xa8, 0xeb, 0x92, 0x0c, 0x93, 0x94, 0x2e, 0x43, 0x69,
     0x0c, 0x20, 0xec, 0x73]"

definition IDX_PROGRAM_JUPITER :: idx_pubkey where
  "IDX_PROGRAM_JUPITER = [
     0x04, 0x79, 0xd5, 0x5b, 0xf2, 0x31, 0xc0, 0x6e, 0xee, 0x74, 0xc5, 0x6e, 0xce, 0x68,
     0x15, 0x07, 0xfd, 0xb1, 0xb2, 0xde, 0xa3, 0xf4, 0x8e, 0x51, 0x02, 0xb1, 0xcd, 0xa2,
     0x56, 0xbc, 0x13, 0x8f]"

definition IDX_MINT_WSOL :: idx_pubkey where
  "IDX_MINT_WSOL = [
     0x06, 0x9b, 0x88, 0x57, 0xfe, 0xab, 0x81, 0x84, 0xfb, 0x68, 0x7f, 0x63, 0x46, 0x18,
     0xc0, 0x35, 0xda, 0xc4, 0x39, 0xdc, 0x1a, 0xeb, 0x3b, 0x55, 0x98, 0xa0, 0xf0, 0x00,
     0x00, 0x00, 0x00, 0x01]"

definition IDX_ANCHOR_EVENT_DISCRIMINATOR :: bytes where
  "IDX_ANCHOR_EVENT_DISCRIMINATOR = [
     0xe4, 0x45, 0xa5, 0x2e, 0x51, 0xcb, 0x9a, 0x1d]"

definition idx_venue_name :: "idx_venue \<Rightarrow> string" where
  "idx_venue_name venue = (case venue of
      IDX_VENUE_NONE \<Rightarrow> ''none''
    | IDX_VENUE_PUMP_CURVE \<Rightarrow> ''pump_curve''
    | IDX_VENUE_PUMP_AMM \<Rightarrow> ''pump_amm''
    | IDX_VENUE_RAYDIUM_AMM_V4 \<Rightarrow> ''raydium_amm_v4''
    | IDX_VENUE_RAYDIUM_CLMM \<Rightarrow> ''raydium_clmm''
    | IDX_VENUE_RAYDIUM_CPMM \<Rightarrow> ''raydium_cpmm''
    | IDX_VENUE_JUPITER \<Rightarrow> ''jupiter'')"

definition VENUES :: "(idx_pubkey \<times> idx_venue) list" where
  "VENUES = [
     (IDX_PROGRAM_PUMP_CURVE, IDX_VENUE_PUMP_CURVE),
     (IDX_PROGRAM_PUMP_AMM, IDX_VENUE_PUMP_AMM),
     (IDX_PROGRAM_RAYDIUM_AMM_V4, IDX_VENUE_RAYDIUM_AMM_V4),
     (IDX_PROGRAM_RAYDIUM_CLMM, IDX_VENUE_RAYDIUM_CLMM),
     (IDX_PROGRAM_RAYDIUM_CPMM, IDX_VENUE_RAYDIUM_CPMM),
     (IDX_PROGRAM_JUPITER, IDX_VENUE_JUPITER)]"

fun idx_venue_of_program :: "idx_pubkey option \<Rightarrow> idx_venue" where
  "idx_venue_of_program None = IDX_VENUE_NONE"
| "idx_venue_of_program (Some program_id) =
     (case find (\<lambda>entry. idx_pubkey_equal program_id (fst entry)) VENUES of
        None \<Rightarrow> IDX_VENUE_NONE
      | Some entry \<Rightarrow> snd entry)"

definition idx_venue_is_pool :: "idx_venue \<Rightarrow> bool" where
  "idx_venue_is_pool venue = (case venue of
      IDX_VENUE_PUMP_CURVE \<Rightarrow> True
    | IDX_VENUE_PUMP_AMM \<Rightarrow> True
    | IDX_VENUE_RAYDIUM_AMM_V4 \<Rightarrow> True
    | IDX_VENUE_RAYDIUM_CLMM \<Rightarrow> True
    | IDX_VENUE_RAYDIUM_CPMM \<Rightarrow> True
    | IDX_VENUE_JUPITER \<Rightarrow> False
    | IDX_VENUE_NONE \<Rightarrow> False)"

record idx_swap =
  sw_venue :: idx_venue
  sw_from_event :: bool
  sw_pool :: idx_pubkey
  sw_has_pool :: bool
  sw_user :: idx_pubkey
  sw_has_user :: bool
  sw_input_mint :: idx_pubkey
  sw_has_input_mint :: bool
  sw_output_mint :: idx_pubkey
  sw_has_output_mint :: bool
  sw_input_account :: idx_pubkey
  sw_has_input_account :: bool
  sw_output_account :: idx_pubkey
  sw_has_output_account :: bool
  sw_input_amount :: u64
  sw_output_amount :: u64
  sw_has_input_amount :: bool
  sw_has_output_amount :: bool
  sw_pool_account_a :: idx_pubkey
  sw_pool_account_b :: idx_pubkey
  sw_has_pool_accounts :: bool

text \<open>The structure after \<^verbatim>\<open>memset\<close>.\<close>

definition zero_swap :: idx_swap where
  "zero_swap = \<lparr>sw_venue = IDX_VENUE_NONE, sw_from_event = False,
     sw_pool = IDX_PUBKEY_DEFAULT, sw_has_pool = False, sw_user = IDX_PUBKEY_DEFAULT, sw_has_user = False,
     sw_input_mint = IDX_PUBKEY_DEFAULT, sw_has_input_mint = False,
     sw_output_mint = IDX_PUBKEY_DEFAULT, sw_has_output_mint = False,
     sw_input_account = IDX_PUBKEY_DEFAULT, sw_has_input_account = False,
     sw_output_account = IDX_PUBKEY_DEFAULT, sw_has_output_account = False,
     sw_input_amount = 0, sw_output_amount = 0, sw_has_input_amount = False, sw_has_output_amount = False,
     sw_pool_account_a = IDX_PUBKEY_DEFAULT, sw_pool_account_b = IDX_PUBKEY_DEFAULT,
     sw_has_pool_accounts = False\<rparr>"

record idx_pool_creation =
  pc_venue :: idx_venue
  pc_pool :: idx_pubkey
  pc_has_pool :: bool
  pc_creator :: idx_pubkey
  pc_has_creator :: bool

record idx_token_metadata =
  md_mint :: idx_pubkey
  md_has_mint :: bool
  md_name :: idx_slice
  md_has_name :: bool
  md_symbol :: idx_slice
  md_has_symbol :: bool
  md_uri :: idx_slice
  md_has_uri :: bool

text \<open>\<open>Some\<close> is the \<^verbatim>\<open>true\<close> answer with the slice it sets.\<close>

definition idx_anchor_event_payload :: "idx_slice \<Rightarrow> idx_slice option" where
  "idx_anchor_event_payload view =
     (if length view < length IDX_ANCHOR_EVENT_DISCRIMINATOR then None
      else if take (length IDX_ANCHOR_EVENT_DISCRIMINATOR) view \<noteq> IDX_ANCHOR_EVENT_DISCRIMINATOR then None
      else Some (idx_slice_sub view (length IDX_ANCHOR_EVENT_DISCRIMINATOR)
             (length view - length IDX_ANCHOR_EVENT_DISCRIMINATOR)))"

definition idx_anchor_event_is :: "idx_slice \<Rightarrow> bytes \<Rightarrow> idx_slice option" where
  "idx_anchor_event_is payload discriminator =
     (if length payload < 8 then None
      else if take 8 payload \<noteq> take 8 discriminator then None
      else Some (idx_slice_sub payload 8 (length payload - 8)))"

section \<open>Facts\<close>

lemma venue_program_ok [simp]:
  "key_ok IDX_PROGRAM_PUMP_CURVE" "key_ok IDX_PROGRAM_PUMP_AMM" "key_ok IDX_PROGRAM_RAYDIUM_AMM_V4"
  "key_ok IDX_PROGRAM_RAYDIUM_CLMM" "key_ok IDX_PROGRAM_RAYDIUM_CPMM" "key_ok IDX_PROGRAM_JUPITER"
  "key_ok IDX_MINT_WSOL"
  by (simp_all add: key_ok_def IDX_PUBKEY_LEN_def IDX_PROGRAM_PUMP_CURVE_def IDX_PROGRAM_PUMP_AMM_def
      IDX_PROGRAM_RAYDIUM_AMM_V4_def IDX_PROGRAM_RAYDIUM_CLMM_def IDX_PROGRAM_RAYDIUM_CPMM_def
      IDX_PROGRAM_JUPITER_def IDX_MINT_WSOL_def)

lemma slice_sub_rest: "idx_slice_sub view n (length view - n) = drop n view"
  by (auto simp: idx_slice_sub_def Let_def)

lemma event_payload_iff:
  "idx_anchor_event_payload view = Some p \<longleftrightarrow> view = IDX_ANCHOR_EVENT_DISCRIMINATOR @ p"
proof -
  let ?n = "length IDX_ANCHOR_EVENT_DISCRIMINATOR"
  have "idx_anchor_event_payload view = Some p \<longleftrightarrow> take ?n view = IDX_ANCHOR_EVENT_DISCRIMINATOR \<and> p = drop ?n view"
    using length_take [of ?n view] by (auto simp: idx_anchor_event_payload_def slice_sub_rest)
  also have "\<dots> \<longleftrightarrow> view = IDX_ANCHOR_EVENT_DISCRIMINATOR @ p"
    by (metis append_take_drop_id append_eq_conv_conj)
  finally show ?thesis .
qed

lemma event_is_iff:
  assumes "length disc = 8"
  shows "idx_anchor_event_is payload disc = Some rest \<longleftrightarrow> payload = disc @ rest"
proof -
  have "idx_anchor_event_is payload disc = Some rest \<longleftrightarrow> take 8 payload = disc \<and> rest = drop 8 payload"
    using length_take [of 8 payload] assms by (auto simp: idx_anchor_event_is_def slice_sub_rest)
  also have "\<dots> \<longleftrightarrow> payload = disc @ rest" using assms by (metis append_take_drop_id append_eq_conv_conj)
  finally show ?thesis .
qed

end
