(* ===== verification/VenuePump.thy ===== *)
theory VenuePump
  imports Venue
begin

text \<open>
  The pump.fun curve and PumpSwap (\<^verbatim>\<open>src/venue_pump.c\<close>, \<^verbatim>\<open>include/venue_pump.h\<close>): trades are
  read from the events the programs emit, the structural accounts of a PumpSwap trade from its
  instruction, and a creation or a token's metadata from the creation event.
\<close>

section \<open>Model\<close>

definition TRADE_EVENT :: bytes where
  "TRADE_EVENT = [0xbd, 0xdb, 0x7f, 0xd3, 0x4e, 0xe6, 0x61, 0xee]"

definition BUY_EVENT :: bytes where
  "BUY_EVENT = [0x67, 0xf4, 0x52, 0x1f, 0x2c, 0xf5, 0x77, 0x77]"

definition SELL_EVENT :: bytes where
  "SELL_EVENT = [0x3e, 0x2f, 0x37, 0x0a, 0xa5, 0x03, 0xdc, 0x2a]"

definition CREATE_EVENT :: bytes where
  "CREATE_EVENT = [0x1b, 0x72, 0xa9, 0x4d, 0xde, 0xeb, 0x63, 0x76]"

definition decode_trade_event :: "idx_slice \<Rightarrow> idx_swap \<Rightarrow> idx_swap result" where
  "decode_trade_event view out = (let cursor = idx_cursor_init view in
     idx_try (idx_cursor_copy cursor IDX_PUBKEY_LEN) (\<lambda>(token, cursor).
     idx_try (idx_cursor_u64le cursor) (\<lambda>(sol_amount, cursor).
     idx_try (idx_cursor_u64le cursor) (\<lambda>(token_amount, cursor).
     idx_try (idx_cursor_u8 cursor) (\<lambda>(is_buy, cursor).
     idx_try (idx_cursor_copy cursor IDX_PUBKEY_LEN) (\<lambda>(user, cursor).
     let out = out\<lparr>sw_user := user, sw_has_user := True\<rparr>;
         out = (if is_buy \<noteq> 0
           then out\<lparr>sw_input_mint := IDX_MINT_WSOL, sw_input_amount := sol_amount,
                    sw_output_mint := token, sw_output_amount := token_amount\<rparr>
           else out\<lparr>sw_input_mint := token, sw_input_amount := token_amount,
                    sw_output_mint := IDX_MINT_WSOL, sw_output_amount := sol_amount\<rparr>)
     in Inr (out\<lparr>sw_has_input_mint := True, sw_has_output_mint := True,
                 sw_has_input_amount := True, sw_has_output_amount := True\<rparr>)))))))"

definition PUMP_AMM_BASE_AMOUNT_OFFSET :: nat where "PUMP_AMM_BASE_AMOUNT_OFFSET = 8"
definition PUMP_AMM_USER_QUOTE_AMOUNT_OFFSET :: nat where "PUMP_AMM_USER_QUOTE_AMOUNT_OFFSET = 104"
definition PUMP_AMM_POOL_OFFSET :: nat where "PUMP_AMM_POOL_OFFSET = 112"
definition PUMP_AMM_USER_OFFSET :: nat where "PUMP_AMM_USER_OFFSET = 144"
definition PUMP_AMM_USER_BASE_ACCOUNT_OFFSET :: nat where "PUMP_AMM_USER_BASE_ACCOUNT_OFFSET = 176"
definition PUMP_AMM_USER_QUOTE_ACCOUNT_OFFSET :: nat where "PUMP_AMM_USER_QUOTE_ACCOUNT_OFFSET = 208"
definition PUMP_AMM_EVENT_PREFIX_LEN :: nat where "PUMP_AMM_EVENT_PREFIX_LEN = 240"

definition decode_amm_event :: "idx_slice \<Rightarrow> bool \<Rightarrow> idx_swap \<Rightarrow> idx_swap result" where
  "decode_amm_event view is_buy out =
     (if length view < PUMP_AMM_EVENT_PREFIX_LEN then Inl IDX_ERR_RANGE
      else
        idx_try (idx_cursor_u64le (idx_cursor_init (idx_slice_sub view PUMP_AMM_BASE_AMOUNT_OFFSET 8))) (\<lambda>(base_amount, _).
        idx_try (idx_cursor_u64le (idx_cursor_init (idx_slice_sub view PUMP_AMM_USER_QUOTE_AMOUNT_OFFSET 8))) (\<lambda>(quote_amount, _).
        let key_at = (\<lambda>offset. take IDX_PUBKEY_LEN (drop offset view));
            out = out\<lparr>sw_pool := key_at PUMP_AMM_POOL_OFFSET, sw_has_pool := True,
                      sw_user := key_at PUMP_AMM_USER_OFFSET, sw_has_user := True\<rparr>;
            base_account = key_at PUMP_AMM_USER_BASE_ACCOUNT_OFFSET;
            quote_account = key_at PUMP_AMM_USER_QUOTE_ACCOUNT_OFFSET;
            out = (if is_buy
              then out\<lparr>sw_input_account := quote_account, sw_input_amount := quote_amount,
                       sw_output_account := base_account, sw_output_amount := base_amount\<rparr>
              else out\<lparr>sw_input_account := base_account, sw_input_amount := base_amount,
                       sw_output_account := quote_account, sw_output_amount := quote_amount\<rparr>)
        in Inr (out\<lparr>sw_has_input_account := True, sw_has_output_account := True,
                    sw_has_input_amount := True, sw_has_output_amount := True\<rparr>))))"

definition AMM_BUY :: bytes where
  "AMM_BUY = [0x66, 0x06, 0x3d, 0x12, 0x01, 0xda, 0xeb, 0xea]"

definition AMM_SELL :: bytes where
  "AMM_SELL = [0x33, 0xe6, 0x85, 0xa4, 0x01, 0x7f, 0x83, 0xad]"

definition AMM_BUY_EXACT_QUOTE_IN :: bytes where
  "AMM_BUY_EXACT_QUOTE_IN = [0xc6, 0x2e, 0x15, 0x52, 0xb4, 0xd9, 0xe8, 0x70]"

definition AMM_IX_POOL :: nat where "AMM_IX_POOL = 0"
definition AMM_IX_BASE_MINT :: nat where "AMM_IX_BASE_MINT = 3"
definition AMM_IX_QUOTE_MINT :: nat where "AMM_IX_QUOTE_MINT = 4"
definition AMM_IX_USER_BASE_ACCOUNT :: nat where "AMM_IX_USER_BASE_ACCOUNT = 5"
definition AMM_IX_POOL_BASE_VAULT :: nat where "AMM_IX_POOL_BASE_VAULT = 7"
definition AMM_IX_POOL_QUOTE_VAULT :: nat where "AMM_IX_POOL_QUOTE_VAULT = 8"
definition AMM_IX_MIN_ACCOUNTS :: nat where "AMM_IX_MIN_ACCOUNTS = 9"

record idx_pump_amm_accounts =
  am_pool :: idx_pubkey
  am_base_mint :: idx_pubkey
  am_quote_mint :: idx_pubkey
  am_user_base_account :: idx_pubkey
  am_pool_base_vault :: idx_pubkey
  am_pool_quote_vault :: idx_pubkey

text \<open>\<open>Some\<close> is the \<^verbatim>\<open>true\<close> answer with the accounts; positions below the count are present.\<close>

definition idx_venue_pump_amm_accounts ::
    "idx_transaction \<Rightarrow> idx_instruction \<Rightarrow> idx_pump_amm_accounts option" where
  "idx_venue_pump_amm_accounts tx ix =
     (if length (ix_data ix) < 8 then None
      else if take 8 (ix_data ix) \<noteq> AMM_BUY \<and> take 8 (ix_data ix) \<noteq> AMM_SELL \<and>
        take 8 (ix_data ix) \<noteq> AMM_BUY_EXACT_QUOTE_IN then None
      else if length (account_indices ix) < AMM_IX_MIN_ACCOUNTS then None
      else let account = (\<lambda>position. the (idx_instruction_account tx ix position)) in
        Some \<lparr>am_pool = account AMM_IX_POOL, am_base_mint = account AMM_IX_BASE_MINT,
              am_quote_mint = account AMM_IX_QUOTE_MINT,
              am_user_base_account = account AMM_IX_USER_BASE_ACCOUNT,
              am_pool_base_vault = account AMM_IX_POOL_BASE_VAULT,
              am_pool_quote_vault = account AMM_IX_POOL_QUOTE_VAULT\<rparr>)"

definition read_borsh_string :: "idx_cursor \<Rightarrow> (idx_slice \<times> idx_cursor) result" where
  "read_borsh_string cursor = idx_try (idx_cursor_u32le cursor) (\<lambda>(len, cursor).
     idx_cursor_take cursor (unat len))"

record pump_create_event =
  ce_name :: idx_slice
  ce_symbol :: idx_slice
  ce_uri :: idx_slice
  ce_mint :: idx_pubkey
  ce_bonding_curve :: idx_pubkey
  ce_user :: idx_pubkey

definition parse_create_event :: "idx_slice \<Rightarrow> pump_create_event result" where
  "parse_create_event view = (case idx_anchor_event_payload view of
      None \<Rightarrow> Inl IDX_ERR_NOT_FOUND
    | Some payload \<Rightarrow> (case idx_anchor_event_is payload CREATE_EVENT of
        None \<Rightarrow> Inl IDX_ERR_NOT_FOUND
      | Some body \<Rightarrow>
          idx_try (read_borsh_string (idx_cursor_init body)) (\<lambda>(nam, cursor).
          idx_try (read_borsh_string cursor) (\<lambda>(sym, cursor).
          idx_try (read_borsh_string cursor) (\<lambda>(uri, cursor).
          idx_try (idx_cursor_copy cursor IDX_PUBKEY_LEN) (\<lambda>(token, cursor).
          idx_try (idx_cursor_copy cursor IDX_PUBKEY_LEN) (\<lambda>(curve, cursor).
          idx_try (idx_cursor_copy cursor IDX_PUBKEY_LEN) (\<lambda>(user, cursor).
          Inr \<lparr>ce_name = nam, ce_symbol = sym, ce_uri = uri, ce_mint = token, ce_bonding_curve = curve,
               ce_user = user\<rparr>))))))))"

fun idx_venue_pump_creation ::
    "idx_transaction option \<Rightarrow> idx_instruction option \<Rightarrow> idx_pool_creation result" where
  "idx_venue_pump_creation (Some tx) (Some ix) = idx_try (parse_create_event (ix_data ix)) (\<lambda>event.
     Inr \<lparr>pc_venue = IDX_VENUE_PUMP_CURVE, pc_pool = ce_mint event, pc_has_pool = True,
          pc_creator = ce_user event, pc_has_creator = True\<rparr>)"
| "idx_venue_pump_creation _ _ = Inl IDX_ERR_INVALID_ARG"

fun idx_venue_pump_metadata ::
    "idx_transaction option \<Rightarrow> idx_instruction option \<Rightarrow> idx_token_metadata result" where
  "idx_venue_pump_metadata (Some tx) (Some ix) = idx_try (parse_create_event (ix_data ix)) (\<lambda>event.
     Inr \<lparr>md_mint = ce_mint event, md_has_mint = True,
          md_name = ce_name event, md_has_name = (\<not> idx_slice_is_empty (ce_name event)),
          md_symbol = ce_symbol event, md_has_symbol = (\<not> idx_slice_is_empty (ce_symbol event)),
          md_uri = ce_uri event, md_has_uri = (\<not> idx_slice_is_empty (ce_uri event))\<rparr>)"
| "idx_venue_pump_metadata _ _ = Inl IDX_ERR_INVALID_ARG"

fun idx_venue_pump_decode ::
    "idx_transaction option \<Rightarrow> idx_instruction option \<Rightarrow> idx_venue \<Rightarrow> idx_swap result" where
  "idx_venue_pump_decode (Some tx) (Some ix) venue =
     (let out = zero_swap\<lparr>sw_venue := venue, sw_from_event := True\<rparr> in
      case idx_anchor_event_payload (ix_data ix) of
        None \<Rightarrow> Inl IDX_ERR_NOT_FOUND
      | Some payload \<Rightarrow>
          if venue = IDX_VENUE_PUMP_CURVE then
            (case idx_anchor_event_is payload TRADE_EVENT of
               None \<Rightarrow> Inl IDX_ERR_NOT_FOUND
             | Some body \<Rightarrow> decode_trade_event body out)
          else (case idx_anchor_event_is payload BUY_EVENT of
              Some body \<Rightarrow> decode_amm_event body True out
            | None \<Rightarrow> (case idx_anchor_event_is payload SELL_EVENT of
                Some body \<Rightarrow> decode_amm_event body False out
              | None \<Rightarrow> Inl IDX_ERR_NOT_FOUND)))"
| "idx_venue_pump_decode _ _ _ = Inl IDX_ERR_INVALID_ARG"

section \<open>Wire form\<close>

text \<open>
  The trade events as the programs emit them, after the marker of every event: a curve trade is
  its fields one after the other; a PumpSwap trade has a timestamp before the base amount and
  88 bytes of reserves and limits between the two amounts.
\<close>

datatype pump_trade =
    is_Curve_trade: Curve_trade (token: idx_pubkey) (sol: u64) (token_units: u64) (flag: byte) (trader: idx_pubkey)
  | Amm_trade (buys: bool) (stamp: bytes) (base_units: u64) (middle: bytes) (quote_units: u64)
      (trade_pool: idx_pubkey) (trader: idx_pubkey) (base_account: idx_pubkey) (quote_account: idx_pubkey)

fun event_bytes :: "pump_trade \<Rightarrow> bytes" where
  "event_bytes (Curve_trade tok s u f who) = TRADE_EVENT @ tok @ u64_bytes s @ u64_bytes u @ [f] @ who"
| "event_bytes (Amm_trade buy st b mid q pl who ba qa) =
     (if buy then BUY_EVENT else SELL_EVENT) @ st @ u64_bytes b @ mid @ u64_bytes q @ pl @ who @ ba @ qa"

fun trade_ok :: "pump_trade \<Rightarrow> bool" where
  "trade_ok (Curve_trade tok s u f who) \<longleftrightarrow> key_ok tok \<and> key_ok who"
| "trade_ok (Amm_trade buy st b mid q pl who ba qa) \<longleftrightarrow>
     length st = 8 \<and> length mid = 88 \<and> key_ok pl \<and> key_ok who \<and> key_ok ba \<and> key_ok qa"

text \<open>The swap a trade states: what the trader gave is the input, what reached them the output.\<close>

fun trade_swap :: "idx_venue \<Rightarrow> pump_trade \<Rightarrow> idx_swap" where
  "trade_swap venue (Curve_trade tok s u f who) =
     zero_swap\<lparr>sw_venue := venue, sw_from_event := True, sw_user := who, sw_has_user := True,
       sw_input_mint := (if f \<noteq> 0 then IDX_MINT_WSOL else tok), sw_has_input_mint := True,
       sw_output_mint := (if f \<noteq> 0 then tok else IDX_MINT_WSOL), sw_has_output_mint := True,
       sw_input_amount := (if f \<noteq> 0 then s else u), sw_output_amount := (if f \<noteq> 0 then u else s),
       sw_has_input_amount := True, sw_has_output_amount := True\<rparr>"
| "trade_swap venue (Amm_trade buy st b mid q pl who ba qa) =
     zero_swap\<lparr>sw_venue := venue, sw_from_event := True, sw_pool := pl, sw_has_pool := True,
       sw_user := who, sw_has_user := True,
       sw_input_account := (if buy then qa else ba), sw_has_input_account := True,
       sw_output_account := (if buy then ba else qa), sw_has_output_account := True,
       sw_input_amount := (if buy then q else b), sw_output_amount := (if buy then b else q),
       sw_has_input_amount := True, sw_has_output_amount := True\<rparr>"

lemma event_lengths: "length TRADE_EVENT = 8" "length BUY_EVENT = 8" "length SELL_EVENT = 8" "length CREATE_EVENT = 8"
  by (simp_all add: TRADE_EVENT_def BUY_EVENT_def SELL_EVENT_def CREATE_EVENT_def)

lemma buy_not_sell: "BUY_EVENT @ xs \<noteq> SELL_EVENT @ ys"
  by (simp add: BUY_EVENT_def SELL_EVENT_def)

lemmas event_reads = consumes_u64 consumes_u8

lemma trade_event_Inr:
  "decode_trade_event view (zero_swap\<lparr>sw_venue := venue, sw_from_event := True\<rparr>) = Inr sw \<longleftrightarrow>
     (\<exists>tok s u f who rest. key_ok tok \<and> key_ok who \<and> view = tok @ u64_bytes s @ u64_bytes u @ [f] @ who @ rest \<and>
        sw = trade_swap venue (Curve_trade tok s u f who))"
  (is "?l \<longleftrightarrow> ?r")
proof
  assume ?l
  then obtain tok c s d u e f g who h where
    reads: "read_pubkey (idx_cursor_init view) = Inr (tok, c)" "idx_cursor_u64le c = Inr (s, d)"
      "idx_cursor_u64le d = Inr (u, e)" "idx_cursor_u8 e = Inr (f, g)" "read_pubkey g = Inr (who, h)"
    and sw: "sw = trade_swap venue (Curve_trade tok s u f who)"
    unfolding decode_trade_event_def Let_def read_pubkey_def [symmetric]
    by (auto simp only: idx_try_Inr_iff prod.case split_paired_Ex trade_swap.simps) (simp add: zero_swap_def split: if_splits)
  have "view = tok @ u64_bytes s @ u64_bytes u @ [f] @ who @ unread h" "key_ok tok" "key_ok who"
    using pubkey_Inr [OF reads(1)] u64_Inr [OF reads(2)] u64_Inr [OF reads(3)] u8_Inr [OF reads(4)]
      pubkey_Inr [OF reads(5)] by (simp_all add: unread_init)
  then show ?r using sw by blast
next
  assume ?r
  then obtain tok s u f who rest where ok: "key_ok tok" "key_ok who"
    and view: "unread (idx_cursor_init view) = tok @ u64_bytes s @ u64_bytes u @ [f] @ who @ rest"
    and sw: "sw = trade_swap venue (Curve_trade tok s u f who)" by (auto simp: unread_init)
  show ?l unfolding decode_trade_event_def Let_def read_pubkey_def [symmetric] sw
    by (rule try_pubkey [OF view ok(1)], rule try_read [OF consumes_u64], assumption,
        rule try_read [OF consumes_u64], assumption, rule try_read [OF consumes_u8], assumption,
        rule try_pubkey [OF _ ok(2)], assumption) (simp add: zero_swap_def)
qed

lemmas amm_offsets = PUMP_AMM_BASE_AMOUNT_OFFSET_def PUMP_AMM_USER_QUOTE_AMOUNT_OFFSET_def PUMP_AMM_POOL_OFFSET_def
  PUMP_AMM_USER_OFFSET_def PUMP_AMM_USER_BASE_ACCOUNT_OFFSET_def PUMP_AMM_USER_QUOTE_ACCOUNT_OFFSET_def
  PUMP_AMM_EVENT_PREFIX_LEN_def

text \<open>The trade a long enough event body states, each field cut out at its offset.\<close>

definition amm_trade_at :: "bool \<Rightarrow> bytes \<Rightarrow> pump_trade" where
  "amm_trade_at buy view = Amm_trade buy (take 8 view) (le_word 8 (take 8 (drop 8 view))) (take 88 (drop 16 view))
     (le_word 8 (take 8 (drop 104 view))) (take 32 (drop 112 view)) (take 32 (drop 144 view))
     (take 32 (drop 176 view)) (take 32 (drop 208 view))"

lemma amm_event_eq:
  "decode_amm_event view buy (zero_swap\<lparr>sw_venue := venue, sw_from_event := True\<rparr>) =
     (if length view < 240 then Inl IDX_ERR_RANGE else Inr (trade_swap venue (amm_trade_at buy view)))"
  by (simp add: decode_amm_event_def amm_offsets idx_slice_sub_eq idx_cursor_u64le_eq unread_init IDX_PUBKEY_LEN_def
      amm_trade_at_def Let_def zero_swap_def)

lemma drop_split: "drop n xs = take k (drop n xs) @ drop (n + k) xs"
  by (metis append_take_drop_id drop_drop add.commute)

lemma u64_bytes_le_word: "8 \<le> length bs \<Longrightarrow> u64_bytes (le_word 8 (take 8 bs)) = take 8 bs"
  using le_bytes_le_word [where 'a = 64, of 8 "take 8 bs"] by (simp add: u64_bytes_def)

lemma le_word_u64_bytes: "le_word 8 (u64_bytes w) = w"
  using le_word_le_bytes [of 8 w] by (simp add: u64_bytes_def)

lemma amm_trade_at_parts:
  assumes "240 \<le> length view"
  shows "trade_ok (amm_trade_at buy view) \<and>
     (if buy then BUY_EVENT else SELL_EVENT) @ view = event_bytes (amm_trade_at buy view) @ drop 240 view"
proof
  show "trade_ok (amm_trade_at buy view)"
    using assms by (simp add: amm_trade_at_def key_ok_def IDX_PUBKEY_LEN_def)
  have "view = take 8 view @ take 8 (drop 8 view) @ take 88 (drop 16 view) @ take 8 (drop 104 view) @
      take 32 (drop 112 view) @ take 32 (drop 144 view) @ take 32 (drop 176 view) @ take 32 (drop 208 view) @ drop 240 view"
    using drop_split [of 0 view 8] drop_split [of 8 view 8] drop_split [of 16 view 88] drop_split [of 104 view 8]
      drop_split [of 112 view 32] drop_split [of 144 view 32] drop_split [of 176 view 32] drop_split [of 208 view 32]
    by simp
  then show "(if buy then BUY_EVENT else SELL_EVENT) @ view = event_bytes (amm_trade_at buy view) @ drop 240 view"
    using assms by (simp add: amm_trade_at_def u64_bytes_le_word)
qed

lemma amm_trade_at_wire:
  assumes "trade_ok (Amm_trade buy st b mid q pl who ba qa)"
    and "view = st @ u64_bytes b @ mid @ u64_bytes q @ pl @ who @ ba @ qa @ rest"
  shows "240 \<le> length view \<and> amm_trade_at buy view = Amm_trade buy st b mid q pl who ba qa"
  using assms by (simp add: amm_trade_at_def key_ok_def IDX_PUBKEY_LEN_def le_word_u64_bytes)

lemma amm_event_Inr:
  "decode_amm_event view buy (zero_swap\<lparr>sw_venue := venue, sw_from_event := True\<rparr>) = Inr sw \<longleftrightarrow>
     (\<exists>trade rest. trade_ok trade \<and> \<not> is_Curve_trade trade \<and> buys trade = buy \<and>
        (if buy then BUY_EVENT else SELL_EVENT) @ view = event_bytes trade @ rest \<and> sw = trade_swap venue trade)"
proof
  assume "decode_amm_event view buy (zero_swap\<lparr>sw_venue := venue, sw_from_event := True\<rparr>) = Inr sw"
  then have "240 \<le> length view" "sw = trade_swap venue (amm_trade_at buy view)"
    by (simp_all add: amm_event_eq not_less split: if_splits)
  then show "\<exists>trade rest. trade_ok trade \<and> \<not> is_Curve_trade trade \<and> buys trade = buy \<and>
        (if buy then BUY_EVENT else SELL_EVENT) @ view = event_bytes trade @ rest \<and> sw = trade_swap venue trade"
    using amm_trade_at_parts [of view buy] by (intro exI [of _ "amm_trade_at buy view"]) (auto simp: amm_trade_at_def)
next
  assume "\<exists>trade rest. trade_ok trade \<and> \<not> is_Curve_trade trade \<and> buys trade = buy \<and>
        (if buy then BUY_EVENT else SELL_EVENT) @ view = event_bytes trade @ rest \<and> sw = trade_swap venue trade"
  then obtain trade rest where t: "trade_ok trade" "\<not> is_Curve_trade trade" "buys trade = buy"
    "(if buy then BUY_EVENT else SELL_EVENT) @ view = event_bytes trade @ rest" "sw = trade_swap venue trade" by blast
  then obtain st b mid q pl who ba qa where trade: "trade = Amm_trade buy st b mid q pl who ba qa" by (cases trade) auto
  then have view: "view = st @ u64_bytes b @ mid @ u64_bytes q @ pl @ who @ ba @ qa @ rest" using t(4) by simp
  have "240 \<le> length view \<and> amm_trade_at buy view = trade"
    using amm_trade_at_wire [OF t(1) [unfolded trade] view] trade by simp
  then show "decode_amm_event view buy (zero_swap\<lparr>sw_venue := venue, sw_from_event := True\<rparr>) = Inr sw"
    using t(5) by (simp add: amm_event_eq)
qed

lemma curve_event_Inr:
  "decode_trade_event view (zero_swap\<lparr>sw_venue := venue, sw_from_event := True\<rparr>) = Inr sw \<longleftrightarrow>
     (\<exists>trade rest. trade_ok trade \<and> is_Curve_trade trade \<and> TRADE_EVENT @ view = event_bytes trade @ rest \<and>
        sw = trade_swap venue trade)" (is "?l \<longleftrightarrow> ?r")
proof
  assume ?l
  then obtain tok s u f who rest where "trade_ok (Curve_trade tok s u f who)"
    "TRADE_EVENT @ view = event_bytes (Curve_trade tok s u f who) @ rest" "sw = trade_swap venue (Curve_trade tok s u f who)"
    unfolding trade_event_Inr by auto
  then show ?r by (metis pump_trade.disc(1))
next
  assume ?r
  then obtain trade rest where t: "trade_ok trade" "is_Curve_trade trade" "TRADE_EVENT @ view = event_bytes trade @ rest"
    "sw = trade_swap venue trade" by blast
  then obtain tok s u f who where trade: "trade = Curve_trade tok s u f who" by (cases trade) auto
  then have "key_ok tok" "key_ok who" "view = tok @ u64_bytes s @ u64_bytes u @ [f] @ who @ rest" using t by simp_all
  then show ?l unfolding trade_event_Inr using t(4) trade by blast
qed

lemma event_is_None: "length disc = 8 \<Longrightarrow> idx_anchor_event_is payload disc = None \<longleftrightarrow> (\<nexists>rest. payload = disc @ rest)"
  using event_is_iff [of disc payload] by (cases "idx_anchor_event_is payload disc") auto

lemma amm_body:
  "\<not> is_Curve_trade trade \<Longrightarrow>
     \<exists>body. event_bytes trade @ rest = (if buys trade then BUY_EVENT else SELL_EVENT) @ body"
  "is_Curve_trade trade \<Longrightarrow> \<exists>body. event_bytes trade @ rest = TRADE_EVENT @ body"
  by (cases trade; auto)+

lemma pump_curve_decode:
  assumes "idx_anchor_event_payload (ix_data ix) = Some p"
  shows "idx_venue_pump_decode (Some tx) (Some ix) IDX_VENUE_PUMP_CURVE = Inr sw \<longleftrightarrow>
     (\<exists>view. p = TRADE_EVENT @ view \<and>
        decode_trade_event view (zero_swap\<lparr>sw_venue := IDX_VENUE_PUMP_CURVE, sw_from_event := True\<rparr>) = Inr sw)"
proof (cases "idx_anchor_event_is p TRADE_EVENT")
  case None
  then have "\<nexists>v. p = TRADE_EVENT @ v" by (simp add: event_is_None event_lengths)
  then show ?thesis using None assms by (simp add: Let_def)
next
  case (Some b)
  then have "p = TRADE_EVENT @ b" by (simp add: event_is_iff event_lengths)
  then show ?thesis using Some assms by (simp add: Let_def)
qed

lemma pump_amm_decode:
  assumes "idx_anchor_event_payload (ix_data ix) = Some p" "venue \<noteq> IDX_VENUE_PUMP_CURVE"
  shows "idx_venue_pump_decode (Some tx) (Some ix) venue = Inr sw \<longleftrightarrow>
     (\<exists>view buy. p = (if buy then BUY_EVENT else SELL_EVENT) @ view \<and>
        decode_amm_event view buy (zero_swap\<lparr>sw_venue := venue, sw_from_event := True\<rparr>) = Inr sw)"
proof -
  consider (buy) b where "idx_anchor_event_is p BUY_EVENT = Some b"
    | (sell) b where "idx_anchor_event_is p BUY_EVENT = None" "idx_anchor_event_is p SELL_EVENT = Some b"
    | (none) "idx_anchor_event_is p BUY_EVENT = None" "idx_anchor_event_is p SELL_EVENT = None"
    by (cases "idx_anchor_event_is p BUY_EVENT"; cases "idx_anchor_event_is p SELL_EVENT") auto
  then show ?thesis
  proof cases
    case buy
    then have "p = BUY_EVENT @ b" by (simp add: event_is_iff event_lengths)
    then show ?thesis using buy assms buy_not_sell by (simp add: ex_bool_eq Let_def)
  next
    case sell
    then have "p = SELL_EVENT @ b" by (simp add: event_is_iff event_lengths)
    then show ?thesis using sell assms buy_not_sell [symmetric] by (simp add: ex_bool_eq Let_def)
  next
    case none
    then have "\<nexists>v. p = BUY_EVENT @ v" "\<nexists>v. p = SELL_EVENT @ v" by (simp_all add: event_is_None event_lengths)
    then show ?thesis using none assms by (simp add: Let_def ex_bool_eq)
  qed
qed

lemma pump_decode_payload:
  assumes "idx_anchor_event_payload (ix_data ix) = Some p"
  shows "idx_venue_pump_decode (Some tx) (Some ix) venue = Inr sw \<longleftrightarrow>
     (\<exists>trade rest. trade_ok trade \<and> (venue = IDX_VENUE_PUMP_CURVE \<longleftrightarrow> is_Curve_trade trade) \<and>
        p = event_bytes trade @ rest \<and> sw = trade_swap venue trade)"
proof (cases "venue = IDX_VENUE_PUMP_CURVE")
  case True
  show ?thesis unfolding True pump_curve_decode [OF assms] curve_event_Inr
    using amm_body(2) by (intro iffI; elim exE conjE; metis)
next
  case False
  show ?thesis unfolding pump_amm_decode [OF assms False] amm_event_Inr
    using False amm_body(1) by (intro iffI; elim exE conjE; metis)
qed

section \<open>Properties\<close>

text \<open>
  C27: Pump trades are read exactly from their events. Decoding yields a swap exactly when the
  data start with the event marker and a trade event of the venue, and then the swap is the
  one that event states (the side the trader gave is the input, and the curve's side is
  wrapped SOL); everything after the fields read is ignored.
\<close>

theorem pump_decode_iff:
  "idx_venue_pump_decode (Some tx) (Some ix) venue = Inr sw \<longleftrightarrow>
     (\<exists>trade rest. trade_ok trade \<and> (venue = IDX_VENUE_PUMP_CURVE \<longleftrightarrow> is_Curve_trade trade) \<and>
        ix_data ix = IDX_ANCHOR_EVENT_DISCRIMINATOR @ event_bytes trade @ rest \<and> sw = trade_swap venue trade)"
proof (cases "idx_anchor_event_payload (ix_data ix)")
  case None
  then have "\<nexists>p. ix_data ix = IDX_ANCHOR_EVENT_DISCRIMINATOR @ p"
    using event_payload_iff [of "ix_data ix"] by auto
  then show ?thesis using None by (simp add: Let_def)
next
  case (Some p)
  then have "ix_data ix = IDX_ANCHOR_EVENT_DISCRIMINATOR @ p" by (simp add: event_payload_iff)
  then show ?thesis unfolding pump_decode_payload [OF Some] by simp
qed

end
