(* ===== verification/VenueRaydium.thy ===== *)
theory VenueRaydium
  imports Venue
begin

text \<open>
  Raydium (\<^verbatim>\<open>src/venue_raydium.c\<close>, \<^verbatim>\<open>include/venue_raydium.h\<close>): the AMM v4 and CLMM swap
  instructions, which name their accounts by position and fix one amount, and the log line of
  a v4 swap, which states both. A resolved operand is the key it points to.
\<close>

section \<open>Model\<close>

definition RAYDIUM_AMM_IX_SWAP_BASE_IN :: byte where "RAYDIUM_AMM_IX_SWAP_BASE_IN = 9"
definition RAYDIUM_AMM_IX_SWAP_BASE_OUT :: byte where "RAYDIUM_AMM_IX_SWAP_BASE_OUT = 11"
definition RAYDIUM_LOG_SWAP_BASE_IN :: byte where "RAYDIUM_LOG_SWAP_BASE_IN = 3"
definition RAYDIUM_LOG_SWAP_BASE_OUT :: byte where "RAYDIUM_LOG_SWAP_BASE_OUT = 4"

record idx_raydium_swap_log =
  rl_amount_in :: u64
  rl_amount_out :: u64
  rl_is_base_in :: bool

text \<open>The loop that reads the fields of the log.\<close>

fun read_log_fields :: "nat \<Rightarrow> idx_cursor \<Rightarrow> u64 list result" where
  "read_log_fields 0 cursor = Inr []"
| "read_log_fields (Suc n) cursor = idx_try (idx_cursor_u64le cursor) (\<lambda>(w, cursor).
     idx_try (read_log_fields n cursor) (\<lambda>ws. Inr (w # ws)))"

definition idx_raydium_swap_log_parse :: "idx_slice \<Rightarrow> idx_raydium_swap_log result" where
  "idx_raydium_swap_log_parse raw = idx_try (idx_cursor_u8 (idx_cursor_init raw)) (\<lambda>(log_type, cursor).
     if log_type \<noteq> RAYDIUM_LOG_SWAP_BASE_IN \<and> log_type \<noteq> RAYDIUM_LOG_SWAP_BASE_OUT then Inl IDX_ERR_NOT_FOUND
     else idx_try (read_log_fields 7 cursor) (\<lambda>ws.
       if log_type = RAYDIUM_LOG_SWAP_BASE_IN
       then Inr \<lparr>rl_amount_in = ws ! 0, rl_amount_out = ws ! 6, rl_is_base_in = True\<rparr>
       else Inr \<lparr>rl_amount_in = ws ! 6, rl_amount_out = ws ! 1, rl_is_base_in = False\<rparr>))"

definition RAYDIUM_AMM_POOL_INDEX :: nat where "RAYDIUM_AMM_POOL_INDEX = 1"
definition RAYDIUM_AMM_ACCOUNTS_SHORT :: nat where "RAYDIUM_AMM_ACCOUNTS_SHORT = 17"
definition RAYDIUM_AMM_ACCOUNTS_LONG :: nat where "RAYDIUM_AMM_ACCOUNTS_LONG = 18"
definition RAYDIUM_AMM_VAULT_INDEX_SHORT :: nat where "RAYDIUM_AMM_VAULT_INDEX_SHORT = 4"
definition RAYDIUM_AMM_VAULT_INDEX_LONG :: nat where "RAYDIUM_AMM_VAULT_INDEX_LONG = 5"
definition RAYDIUM_AMM_USER_TAIL :: nat where "RAYDIUM_AMM_USER_TAIL = 3"

definition CLMM_SWAP :: bytes where
  "CLMM_SWAP = [0xf8, 0xc6, 0x9e, 0x91, 0xe1, 0x75, 0x87, 0xc8]"

definition CLMM_SWAP_V2 :: bytes where
  "CLMM_SWAP_V2 = [0x2b, 0x04, 0xed, 0x0b, 0x1a, 0xc9, 0x1e, 0x62]"

definition CLMM_PAYER_INDEX :: nat where "CLMM_PAYER_INDEX = 0"
definition CLMM_POOL_INDEX :: nat where "CLMM_POOL_INDEX = 2"
definition CLMM_USER_INPUT_INDEX :: nat where "CLMM_USER_INPUT_INDEX = 3"
definition CLMM_USER_OUTPUT_INDEX :: nat where "CLMM_USER_OUTPUT_INDEX = 4"
definition CLMM_INPUT_VAULT_INDEX :: nat where "CLMM_INPUT_VAULT_INDEX = 5"
definition CLMM_OUTPUT_VAULT_INDEX :: nat where "CLMM_OUTPUT_VAULT_INDEX = 6"
definition CLMM_V2_INPUT_MINT_INDEX :: nat where "CLMM_V2_INPUT_MINT_INDEX = 11"
definition CLMM_V2_OUTPUT_MINT_INDEX :: nat where "CLMM_V2_OUTPUT_MINT_INDEX = 12"
definition CLMM_MIN_ACCOUNTS :: nat where "CLMM_MIN_ACCOUNTS = 7"
definition CLMM_V2_MIN_ACCOUNTS :: nat where "CLMM_V2_MIN_ACCOUNTS = 13"

definition operand :: "idx_transaction \<Rightarrow> idx_instruction \<Rightarrow> nat \<Rightarrow> idx_pubkey result" where
  "operand tx ix position = (case idx_instruction_account tx ix position of
      None \<Rightarrow> Inl IDX_ERR_PARSE
    | Some account \<Rightarrow> Inr account)"

definition decode_amm_v4 :: "idx_transaction \<Rightarrow> idx_instruction \<Rightarrow> idx_swap \<Rightarrow> idx_swap result" where
  "decode_amm_v4 tx ix out = idx_try (idx_cursor_u8 (idx_cursor_init (ix_data ix))) (\<lambda>(discriminant, cursor).
     if discriminant \<noteq> RAYDIUM_AMM_IX_SWAP_BASE_IN \<and> discriminant \<noteq> RAYDIUM_AMM_IX_SWAP_BASE_OUT
     then Inl IDX_ERR_NOT_FOUND
     else idx_try (if length (account_indices ix) = RAYDIUM_AMM_ACCOUNTS_SHORT then Inr RAYDIUM_AMM_VAULT_INDEX_SHORT
                   else if length (account_indices ix) = RAYDIUM_AMM_ACCOUNTS_LONG then Inr RAYDIUM_AMM_VAULT_INDEX_LONG
                   else Inl IDX_ERR_NOT_FOUND) (\<lambda>vault_index.
     idx_try (idx_cursor_u64le cursor) (\<lambda>(first, cursor).
     idx_try (idx_cursor_u64le cursor) (\<lambda>(second, cursor).
     let out = (if discriminant = RAYDIUM_AMM_IX_SWAP_BASE_IN
                then out\<lparr>sw_input_amount := first, sw_has_input_amount := True\<rparr>
                else out\<lparr>sw_output_amount := second, sw_has_output_amount := True\<rparr>);
         tail = length (account_indices ix) - RAYDIUM_AMM_USER_TAIL in
     idx_try (operand tx ix RAYDIUM_AMM_POOL_INDEX) (\<lambda>pool.
     idx_try (operand tx ix vault_index) (\<lambda>a.
     idx_try (operand tx ix (vault_index + 1)) (\<lambda>b.
     idx_try (operand tx ix tail) (\<lambda>source.
     idx_try (operand tx ix (tail + 1)) (\<lambda>destination.
     idx_try (operand tx ix (tail + 2)) (\<lambda>trader.
     Inr (out\<lparr>sw_pool := pool, sw_has_pool := True, sw_pool_account_a := a, sw_pool_account_b := b,
              sw_has_pool_accounts := True, sw_input_account := source, sw_has_input_account := True,
              sw_output_account := destination, sw_has_output_account := True,
              sw_user := trader, sw_has_user := True\<rparr>)))))))))))"

definition decode_clmm ::
    "idx_transaction \<Rightarrow> idx_instruction \<Rightarrow> idx_slice \<Rightarrow> bool \<Rightarrow> idx_swap \<Rightarrow> idx_swap result" where
  "decode_clmm tx ix payload is_v2 out =
     (let needed = (if is_v2 then CLMM_V2_MIN_ACCOUNTS else CLMM_MIN_ACCOUNTS) in
      if length (account_indices ix) < needed then Inl IDX_ERR_NOT_FOUND
      else
     idx_try (idx_cursor_u64le (idx_cursor_init payload)) (\<lambda>(amount, cursor).
     idx_try (idx_cursor_u64le cursor) (\<lambda>(threshold, cursor).
     idx_try (idx_cursor_skip cursor 16) (\<lambda>cursor.
     idx_try (idx_cursor_u8 cursor) (\<lambda>(is_base_input, cursor).
     let out = (if is_base_input \<noteq> 0 then out\<lparr>sw_input_amount := amount, sw_has_input_amount := True\<rparr>
                else out\<lparr>sw_output_amount := amount, sw_has_output_amount := True\<rparr>) in
     idx_try (operand tx ix CLMM_POOL_INDEX) (\<lambda>pool.
     idx_try (operand tx ix CLMM_PAYER_INDEX) (\<lambda>trader.
     idx_try (operand tx ix CLMM_USER_INPUT_INDEX) (\<lambda>source.
     idx_try (operand tx ix CLMM_USER_OUTPUT_INDEX) (\<lambda>destination.
     idx_try (operand tx ix CLMM_INPUT_VAULT_INDEX) (\<lambda>a.
     idx_try (operand tx ix CLMM_OUTPUT_VAULT_INDEX) (\<lambda>b.
     let out = out\<lparr>sw_pool := pool, sw_has_pool := True, sw_user := trader, sw_has_user := True,
                   sw_input_account := source, sw_has_input_account := True,
                   sw_output_account := destination, sw_has_output_account := True,
                   sw_pool_account_a := a, sw_pool_account_b := b, sw_has_pool_accounts := True\<rparr> in
     if \<not> is_v2 then Inr out
     else idx_try (operand tx ix CLMM_V2_INPUT_MINT_INDEX) (\<lambda>input.
       idx_try (operand tx ix CLMM_V2_OUTPUT_MINT_INDEX) (\<lambda>output.
       Inr (out\<lparr>sw_input_mint := input, sw_has_input_mint := True,
                sw_output_mint := output, sw_has_output_mint := True\<rparr>))))))))))))))"

fun idx_venue_raydium_decode ::
    "idx_transaction option \<Rightarrow> idx_instruction option \<Rightarrow> idx_venue \<Rightarrow> idx_swap result" where
  "idx_venue_raydium_decode (Some tx) (Some ix) venue =
     (let out = zero_swap\<lparr>sw_venue := venue\<rparr> in
      if venue = IDX_VENUE_RAYDIUM_AMM_V4 then decode_amm_v4 tx ix out
      else if venue \<noteq> IDX_VENUE_RAYDIUM_CLMM then Inl IDX_ERR_NOT_FOUND
      else if length (ix_data ix) < 8 then Inl IDX_ERR_NOT_FOUND
      else let payload = idx_slice_sub (ix_data ix) 8 (length (ix_data ix) - 8) in
        if take 8 (ix_data ix) = CLMM_SWAP then decode_clmm tx ix payload False out
        else if take 8 (ix_data ix) = CLMM_SWAP_V2 then decode_clmm tx ix payload True out
        else Inl IDX_ERR_NOT_FOUND)"
| "idx_venue_raydium_decode _ _ _ = Inl IDX_ERR_INVALID_ARG"

section \<open>Facts\<close>

text \<open>The fields of the log on the wire.\<close>

definition log_bytes :: "byte \<Rightarrow> u64 list \<Rightarrow> bytes" where
  "log_bytes log_type ws = log_type # concat (map u64_bytes ws)"

lemma read_log_wire:
  "unread c = concat (map u64_bytes ws) @ rest \<Longrightarrow> read_log_fields (length ws) c = Inr ws"
proof (induction ws arbitrary: c)
  case (Cons w ws)
  show ?case
    unfolding length_Cons read_log_fields.simps
    by (rule try_read [OF consumes_u64], use Cons.prems in simp) (simp add: Cons.IH)
qed simp

lemma read_log_Inr:
  "read_log_fields n c = Inr ws \<Longrightarrow> length ws = n \<and> (\<exists>rest. unread c = concat (map u64_bytes ws) @ rest)"
proof (induction n arbitrary: c ws)
  case (Suc n)
  then obtain w d vs where w: "idx_cursor_u64le c = Inr (w, d)" and vs: "read_log_fields n d = Inr vs" and ws: "ws = w # vs"
    by (auto simp: idx_try_Inr_iff)
  then show ?case using Suc.IH [OF vs] u64_Inr [OF w] by auto
qed simp

lemma read_log_Inl: "read_log_fields n c = Inl e \<Longrightarrow> e = IDX_ERR_RANGE"
  by (induction n arbitrary: c) (auto simp: idx_try_Inl_iff dest: reader_Inl)

lemma operand_eq: "operand tx ix p = require_account tx ix p"
  by (simp add: operand_def require_account_def)

lemma raydium_venue: "idx_venue_raydium_decode (Some tx) (Some ix) venue = Inr sw \<Longrightarrow> sw_venue sw = venue"
  by (auto simp: Let_def decode_amm_v4_def decode_clmm_def idx_try_Inr_iff zero_swap_def split: if_splits)

lemma operand_some: "p < length (account_indices ix) \<Longrightarrow> \<exists>a. operand tx ix p = Inr a"
  by (simp add: operand_def idx_instruction_account_def)

lemmas raydium_positions = RAYDIUM_AMM_POOL_INDEX_def RAYDIUM_AMM_ACCOUNTS_SHORT_def RAYDIUM_AMM_ACCOUNTS_LONG_def
  RAYDIUM_AMM_VAULT_INDEX_SHORT_def RAYDIUM_AMM_VAULT_INDEX_LONG_def RAYDIUM_AMM_USER_TAIL_def
  CLMM_PAYER_INDEX_def CLMM_POOL_INDEX_def CLMM_USER_INPUT_INDEX_def CLMM_USER_OUTPUT_INDEX_def
  CLMM_INPUT_VAULT_INDEX_def CLMM_OUTPUT_VAULT_INDEX_def CLMM_V2_INPUT_MINT_INDEX_def CLMM_V2_OUTPUT_MINT_INDEX_def
  CLMM_MIN_ACCOUNTS_def CLMM_V2_MIN_ACCOUNTS_def

lemma operand_Inl: "operand tx ix p = Inl e \<Longrightarrow> length (account_indices ix) \<le> p"
  by (auto simp: operand_def idx_instruction_account_def split: if_splits)

lemma skip16_Inl: "idx_cursor_skip c n = Inl e \<Longrightarrow> e = IDX_ERR_RANGE"
  by (auto simp: idx_cursor_skip_def idx_try_Inl_iff idx_cursor_take_eq split: if_splits)

text \<open>The account counts are checked first, so an operand is never missing.\<close>

lemma amm_v4_Inl: "decode_amm_v4 tx ix out = Inl e \<Longrightarrow> e = IDX_ERR_NOT_FOUND \<or> e = IDX_ERR_RANGE"
  by (auto simp: decode_amm_v4_def idx_try_Inl_iff Let_def raydium_positions dest: reader_Inl dest!: operand_Inl
      split: if_splits)

lemma clmm_Inl: "decode_clmm tx ix payload v2 out = Inl e \<Longrightarrow> e = IDX_ERR_NOT_FOUND \<or> e = IDX_ERR_RANGE"
  by (auto simp: decode_clmm_def idx_try_Inl_iff Let_def raydium_positions dest: reader_Inl skip16_Inl dest!: operand_Inl
      split: if_splits)

lemma raydium_Inl:
  "idx_venue_raydium_decode (Some tx) (Some ix) venue = Inl e \<Longrightarrow> e = IDX_ERR_NOT_FOUND \<or> e = IDX_ERR_RANGE"
  by (auto simp: Let_def dest: amm_v4_Inl clmm_Inl split: if_splits)

section \<open>Properties\<close>

text \<open>
  C28: A swap log is read exactly. The parser yields a log exactly when the bytes start with one
  of the two swap types and seven little-endian amounts; a base-in log states the input first
  and the output last, a base-out log the output second and the input last.
\<close>

theorem raydium_log_iff:
  "idx_raydium_swap_log_parse raw = Inr log \<longleftrightarrow>
     (\<exists>log_type ws rest. length ws = 7 \<and> raw = log_bytes log_type ws @ rest \<and>
        (log_type = 3 \<and> log = \<lparr>rl_amount_in = ws ! 0, rl_amount_out = ws ! 6, rl_is_base_in = True\<rparr> \<or>
         log_type = 4 \<and> log = \<lparr>rl_amount_in = ws ! 6, rl_amount_out = ws ! 1, rl_is_base_in = False\<rparr>))"
  (is "?l \<longleftrightarrow> ?r")
proof
  assume ?l
  then obtain t c ws where t: "idx_cursor_u8 (idx_cursor_init raw) = Inr (t, c)" and ws: "read_log_fields 7 c = Inr ws"
    and log: "t = 3 \<and> log = \<lparr>rl_amount_in = ws ! 0, rl_amount_out = ws ! 6, rl_is_base_in = True\<rparr> \<or>
         t = 4 \<and> log = \<lparr>rl_amount_in = ws ! 6, rl_amount_out = ws ! 1, rl_is_base_in = False\<rparr>"
    by (auto simp: idx_raydium_swap_log_parse_def idx_try_Inr_iff RAYDIUM_LOG_SWAP_BASE_IN_def
        RAYDIUM_LOG_SWAP_BASE_OUT_def split: if_splits)
  obtain rest where "unread c = concat (map u64_bytes ws) @ rest" "length ws = 7" using read_log_Inr [OF ws] by blast
  then show ?r using u8_Inr [OF t] log by (auto simp: unread_init log_bytes_def)
next
  assume ?r
  then obtain t ws rest where ws: "length ws = 7" and raw: "raw = t # concat (map u64_bytes ws) @ rest"
    and log: "t = 3 \<and> log = \<lparr>rl_amount_in = ws ! 0, rl_amount_out = ws ! 6, rl_is_base_in = True\<rparr> \<or>
         t = 4 \<and> log = \<lparr>rl_amount_in = ws ! 6, rl_amount_out = ws ! 1, rl_is_base_in = False\<rparr>"
    by (auto simp: log_bytes_def)
  obtain c where "idx_cursor_u8 (idx_cursor_init raw) = Inr (t, c)" "unread c = concat (map u64_bytes ws) @ rest"
    using consumes_u8 [of t] raw unfolding consumes_def by (metis append_Cons append_Nil unread_init)
  then show ?l using read_log_wire [of c ws rest] ws log
    by (auto simp: idx_raydium_swap_log_parse_def RAYDIUM_LOG_SWAP_BASE_IN_def RAYDIUM_LOG_SWAP_BASE_OUT_def)
qed

end
