(* ===== verification/VenueJupiter.thy ===== *)
theory VenueJupiter
  imports Venue
begin

text \<open>
  Jupiter's swap events (\<^verbatim>\<open>src/venue_jupiter.c\<close>, \<^verbatim>\<open>include/venue_jupiter.h\<close>), each one leg
  of a route; the AMM it names is skipped.
\<close>

definition SWAP_EVENT :: bytes where
  "SWAP_EVENT = [0x40, 0xc6, 0xcd, 0xe8, 0x26, 0x08, 0x71, 0xe2]"

definition decode_swap_event :: "idx_slice \<Rightarrow> idx_swap \<Rightarrow> idx_swap result" where
  "decode_swap_event view out =
     idx_try (idx_cursor_skip (idx_cursor_init view) IDX_PUBKEY_LEN) (\<lambda>cursor.
     idx_try (idx_cursor_copy cursor IDX_PUBKEY_LEN) (\<lambda>(input, cursor).
     idx_try (idx_cursor_u64le cursor) (\<lambda>(paid, cursor).
     idx_try (idx_cursor_copy cursor IDX_PUBKEY_LEN) (\<lambda>(output, cursor).
     idx_try (idx_cursor_u64le cursor) (\<lambda>(got, cursor).
     Inr (out\<lparr>sw_input_mint := input, sw_input_amount := paid, sw_output_mint := output, sw_output_amount := got,
              sw_has_input_mint := True, sw_has_output_mint := True, sw_has_input_amount := True,
              sw_has_output_amount := True\<rparr>))))))"

fun idx_venue_jupiter_decode ::
    "idx_transaction option \<Rightarrow> idx_instruction option \<Rightarrow> idx_swap result" where
  "idx_venue_jupiter_decode (Some tx) (Some ix) =
     (case idx_anchor_event_payload (ix_data ix) of
        None \<Rightarrow> Inl IDX_ERR_NOT_FOUND
      | Some payload \<Rightarrow> (case idx_anchor_event_is payload SWAP_EVENT of
          None \<Rightarrow> Inl IDX_ERR_NOT_FOUND
        | Some body \<Rightarrow> decode_swap_event body (zero_swap\<lparr>sw_venue := IDX_VENUE_JUPITER, sw_from_event := True\<rparr>)))"
| "idx_venue_jupiter_decode _ _ = Inl IDX_ERR_INVALID_ARG"

section \<open>Facts\<close>

lemma jupiter_swap_fields:
  "idx_venue_jupiter_decode (Some tx) (Some ix) = Inr sw \<Longrightarrow> sw_venue sw = IDX_VENUE_JUPITER"
  by (auto simp: decode_swap_event_def idx_try_Inr_iff split: option.splits)

text \<open>The errors a venue decoder can give: not its event, or an event cut short.\<close>

lemma copy_Inl: "idx_cursor_copy c n = Inl e \<Longrightarrow> e = IDX_ERR_RANGE"
  by (auto simp: idx_cursor_copy_eq idx_cursor_take_eq split: if_splits)

lemma skip_Inl: "idx_cursor_skip c n = Inl e \<Longrightarrow> e = IDX_ERR_RANGE"
  by (auto simp: idx_cursor_skip_def idx_try_Inl_iff idx_cursor_take_eq split: if_splits)

lemma jupiter_Inl:
  "idx_venue_jupiter_decode (Some tx) (Some ix) = Inl e \<Longrightarrow> e = IDX_ERR_NOT_FOUND \<or> e = IDX_ERR_RANGE"
  by (auto simp: decode_swap_event_def idx_try_Inl_iff dest: copy_Inl skip_Inl reader_Inl split: option.splits)

text \<open>A leg on the wire.\<close>

definition leg_bytes :: "bytes \<Rightarrow> idx_pubkey \<Rightarrow> u64 \<Rightarrow> idx_pubkey \<Rightarrow> u64 \<Rightarrow> bytes" where
  "leg_bytes amm input paid output got =
     IDX_ANCHOR_EVENT_DISCRIMINATOR @ SWAP_EVENT @ amm @ input @ u64_bytes paid @ output @ u64_bytes got"

definition leg_swap :: "idx_pubkey \<Rightarrow> u64 \<Rightarrow> idx_pubkey \<Rightarrow> u64 \<Rightarrow> idx_swap" where
  "leg_swap input paid output got =
     zero_swap\<lparr>sw_venue := IDX_VENUE_JUPITER, sw_from_event := True, sw_input_mint := input,
       sw_input_amount := paid, sw_output_mint := output, sw_output_amount := got, sw_has_input_mint := True,
       sw_has_output_mint := True, sw_has_input_amount := True, sw_has_output_amount := True\<rparr>"

lemma skip_wire:
  assumes "unread c = a @ rest" "length a = n" "\<And>d. unread d = rest \<Longrightarrow> k d = Inr w"
  shows "idx_try (idx_cursor_skip c n) k = Inr w"
  using assms by (simp add: idx_cursor_skip_def idx_cursor_take_eq unread_advance)

lemma jupiter_wire:
  assumes "key_ok amm" "key_ok input" "key_ok output"
    and data: "ix_data ix = leg_bytes amm input paid output got @ rest"
  shows "idx_venue_jupiter_decode (Some tx) (Some ix) = Inr (leg_swap input paid output got)"
proof -
  let ?body = "amm @ input @ u64_bytes paid @ output @ u64_bytes got @ rest"
  have "idx_anchor_event_payload (ix_data ix) = Some (SWAP_EVENT @ ?body)"
    by (simp add: event_payload_iff data leg_bytes_def)
  moreover have "idx_anchor_event_is (SWAP_EVENT @ ?body) SWAP_EVENT = Some ?body"
    by (simp add: event_is_iff SWAP_EVENT_def)
  moreover have "decode_swap_event ?body (zero_swap\<lparr>sw_venue := IDX_VENUE_JUPITER, sw_from_event := True\<rparr>) =
      Inr (leg_swap input paid output got)"
    unfolding decode_swap_event_def read_pubkey_def [symmetric]
    by (rule skip_wire [of _ amm], simp add: unread_init, use assms(1) in \<open>simp add: key_ok_def\<close>,
        rule try_pubkey [OF _ assms(2)], assumption, rule try_read [OF consumes_u64], assumption,
        rule try_pubkey [OF _ assms(3)], assumption, rule try_read [OF consumes_u64], assumption)
      (simp add: leg_swap_def zero_swap_def)
  ultimately show ?thesis by simp
qed

end
