(* ===== verification/SwapDecode.thy ===== *)
theory SwapDecode
  imports VenuePump VenueRaydium VenueJupiter
begin

text \<open>
  The dispatch of \<^verbatim>\<open>src/venue.c\<close>: an instruction goes to the decoder of the venue its program
  belongs to.
\<close>

section \<open>Model\<close>

fun idx_swap_decode :: "idx_transaction option \<Rightarrow> idx_instruction option \<Rightarrow> idx_swap result" where
  "idx_swap_decode (Some tx) (Some ix) =
     (let venue = idx_venue_of_program (Some (idx_instruction_program_id tx ix)) in case venue of
        IDX_VENUE_PUMP_CURVE \<Rightarrow> idx_venue_pump_decode (Some tx) (Some ix) venue
      | IDX_VENUE_PUMP_AMM \<Rightarrow> idx_venue_pump_decode (Some tx) (Some ix) venue
      | IDX_VENUE_RAYDIUM_AMM_V4 \<Rightarrow> idx_venue_raydium_decode (Some tx) (Some ix) venue
      | IDX_VENUE_RAYDIUM_CLMM \<Rightarrow> idx_venue_raydium_decode (Some tx) (Some ix) venue
      | IDX_VENUE_RAYDIUM_CPMM \<Rightarrow> idx_venue_raydium_decode (Some tx) (Some ix) venue
      | IDX_VENUE_JUPITER \<Rightarrow> idx_venue_jupiter_decode (Some tx) (Some ix)
      | IDX_VENUE_NONE \<Rightarrow> Inl IDX_ERR_NOT_FOUND)"
| "idx_swap_decode _ _ = Inl IDX_ERR_INVALID_ARG"

fun idx_venue_metadata_decode :: "idx_transaction option \<Rightarrow> idx_instruction option \<Rightarrow> idx_token_metadata result" where
  "idx_venue_metadata_decode (Some tx) (Some ix) =
     (if idx_venue_of_program (Some (idx_instruction_program_id tx ix)) = IDX_VENUE_PUMP_CURVE
      then idx_venue_pump_metadata (Some tx) (Some ix) else Inl IDX_ERR_NOT_FOUND)"
| "idx_venue_metadata_decode _ _ = Inl IDX_ERR_INVALID_ARG"

fun idx_venue_creation_decode :: "idx_transaction option \<Rightarrow> idx_instruction option \<Rightarrow> idx_pool_creation result" where
  "idx_venue_creation_decode (Some tx) (Some ix) =
     (if idx_venue_of_program (Some (idx_instruction_program_id tx ix)) = IDX_VENUE_PUMP_CURVE
      then idx_venue_pump_creation (Some tx) (Some ix) else Inl IDX_ERR_NOT_FOUND)"
| "idx_venue_creation_decode _ _ = Inl IDX_ERR_INVALID_ARG"

section \<open>Facts\<close>

declare idx_venue_pump_decode.simps [simp del] idx_venue_raydium_decode.simps [simp del]
  idx_venue_jupiter_decode.simps [simp del]

lemma pump_venue: "idx_venue_pump_decode (Some tx) (Some ix) venue = Inr sw \<Longrightarrow> sw_venue sw = venue"
proof -
  have "sw_venue (trade_swap venue trade) = venue" for trade by (cases trade) simp_all
  moreover assume "idx_venue_pump_decode (Some tx) (Some ix) venue = Inr sw"
  ultimately show ?thesis
    by (auto simp: idx_venue_pump_decode.simps Let_def trade_event_Inr amm_event_Inr split: option.splits if_splits)
qed

lemma pump_Inl: "idx_venue_pump_decode (Some tx) (Some ix) venue = Inl e \<Longrightarrow> e = IDX_ERR_NOT_FOUND \<or> e = IDX_ERR_RANGE"
  by (auto simp: idx_venue_pump_decode.simps Let_def amm_event_eq decode_trade_event_def idx_try_Inl_iff
      dest: copy_Inl reader_Inl split: option.splits if_splits)

lemma swap_decode_venue:
  "idx_swap_decode (Some tx) (Some ix) = Inr sw \<Longrightarrow> sw_venue sw = idx_venue_of_program (Some (idx_instruction_program_id tx ix))"
  by (auto simp: Let_def dest: pump_venue raydium_venue jupiter_swap_fields split: idx_venue.splits)

lemma swap_decode_Inl:
  "idx_swap_decode (Some tx) (Some ix) = Inl e \<Longrightarrow> e = IDX_ERR_NOT_FOUND \<or> e = IDX_ERR_RANGE"
  by (auto simp: Let_def dest: pump_Inl raydium_Inl jupiter_Inl split: idx_venue.splits)

end
