(* ===== verification/SystemProgram.thy ===== *)
theory SystemProgram
  imports InstructionData
begin

text \<open>
  The System program's instructions (\<^verbatim>\<open>src/system_program.c\<close>,
  \<^verbatim>\<open>include/system_program.h\<close>). The union of the C structure is a datatype with one
  constructor per member, its fields in the source's order; a pointer into the transaction's
  accounts is the key it points to, and one that may be \<^verbatim>\<open>NULL\<close> is an option.
\<close>

section \<open>Model\<close>

datatype idx_system_ix_kind =
    IDX_SYSTEM_IX_CREATE_ACCOUNT
  | IDX_SYSTEM_IX_ASSIGN
  | IDX_SYSTEM_IX_TRANSFER
  | IDX_SYSTEM_IX_CREATE_ACCOUNT_WITH_SEED
  | IDX_SYSTEM_IX_ADVANCE_NONCE_ACCOUNT
  | IDX_SYSTEM_IX_WITHDRAW_NONCE_ACCOUNT
  | IDX_SYSTEM_IX_INITIALIZE_NONCE_ACCOUNT
  | IDX_SYSTEM_IX_AUTHORIZE_NONCE_ACCOUNT
  | IDX_SYSTEM_IX_ALLOCATE
  | IDX_SYSTEM_IX_ALLOCATE_WITH_SEED
  | IDX_SYSTEM_IX_ASSIGN_WITH_SEED
  | IDX_SYSTEM_IX_TRANSFER_WITH_SEED
  | IDX_SYSTEM_IX_UPGRADE_NONCE_ACCOUNT

text \<open>The kinds in the order of their numbers, which start at zero.\<close>

definition system_kinds :: "idx_system_ix_kind list" where
  "system_kinds = [IDX_SYSTEM_IX_CREATE_ACCOUNT, IDX_SYSTEM_IX_ASSIGN, IDX_SYSTEM_IX_TRANSFER,
     IDX_SYSTEM_IX_CREATE_ACCOUNT_WITH_SEED, IDX_SYSTEM_IX_ADVANCE_NONCE_ACCOUNT,
     IDX_SYSTEM_IX_WITHDRAW_NONCE_ACCOUNT, IDX_SYSTEM_IX_INITIALIZE_NONCE_ACCOUNT,
     IDX_SYSTEM_IX_AUTHORIZE_NONCE_ACCOUNT, IDX_SYSTEM_IX_ALLOCATE, IDX_SYSTEM_IX_ALLOCATE_WITH_SEED,
     IDX_SYSTEM_IX_ASSIGN_WITH_SEED, IDX_SYSTEM_IX_TRANSFER_WITH_SEED, IDX_SYSTEM_IX_UPGRADE_NONCE_ACCOUNT]"

definition idx_system_ix_kind_name :: "idx_system_ix_kind \<Rightarrow> string" where
  "idx_system_ix_kind_name kind = (case kind of
      IDX_SYSTEM_IX_CREATE_ACCOUNT \<Rightarrow> ''CreateAccount''
    | IDX_SYSTEM_IX_ASSIGN \<Rightarrow> ''Assign''
    | IDX_SYSTEM_IX_TRANSFER \<Rightarrow> ''Transfer''
    | IDX_SYSTEM_IX_CREATE_ACCOUNT_WITH_SEED \<Rightarrow> ''CreateAccountWithSeed''
    | IDX_SYSTEM_IX_ADVANCE_NONCE_ACCOUNT \<Rightarrow> ''AdvanceNonceAccount''
    | IDX_SYSTEM_IX_WITHDRAW_NONCE_ACCOUNT \<Rightarrow> ''WithdrawNonceAccount''
    | IDX_SYSTEM_IX_INITIALIZE_NONCE_ACCOUNT \<Rightarrow> ''InitializeNonceAccount''
    | IDX_SYSTEM_IX_AUTHORIZE_NONCE_ACCOUNT \<Rightarrow> ''AuthorizeNonceAccount''
    | IDX_SYSTEM_IX_ALLOCATE \<Rightarrow> ''Allocate''
    | IDX_SYSTEM_IX_ALLOCATE_WITH_SEED \<Rightarrow> ''AllocateWithSeed''
    | IDX_SYSTEM_IX_ASSIGN_WITH_SEED \<Rightarrow> ''AssignWithSeed''
    | IDX_SYSTEM_IX_TRANSFER_WITH_SEED \<Rightarrow> ''TransferWithSeed''
    | IDX_SYSTEM_IX_UPGRADE_NONCE_ACCOUNT \<Rightarrow> ''UpgradeNonceAccount'')"

datatype idx_system_operands =
    Create_account (funder: idx_pubkey) (account: idx_pubkey) (lamports: u64) (space: u64) (owner: idx_pubkey)
  | Assign (account: idx_pubkey) (owner: idx_pubkey)
  | Sol_transfer (from_key: idx_pubkey) (to_key: idx_pubkey) (lamports: u64)
  | Create_account_with_seed (funder: idx_pubkey) (account: idx_pubkey) (base: idx_pubkey) (seed: idx_slice)
      (lamports: u64) (space: u64) (owner: idx_pubkey)
  | Nonce (nonce: idx_pubkey) (authority: "idx_pubkey option")
  | Withdraw_nonce (nonce: idx_pubkey) (to_key: idx_pubkey) (signer: idx_pubkey) (lamports: u64)
  | Set_nonce_authority (nonce: idx_pubkey) (authority: "idx_pubkey option") (new_authority: idx_pubkey)
  | Allocate (account: idx_pubkey) (space: u64)
  | Allocate_with_seed (account: idx_pubkey) (base_account: idx_pubkey) (base: idx_pubkey) (seed: idx_slice)
      (space: u64) (owner: idx_pubkey)
  | Assign_with_seed (account: idx_pubkey) (base_account: idx_pubkey) (base: idx_pubkey) (seed: idx_slice)
      (owner: idx_pubkey)
  | Transfer_with_seed (from_key: idx_pubkey) (base_account: idx_pubkey) (to_key: idx_pubkey) (lamports: u64)
      (from_seed: idx_slice) (from_owner: idx_pubkey)

record idx_system_instruction =
  sys_kind :: idx_system_ix_kind
  sys_operands :: idx_system_operands

definition read_seed :: "idx_cursor \<Rightarrow> (idx_slice \<times> idx_cursor) result" where
  "read_seed cursor = idx_try (idx_cursor_u64le cursor) (\<lambda>(len, cursor).
     if unat len > idx_cursor_remaining cursor then Inl IDX_ERR_RANGE
     else idx_cursor_take cursor (unat len))"

definition decode_system_operands ::
    "idx_transaction \<Rightarrow> idx_instruction \<Rightarrow> idx_system_ix_kind \<Rightarrow> idx_cursor \<Rightarrow> idx_system_operands result" where
  "decode_system_operands tx ix kind cursor = (case kind of
      IDX_SYSTEM_IX_CREATE_ACCOUNT \<Rightarrow>
        idx_try (require_account tx ix 0) (\<lambda>fund.
        idx_try (require_account tx ix 1) (\<lambda>acct.
        idx_try (idx_cursor_u64le cursor) (\<lambda>(lam, cursor).
        idx_try (idx_cursor_u64le cursor) (\<lambda>(spc, cursor).
        idx_try (read_pubkey cursor) (\<lambda>(own, cursor).
        Inr (Create_account fund acct lam spc own))))))
    | IDX_SYSTEM_IX_ASSIGN \<Rightarrow>
        idx_try (require_account tx ix 0) (\<lambda>acct.
        idx_try (read_pubkey cursor) (\<lambda>(own, cursor).
        Inr (Assign acct own)))
    | IDX_SYSTEM_IX_TRANSFER \<Rightarrow>
        idx_try (require_account tx ix 0) (\<lambda>src.
        idx_try (require_account tx ix 1) (\<lambda>dst.
        idx_try (idx_cursor_u64le cursor) (\<lambda>(lam, cursor).
        Inr (Sol_transfer src dst lam))))
    | IDX_SYSTEM_IX_CREATE_ACCOUNT_WITH_SEED \<Rightarrow>
        idx_try (require_account tx ix 0) (\<lambda>fund.
        idx_try (require_account tx ix 1) (\<lambda>acct.
        idx_try (read_pubkey cursor) (\<lambda>(bas, cursor).
        idx_try (read_seed cursor) (\<lambda>(sd, cursor).
        idx_try (idx_cursor_u64le cursor) (\<lambda>(lam, cursor).
        idx_try (idx_cursor_u64le cursor) (\<lambda>(spc, cursor).
        idx_try (read_pubkey cursor) (\<lambda>(own, cursor).
        Inr (Create_account_with_seed fund acct bas sd lam spc own))))))))
    | IDX_SYSTEM_IX_ADVANCE_NONCE_ACCOUNT \<Rightarrow>
        idx_try (require_account tx ix 0) (\<lambda>non.
        idx_try (require_account tx ix 2) (\<lambda>auth.
        Inr (Nonce non (Some auth))))
    | IDX_SYSTEM_IX_UPGRADE_NONCE_ACCOUNT \<Rightarrow>
        idx_try (require_account tx ix 0) (\<lambda>non.
        Inr (Nonce non None))
    | IDX_SYSTEM_IX_WITHDRAW_NONCE_ACCOUNT \<Rightarrow>
        idx_try (require_account tx ix 0) (\<lambda>non.
        idx_try (require_account tx ix 1) (\<lambda>dst.
        idx_try (require_account tx ix 4) (\<lambda>auth.
        idx_try (idx_cursor_u64le cursor) (\<lambda>(lam, cursor).
        Inr (Withdraw_nonce non dst auth lam)))))
    | IDX_SYSTEM_IX_INITIALIZE_NONCE_ACCOUNT \<Rightarrow>
        idx_try (require_account tx ix 0) (\<lambda>non.
        idx_try (read_pubkey cursor) (\<lambda>(auth, cursor).
        Inr (Set_nonce_authority non None auth)))
    | IDX_SYSTEM_IX_AUTHORIZE_NONCE_ACCOUNT \<Rightarrow>
        idx_try (require_account tx ix 0) (\<lambda>non.
        idx_try (require_account tx ix 1) (\<lambda>old.
        idx_try (read_pubkey cursor) (\<lambda>(auth, cursor).
        Inr (Set_nonce_authority non (Some old) auth))))
    | IDX_SYSTEM_IX_ALLOCATE \<Rightarrow>
        idx_try (require_account tx ix 0) (\<lambda>acct.
        idx_try (idx_cursor_u64le cursor) (\<lambda>(spc, cursor).
        Inr (Allocate acct spc)))
    | IDX_SYSTEM_IX_ALLOCATE_WITH_SEED \<Rightarrow>
        idx_try (require_account tx ix 0) (\<lambda>acct.
        idx_try (require_account tx ix 1) (\<lambda>bacct.
        idx_try (read_pubkey cursor) (\<lambda>(bas, cursor).
        idx_try (read_seed cursor) (\<lambda>(sd, cursor).
        idx_try (idx_cursor_u64le cursor) (\<lambda>(spc, cursor).
        idx_try (read_pubkey cursor) (\<lambda>(own, cursor).
        Inr (Allocate_with_seed acct bacct bas sd spc own)))))))
    | IDX_SYSTEM_IX_ASSIGN_WITH_SEED \<Rightarrow>
        idx_try (require_account tx ix 0) (\<lambda>acct.
        idx_try (require_account tx ix 1) (\<lambda>bacct.
        idx_try (read_pubkey cursor) (\<lambda>(bas, cursor).
        idx_try (read_seed cursor) (\<lambda>(sd, cursor).
        idx_try (read_pubkey cursor) (\<lambda>(own, cursor).
        Inr (Assign_with_seed acct bacct bas sd own))))))
    | IDX_SYSTEM_IX_TRANSFER_WITH_SEED \<Rightarrow>
        idx_try (require_account tx ix 0) (\<lambda>src.
        idx_try (require_account tx ix 1) (\<lambda>bacct.
        idx_try (require_account tx ix 2) (\<lambda>dst.
        idx_try (idx_cursor_u64le cursor) (\<lambda>(lam, cursor).
        idx_try (read_seed cursor) (\<lambda>(sd, cursor).
        idx_try (read_pubkey cursor) (\<lambda>(own, cursor).
        Inr (Transfer_with_seed src bacct dst lam sd own))))))))"

text \<open>\<open>None\<close> stands for a \<^verbatim>\<open>NULL\<close> transaction or instruction.\<close>

fun idx_system_instruction_decode ::
    "idx_transaction option \<Rightarrow> idx_instruction option \<Rightarrow> idx_system_instruction result" where
  "idx_system_instruction_decode (Some tx) (Some ix) =
     idx_try (idx_cursor_u32le (idx_cursor_init (ix_data ix))) (\<lambda>(discriminant, cursor).
     if discriminant > 12 then Inl IDX_ERR_NOT_FOUND
     else let kind = system_kinds ! unat discriminant in
       idx_try (decode_system_operands tx ix kind cursor) (\<lambda>operands.
       Inr \<lparr>sys_kind = kind, sys_operands = operands\<rparr>))"
| "idx_system_instruction_decode _ _ = Inl IDX_ERR_INVALID_ARG"

section \<open>Wire form\<close>

text \<open>
  The wire format as the runtime documents it: the number of the kind in four bytes, then the
  fields of the variant; a seed is preceded by its length. \<open>wf_system\<close> says that the operands
  are those of the kind and that keys have their length.
\<close>

definition kind_number :: "idx_system_ix_kind \<Rightarrow> u32" where
  "kind_number kind = word_of_nat (length (takeWhile (\<lambda>k. k \<noteq> kind) system_kinds))"

definition seed_bytes :: "bytes \<Rightarrow> bytes" where
  "seed_bytes sd = u64_bytes (word_of_nat (length sd)) @ sd"

fun operand_bytes :: "idx_system_operands \<Rightarrow> bytes" where
  "operand_bytes (Create_account _ _ lam spc own) = u64_bytes lam @ u64_bytes spc @ own"
| "operand_bytes (Assign _ own) = own"
| "operand_bytes (Sol_transfer _ _ lam) = u64_bytes lam"
| "operand_bytes (Create_account_with_seed _ _ bas sd lam spc own) =
     bas @ seed_bytes sd @ u64_bytes lam @ u64_bytes spc @ own"
| "operand_bytes (Nonce _ _) = []"
| "operand_bytes (Withdraw_nonce _ _ _ lam) = u64_bytes lam"
| "operand_bytes (Set_nonce_authority _ _ auth) = auth"
| "operand_bytes (Allocate _ spc) = u64_bytes spc"
| "operand_bytes (Allocate_with_seed _ _ bas sd spc own) = bas @ seed_bytes sd @ u64_bytes spc @ own"
| "operand_bytes (Assign_with_seed _ _ bas sd own) = bas @ seed_bytes sd @ own"
| "operand_bytes (Transfer_with_seed _ _ _ lam sd own) = u64_bytes lam @ seed_bytes sd @ own"

text \<open>Which account position each named operand stands at.\<close>

fun operand_accounts :: "idx_system_operands \<Rightarrow> (nat \<times> idx_pubkey) list" where
  "operand_accounts (Create_account fund acct _ _ _) = [(0, fund), (1, acct)]"
| "operand_accounts (Assign acct _) = [(0, acct)]"
| "operand_accounts (Sol_transfer src dst _) = [(0, src), (1, dst)]"
| "operand_accounts (Create_account_with_seed fund acct _ _ _ _ _) = [(0, fund), (1, acct)]"
| "operand_accounts (Nonce non None) = [(0, non)]"
| "operand_accounts (Nonce non (Some auth)) = [(0, non), (2, auth)]"
| "operand_accounts (Withdraw_nonce non dst auth _) = [(0, non), (1, dst), (4, auth)]"
| "operand_accounts (Set_nonce_authority non None _) = [(0, non)]"
| "operand_accounts (Set_nonce_authority non (Some old) _) = [(0, non), (1, old)]"
| "operand_accounts (Allocate acct _) = [(0, acct)]"
| "operand_accounts (Allocate_with_seed acct bacct _ _ _ _) = [(0, acct), (1, bacct)]"
| "operand_accounts (Assign_with_seed acct bacct _ _ _) = [(0, acct), (1, bacct)]"
| "operand_accounts (Transfer_with_seed src bacct dst _ _ _) = [(0, src), (1, bacct), (2, dst)]"

fun wf_system :: "idx_system_ix_kind \<Rightarrow> idx_system_operands \<Rightarrow> bool" where
  "wf_system kind (Create_account _ _ _ _ own) \<longleftrightarrow> kind = IDX_SYSTEM_IX_CREATE_ACCOUNT \<and> key_ok own"
| "wf_system kind (Assign _ own) \<longleftrightarrow> kind = IDX_SYSTEM_IX_ASSIGN \<and> key_ok own"
| "wf_system kind (Sol_transfer _ _ _) \<longleftrightarrow> kind = IDX_SYSTEM_IX_TRANSFER"
| "wf_system kind (Create_account_with_seed _ _ bas sd _ _ own) \<longleftrightarrow>
     kind = IDX_SYSTEM_IX_CREATE_ACCOUNT_WITH_SEED \<and> key_ok bas \<and> key_ok own \<and> length sd < 2 ^ 64"
| "wf_system kind (Nonce _ auth) \<longleftrightarrow>
     kind = (if auth = None then IDX_SYSTEM_IX_UPGRADE_NONCE_ACCOUNT else IDX_SYSTEM_IX_ADVANCE_NONCE_ACCOUNT)"
| "wf_system kind (Withdraw_nonce _ _ _ _) \<longleftrightarrow> kind = IDX_SYSTEM_IX_WITHDRAW_NONCE_ACCOUNT"
| "wf_system kind (Set_nonce_authority _ old auth) \<longleftrightarrow> key_ok auth \<and>
     kind = (if old = None then IDX_SYSTEM_IX_INITIALIZE_NONCE_ACCOUNT else IDX_SYSTEM_IX_AUTHORIZE_NONCE_ACCOUNT)"
| "wf_system kind (Allocate _ _) \<longleftrightarrow> kind = IDX_SYSTEM_IX_ALLOCATE"
| "wf_system kind (Allocate_with_seed _ _ bas sd _ own) \<longleftrightarrow>
     kind = IDX_SYSTEM_IX_ALLOCATE_WITH_SEED \<and> key_ok bas \<and> key_ok own \<and> length sd < 2 ^ 64"
| "wf_system kind (Assign_with_seed _ _ bas sd own) \<longleftrightarrow>
     kind = IDX_SYSTEM_IX_ASSIGN_WITH_SEED \<and> key_ok bas \<and> key_ok own \<and> length sd < 2 ^ 64"
| "wf_system kind (Transfer_with_seed _ _ _ _ sd own) \<longleftrightarrow>
     kind = IDX_SYSTEM_IX_TRANSFER_WITH_SEED \<and> key_ok own \<and> length sd < 2 ^ 64"

definition system_bytes :: "idx_system_instruction \<Rightarrow> bytes" where
  "system_bytes i = u32_bytes (kind_number (sys_kind i)) @ operand_bytes (sys_operands i)"

lemma kind_number_nth: "kind_number kind \<le> 12 \<and> system_kinds ! unat (kind_number kind) = kind"
  by (cases kind) (simp_all add: kind_number_def system_kinds_def)

lemma consumes_seed: "length sd < 2 ^ 64 \<Longrightarrow> consumes read_seed sd (seed_bytes sd)"
  unfolding consumes_def
proof (intro allI impI)
  fix c rest assume len: "length sd < 2 ^ 64" and c: "unread c = seed_bytes sd @ rest"
  have n: "unat (word_of_nat (length sd) :: u64) = length sd" using len by (rule unat_u64_of_nat)
  obtain d where d: "idx_cursor_u64le c = Inr (word_of_nat (length sd), d)" "unread d = sd @ rest"
    using consumes_u64 [of "word_of_nat (length sd)"] c unfolding consumes_def seed_bytes_def by fastforce
  have "length sd \<le> idx_cursor_remaining d"
    using d(2) by (simp add: idx_cursor_remaining_def unread_def flip: length_drop)
  then show "\<exists>d. read_seed c = Inr (sd, d) \<and> unread d = rest"
    using d n by (simp add: read_seed_def idx_cursor_take_eq unread_advance)
qed

lemma decode_operands:
  assumes wf: "wf_system kind operands" and named: "named_accounts tx ix (operand_accounts operands)"
    and c: "unread c = operand_bytes operands @ extra"
  shows "decode_system_operands tx ix kind c = Inr operands"
proof -
  note rules = try_account try_read [OF consumes_u64] try_pubkey try_read [OF consumes_seed]
  show ?thesis using wf named c
    by (cases operands) (auto simp: decode_system_operands_def named_accounts_def intro!: rules split: option.splits if_splits)
qed

lemma seed_Inr: "read_seed c = Inr (sd, d) \<Longrightarrow> unread c = seed_bytes sd @ unread d \<and> length sd < 2 ^ 64"
proof -
  assume "read_seed c = Inr (sd, d)"
  then obtain len e where len: "idx_cursor_u64le c = Inr (len, e)" and sd: "idx_cursor_take e (unat len) = Inr (sd, d)"
    by (auto simp: read_seed_def idx_try_Inr_iff split: if_splits)
  have "length sd = unat len" "unread e = sd @ unread d" using take_Inr [OF sd] by simp_all
  moreover have "unread c = u64_bytes len @ unread e" by (rule u64_Inr [OF len])
  ultimately show ?thesis using unat_u64 [of len] by (simp add: seed_bytes_def)
qed

lemma decode_operands_Inr:
  "decode_system_operands tx ix kind c = Inr operands \<Longrightarrow>
     wf_system kind operands \<and> named_accounts tx ix (operand_accounts operands) \<and>
     (\<exists>extra. unread c = operand_bytes operands @ extra)"
  by (cases kind)
    (fastforce simp: decode_system_operands_def idx_try_Inr_iff account_Inr named_accounts_def
      dest!: u64_Inr pubkey_Inr seed_Inr)+

lemma kind_number_unique: "n \<le> 12 \<Longrightarrow> kind_number (system_kinds ! unat n) = n"
proof -
  have "\<forall>i \<in> {..12}. kind_number (system_kinds ! i) = word_of_nat i"
    by (simp add: kind_number_def system_kinds_def eval_nat_numeral atMost_Suc)
  then show "n \<le> 12 \<Longrightarrow> kind_number (system_kinds ! unat n) = n" by (simp add: word_le_nat_alt)
qed

section \<open>Properties\<close>

text \<open>
  The System decoder inverts the wire format. It yields an instruction exactly when the
  data start with that instruction's bytes as the runtime writes them, the operands fit the
  kind, and each named operand is the key of the account at its position; trailing bytes are
  ignored.
\<close>

theorem system_decode_iff:
  "idx_system_instruction_decode (Some tx) (Some ix) = Inr i \<longleftrightarrow>
     wf_system (sys_kind i) (sys_operands i) \<and> named_accounts tx ix (operand_accounts (sys_operands i)) \<and>
     (\<exists>extra. ix_data ix = system_bytes i @ extra)"
proof
  assume "idx_system_instruction_decode (Some tx) (Some ix) = Inr i"
  then obtain n c operands where n: "idx_cursor_u32le (idx_cursor_init (ix_data ix)) = Inr (n, c)" "n \<le> 12"
    and ops: "decode_system_operands tx ix (system_kinds ! unat n) c = Inr operands"
    and i: "i = \<lparr>sys_kind = system_kinds ! unat n, sys_operands = operands\<rparr>"
    by (auto simp: idx_try_Inr_iff Let_def not_less split: if_splits)
  have "ix_data ix = u32_bytes n @ unread c" using u32_Inr [OF n(1)] by (simp add: unread_init)
  then show "wf_system (sys_kind i) (sys_operands i) \<and> named_accounts tx ix (operand_accounts (sys_operands i)) \<and>
     (\<exists>extra. ix_data ix = system_bytes i @ extra)"
    using decode_operands_Inr [OF ops] i kind_number_unique [OF n(2)] by (auto simp: system_bytes_def)
next
  assume "wf_system (sys_kind i) (sys_operands i) \<and> named_accounts tx ix (operand_accounts (sys_operands i)) \<and>
     (\<exists>extra. ix_data ix = system_bytes i @ extra)"
  then obtain extra where wf: "wf_system (sys_kind i) (sys_operands i)"
    "named_accounts tx ix (operand_accounts (sys_operands i))"
    and data: "ix_data ix = u32_bytes (kind_number (sys_kind i)) @ operand_bytes (sys_operands i) @ extra"
    by (auto simp: system_bytes_def)
  obtain c where c: "idx_cursor_u32le (idx_cursor_init (ix_data ix)) = Inr (kind_number (sys_kind i), c)"
    "unread c = operand_bytes (sys_operands i) @ extra"
    using consumes_u32 data unfolding consumes_def by (metis unread_init)
  show "idx_system_instruction_decode (Some tx) (Some ix) = Inr i"
    using c(1) kind_number_nth [of "sys_kind i"] decode_operands [OF wf c(2)] by (simp add: Let_def not_less)
qed

end
