(* ===== verification/TokenProgram.thy ===== *)
theory TokenProgram
  imports InstructionData
begin

text \<open>
  The instructions of the SPL Token program, which Token-2022 shares
  (\<^verbatim>\<open>src/token_program.c\<close>, \<^verbatim>\<open>include/token_program.h\<close>). The union is a datatype with one
  constructor per member; an optional key of the data is an option, and a pointer into the
  accounts is the key it points to.
\<close>

section \<open>Model\<close>

datatype idx_token_ix_kind =
    IDX_TOKEN_IX_INITIALIZE_MINT
  | IDX_TOKEN_IX_INITIALIZE_ACCOUNT
  | IDX_TOKEN_IX_INITIALIZE_MULTISIG
  | IDX_TOKEN_IX_TRANSFER
  | IDX_TOKEN_IX_APPROVE
  | IDX_TOKEN_IX_REVOKE
  | IDX_TOKEN_IX_SET_AUTHORITY
  | IDX_TOKEN_IX_MINT_TO
  | IDX_TOKEN_IX_BURN
  | IDX_TOKEN_IX_CLOSE_ACCOUNT
  | IDX_TOKEN_IX_FREEZE_ACCOUNT
  | IDX_TOKEN_IX_THAW_ACCOUNT
  | IDX_TOKEN_IX_TRANSFER_CHECKED
  | IDX_TOKEN_IX_APPROVE_CHECKED
  | IDX_TOKEN_IX_MINT_TO_CHECKED
  | IDX_TOKEN_IX_BURN_CHECKED
  | IDX_TOKEN_IX_INITIALIZE_ACCOUNT2
  | IDX_TOKEN_IX_SYNC_NATIVE
  | IDX_TOKEN_IX_INITIALIZE_ACCOUNT3
  | IDX_TOKEN_IX_INITIALIZE_MULTISIG2
  | IDX_TOKEN_IX_INITIALIZE_MINT2
  | IDX_TOKEN_IX_GET_ACCOUNT_DATA_SIZE
  | IDX_TOKEN_IX_INITIALIZE_IMMUTABLE_OWNER
  | IDX_TOKEN_IX_AMOUNT_TO_UI_AMOUNT
  | IDX_TOKEN_IX_UI_AMOUNT_TO_AMOUNT

text \<open>The kinds in the order of their numbers, which start at zero.\<close>

definition token_kinds :: "idx_token_ix_kind list" where
  "token_kinds = [IDX_TOKEN_IX_INITIALIZE_MINT, IDX_TOKEN_IX_INITIALIZE_ACCOUNT, IDX_TOKEN_IX_INITIALIZE_MULTISIG,
     IDX_TOKEN_IX_TRANSFER, IDX_TOKEN_IX_APPROVE, IDX_TOKEN_IX_REVOKE,
     IDX_TOKEN_IX_SET_AUTHORITY, IDX_TOKEN_IX_MINT_TO, IDX_TOKEN_IX_BURN,
     IDX_TOKEN_IX_CLOSE_ACCOUNT, IDX_TOKEN_IX_FREEZE_ACCOUNT, IDX_TOKEN_IX_THAW_ACCOUNT,
     IDX_TOKEN_IX_TRANSFER_CHECKED, IDX_TOKEN_IX_APPROVE_CHECKED, IDX_TOKEN_IX_MINT_TO_CHECKED,
     IDX_TOKEN_IX_BURN_CHECKED, IDX_TOKEN_IX_INITIALIZE_ACCOUNT2, IDX_TOKEN_IX_SYNC_NATIVE,
     IDX_TOKEN_IX_INITIALIZE_ACCOUNT3, IDX_TOKEN_IX_INITIALIZE_MULTISIG2, IDX_TOKEN_IX_INITIALIZE_MINT2,
     IDX_TOKEN_IX_GET_ACCOUNT_DATA_SIZE, IDX_TOKEN_IX_INITIALIZE_IMMUTABLE_OWNER, IDX_TOKEN_IX_AMOUNT_TO_UI_AMOUNT,
     IDX_TOKEN_IX_UI_AMOUNT_TO_AMOUNT]"

definition idx_token_ix_kind_name :: "idx_token_ix_kind \<Rightarrow> string" where
  "idx_token_ix_kind_name kind = (case kind of
      IDX_TOKEN_IX_INITIALIZE_MINT \<Rightarrow> ''InitializeMint''
    | IDX_TOKEN_IX_INITIALIZE_ACCOUNT \<Rightarrow> ''InitializeAccount''
    | IDX_TOKEN_IX_INITIALIZE_MULTISIG \<Rightarrow> ''InitializeMultisig''
    | IDX_TOKEN_IX_TRANSFER \<Rightarrow> ''Transfer''
    | IDX_TOKEN_IX_APPROVE \<Rightarrow> ''Approve''
    | IDX_TOKEN_IX_REVOKE \<Rightarrow> ''Revoke''
    | IDX_TOKEN_IX_SET_AUTHORITY \<Rightarrow> ''SetAuthority''
    | IDX_TOKEN_IX_MINT_TO \<Rightarrow> ''MintTo''
    | IDX_TOKEN_IX_BURN \<Rightarrow> ''Burn''
    | IDX_TOKEN_IX_CLOSE_ACCOUNT \<Rightarrow> ''CloseAccount''
    | IDX_TOKEN_IX_FREEZE_ACCOUNT \<Rightarrow> ''FreezeAccount''
    | IDX_TOKEN_IX_THAW_ACCOUNT \<Rightarrow> ''ThawAccount''
    | IDX_TOKEN_IX_TRANSFER_CHECKED \<Rightarrow> ''TransferChecked''
    | IDX_TOKEN_IX_APPROVE_CHECKED \<Rightarrow> ''ApproveChecked''
    | IDX_TOKEN_IX_MINT_TO_CHECKED \<Rightarrow> ''MintToChecked''
    | IDX_TOKEN_IX_BURN_CHECKED \<Rightarrow> ''BurnChecked''
    | IDX_TOKEN_IX_INITIALIZE_ACCOUNT2 \<Rightarrow> ''InitializeAccount2''
    | IDX_TOKEN_IX_SYNC_NATIVE \<Rightarrow> ''SyncNative''
    | IDX_TOKEN_IX_INITIALIZE_ACCOUNT3 \<Rightarrow> ''InitializeAccount3''
    | IDX_TOKEN_IX_INITIALIZE_MULTISIG2 \<Rightarrow> ''InitializeMultisig2''
    | IDX_TOKEN_IX_INITIALIZE_MINT2 \<Rightarrow> ''InitializeMint2''
    | IDX_TOKEN_IX_GET_ACCOUNT_DATA_SIZE \<Rightarrow> ''GetAccountDataSize''
    | IDX_TOKEN_IX_INITIALIZE_IMMUTABLE_OWNER \<Rightarrow> ''InitializeImmutableOwner''
    | IDX_TOKEN_IX_AMOUNT_TO_UI_AMOUNT \<Rightarrow> ''AmountToUiAmount''
    | IDX_TOKEN_IX_UI_AMOUNT_TO_AMOUNT \<Rightarrow> ''UiAmountToAmount'')"

definition idx_token_authority_type_name :: "byte \<Rightarrow> string" where
  "idx_token_authority_type_name type =
     (if type = 0 then ''MintTokens''
      else if type = 1 then ''FreezeAccount''
      else if type = 2 then ''AccountOwner''
      else if type = 3 then ''CloseAccount''
      else ''unknown'')"

fun idx_token_program_matches :: "idx_pubkey option \<Rightarrow> bool" where
  "idx_token_program_matches None = False"
| "idx_token_program_matches (Some program_id) =
     (idx_pubkey_equal program_id IDX_PROGRAM_TOKEN \<or> idx_pubkey_equal program_id IDX_PROGRAM_TOKEN_2022)"

datatype idx_token_operands =
    Initialize_mint (mint: idx_pubkey) (mint_authority: idx_pubkey) (freeze_authority: "idx_pubkey option")
      (decimals: byte)
  | Initialize_account (account: idx_pubkey) (mint: idx_pubkey) (owner_account: "idx_pubkey option")
      (owner: idx_pubkey)
  | Initialize_multisig (multisig: idx_pubkey) (signers: "byte list") (required_signatures: byte)
  | Token_transfer (source: idx_pubkey) (destination: idx_pubkey) (authority: idx_pubkey)
      (named_mint: "idx_pubkey option") (amount: u64) (decimals: byte) (has_decimals: bool)
  | Approve (source: idx_pubkey) (delegate: idx_pubkey) (owner: idx_pubkey)
      (named_mint: "idx_pubkey option") (amount: u64) (decimals: byte) (has_decimals: bool)
  | Revoke (source: idx_pubkey) (owner: idx_pubkey)
  | Set_authority (account: idx_pubkey) (authority: idx_pubkey) (new_authority: "idx_pubkey option")
      (authority_type: byte)
  | Mint_to (mint: idx_pubkey) (account: idx_pubkey) (authority: idx_pubkey) (amount: u64) (decimals: byte)
      (has_decimals: bool)
  | Burn (account: idx_pubkey) (mint: idx_pubkey) (authority: idx_pubkey) (amount: u64) (decimals: byte)
      (has_decimals: bool)
  | Close_account (account: idx_pubkey) (destination: idx_pubkey) (owner: idx_pubkey)
  | Freeze_account (account: idx_pubkey) (mint: idx_pubkey) (authority: idx_pubkey)
  | Account_only (account: idx_pubkey)
  | Mint_query (mint: idx_pubkey) (amount: u64)
  | Ui_amount_to_amount (mint: idx_pubkey) (ui_amount: idx_slice)

record idx_token_instruction =
  tok_kind :: idx_token_ix_kind
  tok_operands :: idx_token_operands

definition read_optional_pubkey :: "idx_cursor \<Rightarrow> (idx_pubkey option \<times> idx_cursor) result" where
  "read_optional_pubkey cursor = idx_try (idx_cursor_u8 cursor) (\<lambda>(tag, cursor).
     if tag = 0 then Inr (None, cursor)
     else if tag \<noteq> 1 then Inl IDX_ERR_PARSE
     else idx_try (read_pubkey cursor) (\<lambda>(k, cursor). Inr (Some k, cursor)))"

text \<open>The amount, the decimals (zero when not read) and whether they were read.\<close>

definition read_amount :: "idx_cursor \<Rightarrow> bool \<Rightarrow> ((u64 \<times> byte \<times> bool) \<times> idx_cursor) result" where
  "read_amount cursor checked = idx_try (idx_cursor_u64le cursor) (\<lambda>(amt, cursor).
     if \<not> checked then Inr ((amt, 0, False), cursor)
     else idx_try (idx_cursor_u8 cursor) (\<lambda>(dec, cursor). Inr ((amt, dec, True), cursor)))"

definition decode_initialize_mint ::
    "idx_transaction \<Rightarrow> idx_instruction \<Rightarrow> idx_cursor \<Rightarrow> idx_token_operands result" where
  "decode_initialize_mint tx ix cursor =
     idx_try (require_account tx ix 0) (\<lambda>mnt.
     idx_try (idx_cursor_u8 cursor) (\<lambda>(dec, cursor).
     idx_try (read_pubkey cursor) (\<lambda>(auth, cursor).
     idx_try (read_optional_pubkey cursor) (\<lambda>(freeze, cursor).
     Inr (Initialize_mint mnt auth freeze dec)))))"

definition decode_initialize_account ::
    "idx_transaction \<Rightarrow> idx_instruction \<Rightarrow> idx_token_ix_kind \<Rightarrow> idx_cursor \<Rightarrow> idx_token_operands result" where
  "decode_initialize_account tx ix kind cursor =
     idx_try (require_account tx ix 0) (\<lambda>acct.
     idx_try (require_account tx ix 1) (\<lambda>mnt.
     if kind \<noteq> IDX_TOKEN_IX_INITIALIZE_ACCOUNT
     then idx_try (read_pubkey cursor) (\<lambda>(own, cursor). Inr (Initialize_account acct mnt None own))
     else idx_try (require_account tx ix 2) (\<lambda>own. Inr (Initialize_account acct mnt (Some own) own))))"

definition decode_initialize_multisig ::
    "idx_transaction \<Rightarrow> idx_instruction \<Rightarrow> idx_token_ix_kind \<Rightarrow> idx_cursor \<Rightarrow> idx_token_operands result" where
  "decode_initialize_multisig tx ix kind cursor =
     idx_try (require_account tx ix 0) (\<lambda>multi.
     idx_try (idx_cursor_u8 cursor) (\<lambda>(required, cursor).
     let first_signer = (if kind = IDX_TOKEN_IX_INITIALIZE_MULTISIG then 2 else 1) in
     Inr (Initialize_multisig multi
       (if length (account_indices ix) > first_signer then drop first_signer (account_indices ix) else [])
       required)))"

definition decode_token_operands ::
    "idx_transaction \<Rightarrow> idx_instruction \<Rightarrow> idx_token_ix_kind \<Rightarrow> idx_cursor \<Rightarrow> idx_token_operands result" where
  "decode_token_operands tx ix kind cursor =
     (if kind = IDX_TOKEN_IX_INITIALIZE_MINT \<or> kind = IDX_TOKEN_IX_INITIALIZE_MINT2 then
        decode_initialize_mint tx ix cursor
      else if kind = IDX_TOKEN_IX_INITIALIZE_ACCOUNT \<or> kind = IDX_TOKEN_IX_INITIALIZE_ACCOUNT2 \<or>
              kind = IDX_TOKEN_IX_INITIALIZE_ACCOUNT3 then
        decode_initialize_account tx ix kind cursor
      else if kind = IDX_TOKEN_IX_INITIALIZE_MULTISIG \<or> kind = IDX_TOKEN_IX_INITIALIZE_MULTISIG2 then
        decode_initialize_multisig tx ix kind cursor
      else if kind = IDX_TOKEN_IX_TRANSFER then
        idx_try (require_account tx ix 0) (\<lambda>src.
        idx_try (require_account tx ix 1) (\<lambda>dst.
        idx_try (require_account tx ix 2) (\<lambda>auth.
        idx_try (read_amount cursor False) (\<lambda>((amt, dec, has), cursor).
        Inr (Token_transfer src dst auth None amt dec has)))))
      else if kind = IDX_TOKEN_IX_TRANSFER_CHECKED then
        idx_try (require_account tx ix 0) (\<lambda>src.
        idx_try (require_account tx ix 1) (\<lambda>mnt.
        idx_try (require_account tx ix 2) (\<lambda>dst.
        idx_try (require_account tx ix 3) (\<lambda>auth.
        idx_try (read_amount cursor True) (\<lambda>((amt, dec, has), cursor).
        Inr (Token_transfer src dst auth (Some mnt) amt dec has))))))
      else if kind = IDX_TOKEN_IX_APPROVE then
        idx_try (require_account tx ix 0) (\<lambda>src.
        idx_try (require_account tx ix 1) (\<lambda>del.
        idx_try (require_account tx ix 2) (\<lambda>own.
        idx_try (read_amount cursor False) (\<lambda>((amt, dec, has), cursor).
        Inr (Approve src del own None amt dec has)))))
      else if kind = IDX_TOKEN_IX_APPROVE_CHECKED then
        idx_try (require_account tx ix 0) (\<lambda>src.
        idx_try (require_account tx ix 1) (\<lambda>mnt.
        idx_try (require_account tx ix 2) (\<lambda>del.
        idx_try (require_account tx ix 3) (\<lambda>own.
        idx_try (read_amount cursor True) (\<lambda>((amt, dec, has), cursor).
        Inr (Approve src del own (Some mnt) amt dec has))))))
      else if kind = IDX_TOKEN_IX_REVOKE then
        idx_try (require_account tx ix 0) (\<lambda>src.
        idx_try (require_account tx ix 1) (\<lambda>own.
        Inr (Revoke src own)))
      else if kind = IDX_TOKEN_IX_SET_AUTHORITY then
        idx_try (require_account tx ix 0) (\<lambda>acct.
        idx_try (require_account tx ix 1) (\<lambda>auth.
        idx_try (idx_cursor_u8 cursor) (\<lambda>(type, cursor).
        idx_try (read_optional_pubkey cursor) (\<lambda>(new, cursor).
        Inr (Set_authority acct auth new type)))))
      else if kind = IDX_TOKEN_IX_MINT_TO \<or> kind = IDX_TOKEN_IX_MINT_TO_CHECKED then
        idx_try (require_account tx ix 0) (\<lambda>mnt.
        idx_try (require_account tx ix 1) (\<lambda>acct.
        idx_try (require_account tx ix 2) (\<lambda>auth.
        idx_try (read_amount cursor (kind = IDX_TOKEN_IX_MINT_TO_CHECKED)) (\<lambda>((amt, dec, has), cursor).
        Inr (Mint_to mnt acct auth amt dec has)))))
      else if kind = IDX_TOKEN_IX_BURN \<or> kind = IDX_TOKEN_IX_BURN_CHECKED then
        idx_try (require_account tx ix 0) (\<lambda>acct.
        idx_try (require_account tx ix 1) (\<lambda>mnt.
        idx_try (require_account tx ix 2) (\<lambda>auth.
        idx_try (read_amount cursor (kind = IDX_TOKEN_IX_BURN_CHECKED)) (\<lambda>((amt, dec, has), cursor).
        Inr (Burn acct mnt auth amt dec has)))))
      else if kind = IDX_TOKEN_IX_CLOSE_ACCOUNT then
        idx_try (require_account tx ix 0) (\<lambda>acct.
        idx_try (require_account tx ix 1) (\<lambda>dst.
        idx_try (require_account tx ix 2) (\<lambda>own.
        Inr (Close_account acct dst own))))
      else if kind = IDX_TOKEN_IX_FREEZE_ACCOUNT \<or> kind = IDX_TOKEN_IX_THAW_ACCOUNT then
        idx_try (require_account tx ix 0) (\<lambda>acct.
        idx_try (require_account tx ix 1) (\<lambda>mnt.
        idx_try (require_account tx ix 2) (\<lambda>auth.
        Inr (Freeze_account acct mnt auth))))
      else if kind = IDX_TOKEN_IX_SYNC_NATIVE \<or> kind = IDX_TOKEN_IX_INITIALIZE_IMMUTABLE_OWNER then
        idx_try (require_account tx ix 0) (\<lambda>acct. Inr (Account_only acct))
      else if kind = IDX_TOKEN_IX_GET_ACCOUNT_DATA_SIZE then
        idx_try (require_account tx ix 0) (\<lambda>mnt. Inr (Mint_query mnt 0))
      else if kind = IDX_TOKEN_IX_AMOUNT_TO_UI_AMOUNT then
        idx_try (require_account tx ix 0) (\<lambda>mnt.
        idx_try (idx_cursor_u64le cursor) (\<lambda>(amt, cursor).
        Inr (Mint_query mnt amt)))
      else if kind = IDX_TOKEN_IX_UI_AMOUNT_TO_AMOUNT then
        idx_try (require_account tx ix 0) (\<lambda>mnt.
        idx_try (idx_cursor_take cursor (idx_cursor_remaining cursor)) (\<lambda>(txt, cursor).
        Inr (Ui_amount_to_amount mnt txt)))
      else Inl IDX_ERR_INTERNAL)"

fun idx_token_instruction_decode ::
    "idx_transaction option \<Rightarrow> idx_instruction option \<Rightarrow> idx_token_instruction result" where
  "idx_token_instruction_decode (Some tx) (Some ix) =
     idx_try (idx_cursor_u8 (idx_cursor_init (ix_data ix))) (\<lambda>(discriminant, cursor).
     if discriminant > 24 then Inl IDX_ERR_NOT_FOUND
     else let kind = token_kinds ! unat discriminant in
       idx_try (decode_token_operands tx ix kind cursor) (\<lambda>operands.
       Inr \<lparr>tok_kind = kind, tok_operands = operands\<rparr>))"
| "idx_token_instruction_decode _ _ = Inl IDX_ERR_INVALID_ARG"

section \<open>Wire form\<close>

definition token_kind_number :: "idx_token_ix_kind \<Rightarrow> byte" where
  "token_kind_number kind = word_of_nat (length (takeWhile (\<lambda>k. k \<noteq> kind) token_kinds))"

fun optional_key_bytes :: "idx_pubkey option \<Rightarrow> bytes" where
  "optional_key_bytes None = [0]"
| "optional_key_bytes (Some k) = 1 # k"

definition amount_bytes :: "u64 \<Rightarrow> byte \<Rightarrow> bool \<Rightarrow> bytes" where
  "amount_bytes amt dec has = u64_bytes amt @ (if has then [dec] else [])"

fun token_operand_bytes :: "idx_token_ix_kind \<Rightarrow> idx_token_operands \<Rightarrow> bytes" where
  "token_operand_bytes kind (Initialize_mint _ auth freeze dec) = dec # auth @ optional_key_bytes freeze"
| "token_operand_bytes kind (Initialize_account _ _ named own) = (if named = None then own else [])"
| "token_operand_bytes kind (Initialize_multisig _ _ required) = [required]"
| "token_operand_bytes kind (Token_transfer _ _ _ _ amt dec has) = amount_bytes amt dec has"
| "token_operand_bytes kind (Approve _ _ _ _ amt dec has) = amount_bytes amt dec has"
| "token_operand_bytes kind (Revoke _ _) = []"
| "token_operand_bytes kind (Set_authority _ _ new type) = type # optional_key_bytes new"
| "token_operand_bytes kind (Mint_to _ _ _ amt dec has) = amount_bytes amt dec has"
| "token_operand_bytes kind (Burn _ _ _ amt dec has) = amount_bytes amt dec has"
| "token_operand_bytes kind (Close_account _ _ _) = []"
| "token_operand_bytes kind (Freeze_account _ _ _) = []"
| "token_operand_bytes kind (Account_only _) = []"
| "token_operand_bytes kind (Mint_query _ amt) =
     (if kind = IDX_TOKEN_IX_AMOUNT_TO_UI_AMOUNT then u64_bytes amt else [])"
| "token_operand_bytes kind (Ui_amount_to_amount _ txt) = txt"

fun token_accounts :: "idx_token_operands \<Rightarrow> (nat \<times> idx_pubkey) list" where
  "token_accounts (Initialize_mint mnt _ _ _) = [(0, mnt)]"
| "token_accounts (Initialize_account acct mnt named _) =
     [(0, acct), (1, mnt)] @ (case named of None \<Rightarrow> [] | Some own \<Rightarrow> [(2, own)])"
| "token_accounts (Initialize_multisig multi _ _) = [(0, multi)]"
| "token_accounts (Token_transfer src dst auth checked _ _ _) =
     (case checked of None \<Rightarrow> [(0, src), (1, dst), (2, auth)] | Some mnt \<Rightarrow> [(0, src), (1, mnt), (2, dst), (3, auth)])"
| "token_accounts (Approve src del own checked _ _ _) =
     (case checked of None \<Rightarrow> [(0, src), (1, del), (2, own)] | Some mnt \<Rightarrow> [(0, src), (1, mnt), (2, del), (3, own)])"
| "token_accounts (Revoke src own) = [(0, src), (1, own)]"
| "token_accounts (Set_authority acct auth _ _) = [(0, acct), (1, auth)]"
| "token_accounts (Mint_to mnt acct auth _ _ _) = [(0, mnt), (1, acct), (2, auth)]"
| "token_accounts (Burn acct mnt auth _ _ _) = [(0, acct), (1, mnt), (2, auth)]"
| "token_accounts (Close_account acct dst own) = [(0, acct), (1, dst), (2, own)]"
| "token_accounts (Freeze_account acct mnt auth) = [(0, acct), (1, mnt), (2, auth)]"
| "token_accounts (Account_only acct) = [(0, acct)]"
| "token_accounts (Mint_query mnt _) = [(0, mnt)]"
| "token_accounts (Ui_amount_to_amount mnt _) = [(0, mnt)]"

text \<open>Decimals belong to the checked form and are zero otherwise.\<close>

definition amount_ok :: "bool \<Rightarrow> byte \<Rightarrow> bool \<Rightarrow> bool" where
  "amount_ok checked dec has \<longleftrightarrow> has = checked \<and> (checked \<or> dec = 0)"

definition optional_key_ok :: "idx_pubkey option \<Rightarrow> bool" where
  "optional_key_ok k \<longleftrightarrow> (case k of None \<Rightarrow> True | Some key \<Rightarrow> key_ok key)"

text \<open>Which operands a kind has; \<open>rest\<close> is what the data hold behind them.\<close>

fun wf_token :: "idx_instruction \<Rightarrow> idx_token_ix_kind \<Rightarrow> idx_token_operands \<Rightarrow> bytes \<Rightarrow> bool" where
  "wf_token ix kind (Initialize_mint _ auth freeze _) rest \<longleftrightarrow>
     (kind = IDX_TOKEN_IX_INITIALIZE_MINT \<or> kind = IDX_TOKEN_IX_INITIALIZE_MINT2) \<and> key_ok auth \<and> optional_key_ok freeze"
| "wf_token ix kind (Initialize_account _ _ named own) rest \<longleftrightarrow>
     (if named = None then (kind = IDX_TOKEN_IX_INITIALIZE_ACCOUNT2 \<or> kind = IDX_TOKEN_IX_INITIALIZE_ACCOUNT3) \<and> key_ok own
      else kind = IDX_TOKEN_IX_INITIALIZE_ACCOUNT \<and> named = Some own)"
| "wf_token ix kind (Initialize_multisig _ sigs _) rest \<longleftrightarrow>
     kind = IDX_TOKEN_IX_INITIALIZE_MULTISIG \<and> sigs = drop 2 (account_indices ix) \<or>
     kind = IDX_TOKEN_IX_INITIALIZE_MULTISIG2 \<and> sigs = drop 1 (account_indices ix)"
| "wf_token ix kind (Token_transfer _ _ _ checked _ dec has) rest \<longleftrightarrow>
     kind = (if checked = None then IDX_TOKEN_IX_TRANSFER else IDX_TOKEN_IX_TRANSFER_CHECKED) \<and>
     amount_ok (checked \<noteq> None) dec has"
| "wf_token ix kind (Approve _ _ _ checked _ dec has) rest \<longleftrightarrow>
     kind = (if checked = None then IDX_TOKEN_IX_APPROVE else IDX_TOKEN_IX_APPROVE_CHECKED) \<and>
     amount_ok (checked \<noteq> None) dec has"
| "wf_token ix kind (Revoke _ _) rest \<longleftrightarrow> kind = IDX_TOKEN_IX_REVOKE"
| "wf_token ix kind (Set_authority _ _ new _) rest \<longleftrightarrow> kind = IDX_TOKEN_IX_SET_AUTHORITY \<and> optional_key_ok new"
| "wf_token ix kind (Mint_to _ _ _ _ dec has) rest \<longleftrightarrow>
     kind = (if has then IDX_TOKEN_IX_MINT_TO_CHECKED else IDX_TOKEN_IX_MINT_TO) \<and> amount_ok has dec has"
| "wf_token ix kind (Burn _ _ _ _ dec has) rest \<longleftrightarrow>
     kind = (if has then IDX_TOKEN_IX_BURN_CHECKED else IDX_TOKEN_IX_BURN) \<and> amount_ok has dec has"
| "wf_token ix kind (Close_account _ _ _) rest \<longleftrightarrow> kind = IDX_TOKEN_IX_CLOSE_ACCOUNT"
| "wf_token ix kind (Freeze_account _ _ _) rest \<longleftrightarrow>
     kind = IDX_TOKEN_IX_FREEZE_ACCOUNT \<or> kind = IDX_TOKEN_IX_THAW_ACCOUNT"
| "wf_token ix kind (Account_only _) rest \<longleftrightarrow>
     kind = IDX_TOKEN_IX_SYNC_NATIVE \<or> kind = IDX_TOKEN_IX_INITIALIZE_IMMUTABLE_OWNER"
| "wf_token ix kind (Mint_query _ amt) rest \<longleftrightarrow>
     kind = IDX_TOKEN_IX_AMOUNT_TO_UI_AMOUNT \<or> kind = IDX_TOKEN_IX_GET_ACCOUNT_DATA_SIZE \<and> amt = 0"
| "wf_token ix kind (Ui_amount_to_amount _ _) rest \<longleftrightarrow> kind = IDX_TOKEN_IX_UI_AMOUNT_TO_AMOUNT \<and> rest = []"

definition token_bytes :: "idx_token_instruction \<Rightarrow> bytes" where
  "token_bytes i = token_kind_number (tok_kind i) # token_operand_bytes (tok_kind i) (tok_operands i)"

lemma token_kind_nth: "token_kind_number kind \<le> 24 \<and> token_kinds ! unat (token_kind_number kind) = kind"
  by (cases kind) (simp_all add: token_kind_number_def token_kinds_def)

lemma token_kind_unique: "n \<le> 24 \<Longrightarrow> token_kind_number (token_kinds ! unat n) = n"
proof -
  have "\<forall>i \<in> {..24}. token_kind_number (token_kinds ! i) = word_of_nat i"
    by (simp add: token_kind_number_def token_kinds_def eval_nat_numeral atMost_Suc)
  then show "n \<le> 24 \<Longrightarrow> token_kind_number (token_kinds ! unat n) = n" by (simp add: word_le_nat_alt)
qed

lemma consumes_optional: "optional_key_ok k \<Longrightarrow> consumes read_optional_pubkey k (optional_key_bytes k)"
proof (cases k)
  case None
  then show ?thesis using consumes_u8 [of 0] by (fastforce simp: consumes_def read_optional_pubkey_def)
next
  case (Some key)
  assume "optional_key_ok k"
  then have "consumes read_pubkey key key" using Some by (simp add: optional_key_ok_def consumes_pubkey)
  then show ?thesis using Some consumes_u8 [of 1] by (fastforce simp: consumes_def read_optional_pubkey_def)
qed

lemma consumes_amount:
  "amount_ok checked dec has \<Longrightarrow> consumes (\<lambda>c. read_amount c checked) (amt, dec, has) (amount_bytes amt dec has)"
  using consumes_u64 [of amt] consumes_u8 [of dec]
  by (fastforce simp: consumes_def read_amount_def amount_bytes_def amount_ok_def)

lemma try_optional:
  assumes "unread c = optional_key_bytes key @ rest" "optional_key_ok key" "\<And>d. unread d = rest \<Longrightarrow> k key d = Inr w"
  shows "idx_try (read_optional_pubkey c) (\<lambda>(x, d). k x d) = Inr w"
  by (rule try_read [OF consumes_optional [OF assms(2)] assms(1)]) (rule assms(3))

lemma try_amount:
  assumes "unread c = amount_bytes amt dec has @ rest" "amount_ok checked dec has"
    "\<And>d. unread d = rest \<Longrightarrow> k (amt, dec, has) d = Inr w"
  shows "idx_try (read_amount c checked) (\<lambda>(x, d). k x d) = Inr w"
  by (rule try_read [OF consumes_amount [OF assms(2)] assms(1)]) (rule assms(3))

lemma optional_Inr: "read_optional_pubkey c = Inr (k, d) \<Longrightarrow> unread c = optional_key_bytes k @ unread d \<and> optional_key_ok k"
  by (fastforce simp: read_optional_pubkey_def idx_try_Inr_iff optional_key_ok_def split: if_splits
      dest!: u8_Inr pubkey_Inr)

lemma amount_Inr:
  "read_amount c checked = Inr ((amt, dec, has), d) \<Longrightarrow>
     unread c = amount_bytes amt dec has @ unread d \<and> amount_ok checked dec has"
  by (fastforce simp: read_amount_def idx_try_Inr_iff amount_ok_def amount_bytes_def split: if_splits
      dest!: u8_Inr u64_Inr)

lemma decode_token_operands_wire:
  assumes wf: "wf_token ix kind operands extra" and named: "named_accounts tx ix (token_accounts operands)"
    and c: "unread c = token_operand_bytes kind operands @ extra"
  shows "decode_token_operands tx ix kind c = Inr operands"
proof -
  note defs = decode_token_operands_def decode_initialize_mint_def decode_initialize_account_def
    decode_initialize_multisig_def named_accounts_def take_remaining Let_def
  note rules = try_account try_read [OF consumes_u64] try_read [OF consumes_u8] try_pubkey try_optional try_amount
  show ?thesis using wf named c
    by (cases operands) (auto simp: defs intro!: rules split: option.splits if_splits)
qed

lemma decode_token_operands_Inr:
  "decode_token_operands tx ix kind c = Inr operands \<Longrightarrow>
     named_accounts tx ix (token_accounts operands) \<and>
     (\<exists>extra. unread c = token_operand_bytes kind operands @ extra \<and> wf_token ix kind operands extra)"
proof -
  assume run: "decode_token_operands tx ix kind c = Inr operands"
  note defs = decode_token_operands_def decode_initialize_mint_def decode_initialize_account_def
    decode_initialize_multisig_def idx_try_Inr_iff account_Inr named_accounts_def take_remaining
    amount_ok_def Let_def
  show ?thesis
  proof (cases kind)
    case IDX_TOKEN_IX_INITIALIZE_MULTISIG
    then show ?thesis using run by (fastforce simp: defs dest!: u8_Inr split: if_splits)
  next
    case IDX_TOKEN_IX_INITIALIZE_MULTISIG2
    then show ?thesis using run by (fastforce simp: defs dest!: u8_Inr split: if_splits)
  qed (use run in \<open>fastforce simp: defs dest!: u8_Inr u64_Inr pubkey_Inr optional_Inr amount_Inr\<close>)+
qed

text \<open>Only an unknown number is reported as not found.\<close>

lemma optional_Inl: "read_optional_pubkey c = Inl e \<Longrightarrow> e = IDX_ERR_RANGE \<or> e = IDX_ERR_PARSE"
  by (auto simp: read_optional_pubkey_def idx_try_Inl_iff dest: reader_Inl split: if_splits)

lemma amount_Inl: "read_amount c checked = Inl e \<Longrightarrow> e = IDX_ERR_RANGE"
  by (auto simp: read_amount_def idx_try_Inl_iff dest: reader_Inl split: if_splits)

lemma decode_token_operands_Inl:
  "decode_token_operands tx ix kind c = Inl e \<Longrightarrow> e = IDX_ERR_RANGE \<or> e = IDX_ERR_PARSE"
proof -
  assume run: "decode_token_operands tx ix kind c = Inl e"
  note defs = decode_token_operands_def decode_initialize_mint_def decode_initialize_account_def
    decode_initialize_multisig_def idx_try_Inl_iff Let_def
  show ?thesis
    by (cases kind) (use run in \<open>auto simp: defs dest: reader_Inl optional_Inl amount_Inl\<close>)
qed

lemma token_decode_Inl:
  "idx_token_instruction_decode (Some tx) (Some ix) = Inl e \<Longrightarrow>
     e = IDX_ERR_RANGE \<or> e = IDX_ERR_PARSE \<or> e = IDX_ERR_NOT_FOUND \<and> (\<exists>n rest. ix_data ix = n # rest \<and> n > 24)"
proof -
  assume run: "idx_token_instruction_decode (Some tx) (Some ix) = Inl e"
  show ?thesis
  proof (cases "idx_cursor_u8 (idx_cursor_init (ix_data ix))")
    case (Inl e')
    then show ?thesis using run by (auto dest: reader_Inl)
  next
    case (Inr r)
    obtain n c where r: "r = (n, c)" by (cases r)
    have "ix_data ix = n # unread c" using u8_Inr [OF Inr [unfolded r]] by (simp add: unread_init)
    then show ?thesis using run Inr r decode_token_operands_Inl
      by (fastforce simp: Let_def idx_try_Inl_iff split: if_splits)
  qed
qed

lemma token_not_found:
  assumes "ix_data ix = n # rest" "n > 24"
  shows "idx_token_instruction_decode (Some tx) (Some ix) = Inl IDX_ERR_NOT_FOUND"
proof -
  obtain c where "idx_cursor_u8 (idx_cursor_init (ix_data ix)) = Inr (n, c)"
    using consumes_u8 [of n] assms(1) unfolding consumes_def by (metis append_Cons append_Nil unread_init)
  then show ?thesis using assms(2) by simp
qed

section \<open>Properties\<close>

text \<open>
  C25: The token decoder inverts the wire format. It yields an instruction exactly when the data
  start with that instruction's bytes, the operands fit the kind (decimals and a mint account
  exactly in the checked forms, the owner account only in the first InitializeAccount), each
  named operand is the key at its position and multisig signers are the accounts after it;
  only UiAmountToAmount takes the whole rest of the data.
\<close>

theorem token_decode_iff:
  "idx_token_instruction_decode (Some tx) (Some ix) = Inr i \<longleftrightarrow>
     named_accounts tx ix (token_accounts (tok_operands i)) \<and>
     (\<exists>extra. ix_data ix = token_bytes i @ extra \<and> wf_token ix (tok_kind i) (tok_operands i) extra)"
proof
  assume "idx_token_instruction_decode (Some tx) (Some ix) = Inr i"
  then obtain n c operands where n: "idx_cursor_u8 (idx_cursor_init (ix_data ix)) = Inr (n, c)" "n \<le> 24"
    and ops: "decode_token_operands tx ix (token_kinds ! unat n) c = Inr operands"
    and i: "i = \<lparr>tok_kind = token_kinds ! unat n, tok_operands = operands\<rparr>"
    by (auto simp: idx_try_Inr_iff Let_def not_less split: if_splits)
  have "ix_data ix = n # unread c" using u8_Inr [OF n(1)] by (simp add: unread_init)
  then show "named_accounts tx ix (token_accounts (tok_operands i)) \<and>
     (\<exists>extra. ix_data ix = token_bytes i @ extra \<and> wf_token ix (tok_kind i) (tok_operands i) extra)"
    using decode_token_operands_Inr [OF ops] i token_kind_unique [OF n(2)] by (simp add: token_bytes_def)
next
  assume "named_accounts tx ix (token_accounts (tok_operands i)) \<and>
     (\<exists>extra. ix_data ix = token_bytes i @ extra \<and> wf_token ix (tok_kind i) (tok_operands i) extra)"
  then obtain extra where named: "named_accounts tx ix (token_accounts (tok_operands i))"
    and wf: "wf_token ix (tok_kind i) (tok_operands i) extra"
    and data: "ix_data ix = [token_kind_number (tok_kind i)] @ token_operand_bytes (tok_kind i) (tok_operands i) @ extra"
    by (auto simp: token_bytes_def)
  obtain c where c: "idx_cursor_u8 (idx_cursor_init (ix_data ix)) = Inr (token_kind_number (tok_kind i), c)"
    "unread c = token_operand_bytes (tok_kind i) (tok_operands i) @ extra"
    using consumes_u8 data unfolding consumes_def by (metis unread_init)
  show "idx_token_instruction_decode (Some tx) (Some ix) = Inr i"
    using c(1) token_kind_nth [of "tok_kind i"] decode_token_operands_wire [OF wf named c(2)]
    by (simp add: Let_def not_less)
qed

end
