(* ===== verification/Token2022.thy ===== *)
theory Token2022
  imports TokenProgram
begin

text \<open>
  The instructions Token-2022 has beyond the shared ones (\<^verbatim>\<open>src/token_2022.c\<close>,
  \<^verbatim>\<open>include/token_2022.h\<close>). The flag that says which half of the C structure is live is the
  constructor: a shared instruction, or an own kind with its operands. The payload of an
  extension group stays bytes, except for the transfer with a fee.
\<close>

section \<open>Model\<close>

datatype idx_token_2022_ix_kind =
    IDX_TOKEN_2022_IX_INITIALIZE_MINT_CLOSE_AUTHORITY
  | IDX_TOKEN_2022_IX_TRANSFER_FEE_EXTENSION
  | IDX_TOKEN_2022_IX_CONFIDENTIAL_TRANSFER_EXTENSION
  | IDX_TOKEN_2022_IX_DEFAULT_ACCOUNT_STATE_EXTENSION
  | IDX_TOKEN_2022_IX_REALLOCATE
  | IDX_TOKEN_2022_IX_MEMO_TRANSFER_EXTENSION
  | IDX_TOKEN_2022_IX_CREATE_NATIVE_MINT
  | IDX_TOKEN_2022_IX_INITIALIZE_NON_TRANSFERABLE_MINT
  | IDX_TOKEN_2022_IX_INTEREST_BEARING_MINT_EXTENSION
  | IDX_TOKEN_2022_IX_CPI_GUARD_EXTENSION
  | IDX_TOKEN_2022_IX_INITIALIZE_PERMANENT_DELEGATE
  | IDX_TOKEN_2022_IX_TRANSFER_HOOK_EXTENSION
  | IDX_TOKEN_2022_IX_CONFIDENTIAL_TRANSFER_FEE_EXTENSION
  | IDX_TOKEN_2022_IX_WITHDRAW_EXCESS_LAMPORTS
  | IDX_TOKEN_2022_IX_METADATA_POINTER_EXTENSION
  | IDX_TOKEN_2022_IX_GROUP_POINTER_EXTENSION
  | IDX_TOKEN_2022_IX_GROUP_MEMBER_POINTER_EXTENSION
  | IDX_TOKEN_2022_IX_CONFIDENTIAL_MINT_BURN_EXTENSION
  | IDX_TOKEN_2022_IX_SCALED_UI_AMOUNT_EXTENSION
  | IDX_TOKEN_2022_IX_PAUSABLE_EXTENSION

text \<open>The kinds in the order of their numbers, which start at 25.\<close>

definition token_2022_kinds :: "idx_token_2022_ix_kind list" where
  "token_2022_kinds = [
     IDX_TOKEN_2022_IX_INITIALIZE_MINT_CLOSE_AUTHORITY, IDX_TOKEN_2022_IX_TRANSFER_FEE_EXTENSION,
     IDX_TOKEN_2022_IX_CONFIDENTIAL_TRANSFER_EXTENSION, IDX_TOKEN_2022_IX_DEFAULT_ACCOUNT_STATE_EXTENSION,
     IDX_TOKEN_2022_IX_REALLOCATE, IDX_TOKEN_2022_IX_MEMO_TRANSFER_EXTENSION,
     IDX_TOKEN_2022_IX_CREATE_NATIVE_MINT, IDX_TOKEN_2022_IX_INITIALIZE_NON_TRANSFERABLE_MINT,
     IDX_TOKEN_2022_IX_INTEREST_BEARING_MINT_EXTENSION, IDX_TOKEN_2022_IX_CPI_GUARD_EXTENSION,
     IDX_TOKEN_2022_IX_INITIALIZE_PERMANENT_DELEGATE, IDX_TOKEN_2022_IX_TRANSFER_HOOK_EXTENSION,
     IDX_TOKEN_2022_IX_CONFIDENTIAL_TRANSFER_FEE_EXTENSION, IDX_TOKEN_2022_IX_WITHDRAW_EXCESS_LAMPORTS,
     IDX_TOKEN_2022_IX_METADATA_POINTER_EXTENSION, IDX_TOKEN_2022_IX_GROUP_POINTER_EXTENSION,
     IDX_TOKEN_2022_IX_GROUP_MEMBER_POINTER_EXTENSION, IDX_TOKEN_2022_IX_CONFIDENTIAL_MINT_BURN_EXTENSION,
     IDX_TOKEN_2022_IX_SCALED_UI_AMOUNT_EXTENSION, IDX_TOKEN_2022_IX_PAUSABLE_EXTENSION]"

definition idx_token_2022_ix_kind_name :: "idx_token_2022_ix_kind \<Rightarrow> string" where
  "idx_token_2022_ix_kind_name kind = (case kind of
      IDX_TOKEN_2022_IX_INITIALIZE_MINT_CLOSE_AUTHORITY \<Rightarrow> ''InitializeMintCloseAuthority''
    | IDX_TOKEN_2022_IX_TRANSFER_FEE_EXTENSION \<Rightarrow> ''TransferFeeExtension''
    | IDX_TOKEN_2022_IX_CONFIDENTIAL_TRANSFER_EXTENSION \<Rightarrow> ''ConfidentialTransferExtension''
    | IDX_TOKEN_2022_IX_DEFAULT_ACCOUNT_STATE_EXTENSION \<Rightarrow> ''DefaultAccountStateExtension''
    | IDX_TOKEN_2022_IX_REALLOCATE \<Rightarrow> ''Reallocate''
    | IDX_TOKEN_2022_IX_MEMO_TRANSFER_EXTENSION \<Rightarrow> ''MemoTransferExtension''
    | IDX_TOKEN_2022_IX_CREATE_NATIVE_MINT \<Rightarrow> ''CreateNativeMint''
    | IDX_TOKEN_2022_IX_INITIALIZE_NON_TRANSFERABLE_MINT \<Rightarrow> ''InitializeNonTransferableMint''
    | IDX_TOKEN_2022_IX_INTEREST_BEARING_MINT_EXTENSION \<Rightarrow> ''InterestBearingMintExtension''
    | IDX_TOKEN_2022_IX_CPI_GUARD_EXTENSION \<Rightarrow> ''CpiGuardExtension''
    | IDX_TOKEN_2022_IX_INITIALIZE_PERMANENT_DELEGATE \<Rightarrow> ''InitializePermanentDelegate''
    | IDX_TOKEN_2022_IX_TRANSFER_HOOK_EXTENSION \<Rightarrow> ''TransferHookExtension''
    | IDX_TOKEN_2022_IX_CONFIDENTIAL_TRANSFER_FEE_EXTENSION \<Rightarrow> ''ConfidentialTransferFeeExtension''
    | IDX_TOKEN_2022_IX_WITHDRAW_EXCESS_LAMPORTS \<Rightarrow> ''WithdrawExcessLamports''
    | IDX_TOKEN_2022_IX_METADATA_POINTER_EXTENSION \<Rightarrow> ''MetadataPointerExtension''
    | IDX_TOKEN_2022_IX_GROUP_POINTER_EXTENSION \<Rightarrow> ''GroupPointerExtension''
    | IDX_TOKEN_2022_IX_GROUP_MEMBER_POINTER_EXTENSION \<Rightarrow> ''GroupMemberPointerExtension''
    | IDX_TOKEN_2022_IX_CONFIDENTIAL_MINT_BURN_EXTENSION \<Rightarrow> ''ConfidentialMintBurnExtension''
    | IDX_TOKEN_2022_IX_SCALED_UI_AMOUNT_EXTENSION \<Rightarrow> ''ScaledUiAmountExtension''
    | IDX_TOKEN_2022_IX_PAUSABLE_EXTENSION \<Rightarrow> ''PausableExtension'')"

definition idx_token_2022_ix_is_extension :: "idx_token_2022_ix_kind \<Rightarrow> bool" where
  "idx_token_2022_ix_is_extension kind = (case kind of
      IDX_TOKEN_2022_IX_INITIALIZE_MINT_CLOSE_AUTHORITY \<Rightarrow> False
    | IDX_TOKEN_2022_IX_TRANSFER_FEE_EXTENSION \<Rightarrow> True
    | IDX_TOKEN_2022_IX_CONFIDENTIAL_TRANSFER_EXTENSION \<Rightarrow> True
    | IDX_TOKEN_2022_IX_DEFAULT_ACCOUNT_STATE_EXTENSION \<Rightarrow> True
    | IDX_TOKEN_2022_IX_REALLOCATE \<Rightarrow> False
    | IDX_TOKEN_2022_IX_MEMO_TRANSFER_EXTENSION \<Rightarrow> True
    | IDX_TOKEN_2022_IX_CREATE_NATIVE_MINT \<Rightarrow> False
    | IDX_TOKEN_2022_IX_INITIALIZE_NON_TRANSFERABLE_MINT \<Rightarrow> False
    | IDX_TOKEN_2022_IX_INTEREST_BEARING_MINT_EXTENSION \<Rightarrow> True
    | IDX_TOKEN_2022_IX_CPI_GUARD_EXTENSION \<Rightarrow> True
    | IDX_TOKEN_2022_IX_INITIALIZE_PERMANENT_DELEGATE \<Rightarrow> False
    | IDX_TOKEN_2022_IX_TRANSFER_HOOK_EXTENSION \<Rightarrow> True
    | IDX_TOKEN_2022_IX_CONFIDENTIAL_TRANSFER_FEE_EXTENSION \<Rightarrow> True
    | IDX_TOKEN_2022_IX_WITHDRAW_EXCESS_LAMPORTS \<Rightarrow> False
    | IDX_TOKEN_2022_IX_METADATA_POINTER_EXTENSION \<Rightarrow> True
    | IDX_TOKEN_2022_IX_GROUP_POINTER_EXTENSION \<Rightarrow> True
    | IDX_TOKEN_2022_IX_GROUP_MEMBER_POINTER_EXTENSION \<Rightarrow> True
    | IDX_TOKEN_2022_IX_CONFIDENTIAL_MINT_BURN_EXTENSION \<Rightarrow> True
    | IDX_TOKEN_2022_IX_SCALED_UI_AMOUNT_EXTENSION \<Rightarrow> True
    | IDX_TOKEN_2022_IX_PAUSABLE_EXTENSION \<Rightarrow> True)"

datatype idx_token_2022_operands =
    Mint_close_authority (mint: idx_pubkey) (close_authority: "idx_pubkey option")
  | Permanent_delegate (mint: idx_pubkey) (delegate: idx_pubkey)
  | Mint_only (mint: idx_pubkey) (payer: "idx_pubkey option")
  | Withdraw_excess_lamports (source: idx_pubkey) (destination: idx_pubkey) (authority: idx_pubkey)
  | Reallocate (account: idx_pubkey) (paid_by: idx_pubkey) (owner: idx_pubkey) (extension_types: idx_slice)
      (extension_type_count: nat)
  | Extension (sub_discriminant: byte) (payload: idx_slice)

datatype idx_token_2022_instruction =
    Base22 (base22: idx_token_instruction)
  | Own22 (kind22: idx_token_2022_ix_kind) (operands22: idx_token_2022_operands)

record idx_token_2022_transfer_with_fee =
  twf_source :: idx_pubkey
  twf_mint :: idx_pubkey
  twf_destination :: idx_pubkey
  twf_authority :: idx_pubkey
  twf_amount :: u64
  twf_fee :: u64
  twf_decimals :: byte

definition idx_token_2022_extension_type_at :: "idx_slice \<Rightarrow> nat \<Rightarrow> u16" where
  "idx_token_2022_extension_type_at types index =
     (if types = [] \<or> index \<ge> length types div 2 then 0
      else let offset = index * 2 in ucast (types ! offset) OR push_bit 8 (ucast (types ! (offset + 1))))"

fun idx_token_2022_transfer_with_fee_decode ::
    "idx_transaction option \<Rightarrow> idx_instruction option \<Rightarrow> idx_slice \<Rightarrow> idx_token_2022_transfer_with_fee result" where
  "idx_token_2022_transfer_with_fee_decode (Some tx) (Some ix) view =
     idx_try (require_account tx ix 0) (\<lambda>src.
     idx_try (require_account tx ix 1) (\<lambda>mnt.
     idx_try (require_account tx ix 2) (\<lambda>dst.
     idx_try (require_account tx ix 3) (\<lambda>auth.
     idx_try (idx_cursor_u64le (idx_cursor_init view)) (\<lambda>(amt, cursor).
     idx_try (idx_cursor_u8 cursor) (\<lambda>(dec, cursor).
     idx_try (idx_cursor_u64le cursor) (\<lambda>(withheld, cursor).
     Inr \<lparr>twf_source = src, twf_mint = mnt, twf_destination = dst, twf_authority = auth, twf_amount = amt,
          twf_fee = withheld, twf_decimals = dec\<rparr>)))))))"
| "idx_token_2022_transfer_with_fee_decode _ _ view = Inl IDX_ERR_INVALID_ARG"

definition decode_extension :: "idx_cursor \<Rightarrow> idx_token_2022_operands result" where
  "decode_extension cursor = idx_try (idx_cursor_u8 cursor) (\<lambda>(sub, cursor).
     idx_try (idx_cursor_take cursor (idx_cursor_remaining cursor)) (\<lambda>(view, cursor).
     Inr (Extension sub view)))"

definition decode_reallocate ::
    "idx_transaction \<Rightarrow> idx_instruction \<Rightarrow> idx_cursor \<Rightarrow> idx_token_2022_operands result" where
  "decode_reallocate tx ix cursor =
     idx_try (require_account tx ix 0) (\<lambda>acct.
     idx_try (require_account tx ix 1) (\<lambda>pay.
     idx_try (require_account tx ix 3) (\<lambda>own.
     idx_try (idx_cursor_take cursor (idx_cursor_remaining cursor)) (\<lambda>(types, cursor).
     if length types mod 2 \<noteq> 0 then Inl IDX_ERR_PARSE
     else Inr (Reallocate acct pay own types (length types div 2))))))"

definition decode_own_operands ::
    "idx_transaction \<Rightarrow> idx_instruction \<Rightarrow> idx_token_2022_ix_kind \<Rightarrow> idx_cursor \<Rightarrow> idx_token_2022_operands result" where
  "decode_own_operands tx ix kind cursor =
     (if idx_token_2022_ix_is_extension kind then decode_extension cursor
      else if kind = IDX_TOKEN_2022_IX_INITIALIZE_MINT_CLOSE_AUTHORITY then
        idx_try (require_account tx ix 0) (\<lambda>mnt.
        idx_try (idx_cursor_u8 cursor) (\<lambda>(tag, cursor).
        if tag = 0 then Inr (Mint_close_authority mnt None)
        else if tag \<noteq> 1 then Inl IDX_ERR_PARSE
        else idx_try (read_pubkey cursor) (\<lambda>(auth, cursor).
        Inr (Mint_close_authority mnt (Some auth)))))
      else if kind = IDX_TOKEN_2022_IX_INITIALIZE_PERMANENT_DELEGATE then
        idx_try (require_account tx ix 0) (\<lambda>mnt.
        idx_try (read_pubkey cursor) (\<lambda>(del, cursor).
        Inr (Permanent_delegate mnt del)))
      else if kind = IDX_TOKEN_2022_IX_INITIALIZE_NON_TRANSFERABLE_MINT then
        idx_try (require_account tx ix 0) (\<lambda>mnt. Inr (Mint_only mnt None))
      else if kind = IDX_TOKEN_2022_IX_CREATE_NATIVE_MINT then
        idx_try (require_account tx ix 0) (\<lambda>pay.
        idx_try (require_account tx ix 1) (\<lambda>mnt.
        Inr (Mint_only mnt (Some pay))))
      else if kind = IDX_TOKEN_2022_IX_WITHDRAW_EXCESS_LAMPORTS then
        idx_try (require_account tx ix 0) (\<lambda>src.
        idx_try (require_account tx ix 1) (\<lambda>dst.
        idx_try (require_account tx ix 2) (\<lambda>auth.
        Inr (Withdraw_excess_lamports src dst auth))))
      else if kind = IDX_TOKEN_2022_IX_REALLOCATE then decode_reallocate tx ix cursor
      else Inl IDX_ERR_INTERNAL)"

fun idx_token_2022_instruction_decode ::
    "idx_transaction option \<Rightarrow> idx_instruction option \<Rightarrow> idx_token_2022_instruction result" where
  "idx_token_2022_instruction_decode (Some tx) (Some ix) =
     (case idx_token_instruction_decode (Some tx) (Some ix) of
        Inr decoded \<Rightarrow> Inr (Base22 decoded)
      | Inl status \<Rightarrow>
          if status \<noteq> IDX_ERR_NOT_FOUND then Inl status
          else idx_try (idx_cursor_u8 (idx_cursor_init (ix_data ix))) (\<lambda>(discriminant, cursor).
            if discriminant > 44 then Inl IDX_ERR_NOT_FOUND
            else let kind = token_2022_kinds ! (unat discriminant - 25) in
              idx_try (decode_own_operands tx ix kind cursor) (\<lambda>operands.
              Inr (Own22 kind operands))))"
| "idx_token_2022_instruction_decode _ _ = Inl IDX_ERR_INVALID_ARG"

section \<open>Wire form\<close>

definition own_kind_number :: "idx_token_2022_ix_kind \<Rightarrow> byte" where
  "own_kind_number kind = word_of_nat (25 + length (takeWhile (\<lambda>k. k \<noteq> kind) token_2022_kinds))"

fun own_bytes :: "idx_token_2022_operands \<Rightarrow> bytes" where
  "own_bytes (Mint_close_authority _ auth) = optional_key_bytes auth"
| "own_bytes (Permanent_delegate _ del) = del"
| "own_bytes (Mint_only _ _) = []"
| "own_bytes (Withdraw_excess_lamports _ _ _) = []"
| "own_bytes (Reallocate _ _ _ types _) = types"
| "own_bytes (Extension sub view) = sub # view"

fun own_accounts :: "idx_token_2022_operands \<Rightarrow> (nat \<times> idx_pubkey) list" where
  "own_accounts (Mint_close_authority mnt _) = [(0, mnt)]"
| "own_accounts (Permanent_delegate mnt _) = [(0, mnt)]"
| "own_accounts (Mint_only mnt pay) = (case pay of None \<Rightarrow> [(0, mnt)] | Some p \<Rightarrow> [(0, p), (1, mnt)])"
| "own_accounts (Withdraw_excess_lamports src dst auth) = [(0, src), (1, dst), (2, auth)]"
| "own_accounts (Reallocate acct pay own _ _) = [(0, acct), (1, pay), (3, own)]"
| "own_accounts (Extension _ _) = []"

fun wf_own :: "idx_token_2022_ix_kind \<Rightarrow> idx_token_2022_operands \<Rightarrow> bytes \<Rightarrow> bool" where
  "wf_own kind (Mint_close_authority _ auth) rest \<longleftrightarrow>
     kind = IDX_TOKEN_2022_IX_INITIALIZE_MINT_CLOSE_AUTHORITY \<and> optional_key_ok auth"
| "wf_own kind (Permanent_delegate _ del) rest \<longleftrightarrow>
     kind = IDX_TOKEN_2022_IX_INITIALIZE_PERMANENT_DELEGATE \<and> key_ok del"
| "wf_own kind (Mint_only _ pay) rest \<longleftrightarrow>
     kind = (if pay = None then IDX_TOKEN_2022_IX_INITIALIZE_NON_TRANSFERABLE_MINT else IDX_TOKEN_2022_IX_CREATE_NATIVE_MINT)"
| "wf_own kind (Withdraw_excess_lamports _ _ _) rest \<longleftrightarrow> kind = IDX_TOKEN_2022_IX_WITHDRAW_EXCESS_LAMPORTS"
| "wf_own kind (Reallocate _ _ _ types count) rest \<longleftrightarrow>
     kind = IDX_TOKEN_2022_IX_REALLOCATE \<and> rest = [] \<and> length types = 2 * count"
| "wf_own kind (Extension _ _) rest \<longleftrightarrow> idx_token_2022_ix_is_extension kind \<and> rest = []"

lemma own_kind_nth:
  "25 \<le> own_kind_number kind \<and> own_kind_number kind \<le> 44 \<and>
     token_2022_kinds ! (unat (own_kind_number kind) - 25) = kind"
  by (cases kind) (simp_all add: own_kind_number_def token_2022_kinds_def)

lemma own_kind_unique: "25 \<le> n \<Longrightarrow> n \<le> 44 \<Longrightarrow> own_kind_number (token_2022_kinds ! (unat n - 25)) = n"
proof -
  have all: "\<forall>i \<in> {..19}. own_kind_number (token_2022_kinds ! i) = word_of_nat (25 + i)"
    by (simp add: own_kind_number_def token_2022_kinds_def eval_nat_numeral atMost_Suc)
  assume "25 \<le> n" "n \<le> 44"
  then have "25 \<le> unat n" "unat n - 25 \<in> {..19}" by (auto simp: word_le_nat_alt)
  then show "own_kind_number (token_2022_kinds ! (unat n - 25)) = n" using all by fastforce
qed

lemma decode_own_wire:
  assumes "wf_own kind operands extra" "named_accounts tx ix (own_accounts operands)"
    "unread c = own_bytes operands @ extra"
  shows "decode_own_operands tx ix kind c = Inr operands"
proof -
  note defs = decode_own_operands_def decode_extension_def decode_reallocate_def named_accounts_def take_remaining
    optional_key_ok_def idx_token_2022_ix_is_extension_def
  note rules = try_account try_read [OF consumes_u8] try_pubkey
  show ?thesis using assms
    by (cases operands) (auto simp: defs intro!: rules split: option.splits if_splits)
qed

lemma decode_own_Inr:
  "decode_own_operands tx ix kind c = Inr operands \<Longrightarrow>
     named_accounts tx ix (own_accounts operands) \<and>
     (\<exists>extra. unread c = own_bytes operands @ extra \<and> wf_own kind operands extra)"
proof -
  assume run: "decode_own_operands tx ix kind c = Inr operands"
  note defs = decode_own_operands_def decode_extension_def decode_reallocate_def named_accounts_def take_remaining
    idx_try_Inr_iff account_Inr optional_key_ok_def idx_token_2022_ix_is_extension_def
  show ?thesis
    by (cases kind) (use run in \<open>fastforce simp: defs split: if_splits dest!: u8_Inr pubkey_Inr\<close>)+
qed

section \<open>Properties\<close>

text \<open>
  C26: The Token-2022 decoder inverts the wire format. A shared instruction is exactly what the
  token decoder makes of the data; an own one is yielded exactly when the data start with its
  number (25 to 44) and its bytes, the operands fit the kind and each named operand is the key
  at its position. Extension payloads and reallocated types take the whole rest of the data.
\<close>

theorem token_2022_decode_iff:
  "idx_token_2022_instruction_decode (Some tx) (Some ix) = Inr i \<longleftrightarrow>
     (case i of
        Base22 decoded \<Rightarrow> idx_token_instruction_decode (Some tx) (Some ix) = Inr decoded
      | Own22 kind operands \<Rightarrow> named_accounts tx ix (own_accounts operands) \<and>
          (\<exists>extra. ix_data ix = own_kind_number kind # own_bytes operands @ extra \<and> wf_own kind operands extra))"
proof (cases i)
  case (Base22 decoded)
  then show ?thesis
    by (auto simp: idx_try_Inr_iff Let_def simp del: idx_token_instruction_decode.simps split: sum.splits if_splits)
next
  case (Own22 kind operands)
  let ?start = "idx_cursor_init (ix_data ix)"
  show ?thesis
  proof
    assume run: "idx_token_2022_instruction_decode (Some tx) (Some ix) = Inr i"
    then obtain n c where base: "idx_token_instruction_decode (Some tx) (Some ix) = Inl IDX_ERR_NOT_FOUND"
      and n: "idx_cursor_u8 ?start = Inr (n, c)" "n \<le> 44" and kind: "kind = token_2022_kinds ! (unat n - 25)"
      and ops: "decode_own_operands tx ix kind c = Inr operands"
      using Own22 by (auto simp: idx_try_Inr_iff Let_def not_less simp del: idx_token_instruction_decode.simps
          split: sum.splits if_splits)
    have data: "ix_data ix = n # unread c" using u8_Inr [OF n(1)] by (simp add: unread_init)
    then have "n > 24" using token_decode_Inl [OF base] by auto
    then have "25 \<le> n" by (simp add: word_le_nat_alt word_less_nat_alt)
    then have "own_kind_number kind = n" using own_kind_unique n(2) kind by simp
    then show "case i of
        Base22 decoded \<Rightarrow> idx_token_instruction_decode (Some tx) (Some ix) = Inr decoded
      | Own22 kind operands \<Rightarrow> named_accounts tx ix (own_accounts operands) \<and>
          (\<exists>extra. ix_data ix = own_kind_number kind # own_bytes operands @ extra \<and> wf_own kind operands extra)"
      using decode_own_Inr [OF ops] data Own22 by simp
  next
    assume "case i of
        Base22 decoded \<Rightarrow> idx_token_instruction_decode (Some tx) (Some ix) = Inr decoded
      | Own22 kind operands \<Rightarrow> named_accounts tx ix (own_accounts operands) \<and>
          (\<exists>extra. ix_data ix = own_kind_number kind # own_bytes operands @ extra \<and> wf_own kind operands extra)"
    then obtain extra where named: "named_accounts tx ix (own_accounts operands)"
      and data: "ix_data ix = own_kind_number kind # own_bytes operands @ extra" and wf: "wf_own kind operands extra"
      using Own22 by auto
    have num: "25 \<le> own_kind_number kind" "\<not> own_kind_number kind > 44"
      "token_2022_kinds ! (unat (own_kind_number kind) - 25) = kind"
      using own_kind_nth [of kind] by (simp_all add: not_less)
    then have "own_kind_number kind > 24" by (simp add: word_le_nat_alt word_less_nat_alt)
    then have base: "idx_token_instruction_decode (Some tx) (Some ix) = Inl IDX_ERR_NOT_FOUND"
      using token_not_found [OF data] by blast
    obtain c where c: "idx_cursor_u8 ?start = Inr (own_kind_number kind, c)" "unread c = own_bytes operands @ extra"
      using consumes_u8 [of "own_kind_number kind"] data unfolding consumes_def
      by (metis append_Cons append_Nil unread_init)
    show "idx_token_2022_instruction_decode (Some tx) (Some ix) = Inr i"
      using base c(1) num decode_own_wire [OF wf named c(2)] Own22
      by (simp add: Let_def del: idx_token_instruction_decode.simps)
  qed
qed

end
