(* ===== verification/Transfers.thy ===== *)
theory Transfers
  imports SystemProgram Token2022
begin

text \<open>
  Transfer extraction (\<^verbatim>\<open>src/transfer.c\<close>, \<^verbatim>\<open>include/transfer.h\<close>): the walk over the
  instructions of a transaction that turns each one that moved value into a row. The builder's
  array is the list of rows accepted so far with its capacity; the row being filled is a value
  that \<open>builder_commit\<close> appends.
\<close>

section \<open>Model\<close>

datatype idx_transfer_kind = IDX_TRANSFER_SOL | IDX_TRANSFER_TOKEN | IDX_TRANSFER_MINT | IDX_TRANSFER_BURN

definition idx_transfer_kind_name :: "idx_transfer_kind \<Rightarrow> string" where
  "idx_transfer_kind_name kind = (case kind of
      IDX_TRANSFER_SOL \<Rightarrow> ''sol''
    | IDX_TRANSFER_TOKEN \<Rightarrow> ''token''
    | IDX_TRANSFER_MINT \<Rightarrow> ''mint''
    | IDX_TRANSFER_BURN \<Rightarrow> ''burn'')"

record idx_transfer =
  tr_kind :: idx_transfer_kind
  tr_instruction_index :: u16
  tr_inner_index :: u16
  tr_inner :: bool
  tr_source :: idx_pubkey
  tr_destination :: idx_pubkey
  tr_authority :: idx_pubkey
  tr_mint :: idx_pubkey
  tr_source_owner :: idx_pubkey
  tr_destination_owner :: idx_pubkey
  tr_amount :: u64
  tr_fee :: u64
  tr_decimals :: byte
  tr_has_authority :: bool
  tr_has_mint :: bool
  tr_has_decimals :: bool
  tr_has_source_owner :: bool
  tr_has_destination_owner :: bool

definition SIZEOF_idx_transfer :: nat where "SIZEOF_idx_transfer = 232"

record builder =
  bl_tx :: idx_transaction
  bl_rows :: "idx_transfer list"
  bl_capacity :: nat
  bl_instruction_index :: u16
  bl_inner_index :: u16
  bl_inner :: bool

definition zero_row :: idx_transfer where
  "zero_row = \<lparr>tr_kind = IDX_TRANSFER_SOL, tr_instruction_index = 0, tr_inner_index = 0, tr_inner = False,
     tr_source = IDX_PUBKEY_DEFAULT, tr_destination = IDX_PUBKEY_DEFAULT, tr_authority = IDX_PUBKEY_DEFAULT,
     tr_mint = IDX_PUBKEY_DEFAULT, tr_source_owner = IDX_PUBKEY_DEFAULT,
     tr_destination_owner = IDX_PUBKEY_DEFAULT, tr_amount = 0, tr_fee = 0, tr_decimals = 0,
     tr_has_authority = False, tr_has_mint = False, tr_has_decimals = False, tr_has_source_owner = False,
     tr_has_destination_owner = False\<rparr>"

definition builder_row :: "builder \<Rightarrow> idx_transfer option" where
  "builder_row b =
     (if length (bl_rows b) \<ge> bl_capacity b then None
      else Some (zero_row\<lparr>tr_instruction_index := bl_instruction_index b, tr_inner_index := bl_inner_index b,
                          tr_inner := bl_inner b\<rparr>))"

text \<open>The first entry for the account, on the post side before the pre side.\<close>

definition find_token_balance :: "idx_transaction \<Rightarrow> idx_pubkey \<Rightarrow> idx_token_balance option" where
  "find_token_balance tx acct =
     find (\<lambda>entry. idx_pubkey_equal (pubkey (accounts tx ! unat (account_index entry))) acct)
       (post_token_balances tx @ pre_token_balances tx)"

definition resolve_from_balances :: "idx_transaction \<Rightarrow> idx_transfer \<Rightarrow> idx_transfer" where
  "resolve_from_balances tx row =
     (let source = (if tr_kind row \<noteq> IDX_TRANSFER_MINT then find_token_balance tx (tr_source row) else None);
          destination = (if tr_kind row \<noteq> IDX_TRANSFER_BURN then find_token_balance tx (tr_destination row) else None);
          either = (if source \<noteq> None then source else destination);
          row = (case either of None \<Rightarrow> row
                 | Some entry \<Rightarrow>
                     let row = (if \<not> tr_has_mint row then row\<lparr>tr_mint := tb_mint entry, tr_has_mint := True\<rparr> else row)
                     in if \<not> tr_has_decimals row
                        then row\<lparr>tr_decimals := tb_decimals entry, tr_has_decimals := True\<rparr> else row);
          row = (case source of None \<Rightarrow> row
                 | Some entry \<Rightarrow> if tb_has_owner entry
                     then row\<lparr>tr_source_owner := tb_owner entry, tr_has_source_owner := True\<rparr> else row)
      in case destination of None \<Rightarrow> row
         | Some entry \<Rightarrow> if tb_has_owner entry
             then row\<lparr>tr_destination_owner := tb_owner entry, tr_has_destination_owner := True\<rparr> else row)"

definition builder_commit :: "builder \<Rightarrow> idx_transfer \<Rightarrow> builder" where
  "builder_commit b row =
     (if tr_amount row = 0 then b
      else let row = (if tr_kind row \<noteq> IDX_TRANSFER_SOL then resolve_from_balances (bl_tx b) row else row)
           in b\<lparr>bl_rows := bl_rows b @ [row]\<rparr>)"

text \<open>What the switch over the decoded System instruction stores; \<open>None\<close> for the kinds that move nothing.\<close>

definition fill_from_system :: "idx_system_instruction \<Rightarrow> idx_transfer \<Rightarrow> idx_transfer option" where
  "fill_from_system decoded row = (let ops = sys_operands decoded in case sys_kind decoded of
      IDX_SYSTEM_IX_TRANSFER \<Rightarrow> Some (row\<lparr>tr_source := from_key ops, tr_destination := to_key ops,
        tr_amount := lamports ops\<rparr>)
    | IDX_SYSTEM_IX_TRANSFER_WITH_SEED \<Rightarrow> Some (row\<lparr>tr_source := from_key ops, tr_destination := to_key ops,
        tr_authority := base_account ops, tr_has_authority := True, tr_amount := lamports ops\<rparr>)
    | IDX_SYSTEM_IX_CREATE_ACCOUNT \<Rightarrow> Some (row\<lparr>tr_source := funder ops,
        tr_destination := idx_system_operands.account ops, tr_amount := lamports ops\<rparr>)
    | IDX_SYSTEM_IX_CREATE_ACCOUNT_WITH_SEED \<Rightarrow> Some (row\<lparr>tr_source := funder ops,
        tr_destination := idx_system_operands.account ops, tr_amount := lamports ops\<rparr>)
    | IDX_SYSTEM_IX_WITHDRAW_NONCE_ACCOUNT \<Rightarrow> Some (row\<lparr>tr_source := nonce ops, tr_destination := to_key ops,
        tr_authority := signer ops, tr_has_authority := True, tr_amount := lamports ops\<rparr>)
    | _ \<Rightarrow> None)"

definition extract_system :: "builder \<Rightarrow> idx_instruction \<Rightarrow> builder result" where
  "extract_system b ix = (case idx_system_instruction_decode (Some (bl_tx b)) (Some ix) of
      Inl status \<Rightarrow> if status = IDX_ERR_NOT_FOUND then Inr b else Inl status
    | Inr decoded \<Rightarrow> (case builder_row b of
        None \<Rightarrow> Inl IDX_ERR_INTERNAL
      | Some row \<Rightarrow> (case fill_from_system decoded (row\<lparr>tr_kind := IDX_TRANSFER_SOL\<rparr>) of
          None \<Rightarrow> Inr b
        | Some row \<Rightarrow> Inr (builder_commit b row))))"

text \<open>\<open>None\<close> is the \<^verbatim>\<open>false\<close> the C function returns for an instruction that moves no tokens.\<close>

definition fill_from_token :: "idx_token_instruction \<Rightarrow> idx_transfer \<Rightarrow> idx_transfer option" where
  "fill_from_token decoded row = (let ops = tok_operands decoded; kind = tok_kind decoded in
     if kind = IDX_TOKEN_IX_TRANSFER \<or> kind = IDX_TOKEN_IX_TRANSFER_CHECKED then
       Some (let row = row\<lparr>tr_kind := IDX_TRANSFER_TOKEN, tr_source := idx_token_operands.source ops,
                 tr_destination := idx_token_operands.destination ops,
                 tr_authority := idx_token_operands.authority ops, tr_has_authority := True,
                 tr_amount := idx_token_operands.amount ops\<rparr>;
               row = (case named_mint ops of None \<Rightarrow> row | Some m \<Rightarrow> row\<lparr>tr_mint := m, tr_has_mint := True\<rparr>)
             in row\<lparr>tr_decimals := decimals ops, tr_has_decimals := has_decimals ops\<rparr>)
     else if kind = IDX_TOKEN_IX_MINT_TO \<or> kind = IDX_TOKEN_IX_MINT_TO_CHECKED then
       Some (row\<lparr>tr_kind := IDX_TRANSFER_MINT, tr_source := idx_token_operands.mint ops,
                 tr_destination := idx_token_operands.account ops,
                 tr_authority := idx_token_operands.authority ops, tr_has_authority := True,
                 tr_mint := idx_token_operands.mint ops, tr_has_mint := True,
                 tr_amount := idx_token_operands.amount ops,
                 tr_decimals := decimals ops, tr_has_decimals := has_decimals ops\<rparr>)
     else if kind = IDX_TOKEN_IX_BURN \<or> kind = IDX_TOKEN_IX_BURN_CHECKED then
       Some (row\<lparr>tr_kind := IDX_TRANSFER_BURN, tr_source := idx_token_operands.account ops,
                 tr_destination := idx_token_operands.mint ops,
                 tr_authority := idx_token_operands.authority ops, tr_has_authority := True,
                 tr_mint := idx_token_operands.mint ops, tr_has_mint := True,
                 tr_amount := idx_token_operands.amount ops,
                 tr_decimals := decimals ops, tr_has_decimals := has_decimals ops\<rparr>)
     else None)"

definition extract_token :: "builder \<Rightarrow> idx_instruction \<Rightarrow> builder result" where
  "extract_token b ix = (case idx_token_instruction_decode (Some (bl_tx b)) (Some ix) of
      Inl status \<Rightarrow> if status = IDX_ERR_NOT_FOUND then Inr b else Inl status
    | Inr decoded \<Rightarrow> (case builder_row b of
        None \<Rightarrow> Inl IDX_ERR_INTERNAL
      | Some row \<Rightarrow> (case fill_from_token decoded row of
          None \<Rightarrow> Inr b
        | Some row \<Rightarrow> Inr (builder_commit b row))))"

definition fill_with_fee :: "idx_token_2022_transfer_with_fee \<Rightarrow> idx_transfer \<Rightarrow> idx_transfer" where
  "fill_with_fee transfer row = row\<lparr>tr_kind := IDX_TRANSFER_TOKEN, tr_source := twf_source transfer,
     tr_destination := twf_destination transfer, tr_authority := twf_authority transfer, tr_has_authority := True,
     tr_mint := twf_mint transfer, tr_has_mint := True, tr_amount := twf_amount transfer,
     tr_fee := twf_fee transfer, tr_decimals := twf_decimals transfer, tr_has_decimals := True\<rparr>"

text \<open>The sub-instruction \<^verbatim>\<open>IDX_TOKEN_2022_FEE_IX_TRANSFER_CHECKED_WITH_FEE\<close> is number 1.\<close>

definition IDX_TOKEN_2022_FEE_IX_TRANSFER_CHECKED_WITH_FEE :: byte where
  "IDX_TOKEN_2022_FEE_IX_TRANSFER_CHECKED_WITH_FEE = 1"

definition extract_token_2022 :: "builder \<Rightarrow> idx_instruction \<Rightarrow> builder result" where
  "extract_token_2022 b ix = (case idx_token_2022_instruction_decode (Some (bl_tx b)) (Some ix) of
      Inl status \<Rightarrow> if status = IDX_ERR_NOT_FOUND then Inr b else Inl status
    | Inr decoded \<Rightarrow> (case builder_row b of
        None \<Rightarrow> Inl IDX_ERR_INTERNAL
      | Some row \<Rightarrow> (case decoded of
          Base22 base_ix \<Rightarrow> (case fill_from_token base_ix row of
              None \<Rightarrow> Inr b
            | Some row \<Rightarrow> Inr (builder_commit b row))
        | Own22 kind ops \<Rightarrow>
            if kind \<noteq> IDX_TOKEN_2022_IX_TRANSFER_FEE_EXTENSION \<or>
               sub_discriminant ops \<noteq> IDX_TOKEN_2022_FEE_IX_TRANSFER_CHECKED_WITH_FEE then Inr b
            else idx_try (idx_token_2022_transfer_with_fee_decode (Some (bl_tx b)) (Some ix) (payload ops)) (\<lambda>transfer.
              Inr (builder_commit b (fill_with_fee transfer row))))))"

definition extract_instruction :: "builder \<Rightarrow> idx_instruction \<Rightarrow> builder result" where
  "extract_instruction b ix = (let program = idx_instruction_program_id (bl_tx b) ix in
     if idx_pubkey_equal program IDX_PROGRAM_SYSTEM then extract_system b ix
     else if idx_pubkey_equal program IDX_PROGRAM_TOKEN then extract_token b ix
     else if idx_pubkey_equal program IDX_PROGRAM_TOKEN_2022 then extract_token_2022 b ix
     else Inr b)"

definition inner_group :: "idx_transaction \<Rightarrow> nat \<Rightarrow> idx_inner_instructions option" where
  "inner_group tx index = find (\<lambda>g. unat (grp_index g) = index) (inner_instructions tx)"

definition instruction_total :: "idx_transaction \<Rightarrow> nat" where
  "instruction_total tx = fold (\<lambda>g total. total + length (grp_instructions g)) (inner_instructions tx)
     (length (instructions tx))"

text \<open>The loop over the inner instructions from position \<open>j\<close>, and the loop over the top-level ones from \<open>i\<close>.\<close>

fun walk_inner :: "nat \<Rightarrow> idx_instruction list \<Rightarrow> builder \<Rightarrow> builder result" where
  "walk_inner j [] b = Inr b"
| "walk_inner j (ix # rest) b =
     idx_try (extract_instruction (b\<lparr>bl_inner_index := word_of_nat j\<rparr>) ix) (\<lambda>b. walk_inner (Suc j) rest b)"

fun walk_top :: "nat \<Rightarrow> idx_instruction list \<Rightarrow> builder \<Rightarrow> builder result" where
  "walk_top i [] b = Inr b"
| "walk_top i (ix # rest) b =
     idx_try (extract_instruction
       (b\<lparr>bl_instruction_index := word_of_nat i, bl_inner_index := 0, bl_inner := False\<rparr>) ix) (\<lambda>b.
     idx_try (case inner_group (bl_tx b) i of
                None \<Rightarrow> Inr b
              | Some grp \<Rightarrow> walk_inner 0 (grp_instructions grp) (b\<lparr>bl_inner := True\<rparr>)) (\<lambda>b.
     walk_top (Suc i) rest b))"

fun idx_transfer_extract :: "malloc_fn \<Rightarrow> idx_transaction option \<Rightarrow> idx_transfer list arena_op" where
  "idx_transfer_extract malloc None = op_return (Inl IDX_ERR_INVALID_ARG)"
| "idx_transfer_extract malloc (Some tx) = (\<lambda>arena.
     if arena = None then (Inl IDX_ERR_INVALID_ARG, arena)
     else if \<not> has_meta tx \<or> \<not> success tx \<or> accounts tx = [] then (Inr [], arena)
     else let capacity = instruction_total tx in
       if capacity = 0 then (Inr [], arena)
       else op_try (idx_arena_calloc malloc capacity SIZEOF_idx_transfer) (\<lambda>_.
         op_return (idx_try (walk_top 0 (instructions tx)
             \<lparr>bl_tx = tx, bl_rows = [], bl_capacity = capacity, bl_instruction_index = 0, bl_inner_index = 0,
              bl_inner = False\<rparr>) (\<lambda>b. Inr (bl_rows b)))) arena)"

section \<open>Specification\<close>

text \<open>
  What one instruction contributes, on its own: nothing, one row, or the error of its decoder.
  A place is the top-level position, the inner one and whether the instruction is inner.
\<close>

type_synonym place = "nat \<times> nat \<times> bool"

definition stamped :: "place \<Rightarrow> idx_transfer" where
  "stamped p = (case p of (i, j, inner) \<Rightarrow>
     zero_row\<lparr>tr_instruction_index := word_of_nat i, tr_inner_index := word_of_nat j, tr_inner := inner\<rparr>)"

definition accepted :: "idx_transaction \<Rightarrow> idx_transfer \<Rightarrow> idx_transfer list" where
  "accepted tx row = (if tr_amount row = 0 then []
     else [if tr_kind row = IDX_TRANSFER_SOL then row else resolve_from_balances tx row])"

definition accepted_option :: "idx_transaction \<Rightarrow> idx_transfer option \<Rightarrow> idx_transfer list" where
  "accepted_option tx filled = (case filled of None \<Rightarrow> [] | Some row \<Rightarrow> accepted tx row)"

definition known :: "'a result \<Rightarrow> ('a \<Rightarrow> idx_transfer list result) \<Rightarrow> idx_transfer list result" where
  "known decoded rows = (case decoded of
      Inl status \<Rightarrow> if status = IDX_ERR_NOT_FOUND then Inr [] else Inl status
    | Inr d \<Rightarrow> rows d)"

definition instruction_rows :: "idx_transaction \<Rightarrow> place \<Rightarrow> idx_instruction \<Rightarrow> idx_transfer list result" where
  "instruction_rows tx p ix = (let program = idx_instruction_program_id tx ix in
     if idx_pubkey_equal program IDX_PROGRAM_SYSTEM then
       known (idx_system_instruction_decode (Some tx) (Some ix)) (\<lambda>d.
         Inr (accepted_option tx (fill_from_system d ((stamped p)\<lparr>tr_kind := IDX_TRANSFER_SOL\<rparr>))))
     else if idx_pubkey_equal program IDX_PROGRAM_TOKEN then
       known (idx_token_instruction_decode (Some tx) (Some ix)) (\<lambda>d.
         Inr (accepted_option tx (fill_from_token d (stamped p))))
     else if idx_pubkey_equal program IDX_PROGRAM_TOKEN_2022 then
       known (idx_token_2022_instruction_decode (Some tx) (Some ix)) (\<lambda>d. case d of
           Base22 shared \<Rightarrow> Inr (accepted_option tx (fill_from_token shared (stamped p)))
         | Own22 kind ops \<Rightarrow>
             if kind = IDX_TOKEN_2022_IX_TRANSFER_FEE_EXTENSION \<and>
                sub_discriminant ops = IDX_TOKEN_2022_FEE_IX_TRANSFER_CHECKED_WITH_FEE
             then idx_try (idx_token_2022_transfer_with_fee_decode (Some tx) (Some ix) (payload ops)) (\<lambda>t.
               Inr (accepted tx (fill_with_fee t (stamped p))))
             else Inr [])
     else Inr [])"

text \<open>The instructions in execution order: each top-level one, then those it expanded into.\<close>

definition inner_of :: "idx_transaction \<Rightarrow> nat \<Rightarrow> idx_instruction list" where
  "inner_of tx i = (case inner_group tx i of None \<Rightarrow> [] | Some grp \<Rightarrow> grp_instructions grp)"

definition inner_places :: "nat \<Rightarrow> nat \<Rightarrow> idx_instruction list \<Rightarrow> (place \<times> idx_instruction) list" where
  "inner_places i j ixs = map (\<lambda>k. ((i, j + k, True), ixs ! k)) [0..<length ixs]"

fun execution_from :: "idx_transaction \<Rightarrow> nat \<Rightarrow> idx_instruction list \<Rightarrow> (place \<times> idx_instruction) list" where
  "execution_from tx i [] = []"
| "execution_from tx i (ix # rest) =
     ((i, 0, False), ix) # inner_places i 0 (inner_of tx i) @ execution_from tx (Suc i) rest"

definition execution :: "idx_transaction \<Rightarrow> (place \<times> idx_instruction) list" where
  "execution tx = execution_from tx 0 (instructions tx)"

fun rows_of :: "idx_transaction \<Rightarrow> (place \<times> idx_instruction) list \<Rightarrow> idx_transfer list result" where
  "rows_of tx [] = Inr []"
| "rows_of tx ((p, ix) # rest) = idx_try (instruction_rows tx p ix) (\<lambda>rows.
     idx_try (rows_of tx rest) (\<lambda>more. Inr (rows @ more)))"

lemma rows_of_append:
  "rows_of tx (xs @ ys) = idx_try (rows_of tx xs) (\<lambda>rows. idx_try (rows_of tx ys) (\<lambda>more. Inr (rows @ more)))"
proof (induction xs)
  case (Cons x xs)
  then show ?case
    by (cases x, cases "instruction_rows tx (fst x) (snd x)"; cases "rows_of tx xs"; cases "rows_of tx ys") auto
qed (cases "rows_of tx ys"; simp)

section \<open>The walk follows the specification\<close>

lemma commit_eq: "builder_commit b row = b\<lparr>bl_rows := bl_rows b @ accepted (bl_tx b) row\<rparr>"
  by (simp add: builder_commit_def accepted_def)

lemma extract_instruction_eq:
  assumes room: "length (bl_rows b) < bl_capacity b"
    and at: "bl_instruction_index b = word_of_nat i" "bl_inner_index b = word_of_nat j"
  shows "extract_instruction b ix =
     idx_try (instruction_rows (bl_tx b) (i, j, bl_inner b) ix) (\<lambda>rows. Inr (b\<lparr>bl_rows := bl_rows b @ rows\<rparr>))"
proof -
  have row: "builder_row b = Some (stamped (i, j, bl_inner b))"
    using room at by (simp add: builder_row_def stamped_def)
  note defs = extract_instruction_def instruction_rows_def extract_system_def extract_token_def extract_token_2022_def
    known_def row commit_eq accepted_option_def Let_def
  show ?thesis
    by (simp add: defs del: idx_system_instruction_decode.simps idx_token_instruction_decode.simps
        idx_token_2022_instruction_decode.simps idx_token_2022_transfer_with_fee_decode.simps
        split: sum.splits option.splits idx_token_2022_instruction.splits)
      (auto simp: idx_try_def split: sum.splits)
qed

text \<open>An instruction contributes at most one row, stamped with its place and with a real amount.\<close>

definition row_at :: "place \<Rightarrow> idx_transfer \<Rightarrow> bool" where
  "row_at p row \<longleftrightarrow> (case p of (i, j, inner) \<Rightarrow> tr_instruction_index row = word_of_nat i \<and>
     tr_inner_index row = word_of_nat j \<and> tr_inner row = inner) \<and> tr_amount row \<noteq> 0 \<and>
     (tr_kind row = IDX_TRANSFER_SOL \<longrightarrow> \<not> tr_has_mint row)"

lemma resolve_keeps:
  "tr_instruction_index (resolve_from_balances tx row) = tr_instruction_index row"
  "tr_inner_index (resolve_from_balances tx row) = tr_inner_index row"
  "tr_inner (resolve_from_balances tx row) = tr_inner row"
  "tr_amount (resolve_from_balances tx row) = tr_amount row"
  "tr_kind (resolve_from_balances tx row) = tr_kind row"
  by (auto simp: resolve_from_balances_def Let_def split: option.splits)

definition stamp_kept :: "place \<Rightarrow> idx_transfer \<Rightarrow> bool" where
  "stamp_kept p row \<longleftrightarrow> (case p of (i, j, inner) \<Rightarrow> tr_instruction_index row = word_of_nat i \<and>
     tr_inner_index row = word_of_nat j \<and> tr_inner row = inner) \<and>
     (tr_kind row = IDX_TRANSFER_SOL \<longrightarrow> \<not> tr_has_mint row)"

lemma stamp_system: "fill_from_system d ((stamped p)\<lparr>tr_kind := IDX_TRANSFER_SOL\<rparr>) = Some row \<Longrightarrow> stamp_kept p row"
  by (cases p) (auto simp: fill_from_system_def Let_def stamped_def zero_row_def stamp_kept_def
      split: idx_system_ix_kind.splits)

lemma stamp_token: "fill_from_token d (stamped p) = Some row \<Longrightarrow> stamp_kept p row"
  by (cases p) (auto simp: fill_from_token_def Let_def stamped_def zero_row_def stamp_kept_def
      split: option.splits if_splits)

lemma stamp_fee: "stamp_kept p (fill_with_fee t (stamped p))"
  by (cases p) (auto simp: fill_with_fee_def stamped_def stamp_kept_def)

lemma accepted_row: "stamp_kept p row \<Longrightarrow> row' \<in> set (accepted tx row) \<Longrightarrow> row_at p row'"
  by (auto simp: accepted_def stamp_kept_def row_at_def resolve_keeps split: prod.splits if_splits)

lemma length_accepted: "length (accepted tx row) \<le> 1" "length (accepted_option tx filled) \<le> 1"
  by (auto simp: accepted_def accepted_option_def split: option.splits)

lemma instruction_rows_Inr:
  assumes "instruction_rows tx p ix = Inr rows"
  shows "length rows \<le> 1 \<and> (\<forall>row \<in> set rows. row_at p row)"
proof -
  have opt: "length (accepted_option tx filled) \<le> 1 \<and> (\<forall>row \<in> set (accepted_option tx filled). row_at p row)"
    if "\<And>row. filled = Some row \<Longrightarrow> stamp_kept p row" for filled
  proof (cases filled)
    case (Some row)
    then show ?thesis using accepted_row [OF that [OF Some]] length_accepted(1) by (auto simp: accepted_option_def)
  qed (simp add: accepted_option_def)
  note system = opt [OF stamp_system]
  note token = opt [OF stamp_token]
  have fee: "length (accepted tx (fill_with_fee t (stamped p))) \<le> 1 \<and>
      (\<forall>row \<in> set (accepted tx (fill_with_fee t (stamped p))). row_at p row)" for t
    using accepted_row [OF stamp_fee] length_accepted(1) by blast
  show ?thesis using assms
    by (auto simp: instruction_rows_def known_def Let_def idx_try_Inr_iff system token fee
        length_accepted [unfolded One_nat_def]
        simp del: idx_system_instruction_decode.simps idx_token_instruction_decode.simps
          idx_token_2022_instruction_decode.simps idx_token_2022_transfer_with_fee_decode.simps
        split: if_splits sum.splits idx_token_2022_instruction.splits)
qed

lemma rows_of_length: "rows_of tx places = Inr rows \<Longrightarrow> length rows \<le> length places"
proof (induction places arbitrary: rows)
  case (Cons x places)
  obtain p ix where x: "x = (p, ix)" by (cases x)
  then obtain a b where "instruction_rows tx p ix = Inr a" "rows_of tx places = Inr b" "rows = a @ b"
    using Cons.prems by (auto simp: idx_try_Inr_iff)
  then show ?case using Cons.IH [of b] instruction_rows_Inr [of tx p ix a] by simp
qed simp

lemma walk_inner_eq:
  "length (bl_rows b) + length ixs \<le> bl_capacity b \<Longrightarrow> bl_instruction_index b = word_of_nat i \<Longrightarrow> bl_inner b \<Longrightarrow>
     \<exists>w. walk_inner j ixs b = idx_try (rows_of (bl_tx b) (inner_places i j ixs)) (\<lambda>rows.
       Inr (b\<lparr>bl_rows := bl_rows b @ rows, bl_inner_index := w\<rparr>))"
proof (induction ixs arbitrary: j b)
  case Nil
  show ?case by (rule exI [of _ "bl_inner_index b"]) (simp add: inner_places_def)
next
  case (Cons ix ixs)
  let ?b = "b\<lparr>bl_inner_index := word_of_nat j\<rparr>"
  have split: "inner_places i j (ix # ixs) = ((i, j, True), ix) # inner_places i (Suc j) ixs"
    unfolding inner_places_def by (simp add: upt_conv_Cons flip: map_Suc_upt del: upt_Suc)
  have step: "extract_instruction ?b ix =
      idx_try (instruction_rows (bl_tx b) (i, j, True) ix) (\<lambda>rows. Inr (?b\<lparr>bl_rows := bl_rows b @ rows\<rparr>))"
    using extract_instruction_eq [of ?b i j ix] Cons.prems by simp
  show ?case
  proof (cases "instruction_rows (bl_tx b) (i, j, True) ix")
    case (Inl e)
    then show ?thesis using step split by simp
  next
    case (Inr rows)
    let ?c = "?b\<lparr>bl_rows := bl_rows b @ rows\<rparr>"
    have "length (bl_rows ?c) + length ixs \<le> bl_capacity ?c"
      using Cons.prems(1) instruction_rows_Inr [OF Inr] by simp
    then obtain w where "walk_inner (Suc j) ixs ?c = idx_try (rows_of (bl_tx ?c) (inner_places i (Suc j) ixs)) (\<lambda>rows.
       Inr (?c\<lparr>bl_rows := bl_rows ?c @ rows, bl_inner_index := w\<rparr>))"
      using Cons.IH [of ?c "Suc j"] Cons.prems by auto
    then show ?thesis using step split Inr
      by (cases "rows_of (bl_tx b) (inner_places i (Suc j) ixs)") (auto intro!: exI [of _ w])
  qed
qed

lemma walk_top_eq:
  "length (bl_rows b) + length (execution_from (bl_tx b) i ixs) \<le> bl_capacity b \<Longrightarrow>
     idx_try (walk_top i ixs b) (\<lambda>b. Inr (bl_rows b)) =
       idx_try (rows_of (bl_tx b) (execution_from (bl_tx b) i ixs)) (\<lambda>rows. Inr (bl_rows b @ rows))"
proof (induction ixs arbitrary: i b)
  case (Cons ix ixs)
  let ?tx = "bl_tx b"
  let ?b = "b\<lparr>bl_instruction_index := word_of_nat i, bl_inner_index := 0, bl_inner := False\<rparr>"
  have step: "extract_instruction ?b ix =
      idx_try (instruction_rows ?tx (i, 0, False) ix) (\<lambda>rows. Inr (?b\<lparr>bl_rows := bl_rows b @ rows\<rparr>))"
    using extract_instruction_eq [of ?b i 0 ix] Cons.prems by simp
  show ?case
  proof (cases "instruction_rows ?tx (i, 0, False) ix")
    case (Inl e)
    then show ?thesis using step by simp
  next
    case (Inr rows)
    let ?c = "?b\<lparr>bl_rows := bl_rows b @ rows\<rparr>"
    let ?ci = "?c\<lparr>bl_inner := True\<rparr>"
    have len: "length (bl_rows ?c) + length (inner_of ?tx i) + length (execution_from ?tx (Suc i) ixs) \<le> bl_capacity b"
      using Cons.prems instruction_rows_Inr [OF Inr] by (simp add: inner_places_def)
    have places: "length (inner_places i 0 (inner_of ?tx i)) = length (inner_of ?tx i)" by (simp add: inner_places_def)
    obtain w inner where inner: "(case inner_group ?tx i of None \<Rightarrow> Inr ?c
          | Some grp \<Rightarrow> walk_inner 0 (grp_instructions grp) ?ci) =
        idx_try (rows_of ?tx (inner_places i 0 (inner_of ?tx i))) (\<lambda>more.
          Inr (?c\<lparr>bl_rows := bl_rows ?c @ more, bl_inner_index := w, bl_inner := inner\<rparr>))"
    proof (cases "inner_group ?tx i")
      case None
      then show ?thesis using that [where w = "bl_inner_index ?c" and inner = "bl_inner ?c"] by (simp add: inner_of_def inner_places_def)
    next
      case (Some grp)
      then have "length (bl_rows ?ci) + length (grp_instructions grp) \<le> bl_capacity ?ci"
        using len by (simp add: inner_of_def)
      then obtain w where "walk_inner 0 (grp_instructions grp) ?ci =
          idx_try (rows_of ?tx (inner_places i 0 (grp_instructions grp))) (\<lambda>more.
            Inr (?ci\<lparr>bl_rows := bl_rows ?ci @ more, bl_inner_index := w\<rparr>))"
        using walk_inner_eq [of ?ci "grp_instructions grp" i 0] by auto
      moreover have "?ci\<lparr>bl_rows := bl_rows ?ci @ more, bl_inner_index := w\<rparr> =
          ?c\<lparr>bl_rows := bl_rows ?c @ more, bl_inner_index := w, bl_inner := True\<rparr>" for more
        by (cases b) simp
      ultimately show ?thesis using Some that [where w = w and inner = True] by (simp only: inner_of_def option.case)
    qed
    have rest: "length more \<le> length (inner_of ?tx i) \<Longrightarrow>
        idx_try (walk_top (Suc i) ixs (?c\<lparr>bl_rows := bl_rows ?c @ more, bl_inner_index := w, bl_inner := inner\<rparr>))
          (\<lambda>b. Inr (bl_rows b)) =
        idx_try (rows_of ?tx (execution_from ?tx (Suc i) ixs)) (\<lambda>last. Inr (bl_rows ?c @ more @ last))" for more
      using Cons.IH [of "?c\<lparr>bl_rows := bl_rows ?c @ more, bl_inner_index := w, bl_inner := inner\<rparr>" "Suc i"] len
      by simp
    show ?thesis
    proof (cases "rows_of ?tx (inner_places i 0 (inner_of ?tx i))")
      case (Inl e)
      then show ?thesis using step Inr inner by (simp add: rows_of_append)
    next
      case inr: (Inr more)
      have "length more \<le> length (inner_of ?tx i)"
        using rows_of_length [OF inr] places by simp
      from rest [OF this] show ?thesis using step Inr inner inr
        by (cases "rows_of ?tx (execution_from ?tx (Suc i) ixs)") (simp_all add: rows_of_append)
    qed
  qed
qed simp

text \<open>One row per instruction is enough room: the groups of different instructions are different.\<close>

lemma sum_groups:
  "(\<Sum>i = a..<n. length (case find (\<lambda>g. unat (grp_index g) = i) gs of None \<Rightarrow> [] | Some grp \<Rightarrow> grp_instructions grp))
     \<le> sum_list (map (\<lambda>g. length (grp_instructions g)) gs)"
proof (induction gs)
  case (Cons g gs)
  let ?f = "\<lambda>gs i. length (case find (\<lambda>g. unat (grp_index g) = i) gs of None \<Rightarrow> [] | Some grp \<Rightarrow> grp_instructions grp)"
  have "?f (g # gs) i \<le> (if i = unat (grp_index g) then length (grp_instructions g) else 0) + ?f gs i" for i by auto
  then have "sum (?f (g # gs)) {a..<n} \<le>
      (\<Sum>i = a..<n. (if i = unat (grp_index g) then length (grp_instructions g) else 0) + ?f gs i)"
    by (rule sum_mono)
  also have "\<dots> \<le> length (grp_instructions g) + sum (?f gs) {a..<n}"
    by (simp add: sum.distrib)
  also have "\<dots> \<le> length (grp_instructions g) + sum_list (map (\<lambda>g. length (grp_instructions g)) gs)"
    using Cons by simp
  finally show ?case by simp
qed simp

lemma length_execution_from:
  "length (execution_from tx i ixs) = length ixs + (\<Sum>k = i..<i + length ixs. length (inner_of tx k))"
  by (induction ixs arbitrary: i) (simp_all add: inner_places_def sum.atLeast_Suc_lessThan)

lemma instruction_total_eq:
  "instruction_total tx = length (instructions tx) + sum_list (map (\<lambda>g. length (grp_instructions g)) (inner_instructions tx))"
proof -
  have "fold (\<lambda>g total. total + length (grp_instructions g)) gs n = n + sum_list (map (\<lambda>g. length (grp_instructions g)) gs)"
    for gs n by (induction gs arbitrary: n) auto
  then show ?thesis by (simp add: instruction_total_def)
qed

lemma execution_fits: "length (execution tx) \<le> instruction_total tx"
  using sum_groups [where a = 0 and n = "length (instructions tx)" and gs = "inner_instructions tx"]
  by (simp add: execution_def length_execution_from instruction_total_eq inner_of_def inner_group_def)

section \<open>Errors\<close>

lemma decode_system_Inl:
  assumes "idx_system_instruction_decode (Some tx) (Some ix) = Inl e"
  shows "e = IDX_ERR_RANGE \<or> e = IDX_ERR_PARSE \<or> e = IDX_ERR_NOT_FOUND"
proof -
  have seed: "read_seed c = Inl e \<Longrightarrow> e = IDX_ERR_RANGE" for c e
    by (auto simp: read_seed_def idx_try_Inl_iff dest: reader_Inl split: if_splits)
  have "decode_system_operands tx ix kind c = Inl e \<Longrightarrow> e = IDX_ERR_RANGE \<or> e = IDX_ERR_PARSE" for kind c
    by (cases kind) (auto simp: decode_system_operands_def idx_try_Inl_iff dest: reader_Inl seed)
  then show ?thesis using assms by (auto simp: idx_try_Inl_iff Let_def dest: reader_Inl split: if_splits)
qed

lemma decode_own_Inl: "decode_own_operands tx ix kind c = Inl e \<Longrightarrow> e = IDX_ERR_RANGE \<or> e = IDX_ERR_PARSE"
  by (cases kind) (auto simp: decode_own_operands_def decode_extension_def decode_reallocate_def
      idx_token_2022_ix_is_extension_def idx_try_Inl_iff dest: reader_Inl split: if_splits)

lemma decode_token_2022_Inl:
  assumes "idx_token_2022_instruction_decode (Some tx) (Some ix) = Inl e"
  shows "e = IDX_ERR_RANGE \<or> e = IDX_ERR_PARSE \<or> e = IDX_ERR_NOT_FOUND"
proof (cases "idx_token_instruction_decode (Some tx) (Some ix)")
  case (Inl f)
  then show ?thesis using assms token_decode_Inl [OF Inl] decode_own_Inl
    by (fastforce simp: idx_try_Inl_iff Let_def simp del: idx_token_instruction_decode.simps
        dest: reader_Inl split: if_splits)
qed (use assms in \<open>simp del: idx_token_instruction_decode.simps\<close>)

lemma decode_with_fee_Inl:
  "idx_token_2022_transfer_with_fee_decode (Some tx) (Some ix) view = Inl e \<Longrightarrow> e = IDX_ERR_RANGE \<or> e = IDX_ERR_PARSE"
  by (auto simp: idx_try_Inl_iff dest: reader_Inl)

lemma instruction_rows_Inl: "instruction_rows tx p ix = Inl e \<Longrightarrow> e = IDX_ERR_RANGE \<or> e = IDX_ERR_PARSE"
  by (auto simp: instruction_rows_def known_def Let_def idx_try_Inl_iff
      simp del: idx_system_instruction_decode.simps idx_token_instruction_decode.simps
        idx_token_2022_instruction_decode.simps idx_token_2022_transfer_with_fee_decode.simps
      dest: decode_system_Inl token_decode_Inl decode_token_2022_Inl decode_with_fee_Inl
      split: if_splits sum.splits idx_token_2022_instruction.splits)

lemma rows_of_Inl: "rows_of tx places = Inl e \<Longrightarrow> e = IDX_ERR_RANGE \<or> e = IDX_ERR_PARSE"
  by (induction places) (auto simp: idx_try_Inl_iff dest: instruction_rows_Inl)

section \<open>Order\<close>

text \<open>Where a row says it ran, as a number that grows along the execution.\<close>

definition position :: "idx_transfer \<Rightarrow> nat" where
  "position row = unat (tr_instruction_index row) * 65537 +
     (if tr_inner row then unat (tr_inner_index row) + 1 else 0)"

definition place_number :: "place \<Rightarrow> nat" where
  "place_number p = (case p of (i, j, inner) \<Rightarrow> i * 65537 + (if inner then j + 1 else 0))"

definition small_place :: "place \<Rightarrow> bool" where
  "small_place p \<longleftrightarrow> (case p of (i, j, inner) \<Rightarrow> i < 65536 \<and> j < 65536)"

lemma unat_u16: "n < 65536 \<Longrightarrow> unat (word_of_nat n :: u16) = n"
  by (simp add: unsigned_of_nat take_bit_nat_eq_self)

lemma row_at_position: "row_at p row \<Longrightarrow> small_place p \<Longrightarrow> position row = place_number p"
  by (cases p) (auto simp: row_at_def position_def place_number_def small_place_def unat_u16)

lemma rows_of_positions:
  "rows_of tx places = Inr rows \<Longrightarrow> list_all (\<lambda>x. small_place (fst x)) places \<Longrightarrow>
     sorted_wrt (<) (map (\<lambda>x. place_number (fst x)) places) \<Longrightarrow>
     sorted_wrt (<) (map position rows) \<and> position ` set rows \<subseteq> place_number ` fst ` set places"
proof (induction places arbitrary: rows)
  case (Cons x places)
  obtain p ix where x: "x = (p, ix)" by (cases x)
  obtain a b where a: "instruction_rows tx p ix = Inr a" and b: "rows_of tx places = Inr b" and rows: "rows = a @ b"
    using Cons.prems(1) x by (auto simp: idx_try_Inr_iff)
  have IH: "sorted_wrt (<) (map position b)" "position ` set b \<subseteq> place_number ` fst ` set places"
    using Cons.IH [OF b] Cons.prems by auto
  have pos: "\<forall>row \<in> set a. position row = place_number p" and len: "length a \<le> 1"
    using instruction_rows_Inr [OF a] Cons.prems(2) x by (auto intro: row_at_position)
  have below: "\<forall>n \<in> place_number ` fst ` set places. place_number p < n" using Cons.prems(3) x by auto
  have "a = [] \<or> (\<exists>row. a = [row])" using len by (cases a) auto
  then show ?case using IH pos below rows x by (fastforce simp: image_iff)
qed simp

lemma sorted_inner: "sorted_wrt (<) (map (\<lambda>x. place_number (fst x)) (inner_places i j ixs))"
  by (simp add: inner_places_def place_number_def sorted_wrt_iff_nth_less)

lemma execution_sorted:
  assumes "\<And>k. length (inner_of tx k) \<le> 65536"
  shows "sorted_wrt (<) (map (\<lambda>x. place_number (fst x)) (execution_from tx i ixs)) \<and>
     (\<forall>x \<in> set (execution_from tx i ixs). i * 65537 \<le> place_number (fst x))"
proof (induction ixs arbitrary: i)
  case (Cons ix ixs)
  have inner: "i * 65537 < place_number (fst x) \<and> place_number (fst x) < Suc i * 65537"
    if "x \<in> set (inner_places i 0 (inner_of tx i))" for x
    using that assms [of i] by (auto simp: inner_places_def place_number_def)
  have later: "Suc i * 65537 \<le> place_number (fst x)" if "x \<in> set (execution_from tx (Suc i) ixs)" for x
    using Cons.IH [of "Suc i"] that by blast
  have "place_number (i, 0, False) = i * 65537" by (simp add: place_number_def)
  then show ?case using Cons.IH [of "Suc i"] inner later sorted_inner [of i 0 "inner_of tx i"]
    by (fastforce simp: sorted_wrt_append)
qed simp

lemma execution_small:
  assumes "\<And>k. length (inner_of tx k) \<le> 65536" "i + length ixs \<le> 65536"
  shows "list_all (\<lambda>x. small_place (fst x)) (execution_from tx i ixs)"
  using assms(2)
proof (induction ixs arbitrary: i)
  case (Cons ix ixs)
  have "list_all (\<lambda>x. small_place (fst x)) (inner_places i 0 (inner_of tx i))"
    using assms(1) [of i] Cons.prems by (auto simp: inner_places_def list_all_iff small_place_def)
  then show ?case using Cons by (auto simp: small_place_def)
qed simp

lemma transfer_extract_eq:
  "idx_transfer_extract malloc (Some tx) (Some a) =
     (if \<not> has_meta tx \<or> \<not> success tx \<or> accounts tx = [] \<or> instruction_total tx = 0 then (Inr [], Some a)
      else case idx_arena_calloc malloc (instruction_total tx) SIZEOF_idx_transfer (Some a) of
        (Inl e, b) \<Rightarrow> (Inl e, b)
      | (Inr _, b) \<Rightarrow> (rows_of tx (execution tx), b))"
proof -
  let ?b = "\<lparr>bl_tx = tx, bl_rows = [], bl_capacity = instruction_total tx, bl_instruction_index = 0,
    bl_inner_index = 0, bl_inner = False\<rparr>"
  have "idx_try (walk_top 0 (instructions tx) ?b) (\<lambda>b. Inr (bl_rows b)) = rows_of tx (execution tx)"
    using walk_top_eq [of ?b 0 "instructions tx"] execution_fits [of tx]
    by (cases "rows_of tx (execution tx)") (simp_all add: execution_def)
  then show ?thesis by (simp add: op_try_def op_return_def Let_def split: prod.split sum.split)
qed

section \<open>A concrete transaction\<close>

text \<open>One System instruction with the given data, on an account that pays itself.\<close>

definition sample_tx :: "bytes \<Rightarrow> idx_transaction" where
  "sample_tx data = \<lparr>version = IDX_TX_VERSION_LEGACY, signatures = [], num_required_signatures = 1,
     num_readonly_signed = 0, num_readonly_unsigned = 0, recent_blockhash = zero_hash,
     accounts = [\<lparr>pubkey = IDX_PROGRAM_SYSTEM, is_signer = False, is_writable = True, from_lookup_table = False\<rparr>],
     static_account_count = 1,
     instructions = [\<lparr>program_id_index = 0, account_indices = [0, 0], ix_data = data, stack_height = 0\<rparr>],
     inner_instructions = [], has_meta = True, success = True, fee = 0, pre_balances = [], post_balances = [],
     pre_token_balances = [], post_token_balances = [], logs = []\<rparr>"

definition sample_row :: idx_transfer where
  "sample_row = zero_row\<lparr>tr_source := IDX_PROGRAM_SYSTEM, tr_destination := IDX_PROGRAM_SYSTEM, tr_amount := 7\<rparr>"

lemmas sample_defs = transfer_extract_eq sample_tx_def sample_arena_def instruction_total_def execution_def
  inner_of_def inner_group_def inner_places_def instruction_rows_def idx_instruction_program_id_def known_def
  idx_pubkey_equal_def idx_arena_calloc_def idx_arena_alloc_def arena_eval ALIGNOF_max_align_t_def
  SIZEOF_idx_transfer_def idx_cursor_u32le_eq idx_cursor_u64le_eq unread_init op_return_def

lemma sample_words: "le_word 4 [2, 0, 0, 0] = (2 :: u32)" "le_word 8 [7, 0, 0, 0, 0, 0, 0, 0] = (7 :: u64)"
  by (code_simp, code_simp)

lemma sample_decode:
  "idx_system_instruction_decode (Some (sample_tx [2, 0, 0, 0, 7, 0, 0, 0, 0, 0, 0, 0]))
       (Some \<lparr>program_id_index = 0, account_indices = [0, 0], ix_data = [2, 0, 0, 0, 7, 0, 0, 0, 0, 0, 0, 0],
              stack_height = 0\<rparr>) =
     Inr \<lparr>sys_kind = IDX_SYSTEM_IX_TRANSFER, sys_operands = Sol_transfer IDX_PROGRAM_SYSTEM IDX_PROGRAM_SYSTEM 7\<rparr>"
  by (simp add: sample_tx_def idx_cursor_u32le_eq idx_cursor_u64le_eq unread_init unread_advance sample_words
      system_kinds_def decode_system_operands_def require_account_def idx_instruction_account_def Let_def)

lemma sample_key_equal: "idx_pubkey_equal IDX_PROGRAM_SYSTEM IDX_PROGRAM_SYSTEM"
  by (simp add: idx_pubkey_equal_def)


section \<open>Properties\<close>

text \<open>
  C4: The extraction is the sum of what each instruction contributes. For a transaction that
  succeeded, the walk with its bounded array gives exactly the rows of the instructions taken
  one by one, each top-level one before those it expanded into, or the first error among
  them; the array of one row per instruction never runs out. Without metadata, for a failed
  transaction or an empty one there are no rows and nothing is allocated.
\<close>

theorem transfer_extract_refines:
  "idx_transfer_extract malloc (Some tx) (Some a) =
     (if has_meta tx \<and> success tx \<and> accounts tx \<noteq> [] \<and> instruction_total tx > 0
      then case idx_arena_calloc malloc (instruction_total tx) SIZEOF_idx_transfer (Some a) of
        (Inl e, b) \<Rightarrow> (Inl e, b)
      | (Inr _, b) \<Rightarrow> (rows_of tx (execution tx), b)
      else (Inr [], Some a))"
  unfolding transfer_extract_eq by simp

text \<open>
  C35: Rows are real and in execution order. Every row has a non-zero amount, a SOL row names no
  mint, and the places stamped on the rows (top-level index, then inner index) strictly
  increase, so a row is identified by its place, as long as the indices fit in 16 bits.
\<close>

theorem transfer_rows_ordered:
  assumes "idx_transfer_extract malloc (Some tx) (Some a) = (Inr rows, b)"
    and "length (instructions tx) \<le> 65536"
    and "\<forall>grp \<in> set (inner_instructions tx). length (grp_instructions grp) \<le> 65536"
  shows "sorted_wrt (<) (map position rows) \<and>
     (\<forall>row \<in> set rows. tr_amount row \<noteq> 0 \<and> (tr_kind row = IDX_TRANSFER_SOL \<longrightarrow> \<not> tr_has_mint row))"
proof -
  have inner: "length (inner_of tx k) \<le> 65536" for k
    using assms(3) by (auto simp: inner_of_def inner_group_def find_Some_iff split: option.splits)
  consider "rows = []" | "rows_of tx (execution tx) = Inr rows"
    using assms(1) transfer_extract_eq [of malloc tx a]
    by (auto split: if_splits prod.splits sum.splits)
  then show ?thesis
  proof cases
    case 2
    have "sorted_wrt (<) (map position rows)"
      using rows_of_positions [OF 2] execution_sorted [OF inner] execution_small [OF inner] assms(2)
      by (simp add: execution_def)
    moreover have "rows_of tx places = Inr rs \<Longrightarrow> row \<in> set rs \<Longrightarrow> \<exists>p. row_at p row" for places rs row
      by (induction places arbitrary: rs) (fastforce simp: idx_try_Inr_iff dest: instruction_rows_Inr)+
    ultimately show ?thesis using 2 by (fastforce simp: row_at_def)
  qed simp
qed

text \<open>
  Extraction fails only as documented. The error is the allocator's, the size check's, or a
  decoder's RANGE or PARSE; an unknown instruction is skipped and the internal error for a
  full array cannot occur.
\<close>

theorem transfer_errors:
  assumes "idx_transfer_extract malloc (Some tx) (Some a) = (Inl e, b)"
  shows "e \<in> {IDX_ERR_NO_MEMORY, IDX_ERR_RANGE, IDX_ERR_PARSE}"
proof -
  have "e \<in> {IDX_ERR_NO_MEMORY, IDX_ERR_RANGE}"
    if "idx_arena_calloc malloc n w (Some a) = (Inl e, b)" for n w e b
    using that by (auto simp: idx_arena_calloc_def idx_arena_alloc_def ALIGNOF_max_align_t_def is_power_of_two_def
        chunk_new_def Let_def split: if_splits option.splits prod.splits sum.splits)
  then show ?thesis using assms transfer_extract_eq [of malloc tx a] rows_of_Inl [of tx "execution tx" e]
    by (auto split: if_splits prod.splits sum.splits)
qed

theorem transfer_rows_ordered_witness:
  "\<exists>b. idx_transfer_extract one_block_malloc (Some (sample_tx [2, 0, 0, 0, 7, 0, 0, 0, 0, 0, 0, 0])) (Some sample_arena) =
       (Inr [sample_row], b) \<and>
     sorted_wrt (<) (map position [sample_row]) \<and> tr_amount sample_row \<noteq> 0 \<and> \<not> tr_has_mint sample_row"
proof -
  obtain b where run: "idx_transfer_extract one_block_malloc (Some (sample_tx [2, 0, 0, 0, 7, 0, 0, 0, 0, 0, 0, 0])) (Some sample_arena) = (Inr [sample_row], b)"
    by (simp add: sample_defs sample_decode [unfolded sample_tx_def One_nat_def] fill_from_system_def sample_row_def
        zero_row_def stamped_def accepted_option_def accepted_def
        del: idx_transfer_extract.simps idx_system_instruction_decode.simps)
  from transfer_rows_ordered [OF run] have "sorted_wrt (<) (map position [sample_row])" "tr_amount sample_row \<noteq> 0"
    "tr_kind sample_row = IDX_TRANSFER_SOL \<Longrightarrow> \<not> tr_has_mint sample_row"
    by (simp_all add: sample_tx_def)
  moreover have "tr_kind sample_row = IDX_TRANSFER_SOL" by (simp add: sample_row_def zero_row_def)
  ultimately show ?thesis using run by blast
qed

theorem transfer_errors_witness:
  "\<exists>e. fst (idx_transfer_extract one_block_malloc (Some (sample_tx [])) (Some sample_arena)) = Inl e \<and>
     e \<in> {IDX_ERR_NO_MEMORY, IDX_ERR_RANGE, IDX_ERR_PARSE}"
proof -
  obtain b where "idx_transfer_extract one_block_malloc (Some (sample_tx [])) (Some sample_arena) = (Inl IDX_ERR_RANGE, b)"
    by (simp add: sample_defs del: idx_transfer_extract.simps)
  with transfer_errors [OF this] show ?thesis by simp
qed

end
