(* ===== verification/Swaps.thy ===== *)
theory Swaps
  imports SwapDecode Transfers Base64
begin

text \<open>
  Swap normalization (\<^verbatim>\<open>src/swap.c\<close>, \<^verbatim>\<open>include/swap.h\<close>): what a venue states about a trade is
  completed from the block's token balances and Raydium's log lines into a row, and the legs of
  a Jupiter route are netted into one aggregated row. The builder's arrays are lists. The
  static functions \<^verbatim>\<open>inner_group\<close> and \<^verbatim>\<open>instruction_total\<close> are copies of those of
  \<^verbatim>\<open>src/transfer.c\<close> and reused from \<open>Transfers\<close>.
\<close>

section \<open>Model\<close>

definition IDX_WSOL_DECIMALS :: byte where "IDX_WSOL_DECIMALS = 9"
definition MAX_ROUTE_MINTS :: nat where "MAX_ROUTE_MINTS = 24"

datatype idx_amount_source = IDX_AMOUNT_NONE | IDX_AMOUNT_EVENT | IDX_AMOUNT_RAYLOG | IDX_AMOUNT_DELTA

definition idx_amount_source_name :: "idx_amount_source \<Rightarrow> string" where
  "idx_amount_source_name src = (case src of
      IDX_AMOUNT_NONE \<Rightarrow> ''none''
    | IDX_AMOUNT_EVENT \<Rightarrow> ''event''
    | IDX_AMOUNT_RAYLOG \<Rightarrow> ''raylog''
    | IDX_AMOUNT_DELTA \<Rightarrow> ''delta'')"

datatype idx_swap_row_kind = IDX_SWAP_POOL | IDX_SWAP_AGGREGATED

record idx_swap_row =
  rw_kind :: idx_swap_row_kind
  rw_venue :: idx_venue
  rw_source :: idx_amount_source
  rw_instruction_index :: u16
  rw_inner_index :: u16
  rw_inner :: bool
  rw_pool :: idx_pubkey
  rw_has_pool :: bool
  rw_user :: idx_pubkey
  rw_has_user :: bool
  rw_input_mint :: idx_pubkey
  rw_has_input_mint :: bool
  rw_input_amount :: u64
  rw_has_input_amount :: bool
  rw_input_decimals :: byte
  rw_has_input_decimals :: bool
  rw_output_mint :: idx_pubkey
  rw_has_output_mint :: bool
  rw_output_amount :: u64
  rw_has_output_amount :: bool
  rw_output_decimals :: byte
  rw_has_output_decimals :: bool

definition SIZEOF_idx_swap_row :: nat where "SIZEOF_idx_swap_row = 184"
definition SIZEOF_idx_raydium_swap_log :: nat where "SIZEOF_idx_raydium_swap_log = 24"

definition zero_swap_row :: idx_swap_row where
  "zero_swap_row = \<lparr>rw_kind = IDX_SWAP_POOL, rw_venue = IDX_VENUE_NONE, rw_source = IDX_AMOUNT_NONE,
     rw_instruction_index = 0, rw_inner_index = 0, rw_inner = False,
     rw_pool = IDX_PUBKEY_DEFAULT, rw_has_pool = False, rw_user = IDX_PUBKEY_DEFAULT, rw_has_user = False,
     rw_input_mint = IDX_PUBKEY_DEFAULT, rw_has_input_mint = False, rw_input_amount = 0,
     rw_has_input_amount = False, rw_input_decimals = 0, rw_has_input_decimals = False,
     rw_output_mint = IDX_PUBKEY_DEFAULT, rw_has_output_mint = False, rw_output_amount = 0,
     rw_has_output_amount = False, rw_output_decimals = 0, rw_has_output_decimals = False\<rparr>"

record route_mint =
  rm_mint :: idx_pubkey
  rm_in_sum :: u64
  rm_out_sum :: u64

record swap_builder =
  wb_tx :: idx_transaction
  wb_rows :: "idx_swap_row list"
  wb_capacity :: nat
  wb_instruction_index :: u16
  wb_inner_index :: u16
  wb_inner :: bool
  wb_raylogs :: "idx_raydium_swap_log list"
  wb_raylog_next :: nat
  wb_net :: "route_mint list"
  wb_net_overflow :: bool
  wb_saw_route :: bool
  wb_route_top_index :: u16

subsection \<open>Resolution against the balances\<close>

definition token_balance_of :: "idx_transaction \<Rightarrow> idx_pubkey \<Rightarrow> idx_token_balance option" where
  "token_balance_of tx acct =
     find (\<lambda>e. idx_pubkey_equal (pubkey (accounts tx ! unat (account_index e))) acct)
       (post_token_balances tx @ pre_token_balances tx)"

text \<open>A side is its mint and decimals with their flags; the C functions take pointers to the four.\<close>

type_synonym swap_side = "idx_pubkey \<times> bool \<times> byte \<times> bool"

definition on_input :: "(swap_side \<Rightarrow> swap_side) \<Rightarrow> idx_swap_row \<Rightarrow> idx_swap_row" where
  "on_input f row =
     (case f (rw_input_mint row, rw_has_input_mint row, rw_input_decimals row, rw_has_input_decimals row) of
        (m, hm, d, kd) \<Rightarrow> row\<lparr>rw_input_mint := m, rw_has_input_mint := hm, rw_input_decimals := d,
                             rw_has_input_decimals := kd\<rparr>)"

definition on_output :: "(swap_side \<Rightarrow> swap_side) \<Rightarrow> idx_swap_row \<Rightarrow> idx_swap_row" where
  "on_output f row =
     (case f (rw_output_mint row, rw_has_output_mint row, rw_output_decimals row, rw_has_output_decimals row) of
        (m, hm, d, kd) \<Rightarrow> row\<lparr>rw_output_mint := m, rw_has_output_mint := hm, rw_output_decimals := d,
                             rw_has_output_decimals := kd\<rparr>)"

definition resolve_side_from_account :: "idx_transaction \<Rightarrow> idx_pubkey \<Rightarrow> swap_side \<Rightarrow> swap_side" where
  "resolve_side_from_account tx acct side = (case token_balance_of tx acct of
      None \<Rightarrow> side
    | Some e \<Rightarrow> (tb_mint e, True, tb_decimals e, True))"

definition decimals_of_mint :: "idx_transaction \<Rightarrow> idx_pubkey \<Rightarrow> byte option" where
  "decimals_of_mint tx mnt =
     (if idx_pubkey_equal mnt IDX_MINT_WSOL then Some IDX_WSOL_DECIMALS
      else map_option tb_decimals
        (find (\<lambda>e. idx_pubkey_equal (tb_mint e) mnt) (post_token_balances tx @ pre_token_balances tx)))"

definition vault_delta :: "idx_transaction \<Rightarrow> idx_pubkey \<Rightarrow> (u64 \<times> bool) option" where
  "vault_delta tx vault =
     (let holds = (\<lambda>e. idx_pubkey_equal (pubkey (accounts tx ! unat (account_index e))) vault);
          pre_entry = find holds (pre_token_balances tx);
          post_entry = find holds (post_token_balances tx);
          pre = (case pre_entry of None \<Rightarrow> 0 | Some e \<Rightarrow> tb_amount e);
          post = (case post_entry of None \<Rightarrow> 0 | Some e \<Rightarrow> tb_amount e)
      in if pre_entry = None \<and> post_entry = None then None
         else let increased = post \<ge> pre in Some (if increased then post - pre else pre - post, increased))"

fun amount_from_vaults :: "idx_transaction \<Rightarrow> idx_pubkey \<Rightarrow> idx_pubkey list \<Rightarrow> u64 option" where
  "amount_from_vaults tx mnt [] = None"
| "amount_from_vaults tx mnt (vault # rest) =
     (case token_balance_of tx vault of
        Some e \<Rightarrow>
          if idx_pubkey_equal (tb_mint e) mnt then
            (case vault_delta tx vault of
               Some (magnitude, _) \<Rightarrow> Some magnitude
             | None \<Rightarrow> amount_from_vaults tx mnt rest)
          else amount_from_vaults tx mnt rest
      | None \<Rightarrow> amount_from_vaults tx mnt rest)"

definition amount_from_vault_of_mint ::
    "idx_transaction \<Rightarrow> idx_pubkey \<Rightarrow> idx_pubkey \<Rightarrow> idx_pubkey \<Rightarrow> u64 option" where
  "amount_from_vault_of_mint tx vault_a vault_b mnt = amount_from_vaults tx mnt [vault_a, vault_b]"

subsection \<open>Log lines\<close>

definition slice_find :: "idx_slice \<Rightarrow> string \<Rightarrow> nat" where
  "slice_find hay needle =
     (let nlen = length needle in
      if nlen = 0 \<or> length hay < nlen then length hay
      else (case find (\<lambda>i. take nlen (drop i hay) = chars_to_bytes needle) [0..<length hay - nlen + 1] of
              Some i \<Rightarrow> i
            | None \<Rightarrow> length hay))"

definition MARKER :: string where "MARKER = ''ray_log: ''"

text \<open>One line: \<open>None\<close> for the \<^verbatim>\<open>continue\<close>s and for a log that is not a swap.\<close>

definition raylog_of_line :: "idx_slice \<Rightarrow> idx_raydium_swap_log option" where
  "raylog_of_line line =
     (let at = slice_find line MARKER in
      if at = length line then None
      else let start = at + length MARKER; b64 = idx_slice_sub line start (length line - start) in
        (case idx_base64_decode (if b64 = [] then None else Some (map (\<lambda>b. char_of (unat b)) b64)) 96 of
           Inl _ \<Rightarrow> None
         | Inr decoded \<Rightarrow> (case idx_raydium_swap_log_parse decoded of
             Inl _ \<Rightarrow> None
           | Inr parsed \<Rightarrow> Some parsed)))"

fun collect_lines :: "idx_slice list \<Rightarrow> idx_raydium_swap_log list \<Rightarrow> idx_raydium_swap_log list" where
  "collect_lines [] logged = logged"
| "collect_lines (line # rest) logged =
     (case raylog_of_line line of
        None \<Rightarrow> collect_lines rest logged
      | Some parsed \<Rightarrow> collect_lines rest (logged @ [parsed]))"

definition collect_raylogs :: "malloc_fn \<Rightarrow> idx_transaction \<Rightarrow> idx_raydium_swap_log list arena_op" where
  "collect_raylogs malloc tx =
     (if logs tx = [] then op_return (Inr [])
      else op_try (idx_arena_calloc malloc (length (logs tx)) SIZEOF_idx_raydium_swap_log) (\<lambda>_.
        op_return (Inr (collect_lines (logs tx) []))))"

subsection \<open>Pool rows\<close>

definition swap_builder_row :: "swap_builder \<Rightarrow> idx_venue \<Rightarrow> idx_amount_source \<Rightarrow> idx_swap_row option" where
  "swap_builder_row b venue src =
     (if length (wb_rows b) \<ge> wb_capacity b then None
      else Some (zero_swap_row\<lparr>rw_kind := IDX_SWAP_POOL, rw_venue := venue, rw_source := src,
                   rw_instruction_index := wb_instruction_index b, rw_inner_index := wb_inner_index b,
                   rw_inner := wb_inner b\<rparr>))"

text \<open>The assignment of \<^verbatim>\<open>decimals_of_mint\<close>'s answer, which leaves the decimals alone on \<^verbatim>\<open>false\<close>.\<close>

definition take_decimals :: "idx_transaction \<Rightarrow> idx_pubkey \<Rightarrow> swap_side \<Rightarrow> swap_side" where
  "take_decimals tx mnt side = (case side of (m, hm, d, kd) \<Rightarrow>
     (case decimals_of_mint tx mnt of None \<Rightarrow> (m, hm, d, False) | Some x \<Rightarrow> (m, hm, x, True)))"

definition set_side_mint :: "idx_transaction \<Rightarrow> idx_pubkey \<Rightarrow> swap_side \<Rightarrow> swap_side" where
  "set_side_mint tx mnt side = (case side of (m, hm, d, kd) \<Rightarrow> take_decimals tx mnt (mnt, True, d, kd))"

definition normalize_pump_curve :: "idx_transaction \<Rightarrow> idx_swap \<Rightarrow> idx_swap_row \<Rightarrow> idx_swap_row" where
  "normalize_pump_curve tx sw row =
     (let row = row\<lparr>rw_user := sw_user sw, rw_has_user := sw_has_user sw,
            rw_input_mint := sw_input_mint sw, rw_has_input_mint := sw_has_input_mint sw,
            rw_input_amount := sw_input_amount sw, rw_has_input_amount := sw_has_input_amount sw,
            rw_output_mint := sw_output_mint sw, rw_has_output_mint := sw_has_output_mint sw,
            rw_output_amount := sw_output_amount sw, rw_has_output_amount := sw_has_output_amount sw\<rparr>;
          token = (if idx_pubkey_equal (sw_input_mint sw) IDX_MINT_WSOL then sw_output_mint sw else sw_input_mint sw);
          row = row\<lparr>rw_pool := token, rw_has_pool := True\<rparr>;
          row = on_input (take_decimals tx (sw_input_mint sw)) row
      in on_output (take_decimals tx (sw_output_mint sw)) row)"

definition find_pump_amm_accounts :: "idx_transaction \<Rightarrow> idx_pubkey \<Rightarrow> idx_pump_amm_accounts option" where
  "find_pump_amm_accounts tx pool =
     (case find (\<lambda>ix. case idx_venue_pump_amm_accounts tx ix of
                        None \<Rightarrow> False | Some acc \<Rightarrow> idx_pubkey_equal (am_pool acc) pool)
        (instructions tx @ concat (map grp_instructions (inner_instructions tx))) of
        None \<Rightarrow> None
      | Some ix \<Rightarrow> idx_venue_pump_amm_accounts tx ix)"

definition normalize_pump_amm :: "idx_transaction \<Rightarrow> idx_swap \<Rightarrow> idx_swap_row \<Rightarrow> idx_swap_row" where
  "normalize_pump_amm tx sw row =
     (let row = row\<lparr>rw_pool := sw_pool sw, rw_has_pool := sw_has_pool sw,
            rw_user := sw_user sw, rw_has_user := sw_has_user sw,
            rw_input_amount := sw_input_amount sw, rw_has_input_amount := sw_has_input_amount sw,
            rw_output_amount := sw_output_amount sw, rw_has_output_amount := sw_has_output_amount sw\<rparr>
      in case (if sw_has_pool sw then find_pump_amm_accounts tx (sw_pool sw) else None) of
           Some acc \<Rightarrow>
             (let input_is_base = (sw_has_input_account sw \<and>
                    idx_pubkey_equal (sw_input_account sw) (am_user_base_account acc));
                  input_mint = (if input_is_base then am_base_mint acc else am_quote_mint acc);
                  output_mint = (if input_is_base then am_quote_mint acc else am_base_mint acc)
              in on_output (set_side_mint tx output_mint) (on_input (set_side_mint tx input_mint) row))
         | None \<Rightarrow>
             (let row = (if sw_has_input_account sw
                         then on_input (resolve_side_from_account tx (sw_input_account sw)) row else row)
              in if sw_has_output_account sw
                 then on_output (resolve_side_from_account tx (sw_output_account sw)) row else row))"

definition resolve_both_mints :: "idx_transaction \<Rightarrow> idx_swap \<Rightarrow> idx_swap_row \<Rightarrow> idx_swap_row" where
  "resolve_both_mints tx sw row =
     (let row = (if sw_has_input_mint sw then on_input (set_side_mint tx (sw_input_mint sw)) row
                 else if sw_has_input_account sw
                 then on_input (resolve_side_from_account tx (sw_input_account sw)) row else row)
      in if sw_has_output_mint sw then on_output (set_side_mint tx (sw_output_mint sw)) row
         else if sw_has_output_account sw
         then on_output (resolve_side_from_account tx (sw_output_account sw)) row else row)"

text \<open>The row of a v4 swap and the position of the next unread log.\<close>

definition fill_amounts :: "idx_swap \<Rightarrow> idx_swap_row \<Rightarrow> idx_swap_row" where
  "fill_amounts sw row =
     row\<lparr>rw_input_amount := sw_input_amount sw, rw_has_input_amount := sw_has_input_amount sw,
         rw_output_amount := sw_output_amount sw, rw_has_output_amount := sw_has_output_amount sw\<rparr>"

definition amounts_from_vaults :: "idx_transaction \<Rightarrow> idx_swap \<Rightarrow> idx_swap_row \<Rightarrow> idx_swap_row" where
  "amounts_from_vaults tx sw row =
     (let row = fill_amounts sw (row\<lparr>rw_source := IDX_AMOUNT_DELTA\<rparr>);
          row = (if \<not> rw_has_input_amount row \<and> rw_has_input_mint row \<and> sw_has_pool_accounts sw
                 then case amount_from_vault_of_mint tx (sw_pool_account_a sw) (sw_pool_account_b sw) (rw_input_mint row) of
                        None \<Rightarrow> row\<lparr>rw_has_input_amount := False\<rparr>
                      | Some n \<Rightarrow> row\<lparr>rw_input_amount := n, rw_has_input_amount := True\<rparr>
                 else row)
      in if \<not> rw_has_output_amount row \<and> rw_has_output_mint row \<and> sw_has_pool_accounts sw
         then case amount_from_vault_of_mint tx (sw_pool_account_a sw) (sw_pool_account_b sw) (rw_output_mint row) of
                None \<Rightarrow> row\<lparr>rw_has_output_amount := False\<rparr>
              | Some n \<Rightarrow> row\<lparr>rw_output_amount := n, rw_has_output_amount := True\<rparr>
         else row)"

definition normalize_raydium_amm :: "swap_builder \<Rightarrow> idx_swap \<Rightarrow> idx_swap_row \<Rightarrow> idx_swap_row \<times> swap_builder" where
  "normalize_raydium_amm b sw row =
     (let row = row\<lparr>rw_pool := sw_pool sw, rw_has_pool := sw_has_pool sw,
            rw_user := sw_user sw, rw_has_user := sw_has_user sw\<rparr>;
          row = resolve_both_mints (wb_tx b) sw row;
          fixed_is_input = sw_has_input_amount sw;
          fixed = (if sw_has_input_amount sw then sw_input_amount sw else sw_output_amount sw)
      in if wb_raylog_next b < length (wb_raylogs b) then
           (let log = wb_raylogs b ! wb_raylog_next b;
                b = b\<lparr>wb_raylog_next := wb_raylog_next b + 1\<rparr>;
                log_fixed = (if fixed_is_input then rl_amount_in log else rl_amount_out log)
            in if fixed = 0 \<or> log_fixed = fixed
               then (row\<lparr>rw_source := IDX_AMOUNT_RAYLOG, rw_input_amount := rl_amount_in log,
                         rw_has_input_amount := True, rw_output_amount := rl_amount_out log,
                         rw_has_output_amount := True\<rparr>, b)
               else (amounts_from_vaults (wb_tx b) sw row, b))
         else (amounts_from_vaults (wb_tx b) sw row, b))"

definition normalize_raydium_clmm :: "idx_transaction \<Rightarrow> idx_swap \<Rightarrow> idx_swap_row \<Rightarrow> idx_swap_row" where
  "normalize_raydium_clmm tx sw row =
     (let row = row\<lparr>rw_pool := sw_pool sw, rw_has_pool := sw_has_pool sw,
            rw_user := sw_user sw, rw_has_user := sw_has_user sw, rw_source := IDX_AMOUNT_DELTA\<rparr>;
          row = fill_amounts sw (resolve_both_mints tx sw row)
      in if \<not> sw_has_pool_accounts sw then row
         else
           (let row = (if rw_has_input_amount row then row
                       else case vault_delta tx (sw_pool_account_a sw) of
                              None \<Rightarrow> row
                            | Some (magnitude, _) \<Rightarrow> row\<lparr>rw_input_amount := magnitude, rw_has_input_amount := True\<rparr>)
            in if rw_has_output_amount row then row
               else case vault_delta tx (sw_pool_account_b sw) of
                      None \<Rightarrow> row
                    | Some (magnitude, _) \<Rightarrow> row\<lparr>rw_output_amount := magnitude, rw_has_output_amount := True\<rparr>))"

subsection \<open>Route netting\<close>

text \<open>One side added to the totals; \<open>None\<close> when a new mint finds the array full.\<close>

fun add_side :: "route_mint list \<Rightarrow> nat \<Rightarrow> idx_pubkey \<Rightarrow> u64 \<Rightarrow> bool \<Rightarrow> route_mint list option" where
  "add_side [] passed mnt amt is_input =
     (if passed \<ge> MAX_ROUTE_MINTS then None
      else Some [if is_input then \<lparr>rm_mint = mnt, rm_in_sum = 0 + amt, rm_out_sum = 0\<rparr>
                 else \<lparr>rm_mint = mnt, rm_in_sum = 0, rm_out_sum = 0 + amt\<rparr>])"
| "add_side (entry # rest) passed mnt amt is_input =
     (if idx_pubkey_equal (rm_mint entry) mnt
      then Some ((if is_input then entry\<lparr>rm_in_sum := rm_in_sum entry + amt\<rparr>
                  else entry\<lparr>rm_out_sum := rm_out_sum entry + amt\<rparr>) # rest)
      else map_option (Cons entry) (add_side rest (Suc passed) mnt amt is_input))"

definition add_route_leg :: "swap_builder \<Rightarrow> idx_swap \<Rightarrow> swap_builder" where
  "add_route_leg b sw =
     (let b = b\<lparr>wb_saw_route := True\<rparr> in
      case add_side (wb_net b) 0 (sw_input_mint sw) (sw_input_amount sw) True of
        None \<Rightarrow> b\<lparr>wb_net_overflow := True\<rparr>
      | Some net \<Rightarrow>
          (let b = b\<lparr>wb_net := net\<rparr> in
           case add_side net 0 (sw_output_mint sw) (sw_output_amount sw) False of
             None \<Rightarrow> b\<lparr>wb_net_overflow := True\<rparr>
           | Some net \<Rightarrow> b\<lparr>wb_net := net\<rparr>))"

text \<open>The two maxima of the loop: a mint and its net amount on each end.\<close>

fun route_ends :: "route_mint list \<Rightarrow> (route_mint option \<times> u64) \<times> (route_mint option \<times> u64) \<Rightarrow>
    (route_mint option \<times> u64) \<times> (route_mint option \<times> u64)" where
  "route_ends [] ends = ends"
| "route_ends (m # rest) ((input, input_net), (output, output_net)) =
     (if rm_in_sum m > rm_out_sum m then
        (let net = rm_in_sum m - rm_out_sum m in
         if net > input_net then route_ends rest ((Some m, net), (output, output_net))
         else route_ends rest ((input, input_net), (output, output_net)))
      else if rm_out_sum m > rm_in_sum m then
        (let net = rm_out_sum m - rm_in_sum m in
         if net > output_net then route_ends rest ((input, input_net), (Some m, net))
         else route_ends rest ((input, input_net), (output, output_net)))
      else route_ends rest ((input, input_net), (output, output_net)))"

definition aggregated_row :: "idx_transaction \<Rightarrow> u16 \<Rightarrow> idx_pubkey \<Rightarrow> u64 \<Rightarrow> idx_pubkey \<Rightarrow> u64 \<Rightarrow> idx_swap_row" where
  "aggregated_row tx top_index input input_net output output_net =
     (let row = zero_swap_row\<lparr>rw_kind := IDX_SWAP_AGGREGATED, rw_venue := IDX_VENUE_JUPITER,
            rw_source := IDX_AMOUNT_EVENT, rw_instruction_index := top_index\<rparr>;
          row = (if length (accounts tx) > 0
                 then row\<lparr>rw_user := pubkey (accounts tx ! 0), rw_has_user := True\<rparr> else row);
          row = row\<lparr>rw_input_mint := input, rw_has_input_mint := True, rw_input_amount := input_net,
                    rw_has_input_amount := True\<rparr>;
          row = on_input (take_decimals tx input) row;
          row = row\<lparr>rw_output_mint := output, rw_has_output_mint := True, rw_output_amount := output_net,
                    rw_has_output_amount := True\<rparr>
      in on_output (take_decimals tx output) row)"

definition flush_route :: "swap_builder \<Rightarrow> swap_builder" where
  "flush_route b =
     (if \<not> wb_saw_route b \<or> wb_net_overflow b \<or> length (wb_rows b) \<ge> wb_capacity b then b
      else case route_ends (wb_net b) ((None, 0), (None, 0)) of
             ((Some input, input_net), (Some output, output_net)) \<Rightarrow>
               b\<lparr>wb_rows := wb_rows b @
                 [aggregated_row (wb_tx b) (wb_route_top_index b) (rm_mint input) input_net (rm_mint output) output_net]\<rparr>
           | _ \<Rightarrow> b)"

subsection \<open>The walk\<close>

definition commit_swap_row :: "swap_builder \<Rightarrow> idx_swap_row \<Rightarrow> swap_builder" where
  "commit_swap_row b row = b\<lparr>wb_rows := wb_rows b @ [row]\<rparr>"

definition normalize_instruction :: "swap_builder \<Rightarrow> idx_instruction \<Rightarrow> swap_builder result" where
  "normalize_instruction b ix = (case idx_swap_decode (Some (wb_tx b)) (Some ix) of
      Inl status \<Rightarrow> if status = IDX_ERR_NOT_FOUND then Inr b else Inl status
    | Inr sw \<Rightarrow>
        if \<not> idx_venue_is_pool (sw_venue sw) then
          (let b = (if \<not> wb_saw_route b then b\<lparr>wb_route_top_index := wb_instruction_index b\<rparr> else b)
           in Inr (add_route_leg b sw))
        else (case swap_builder_row b (sw_venue sw) IDX_AMOUNT_EVENT of
            None \<Rightarrow> Inl IDX_ERR_INTERNAL
          | Some row \<Rightarrow> (case sw_venue sw of
              IDX_VENUE_PUMP_CURVE \<Rightarrow> Inr (commit_swap_row b (normalize_pump_curve (wb_tx b) sw row))
            | IDX_VENUE_PUMP_AMM \<Rightarrow> Inr (commit_swap_row b (normalize_pump_amm (wb_tx b) sw row))
            | IDX_VENUE_RAYDIUM_AMM_V4 \<Rightarrow>
                (case normalize_raydium_amm b sw row of (row, b) \<Rightarrow> Inr (commit_swap_row b row))
            | IDX_VENUE_RAYDIUM_CLMM \<Rightarrow> Inr (commit_swap_row b (normalize_raydium_clmm (wb_tx b) sw row))
            | IDX_VENUE_RAYDIUM_CPMM \<Rightarrow> Inr (commit_swap_row b (normalize_raydium_clmm (wb_tx b) sw row))
            | _ \<Rightarrow> Inr (commit_swap_row b row))))"

fun swap_inner :: "nat \<Rightarrow> idx_instruction list \<Rightarrow> swap_builder \<Rightarrow> swap_builder result" where
  "swap_inner j [] b = Inr b"
| "swap_inner j (ix # rest) b =
     idx_try (normalize_instruction (b\<lparr>wb_inner_index := word_of_nat j\<rparr>) ix) (\<lambda>b. swap_inner (Suc j) rest b)"

fun swap_top :: "nat \<Rightarrow> idx_instruction list \<Rightarrow> swap_builder \<Rightarrow> swap_builder result" where
  "swap_top i [] b = Inr b"
| "swap_top i (ix # rest) b =
     idx_try (normalize_instruction
       (b\<lparr>wb_instruction_index := word_of_nat i, wb_inner_index := 0, wb_inner := False\<rparr>) ix) (\<lambda>b.
     idx_try (case inner_group (wb_tx b) i of
                None \<Rightarrow> Inr b
              | Some grp \<Rightarrow> swap_inner 0 (grp_instructions grp) (b\<lparr>wb_inner := True\<rparr>)) (\<lambda>b.
     swap_top (Suc i) rest b))"

definition start_builder :: "idx_transaction \<Rightarrow> nat \<Rightarrow> idx_raydium_swap_log list \<Rightarrow> swap_builder" where
  "start_builder tx capacity raylogs =
     \<lparr>wb_tx = tx, wb_rows = [], wb_capacity = capacity, wb_instruction_index = 0, wb_inner_index = 0,
      wb_inner = False, wb_raylogs = raylogs, wb_raylog_next = 0, wb_net = [], wb_net_overflow = False,
      wb_saw_route = False, wb_route_top_index = 0\<rparr>"

fun idx_swap_normalize :: "malloc_fn \<Rightarrow> idx_transaction option \<Rightarrow> idx_swap_row list arena_op" where
  "idx_swap_normalize malloc None = op_return (Inl IDX_ERR_INVALID_ARG)"
| "idx_swap_normalize malloc (Some tx) = (\<lambda>arena.
     if arena = None then (Inl IDX_ERR_INVALID_ARG, arena)
     else if \<not> has_meta tx \<or> \<not> success tx \<or> accounts tx = [] then (Inr [], arena)
     else let total = instruction_total tx in
       if total = 0 then (Inr [], arena)
       else op_try (idx_arena_calloc malloc (total + 1) SIZEOF_idx_swap_row) (\<lambda>_.
            op_try (collect_raylogs malloc tx) (\<lambda>raylogs.
            op_return (idx_try (swap_top 0 (instructions tx) (start_builder tx (total + 1) raylogs)) (\<lambda>b.
              Inr (wb_rows (flush_route b)))))) arena)"

end
