(* ===== verification/SwapRows.thy ===== *)
theory SwapRows
  imports Swaps
begin

text \<open>
  What swap normalization promises: the specification of the rows of a transaction, instruction
  by instruction in execution order, the proof that the walk of \<open>Swaps\<close> follows it, and the
  facts about single rows and about the netting of routes.
\<close>

section \<open>Specification\<close>

text \<open>A place stamped on a row of a venue.\<close>

definition swap_stamped :: "place \<Rightarrow> idx_venue \<Rightarrow> idx_swap_row" where
  "swap_stamped p venue = (case p of (i, j, inner) \<Rightarrow>
     zero_swap_row\<lparr>rw_venue := venue, rw_source := IDX_AMOUNT_EVENT, rw_instruction_index := word_of_nat i,
       rw_inner_index := word_of_nat j, rw_inner := inner\<rparr>)"

text \<open>A v4 swap with the logs not yet paired: the first one counts if it agrees with the instruction.\<close>

definition log_agrees :: "idx_swap \<Rightarrow> idx_raydium_swap_log \<Rightarrow> bool" where
  "log_agrees sw log \<longleftrightarrow>
     (if sw_has_input_amount sw then sw_input_amount sw = 0 \<or> rl_amount_in log = sw_input_amount sw
      else sw_output_amount sw = 0 \<or> rl_amount_out log = sw_output_amount sw)"

definition v4_base :: "idx_transaction \<Rightarrow> idx_swap \<Rightarrow> idx_swap_row \<Rightarrow> idx_swap_row" where
  "v4_base tx sw row = resolve_both_mints tx sw
     (row\<lparr>rw_pool := sw_pool sw, rw_has_pool := sw_has_pool sw, rw_user := sw_user sw, rw_has_user := sw_has_user sw\<rparr>)"

definition v4_row :: "idx_transaction \<Rightarrow> idx_raydium_swap_log list \<Rightarrow> idx_swap \<Rightarrow> idx_swap_row \<Rightarrow> idx_swap_row" where
  "v4_row tx logged sw row = (case logged of
      [] \<Rightarrow> amounts_from_vaults tx sw (v4_base tx sw row)
    | log # _ \<Rightarrow> if log_agrees sw log
        then (v4_base tx sw row)\<lparr>rw_source := IDX_AMOUNT_RAYLOG, rw_input_amount := rl_amount_in log,
               rw_has_input_amount := True, rw_output_amount := rl_amount_out log, rw_has_output_amount := True\<rparr>
        else amounts_from_vaults tx sw (v4_base tx sw row))"

definition pool_row :: "idx_transaction \<Rightarrow> idx_raydium_swap_log list \<Rightarrow> place \<Rightarrow> idx_swap \<Rightarrow> idx_swap_row" where
  "pool_row tx logged p sw = (let row = swap_stamped p (sw_venue sw) in case sw_venue sw of
      IDX_VENUE_PUMP_CURVE \<Rightarrow> normalize_pump_curve tx sw row
    | IDX_VENUE_PUMP_AMM \<Rightarrow> normalize_pump_amm tx sw row
    | IDX_VENUE_RAYDIUM_AMM_V4 \<Rightarrow> v4_row tx logged sw row
    | IDX_VENUE_RAYDIUM_CLMM \<Rightarrow> normalize_raydium_clmm tx sw row
    | IDX_VENUE_RAYDIUM_CPMM \<Rightarrow> normalize_raydium_clmm tx sw row
    | _ \<Rightarrow> row)"

text \<open>
  The pool rows in order, each v4 swap using up one log, and the legs of the route with the
  top-level position each ran at.
\<close>

fun swaps_of :: "idx_transaction \<Rightarrow> idx_raydium_swap_log list \<Rightarrow> (place \<times> idx_instruction) list \<Rightarrow>
    (idx_swap_row list \<times> (nat \<times> idx_swap) list) result" where
  "swaps_of tx logged [] = Inr ([], [])"
| "swaps_of tx logged ((p, ix) # rest) = (case idx_swap_decode (Some tx) (Some ix) of
      Inl status \<Rightarrow> if status = IDX_ERR_NOT_FOUND then swaps_of tx logged rest else Inl status
    | Inr sw \<Rightarrow>
        if idx_venue_is_pool (sw_venue sw) then
          idx_try (swaps_of tx (if sw_venue sw = IDX_VENUE_RAYDIUM_AMM_V4 then tl logged else logged) rest) (\<lambda>(rows, legs).
            Inr (pool_row tx logged p sw # rows, legs))
        else idx_try (swaps_of tx logged rest) (\<lambda>(rows, legs). Inr (rows, (fst p, sw) # legs)))"

text \<open>The netting: totals, overflow, whether a leg was seen and where the first one was.\<close>

type_synonym route = "route_mint list \<times> bool \<times> bool \<times> u16"

definition leg_on_route :: "nat \<times> idx_swap \<Rightarrow> route \<Rightarrow> route" where
  "leg_on_route leg r = (case leg of (i, sw) \<Rightarrow> case r of (net, overflow, saw, top_index) \<Rightarrow>
     (let top_index = (if saw then top_index else word_of_nat i) in
      case add_side net 0 (sw_input_mint sw) (sw_input_amount sw) True of
        None \<Rightarrow> (net, True, True, top_index)
      | Some net \<Rightarrow> (case add_side net 0 (sw_output_mint sw) (sw_output_amount sw) False of
          None \<Rightarrow> (net, True, True, top_index)
        | Some net \<Rightarrow> (net, overflow, True, top_index))))"

definition route_rows :: "idx_transaction \<Rightarrow> route \<Rightarrow> idx_swap_row list" where
  "route_rows tx r = (case r of (net, overflow, saw, top_index) \<Rightarrow>
     if \<not> saw \<or> overflow then []
     else case route_ends net ((None, 0), (None, 0)) of
            ((Some input, input_net), (Some output, output_net)) \<Rightarrow>
              [aggregated_row tx top_index (rm_mint input) input_net (rm_mint output) output_net]
          | _ \<Rightarrow> [])"

definition route_of :: "idx_transaction \<Rightarrow> (nat \<times> idx_swap) list \<Rightarrow> idx_swap_row list" where
  "route_of tx legs = route_rows tx (fold leg_on_route legs ([], False, False, 0))"

lemma idx_try_assoc: "idx_try (idx_try r f) g = idx_try r (\<lambda>x. idx_try (f x) g)"
  by (cases r) auto

section \<open>The walk follows the specification\<close>

definition route :: "swap_builder \<Rightarrow> route" where
  "route b = (wb_net b, wb_net_overflow b, wb_saw_route b, wb_route_top_index b)"

definition at_place :: "place \<Rightarrow> swap_builder \<Rightarrow> swap_builder" where
  "at_place p b = (case p of (i, j, inner) \<Rightarrow>
     b\<lparr>wb_instruction_index := word_of_nat i, wb_inner_index := word_of_nat j, wb_inner := inner\<rparr>)"

text \<open>A builder without its stamps, which the next step sets anew.\<close>

definition unstamped :: "swap_builder \<Rightarrow> swap_builder" where
  "unstamped b = b\<lparr>wb_instruction_index := 0, wb_inner_index := 0, wb_inner := False\<rparr>"

fun swap_places :: "swap_builder \<Rightarrow> (place \<times> idx_instruction) list \<Rightarrow> swap_builder result" where
  "swap_places b [] = Inr (unstamped b)"
| "swap_places b ((p, ix) # rest) = idx_try (normalize_instruction (at_place p b) ix) (\<lambda>b. swap_places b rest)"

lemma at_place_unstamped [simp]: "at_place p (unstamped b) = at_place p b"
  by (cases p) (simp add: at_place_def unstamped_def)

lemma unstamped_idem [simp]: "unstamped (unstamped b) = unstamped b"
  by (simp add: unstamped_def)

lemma swap_places_unstamped [simp]: "swap_places (unstamped b) xs = swap_places b xs"
  by (cases xs) auto

lemma swap_places_append:
  "swap_places b (xs @ ys) = idx_try (swap_places b xs) (\<lambda>b. swap_places b ys)"
proof (induction b xs rule: swap_places.induct)
  case (2 b p ix rest)
  then show ?case by (cases "normalize_instruction (at_place p b) ix") auto
qed simp

text \<open>What a step leaves alone.\<close>

lemma add_route_leg_keeps:
  "wb_tx (add_route_leg b sw) = wb_tx b \<and> wb_instruction_index (add_route_leg b sw) = wb_instruction_index b \<and>
   wb_inner_index (add_route_leg b sw) = wb_inner_index b \<and> wb_inner (add_route_leg b sw) = wb_inner b \<and>
   wb_rows (add_route_leg b sw) = wb_rows b \<and> wb_capacity (add_route_leg b sw) = wb_capacity b \<and>
   wb_raylogs (add_route_leg b sw) = wb_raylogs b \<and> wb_raylog_next (add_route_leg b sw) = wb_raylog_next b"
  by (auto simp: add_route_leg_def Let_def split: option.splits)

lemma route_leg:
  "route (add_route_leg (if \<not> wb_saw_route b then b\<lparr>wb_route_top_index := word_of_nat i\<rparr> else b) sw) =
     leg_on_route (i, sw) (route b)"
  by (auto simp: route_def add_route_leg_def leg_on_route_def Let_def split: option.splits)

text \<open>A v4 swap takes the next log, if there is one.\<close>

definition logs_left :: "swap_builder \<Rightarrow> idx_raydium_swap_log list" where
  "logs_left b = drop (wb_raylog_next b) (wb_raylogs b)"

lemma raydium_amm_eq:
  "normalize_raydium_amm b sw row =
     (v4_row (wb_tx b) (logs_left b) sw row,
      if logs_left b = [] then b else b\<lparr>wb_raylog_next := wb_raylog_next b + 1\<rparr>)"
proof (cases "wb_raylog_next b < length (wb_raylogs b)")
  case True
  then have "logs_left b = wb_raylogs b ! wb_raylog_next b # drop (Suc (wb_raylog_next b)) (wb_raylogs b)"
    by (simp add: logs_left_def Cons_nth_drop_Suc)
  then show ?thesis using True
    by (auto simp: normalize_raydium_amm_def v4_row_def v4_base_def log_agrees_def Let_def)
next
  case False
  then show ?thesis by (simp add: normalize_raydium_amm_def v4_row_def v4_base_def logs_left_def Let_def)
qed

text \<open>One step, in terms of the specification.\<close>

definition after_pool :: "place \<Rightarrow> swap_builder \<Rightarrow> idx_swap \<Rightarrow> swap_builder" where
  "after_pool p b sw =
     (let c = (at_place p b)\<lparr>wb_rows := wb_rows b @ [pool_row (wb_tx b) (logs_left b) p sw]\<rparr> in
      if sw_venue sw = IDX_VENUE_RAYDIUM_AMM_V4 \<and> logs_left b \<noteq> []
      then c\<lparr>wb_raylog_next := wb_raylog_next b + 1\<rparr> else c)"

definition after_leg :: "place \<Rightarrow> swap_builder \<Rightarrow> idx_swap \<Rightarrow> swap_builder" where
  "after_leg p b sw = (let c = at_place p b in
     add_route_leg (if \<not> wb_saw_route c then c\<lparr>wb_route_top_index := wb_instruction_index c\<rparr> else c) sw)"

lemma normalize_instruction_eq:
  assumes "length (wb_rows b) < wb_capacity b"
  shows "normalize_instruction (at_place p b) ix = (case idx_swap_decode (Some (wb_tx b)) (Some ix) of
      Inl status \<Rightarrow> if status = IDX_ERR_NOT_FOUND then Inr (at_place p b) else Inl status
    | Inr sw \<Rightarrow> Inr (if idx_venue_is_pool (sw_venue sw) then after_pool p b sw else after_leg p b sw))"
proof -
  let ?c = "at_place p b"
  have keeps: "wb_tx ?c = wb_tx b" "logs_left ?c = logs_left b" "wb_rows ?c = wb_rows b"
    "wb_raylog_next ?c = wb_raylog_next b"
    by (cases p, simp add: at_place_def logs_left_def)+
  have row: "swap_builder_row ?c venue IDX_AMOUNT_EVENT = Some (swap_stamped p venue)" for venue
    using assms by (cases p) (simp add: at_place_def swap_builder_row_def swap_stamped_def zero_swap_row_def)
  show ?thesis
  proof (cases "idx_swap_decode (Some (wb_tx b)) (Some ix)")
    case (Inl e)
    then show ?thesis by (simp add: normalize_instruction_def keeps del: idx_swap_decode.simps)
  next
    case (Inr sw)
    show ?thesis
      by (cases "sw_venue sw")
        (simp_all add: normalize_instruction_def keeps Inr row raydium_amm_eq idx_venue_is_pool_def after_pool_def
          after_leg_def commit_swap_row_def pool_row_def Let_def del: idx_swap_decode.simps)
  qed
qed

lemma after_pool_fields:
  "wb_tx (after_pool p b sw) = wb_tx b" "wb_capacity (after_pool p b sw) = wb_capacity b"
  "wb_rows (after_pool p b sw) = wb_rows b @ [pool_row (wb_tx b) (logs_left b) p sw]"
  "route (after_pool p b sw) = route b"
  "logs_left (after_pool p b sw) = (if sw_venue sw = IDX_VENUE_RAYDIUM_AMM_V4 then tl (logs_left b) else logs_left b)"
  by (cases p; simp add: after_pool_def at_place_def route_def logs_left_def Let_def tl_drop drop_Suc)+

lemma after_leg_fields:
  "wb_tx (after_leg p b sw) = wb_tx b" "wb_capacity (after_leg p b sw) = wb_capacity b"
  "wb_rows (after_leg p b sw) = wb_rows b" "logs_left (after_leg p b sw) = logs_left b"
  by (cases p; simp add: after_leg_def at_place_def logs_left_def Let_def add_route_leg_keeps)+

lemma after_leg_route: "route (after_leg p b sw) = leg_on_route (fst p, sw) (route b)"
proof -
  obtain i j inner where p: "p = (i, j, inner)" by (cases p)
  have "route (at_place p b) = route b" "wb_instruction_index (at_place p b) = word_of_nat i"
    by (simp_all add: p at_place_def route_def)
  moreover from this(2) have "after_leg p b sw = add_route_leg (if \<not> wb_saw_route (at_place p b)
      then (at_place p b)\<lparr>wb_route_top_index := word_of_nat i\<rparr> else at_place p b) sw"
    by (simp add: after_leg_def Let_def)
  ultimately show ?thesis by (simp only: route_leg p fst_conv)
qed

lemma at_place_fields:
  "wb_tx (at_place p b) = wb_tx b" "wb_capacity (at_place p b) = wb_capacity b" "wb_rows (at_place p b) = wb_rows b"
  "logs_left (at_place p b) = logs_left b" "route (at_place p b) = route b"
  by (cases p; simp add: at_place_def logs_left_def route_def)+

lemma flush_eq: "length (wb_rows b) < wb_capacity b \<Longrightarrow> wb_rows (flush_route b) = wb_rows b @ route_rows (wb_tx b) (route b)"
  by (auto simp: flush_route_def route_rows_def route_def split: prod.splits option.splits)

lemma swap_places_eq:
  "length (wb_rows b) + length places < wb_capacity b \<Longrightarrow>
     idx_try (swap_places b places) (\<lambda>c. Inr (wb_rows (flush_route c))) =
     idx_try (swaps_of (wb_tx b) (logs_left b) places) (\<lambda>(rows, legs).
       Inr (wb_rows b @ rows @ route_rows (wb_tx b) (fold leg_on_route legs (route b))))"
proof (induction places arbitrary: b)
  case Nil
  then have "wb_rows (flush_route (unstamped b)) = wb_rows b @ route_rows (wb_tx b) (route b)"
    using flush_eq [of "unstamped b"] by (simp add: unstamped_def route_def)
  then show ?case by simp
next
  case (Cons x places)
  obtain p ix where x: "x = (p, ix)" by (cases x)
  have room: "length (wb_rows b) < wb_capacity b" using Cons.prems by simp
  note step = normalize_instruction_eq [OF room, of p ix]
  show ?case
  proof (cases "idx_swap_decode (Some (wb_tx b)) (Some ix)")
    case (Inl e)
    then show ?thesis using step x Cons.IH [of "at_place p b"] Cons.prems
      by (simp add: at_place_fields del: idx_swap_decode.simps)
  next
    case (Inr sw)
    show ?thesis
    proof (cases "idx_venue_is_pool (sw_venue sw)")
      case True
      let ?c = "after_pool p b sw"
      have "length (wb_rows ?c) + length places < wb_capacity ?c" using Cons.prems by (simp add: after_pool_fields)
      note IH = Cons.IH [OF this]
      show ?thesis using step x Inr True IH
        by (simp add: after_pool_fields idx_try_assoc split_def del: idx_swap_decode.simps)
    next
      case False
      let ?c = "after_leg p b sw"
      have "length (wb_rows ?c) + length places < wb_capacity ?c" using Cons.prems by (simp add: after_leg_fields)
      note IH = Cons.IH [OF this]
      show ?thesis using step x Inr False IH
        by (simp add: after_leg_fields after_leg_route idx_try_assoc split_def del: idx_swap_decode.simps)
    qed
  qed
qed

lemma normalize_keeps:
  assumes "normalize_instruction b ix = Inr c"
  shows "wb_tx c = wb_tx b \<and> wb_instruction_index c = wb_instruction_index b \<and> wb_inner c = wb_inner b"
  using assms by (auto simp: normalize_instruction_def commit_swap_row_def raydium_amm_eq Let_def add_route_leg_keeps
      simp del: idx_swap_decode.simps split: sum.splits if_splits option.splits idx_venue.splits)

lemma swap_inner_keeps: "swap_inner j ixs b = Inr c \<Longrightarrow> wb_tx c = wb_tx b"
  by (induction ixs arbitrary: j b) (fastforce simp: idx_try_Inr_iff dest: normalize_keeps)+

lemma swap_inner_eq:
  "wb_instruction_index b = word_of_nat i \<Longrightarrow> wb_inner b \<Longrightarrow>
     idx_try (swap_inner j ixs b) (\<lambda>c. Inr (unstamped c)) = swap_places b (inner_places i j ixs)"
proof (induction ixs arbitrary: j b)
  case (Cons ix ixs)
  have place: "at_place (i, j, True) b = b\<lparr>wb_inner_index := word_of_nat j\<rparr>"
    using Cons.prems by (cases b) (simp add: at_place_def)
  have split: "inner_places i j (ix # ixs) = ((i, j, True), ix) # inner_places i (Suc j) ixs"
    unfolding inner_places_def by (simp add: upt_conv_Cons flip: map_Suc_upt del: upt_Suc)
  show ?case
  proof (cases "normalize_instruction (b\<lparr>wb_inner_index := word_of_nat j\<rparr>) ix")
    case (Inr c)
    then show ?thesis using Cons.IH [of c "Suc j"] Cons.prems normalize_keeps [OF Inr] split place by simp
  qed (simp add: split place)
qed (simp add: inner_places_def)

lemma swap_group_eq:
  assumes "wb_instruction_index c = word_of_nat i"
  shows "idx_try (case inner_group (wb_tx c) i of None \<Rightarrow> Inr c
       | Some grp \<Rightarrow> swap_inner 0 (grp_instructions grp) (c\<lparr>wb_inner := True\<rparr>)) (\<lambda>d. Inr (unstamped d)) =
     swap_places c (inner_places i 0 (inner_of (wb_tx c) i))"
proof (cases "inner_group (wb_tx c) i")
  case None
  then show ?thesis by (simp add: inner_of_def inner_places_def)
next
  case (Some grp)
  have "unstamped (c\<lparr>wb_inner := True\<rparr>) = unstamped c" by (simp add: unstamped_def)
  then have "swap_places (c\<lparr>wb_inner := True\<rparr>) xs = swap_places c xs" for xs
    by (metis swap_places_unstamped)
  then show ?thesis using Some swap_inner_eq [of "c\<lparr>wb_inner := True\<rparr>" i 0 "grp_instructions grp"] assms
    by (simp add: inner_of_def)
qed

lemma swap_top_eq:
  "idx_try (swap_top i ixs b) (\<lambda>c. Inr (unstamped c)) = swap_places b (execution_from (wb_tx b) i ixs)"
proof (induction ixs arbitrary: i b)
  case (Cons ix ixs)
  have place: "b\<lparr>wb_instruction_index := word_of_nat i, wb_inner_index := 0, wb_inner := False\<rparr> = at_place (i, 0, False) b"
    by (simp add: at_place_def)
  show ?case
  proof (cases "normalize_instruction (at_place (i, 0, False) b) ix")
    case (Inl e)
    then show ?thesis by (simp add: place)
  next
    case (Inr c)
    have c: "wb_tx c = wb_tx b" "wb_instruction_index c = word_of_nat i"
      using normalize_keeps [OF Inr] by (simp_all add: at_place_def)
    let ?grp = "case inner_group (wb_tx c) i of None \<Rightarrow> Inr c
       | Some grp \<Rightarrow> swap_inner 0 (grp_instructions grp) (c\<lparr>wb_inner := True\<rparr>)"
    note grp = swap_group_eq [OF c(2)]
    show ?thesis
    proof (cases ?grp)
      case (Inl e)
      then have "swap_places c (inner_places i 0 (inner_of (wb_tx c) i)) = Inl e" using grp by simp
      then show ?thesis using Inr c Inl by (simp add: place swap_places_append)
    next
      case inr: (Inr d)
      have "wb_tx d = wb_tx c" using inr by (auto dest: swap_inner_keeps split: option.splits)
      moreover have "swap_places c (inner_places i 0 (inner_of (wb_tx c) i)) = Inr (unstamped d)"
        using grp inr by simp
      ultimately show ?thesis using Inr c inr Cons.IH [of "Suc i" d] by (simp add: place swap_places_append)
    qed
  qed
qed simp

lemma flush_unstamped: "wb_rows (flush_route (unstamped b)) = wb_rows (flush_route b)"
  by (simp add: flush_route_def unstamped_def split: prod.splits option.splits)

lemma collect_lines_eq: "collect_lines ls logged = logged @ List.map_filter raylog_of_line ls"
  by (induction ls arbitrary: logged) (simp_all add: List.map_filter_def split: option.splits)

text \<open>The swap logs of a transaction, in order.\<close>

definition raylogs_of :: "idx_transaction \<Rightarrow> idx_raydium_swap_log list" where
  "raylogs_of tx = List.map_filter raylog_of_line (logs tx)"

lemma swap_top_rows:
  assumes "length (execution tx) \<le> n"
  shows "idx_try (swap_top 0 (instructions tx) (start_builder tx (n + 1) raylogs)) (\<lambda>b. Inr (wb_rows (flush_route b))) =
     idx_try (swaps_of tx raylogs (execution tx)) (\<lambda>(rows, legs). Inr (rows @ route_of tx legs))"
proof -
  let ?b = "start_builder tx (n + 1) raylogs"
  have "idx_try (swap_top 0 (instructions tx) ?b) (\<lambda>b. Inr (wb_rows (flush_route b))) =
      idx_try (idx_try (swap_top 0 (instructions tx) ?b) (\<lambda>c. Inr (unstamped c))) (\<lambda>b. Inr (wb_rows (flush_route b)))"
    by (simp add: idx_try_assoc flush_unstamped)
  also have "\<dots> = idx_try (swap_places ?b (execution tx)) (\<lambda>b. Inr (wb_rows (flush_route b)))"
    unfolding swap_top_eq by (simp add: start_builder_def execution_def)
  also have "\<dots> = idx_try (swaps_of tx raylogs (execution tx)) (\<lambda>(rows, legs). Inr (rows @ route_of tx legs))"
    using swap_places_eq [of ?b "execution tx"] assms
    by (simp add: start_builder_def logs_left_def route_def route_of_def)
  finally show ?thesis .
qed

section \<open>Properties\<close>

text \<open>
  C5: Swap normalization is the sum of what each instruction contributes. On a transaction that
  succeeded, the rows are those of the instructions that decode as pool swaps, one each, in
  execution order (each v4 swap paired with the next swap log of the transaction), followed by
  the row its route legs net to, or the first error among them; the array of one row per
  instruction and one for the route never runs out. Otherwise there are no rows.
\<close>

theorem swap_normalize_refines:
  "idx_swap_normalize malloc (Some tx) (Some a) =
     (if has_meta tx \<and> success tx \<and> accounts tx \<noteq> [] \<and> instruction_total tx > 0
      then case idx_arena_calloc malloc (instruction_total tx + 1) SIZEOF_idx_swap_row (Some a) of
        (Inl e, b) \<Rightarrow> (Inl e, b)
      | (Inr _, b) \<Rightarrow> (case collect_raylogs malloc tx b of
          (Inl e, c) \<Rightarrow> (Inl e, c)
        | (Inr raylogs, c) \<Rightarrow> (idx_try (swaps_of tx (raylogs_of tx) (execution tx)) (\<lambda>(rows, legs).
            Inr (rows @ route_of tx legs)), c))
      else (Inr [], Some a))"
proof -
  have collect: "collect_raylogs malloc tx b = (Inr raylogs, c) \<Longrightarrow> raylogs = raylogs_of tx" for b raylogs c
    by (auto simp: collect_raylogs_def op_try_Inr_iff collect_lines_eq raylogs_of_def List.map_filter_def split: if_splits)
  show ?thesis
    using swap_top_rows [OF execution_fits [of tx]]
    by (auto simp: Let_def op_try_def op_return_def dest!: collect split: prod.splits sum.splits)
qed

end
