(* ===== verification/Routes.thy ===== *)
theory Routes
  imports SwapRows
begin

text \<open>
  The netting of a Jupiter route (\<^verbatim>\<open>add_route_leg\<close> and \<^verbatim>\<open>flush_route\<close> of \<^verbatim>\<open>src/swap.c\<close>): the
  running totals are the exact sums over the legs as long as those fit in 64 bits, the row has
  the mints with the largest net on each end, and a chain of legs nets to its two ends.
\<close>

section \<open>Totals\<close>

definition amounts :: "(idx_swap \<Rightarrow> idx_pubkey) \<Rightarrow> (idx_swap \<Rightarrow> u64) \<Rightarrow> idx_swap list \<Rightarrow> idx_pubkey \<Rightarrow> nat" where
  "amounts side amt legs m = (\<Sum>sw\<leftarrow>legs. if side sw = m then unat (amt sw) else 0)"

text \<open>What a route paid and got of a mint.\<close>

definition paid :: "idx_swap list \<Rightarrow> idx_pubkey \<Rightarrow> nat" where
  "paid = amounts sw_input_mint sw_input_amount"

definition got :: "idx_swap list \<Rightarrow> idx_pubkey \<Rightarrow> nat" where
  "got = amounts sw_output_mint sw_output_amount"

definition mints :: "idx_swap list \<Rightarrow> idx_pubkey set" where
  "mints legs = sw_input_mint ` set legs \<union> sw_output_mint ` set legs"

definition legs_ok :: "idx_swap list \<Rightarrow> bool" where
  "legs_ok legs \<longleftrightarrow> (\<forall>m \<in> mints legs. key_ok m \<and> paid legs m < 2 ^ 64 \<and> got legs m < 2 ^ 64) \<and>
     card (mints legs) \<le> MAX_ROUTE_MINTS"

lemma amounts_append: "amounts side amt (xs @ ys) m = amounts side amt xs m + amounts side amt ys m"
  by (simp add: amounts_def)

lemma paid_snoc: "paid (legs @ [sw]) m = paid legs m + (if sw_input_mint sw = m then unat (sw_input_amount sw) else 0)"
  and got_snoc: "got (legs @ [sw]) m = got legs m + (if sw_output_mint sw = m then unat (sw_output_amount sw) else 0)"
  by (simp_all add: paid_def got_def amounts_append) (simp_all add: amounts_def)

lemma mints_snoc: "mints (legs @ [sw]) = insert (sw_input_mint sw) (insert (sw_output_mint sw) (mints legs))"
  by (auto simp: mints_def)

lemma finite_mints [simp]: "finite (mints legs)"
  by (simp add: mints_def)

lemma not_a_mint: "m \<notin> mints legs \<Longrightarrow> paid legs m = 0 \<and> got legs m = 0"
  by (auto simp: paid_def got_def amounts_def mints_def intro!: sum_list_0 simp: sum_list_eq_0_iff)

text \<open>What the array of totals records of a mint.\<close>

definition recorded :: "(route_mint \<Rightarrow> u64) \<Rightarrow> route_mint list \<Rightarrow> idx_pubkey \<Rightarrow> nat" where
  "recorded side net m = (\<Sum>e\<leftarrow>net. if rm_mint e = m then unat (side e) else 0)"

lemma recorded_simps [simp]:
  "recorded side [] = (\<lambda>m. 0)"
  "recorded side (e # net) = (\<lambda>m. (if rm_mint e = m then unat (side e) else 0) + recorded side net m)"
  by (auto simp: recorded_def)

lemma recorded_absent: "m \<notin> rm_mint ` set net \<Longrightarrow> recorded side net m = 0"
  by (induction net) auto

lemma recorded_entry: "distinct (map rm_mint net) \<Longrightarrow> e \<in> set net \<Longrightarrow> recorded side net (rm_mint e) = unat (side e)"
  by (induction net) (auto simp: recorded_absent)

lemma unat_add_fits: "unat (a :: u64) + unat b < 2 ^ 64 \<Longrightarrow> unat (a + b) = unat a + unat b"
  by (rule unat_add_lem [THEN iffD1]) simp

definition counted :: "route_mint list \<Rightarrow> idx_pubkey set \<Rightarrow> bool" where
  "counted net ms \<longleftrightarrow> distinct (map rm_mint net) \<and> rm_mint ` set net = ms \<and> (\<forall>m \<in> ms. key_ok m)"

lemma add_side_recorded:
  assumes "counted net ms" "key_ok m" "m \<notin> ms \<Longrightarrow> passed + length net < MAX_ROUTE_MINTS"
    and "recorded (if is_input then rm_in_sum else rm_out_sum) net m + unat a < 2 ^ 64"
  shows "\<exists>net'. add_side net passed m a is_input = Some net' \<and> counted net' (insert m ms) \<and>
     recorded rm_in_sum net' = (recorded rm_in_sum net)(m := recorded rm_in_sum net m + (if is_input then unat a else 0)) \<and>
     recorded rm_out_sum net' = (recorded rm_out_sum net)(m := recorded rm_out_sum net m + (if is_input then 0 else unat a))"
  using assms
proof (induction net arbitrary: passed ms)
  case Nil
  then show ?case by (auto simp: counted_def)
next
  case (Cons e net)
  have keys: "key_ok (rm_mint e)" using Cons.prems(1) by (auto simp: counted_def)
  show ?case
  proof (cases "rm_mint e = m")
    case True
    have "m \<notin> rm_mint ` set net" using Cons.prems(1) True by (auto simp: counted_def)
    then have "recorded rm_in_sum net m = 0" "recorded rm_out_sum net m = 0" by (simp_all add: recorded_absent)
    moreover have "is_input \<Longrightarrow> unat (rm_in_sum e + a) = unat (rm_in_sum e) + unat a"
      "\<not> is_input \<Longrightarrow> unat (rm_out_sum e + a) = unat (rm_out_sum e) + unat a"
      using calculation Cons.prems(4) True by (auto intro!: unat_add_fits)
    ultimately show ?thesis using Cons.prems(1) keys True
      by (auto simp: counted_def idx_pubkey_equal_def fun_eq_iff)
  next
    case False
    have sub: "counted net (rm_mint ` set net)" using Cons.prems(1) by (auto simp: counted_def)
    have free: "m \<notin> rm_mint ` set net \<Longrightarrow> Suc passed + length net < MAX_ROUTE_MINTS"
      using Cons.prems(1,3) False by (auto simp: counted_def)
    have room: "recorded (if is_input then rm_in_sum else rm_out_sum) net m + unat a < 2 ^ 64"
      using Cons.prems(4) False by (simp split: if_splits)
    obtain net' where n: "add_side net (Suc passed) m a is_input = Some net'" "counted net' (insert m (rm_mint ` set net))"
      "recorded rm_in_sum net' = (recorded rm_in_sum net)(m := recorded rm_in_sum net m + (if is_input then unat a else 0))"
      "recorded rm_out_sum net' = (recorded rm_out_sum net)(m := recorded rm_out_sum net m + (if is_input then 0 else unat a))"
      using Cons.IH [OF sub Cons.prems(2) free room] by blast
    have "\<not> idx_pubkey_equal (rm_mint e) m" using False keys Cons.prems(2) by (simp add: idx_pubkey_equal_iff)
    then show ?thesis using n Cons.prems(1) False by (auto simp: counted_def fun_eq_iff)
  qed
qed

text \<open>The array after some legs, and one leg more.\<close>

definition nets :: "route_mint list \<Rightarrow> idx_swap list \<Rightarrow> bool" where
  "nets net legs \<longleftrightarrow> counted net (mints legs) \<and> recorded rm_in_sum net = paid legs \<and> recorded rm_out_sum net = got legs"

lemma counted_length: "counted net ms \<Longrightarrow> length net = card ms"
  by (metis counted_def distinct_card length_map list.set_map)

lemma add_leg_nets:
  assumes net: "nets net legs" and ok: "legs_ok (legs @ [sw])"
  shows "\<exists>net1 net2. add_side net 0 (sw_input_mint sw) (sw_input_amount sw) True = Some net1 \<and>
     add_side net1 0 (sw_output_mint sw) (sw_output_amount sw) False = Some net2 \<and> nets net2 (legs @ [sw])"
proof -
  let ?i = "sw_input_mint sw" and ?o = "sw_output_mint sw" and ?ms = "mints legs"
  have keys: "key_ok ?i" "key_ok ?o" and small: "card (insert ?o (insert ?i ?ms)) \<le> MAX_ROUTE_MINTS"
    and sums: "paid (legs @ [sw]) ?i < 2 ^ 64" "got (legs @ [sw]) ?o < 2 ^ 64"
    using ok by (auto simp: legs_ok_def mints_snoc insert_commute)
  have c: "counted net ?ms" "recorded rm_in_sum net = paid legs" "recorded rm_out_sum net = got legs"
    using net by (simp_all add: nets_def)
  have "card (insert ?i ?ms) \<le> card (insert ?o (insert ?i ?ms))" by (rule card_mono) auto
  then have room: "?i \<notin> ?ms \<Longrightarrow> 0 + length net < MAX_ROUTE_MINTS" using small counted_length [OF c(1)] by simp
  obtain net1 where n1: "add_side net 0 ?i (sw_input_amount sw) True = Some net1" "counted net1 (insert ?i ?ms)"
    "recorded rm_in_sum net1 = (paid legs)(?i := paid legs ?i + unat (sw_input_amount sw))"
    "recorded rm_out_sum net1 = got legs"
    using add_side_recorded [OF c(1) keys(1) room, of True "sw_input_amount sw"] sums(1) by (auto simp: c paid_snoc)
  have room1: "?o \<notin> insert ?i ?ms \<Longrightarrow> 0 + length net1 < MAX_ROUTE_MINTS"
    using small counted_length [OF n1(2)] by simp
  obtain net2 where n2: "add_side net1 0 ?o (sw_output_amount sw) False = Some net2" "counted net2 (insert ?o (insert ?i ?ms))"
    "recorded rm_in_sum net2 = recorded rm_in_sum net1"
    "recorded rm_out_sum net2 = (got legs)(?o := got legs ?o + unat (sw_output_amount sw))"
    using add_side_recorded [OF n1(2) keys(2) room1, of False "sw_output_amount sw"] sums(2)
    by (auto simp: n1(4) got_snoc fun_upd_triv)
  have "nets net2 (legs @ [sw])"
    using n2 n1(3) by (auto simp: nets_def mints_snoc insert_commute paid_snoc got_snoc fun_eq_iff)
  then show ?thesis using n1(1) n2(1) by blast
qed

lemma legs_ok_prefix: "legs_ok (legs @ [sw]) \<Longrightarrow> legs_ok legs"
proof -
  assume ok: "legs_ok (legs @ [sw])"
  have "card (mints legs) \<le> card (mints (legs @ [sw]))" by (rule card_mono) (auto simp: mints_snoc)
  then show ?thesis using ok by (fastforce simp: legs_ok_def mints_snoc paid_snoc got_snoc)
qed

lemma leg_on_route_step:
  "add_side net 0 (sw_input_mint sw) (sw_input_amount sw) True = Some net1 \<Longrightarrow>
   add_side net1 0 (sw_output_mint sw) (sw_output_amount sw) False = Some net2 \<Longrightarrow>
   leg_on_route (i, sw) (net, overflow, saw, t) = (net2, overflow, True, if saw then t else word_of_nat i)"
  by (simp add: leg_on_route_def Let_def)

lemma route_nets:
  "legs_ok (map snd legs) \<Longrightarrow>
     \<exists>net. fold leg_on_route legs ([], False, False, 0) =
       (net, False, legs \<noteq> [], if legs = [] then 0 else word_of_nat (fst (hd legs))) \<and> nets net (map snd legs)"
proof (induction legs rule: rev_induct)
  case Nil
  have "amounts side amt [] = (\<lambda>m. 0)" for side amt by (simp add: amounts_def fun_eq_iff)
  then show ?case by (simp add: nets_def counted_def mints_def paid_def got_def)
next
  case (snoc leg legs)
  obtain i sw where leg: "leg = (i, sw)" by (cases leg)
  have ok: "legs_ok (map snd legs @ [sw])" using snoc.prems leg by simp
  obtain net where net: "fold leg_on_route legs ([], False, False, 0) =
      (net, False, legs \<noteq> [], if legs = [] then 0 else word_of_nat (fst (hd legs)))" "nets net (map snd legs)"
    using snoc.IH legs_ok_prefix [OF ok] by blast
  obtain net1 net2 where step: "add_side net 0 (sw_input_mint sw) (sw_input_amount sw) True = Some net1"
    "add_side net1 0 (sw_output_mint sw) (sw_output_amount sw) False = Some net2" "nets net2 (map snd legs @ [sw])"
    using add_leg_nets [OF net(2) ok] by blast
  note step' = leg_on_route_step [OF step(1,2)]
  have "fold leg_on_route (legs @ [leg]) ([], False, False, 0) =
      (net2, False, True, if legs \<noteq> [] then if legs = [] then 0 else word_of_nat (fst (hd legs)) else word_of_nat i)"
    by (simp only: fold_append comp_def net(1) fold_simps leg step')
  then show ?case using step(3) leg by (cases legs) simp_all
qed

text \<open>The two ends are the mints with the largest net.\<close>

definition ends_ok :: "(route_mint \<Rightarrow> nat) \<Rightarrow> route_mint list \<Rightarrow> route_mint option \<times> u64 \<Rightarrow> route_mint option \<times> u64 \<Rightarrow> bool" where
  "ends_ok worth net before end \<longleftrightarrow>
     (\<forall>e \<in> set net. worth e \<le> unat (snd end)) \<and> unat (snd before) \<le> unat (snd end) \<and>
     (end = before \<or> (\<exists>e \<in> set net. end = (Some e, word_of_nat (worth e)) \<and> unat (snd end) = worth e \<and> 0 < worth e))"

definition spent :: "route_mint \<Rightarrow> nat" where "spent e = unat (rm_in_sum e) - unat (rm_out_sum e)"
definition gained :: "route_mint \<Rightarrow> nat" where "gained e = unat (rm_out_sum e) - unat (rm_in_sum e)"

lemma ends_ok_Nil: "ends_ok worth [] before before"
  by (simp add: ends_ok_def)

lemma ends_ok_keep: "worth e \<le> unat (snd before) \<Longrightarrow> ends_ok worth net before end \<Longrightarrow> ends_ok worth (e # net) before end"
  by (auto simp: ends_ok_def)

lemma ends_ok_take:
  assumes "unat n = worth e" "unat (snd before) < worth e" "ends_ok worth net (Some e, n) end"
  shows "ends_ok worth (e # net) before end"
proof -
  have "word_of_nat (unat n) = n" by simp
  then have "n = word_of_nat (worth e)" using assms(1) by simp
  then show ?thesis using assms by (fastforce simp: ends_ok_def)
qed

lemma unat_diff: "(b :: u64) < a \<Longrightarrow> unat (a - b) = unat a - unat b"
  by (simp add: unat_sub)

lemma route_ends_ok:
  "route_ends net (before_in, before_out) = (end_in, end_out) \<Longrightarrow>
     ends_ok spent net before_in end_in \<and> ends_ok gained net before_out end_out"
proof (induction net arbitrary: before_in before_out)
  case Nil
  then show ?case by (cases before_in; cases before_out) (simp add: ends_ok_Nil)
next
  case (Cons e net)
  obtain i ni o' no where b: "before_in = (i, ni)" "before_out = (o', no)" by (cases before_in; cases before_out)
  consider "rm_in_sum e > rm_out_sum e" | "rm_out_sum e > rm_in_sum e" | "rm_in_sum e = rm_out_sum e" by force
  then show ?case
  proof cases
    case 1
    then have worth: "unat (rm_in_sum e - rm_out_sum e) = spent e" "gained e = 0"
      by (simp_all add: spent_def gained_def unat_diff word_less_nat_alt)
    note IH = Cons.IH [of "if rm_in_sum e - rm_out_sum e > ni then (Some e, rm_in_sum e - rm_out_sum e) else (i, ni)" before_out]
    have IH: "ends_ok spent net (if rm_in_sum e - rm_out_sum e > ni then (Some e, rm_in_sum e - rm_out_sum e) else (i, ni)) end_in"
      "ends_ok gained net before_out end_out"
      using Cons.prems 1 b IH by (auto simp: Let_def split: if_splits)
    have "ends_ok spent (e # net) before_in end_in"
      using IH(1) worth(1) b by (cases "rm_in_sum e - rm_out_sum e > ni")
        (auto simp: word_less_nat_alt not_less elim: ends_ok_take ends_ok_keep [rotated])
    then show ?thesis using IH(2) worth(2) by (simp add: ends_ok_keep)
  next
    case 2
    then have worth: "unat (rm_out_sum e - rm_in_sum e) = gained e" "spent e = 0"
      by (simp_all add: spent_def gained_def unat_diff word_less_nat_alt)
    note IH = Cons.IH [of before_in "if rm_out_sum e - rm_in_sum e > no then (Some e, rm_out_sum e - rm_in_sum e) else (o', no)"]
    have IH: "ends_ok gained net (if rm_out_sum e - rm_in_sum e > no then (Some e, rm_out_sum e - rm_in_sum e) else (o', no)) end_out"
      "ends_ok spent net before_in end_in"
      using Cons.prems 2 b IH by (auto simp: Let_def split: if_splits)
    have "ends_ok gained (e # net) before_out end_out"
      using IH(1) worth(1) b by (cases "rm_out_sum e - rm_in_sum e > no")
        (auto simp: word_less_nat_alt not_less elim: ends_ok_take ends_ok_keep [rotated])
    then show ?thesis using IH(2) worth(2) by (simp add: ends_ok_keep)
  next
    case 3
    then have "spent e = 0" "gained e = 0" by (simp_all add: spent_def gained_def)
    then show ?thesis using Cons 3 b by (auto intro!: ends_ok_keep)
  qed
qed


text \<open>The net a mint leaves: what the legs paid of it beyond what they got, and the other way round.\<close>

definition net_paid :: "(nat \<times> idx_swap) list \<Rightarrow> idx_pubkey \<Rightarrow> nat" where
  "net_paid legs m = paid (map snd legs) m - got (map snd legs) m"

definition net_got :: "(nat \<times> idx_swap) list \<Rightarrow> idx_pubkey \<Rightarrow> nat" where
  "net_got legs m = got (map snd legs) m - paid (map snd legs) m"

lemma entry_worth:
  assumes "nets net (map snd legs)" "e \<in> set net"
  shows "spent e = net_paid legs (rm_mint e)" "gained e = net_got legs (rm_mint e)"
proof -
  have d: "distinct (map rm_mint net)" using assms(1) by (simp add: nets_def counted_def)
  have "paid (map snd legs) (rm_mint e) = unat (rm_in_sum e)" "got (map snd legs) (rm_mint e) = unat (rm_out_sum e)"
    using assms recorded_entry [OF d assms(2)] by (metis nets_def)+
  then show "spent e = net_paid legs (rm_mint e)" "gained e = net_got legs (rm_mint e)"
    by (simp_all add: spent_def gained_def net_paid_def net_got_def)
qed

lemma worth_bound:
  assumes "nets net (map snd legs)" "\<forall>e \<in> set net. f (rm_mint e) \<le> (n :: nat)"
    and "\<And>m. m \<notin> mints (map snd legs) \<Longrightarrow> f m = 0"
  shows "f m \<le> n"
proof (cases "m \<in> mints (map snd legs)")
  case True
  moreover have "rm_mint ` set net = mints (map snd legs)" using assms(1) by (simp add: nets_def counted_def)
  ultimately show ?thesis using assms(2) by (metis imageE)
qed (simp add: assms(3))

lemma net_paid_absent: "m \<notin> mints (map snd legs) \<Longrightarrow> net_paid legs m = 0"
  and net_got_absent: "m \<notin> mints (map snd legs) \<Longrightarrow> net_got legs m = 0"
  using not_a_mint by (auto simp: net_paid_def net_got_def)

text \<open>An end of the route: none when nothing is left over, else a mint with the largest net.\<close>

lemma end_found:
  assumes nets: "nets net (map snd legs)" and "ends_ok worth net (None, 0) end"
    and worth: "\<And>e. e \<in> set net \<Longrightarrow> worth e = f (rm_mint e)"
    and absent: "\<And>m. m \<notin> mints (map snd legs) \<Longrightarrow> f m = 0"
  shows "(fst end = None \<and> (\<forall>m. f m = 0)) \<or>
    (\<exists>e. end = (Some e, word_of_nat (f (rm_mint e))) \<and> 0 < f (rm_mint e) \<and> (\<forall>m. f m \<le> f (rm_mint e)))"
proof -
  have bound: "f m \<le> unat (snd end)" for m
    using worth_bound [where n = "unat (snd end)" and f = f, OF nets _ absent] assms(2) worth by (auto simp: ends_ok_def)
  show ?thesis
  proof (cases "end = (None, 0)")
    case True
    then show ?thesis using bound by auto
  next
    case False
    then show ?thesis using assms(2) worth bound by (auto simp: ends_ok_def)
  qed
qed

text \<open>
  C10: A Jupiter route is reported as the trade it amounts to. As long as no mint's totals leave
  64 bits and the legs touch at most 24 mints, the legs of a route yield exactly one aggregated
  row, which names as input the mint with the largest net payment and as output the mint with
  the largest net gain, with these nets as amounts and the place of the first leg; mints that
  only pass through cancel, and a route with nothing left on either end yields no row.
\<close>

theorem route_nets_exactly:
  assumes ok: "legs_ok (map snd legs)" and "legs \<noteq> []"
  shows "if (\<exists>m. 0 < net_paid legs m) \<and> (\<exists>m. 0 < net_got legs m)
     then \<exists>i o'. (\<forall>m. net_paid legs m \<le> net_paid legs i) \<and> (\<forall>m. net_got legs m \<le> net_got legs o') \<and>
       route_of tx legs = [aggregated_row tx (word_of_nat (fst (hd legs))) i (word_of_nat (net_paid legs i))
         o' (word_of_nat (net_got legs o'))]
     else route_of tx legs = []"
proof -
  obtain net where net: "fold leg_on_route legs ([], False, False, 0) = (net, False, True, word_of_nat (fst (hd legs)))"
    and nets: "nets net (map snd legs)" using route_nets [OF ok] assms(2) by auto
  obtain end_in end_out where ends: "route_ends net ((None, 0), (None, 0)) = (end_in, end_out)"
    by (cases "route_ends net ((None, 0), (None, 0))")
  have ok: "ends_ok spent net (None, 0) end_in" "ends_ok gained net (None, 0) end_out"
    using route_ends_ok [OF ends] by simp_all
  note in_end = end_found [OF nets ok(1) entry_worth(1) [OF nets] net_paid_absent]
  note out_end = end_found [OF nets ok(2) entry_worth(2) [OF nets] net_got_absent]
  have rows: "route_of tx legs = (case (end_in, end_out) of
      ((Some input, input_net), (Some output, output_net)) \<Rightarrow>
        [aggregated_row tx (word_of_nat (fst (hd legs))) (rm_mint input) input_net (rm_mint output) output_net]
    | _ \<Rightarrow> [])"
    by (simp add: route_of_def route_rows_def net ends)
  show ?thesis
  proof (cases "(\<exists>m. 0 < net_paid legs m) \<and> (\<exists>m. 0 < net_got legs m)")
    case True
    then obtain e f where "end_in = (Some e, word_of_nat (net_paid legs (rm_mint e)))"
      "\<forall>m. net_paid legs m \<le> net_paid legs (rm_mint e)"
      "end_out = (Some f, word_of_nat (net_got legs (rm_mint f)))"
      "\<forall>m. net_got legs m \<le> net_got legs (rm_mint f)"
      using in_end out_end by (metis neq0_conv)
    then show ?thesis using True rows by auto
  next
    case False
    then have "fst end_in = None \<or> fst end_out = None" using in_end out_end by (metis neq0_conv)
    then show ?thesis unfolding if_not_P [OF False] using rows by (cases end_in; cases end_out) (auto split: option.splits)
  qed
qed


text \<open>Two legs of a route, A to B and B to C.\<close>

definition sample_leg :: "byte \<Rightarrow> u64 \<Rightarrow> byte \<Rightarrow> u64 \<Rightarrow> idx_swap" where
  "sample_leg i a o' b = zero_swap\<lparr>sw_venue := IDX_VENUE_JUPITER, sw_from_event := True,
     sw_input_mint := replicate 32 i, sw_has_input_mint := True, sw_input_amount := a, sw_has_input_amount := True,
     sw_output_mint := replicate 32 o', sw_has_output_mint := True, sw_output_amount := b, sw_has_output_amount := True\<rparr>"

definition sample_legs :: "(nat \<times> idx_swap) list" where
  "sample_legs = [(3, sample_leg 1 10 2 20), (3, sample_leg 2 20 3 7)]"

lemma sample_keys: "replicate 32 a = replicate 32 b \<longleftrightarrow> (a :: byte) = b"
  by (simp add: replicate_eq_replicate)

lemma sample_amounts:
  "paid (map snd sample_legs) m = (if m = replicate 32 1 then 10 else if m = replicate 32 2 then 20 else 0)"
  "got (map snd sample_legs) m = (if m = replicate 32 2 then 20 else if m = replicate 32 3 then 7 else 0)"
  by (auto simp: paid_def got_def amounts_def sample_legs_def sample_leg_def sample_keys)

lemma sample_nets:
  "net_paid sample_legs m = (if m = replicate 32 1 then 10 else 0)"
  "net_got sample_legs m = (if m = replicate 32 3 then 7 else 0)"
  by (auto simp: net_paid_def net_got_def sample_amounts sample_keys)

lemma sample_legs_ok: "legs_ok (map snd sample_legs)"
proof -
  have m: "mints (map snd sample_legs) = {replicate 32 1, replicate 32 2, replicate 32 3}"
    by (auto simp: mints_def sample_legs_def sample_leg_def)
  show ?thesis by (auto simp: legs_ok_def m sample_amounts key_ok_def IDX_PUBKEY_LEN_def MAX_ROUTE_MINTS_def
        card_insert_if sample_keys)
qed

theorem route_nets_exactly_witness:
  "route_of (sample_tx []) sample_legs =
     [aggregated_row (sample_tx []) 3 (replicate 32 1) 10 (replicate 32 3) 7]"
proof -
  have some: "(\<exists>m. 0 < net_paid sample_legs m) \<and> (\<exists>m. 0 < net_got sample_legs m)"
    by (auto simp: sample_nets)
  have ne: "sample_legs \<noteq> []" and first: "fst (hd sample_legs) = 3" by (simp_all add: sample_legs_def)
  obtain i o' where "\<forall>m. net_paid sample_legs m \<le> net_paid sample_legs i"
    "\<forall>m. net_got sample_legs m \<le> net_got sample_legs o'"
    and row: "route_of (sample_tx []) sample_legs = [aggregated_row (sample_tx []) (word_of_nat (fst (hd sample_legs))) i
      (word_of_nat (net_paid sample_legs i)) o' (word_of_nat (net_got sample_legs o'))]"
    using route_nets_exactly [OF sample_legs_ok ne, of "sample_tx []"] unfolding if_P [OF some] by blast
  then have "10 \<le> net_paid sample_legs i" "7 \<le> net_got sample_legs o'"
    using sample_nets by metis+
  then have "i = replicate 32 1" "o' = replicate 32 3" by (auto simp: sample_nets split: if_splits)
  then show ?thesis using row first by (simp add: sample_nets sample_keys)
qed

end
