(* ===== verification/Registry.thy ===== *)
theory Registry
  imports HashMap
begin

text \<open>
  Records on the heap, owned through a table: what the pool, token and bar registries
  (\<^verbatim>\<open>src/pool.c\<close>, \<^verbatim>\<open>src/token.c\<close>, \<^verbatim>\<open>src/bar.c\<close>) have in common. The table maps a key to the
  address of its record; a record is found and changed through that address, a new one is
  allocated, put into the table, and freed again when the table refuses it.
\<close>

section \<open>Model\<close>

record 'r registry =
  by_key :: "nat idx_map"
  heap :: "nat \<Rightarrow> 'r option"

text \<open>
  What the allocators answer in one call: the address \<^verbatim>\<open>calloc\<close> gives a record, given the
  records alive, and the choices the table's insertion depends on.
\<close>

record 'r choice =
  ch_record :: "(nat \<Rightarrow> 'r option) \<Rightarrow> nat option"
  ch_table :: "nat \<Rightarrow> bool"
  ch_key :: bool

definition registry_init :: "'r registry" where
  "registry_init = \<lparr>by_key = fresh_map, heap = (\<lambda>_. None)\<rparr>"

definition registry_find :: "'r registry \<Rightarrow> idx_slice \<Rightarrow> nat option" where
  "registry_find reg key = (case idx_map_get (Some (by_key reg)) key of
      Some (Some p) \<Rightarrow> Some p
    | _ \<Rightarrow> None)"

definition registry_insert :: "'r choice \<Rightarrow> 'r registry \<Rightarrow> idx_slice \<Rightarrow> 'r \<Rightarrow> nat result \<times> 'r registry" where
  "registry_insert ch reg key r = (case ch_record ch (heap reg) of
      None \<Rightarrow> (Inl IDX_ERR_NO_MEMORY, reg)
    | Some p \<Rightarrow>
        (let reg = reg\<lparr>heap := (heap reg)(p := Some r)\<rparr> in
         case idx_map_put (ch_table ch) (ch_key ch) (Some (by_key reg)) key (Some p) of
           (status, mp) \<Rightarrow>
             (let reg = reg\<lparr>by_key := the mp\<rparr> in
              if status \<noteq> IDX_OK then (Inl status, reg\<lparr>heap := (heap reg)(p := None)\<rparr>)
              else (Inr p, reg))))"

definition registry_update :: "nat \<Rightarrow> ('r \<Rightarrow> 'r) \<Rightarrow> 'r registry \<Rightarrow> 'r registry" where
  "registry_update p f reg = reg\<lparr>heap := (heap reg)(p := map_option f (heap reg p))\<rparr>"

text \<open>Every record freed, then the table.\<close>

definition free_records :: "(idx_slice \<times> nat option) list \<Rightarrow> (nat \<Rightarrow> 'r option) \<Rightarrow> nat \<Rightarrow> 'r option" where
  "free_records = fold (\<lambda>(key, v) h. case v of None \<Rightarrow> h | Some p \<Rightarrow> h(p := None))"

definition registry_free :: "'r registry \<Rightarrow> 'r registry" where
  "registry_free reg =
     \<lparr>by_key = the (idx_map_free (Some (by_key reg))),
      heap = free_records (iterate (capacity (by_key reg) + 1) (by_key reg) 0) (heap reg)\<rparr>"

text \<open>A record freed and its binding removed, as \<^verbatim>\<open>src/bar.c\<close> does it.\<close>

definition registry_remove :: "'r registry \<Rightarrow> idx_slice \<Rightarrow> 'r registry" where
  "registry_remove reg key = (case registry_find reg key of
      None \<Rightarrow> reg
    | Some p \<Rightarrow> reg\<lparr>heap := (heap reg)(p := None), by_key := the (snd (idx_map_remove (Some (by_key reg)) key))\<rparr>)"

section \<open>Invariant and abstraction\<close>

text \<open>Every binding owns one live record, no two the same, and no record is owned by none.\<close>

definition owns :: "(bytes \<Rightarrow> nat option option) \<Rightarrow> (nat \<Rightarrow> 'r option) \<Rightarrow> bool" where
  "owns m h \<longleftrightarrow> (\<forall>k v. m k = Some v \<longrightarrow> (\<exists>p. v = Some p \<and> h p \<noteq> None)) \<and>
     (\<forall>k j p. m k = Some (Some p) \<longrightarrow> m j = Some (Some p) \<longrightarrow> k = j) \<and>
     (\<forall>p. h p \<noteq> None \<longrightarrow> (\<exists>k. m k = Some (Some p)))"

definition reg_ok :: "'r registry \<Rightarrow> bool" where
  "reg_ok reg \<longleftrightarrow> map_wf (by_key reg) \<and> owns (map_abs (by_key reg)) (heap reg)"

definition reg_view :: "'r registry \<Rightarrow> bytes \<Rightarrow> 'r option" where
  "reg_view reg k = (case map_abs (by_key reg) k of Some (Some p) \<Rightarrow> heap reg p | _ \<Rightarrow> None)"

definition fresh_choice :: "'r choice \<Rightarrow> bool" where
  "fresh_choice ch \<longleftrightarrow> (\<forall>h p. ch_record ch h = Some p \<longrightarrow> h p = None)"

lemma registry_init_ok: "reg_ok registry_init" "reg_view registry_init = Map.empty"
  by (simp_all add: registry_init_def reg_ok_def reg_view_def [abs_def] owns_def fresh_map_ok
      fresh_map_ok(1) [unfolded map_ok_def, THEN conjunct1])

lemma find_eq: "reg_ok reg \<Longrightarrow> registry_find reg k = (case map_abs (by_key reg) k of Some (Some p) \<Rightarrow> Some p | _ \<Rightarrow> None)"
  by (simp add: registry_find_def reg_ok_def get_eq del: idx_map_get.simps)

lemma find_view:
  assumes "reg_ok reg"
  shows "reg_view reg k = (case registry_find reg k of None \<Rightarrow> None | Some p \<Rightarrow> heap reg p)"
    "registry_find reg k = None \<longleftrightarrow> reg_view reg k = None"
  using assms by (auto simp: find_eq reg_view_def reg_ok_def owns_def split: option.splits)

lemma find_init: "registry_find registry_init k = None"
  using find_view(2) [OF registry_init_ok(1)] by (simp add: registry_init_ok(2))

lemma find_unbound: "reg_ok reg \<Longrightarrow> registry_find reg k = None \<Longrightarrow> map_abs (by_key reg) k = None"
  by (auto simp: find_eq reg_ok_def owns_def split: option.splits)

lemma owns_alive: "owns m h \<Longrightarrow> (\<And>q. h' q = None \<longleftrightarrow> h q = None) \<Longrightarrow> owns m h'"
  by (simp add: owns_def)

lemma owns_inj: "owns m h \<Longrightarrow> m k = Some (Some p) \<Longrightarrow> m j = Some (Some p) \<Longrightarrow> k = j"
  unfolding owns_def by blast

lemma update_ok:
  assumes "reg_ok reg" "registry_find reg k = Some p"
  shows "reg_ok (registry_update p f reg)" "reg_view (registry_update p f reg) = (reg_view reg)(k := map_option f (reg_view reg k))"
    "registry_find (registry_update p f reg) = registry_find reg"
proof -
  have k: "map_abs (by_key reg) k = Some (Some p)"
    using assms by (auto simp: find_eq split: option.splits)
  have own: "owns (map_abs (by_key reg)) (heap reg)" and wf: "map_wf (by_key reg)" using assms(1) by (simp_all add: reg_ok_def)
  have "owns (map_abs (by_key reg)) (heap (registry_update p f reg))"
    by (rule owns_alive [OF own]) (simp add: registry_update_def)
  moreover have "by_key (registry_update p f reg) = by_key reg" by (simp add: registry_update_def)
  ultimately show "reg_ok (registry_update p f reg)" using wf by (simp add: reg_ok_def)
  have "reg_view (registry_update p f reg) j = ((reg_view reg)(k := map_option f (reg_view reg k))) j" for j
  proof (cases "j = k")
    case False
    then have "map_abs (by_key reg) j \<noteq> Some (Some p)" using owns_inj [OF own _ k] by blast
    then show ?thesis using False by (simp add: reg_view_def registry_update_def split: option.split)
  qed (simp add: reg_view_def registry_update_def k)
  then show "reg_view (registry_update p f reg) = (reg_view reg)(k := map_option f (reg_view reg k))" by (rule ext)
  show "registry_find (registry_update p f reg) = registry_find reg"
    by (simp add: fun_eq_iff registry_find_def registry_update_def del: idx_map_get.simps)
qed

lemma owns_new:
  assumes "owns m h" "m k = None" "h p = None"
  shows "owns (m(k \<mapsto> Some p)) (h(p \<mapsto> r))"
  unfolding owns_def
proof (intro conjI allI impI)
  fix j v assume "(m(k \<mapsto> Some p)) j = Some v"
  then show "\<exists>q. v = Some q \<and> (h(p \<mapsto> r)) q \<noteq> None"
    using assms(1) unfolding owns_def by (cases "j = k") (auto, metis option.distinct(1))
next
  fix i j q assume "(m(k \<mapsto> Some p)) i = Some (Some q)" "(m(k \<mapsto> Some p)) j = Some (Some q)"
  moreover have "m l \<noteq> Some (Some p)" for l using assms(1,3) unfolding owns_def by (metis option.inject)
  ultimately show "i = j" using assms(1) unfolding owns_def by (auto split: if_splits)
next
  fix q assume "(h(p \<mapsto> r)) q \<noteq> None"
  then show "\<exists>l. (m(k \<mapsto> Some p)) l = Some (Some q)"
    using assms unfolding owns_def by (cases "q = p") (auto, metis option.distinct(1))
qed

lemma insert_ok:
  assumes ok: "reg_ok reg" and new: "registry_find reg k = None" and fresh: "fresh_choice ch"
    and ins: "registry_insert ch reg k r = (res, reg')"
  shows "reg_ok reg' \<and> (case res of
      Inr p \<Rightarrow> reg_view reg' = (reg_view reg)(k \<mapsto> r) \<and> registry_find reg' k = Some p \<and>
        (map_ok (by_key reg) \<longrightarrow> map_ok (by_key reg'))
    | Inl st \<Rightarrow> reg_view reg' = reg_view reg \<and> (st = IDX_ERR_NO_MEMORY \<or> st = IDX_ERR_INTERNAL \<and> \<not> map_ok (by_key reg)))"
proof (cases "ch_record ch (heap reg)")
  case None
  then show ?thesis using ins ok by (auto simp: registry_insert_def)
next
  case (Some p)
  have free: "heap reg p = None" using Some fresh by (simp add: fresh_choice_def)
  have unbound: "map_abs (by_key reg) k = None" by (rule find_unbound [OF ok new])
  have wf: "map_wf (by_key reg)" and own: "owns (map_abs (by_key reg)) (heap reg)" using ok by (simp_all add: reg_ok_def)
  obtain st m where put: "idx_map_put (ch_table ch) (ch_key ch) (Some (by_key reg)) k (Some p) = (st, m)" by fastforce
  obtain mp where mp: "m = Some mp" "map_wf mp"
    "st = IDX_OK \<and> map_abs mp = (map_abs (by_key reg))(k \<mapsto> Some p) \<and> (map_ok (by_key reg) \<longrightarrow> map_ok mp) \<or>
     st \<noteq> IDX_OK \<and> map_abs mp = map_abs (by_key reg) \<and>
       (st = IDX_ERR_NO_MEMORY \<or> st = IDX_ERR_INTERNAL \<and> \<not> map_ok (by_key reg))"
    using put_cases [OF wf put] by auto
  have out: "res = (if st \<noteq> IDX_OK then Inl st else Inr p)"
    "reg' = (if st \<noteq> IDX_OK then reg\<lparr>by_key := mp\<rparr> else reg\<lparr>by_key := mp, heap := (heap reg)(p \<mapsto> r)\<rparr>)"
    using ins free by (auto simp: registry_insert_def Some put mp(1) Let_def simp del: idx_map_put.simps) (simp add: fun_upd_idem)
  show ?thesis
  proof (cases "st = IDX_OK")
    case True
    then have abs: "map_abs mp = (map_abs (by_key reg))(k \<mapsto> Some p)" "map_ok (by_key reg) \<longrightarrow> map_ok mp" using mp(3) by auto
    have ok': "reg_ok reg'" using owns_new [OF own unbound free, of r] True out(2) mp(2) abs by (simp add: reg_ok_def)
    have "map_abs (by_key reg) j \<noteq> Some (Some p)" for j using own free unfolding owns_def by (metis option.inject)
    then have "reg_view reg' = (reg_view reg)(k \<mapsto> r)"
      using True out(2) abs by (auto simp: reg_view_def fun_eq_iff split: option.splits)
    moreover have "registry_find reg' k = Some p" using ok' True out(2) abs by (simp add: find_eq)
    ultimately show ?thesis using ok' True out abs by simp
  next
    case False
    then have abs: "map_abs mp = map_abs (by_key reg)" using mp(3) by auto
    moreover have "reg_view reg' = reg_view reg"
      by (rule ext) (simp add: reg_view_def False out(2) abs split: option.splits)
    ultimately show ?thesis using False out mp own by (auto simp: reg_ok_def)
  qed
qed

text \<open>A key stored inline never touches the allocator, so its insertion keeps the counters exact.\<close>

lemma put_short:
  assumes "map_ok mp" "length key \<le> IDX_MAP_INLINE_KEY" "idx_map_put alloc malloc_ok (Some mp) key v = (st, Some mp')"
  shows "map_ok mp'"
proof -
  have wf: "map_wf mp" using assms(1) by (simp add: map_ok_def)
  from put_cases [OF wf assms(3)] assms(1,2)
  consider "st = IDX_OK" "map_ok mp'" | "st = IDX_ERR_NO_MEMORY" by auto
  then show ?thesis
  proof cases
    case 2
    obtain st1 mp1 where room: "ensure_room alloc mp = (st1, mp1)" by fastforce
    have "st1 \<noteq> IDX_OK"
    proof
      assume "st1 = IDX_OK"
      then have "put_in_room malloc_ok mp1 key v = (st, mp')" using assms(3) room by (auto split: prod.splits)
      then show False using assms(2) 2
        by (auto simp: put_in_room_def entry_store_key_def Let_def split: option.splits if_splits)
    qed
    then show ?thesis using room assms(3) ensure_room_made [OF wf room] assms(1) by (auto simp: room_made_def)
  qed simp
qed

lemma insert_short:
  assumes "map_ok (by_key reg)" "length k \<le> IDX_MAP_INLINE_KEY" "registry_insert ch reg k r = (res, reg')"
  shows "map_ok (by_key reg')"
proof (cases "ch_record ch (heap reg)")
  case (Some p)
  obtain st m where put: "idx_map_put (ch_table ch) (ch_key ch) (Some (by_key reg)) k (Some p) = (st, m)" by fastforce
  have "map_wf (by_key reg)" using assms(1) by (simp add: map_ok_def)
  from put_cases [OF this put] obtain mp where mp: "m = Some mp" by blast
  then have "map_ok mp" using put_short [OF assms(1,2)] put by blast
  then show ?thesis using assms(3) Some put mp by (auto simp: registry_insert_def Let_def split: if_splits simp del: idx_map_put.simps)
qed (use assms in \<open>auto simp: registry_insert_def\<close>)

lemma owns_drop:
  assumes "owns m h" "m k = Some (Some p)"
  shows "owns (m(k := None)) (h(p := None))"
  unfolding owns_def
proof (intro conjI allI impI)
  fix j v assume j: "(m(k := None)) j = Some v"
  then have "j \<noteq> k" "m j = Some v" by (auto split: if_splits)
  moreover obtain q where q: "v = Some q" "h q \<noteq> None" using calculation(2) assms(1) unfolding owns_def by blast
  moreover have "q \<noteq> p" using owns_inj [OF assms(1), of j p k] assms(2) calculation by blast
  ultimately show "\<exists>q. v = Some q \<and> (h(p := None)) q \<noteq> None" by auto
next
  fix i j q assume "(m(k := None)) i = Some (Some q)" "(m(k := None)) j = Some (Some q)"
  then show "i = j" using owns_inj [OF assms(1)] by (auto split: if_splits)
next
  fix q assume "(h(p := None)) q \<noteq> None"
  then have q: "q \<noteq> p" "h q \<noteq> None" by (auto split: if_splits)
  then obtain j where "m j = Some (Some q)" using assms(1) unfolding owns_def by blast
  then show "\<exists>j. (m(k := None)) j = Some (Some q)" using q(1) assms(2) by (intro exI [of _ j]) auto
qed

lemma remove_ok:
  assumes "reg_ok reg"
  shows "reg_ok (registry_remove reg k)" "reg_view (registry_remove reg k) = (reg_view reg)(k := None)"
proof -
  have wf: "map_wf (by_key reg)" and own: "owns (map_abs (by_key reg)) (heap reg)" using assms by (simp_all add: reg_ok_def)
  have "reg_ok (registry_remove reg k) \<and> reg_view (registry_remove reg k) = (reg_view reg)(k := None)"
  proof (cases "registry_find reg k")
    case None
    then have "reg_view reg k = None" using find_view(2) [OF assms] by blast
    then show ?thesis using None assms by (auto simp: registry_remove_def)
  next
    case (Some p)
    then have k: "map_abs (by_key reg) k = Some (Some p)" using assms by (auto simp: find_eq split: option.splits)
    obtain f r where r: "idx_map_remove (Some (by_key reg)) k = (f, r)" by fastforce
    from remove_cases [OF wf r] obtain mp where mp: "r = Some mp" "map_wf mp" "map_abs mp = (map_abs (by_key reg))(k := None)"
      by blast
    have out: "registry_remove reg k = reg\<lparr>heap := (heap reg)(p := None), by_key := mp\<rparr>"
      by (simp add: registry_remove_def Some r mp(1) del: idx_map_remove.simps)
    have "reg_view (registry_remove reg k) j = ((reg_view reg)(k := None)) j" for j
    proof (cases "j = k")
      case False
      then have "map_abs (by_key reg) j \<noteq> Some (Some p)" using owns_inj [OF own _ k] by blast
      then show ?thesis using False by (simp add: reg_view_def out mp(3) split: option.split)
    qed (simp add: reg_view_def out mp(3))
    then have "reg_view (registry_remove reg k) = (reg_view reg)(k := None)" by (rule ext)
    then show ?thesis using owns_drop [OF own k] mp(2,3) by (simp add: reg_ok_def out)
  qed
  then show "reg_ok (registry_remove reg k)" "reg_view (registry_remove reg k) = (reg_view reg)(k := None)" by blast+
qed

lemma iterate_all: "map_wf mp \<Longrightarrow> iterate (capacity mp + 1) mp 0 = bindings (entries mp)"
  using iterate_bindings [of mp 0 "capacity mp + 1"] by (simp add: map_wf_def le_imp_less_Suc del: iterate.simps)

lemma free_records_eq: "free_records bs h p = (if Some p \<in> snd ` set bs then None else h p)"
  by (induction bs arbitrary: h) (auto simp: free_records_def split: option.splits)

lemma registry_free_ok:
  assumes "reg_ok reg"
  shows "registry_free reg = registry_init"
proof -
  let ?es = "entries (by_key reg)"
  have wf: "map_wf (by_key reg)" and own: "owns (map_abs (by_key reg)) (heap reg)" using assms by (simp_all add: reg_ok_def)
  note it = iterate_all [OF wf]
  have "heap (registry_free reg) p = None" for p
  proof (cases "heap reg p = None")
    case False
    then obtain k where "map_abs (by_key reg) k = Some (Some p)" using own unfolding owns_def by blast
    then have "map_of (bindings ?es) k = Some (Some p)" by (simp only: bindings_lookup map_abs_def)
    then have "Some p \<in> snd ` set (bindings ?es)" using map_of_SomeD by force
    then show ?thesis by (simp only: registry_free_def it registry.select_convs(2) free_records_eq if_True)
  qed (simp add: registry_free_def free_records_eq)
  moreover have "by_key (registry_free reg) = fresh_map"
    by (simp add: registry_free_def idx_map_free_def idx_map_init_def idx_map_clear_def fresh_map_def)
  ultimately show ?thesis by (simp add: registry_init_def fun_eq_iff)
qed

text \<open>Allocators that grant everything: records get the first address, so at most one is alive.\<close>

definition granting :: "'r choice" where
  "granting = \<lparr>ch_record = (\<lambda>h. if h 0 = None then Some 0 else None), ch_table = (\<lambda>_. True), ch_key = True\<rparr>"

lemma granting_fresh: "fresh_choice granting"
  by (simp add: fresh_choice_def granting_def)

lemma granting_insert: "\<exists>reg. registry_insert granting registry_init k r = (Inr 0, reg)"
proof -
  have "\<forall>n \<le> max 16 (2 * capacity fresh_map). calloc_grants (\<lambda>_. True) n"
    by (simp add: fresh_map_def calloc_grants_def sizeof_entry_def SIZE_MAX_def)
  then obtain mp where "dict_put (\<lambda>_. True) True fresh_map k (Some (0 :: nat)) = Some mp"
    using dict_put_granted fresh_map_ok(1) by blast
  then have "idx_map_put (\<lambda>_. True) True (Some fresh_map) k (Some (0 :: nat)) = (IDX_OK, Some mp)"
    by (auto simp: dict_put_def simp del: idx_map_put.simps split: prod.splits if_splits)
  then show ?thesis
    by (simp add: registry_insert_def granting_def registry_init_def Let_def del: idx_map_put.simps)
qed

text \<open>The record at a key, created when there is none.\<close>

definition registry_obtain :: "'r choice \<Rightarrow> 'r registry \<Rightarrow> idx_slice \<Rightarrow> 'r \<Rightarrow> nat result \<times> 'r registry" where
  "registry_obtain ch reg key r = (case registry_find reg key of
      Some p \<Rightarrow> (Inr p, reg)
    | None \<Rightarrow> registry_insert ch reg key r)"

lemma obtain_ok:
  assumes ok: "reg_ok reg" and fresh: "fresh_choice ch" and got: "registry_obtain ch reg k r = (res, reg')"
    and short: "map_ok (by_key reg)" "length k \<le> IDX_MAP_INLINE_KEY"
  shows "reg_ok reg' \<and> map_ok (by_key reg') \<and> (case res of
      Inr p \<Rightarrow> registry_find reg' k = Some p \<and>
        reg_view reg' = (reg_view reg)(k \<mapsto> (case reg_view reg k of None \<Rightarrow> r | Some x \<Rightarrow> x))
    | Inl st \<Rightarrow> reg_view reg' = reg_view reg \<and> st = IDX_ERR_NO_MEMORY)"
proof (cases "registry_find reg k")
  case None
  then have ins: "registry_insert ch reg k r = (res, reg')" "reg_view reg k = None"
    using got None find_view(2) [OF ok, of k] by (simp_all add: registry_obtain_def)
  then show ?thesis using insert_ok [OF ok None fresh ins(1)] insert_short [OF short ins(1)] short(1)
    by (cases res) auto
next
  case (Some p)
  then obtain x where "reg_view reg k = Some x" using find_view(2) [OF ok, of k] by auto
  then show ?thesis using got Some ok short(1) by (auto simp: registry_obtain_def fun_upd_idem)
qed

section \<open>The interface\<close>

text \<open>
  What a registry relies on: finding, inserting and changing act on a map from keys to
  records. Looking a key up and inserting it when absent, then changing the record, is an
  update of that map.
\<close>

locale record_store =
  fixes ok :: "'s \<Rightarrow> bool"
    and view :: "'s \<Rightarrow> 'k \<Rightarrow> 'r option"
    and find_at :: "'s \<Rightarrow> 'k \<Rightarrow> 'p option"
    and insert_at :: "'c \<Rightarrow> 's \<Rightarrow> 'k \<Rightarrow> 'r \<Rightarrow> 'p result \<times> 's"
    and update_at :: "'p \<Rightarrow> ('r \<Rightarrow> 'r) \<Rightarrow> 's \<Rightarrow> 's"
    and fresh :: "'c \<Rightarrow> bool"
  assumes found: "ok s \<Longrightarrow> find_at s k = None \<longleftrightarrow> view s k = None"
    and inserted: "ok s \<Longrightarrow> find_at s k = None \<Longrightarrow> fresh c \<Longrightarrow> insert_at c s k r = (Inr p, s') \<Longrightarrow>
      ok s' \<and> view s' = (view s)(k := Some r) \<and> find_at s' k = Some p"
    and refused: "ok s \<Longrightarrow> find_at s k = None \<Longrightarrow> fresh c \<Longrightarrow> insert_at c s k r = (Inl st, s') \<Longrightarrow>
      ok s' \<and> view s' = view s \<and> st \<noteq> IDX_OK"
    and updated: "ok s \<Longrightarrow> find_at s k = Some p \<Longrightarrow>
      ok (update_at p f s) \<and> view (update_at p f s) = (view s)(k := map_option f (view s k))"
begin

lemma find_then_update:
  assumes "ok s" "find_at s k = Some p"
  shows "ok (update_at p f s)" "\<exists>r. view s k = Some r \<and> view (update_at p f s) = (view s)(k := Some (f r))"
  using updated [OF assms] found [OF assms(1), of k] assms(2) by auto

lemma insert_then_update:
  assumes "ok s" "find_at s k = None" "fresh c" "insert_at c s k r = (Inr p, s')"
  shows "ok (update_at p f s')" "view (update_at p f s') = (view s)(k := Some (f r))"
  using inserted [OF assms] updated [of s' k p f] by auto

end

interpretation reg: record_store reg_ok reg_view registry_find registry_insert registry_update fresh_choice
proof unfold_locales
  fix s :: "'r registry" and k c r p s' st f
  assume ok: "reg_ok s"
  show "(registry_find s k = None) = (reg_view s k = None)" by (rule find_view(2) [OF ok])
  show "reg_ok s' \<and> reg_view s' = (reg_view s)(k := Some r) \<and> registry_find s' k = Some p"
    if "registry_find s k = None" "fresh_choice c" "registry_insert c s k r = (Inr p, s')"
    using insert_ok [OF ok that] by simp
  show "reg_ok s' \<and> reg_view s' = reg_view s \<and> st \<noteq> IDX_OK"
    if "registry_find s k = None" "fresh_choice c" "registry_insert c s k r = (Inl st, s')"
    using insert_ok [OF ok that] by auto
  show "reg_ok (registry_update p f s) \<and> reg_view (registry_update p f s) = (reg_view s)(k := map_option f (reg_view s k))"
    if "registry_find s k = Some p"
    using update_ok [OF ok that] by blast
qed


lemma by_key_update [simp]: "by_key (registry_update p f reg) = by_key reg"
  by (simp add: registry_update_def)

section \<open>Histories\<close>

text \<open>A run of observations, each with the allocators' answers to it; those that took effect; and what
  they make of the record at a key.\<close>

fun observe_run :: "('c \<times> 'e \<Rightarrow> 's \<Rightarrow> idx_status \<times> 's) \<Rightarrow> ('c \<times> 'e) list \<Rightarrow> 's \<Rightarrow> idx_status list \<times> 's" where
  "observe_run step [] s = ([], s)"
| "observe_run step (e # es) s = (case step e s of (st, s) \<Rightarrow>
     (case observe_run step es s of (sts, s) \<Rightarrow> (st # sts, s)))"

definition effective :: "('c \<times> 'e) list \<Rightarrow> idx_status list \<Rightarrow> 'e list" where
  "effective es sts = map (snd \<circ> fst) (filter (\<lambda>(e, st). st = IDX_OK) (zip es sts))"

definition history :: "('k \<Rightarrow> 'e \<Rightarrow> bool) \<Rightarrow> ('e \<Rightarrow> 'r option \<Rightarrow> 'r option) \<Rightarrow> 'k \<Rightarrow> 'e list \<Rightarrow> 'r option \<Rightarrow> 'r option" where
  "history names after k es r = fold after (filter (names k) es) r"

lemma effective_Cons: "effective (e # es) (st # sts) = (if st = IDX_OK then snd e # effective es sts else effective es sts)"
  by (simp add: effective_def)

text \<open>
  The contract of an observation: it takes effect on exactly the records it names, or fails
  for want of memory and changes none. Then a run leaves every record at its history.
\<close>

locale observed_records =
  fixes ok :: "'s \<Rightarrow> bool"
    and view :: "'s \<Rightarrow> 'k \<Rightarrow> 'r option"
    and fresh :: "'c \<Rightarrow> bool"
    and step :: "'c \<times> 'e \<Rightarrow> 's \<Rightarrow> idx_status \<times> 's"
    and names :: "'k \<Rightarrow> 'e \<Rightarrow> bool"
    and after :: "'e \<Rightarrow> 'r option \<Rightarrow> 'r option"
  assumes observed: "ok s \<Longrightarrow> fresh (fst e) \<Longrightarrow> step e s = (st, s') \<Longrightarrow>
      ok s' \<and> (st = IDX_OK \<or> st = IDX_ERR_NO_MEMORY) \<and>
      view s' = (\<lambda>k. if st = IDX_OK \<and> names k (snd e) then after (snd e) (view s k) else view s k)"
begin

lemma run_history:
  "ok s \<Longrightarrow> \<forall>e \<in> set es. fresh (fst e) \<Longrightarrow> observe_run step es s = (sts, s') \<Longrightarrow>
     ok s' \<and> set sts \<subseteq> {IDX_OK, IDX_ERR_NO_MEMORY} \<and>
     view s' = (\<lambda>k. history names after k (effective es sts) (view s k))"
proof (induction es arbitrary: s sts)
  case Nil
  then show ?case by (simp add: effective_def history_def)
next
  case (Cons e es)
  obtain st s1 where step: "step e s = (st, s1)" by fastforce
  obtain sts1 where run: "observe_run step es s1 = (sts1, s')" "sts = st # sts1"
    using Cons.prems(3) step by (auto split: prod.splits)
  note one = observed [OF Cons.prems(1) _ step]
  have "ok s' \<and> set sts1 \<subseteq> {IDX_OK, IDX_ERR_NO_MEMORY} \<and>
     view s' = (\<lambda>k. history names after k (effective es sts1) (view s1 k))"
    using one Cons.prems(2) run(1) by (intro Cons.IH) auto
  then show ?case using one Cons.prems(2) by (auto simp: run(2) effective_Cons history_def fun_eq_iff)
qed

end

end
