(* ===== verification/Pools.thy ===== *)
theory Pools
  imports Registry Swaps
begin

text \<open>
  The pool registry (\<^verbatim>\<open>src/pool.c\<close>, \<^verbatim>\<open>include/pool.h\<close>): one record per pool address, learned
  from the first swap that names it, completed by later ones and enriched by its creation.
\<close>

section \<open>Model\<close>

record idx_pool =
  po_address :: idx_pubkey
  po_venue :: idx_venue
  po_mint_a :: idx_pubkey
  po_has_mint_a :: bool
  po_decimals_a :: byte
  po_has_decimals_a :: bool
  po_mint_b :: idx_pubkey
  po_has_mint_b :: bool
  po_decimals_b :: byte
  po_has_decimals_b :: bool
  po_first_seen_slot :: u64
  po_swap_count :: u64
  po_has_creation :: bool
  po_creation_slot :: u64
  po_creator :: idx_pubkey
  po_has_creator :: bool

record idx_pool_registry =
  by_address :: "idx_pool registry"
  enriched :: u64
  creations_unmatched :: u64

definition idx_pool_registry_init :: "idx_pool_registry option \<Rightarrow> idx_pool_registry option" where
  "idx_pool_registry_init = map_option (\<lambda>_. \<lparr>by_address = registry_init, enriched = 0, creations_unmatched = 0\<rparr>)"

definition idx_pool_registry_free :: "idx_pool_registry option \<Rightarrow> idx_pool_registry option" where
  "idx_pool_registry_free = map_option (\<lambda>reg.
     \<lparr>by_address = registry_free (by_address reg), enriched = 0, creations_unmatched = 0\<rparr>)"

definition address_key :: "idx_pubkey \<Rightarrow> idx_slice" where
  "address_key address = idx_slice_make (Some address) IDX_PUBKEY_LEN"

definition find_pool :: "idx_pool_registry \<Rightarrow> idx_pubkey \<Rightarrow> nat option" where
  "find_pool reg address = registry_find (by_address reg) (address_key address)"

definition remember_mint :: "bool \<Rightarrow> idx_pubkey \<Rightarrow> bool \<Rightarrow> byte \<Rightarrow> idx_pool \<Rightarrow> idx_pool" where
  "remember_mint has_mint mnt has_dec dec pool =
     (if \<not> has_mint then pool
      else if po_has_mint_a pool \<and> idx_pubkey_equal (po_mint_a pool) mnt then
        (if \<not> po_has_decimals_a pool \<and> has_dec
         then pool\<lparr>po_decimals_a := dec, po_has_decimals_a := True\<rparr> else pool)
      else if po_has_mint_b pool \<and> idx_pubkey_equal (po_mint_b pool) mnt then
        (if \<not> po_has_decimals_b pool \<and> has_dec
         then pool\<lparr>po_decimals_b := dec, po_has_decimals_b := True\<rparr> else pool)
      else if \<not> po_has_mint_a pool then
        pool\<lparr>po_mint_a := mnt, po_has_mint_a := True, po_decimals_a := dec, po_has_decimals_a := has_dec\<rparr>
      else if \<not> po_has_mint_b pool then
        pool\<lparr>po_mint_b := mnt, po_has_mint_b := True, po_decimals_b := dec, po_has_decimals_b := has_dec\<rparr>
      else pool)"

text \<open>The record after \<^verbatim>\<open>calloc\<close>, and what the first swap stamps on it.\<close>

definition zero_pool :: idx_pool where
  "zero_pool = \<lparr>po_address = IDX_PUBKEY_DEFAULT, po_venue = IDX_VENUE_NONE, po_mint_a = IDX_PUBKEY_DEFAULT,
     po_has_mint_a = False, po_decimals_a = 0, po_has_decimals_a = False, po_mint_b = IDX_PUBKEY_DEFAULT,
     po_has_mint_b = False, po_decimals_b = 0, po_has_decimals_b = False, po_first_seen_slot = 0,
     po_swap_count = 0, po_has_creation = False, po_creation_slot = 0, po_creator = IDX_PUBKEY_DEFAULT,
     po_has_creator = False\<rparr>"

definition new_pool :: "idx_swap_row \<Rightarrow> u64 \<Rightarrow> idx_pool" where
  "new_pool row seen = zero_pool\<lparr>po_address := rw_pool row, po_venue := rw_venue row, po_first_seen_slot := seen\<rparr>"

definition swap_seen :: "idx_swap_row \<Rightarrow> idx_pool \<Rightarrow> idx_pool" where
  "swap_seen row pool =
     (let pool = remember_mint (rw_has_input_mint row) (rw_input_mint row) (rw_has_input_decimals row) (rw_input_decimals row) pool;
          pool = remember_mint (rw_has_output_mint row) (rw_output_mint row) (rw_has_output_decimals row) (rw_output_decimals row) pool
      in pool\<lparr>po_swap_count := po_swap_count pool + 1\<rparr>)"

fun idx_pool_registry_observe_swap ::
    "idx_pool choice \<Rightarrow> idx_pool_registry option \<Rightarrow> idx_swap_row option \<Rightarrow> u64 \<Rightarrow> idx_status \<times> idx_pool_registry option" where
  "idx_pool_registry_observe_swap ch (Some reg) (Some row) seen =
     (if rw_kind row \<noteq> IDX_SWAP_POOL \<or> \<not> rw_has_pool row then (IDX_OK, Some reg)
      else case (case find_pool reg (rw_pool row) of
             Some p \<Rightarrow> (Inr p, by_address reg)
           | None \<Rightarrow> registry_insert ch (by_address reg) (address_key (rw_pool row)) (new_pool row seen)) of
         (Inl status, owned) \<Rightarrow> (status, Some (reg\<lparr>by_address := owned\<rparr>))
       | (Inr p, owned) \<Rightarrow> (IDX_OK, Some (reg\<lparr>by_address := registry_update p (swap_seen row) owned\<rparr>)))"
| "idx_pool_registry_observe_swap ch reg _ seen = (IDX_ERR_INVALID_ARG, reg)"

definition creation_seen :: "idx_pool_creation \<Rightarrow> u64 \<Rightarrow> idx_pool \<Rightarrow> idx_pool" where
  "creation_seen creation seen pool =
     (let pool = pool\<lparr>po_has_creation := True, po_creation_slot := seen\<rparr> in
      if pc_has_creator creation then pool\<lparr>po_creator := pc_creator creation, po_has_creator := True\<rparr> else pool)"

fun idx_pool_registry_observe_creation ::
    "idx_pool_registry option \<Rightarrow> idx_pool_creation option \<Rightarrow> u64 \<Rightarrow> idx_status \<times> idx_pool_registry option" where
  "idx_pool_registry_observe_creation (Some reg) (Some creation) seen =
     (if \<not> pc_has_pool creation then (IDX_OK, Some reg)
      else case find_pool reg (pc_pool creation) of
        None \<Rightarrow> (IDX_OK, Some (reg\<lparr>creations_unmatched := creations_unmatched reg + 1\<rparr>))
      | Some p \<Rightarrow> (case heap (by_address reg) p of
          Some pool \<Rightarrow>
            if po_has_creation pool then (IDX_OK, Some reg)
            else (IDX_OK, Some (reg\<lparr>by_address := registry_update p (creation_seen creation seen) (by_address reg),
                                    enriched := enriched reg + 1\<rparr>))
        | None \<Rightarrow> (IDX_OK, Some reg)))"
| "idx_pool_registry_observe_creation reg _ seen = (IDX_ERR_INVALID_ARG, reg)"

fun idx_pool_registry_get :: "idx_pool_registry option \<Rightarrow> idx_pubkey option \<Rightarrow> idx_pool option" where
  "idx_pool_registry_get (Some reg) (Some address) =
     (case find_pool reg address of None \<Rightarrow> None | Some p \<Rightarrow> heap (by_address reg) p)"
| "idx_pool_registry_get _ _ = None"

definition idx_pool_registry_count :: "idx_pool_registry option \<Rightarrow> nat" where
  "idx_pool_registry_count reg = (case reg of None \<Rightarrow> 0 | Some r \<Rightarrow> idx_map_count (Some (by_key (by_address r))))"

section \<open>The registry is the history of each pool\<close>

datatype pool_event = Swap_row idx_swap_row u64 | Creation idx_pool_creation u64

text \<open>One observation, with the answers of the allocator in it.\<close>

definition pool_step :: "idx_pool choice \<times> pool_event \<Rightarrow> idx_pool_registry \<Rightarrow> idx_status \<times> idx_pool_registry" where
  "pool_step e reg = (case e of
      (ch, Swap_row row seen) \<Rightarrow> map_prod id the (idx_pool_registry_observe_swap ch (Some reg) (Some row) seen)
    | (ch, Creation c seen) \<Rightarrow> map_prod id the (idx_pool_registry_observe_creation (Some reg) (Some c) seen))"

text \<open>What an event means for the pool at an address; a swap the registry had no memory for does not count.\<close>

definition names_pool :: "idx_pubkey \<Rightarrow> pool_event \<Rightarrow> bool" where
  "names_pool address e = (case e of
      Swap_row row _ \<Rightarrow> rw_kind row = IDX_SWAP_POOL \<and> rw_has_pool row \<and> address_key (rw_pool row) = address
    | Creation c _ \<Rightarrow> pc_has_pool c \<and> address_key (pc_pool c) = address)"

definition pool_after :: "pool_event \<Rightarrow> idx_pool option \<Rightarrow> idx_pool option" where
  "pool_after e pool = (case e of
      Swap_row row seen \<Rightarrow> Some (swap_seen row (case pool of None \<Rightarrow> new_pool row seen | Some p \<Rightarrow> p))
    | Creation c seen \<Rightarrow> map_option (\<lambda>p. if po_has_creation p then p else creation_seen c seen p) pool)"

abbreviation pool_history :: "idx_slice \<Rightarrow> pool_event list \<Rightarrow> idx_pool option \<Rightarrow> idx_pool option" where
  "pool_history \<equiv> history names_pool pool_after"

definition pools_ok :: "idx_pool_registry \<Rightarrow> bool" where
  "pools_ok reg \<longleftrightarrow> reg_ok (by_address reg) \<and> map_ok (by_key (by_address reg))"

lemma address_key_short: "length (address_key a) \<le> IDX_MAP_INLINE_KEY"
  by (simp add: address_key_def IDX_MAP_INLINE_KEY_def IDX_PUBKEY_LEN_def)


lemma step_swap:
  assumes ok: "pools_ok reg" and fresh: "fresh_choice ch" and step: "pool_step (ch, Swap_row row seen) reg = (st, reg')"
  shows "pools_ok reg' \<and> enriched reg' = enriched reg \<and> creations_unmatched reg' = creations_unmatched reg \<and>
    (if st = IDX_OK then reg_view (by_address reg') = (\<lambda>k. if names_pool k (Swap_row row seen)
        then pool_after (Swap_row row seen) (reg_view (by_address reg) k) else reg_view (by_address reg) k)
     else st = IDX_ERR_NO_MEMORY \<and> reg_view (by_address reg') = reg_view (by_address reg))"
proof (cases "rw_kind row \<noteq> IDX_SWAP_POOL \<or> \<not> rw_has_pool row")
  case True
  then have "st = IDX_OK" "reg' = reg" using step by (auto simp: pool_step_def)
  moreover have "\<not> names_pool k (Swap_row row seen)" for k using True by (auto simp: names_pool_def)
  ultimately show ?thesis using ok by simp
next
  case False
  let ?k = "address_key (rw_pool row)" and ?owned = "by_address reg"
  have names: "names_pool k (Swap_row row seen) \<longleftrightarrow> k = ?k" for k using False by (auto simp: names_pool_def)
  have own: "reg_ok ?owned" "map_ok (by_key ?owned)" using ok by (simp_all add: pools_ok_def)
  show ?thesis
  proof (cases "registry_find ?owned ?k")
    case (Some p)
    then have "st = IDX_OK" "reg' = reg\<lparr>by_address := registry_update p (swap_seen row) ?owned\<rparr>"
      using step False by (auto simp: pool_step_def find_pool_def)
    then show ?thesis using reg.find_then_update [OF own(1) Some, of "swap_seen row"] own(2)
      by (auto simp: pools_ok_def names pool_after_def fun_eq_iff)
  next
    case None
    obtain res owned where ins: "registry_insert ch ?owned ?k (new_pool row seen) = (res, owned)" by fastforce
    have out: "pools_ok (reg\<lparr>by_address := owned\<rparr>)"
      using insert_ok [OF own(1) None fresh ins] insert_short [OF own(2) address_key_short ins] by (simp add: pools_ok_def)
    show ?thesis
    proof (cases res)
      case (Inl e)
      then have "st = e" "reg' = reg\<lparr>by_address := owned\<rparr>"
        using step False None ins by (auto simp: pool_step_def find_pool_def)
      then show ?thesis using insert_ok [OF own(1) None fresh ins] Inl out own(2) by auto
    next
      case (Inr p)
      then have st: "st = IDX_OK" "reg' = reg\<lparr>by_address := registry_update p (swap_seen row) owned\<rparr>"
        using step False None ins by (auto simp: pool_step_def find_pool_def)
      note new = reg.insert_then_update [OF own(1) None fresh ins [unfolded Inr], of "swap_seen row"]
      have "reg_view ?owned ?k = None" using reg.found [OF own(1)] None by blast
      moreover have "map_ok (by_key (registry_update p (swap_seen row) owned))"
        using out by (simp add: pools_ok_def registry_update_def)
      ultimately show ?thesis using st new by (auto simp: pools_ok_def names pool_after_def fun_eq_iff)
    qed
  qed
qed

lemma step_creation:
  assumes ok: "pools_ok reg" and step: "pool_step (ch, Creation c seen) reg = (st, reg')"
  shows "pools_ok reg' \<and> st = IDX_OK \<and> reg_view (by_address reg') = (\<lambda>k. if names_pool k (Creation c seen)
        then pool_after (Creation c seen) (reg_view (by_address reg) k) else reg_view (by_address reg) k)"
proof (cases "pc_has_pool c")
  case False
  then show ?thesis using ok step by (auto simp: pool_step_def names_pool_def)
next
  case True
  let ?k = "address_key (pc_pool c)" and ?owned = "by_address reg"
  have names: "names_pool k (Creation c seen) \<longleftrightarrow> k = ?k" for k using True by (auto simp: names_pool_def)
  have own: "reg_ok ?owned" "map_ok (by_key ?owned)" using ok by (simp_all add: pools_ok_def)
  show ?thesis
  proof (cases "registry_find ?owned ?k")
    case None
    then have "reg_view ?owned ?k = None" using reg.found [OF own(1)] by blast
    then show ?thesis using None step True ok
      by (auto simp: pool_step_def find_pool_def names pool_after_def pools_ok_def fun_eq_iff)
  next
    case (Some p)
    then obtain pool where pool: "reg_view ?owned ?k = Some pool" using reg.found [OF own(1), of ?k] by auto
    then have at: "heap ?owned p = Some pool" using find_view(1) [OF own(1), of ?k] Some by simp
    show ?thesis
    proof (cases "po_has_creation pool")
      case True
      then show ?thesis using step Some pool at \<open>pc_has_pool c\<close> ok
        by (auto simp: pool_step_def find_pool_def names pool_after_def fun_eq_iff)
    next
      case False
      then show ?thesis
        using step Some pool at \<open>pc_has_pool c\<close> own(2) reg.find_then_update [OF own(1) Some, of "creation_seen c seen"]
        by (auto simp: pool_step_def find_pool_def names pool_after_def pools_ok_def fun_eq_iff)
    qed
  qed
qed

lemma pool_step_ok:
  assumes "pools_ok reg" "fresh_choice (fst e)" "pool_step e reg = (st, reg')"
  shows "pools_ok reg' \<and> (st = IDX_OK \<or> st = IDX_ERR_NO_MEMORY) \<and>
    reg_view (by_address reg') = (\<lambda>k. if st = IDX_OK \<and> names_pool k (snd e)
      then pool_after (snd e) (reg_view (by_address reg) k) else reg_view (by_address reg) k)"
proof -
  obtain ch ev where e: "e = (ch, ev)" by (cases e)
  show ?thesis
  proof (cases ev)
    case (Swap_row row seen)
    then show ?thesis using step_swap [OF assms(1)] assms(2,3) e by (cases "st = IDX_OK") auto
  next
    case (Creation c seen)
    then show ?thesis using step_creation [OF assms(1)] assms(3) e by auto
  qed
qed

interpretation pools: observed_records pools_ok "\<lambda>reg. reg_view (by_address reg)" fresh_choice pool_step
    names_pool pool_after
  by unfold_locales (rule pool_step_ok)

section \<open>What a record says\<close>

definition is_swap_event :: "pool_event \<Rightarrow> bool" where
  "is_swap_event e = (case e of Swap_row _ _ \<Rightarrow> True | Creation _ _ \<Rightarrow> False)"

lemma pool_events [simp]: "is_swap_event (Swap_row row seen)" "\<not> is_swap_event (Creation c seen)"
  by (simp_all add: is_swap_event_def)

lemma remember_mint_keeps:
  "po_address (remember_mint h m k d pool) = po_address pool" "po_venue (remember_mint h m k d pool) = po_venue pool"
  "po_first_seen_slot (remember_mint h m k d pool) = po_first_seen_slot pool"
  "po_swap_count (remember_mint h m k d pool) = po_swap_count pool"
  "po_has_creation (remember_mint h m k d pool) = po_has_creation pool"
  by (simp_all add: remember_mint_def)

lemma swap_seen_fields [simp]:
  "po_address (swap_seen row pool) = po_address pool" "po_venue (swap_seen row pool) = po_venue pool"
  "po_first_seen_slot (swap_seen row pool) = po_first_seen_slot pool"
  "po_swap_count (swap_seen row pool) = po_swap_count pool + 1"
  "po_has_creation (swap_seen row pool) = po_has_creation pool"
  by (simp_all add: swap_seen_def Let_def remember_mint_keeps)

lemma creation_seen_fields [simp]:
  "po_address (creation_seen c seen pool) = po_address pool" "po_venue (creation_seen c seen pool) = po_venue pool"
  "po_first_seen_slot (creation_seen c seen pool) = po_first_seen_slot pool"
  "po_swap_count (creation_seen c seen pool) = po_swap_count pool"
  "po_has_creation (creation_seen c seen pool)"
  by (simp_all add: creation_seen_def Let_def)

text \<open>The mints of a record are two different ones.\<close>

definition mints_ok :: "idx_pool \<Rightarrow> bool" where
  "mints_ok pool \<longleftrightarrow> (po_has_mint_b pool \<longrightarrow> po_has_mint_a pool \<and> \<not> idx_pubkey_equal (po_mint_a pool) (po_mint_b pool)) \<and>
     (po_has_decimals_a pool \<longrightarrow> po_has_mint_a pool) \<and> (po_has_decimals_b pool \<longrightarrow> po_has_mint_b pool)"

lemma remember_mint_ok: "mints_ok pool \<Longrightarrow> mints_ok (remember_mint h m k d pool)"
  by (auto simp: mints_ok_def remember_mint_def)

lemma swap_seen_ok: "mints_ok pool \<Longrightarrow> mints_ok (swap_seen row pool)"
  using remember_mint_ok by (auto simp: swap_seen_def Let_def mints_ok_def)

lemma creation_seen_ok: "mints_ok (creation_seen c seen pool) = mints_ok pool"
  by (simp add: creation_seen_def mints_ok_def Let_def)

lemma pool_after_None: "pool_after (Swap_row row seen) None = Some (swap_seen row (new_pool row seen))"
    "pool_after (Creation c seen) None = None"
  by (simp_all add: pool_after_def)

text \<open>A pool that is known only moves on from there.\<close>

lemma known_pool:
  "fold pool_after es (Some pool) = Some p \<Longrightarrow>
     po_address p = po_address pool \<and> po_venue p = po_venue pool \<and> po_first_seen_slot p = po_first_seen_slot pool \<and>
     po_swap_count p = po_swap_count pool + word_of_nat (length (filter is_swap_event es)) \<and>
     (po_has_creation p \<longleftrightarrow> po_has_creation pool \<or> (\<exists>e \<in> set es. \<not> is_swap_event e)) \<and> (mints_ok pool \<longrightarrow> mints_ok p)"
proof (induction es arbitrary: pool)
  case (Cons e es)
  obtain pool' where step: "pool_after e (Some pool) = Some pool'" by (cases e) (auto simp: pool_after_def)
  then have "fold pool_after es (Some pool') = Some p" using Cons.prems by simp
  from Cons.IH [OF this] show ?case using step
    by (cases e) (auto simp: pool_after_def swap_seen_ok creation_seen_ok split: if_splits)
qed simp

lemma unknown_pool:
  "fold pool_after es None = (case dropWhile (\<lambda>e. \<not> is_swap_event e) es of
      Swap_row row seen # later \<Rightarrow> fold pool_after later (Some (swap_seen row (new_pool row seen)))
    | _ \<Rightarrow> None)"
proof (induction es)
  case (Cons e es)
  then show ?case by (cases e) (simp_all add: pool_after_None)
qed simp

lemma new_pool_ok: "mints_ok (new_pool row seen)" "po_swap_count (new_pool row seen) = 0" "\<not> po_has_creation (new_pool row seen)"
  "po_address (new_pool row seen) = rw_pool row" "po_venue (new_pool row seen) = rw_venue row"
  "po_first_seen_slot (new_pool row seen) = seen"
  by (simp_all add: mints_ok_def new_pool_def zero_pool_def)

section \<open>Properties\<close>

text \<open>
  C13: The pool registry holds the history of every pool. After any run of observations on a
  fresh registry, whatever the allocators answer, each observation succeeded or reported
  NO_MEMORY, and looking an address up gives the record folded from exactly the observations
  that succeeded and name it, in their order; an observation that failed left no trace; and
  freeing the registry frees every record.
\<close>

theorem pool_registry_history:
  assumes "idx_pool_registry_init (Some junk) = Some start" "\<forall>e \<in> set es. fresh_choice (fst e)"
    and run: "observe_run pool_step es start = (sts, reg)"
  shows "set sts \<subseteq> {IDX_OK, IDX_ERR_NO_MEMORY} \<and>
    idx_pool_registry_get (Some reg) (Some a) = pool_history (address_key a) (effective es sts) None \<and>
    (\<exists>r. idx_pool_registry_free (Some reg) = Some r \<and> heap (by_address r) = Map.empty)"
proof -
  have start: "by_address start = registry_init" using assms(1) by (auto simp: idx_pool_registry_init_def)
  then have "pools_ok start" by (simp add: pools_ok_def registry_init_ok) (simp add: registry_init_def fresh_map_ok)
  note all = pools.run_history [OF this assms(2) run, unfolded start registry_init_ok(2)]
  then have ok: "pools_ok reg" "set sts \<subseteq> {IDX_OK, IDX_ERR_NO_MEMORY}"
    and view: "reg_view (by_address reg) = (\<lambda>k. pool_history k (effective es sts) None)"
    by blast+
  have own: "reg_ok (by_address reg)" using ok(1) by (simp add: pools_ok_def)
  have "idx_pool_registry_get (Some reg) (Some a) = reg_view (by_address reg) (address_key a)"
    using find_view(1) [OF own, of "address_key a"] by (simp add: find_pool_def)
  moreover have "heap (registry_free (by_address reg)) = Map.empty"
    by (simp add: registry_free_ok [OF own]) (simp add: registry_init_def)
  ultimately show ?thesis using ok(2) view by (simp add: idx_pool_registry_free_def)
qed

text \<open>
  A pool's record says when it was first traded and how often. It exists exactly if some
  swap named the pool; it carries the address, venue and slot of the first such swap, the
  number of swaps seen (modulo \<open>2 ^ 64\<close>), a creation exactly if one came after that first
  swap, and at most two mints, which are different.
\<close>

theorem pool_record_facts:
  "case dropWhile (\<lambda>e. \<not> is_swap_event e) (filter (names_pool k) es) of
      Swap_row row seen # later \<Rightarrow> (\<exists>p. pool_history k es None = Some p \<and> po_address p = rw_pool row \<and>
        po_venue p = rw_venue row \<and> po_first_seen_slot p = seen \<and>
        po_swap_count p = 1 + word_of_nat (length (filter is_swap_event later)) \<and>
        po_has_creation p = (\<not> list_all is_swap_event later) \<and> mints_ok p)
    | _ \<Rightarrow> pool_history k es None = None"
proof -
  let ?named = "filter (names_pool k) es"
  have kept: "\<exists>p. fold pool_after later (Some pool) = Some p" for later pool
    by (induction later arbitrary: pool) (auto simp: pool_after_def split: pool_event.split)
  consider "dropWhile (\<lambda>e. \<not> is_swap_event e) ?named = []"
    | row seen later where "dropWhile (\<lambda>e. \<not> is_swap_event e) ?named = Swap_row row seen # later"
  proof (cases "dropWhile (\<lambda>e. \<not> is_swap_event e) ?named")
    case (Cons e later)
    then have "is_swap_event e" using hd_dropWhile [of "\<lambda>e. \<not> is_swap_event e" ?named] by simp
    then show ?thesis using Cons that(2) by (cases e) auto
  qed (rule that(1))
  then show ?thesis
  proof cases
    case (2 row seen later)
    obtain p where p: "fold pool_after later (Some (swap_seen row (new_pool row seen))) = Some p" using kept by blast
    have "mints_ok (swap_seen row (new_pool row seen))" by (intro swap_seen_ok new_pool_ok)
    then show ?thesis using known_pool [OF p] 2 p
      by (auto simp: history_def unknown_pool new_pool_ok list_all_iff)
    next
    case 1
    then show ?thesis by (simp only: history_def unknown_pool list.case)
  qed
qed


text \<open>One swap on a pool.\<close>

definition sample_row_of :: "idx_pubkey \<Rightarrow> idx_swap_row" where
  "sample_row_of pool = zero_swap_row\<lparr>rw_venue := IDX_VENUE_PUMP_AMM, rw_pool := pool, rw_has_pool := True\<rparr>"

theorem pool_registry_history_witness:
  "\<exists>start reg. idx_pool_registry_init (Some start) = Some start \<and>
     observe_run pool_step [(granting, Swap_row (sample_row_of IDX_MINT_WSOL) 7)] start = ([IDX_OK], reg) \<and>
     idx_pool_registry_get (Some reg) (Some IDX_MINT_WSOL) =
       Some (swap_seen (sample_row_of IDX_MINT_WSOL) (new_pool (sample_row_of IDX_MINT_WSOL) 7))"
proof -
  let ?row = "sample_row_of IDX_MINT_WSOL"
  let ?start = "\<lparr>by_address = registry_init, enriched = 0, creations_unmatched = 0\<rparr> :: idx_pool_registry"
  have start: "idx_pool_registry_init (Some ?start) = Some ?start" by (simp add: idx_pool_registry_init_def)
  obtain owned where ins: "registry_insert granting registry_init (address_key (rw_pool ?row)) (new_pool ?row 7) = (Inr 0, owned)"
    using granting_insert [of "address_key (rw_pool ?row)" "new_pool ?row 7"] by blast
  have row: "rw_kind ?row = IDX_SWAP_POOL" "rw_has_pool ?row" "rw_pool ?row = IDX_MINT_WSOL"
    by (simp_all add: sample_row_of_def zero_swap_row_def)
  then obtain reg where run: "observe_run pool_step [(granting, Swap_row ?row 7)] ?start = ([IDX_OK], reg)"
    using ins by (simp add: pool_step_def find_pool_def row find_init)
  have fresh: "\<forall>e \<in> set [(granting :: idx_pool choice, Swap_row ?row 7)]. fresh_choice (fst e)" by (simp add: granting_fresh)
  have "pool_history (address_key IDX_MINT_WSOL) (effective [(granting, Swap_row ?row 7)] [IDX_OK]) None =
      Some (swap_seen ?row (new_pool ?row 7))"
    by (simp add: history_def effective_def names_pool_def pool_after_None row)
  then have "idx_pool_registry_get (Some reg) (Some IDX_MINT_WSOL) = Some (swap_seen ?row (new_pool ?row 7))"
    using pool_registry_history [OF start fresh run, of IDX_MINT_WSOL] by simp
  then show ?thesis using start run by blast
qed

end
