(* ===== verification/Tokens.thy ===== *)
theory Tokens
  imports Registry Venue
begin

text \<open>
  The token registry (\<^verbatim>\<open>src/token.c\<close>, \<^verbatim>\<open>include/token.h\<close>): one record per mint, with the
  decimals a balance carries and the strings of the first metadata seen. The fixed character
  buffers are byte lists of their size.
\<close>

section \<open>Model\<close>

definition IDX_TOKEN_NAME_MAX :: nat where "IDX_TOKEN_NAME_MAX = 64"
definition IDX_TOKEN_SYMBOL_MAX :: nat where "IDX_TOKEN_SYMBOL_MAX = 16"
definition IDX_TOKEN_URI_MAX :: nat where "IDX_TOKEN_URI_MAX = 200"

record idx_token =
  tk_mint :: idx_pubkey
  tk_decimals :: byte
  tk_has_decimals :: bool
  tk_name :: bytes
  tk_has_name :: bool
  tk_symbol :: bytes
  tk_has_symbol :: bool
  tk_uri :: bytes
  tk_has_uri :: bool
  tk_first_seen_slot :: u64
  tk_has_metadata :: bool

record idx_token_registry =
  by_mint :: "idx_token registry"
  with_metadata :: u64

definition idx_token_registry_init :: "idx_token_registry option \<Rightarrow> idx_token_registry option" where
  "idx_token_registry_init = map_option (\<lambda>_. \<lparr>by_mint = registry_init, with_metadata = 0\<rparr>)"

definition idx_token_registry_free :: "idx_token_registry option \<Rightarrow> idx_token_registry option" where
  "idx_token_registry_free = map_option (\<lambda>reg. \<lparr>by_mint = registry_free (by_mint reg), with_metadata = 0\<rparr>)"

definition mint_key :: "idx_pubkey \<Rightarrow> idx_slice" where
  "mint_key mnt = idx_slice_make (Some mnt) IDX_PUBKEY_LEN"

text \<open>The record after \<^verbatim>\<open>calloc\<close>, stamped with its mint and slot.\<close>

definition new_token :: "idx_pubkey \<Rightarrow> u64 \<Rightarrow> idx_token" where
  "new_token mnt seen = \<lparr>tk_mint = mnt, tk_decimals = 0, tk_has_decimals = False,
     tk_name = replicate IDX_TOKEN_NAME_MAX 0, tk_has_name = False,
     tk_symbol = replicate IDX_TOKEN_SYMBOL_MAX 0, tk_has_symbol = False,
     tk_uri = replicate IDX_TOKEN_URI_MAX 0, tk_has_uri = False,
     tk_first_seen_slot = seen, tk_has_metadata = False\<rparr>"

definition find_or_create ::
    "idx_token choice \<Rightarrow> idx_token_registry \<Rightarrow> idx_pubkey \<Rightarrow> u64 \<Rightarrow> nat result \<times> idx_token_registry" where
  "find_or_create ch reg mnt seen =
     (case registry_obtain ch (by_mint reg) (mint_key mnt) (new_token mnt seen) of
        (res, owned) \<Rightarrow> (res, reg\<lparr>by_mint := owned\<rparr>))"

definition balance_seen :: "byte \<Rightarrow> idx_token \<Rightarrow> idx_token" where
  "balance_seen dec tok = (if \<not> tk_has_decimals tok then tok\<lparr>tk_decimals := dec, tk_has_decimals := True\<rparr> else tok)"

fun idx_token_registry_observe_balance ::
    "idx_token choice \<Rightarrow> idx_token_registry option \<Rightarrow> idx_pubkey option \<Rightarrow> byte \<Rightarrow> u64 \<Rightarrow>
     idx_status \<times> idx_token_registry option" where
  "idx_token_registry_observe_balance ch (Some reg) (Some mnt) dec seen =
     (case find_or_create ch reg mnt seen of
        (Inl status, reg) \<Rightarrow> (status, Some reg)
      | (Inr p, reg) \<Rightarrow> (IDX_OK, Some (reg\<lparr>by_mint := registry_update p (balance_seen dec) (by_mint reg)\<rparr>)))"
| "idx_token_registry_observe_balance ch reg _ dec seen = (IDX_ERR_INVALID_ARG, reg)"

text \<open>The buffer and its flag after the call; an empty source changes neither.\<close>

definition copy_string :: "bytes \<Rightarrow> nat \<Rightarrow> idx_slice \<Rightarrow> bool \<Rightarrow> bytes \<times> bool" where
  "copy_string dest dest_size src has =
     (if length src = 0 then (dest, has)
      else let n = (if length src < dest_size - 1 then length src else dest_size - 1) in
        (take n src @ [0] @ drop (n + 1) dest, True))"

definition metadata_seen :: "idx_token_metadata \<Rightarrow> idx_token \<Rightarrow> idx_token" where
  "metadata_seen meta tok =
     (let tok = (if md_has_name meta then
            (case copy_string (tk_name tok) IDX_TOKEN_NAME_MAX (md_name meta) (tk_has_name tok) of
               (s, h) \<Rightarrow> tok\<lparr>tk_name := s, tk_has_name := h\<rparr>) else tok);
          tok = (if md_has_symbol meta then
            (case copy_string (tk_symbol tok) IDX_TOKEN_SYMBOL_MAX (md_symbol meta) (tk_has_symbol tok) of
               (s, h) \<Rightarrow> tok\<lparr>tk_symbol := s, tk_has_symbol := h\<rparr>) else tok);
          tok = (if md_has_uri meta then
            (case copy_string (tk_uri tok) IDX_TOKEN_URI_MAX (md_uri meta) (tk_has_uri tok) of
               (s, h) \<Rightarrow> tok\<lparr>tk_uri := s, tk_has_uri := h\<rparr>) else tok)
      in tok\<lparr>tk_has_metadata := True\<rparr>)"

fun idx_token_registry_observe_metadata ::
    "idx_token choice \<Rightarrow> idx_token_registry option \<Rightarrow> idx_token_metadata option \<Rightarrow> u64 \<Rightarrow>
     idx_status \<times> idx_token_registry option" where
  "idx_token_registry_observe_metadata ch (Some reg) (Some meta) seen =
     (if \<not> md_has_mint meta then (IDX_OK, Some reg)
      else case find_or_create ch reg (md_mint meta) seen of
        (Inl status, reg) \<Rightarrow> (status, Some reg)
      | (Inr p, reg) \<Rightarrow> (case heap (by_mint reg) p of
          Some tok \<Rightarrow>
            if tk_has_metadata tok then (IDX_OK, Some reg)
            else (IDX_OK, Some (reg\<lparr>by_mint := registry_update p (metadata_seen meta) (by_mint reg),
                                    with_metadata := with_metadata reg + 1\<rparr>))
        | None \<Rightarrow> (IDX_OK, Some reg)))"
| "idx_token_registry_observe_metadata ch reg _ seen = (IDX_ERR_INVALID_ARG, reg)"

fun idx_token_registry_get :: "idx_token_registry option \<Rightarrow> idx_pubkey option \<Rightarrow> idx_token option" where
  "idx_token_registry_get (Some reg) (Some mnt) =
     (case registry_find (by_mint reg) (mint_key mnt) of None \<Rightarrow> None | Some p \<Rightarrow> heap (by_mint reg) p)"
| "idx_token_registry_get _ _ = None"

definition idx_token_registry_count :: "idx_token_registry option \<Rightarrow> nat" where
  "idx_token_registry_count reg = (case reg of None \<Rightarrow> 0 | Some r \<Rightarrow> idx_map_count (Some (by_key (by_mint r))))"

section \<open>The registry is the history of each token\<close>

datatype token_event = Balance_of idx_pubkey byte u64 | Metadata idx_token_metadata u64

definition token_step :: "idx_token choice \<times> token_event \<Rightarrow> idx_token_registry \<Rightarrow> idx_status \<times> idx_token_registry" where
  "token_step e reg = (case e of
      (ch, Balance_of mnt dec seen) \<Rightarrow>
        map_prod id the (idx_token_registry_observe_balance ch (Some reg) (Some mnt) dec seen)
    | (ch, Metadata meta seen) \<Rightarrow>
        map_prod id the (idx_token_registry_observe_metadata ch (Some reg) (Some meta) seen))"

definition names_token :: "idx_slice \<Rightarrow> token_event \<Rightarrow> bool" where
  "names_token key e = (case e of
      Balance_of mnt _ _ \<Rightarrow> mint_key mnt = key
    | Metadata meta _ \<Rightarrow> md_has_mint meta \<and> mint_key (md_mint meta) = key)"

definition token_after :: "token_event \<Rightarrow> idx_token option \<Rightarrow> idx_token option" where
  "token_after e tok = (case e of
      Balance_of mnt dec seen \<Rightarrow> Some (balance_seen dec (case tok of None \<Rightarrow> new_token mnt seen | Some t \<Rightarrow> t))
    | Metadata meta seen \<Rightarrow> (case tok of None \<Rightarrow> Some (metadata_seen meta (new_token (md_mint meta) seen))
        | Some t \<Rightarrow> Some (if tk_has_metadata t then t else metadata_seen meta t)))"

definition tokens_ok :: "idx_token_registry \<Rightarrow> bool" where
  "tokens_ok reg \<longleftrightarrow> reg_ok (by_mint reg) \<and> map_ok (by_key (by_mint reg))"

lemma mint_key_short: "length (mint_key a) \<le> IDX_MAP_INLINE_KEY"
  by (simp add: mint_key_def IDX_MAP_INLINE_KEY_def IDX_PUBKEY_LEN_def)

lemma new_token_fields: "\<not> tk_has_metadata (new_token mnt seen)" "tk_first_seen_slot (new_token mnt seen) = seen"
    "tk_mint (new_token mnt seen) = mnt" "\<not> tk_has_decimals (new_token mnt seen)"
  by (simp_all add: new_token_def)

lemma create_ok:
  assumes "tokens_ok reg" "fresh_choice ch" "find_or_create ch reg mnt seen = (res, reg')"
  shows "tokens_ok reg' \<and> with_metadata reg' = with_metadata reg \<and> (case res of
      Inr p \<Rightarrow> registry_find (by_mint reg') (mint_key mnt) = Some p \<and> reg_view (by_mint reg') = (reg_view (by_mint reg))
        (mint_key mnt \<mapsto> (case reg_view (by_mint reg) (mint_key mnt) of None \<Rightarrow> new_token mnt seen | Some t \<Rightarrow> t))
    | Inl st \<Rightarrow> reg_view (by_mint reg') = reg_view (by_mint reg) \<and> st = IDX_ERR_NO_MEMORY)"
proof -
  obtain owned where got: "registry_obtain ch (by_mint reg) (mint_key mnt) (new_token mnt seen) = (res, owned)"
    "reg' = reg\<lparr>by_mint := owned\<rparr>"
    using assms(3) by (auto simp: find_or_create_def split: prod.splits)
  have "reg_ok (by_mint reg)" "map_ok (by_key (by_mint reg))" using assms(1) by (simp_all add: tokens_ok_def)
  from obtain_ok [OF this(1) assms(2) got(1) this(2) mint_key_short] show ?thesis
    using got(2) by (simp add: tokens_ok_def split: sum.splits)
qed

lemma token_update_ok:
  assumes "tokens_ok reg" "registry_find (by_mint reg) k = Some p"
  shows "tokens_ok (reg\<lparr>by_mint := registry_update p f (by_mint reg)\<rparr>)"
    "reg_view (registry_update p f (by_mint reg)) = (reg_view (by_mint reg))(k := map_option f (reg_view (by_mint reg) k))"
  using update_ok(1,2) [OF _ assms(2), of f] assms(1) by (simp_all add: tokens_ok_def)

lemma token_step_ok:
  assumes ok: "tokens_ok reg" and fresh: "fresh_choice (fst e)" and step: "token_step e reg = (st, reg')"
  shows "tokens_ok reg' \<and> (st = IDX_OK \<or> st = IDX_ERR_NO_MEMORY) \<and>
    reg_view (by_mint reg') = (\<lambda>k. if st = IDX_OK \<and> names_token k (snd e)
      then token_after (snd e) (reg_view (by_mint reg) k) else reg_view (by_mint reg) k)"
proof -
  obtain ch ev where e: "e = (ch, ev)" by (cases e)
  have fr: "fresh_choice ch" using fresh e by simp
  show ?thesis
  proof (cases ev)
    case (Balance_of mnt dec seen)
    obtain res reg1 where got: "find_or_create ch reg mnt seen = (res, reg1)" by fastforce
    note made = create_ok [OF ok fr got]
    show ?thesis
    proof (cases res)
      case (Inl x)
      then show ?thesis using made step e Balance_of got by (auto simp: token_step_def)
    next
      case (Inr p)
      then have "registry_find (by_mint reg1) (mint_key mnt) = Some p" "tokens_ok reg1" using made by auto
      from token_update_ok [OF this(2,1), of "balance_seen dec"] show ?thesis
        using made step e Balance_of got Inr
        by (auto simp: token_step_def names_token_def token_after_def fun_eq_iff)
    qed
  next
    case (Metadata meta seen)
    show ?thesis
    proof (cases "md_has_mint meta")
      case False
      then show ?thesis using step e Metadata ok by (auto simp: token_step_def names_token_def)
    next
      case True
      let ?k = "mint_key (md_mint meta)"
      obtain res reg1 where got: "find_or_create ch reg (md_mint meta) seen = (res, reg1)" by fastforce
      note made = create_ok [OF ok fr got]
      show ?thesis
      proof (cases res)
        case (Inl x)
        then show ?thesis using made step e Metadata got True by (auto simp: token_step_def)
      next
        case (Inr p)
        define t where "t = (case reg_view (by_mint reg) ?k of None \<Rightarrow> new_token (md_mint meta) seen | Some t \<Rightarrow> t)"
        have f: "registry_find (by_mint reg1) ?k = Some p" "tokens_ok reg1"
          and view: "reg_view (by_mint reg1) = (reg_view (by_mint reg))(?k \<mapsto> t)" using made Inr by (auto simp: t_def)
        have at: "heap (by_mint reg1) p = Some t"
          using find_view(1) [of "by_mint reg1" ?k] f view by (simp add: tokens_ok_def)
        have after: "token_after (Metadata meta seen) (reg_view (by_mint reg) ?k) =
            Some (if tk_has_metadata t then t else metadata_seen meta t)"
          by (simp add: token_after_def t_def new_token_fields split: option.split)
        show ?thesis
          using token_update_ok [OF f(2,1), of "metadata_seen meta"] step e Metadata got Inr True at f(2) view after
          by (cases "tk_has_metadata t") (auto simp: token_step_def names_token_def fun_eq_iff tokens_ok_def)
      qed
    qed
  qed
qed

interpretation tokens: observed_records tokens_ok "\<lambda>reg. reg_view (by_mint reg)" fresh_choice token_step
    names_token token_after
  by unfold_locales (rule token_step_ok)


section \<open>What a record says\<close>

lemma balance_seen_fields [simp]:
  "tk_mint (balance_seen dec tok) = tk_mint tok" "tk_first_seen_slot (balance_seen dec tok) = tk_first_seen_slot tok"
  "tk_has_metadata (balance_seen dec tok) = tk_has_metadata tok" "tk_name (balance_seen dec tok) = tk_name tok"
  "tk_has_decimals (balance_seen dec tok)"
  "tk_decimals (balance_seen dec tok) = (if tk_has_decimals tok then tk_decimals tok else dec)"
  "tk_has_name (balance_seen dec tok) = tk_has_name tok"
  by (simp_all add: balance_seen_def)

lemma metadata_seen_fields [simp]:
  "tk_mint (metadata_seen meta tok) = tk_mint tok" "tk_first_seen_slot (metadata_seen meta tok) = tk_first_seen_slot tok"
  "tk_has_metadata (metadata_seen meta tok)" "tk_has_decimals (metadata_seen meta tok) = tk_has_decimals tok"
  "tk_decimals (metadata_seen meta tok) = tk_decimals tok"
  "tk_name (metadata_seen meta tok) = (if md_has_name meta
     then fst (copy_string (tk_name tok) IDX_TOKEN_NAME_MAX (md_name meta) (tk_has_name tok)) else tk_name tok)"
  by (simp_all add: metadata_seen_def Let_def split: prod.split)

text \<open>The string a buffer holds: its bytes up to the first zero.\<close>

definition held :: "bytes \<Rightarrow> bytes" where
  "held = takeWhile (\<lambda>b. b \<noteq> 0)"

lemma held_copied:
  assumes "length dest = size_max" "0 < size_max" "src \<noteq> []"
  shows "held (fst (copy_string dest size_max src has)) = held (take (size_max - 1) src)"
    "length (fst (copy_string dest size_max src has)) = size_max"
proof -
  let ?n = "min (length src) (size_max - 1)"
  have copy: "fst (copy_string dest size_max src has) = take ?n src @ [0] @ drop (?n + 1) dest"
    using assms(3) by (simp add: copy_string_def Let_def min_def)
  have "take (size_max - 1) src = take ?n src" by (simp add: min_def)
  moreover have "takeWhile (\<lambda>b. b \<noteq> 0) (xs @ [0 :: byte] @ ys) = takeWhile (\<lambda>b. b \<noteq> 0) xs" for xs ys
    by (induction xs) auto
  ultimately show "held (fst (copy_string dest size_max src has)) = held (take (size_max - 1) src)"
    by (simp only: copy held_def)
  show "length (fst (copy_string dest size_max src has)) = size_max" using assms(1,2) by (simp add: copy)
qed

lemma held_zeros: "held (replicate n 0) = []"
  by (cases n) (simp_all add: held_def)

text \<open>The first balance and the first metadata among some events, if any.\<close>

definition first_decimals :: "token_event list \<Rightarrow> byte option" where
  "first_decimals es = (case List.map_filter (\<lambda>e. case e of Balance_of _ dec _ \<Rightarrow> Some dec | Metadata _ _ \<Rightarrow> None) es of
      [] \<Rightarrow> None | dec # _ \<Rightarrow> Some dec)"

definition first_metadata :: "token_event list \<Rightarrow> idx_token_metadata option" where
  "first_metadata es = (case List.map_filter (\<lambda>e. case e of Balance_of _ _ _ \<Rightarrow> None | Metadata meta _ \<Rightarrow> Some meta) es of
      [] \<Rightarrow> None | meta # _ \<Rightarrow> Some meta)"

lemma first_simps [simp]:
  "first_decimals [] = None" "first_metadata [] = None"
  "first_decimals (Balance_of mnt dec seen # es) = Some dec" "first_decimals (Metadata meta seen # es) = first_decimals es"
  "first_metadata (Balance_of mnt dec seen # es) = first_metadata es" "first_metadata (Metadata meta seen # es) = Some meta"
  by (simp_all add: first_decimals_def first_metadata_def)

definition event_slot :: "token_event \<Rightarrow> u64" where
  "event_slot e = (case e of Balance_of _ _ seen \<Rightarrow> seen | Metadata _ seen \<Rightarrow> seen)"

definition event_mint :: "token_event \<Rightarrow> idx_pubkey" where
  "event_mint e = (case e of Balance_of mnt _ _ \<Rightarrow> mnt | Metadata meta _ \<Rightarrow> md_mint meta)"

lemma known_token:
  "fold token_after es (Some tok) = Some t \<Longrightarrow> length (tk_name tok) = IDX_TOKEN_NAME_MAX \<Longrightarrow>
     tk_mint t = tk_mint tok \<and> tk_first_seen_slot t = tk_first_seen_slot tok \<and>
     (if tk_has_decimals tok then tk_has_decimals t \<and> tk_decimals t = tk_decimals tok
      else (case first_decimals es of None \<Rightarrow> \<not> tk_has_decimals t | Some dec \<Rightarrow> tk_has_decimals t \<and> tk_decimals t = dec)) \<and>
     (if tk_has_metadata tok then tk_has_metadata t \<and> tk_name t = tk_name tok
      else (case first_metadata es of None \<Rightarrow> \<not> tk_has_metadata t \<and> tk_name t = tk_name tok
        | Some meta \<Rightarrow> tk_has_metadata t \<and> held (tk_name t) = (if md_has_name meta \<and> md_name meta \<noteq> []
            then held (take (IDX_TOKEN_NAME_MAX - 1) (md_name meta)) else held (tk_name tok))))"
proof (induction es arbitrary: tok)
  case Nil
  then show ?case by auto
next
  case (Cons e es)
  obtain tok' where step: "token_after e (Some tok) = Some tok'" by (cases e) (auto simp: token_after_def)
  then have later: "fold token_after es (Some tok') = Some t" using Cons.prems by simp
  note n = held_copied [OF Cons.prems(2), of "md_name meta" for meta] Cons.prems(2)
  show ?case
  proof (cases e)
    case (Balance_of mnt dec seen)
    then have "tok' = balance_seen dec tok" using step by (simp add: token_after_def)
    then show ?thesis using Cons.IH [OF later] Cons.prems(2) Balance_of by (auto split: option.splits)
  next
    case (Metadata meta seen)
    show ?thesis
    proof (cases "tk_has_metadata tok")
      case True
      then have "tok' = tok" using step Metadata by (simp add: token_after_def)
      then show ?thesis using Cons.IH [OF later] Cons.prems(2) Metadata True by (auto split: option.splits)
    next
      case False
      then have t': "tok' = metadata_seen meta tok" using step Metadata by (simp add: token_after_def)
      have size0: "0 < IDX_TOKEN_NAME_MAX" by (simp add: IDX_TOKEN_NAME_MAX_def)
      have copied: "length (tk_name tok') = IDX_TOKEN_NAME_MAX \<and> held (tk_name tok') = (if md_has_name meta \<and> md_name meta \<noteq> []
            then held (take (IDX_TOKEN_NAME_MAX - 1) (md_name meta)) else held (tk_name tok))"
        using held_copied [OF Cons.prems(2) size0, of "md_name meta" "tk_has_name tok"] Cons.prems(2)
        by (auto simp: t') (simp_all add: copy_string_def)
      then show ?thesis using Cons.IH [OF later] Metadata False t' by (auto split: option.splits)
    qed
  qed
qed

section \<open>Properties\<close>

text \<open>
  C14: The token registry holds the history of every token. After any run of observations on a
  fresh registry, whatever the allocators answer, each observation succeeded or reported
  NO_MEMORY, looking a mint up gives the record folded from exactly the observations that
  succeeded and name it, and freeing the registry frees every record.
\<close>

theorem token_registry_history:
  assumes "idx_token_registry_init (Some junk) = Some start" "\<forall>e \<in> set es. fresh_choice (fst e)"
    and run: "observe_run token_step es start = (sts, reg)"
  shows "set sts \<subseteq> {IDX_OK, IDX_ERR_NO_MEMORY} \<and>
    idx_token_registry_get (Some reg) (Some mnt) = history names_token token_after (mint_key mnt) (effective es sts) None \<and>
    (\<exists>r. idx_token_registry_free (Some reg) = Some r \<and> heap (by_mint r) = Map.empty)"
proof -
  have start: "by_mint start = registry_init" using assms(1) by (auto simp: idx_token_registry_init_def)
  then have "tokens_ok start" by (simp add: tokens_ok_def registry_init_ok) (simp add: registry_init_def fresh_map_ok)
  note all = tokens.run_history [OF this assms(2) run, unfolded start registry_init_ok(2)]
  then have ok: "tokens_ok reg" "set sts \<subseteq> {IDX_OK, IDX_ERR_NO_MEMORY}"
    and view: "reg_view (by_mint reg) = (\<lambda>k. history names_token token_after k (effective es sts) None)"
    by blast+
  have own: "reg_ok (by_mint reg)" using ok(1) by (simp add: tokens_ok_def)
  have "idx_token_registry_get (Some reg) (Some mnt) = reg_view (by_mint reg) (mint_key mnt)"
    using find_view(1) [OF own, of "mint_key mnt"] by simp
  moreover have "heap (registry_free (by_mint reg)) = Map.empty"
    by (simp add: registry_free_ok [OF own]) (simp add: registry_init_def)
  ultimately show ?thesis using ok(2) view by (simp add: idx_token_registry_free_def)
qed

theorem token_registry_history_witness:
  "\<exists>start reg. idx_token_registry_init (Some start) = Some start \<and>
     observe_run token_step [(granting, Balance_of IDX_MINT_WSOL 9 7)] start = ([IDX_OK], reg) \<and>
     idx_token_registry_get (Some reg) (Some IDX_MINT_WSOL) = Some (balance_seen 9 (new_token IDX_MINT_WSOL 7))"
proof -
  let ?start = "\<lparr>by_mint = registry_init, with_metadata = 0\<rparr> :: idx_token_registry"
  have start: "idx_token_registry_init (Some ?start) = Some ?start" by (simp add: idx_token_registry_init_def)
  obtain owned where "registry_insert granting registry_init (mint_key IDX_MINT_WSOL) (new_token IDX_MINT_WSOL 7) = (Inr 0, owned)"
    using granting_insert [of "mint_key IDX_MINT_WSOL" "new_token IDX_MINT_WSOL 7"] by blast
  then obtain reg where run: "observe_run token_step [(granting, Balance_of IDX_MINT_WSOL 9 7)] ?start = ([IDX_OK], reg)"
    by (simp add: token_step_def find_or_create_def registry_obtain_def find_init)
  have fresh: "\<forall>e \<in> set [(granting :: idx_token choice, Balance_of IDX_MINT_WSOL 9 7)]. fresh_choice (fst e)" by (simp add: granting_fresh)
  have "history names_token token_after (mint_key IDX_MINT_WSOL)
      (effective [(granting :: idx_token choice, Balance_of IDX_MINT_WSOL 9 7)] [IDX_OK]) None =
      Some (balance_seen 9 (new_token IDX_MINT_WSOL 7))"
    by (simp add: history_def effective_def names_token_def token_after_def)
  then have "idx_token_registry_get (Some reg) (Some IDX_MINT_WSOL) = Some (balance_seen 9 (new_token IDX_MINT_WSOL 7))"
    using token_registry_history [OF start fresh run, of IDX_MINT_WSOL] by simp
  then show ?thesis using start run by blast
qed

text \<open>
  A token's record is the first thing known of each kind. It exists exactly if something
  named the mint; its slot is that of the first observation, its decimals those of the first
  balance, and its name that of the first metadata, cut to 63 bytes and at its first zero; it
  counts as having metadata exactly if some was seen, even if that named nothing.
\<close>

theorem token_record_facts:
  "case filter (names_token k) es of
      [] \<Rightarrow> history names_token token_after k es None = None
    | e # later \<Rightarrow> (\<exists>t. history names_token token_after k es None = Some t \<and> tk_mint t = event_mint e \<and>
        tk_first_seen_slot t = event_slot e \<and>
        (if tk_has_decimals t then Some (tk_decimals t) else None) = first_decimals (e # later) \<and>
        tk_has_metadata t = (first_metadata (e # later) \<noteq> None) \<and>
        held (tk_name t) = (case first_metadata (e # later) of None \<Rightarrow> []
          | Some meta \<Rightarrow> if md_has_name meta then held (take 63 (md_name meta)) else []))"
proof (cases "filter (names_token k) es")
  case (Cons e later)
  have kept: "\<exists>t. fold token_after later (Some tok) = Some t" for later tok
    by (induction later arbitrary: tok) (auto simp: token_after_def split: token_event.split)
  have "\<exists>t. fold token_after (e # later) (Some (new_token (event_mint e) (event_slot e))) = Some t" by (rule kept)
  then obtain t where t: "fold token_after (e # later) (Some (new_token (event_mint e) (event_slot e))) = Some t" by blast
  have "token_after e None = token_after e (Some (new_token (event_mint e) (event_slot e)))"
    by (cases e) (simp_all add: token_after_def event_mint_def event_slot_def new_token_fields)
  then have hist: "history names_token token_after k es None = Some t" using t Cons by (simp add: history_def)
  have "length (tk_name (new_token (event_mint e) (event_slot e))) = IDX_TOKEN_NAME_MAX"
    "held (tk_name (new_token (event_mint e) (event_slot e))) = []"
    by (simp_all add: new_token_def held_zeros)
  then show ?thesis using known_token [OF t] hist Cons
    by (auto simp: new_token_fields IDX_TOKEN_NAME_MAX_def held_def split: option.splits if_splits)
qed (simp add: history_def)

end
