(* ===== verification/Doubles.thy ===== *)
theory Doubles
  imports Complex_Main "HOL-Library.Log_Nat" "HOL-Library.Word"
begin

text \<open>
  C doubles, as far as prices and volumes use them: the IEEE 754 64-bit format without its
  negative half, which the program never enters. A number is a finite value, the infinity or
  not a number; every operation gives the exact result rounded to the nearest value of the
  format, ties to the even one: a multiple of \<open>2 ^ -1074\<close> below the normal range, 53
  significant bits in it, the infinity above it. \<open>to_double\<close> is the rounding inside the normal
  range, with which the errors are computed; \<open>rounded_normal\<close> says when it is the one of the
  format. Sums of volumes stay in that range by many orders of magnitude, so they are computed
  on the finite values.
\<close>

section \<open>Model\<close>

text \<open>A finite value.\<close>

type_synonym double = rat

text \<open>The exponent of the leading bit of a positive value.\<close>

definition leading_bit :: "rat \<Rightarrow> int" where
  "leading_bit x = (let (a, b) = quotient_of x; e = bitlen a - bitlen b in
     if 2 powi e \<le> x then e else e - 1)"

definition nearest_even :: "rat \<Rightarrow> int" where
  "nearest_even y = (let n = \<lfloor>y\<rfloor>; d = y - of_int n in
     if d < 1 / 2 then n else if d > 1 / 2 then n + 1 else if even n then n else n + 1)"

definition to_double :: "rat \<Rightarrow> double" where
  "to_double x = (if x = 0 then 0
     else let u = 2 powi (leading_bit x - 52) in of_int (nearest_even (x / u)) * u)"

datatype number = Finite double | Infinite | Not_a_number

definition rounded :: "rat \<Rightarrow> number" where
  "rounded x = (if x = 0 then Finite 0
     else if x < 1 / 2 ^ 1022 then Finite (of_int (nearest_even (x * 2 ^ 1074)) / 2 ^ 1074)
     else if to_double x \<ge> 2 ^ 1024 then Infinite else Finite (to_double x))"

fun fp_mul :: "number \<Rightarrow> number \<Rightarrow> number" where
  "fp_mul (Finite a) (Finite b) = rounded (a * b)"
| "fp_mul (Finite a) Infinite = (if a = 0 then Not_a_number else Infinite)"
| "fp_mul Infinite (Finite b) = (if b = 0 then Not_a_number else Infinite)"
| "fp_mul Infinite Infinite = Infinite"
| "fp_mul _ _ = Not_a_number"

fun fp_div :: "number \<Rightarrow> number \<Rightarrow> number" where
  "fp_div (Finite a) (Finite b) =
     (if b = 0 then (if a = 0 then Not_a_number else Infinite) else rounded (a / b))"
| "fp_div (Finite a) Infinite = Finite 0"
| "fp_div Infinite (Finite b) = Infinite"
| "fp_div _ _ = Not_a_number"

definition double_of_u64 :: "64 word \<Rightarrow> number" where
  "double_of_u64 w = rounded (of_nat (unat w))"

definition double_add :: "double \<Rightarrow> double \<Rightarrow> double" where
  "double_add a b = to_double (a + b)"

text \<open>The value of a number known to be finite.\<close>

fun finite_value :: "number \<Rightarrow> double" where
  "finite_value (Finite x) = x"
| "finite_value _ = 0"

section \<open>Rounding\<close>

lemma bitlen_range:
  assumes "(0 :: int) < a"
  shows "(2 :: rat) powi (bitlen a - 1) \<le> of_int a" "(of_int a :: rat) < 2 powi bitlen a"
proof -
  have n: "0 < bitlen a" using assms bitlen_eq_zero_iff [of a] bitlen_nonneg [of a] by linarith
  have b: "2 ^ nat (bitlen a - 1) \<le> a \<and> a < 2 ^ nat (bitlen a)" using bitlen_bounds [OF assms] .
  have "(2 :: rat) powi (bitlen a - 1) = of_int (2 ^ nat (bitlen a - 1))" "(2 :: rat) powi bitlen a = of_int (2 ^ nat (bitlen a))"
    using n by (simp_all add: power_int_def)
  then show "(2 :: rat) powi (bitlen a - 1) \<le> of_int a" "(of_int a :: rat) < 2 powi bitlen a"
    using b by (simp_all only: of_int_le_iff of_int_less_iff)
qed

lemma leading_bit_range:
  assumes "0 < x"
  shows "2 powi leading_bit x \<le> x" "x < 2 powi (leading_bit x + 1)"
proof -
  obtain a b where q: "quotient_of x = (a, b)" by fastforce
  have x: "x = of_int a / of_int b" and b: "0 < b" using quotient_of_div [OF q] quotient_of_denom_pos [OF q] by simp_all
  then have a: "0 < a" using assms by (simp add: zero_less_divide_iff)
  let ?e = "bitlen a - bitlen b"
  note ra = bitlen_range [OF a] and rb = bitlen_range [OF b]
  have pos: "(0 :: rat) < 2 powi n" for n by simp
  have up: "x < 2 powi (?e + 1)"
  proof -
    have "x < 2 powi bitlen a / of_int b" using ra(2) b x by (simp add: divide_strict_right_mono)
    also have "\<dots> \<le> 2 powi bitlen a / 2 powi (bitlen b - 1)"
      using rb(1) b by (intro divide_left_mono) simp_all
    also have "\<dots> = 2 powi (?e + 1)" by (simp add: power_int_diff [symmetric] algebra_simps)
    finally show ?thesis .
  qed
  have low: "2 powi (?e - 1) \<le> x"
  proof -
    have "(2 :: rat) powi (?e - 1) = 2 powi (bitlen a - 1) / 2 powi bitlen b"
      using power_int_diff [of "2 :: rat" "bitlen a - 1" "bitlen b"] by (simp add: algebra_simps)
    also have "\<dots> \<le> of_int a / 2 powi bitlen b" using ra(1) by (intro divide_right_mono) simp_all
    also have "\<dots> \<le> x" unfolding x using rb(2) a b by (intro divide_left_mono) simp_all
    finally show ?thesis .
  qed
  show "2 powi leading_bit x \<le> x" "x < 2 powi (leading_bit x + 1)"
    using up low by (auto simp: leading_bit_def q Let_def)
qed

lemma nearest_even_error: "\<bar>of_int (nearest_even y) - y\<bar> \<le> 1 / 2"
proof -
  have "of_int \<lfloor>y\<rfloor> \<le> y" "y < of_int \<lfloor>y\<rfloor> + 1" by linarith+
  then show ?thesis by (auto simp: nearest_even_def Let_def abs_le_iff)
qed

lemma nearest_even_int: "nearest_even (of_int n) = n"
  by (simp add: nearest_even_def)

text \<open>Half an ulp is at most \<open>2 ^ -53\<close> of the value.\<close>

definition half_ulp :: rat where "half_ulp = 1 / 2 ^ 53"

lemma to_double_bounds:
  assumes "0 \<le> x"
  shows "(1 - half_ulp) * x \<le> to_double x" "to_double x \<le> (1 + half_ulp) * x"
proof -
  have "\<bar>to_double x - x\<bar> \<le> half_ulp * x"
  proof (cases "x = 0")
    case False
    then have pos: "0 < x" using assms by simp
    define u where "u = (2 :: rat) powi (leading_bit x - 52)"
    have u: "0 < u" by (simp add: u_def)
    have "to_double x - x = (of_int (nearest_even (x / u)) - x / u) * u"
      using False u by (simp add: to_double_def u_def [symmetric] Let_def algebra_simps)
    then have "\<bar>to_double x - x\<bar> = \<bar>of_int (nearest_even (x / u)) - x / u\<bar> * u" using u by (simp add: abs_mult)
    also have "\<dots> \<le> 1 / 2 * u" using nearest_even_error u by (intro mult_right_mono) simp_all
    also have "1 / 2 * u = half_ulp * 2 powi leading_bit x"
      by (simp add: u_def half_ulp_def power_int_diff)
    also have "\<dots> \<le> half_ulp * x" using leading_bit_range(1) [OF pos] by (simp add: half_ulp_def)
    finally show ?thesis .
  qed (simp add: to_double_def)
  then show "(1 - half_ulp) * x \<le> to_double x" "to_double x \<le> (1 + half_ulp) * x"
    by (simp_all add: abs_le_iff algebra_simps)
qed

lemma to_double_nonneg: "0 \<le> x \<Longrightarrow> 0 \<le> to_double x"
proof -
  assume x: "0 \<le> x"
  have "0 \<le> (1 - half_ulp) * x" using x by (simp add: half_ulp_def)
  then show ?thesis using to_double_bounds(1) [OF x] by linarith
qed

text \<open>A value with at most 53 significant bits is exact.\<close>

lemma to_double_exact:
  assumes "0 \<le> m" "m < 2 ^ 53"
  shows "to_double (of_int m * 2 ^ k) = of_int m * 2 ^ k"
proof (cases "m = 0")
  case False
  let ?x = "of_int m * 2 ^ k :: rat"
  have pos: "0 < ?x" using False assms(1) by simp
  let ?e = "leading_bit ?x"
  have "?e - 52 \<le> int k"
  proof (rule ccontr)
    assume "\<not> ?e - 52 \<le> int k"
    then have "int k + 53 \<le> ?e" by simp
    then have "(2 :: rat) powi (int k + 53) \<le> 2 powi ?e" by (intro power_int_increasing) simp_all
    also have "\<dots> \<le> ?x" by (rule leading_bit_range(1) [OF pos])
    also have "?x < 2 ^ 53 * 2 ^ k" using assms(2) by (intro mult_strict_right_mono) simp_all
    also have "(2 :: rat) ^ 53 * 2 ^ k = 2 powi (int k + 53)" by (simp add: power_int_add)
    finally show False by simp
  qed
  then have nonneg: "0 \<le> int k - (?e - 52)" by simp
  let ?u = "2 powi (?e - 52) :: rat"
  have "of_int (2 ^ nat (int k - (?e - 52))) * ?u = 2 powi (int k - (?e - 52)) * 2 powi (?e - 52)"
    using nonneg by (simp add: power_int_def)
  also have "\<dots> = 2 powi (int k)" by (simp flip: power_int_add)
  finally have "?x = of_int (m * 2 ^ nat (int k - (?e - 52))) * ?u" by (simp add: mult.assoc)
  moreover have "of_int (nearest_even (of_int n * ?u / ?u)) * ?u = of_int n * ?u" for n
    by (simp add: nearest_even_int)
  ultimately have "of_int (nearest_even (?x / ?u)) * ?u = ?x" by metis
  then show ?thesis using pos unfolding to_double_def Let_def by simp
qed (simp add: to_double_def)

lemma to_double_nat: "n < 2 ^ 53 \<Longrightarrow> to_double (of_nat n) = of_nat n"
proof -
  assume "n < 2 ^ 53"
  then have "to_double (of_int (int n) * 2 ^ 0) = of_int (int n) * 2 ^ 0" by (intro to_double_exact) simp_all
  then show ?thesis by simp
qed

text \<open>In the normal range the format rounds as \<open>to_double\<close> does.\<close>

lemma rounded_normal:
  assumes "x = 0 \<or> 1 / 2 ^ 1022 \<le> x \<and> x \<le> 2 ^ 1022"
  shows "rounded x = Finite (to_double x)"
proof (cases "x = 0")
  case True
  then show ?thesis by (simp add: rounded_def to_double_def)
next
  case False
  then have x: "1 / 2 ^ 1022 \<le> x" "x \<le> 2 ^ 1022" using assms by simp_all
  have "0 \<le> x" by (rule order_trans [OF _ x(1)]) simp
  have "(1 + half_ulp) * x \<le> (1 + half_ulp) * 2 ^ 1022" using x(2) by (intro mult_left_mono) (simp_all add: half_ulp_def)
  also have "\<dots> < 2 ^ 1024" by (simp add: half_ulp_def)
  finally have "to_double x < 2 ^ 1024" using to_double_bounds(2) [OF \<open>0 \<le> x\<close>] by (rule le_less_trans [rotated])
  then show ?thesis using False x(1) by (simp only: rounded_def not_le if_False simp_thms not_less [symmetric])
qed

section \<open>Powers of ten\<close>

text \<open>\<^verbatim>\<open>pow10_double\<close>, the same in \<^verbatim>\<open>src/price.c\<close> and \<^verbatim>\<open>src/bar.c\<close>.\<close>

fun pow10_loop :: "nat \<Rightarrow> number" where
  "pow10_loop 0 = Finite 1"
| "pow10_loop (Suc n) = fp_mul (pow10_loop n) (Finite 10)"

definition pow10_double :: "8 word \<Rightarrow> number" where
  "pow10_double n = pow10_loop (unat n)"

text \<open>Its value, computed on finite values alone.\<close>

fun pow10_value :: "nat \<Rightarrow> double" where
  "pow10_value 0 = 1"
| "pow10_value (Suc n) = to_double (pow10_value n * 10)"

lemma pow10_exact: "n \<le> 22 \<Longrightarrow> pow10_value n = 10 ^ n"
proof (induction n)
  case (Suc n)
  have "(5 :: int) ^ Suc n \<le> 5 ^ 22" using Suc.prems by (intro power_increasing) simp_all
  then have small: "(5 :: int) ^ Suc n < 2 ^ 53" by simp
  have "(10 :: rat) ^ Suc n = of_int (5 ^ Suc n) * 2 ^ Suc n" by (simp flip: power_mult_distrib)
  moreover have "to_double (of_int (5 ^ Suc n) * 2 ^ Suc n) = of_int (5 ^ Suc n) * 2 ^ Suc n"
    by (rule to_double_exact [OF _ small]) simp
  moreover have "pow10_value (Suc n) = to_double (10 ^ Suc n)" using Suc by (simp add: mult.commute)
  ultimately show ?case by metis
qed simp

lemma pow10_range: "1 \<le> pow10_value n \<and> pow10_value n \<le> 11 ^ n"
proof (induction n)
  case (Suc n)
  let ?p = "pow10_value n"
  have p: "0 \<le> ?p * 10" "1 \<le> ?p" using Suc by auto
  note b = to_double_bounds [OF p(1)]
  have "1 * 1 \<le> ((1 - half_ulp) * 10) * ?p" using p(2) by (intro mult_mono) (simp_all add: half_ulp_def)
  then have "1 \<le> pow10_value (Suc n)" using b(1) by (simp add: algebra_simps)
  moreover have "((1 + half_ulp) * 10) * ?p \<le> 11 * ?p" using p(2) by (intro mult_right_mono) (simp_all add: half_ulp_def)
  moreover have "11 * ?p \<le> 11 ^ Suc n" using Suc by simp
  ultimately show ?case using b(2) by (simp add: algebra_simps)
qed simp

lemma pow10_below: "n \<le> 255 \<Longrightarrow> pow10_value n \<le> 2 ^ 900"
proof -
  assume "n \<le> 255"
  then have "(11 :: rat) ^ n \<le> 11 ^ 255" by (rule power_increasing) simp
  also have "\<dots> \<le> 2 ^ 900" by simp
  finally show ?thesis using pow10_range [of n] by simp
qed

text \<open>Up to the largest byte no power overflows.\<close>

lemma pow10_loop_finite: "n \<le> 255 \<Longrightarrow> pow10_loop n = Finite (pow10_value n)"
proof (induction n)
  case (Suc n)
  let ?p = "pow10_value n"
  have "1 \<le> ?p" "?p \<le> 2 ^ 900" using Suc.prems pow10_range pow10_below by simp_all
  moreover have "(1 :: rat) / 2 ^ 1022 \<le> 1" "(2 :: rat) ^ 900 * 10 \<le> 2 ^ 1022" by simp_all
  ultimately have "1 / 2 ^ 1022 \<le> ?p * 10 \<and> ?p * 10 \<le> 2 ^ 1022" by linarith
  then show ?case using Suc rounded_normal [of "?p * 10"] by simp
qed simp

lemma pow10_double_finite: "pow10_double d = Finite (pow10_value (unat d))"
proof -
  have "unat d \<le> 255" using unsigned_less [of d, where 'a = nat] by simp
  then show ?thesis unfolding pow10_double_def by (rule pow10_loop_finite)
qed

text \<open>An amount is converted without overflow.\<close>

definition amount_value :: "64 word \<Rightarrow> double" where
  "amount_value w = to_double (of_nat (unat w))"

lemma amount_bounds: "0 < unat (w :: 64 word) \<Longrightarrow> (1 :: rat) \<le> of_nat (unat w) \<and> of_nat (unat w) \<le> (2 :: rat) ^ 64"
proof
  show "(1 :: rat) \<le> of_nat (unat w)" if "0 < unat w" using that by (metis Suc_leI of_nat_1 of_nat_mono One_nat_def)
  have "unat w \<le> 2 ^ 64" using unsigned_less [of w, where 'a = nat] by simp
  then show "of_nat (unat w) \<le> (2 :: rat) ^ 64" by (metis of_nat_le_iff of_nat_numeral of_nat_power)
qed

lemma double_of_u64_finite: "double_of_u64 w = Finite (amount_value w)"
proof -
  have "(of_nat (unat w) :: rat) = 0 \<or> 1 / 2 ^ 1022 \<le> (of_nat (unat w) :: rat) \<and> of_nat (unat w) \<le> (2 :: rat) ^ 1022"
  proof (cases "unat w = 0")
    case False
    have "(1 :: rat) / 2 ^ 1022 \<le> 1" "(2 :: rat) ^ 64 \<le> 2 ^ 1022" by simp_all
    then show ?thesis using amount_bounds [of w] False by (meson bot_nat_0.not_eq_extremum order_trans)
  qed simp
  from rounded_normal [OF this] show ?thesis by (simp only: double_of_u64_def amount_value_def)
qed

lemma amount_of_small: "unat w < 2 ^ 53 \<Longrightarrow> amount_value w = of_nat (unat w)"
  unfolding amount_value_def by (rule to_double_nat)

section \<open>Scaled amounts\<close>

text \<open>An amount over a power of ten never leaves the normal range.\<close>

definition scaled_value :: "64 word \<Rightarrow> 8 word \<Rightarrow> double" where
  "scaled_value w d = to_double (amount_value w / pow10_value (unat d))"

lemma to_double_within: "0 \<le> x \<Longrightarrow> x / 2 \<le> to_double x \<and> to_double x \<le> 2 * x"
proof -
  assume x: "0 \<le> x"
  have "1 / 2 * x \<le> (1 - half_ulp) * x" "(1 + half_ulp) * x \<le> 2 * x"
    using x by (intro mult_right_mono; simp add: half_ulp_def)+
  then show ?thesis using to_double_bounds [OF x] by linarith
qed

lemma to_double_between:
  assumes "0 \<le> a" "a \<le> x" "x \<le> b"
  shows "a / 2 \<le> to_double x" "to_double x \<le> 2 * b"
  using to_double_within [OF order_trans [OF assms(1,2)]] assms by linarith+

lemma quotient_range:
  fixes d :: "8 word"
  assumes "0 < unat w"
  shows "1 / 2 ^ 901 \<le> amount_value w / pow10_value (unat d)" "amount_value w / pow10_value (unat d) \<le> 2 ^ 65"
proof -
  let ?a = "amount_value w" and ?p = "pow10_value (unat d)"
  have a: "1 / 2 \<le> ?a" "?a \<le> 2 ^ 65"
    using to_double_within [of "of_nat (unat w)"] amount_bounds [OF assms] unfolding amount_value_def by simp_all
  have "unat d \<le> 255" using unsigned_less [of d, where 'a = nat] by simp
  then have p: "1 \<le> ?p" "?p \<le> 2 ^ 900" using pow10_range pow10_below by simp_all
  show "1 / 2 ^ 901 \<le> ?a / ?p" using frac_le [of ?a "1 / 2" ?p "2 ^ 900"] a p by simp
  show "?a / ?p \<le> 2 ^ 65" using frac_le [of "2 ^ 65" ?a 1 ?p] a p by simp
qed

lemma scaled_range:
  assumes "0 < unat w"
  shows "1 / 2 ^ 902 \<le> scaled_value w d" "scaled_value w d \<le> 2 ^ 66"
proof -
  have r: "1 / 2 ^ 901 / 2 \<le> scaled_value w d" "scaled_value w d \<le> 2 * 2 ^ 65"
    using to_double_between [OF _ quotient_range [OF assms, of d]] unfolding scaled_value_def
    by (simp_all only: zero_le_divide_1_iff zero_le_power zero_le_numeral)
  have e: "(1 :: rat) / 2 ^ 902 = 1 / 2 ^ 901 / 2" "(2 :: rat) ^ 66 = 2 * 2 ^ 65" by simp_all
  show "1 / 2 ^ 902 \<le> scaled_value w d" "scaled_value w d \<le> 2 ^ 66"
    unfolding e by (rule r)+
qed

lemma scaled_zero: "unat w = 0 \<Longrightarrow> scaled_value w d = 0"
  by (simp add: scaled_value_def amount_value_def to_double_def)

lemma scaled_finite: "fp_div (double_of_u64 w) (pow10_double d) = Finite (scaled_value w d)"
proof -
  let ?x = "amount_value w / pow10_value (unat d)"
  have p: "pow10_value (unat d) \<noteq> 0" using pow10_range [of "unat d"] by auto
  have "?x = 0 \<or> 1 / 2 ^ 1022 \<le> ?x \<and> ?x \<le> 2 ^ 1022"
  proof (cases "unat w = 0")
    case True
    then show ?thesis by (simp add: amount_value_def to_double_def)
  next
    case False
    have "(1 :: rat) / 2 ^ 1022 \<le> 1 / 2 ^ 901" "(2 :: rat) ^ 65 \<le> 2 ^ 1022" by simp_all
    then show ?thesis using quotient_range [of w d] False by (meson bot_nat_0.not_eq_extremum order_trans)
  qed
  from rounded_normal [OF this] p show ?thesis
    by (simp add: double_of_u64_finite pow10_double_finite scaled_value_def)
qed

section \<open>Relative error\<close>

text \<open>\<open>close_to k x y\<close>: \<open>x\<close> is \<open>y\<close> up to \<open>k\<close> roundings up or down.\<close>

definition close_to :: "nat \<Rightarrow> rat \<Rightarrow> rat \<Rightarrow> bool" where
  "close_to k x y \<longleftrightarrow> y * (1 - half_ulp) ^ k \<le> x \<and> x * (1 - half_ulp) ^ k \<le> y"

lemma half_ulp_pos: "0 < 1 - half_ulp" "1 - half_ulp \<le> 1" "(1 + half_ulp) * (1 - half_ulp) \<le> 1"
  by (simp_all add: half_ulp_def)

lemma close_to_refl: "close_to 0 x x"
  by (simp add: close_to_def)

lemma close_to_round:
  assumes "close_to k x y" "0 \<le> x"
  shows "close_to (Suc k) (to_double x) y"
proof -
  let ?c = "1 - half_ulp"
  have "y * ?c ^ Suc k = ?c * (y * ?c ^ k)" by simp
  also have "\<dots> \<le> ?c * x" using assms(1) half_ulp_pos(1) by (intro mult_left_mono) (simp_all add: close_to_def)
  also have "\<dots> \<le> to_double x" by (rule to_double_bounds(1) [OF assms(2)])
  finally have low: "y * ?c ^ Suc k \<le> to_double x" .
  have "to_double x * ?c ^ Suc k \<le> ((1 + half_ulp) * x) * ?c ^ Suc k"
    using to_double_bounds(2) [OF assms(2)] half_ulp_pos(1) by (intro mult_right_mono) simp_all
  also have "\<dots> = ((1 + half_ulp) * ?c) * (x * ?c ^ k)" by simp
  also have "\<dots> \<le> 1 * (x * ?c ^ k)" using half_ulp_pos assms(2) by (intro mult_right_mono) simp_all
  also have "\<dots> \<le> y" using assms(1) by (simp add: close_to_def)
  finally show ?thesis using low by (simp add: close_to_def)
qed

lemma close_to_divide:
  assumes "close_to j a x" "close_to k b y" "0 \<le> x" "0 < y" "0 \<le> a" "0 < b"
  shows "close_to (j + k) (a / b) (x / y)"
proof -
  let ?c = "1 - half_ulp"
  have c: "0 < ?c ^ j" "0 < ?c ^ k" using half_ulp_pos(1) by simp_all
  have "(x * ?c ^ j) * (b * ?c ^ k) \<le> a * y"
    using assms c by (intro mult_mono) (simp_all add: close_to_def)
  then have "x / y * ?c ^ (j + k) \<le> a / b" using assms(4,6) by (simp add: field_simps power_add)
  moreover have "(a * ?c ^ j) * (y * ?c ^ k) \<le> x * b"
    using assms c by (intro mult_mono) (simp_all add: close_to_def)
  then have "a / b * ?c ^ (j + k) \<le> x / y" using assms(4,6) by (simp add: field_simps power_add)
  ultimately show ?thesis by (simp add: close_to_def)
qed

end
