(* ===== verification/Price.thy ===== *)
theory Price
  imports Doubles Swaps
begin

text \<open>
  Pricing (\<^verbatim>\<open>src/price.c\<close>, \<^verbatim>\<open>include/price.h\<close>): the ordered set of quote mints, parsed from a
  list of names and keys, and the price of a swap one side of which is a quote. A quote set is
  the list of its used entries; the scan pointer of the parser is the text still to read.
\<close>

section \<open>Model\<close>

datatype idx_quote = IDX_QUOTE_NONE | IDX_QUOTE_SOL | IDX_QUOTE_USDC | IDX_QUOTE_USDT | IDX_QUOTE_USD1 | IDX_QUOTE_OTHER

definition idx_quote_name :: "idx_quote \<Rightarrow> string" where
  "idx_quote_name quote = (case quote of
      IDX_QUOTE_NONE \<Rightarrow> ''none''
    | IDX_QUOTE_SOL \<Rightarrow> ''sol''
    | IDX_QUOTE_USDC \<Rightarrow> ''usdc''
    | IDX_QUOTE_USDT \<Rightarrow> ''usdt''
    | IDX_QUOTE_USD1 \<Rightarrow> ''usd1''
    | IDX_QUOTE_OTHER \<Rightarrow> ''other'')"

definition IDX_QUOTE_SET_MAX :: nat where "IDX_QUOTE_SET_MAX = 16"

record idx_quote_mint =
  qm_mint :: idx_pubkey
  qm_kind :: idx_quote

type_synonym idx_quote_set = "idx_quote_mint list"

definition k_named_quotes :: "(string \<times> idx_quote \<times> string) list" where
  "k_named_quotes = [
     (''sol'', IDX_QUOTE_SOL, ''So11111111111111111111111111111111111111112''),
     (''wsol'', IDX_QUOTE_SOL, ''So11111111111111111111111111111111111111112''),
     (''usdc'', IDX_QUOTE_USDC, ''EPjFWdd5AufqSSqeM2qN1xzybapC8G4wEGGkZwyTDt1v''),
     (''usdt'', IDX_QUOTE_USDT, ''Es9vMFrzaCERmJfrF4H2FYD4KCoNkY11McCe8BenwNYB''),
     (''usd1'', IDX_QUOTE_USD1, ''USD1ttGY1N17NEEHLmELoaybftRBUSErhqYiQzvEmuB'')]"

text \<open>Equality in the sense of \<^verbatim>\<open>strcasecmp\<close>, in the C locale.\<close>

definition tolower :: "char \<Rightarrow> char" where
  "tolower c = (let n = of_char c :: nat in if 65 \<le> n \<and> n \<le> 90 then char_of (n + 32) else c)"

definition strcaseeq :: "string \<Rightarrow> string \<Rightarrow> bool" where
  "strcaseeq a b \<longleftrightarrow> map tolower a = map tolower b"

definition add_quote :: "idx_quote_set \<Rightarrow> idx_pubkey \<Rightarrow> idx_quote \<Rightarrow> idx_quote_set result" where
  "add_quote quotes mnt kind =
     (if list_ex (\<lambda>q. idx_pubkey_equal (qm_mint q) mnt) quotes then Inr quotes
      else if length quotes \<ge> IDX_QUOTE_SET_MAX then Inl IDX_ERR_RANGE
      else Inr (quotes @ [\<lparr>qm_mint = mnt, qm_kind = kind\<rparr>]))"

text \<open>\<open>calloc_ok\<close> matters only for texts longer than any key's.\<close>

definition add_entry :: "bool \<Rightarrow> idx_quote_set \<Rightarrow> string \<Rightarrow> idx_quote_set result" where
  "add_entry calloc_ok quotes tok =
     (case find (\<lambda>(nam, kind, mnt). strcaseeq tok nam) k_named_quotes of
        Some (nam, kind, mnt) \<Rightarrow>
          idx_try (idx_pubkey_from_base58 calloc_ok (Some mnt)) (\<lambda>mnt. add_quote quotes mnt kind)
      | None \<Rightarrow> (case idx_pubkey_from_base58 calloc_ok (Some tok) of
          Inl _ \<Rightarrow> Inl IDX_ERR_PARSE
        | Inr mnt \<Rightarrow> add_quote quotes mnt IDX_QUOTE_OTHER))"

definition separator_char :: "char \<Rightarrow> bool" where
  "separator_char c \<longleftrightarrow> c = CHR '','' \<or> c = CHR '' '' \<or> c = CHR 0x09"

definition blank_char :: "char \<Rightarrow> bool" where
  "blank_char c \<longleftrightarrow> c = CHR '' '' \<or> c = CHR 0x09"

definition trim_end :: "string \<Rightarrow> string" where
  "trim_end s = rev (dropWhile blank_char (rev s))"

function parse_entries :: "bool \<Rightarrow> string \<Rightarrow> idx_quote_set \<Rightarrow> idx_quote_set result" where
  "parse_entries calloc_ok p quotes =
     (if p = [] then Inr quotes
      else let start = dropWhile separator_char p;
               tok = trim_end (takeWhile (\<lambda>c. c \<noteq> CHR '','') start);
               rest = dropWhile (\<lambda>c. c \<noteq> CHR '','') start
           in if tok = [] then parse_entries calloc_ok rest quotes
              else if length tok \<ge> IDX_PUBKEY_STR_MAX then Inl IDX_ERR_RANGE
              else (case add_entry calloc_ok quotes tok of
                Inl e \<Rightarrow> Inl e
              | Inr quotes \<Rightarrow> parse_entries calloc_ok rest quotes))"
  by pat_completeness auto

lemma parse_consumes:
  assumes "p \<noteq> []"
  shows "length (dropWhile (\<lambda>c. c \<noteq> CHR '','') (dropWhile separator_char p)) < length p"
proof (cases p)
  case (Cons c cs)
  have short: "length (dropWhile P xs) \<le> length xs" for P and xs :: string by (rule length_dropWhile_le)
  show ?thesis
  proof (cases "separator_char c")
    case True
    then show ?thesis using Cons short [of separator_char cs]
        short [of "\<lambda>c. c \<noteq> CHR '',''" "dropWhile separator_char cs"] by simp
  next
    case False
    then have "c \<noteq> CHR '',''" by (auto simp: separator_char_def)
    then show ?thesis using Cons False short [of "\<lambda>c. c \<noteq> CHR '',''" cs] by simp
  qed
qed (use assms in simp)

termination parse_entries
  by (relation "measure (\<lambda>(_, p, _). length p)") (auto simp: parse_consumes simp del: length_dropWhile_le)

declare parse_entries.simps [simp del]

fun idx_quote_set_parse :: "bool \<Rightarrow> idx_quote_set option \<Rightarrow> string option \<Rightarrow> idx_quote_set result" where
  "idx_quote_set_parse calloc_ok (Some quotes) (Some spec) = parse_entries calloc_ok spec []"
| "idx_quote_set_parse calloc_ok _ _ = Inl IDX_ERR_INVALID_ARG"

definition idx_quote_set_defaults :: "bool \<Rightarrow> idx_quote_set option \<Rightarrow> idx_quote_set option" where
  "idx_quote_set_defaults calloc_ok = map_option (\<lambda>quotes.
     case idx_quote_set_parse calloc_ok (Some quotes) (Some ''usdc,usdt,usd1,sol'') of
       Inl _ \<Rightarrow> []
     | Inr quotes \<Rightarrow> quotes)"

text \<open>The rank and kind of a mint; \<open>None\<close> is the \<^verbatim>\<open>-1\<close>.\<close>

fun quote_rank_from :: "nat \<Rightarrow> idx_quote_set \<Rightarrow> idx_pubkey \<Rightarrow> (nat \<times> idx_quote) option" where
  "quote_rank_from i [] mnt = None"
| "quote_rank_from i (q # rest) mnt =
     (if idx_pubkey_equal (qm_mint q) mnt then Some (i, qm_kind q) else quote_rank_from (Suc i) rest mnt)"

definition quote_rank :: "idx_quote_set \<Rightarrow> idx_pubkey \<Rightarrow> (nat \<times> idx_quote) option" where
  "quote_rank = quote_rank_from 0"

record idx_price =
  pr_priced :: bool
  pr_quote :: idx_quote
  pr_quote_mint :: idx_pubkey
  pr_base_mint :: idx_pubkey
  pr_quote_amount :: u64
  pr_base_amount :: u64
  pr_quote_decimals :: byte
  pr_base_decimals :: byte
  pr_has_price :: bool
  pr_price :: number

definition zero_price :: idx_price where
  "zero_price = \<lparr>pr_priced = False, pr_quote = IDX_QUOTE_NONE, pr_quote_mint = IDX_PUBKEY_DEFAULT,
     pr_base_mint = IDX_PUBKEY_DEFAULT, pr_quote_amount = 0, pr_base_amount = 0, pr_quote_decimals = 0,
     pr_base_decimals = 0, pr_has_price = False, pr_price = Finite 0\<rparr>"

text \<open>Which side is the quote, given the two ranks.\<close>

definition quote_is_input :: "(nat \<times> idx_quote) option \<Rightarrow> (nat \<times> idx_quote) option \<Rightarrow> bool" where
  "quote_is_input input output =
     (case input of None \<Rightarrow> False
      | Some (i, _) \<Rightarrow> (case output of None \<Rightarrow> True | Some (j, _) \<Rightarrow> i \<le> j))"

definition price_number :: "idx_price \<Rightarrow> number" where
  "price_number p =
     (let quote = fp_div (double_of_u64 (pr_quote_amount p)) (pow10_double (pr_quote_decimals p));
          base = fp_div (double_of_u64 (pr_base_amount p)) (pow10_double (pr_base_decimals p))
      in fp_div quote base)"

fun idx_price_of_swap :: "idx_quote_set option \<Rightarrow> idx_swap_row option \<Rightarrow> bool \<times> idx_price" where
  "idx_price_of_swap (Some quotes) (Some row) =
     (let input = (if rw_has_input_mint row then quote_rank quotes (rw_input_mint row) else None);
          output = (if rw_has_output_mint row then quote_rank quotes (rw_output_mint row) else None)
      in if input = None \<and> output = None then (False, zero_price)
         else
           let from_input = quote_is_input input output;
               out = zero_price\<lparr>pr_priced := True\<rparr>;
               out = (if from_input
                 then out\<lparr>pr_quote := snd (the input), pr_quote_mint := rw_input_mint row,
                          pr_quote_amount := rw_input_amount row, pr_quote_decimals := rw_input_decimals row,
                          pr_base_mint := rw_output_mint row, pr_base_amount := rw_output_amount row,
                          pr_base_decimals := rw_output_decimals row\<rparr>
                 else out\<lparr>pr_quote := snd (the output), pr_quote_mint := rw_output_mint row,
                          pr_quote_amount := rw_output_amount row, pr_quote_decimals := rw_output_decimals row,
                          pr_base_mint := rw_input_mint row, pr_base_amount := rw_input_amount row,
                          pr_base_decimals := rw_input_decimals row\<rparr>);
               have_base_mint = (if from_input then rw_has_output_mint row else rw_has_input_mint row)
           in if have_base_mint \<and> (rw_has_input_amount row \<and> rw_has_output_amount row) \<and>
                 (rw_has_input_decimals row \<and> rw_has_output_decimals row) \<and> pr_base_amount out \<noteq> 0
              then (True, out\<lparr>pr_price := price_number out, pr_has_price := True\<rparr>)
              else (True, out))"
| "idx_price_of_swap _ _ = (False, zero_price)"

end
