(* ===== verification/Quotes.thy ===== *)
theory Quotes
  imports Price
begin

text \<open>
  What the quote list means: the parser of \<open>Price\<close> reads its entries one by one, keeps the
  first mention of every mint, and the built-in defaults are the four mints they are named
  after.
\<close>

section \<open>Fields\<close>

fun split_commas :: "string \<Rightarrow> string list" where
  "split_commas [] = [[]]"
| "split_commas (c # cs) = (if c = CHR '','' then [] # split_commas cs
     else (case split_commas cs of [] \<Rightarrow> [[c]] | f # fs \<Rightarrow> (c # f) # fs))"

definition trimmed :: "string \<Rightarrow> string" where
  "trimmed s = trim_end (dropWhile blank_char s)"

text \<open>The entries of a list: what stands between commas, trimmed, unless it is empty.\<close>

definition entries_of :: "string \<Rightarrow> string list" where
  "entries_of p = filter (\<lambda>f. f \<noteq> []) (map trimmed (split_commas p))"

lemma split_nonempty: "split_commas p \<noteq> []"
  by (cases p) (auto split: list.split)

lemma entries_Nil [simp]: "entries_of [] = []"
  by (simp add: entries_of_def trimmed_def trim_end_def)

lemma entries_comma: "entries_of (CHR '','' # p) = entries_of p"
  by (simp add: entries_of_def trimmed_def trim_end_def)

lemma entries_blank: "blank_char b \<Longrightarrow> entries_of (b # p) = entries_of p"
  using split_nonempty [of p]
  by (auto simp: entries_of_def trimmed_def blank_char_def split: list.splits)

lemma entries_separators: "entries_of (dropWhile separator_char p) = entries_of p"
proof (induction p)
  case (Cons c p)
  then show ?case by (auto simp: separator_char_def entries_comma entries_blank blank_char_def)
qed simp

lemma split_first:
  "split_commas p = takeWhile (\<lambda>c. c \<noteq> CHR '','') p #
     (case dropWhile (\<lambda>c. c \<noteq> CHR '','') p of [] \<Rightarrow> [] | _ # rest \<Rightarrow> split_commas rest)"
  by (induction p) auto

lemma entries_first:
  assumes "start = [] \<or> \<not> separator_char (hd start)"
  shows "entries_of start = (let tok = trim_end (takeWhile (\<lambda>c. c \<noteq> CHR '','') start);
      rest = dropWhile (\<lambda>c. c \<noteq> CHR '','') start in if tok = [] then entries_of rest else tok # entries_of rest)"
proof -
  let ?tok = "takeWhile (\<lambda>c. c \<noteq> CHR '','') start" and ?rest = "dropWhile (\<lambda>c. c \<noteq> CHR '','') start"
  have "dropWhile blank_char ?tok = ?tok"
    using assms by (cases start) (auto simp: separator_char_def blank_char_def)
  then have tok: "trimmed ?tok = trim_end ?tok" by (simp add: trimmed_def)
  have rest: "entries_of ?rest = filter (\<lambda>f. f \<noteq> []) (map trimmed (case ?rest of [] \<Rightarrow> [] | _ # rest \<Rightarrow> split_commas rest))"
  proof (cases ?rest)
    case (Cons c cs)
    then have "c = CHR '',''" using hd_dropWhile [of "\<lambda>c. c \<noteq> CHR '',''" start] by simp
    then show ?thesis using Cons by (simp only: entries_comma list.case) (simp add: entries_of_def)
  next
    case Nil
    then show ?thesis by (simp only: list.case entries_Nil) simp
  qed
  show ?thesis
    by (subst entries_of_def, subst split_first) (simp only: list.map filter.simps tok rest Let_def split: if_split, blast)
qed

section \<open>The parser\<close>

fun add_entries :: "bool \<Rightarrow> string list \<Rightarrow> idx_quote_set \<Rightarrow> idx_quote_set result" where
  "add_entries calloc_ok [] quotes = Inr quotes"
| "add_entries calloc_ok (tok # toks) quotes =
     (if length tok \<ge> IDX_PUBKEY_STR_MAX then Inl IDX_ERR_RANGE
      else idx_try (add_entry calloc_ok quotes tok) (add_entries calloc_ok toks))"

lemma parse_entries_eq: "parse_entries calloc_ok p quotes = add_entries calloc_ok (entries_of p) quotes"
proof (induction calloc_ok p quotes rule: parse_entries.induct)
  case (1 calloc_ok p quotes)
  show ?case
  proof (cases "p = []")
    case False
    define start where "start = dropWhile separator_char p"
    define tok where "tok = trim_end (takeWhile (\<lambda>c. c \<noteq> CHR '','') start)"
    define rest where "rest = dropWhile (\<lambda>c. c \<noteq> CHR '','') start"
    have "start = [] \<or> \<not> separator_char (hd start)" unfolding start_def using hd_dropWhile by blast
    then have "entries_of start = (if tok = [] then entries_of rest else tok # entries_of rest)"
      using entries_first [of start] by (simp only: Let_def tok_def [symmetric] rest_def [symmetric])
    then have entries: "entries_of p = (if tok = [] then entries_of rest else tok # entries_of rest)"
      using entries_separators [of p] by (simp add: start_def)
    have parse: "parse_entries calloc_ok p quotes = (if tok = [] then parse_entries calloc_ok rest quotes
        else if length tok \<ge> IDX_PUBKEY_STR_MAX then Inl IDX_ERR_RANGE
        else (case add_entry calloc_ok quotes tok of Inl e \<Rightarrow> Inl e | Inr quotes \<Rightarrow> parse_entries calloc_ok rest quotes))"
      using False unfolding tok_def rest_def start_def by (subst parse_entries.simps) (simp add: Let_def)
    note IH = 1 [OF False start_def tok_def rest_def]
    show ?thesis
    proof (cases "tok = []")
      case True
      then show ?thesis using IH(1) parse entries by simp
    next
      case ne: False
      show ?thesis
      proof (cases "length tok \<ge> IDX_PUBKEY_STR_MAX")
        case True
        then show ?thesis using ne parse entries by simp
      next
        case short: False
        show ?thesis
        proof (cases "add_entry calloc_ok quotes tok")
          case (Inr quotes')
          then show ?thesis using ne short parse entries IH(2) [OF ne short Inr] by simp
        qed (use ne short parse entries in simp)
      qed
    qed
  qed (simp add: parse_entries.simps)
qed

text \<open>What an entry names, if anything.\<close>

definition named_quote :: "bool \<Rightarrow> string \<Rightarrow> idx_quote_mint option" where
  "named_quote calloc_ok tok =
     (if length tok \<ge> IDX_PUBKEY_STR_MAX then None
      else case find (\<lambda>(nam, kind, mnt). strcaseeq tok nam) k_named_quotes of
        Some (nam, kind, mnt) \<Rightarrow> (case idx_pubkey_from_base58 calloc_ok (Some mnt) of
          Inl _ \<Rightarrow> None | Inr k \<Rightarrow> Some \<lparr>qm_mint = k, qm_kind = kind\<rparr>)
      | None \<Rightarrow> (case idx_pubkey_from_base58 calloc_ok (Some tok) of
          Inl _ \<Rightarrow> None | Inr k \<Rightarrow> Some \<lparr>qm_mint = k, qm_kind = IDX_QUOTE_OTHER\<rparr>))"

text \<open>The first mention of every mint.\<close>

fun first_mentions :: "idx_quote_mint list \<Rightarrow> idx_quote_set \<Rightarrow> idx_quote_set" where
  "first_mentions [] quotes = quotes"
| "first_mentions (q # qs) quotes =
     first_mentions qs (if qm_mint q \<in> qm_mint ` set quotes then quotes else quotes @ [q])"

definition quotes_ok :: "idx_quote_set \<Rightarrow> bool" where
  "quotes_ok quotes \<longleftrightarrow> list_all (\<lambda>q. key_ok (qm_mint q)) quotes \<and> distinct (map qm_mint quotes) \<and>
     length quotes \<le> IDX_QUOTE_SET_MAX"

lemma add_quote_eq:
  assumes "quotes_ok quotes" "key_ok k"
  shows "add_quote quotes k kind =
     (if k \<in> qm_mint ` set quotes then Inr quotes
      else if length quotes \<ge> IDX_QUOTE_SET_MAX then Inl IDX_ERR_RANGE
      else Inr (quotes @ [\<lparr>qm_mint = k, qm_kind = kind\<rparr>]))"
proof -
  have "list_ex (\<lambda>q. idx_pubkey_equal (qm_mint q) k) quotes \<longleftrightarrow> k \<in> qm_mint ` set quotes"
    using assms by (auto simp: list_ex_iff quotes_ok_def list_all_iff idx_pubkey_equal_iff)
  then show ?thesis by (simp add: add_quote_def)
qed

lemma add_entry_eq:
  assumes "length tok < IDX_PUBKEY_STR_MAX"
  shows "(case named_quote calloc_ok tok of
      Some q \<Rightarrow> key_ok (qm_mint q) \<and> add_entry calloc_ok quotes tok = add_quote quotes (qm_mint q) (qm_kind q)
    | None \<Rightarrow> \<exists>e. add_entry calloc_ok quotes tok = Inl e)"
  using assms by (auto simp: named_quote_def add_entry_def dest: pubkey_from_base58_ok split: option.splits sum.splits)

lemma first_mentions_length: "length quotes \<le> length (first_mentions qs quotes)"
proof (induction qs arbitrary: quotes)
  case (Cons q qs)
  then show ?case using Cons [of "quotes @ [q]"] by (simp add: Suc_leD)
qed simp

lemma add_entries_eq:
  "quotes_ok quotes \<Longrightarrow>
     (case those (map (named_quote calloc_ok) toks) of
        Some qs \<Rightarrow> if length (first_mentions qs quotes) \<le> IDX_QUOTE_SET_MAX
          then add_entries calloc_ok toks quotes = Inr (first_mentions qs quotes) \<and> quotes_ok (first_mentions qs quotes)
          else \<exists>e. add_entries calloc_ok toks quotes = Inl e
      | None \<Rightarrow> \<exists>e. add_entries calloc_ok toks quotes = Inl e)"
proof (induction toks arbitrary: quotes)
  case Nil
  then show ?case by (simp add: quotes_ok_def)
next
  case (Cons tok toks)
  show ?case
  proof (cases "named_quote calloc_ok tok")
    case None
    then show ?thesis using add_entry_eq [of tok calloc_ok quotes] by (auto simp: not_le)
  next
    case (Some q)
    then have short: "length tok < IDX_PUBKEY_STR_MAX" by (auto simp: named_quote_def split: if_splits)
    then have add: "key_ok (qm_mint q)" "add_entry calloc_ok quotes tok = add_quote quotes (qm_mint q) (qm_kind q)"
      using add_entry_eq [OF short, of calloc_ok quotes] Some by simp_all
    have q: "\<lparr>qm_mint = qm_mint q, qm_kind = qm_kind q\<rparr> = q" by simp
    note eq = add(2) [unfolded add_quote_eq [OF Cons.prems add(1)] q]
    consider "qm_mint q \<in> qm_mint ` set quotes"
      | "qm_mint q \<notin> qm_mint ` set quotes" "length quotes < IDX_QUOTE_SET_MAX"
      | "qm_mint q \<notin> qm_mint ` set quotes" "IDX_QUOTE_SET_MAX \<le> length quotes" by linarith
    then show ?thesis
    proof cases
      case 1
      then show ?thesis using Cons.IH [OF Cons.prems] eq Some short by (auto split: option.splits)
    next
      case 2
      then have "quotes_ok (quotes @ [q])" using Cons.prems add(1) by (auto simp: quotes_ok_def)
      from Cons.IH [OF this] show ?thesis using 2 eq Some short by (auto split: option.splits)
    next
      case 3
      have "length (quotes @ [q]) \<le> length (first_mentions qs (quotes @ [q]))" for qs by (rule first_mentions_length)
      then have "\<not> length (first_mentions qs (quotes @ [q])) \<le> IDX_QUOTE_SET_MAX" for qs
        using 3(2) by (metis Suc_le_eq length_append_singleton not_le order_trans)
      then show ?thesis using 3 eq Some short by (auto split: option.splits)
    qed
  qed
qed

section \<open>The built-in mints\<close>

lemma digits_known: "number_of_bytes k = value_of 58 ds \<Longrightarrow> list_all (\<lambda>d. d < 58) ds \<Longrightarrow> ds \<noteq> [] \<Longrightarrow> last ds \<noteq> 0 \<Longrightarrow>
   digits_of 58 (number_of_bytes k) = ds"
  using digits_of_value [of 58 ds] by (auto simp: list_all_iff)

lemma key_of_text:
  assumes "key_ok k" "idx_pubkey_to_base58 calloc_ok (Some k) = Inr t"
  shows "idx_pubkey_from_base58 calloc_ok (Some t) = Inr k"
proof -
  have "\<exists>t. idx_base58_encode calloc_ok k (44 + 1) = Inr t \<and> length t \<le> 44 \<and>
      idx_base58_decode_exact calloc_ok (Some t) (length k) = Inr k"
    using assms(1) by (intro exact_roundtrip) (simp_all add: key_ok_def IDX_PUBKEY_LEN_def idx_base58_encoded_max_def)
  then show ?thesis using assms
    by (auto simp: key_ok_def idx_pubkey_slice_def idx_pubkey_from_base58_def IDX_PUBKEY_LEN_def IDX_PUBKEY_STR_MAX_def)
qed

definition KEY_USDC :: idx_pubkey where
  "KEY_USDC = [
     0xc6, 0xfa, 0x7a, 0xf3, 0xbe, 0xdb, 0xad, 0x3a, 0x3d, 0x65, 0xf3, 0x6a, 0xab, 0xc9,
     0x74, 0x31, 0xb1, 0xbb, 0xe4, 0xc2, 0xd2, 0xf6, 0xe0, 0xe4, 0x7c, 0xa6, 0x02, 0x03,
     0x45, 0x2f, 0x5d, 0x61]"

definition KEY_USDT :: idx_pubkey where
  "KEY_USDT = [
     0xce, 0x01, 0x0e, 0x60, 0xaf, 0xed, 0xb2, 0x27, 0x17, 0xbd, 0x63, 0x19, 0x2f, 0x54,
     0x14, 0x5a, 0x3f, 0x96, 0x5a, 0x33, 0xbb, 0x82, 0xd2, 0xc7, 0x02, 0x9e, 0xb2, 0xce,
     0x1e, 0x20, 0x82, 0x64]"

definition KEY_USD1 :: idx_pubkey where
  "KEY_USD1 = [
     0x07, 0x07, 0x2f, 0x05, 0x4a, 0xb4, 0x8d, 0x98, 0x7d, 0xa4, 0xe5, 0x96, 0x9e, 0x63,
     0x2c, 0xdd, 0xf3, 0x8d, 0xd6, 0x41, 0x41, 0x34, 0x9d, 0xa4, 0x1b, 0x0b, 0x69, 0x5b,
     0x91, 0xd1, 0x5c, 0x3a]"

lemma digits_USDC:
  "digits_of 58 (number_of_bytes KEY_USDC) =
     [53, 0, 51, 12, 26, 56, 54, 32, 43, 15, 15, 13, 54, 3, 15, 7, 11, 47, 33, 34, 56, 57,
      55, 0, 21, 48, 1, 20, 37, 48, 25, 25, 48, 38, 52, 9, 4, 36, 36, 29, 14, 42, 22, 13]"
  by (rule digits_known) (simp_all add: number_of_bytes_def KEY_USDC_def)

lemma text_USDC: "idx_pubkey_to_base58 calloc_ok (Some KEY_USDC) = Inr ''EPjFWdd5AufqSSqeM2qN1xzybapC8G4wEGGkZwyTDt1v''"
  by (subst program_text [OF _ _ digits_USDC])
    (simp_all only: alphabet_nth rev.simps append.simps list.map, simp_all add: KEY_USDC_def)

lemma digits_USDT:
  "digits_of 58 (number_of_bytes KEY_USDT) =
     [10, 31, 21, 54, 45, 37, 10, 7, 37, 11, 35, 20, 0, 0, 31, 43, 21, 46, 11, 18, 3, 12,
      31, 14, 1, 16, 3, 14, 49, 38, 17, 44, 24, 13, 11, 33, 57, 49, 14, 20, 53, 8, 50, 13]"
  by (rule digits_known) (simp_all add: number_of_bytes_def KEY_USDT_def)

lemma text_USDT: "idx_pubkey_to_base58 calloc_ok (Some KEY_USDT) = Inr ''Es9vMFrzaCERmJfrF4H2FYD4KCoNkY11McCe8BenwNYB''"
  by (subst program_text [OF _ _ digits_USDT])
    (simp_all only: alphabet_nth rev.simps append.simps list.map, simp_all add: KEY_USDT_def)

lemma digits_USD1:
  "digits_of 58 (number_of_bytes KEY_USD1) =
     [10, 52, 44, 13, 53, 57, 23, 41, 31, 48, 40, 49, 13, 25, 27, 10, 24, 51, 38, 34, 56, 33,
      46, 19, 13, 44, 19, 16, 13, 13, 21, 6, 0, 21, 0, 31, 15, 51, 51, 0, 12, 25, 27]"
  by (rule digits_known) (simp_all add: number_of_bytes_def KEY_USD1_def)

lemma text_USD1: "idx_pubkey_to_base58 calloc_ok (Some KEY_USD1) = Inr ''USD1ttGY1N17NEEHLmELoaybftRBUSErhqYiQzvEmuB''"
  by (subst program_text [OF _ _ digits_USD1])
    (simp_all only: alphabet_nth rev.simps append.simps list.map, simp_all add: KEY_USD1_def)

lemma digits_WSOL:
  "digits_of 58 (number_of_bytes IDX_MINT_WSOL) =
     [1, 0, 0, 0, 0, 0, 0, 0, 0, 0, 0, 0, 0, 0, 0, 0, 0, 0, 0, 0, 0, 0,
      0, 0, 0, 0, 0, 0, 0, 0, 0, 0, 0, 0, 0, 0, 0, 0, 0, 0, 0, 46, 25]"
  by (rule digits_known) (simp_all add: number_of_bytes_def IDX_MINT_WSOL_def)

lemma text_WSOL: "idx_pubkey_to_base58 calloc_ok (Some IDX_MINT_WSOL) = Inr ''So11111111111111111111111111111111111111112''"
  by (subst program_text [OF _ _ digits_WSOL])
    (simp_all only: alphabet_nth rev.simps append.simps list.map, simp_all add: IDX_MINT_WSOL_def)

lemma quote_keys_ok [simp]: "key_ok KEY_USDC" "key_ok KEY_USDT" "key_ok KEY_USD1"
  by (simp_all add: key_ok_def IDX_PUBKEY_LEN_def KEY_USDC_def KEY_USDT_def KEY_USD1_def)

lemma tolower_ascii:
  "tolower CHR ''u'' = CHR ''u''" "tolower CHR ''s'' = CHR ''s''" "tolower CHR ''d'' = CHR ''d''" "tolower CHR ''c'' = CHR ''c''" "tolower CHR ''t'' = CHR ''t''" "tolower CHR ''1'' = CHR ''1''" "tolower CHR ''o'' = CHR ''o''" "tolower CHR ''l'' = CHR ''l''" "tolower CHR ''w'' = CHR ''w''"
  by (simp_all add: tolower_def)

lemma default_entries: "entries_of ''usdc,usdt,usd1,sol'' = [''usdc'', ''usdt'', ''usd1'', ''sol'']"
  by (simp add: entries_of_def trimmed_def trim_end_def blank_char_def)

lemma named_defaults:
  "named_quote calloc_ok ''usdc'' = Some \<lparr>qm_mint = KEY_USDC, qm_kind = IDX_QUOTE_USDC\<rparr>"
  "named_quote calloc_ok ''usdt'' = Some \<lparr>qm_mint = KEY_USDT, qm_kind = IDX_QUOTE_USDT\<rparr>"
  "named_quote calloc_ok ''usd1'' = Some \<lparr>qm_mint = KEY_USD1, qm_kind = IDX_QUOTE_USD1\<rparr>"
  "named_quote calloc_ok ''sol'' = Some \<lparr>qm_mint = IDX_MINT_WSOL, qm_kind = IDX_QUOTE_SOL\<rparr>"
  using key_of_text [OF _ text_USDC] key_of_text [OF _ text_USDT] key_of_text [OF _ text_USD1] key_of_text [OF _ text_WSOL]
  by (simp_all add: named_quote_def IDX_PUBKEY_STR_MAX_def k_named_quotes_def strcaseeq_def tolower_ascii)

section \<open>Properties\<close>

text \<open>
  C19: A quote list means its entries. Parsing a list yields a set exactly when every entry
  between commas, blanks around it and empty ones aside, is a well-known name or a key and at
  most sixteen mints are named; the set then is the first mention of every mint in the order
  of the list, all different. The built-in default is USDC, USDT, USD1 and wrapped SOL, in
  that order.
\<close>

theorem quote_set_parse_iff:
  "(idx_quote_set_parse calloc_ok (Some junk) (Some spec) = Inr quotes \<longleftrightarrow>
     (\<exists>qs. those (map (named_quote calloc_ok) (entries_of spec)) = Some qs \<and> quotes = first_mentions qs [] \<and>
        length quotes \<le> IDX_QUOTE_SET_MAX \<and> quotes_ok quotes)) \<and>
   idx_quote_set_defaults calloc_ok (Some junk) = Some
     [\<lparr>qm_mint = KEY_USDC, qm_kind = IDX_QUOTE_USDC\<rparr>, \<lparr>qm_mint = KEY_USDT, qm_kind = IDX_QUOTE_USDT\<rparr>,
      \<lparr>qm_mint = KEY_USD1, qm_kind = IDX_QUOTE_USD1\<rparr>, \<lparr>qm_mint = IDX_MINT_WSOL, qm_kind = IDX_QUOTE_SOL\<rparr>]"
proof
  have empty: "quotes_ok []" by (simp add: quotes_ok_def)
  note add = add_entries_eq [OF empty, of calloc_ok "entries_of spec"]
  show "idx_quote_set_parse calloc_ok (Some junk) (Some spec) = Inr quotes \<longleftrightarrow>
     (\<exists>qs. those (map (named_quote calloc_ok) (entries_of spec)) = Some qs \<and> quotes = first_mentions qs [] \<and>
        length quotes \<le> IDX_QUOTE_SET_MAX \<and> quotes_ok quotes)"
    using add by (cases "those (map (named_quote calloc_ok) (entries_of spec))")
      (auto simp: parse_entries_eq split: if_splits)
  have "[] \<noteq> KEY_USDC" "KEY_USDC \<noteq> KEY_USDT" "KEY_USDC \<noteq> KEY_USD1" "KEY_USDC \<noteq> IDX_MINT_WSOL" "KEY_USDT \<noteq> KEY_USD1"
    "KEY_USDT \<noteq> IDX_MINT_WSOL" "KEY_USD1 \<noteq> IDX_MINT_WSOL"
    by (simp_all add: KEY_USDC_def KEY_USDT_def KEY_USD1_def IDX_MINT_WSOL_def)
  then show "idx_quote_set_defaults calloc_ok (Some junk) = Some
     [\<lparr>qm_mint = KEY_USDC, qm_kind = IDX_QUOTE_USDC\<rparr>, \<lparr>qm_mint = KEY_USDT, qm_kind = IDX_QUOTE_USDT\<rparr>,
      \<lparr>qm_mint = KEY_USD1, qm_kind = IDX_QUOTE_USD1\<rparr>, \<lparr>qm_mint = IDX_MINT_WSOL, qm_kind = IDX_QUOTE_SOL\<rparr>]"
    using add_entries_eq [OF empty, of calloc_ok "entries_of ''usdc,usdt,usd1,sol''"]
    by (auto simp: idx_quote_set_defaults_def parse_entries_eq default_entries named_defaults IDX_QUOTE_SET_MAX_def)
qed

end
