(* ===== verification/Prices.thy ===== *)
theory Prices
  imports Price
begin

text \<open>
  What a price is worth: it does not depend on the direction of the trade, its double is close
  to the exact quotient, and it never leaves the normal range.
\<close>

section \<open>Ranks\<close>

lemma idx_pubkey_equal_sym: "idx_pubkey_equal a b = idx_pubkey_equal b a"
  by (auto simp: idx_pubkey_equal_def)

lemma rank_same_mint: "idx_pubkey_equal a b \<Longrightarrow> quote_rank_from n quotes a = quote_rank_from n quotes b"
  by (induction quotes arbitrary: n) (auto simp: idx_pubkey_equal_def)

lemma rank_ge: "quote_rank_from n quotes a = Some (i, kind) \<Longrightarrow> n \<le> i"
  by (induction quotes arbitrary: n) (force split: if_splits)+

lemma rank_entry:
  "quote_rank_from n quotes a = Some (i, kind) \<Longrightarrow>
     i - n < length quotes \<and> idx_pubkey_equal (qm_mint (quotes ! (i - n))) a \<and> kind = qm_kind (quotes ! (i - n))"
proof (induction quotes arbitrary: n)
  case (Cons q quotes)
  then show ?case using rank_ge [of "Suc n" quotes a i kind]
    by (fastforce split: if_splits simp: nth_Cons' Suc_diff_le)
qed simp

lemma rank_differs:
  assumes "\<not> idx_pubkey_equal a b" "quote_rank quotes a = Some (i, k)" "quote_rank quotes b = Some (j, l)"
  shows "i \<noteq> j"
proof
  assume "i = j"
  then show False
    using rank_entry [OF assms(2) [unfolded quote_rank_def]] rank_entry [OF assms(3) [unfolded quote_rank_def]] assms(1)
    by (simp add: idx_pubkey_equal_def)
qed

section \<open>The direction of a trade\<close>

definition reversed :: "idx_swap_row \<Rightarrow> idx_swap_row" where
  "reversed row = row\<lparr>rw_input_mint := rw_output_mint row, rw_has_input_mint := rw_has_output_mint row,
     rw_input_amount := rw_output_amount row, rw_has_input_amount := rw_has_output_amount row,
     rw_input_decimals := rw_output_decimals row, rw_has_input_decimals := rw_has_output_decimals row,
     rw_output_mint := rw_input_mint row, rw_has_output_mint := rw_has_input_mint row,
     rw_output_amount := rw_input_amount row, rw_has_output_amount := rw_has_input_amount row,
     rw_output_decimals := rw_input_decimals row, rw_has_output_decimals := rw_has_input_decimals row\<rparr>"

lemma reversed_sides:
  "rw_input_mint (reversed row) = rw_output_mint row" "rw_output_mint (reversed row) = rw_input_mint row"
  "rw_has_input_mint (reversed row) = rw_has_output_mint row" "rw_has_output_mint (reversed row) = rw_has_input_mint row"
  "rw_input_amount (reversed row) = rw_output_amount row" "rw_output_amount (reversed row) = rw_input_amount row"
  "rw_has_input_amount (reversed row) = rw_has_output_amount row" "rw_has_output_amount (reversed row) = rw_has_input_amount row"
  "rw_input_decimals (reversed row) = rw_output_decimals row" "rw_output_decimals (reversed row) = rw_input_decimals row"
  "rw_has_input_decimals (reversed row) = rw_has_output_decimals row"
  "rw_has_output_decimals (reversed row) = rw_has_input_decimals row"
  by (simp_all add: reversed_def)

lemma double_reversed: "reversed (reversed row) = row"
  by (simp add: reversed_def)

text \<open>The price of a row whose input is the quote; the other direction is this of the reversed row.\<close>

definition input_quoted :: "idx_swap_row \<Rightarrow> idx_quote \<Rightarrow> idx_price" where
  "input_quoted row kind =
     (let out = zero_price\<lparr>pr_priced := True, pr_quote := kind, pr_quote_mint := rw_input_mint row,
        pr_quote_amount := rw_input_amount row, pr_quote_decimals := rw_input_decimals row,
        pr_base_mint := rw_output_mint row, pr_base_amount := rw_output_amount row,
        pr_base_decimals := rw_output_decimals row\<rparr>
      in if rw_has_output_mint row \<and> (rw_has_input_amount row \<and> rw_has_output_amount row) \<and>
           (rw_has_input_decimals row \<and> rw_has_output_decimals row) \<and> rw_output_amount row \<noteq> 0
         then out\<lparr>pr_price := price_number out, pr_has_price := True\<rparr> else out)"

lemma price_by_input:
  "idx_price_of_swap (Some quotes) (Some row) =
     (let i = (if rw_has_input_mint row then quote_rank quotes (rw_input_mint row) else None);
          j = (if rw_has_output_mint row then quote_rank quotes (rw_output_mint row) else None)
      in if i = None \<and> j = None then (False, zero_price)
         else (True, if quote_is_input i j then input_quoted row (snd (the i))
                     else input_quoted (reversed row) (snd (the j))))"
proof -
  define i where "i = (if rw_has_input_mint row then quote_rank quotes (rw_input_mint row) else None)"
  define j where "j = (if rw_has_output_mint row then quote_rank quotes (rw_output_mint row) else None)"
  note ranks = i_def [symmetric] j_def [symmetric]
  show ?thesis
    by (cases "quote_is_input i j"; cases "rw_has_input_amount row"; cases "rw_has_input_decimals row")
      (simp_all add: ranks input_quoted_def Let_def zero_price_def reversed_sides)
qed

lemma quote_reversed:
  assumes "i_rank \<noteq> None \<or> o_rank \<noteq> None" "\<And>i k l. i_rank = Some (i, k) \<Longrightarrow> o_rank \<noteq> Some (i, l)"
  shows "quote_is_input o_rank i_rank \<longleftrightarrow> \<not> quote_is_input i_rank o_rank"
  using assms by (cases i_rank; cases o_rank) (force simp: quote_is_input_def)+

section \<open>The number\<close>

definition exact_price :: "idx_price \<Rightarrow> rat" where
  "exact_price p = (of_nat (unat (pr_quote_amount p)) / 10 ^ unat (pr_quote_decimals p)) /
     (of_nat (unat (pr_base_amount p)) / 10 ^ unat (pr_base_decimals p))"

lemma amount_nonneg: "(0 :: rat) \<le> of_nat n"
  by simp

lemma close_amount: "close_to 1 (amount_value w) (of_nat (unat w))"
  unfolding amount_value_def One_nat_def by (rule close_to_round [OF close_to_refl amount_nonneg])

lemma amount_value_nonneg: "0 \<le> amount_value w"
  unfolding amount_value_def by (rule to_double_nonneg [OF amount_nonneg])

lemma close_scaled:
  assumes "unat d \<le> 22"
  shows "close_to 2 (scaled_value w d) (of_nat (unat w) / 10 ^ unat d)"
proof -
  note n = amount_value_nonneg [of w]
  have "close_to (1 + 0) (amount_value w / 10 ^ unat d) (of_nat (unat w) / 10 ^ unat d)"
    by (rule close_to_divide [OF close_amount close_to_refl amount_nonneg _ n]) simp_all
  then show ?thesis using close_to_round [of 1] n pow10_exact [OF assms] by (simp add: scaled_value_def numeral_2_eq_2)
qed

lemma scaled_value_nonneg: "0 \<le> scaled_value w d"
  unfolding scaled_value_def
  using pow10_range [of "unat d"] by (intro to_double_nonneg divide_nonneg_pos amount_value_nonneg) simp

lemma scaled_value_pos: "0 < unat w \<Longrightarrow> 0 < scaled_value w d"
  by (rule less_le_trans [OF _ scaled_range(1)]) simp_all

lemma close_five:
  assumes "close_to 5 x y" "0 \<le> x" "0 \<le> y"
  shows "\<bar>x - y\<bar> \<le> y / 2 ^ 50"
proof -
  let ?c = "(1 - half_ulp) ^ 5"
  have c: "1 - 1 / 2 ^ 50 \<le> ?c" "1 \<le> (1 + 1 / 2 ^ 50) * ?c"
    unfolding half_ulp_def by code_simp+
  have "y * (1 - 1 / 2 ^ 50) \<le> y * ?c" using c(1) assms(3) by (rule mult_left_mono)
  also have "\<dots> \<le> x" using assms(1) by (simp add: close_to_def)
  finally have low: "y - x \<le> y / 2 ^ 50" by (simp add: algebra_simps)
  have "x * 1 \<le> x * ((1 + 1 / 2 ^ 50) * ?c)" using c(2) assms(2) by (rule mult_left_mono)
  also have "\<dots> = (1 + 1 / 2 ^ 50) * (x * ?c)" by (simp only: mult_ac)
  also have "\<dots> \<le> (1 + 1 / 2 ^ 50) * y" using assms(1) by (intro mult_left_mono) (simp_all add: close_to_def)
  finally have "x - y \<le> y / 2 ^ 50" by (simp add: algebra_simps)
  then show ?thesis using low by linarith
qed

lemma scaled_nonneg: "(0 :: rat) \<le> of_nat n / 10 ^ m"
  by simp

lemma scaled_gt_0: "0 < n \<Longrightarrow> (0 :: rat) < of_nat n / 10 ^ m"
  by simp

text \<open>The price computed on finite values, and that this is what the code's divisions give.\<close>

definition price_value :: "idx_price \<Rightarrow> double" where
  "price_value p = to_double (scaled_value (pr_quote_amount p) (pr_quote_decimals p) /
     scaled_value (pr_base_amount p) (pr_base_decimals p))"

lemma price_value_close:
  assumes "unat (pr_quote_decimals p) \<le> 22" "unat (pr_base_decimals p) \<le> 22" "pr_base_amount p \<noteq> 0"
  shows "\<bar>price_value p - exact_price p\<bar> \<le> exact_price p / 2 ^ 50"
proof -
  let ?q = "scaled_value (pr_quote_amount p) (pr_quote_decimals p)"
  let ?b = "scaled_value (pr_base_amount p) (pr_base_decimals p)"
  have base: "0 < unat (pr_base_amount p)" using assms(3) by (simp add: unat_gt_0)
  note q = scaled_value_nonneg [of "pr_quote_amount p" "pr_quote_decimals p"] and b = scaled_value_pos [OF base]
  have "close_to (2 + 2) (?q / ?b) (exact_price p)"
    unfolding exact_price_def
    by (rule close_to_divide [OF close_scaled [OF assms(1)] close_scaled [OF assms(2)] scaled_nonneg scaled_gt_0 [OF base] q b])
  moreover have pos: "0 \<le> ?q / ?b" using q b by (intro divide_nonneg_pos)
  ultimately have "close_to 5 (price_value p) (exact_price p)"
    using close_to_round [of 4 "?q / ?b"] by (simp add: price_value_def)
  moreover have "0 \<le> price_value p" unfolding price_value_def by (rule to_double_nonneg [OF pos])
  moreover have "0 \<le> exact_price p" unfolding exact_price_def by (rule divide_nonneg_nonneg [OF scaled_nonneg scaled_nonneg])
  ultimately show ?thesis by (rule close_five)
qed

lemma price_quotient_range:
  assumes "pr_base_amount p \<noteq> 0" "pr_quote_amount p \<noteq> 0"
  defines "x \<equiv> scaled_value (pr_quote_amount p) (pr_quote_decimals p) / scaled_value (pr_base_amount p) (pr_base_decimals p)"
  shows "1 / 2 ^ 902 / 2 ^ 66 \<le> x" "x \<le> 2 ^ 66 / (1 / 2 ^ 902)"
proof -
  have "0 < unat (pr_base_amount p)" "0 < unat (pr_quote_amount p)" using assms by (simp_all add: unat_gt_0)
  note b = scaled_range [OF this(1), of "pr_base_decimals p"] and q = scaled_range [OF this(2), of "pr_quote_decimals p"]
  have pos: "0 < scaled_value (pr_base_amount p) (pr_base_decimals p)" by (rule less_le_trans [OF _ b(1)]) simp
  show "1 / 2 ^ 902 / 2 ^ 66 \<le> x" unfolding x_def using frac_le [OF _ q(1) pos b(2)] q(1) by simp
  show "x \<le> 2 ^ 66 / (1 / 2 ^ 902)" unfolding x_def using frac_le [OF _ q(2) _ b(1)] by simp
qed

lemma price_value_range:
  assumes "pr_base_amount p \<noteq> 0" "pr_quote_amount p \<noteq> 0"
  shows "1 / 2 ^ 1000 \<le> price_value p \<and> price_value p \<le> 2 ^ 1000"
proof -
  have r: "1 / 2 ^ 902 / 2 ^ 66 / 2 \<le> price_value p" "price_value p \<le> 2 * (2 ^ 66 / (1 / 2 ^ 902))"
    using to_double_between [OF _ price_quotient_range [OF assms]] unfolding price_value_def
    by (simp_all only: zero_le_divide_iff zero_le_one zero_le_power zero_le_numeral simp_thms)
  have e: "(1 :: rat) / 2 ^ 1000 \<le> 1 / 2 ^ 902 / 2 ^ 66 / 2" "2 * (2 ^ 66 / (1 / 2 ^ 902)) \<le> (2 :: rat) ^ 1000"
    by simp_all
  show ?thesis using order_trans [OF e(1) r(1)] order_trans [OF r(2) e(2)] by (rule conjI)
qed

lemma price_zero: "pr_quote_amount p = 0 \<Longrightarrow> price_value p = 0"
  by (simp add: price_value_def scaled_zero to_double_def)

lemma price_number_finite:
  assumes "pr_base_amount p \<noteq> 0"
  shows "price_number p = Finite (price_value p)"
proof -
  let ?q = "scaled_value (pr_quote_amount p) (pr_quote_decimals p)"
  let ?b = "scaled_value (pr_base_amount p) (pr_base_decimals p)"
  have "?b \<noteq> 0" using scaled_value_pos [of "pr_base_amount p" "pr_base_decimals p"] assms by (simp add: unat_gt_0)
  moreover have "?q / ?b = 0 \<or> 1 / 2 ^ 1022 \<le> ?q / ?b \<and> ?q / ?b \<le> 2 ^ 1022"
  proof (cases "pr_quote_amount p = 0")
    case True
    then show ?thesis by (simp add: scaled_zero)
  next
    case False
    have e: "(1 :: rat) / 2 ^ 1022 \<le> 1 / 2 ^ 902 / 2 ^ 66" "2 ^ 66 / (1 / 2 ^ 902) \<le> (2 :: rat) ^ 1022" by simp_all
    show ?thesis using price_quotient_range [OF assms False] order_trans [OF e(1)] order_trans [OF _ e(2)] by blast
  qed
  note rounded_normal [OF this]
  ultimately show ?thesis by (simp add: price_number_def Let_def scaled_finite price_value_def)
qed

lemma price_shape:
  assumes "idx_price_of_swap (Some quotes) (Some row) = (res, p)" "pr_has_price p"
  shows "res \<and> pr_price p = price_number p \<and> pr_base_amount p \<noteq> 0"
  using assms by (auto simp: Let_def zero_price_def price_number_def split: if_splits)

section \<open>Properties\<close>

text \<open>
  a price does not know which way the trade went: swapping the two sides of a row gives
  the same record, as long as the two mints differ (the same mint on both sides would be quote
  and base at once).\<close>
theorem price_direction_independent:
  assumes "rw_has_input_mint row \<and> rw_has_output_mint row \<longrightarrow>
    \<not> idx_pubkey_equal (rw_input_mint row) (rw_output_mint row)"
  shows "idx_price_of_swap (Some quotes) (Some (reversed row)) = idx_price_of_swap (Some quotes) (Some row)" (is "?lhs = ?rhs")
proof -
  define i_rank where "i_rank = (if rw_has_input_mint row then quote_rank quotes (rw_input_mint row) else None)"
  define o_rank where "o_rank = (if rw_has_output_mint row then quote_rank quotes (rw_output_mint row) else None)"
  have turned: "quote_is_input o_rank i_rank \<longleftrightarrow> \<not> quote_is_input i_rank o_rank" if "i_rank \<noteq> None \<or> o_rank \<noteq> None"
    using that by (rule quote_reversed) (use assms in \<open>auto simp: i_rank_def o_rank_def split: if_splits dest: rank_differs\<close>)
  note ranks = i_rank_def [symmetric] o_rank_def [symmetric]
  show ?thesis
    unfolding price_by_input reversed_sides ranks double_reversed Let_def
    using turned by (cases "i_rank = None \<and> o_rank = None") (simp_all add: conj_commute)
qed

text \<open>C15: when both tokens have at most 22 decimals (beyond that a power of ten is itself rounded),
  the double is within \<open>2 ^ -50\<close>, relatively, of the exact quotient of the two amounts.\<close>
theorem price_accurate:
  assumes "idx_price_of_swap (Some quotes) (Some row) = (res, p)" "pr_has_price p"
    "unat (pr_quote_decimals p) \<le> 22" "unat (pr_base_decimals p) \<le> 22"
  shows "\<exists>x. pr_price p = Finite x \<and> \<bar>x - exact_price p\<bar> \<le> exact_price p / 2 ^ 50"
  using price_shape [OF assms(1,2)] price_number_finite price_value_close [OF assms(3,4)] by auto

text \<open>C32: whatever the amounts and decimals, a price that is given is a finite number, and so is
  everything it is computed from: both powers of ten, both scaled amounts (the one divided by
  is positive) and the quotient. Nothing overflows, underflows, is infinite or not a number:
  each is zero, just when its amount is, or lies far inside the normal range.\<close>
theorem price_in_range:
  assumes "idx_price_of_swap (Some quotes) (Some row) = (res, p)" "pr_has_price p"
  shows "\<exists>ten_q ten_b quote base x.
    pow10_double (pr_quote_decimals p) = Finite ten_q \<and> pow10_double (pr_base_decimals p) = Finite ten_b \<and>
    1 \<le> ten_q \<and> ten_q \<le> 2 ^ 900 \<and> 1 \<le> ten_b \<and> ten_b \<le> 2 ^ 900 \<and>
    fp_div (double_of_u64 (pr_quote_amount p)) (Finite ten_q) = Finite quote \<and>
    fp_div (double_of_u64 (pr_base_amount p)) (Finite ten_b) = Finite base \<and>
    1 / 2 ^ 902 \<le> base \<and> base \<le> 2 ^ 66 \<and>
    fp_div (Finite quote) (Finite base) = Finite x \<and> pr_price p = Finite x \<and>
    (if pr_quote_amount p = 0 then quote = 0 \<and> x = 0
     else 1 / 2 ^ 902 \<le> quote \<and> quote \<le> 2 ^ 66 \<and> 1 / 2 ^ 1000 \<le> x \<and> x \<le> 2 ^ 1000)"
proof -
  let ?q = "scaled_value (pr_quote_amount p) (pr_quote_decimals p)"
  let ?b = "scaled_value (pr_base_amount p) (pr_base_decimals p)"
  have p: "pr_price p = price_number p" and base: "pr_base_amount p \<noteq> 0" using price_shape [OF assms] by simp_all
  have tens: "1 \<le> pow10_value (unat d) \<and> pow10_value (unat d) \<le> 2 ^ 900" for d :: byte
    using pow10_range pow10_below unsigned_less [of d, where 'a = nat] by simp
  have quot: "fp_div (Finite ?q) (Finite ?b) = Finite (price_value p)" and x: "pr_price p = Finite (price_value p)"
    using price_number_finite [OF base] p unfolding price_number_def Let_def scaled_finite by simp_all
  have "if pr_quote_amount p = 0 then ?q = 0 \<and> price_value p = 0
     else 1 / 2 ^ 902 \<le> ?q \<and> ?q \<le> 2 ^ 66 \<and> 1 / 2 ^ 1000 \<le> price_value p \<and> price_value p \<le> 2 ^ 1000"
    using scaled_range [of "pr_quote_amount p"] price_value_range [OF base] price_zero [of p]
    by (simp add: scaled_zero unat_gt_0)
  moreover have "1 / 2 ^ 902 \<le> ?b" "?b \<le> 2 ^ 66" using scaled_range [of "pr_base_amount p"] base by (simp_all add: unat_gt_0)
  ultimately show ?thesis
    using tens quot x pow10_double_finite scaled_finite [unfolded pow10_double_finite]
    by (intro exI [of _ "pow10_value (unat (pr_quote_decimals p))"] exI [of _ "pow10_value (unat (pr_base_decimals p))"]
        exI [of _ ?q] exI [of _ ?b] exI [of _ "price_value p"]) blast
qed

section \<open>Instances\<close>

definition usd :: idx_pubkey where "usd = replicate 32 1"
definition meme :: idx_pubkey where "meme = replicate 32 2"

text \<open>Twenty dollars (six decimals) for five tokens (two decimals).\<close>

definition sample_trade :: idx_swap_row where
  "sample_trade = zero_swap_row\<lparr>rw_has_input_mint := True, rw_input_mint := usd, rw_has_input_amount := True,
     rw_input_amount := 20000000, rw_has_input_decimals := True, rw_input_decimals := 6,
     rw_has_output_mint := True, rw_output_mint := meme, rw_has_output_amount := True,
     rw_output_amount := 500, rw_has_output_decimals := True, rw_output_decimals := 2\<rparr>"

definition dollars :: idx_quote_set where
  "dollars = [\<lparr>qm_mint = usd, qm_kind = IDX_QUOTE_USDC\<rparr>]"

definition sample_price :: idx_price where
  "sample_price = snd (idx_price_of_swap (Some dollars) (Some sample_trade))"

lemma other_mint: "idx_pubkey_equal usd usd" "\<not> idx_pubkey_equal usd meme"
  by (simp_all add: idx_pubkey_equal_def usd_def meme_def IDX_PUBKEY_LEN_def)

lemma sample_priced:
  "idx_price_of_swap (Some dollars) (Some sample_trade) = (True, sample_price)" "pr_has_price sample_price"
  "pr_quote_decimals sample_price = 6" "pr_base_decimals sample_price = 2"
  by (simp_all add: sample_price_def sample_trade_def dollars_def quote_rank_def other_mint quote_is_input_def
      zero_swap_row_def zero_price_def Let_def)

theorem price_direction_independent_witness:
  "idx_price_of_swap (Some dollars) (Some (reversed sample_trade)) = (True, sample_price)"
  using price_direction_independent [of sample_trade dollars] sample_priced(1) other_mint
  by (simp add: sample_trade_def del: idx_price_of_swap.simps)

theorem price_accurate_witness:
  "\<exists>x. pr_price sample_price = Finite x \<and> \<bar>x - exact_price sample_price\<bar> \<le> exact_price sample_price / 2 ^ 50"
  by (rule price_accurate [OF sample_priced(1,2)]) (simp_all add: sample_priced)

theorem price_in_range_witness:
  "\<exists>x. pr_price sample_price = Finite x \<and> 1 / 2 ^ 1000 \<le> x \<and> x \<le> 2 ^ 1000"
proof -
  have "pr_quote_amount sample_price \<noteq> 0"
    by (simp add: sample_price_def sample_trade_def dollars_def quote_rank_def other_mint quote_is_input_def
      zero_swap_row_def zero_price_def Let_def)
  then show ?thesis using price_in_range [OF sample_priced(1,2)] by auto
qed

end
