(* ===== verification/Bars.thy ===== *)
theory Bars
  imports Registry Price "HOL-Library.Signed_Division"
begin

text \<open>
  Price bars (\<^verbatim>\<open>src/bar.c\<close>, \<^verbatim>\<open>include/bar.h\<close>): the open, high, low, close and volume of the
  swaps of one pool in one time bucket, kept in a registry under a packed key, and rebuilt
  for the buckets a reorganisation of the chain touched.
\<close>

section \<open>Intervals and sequences\<close>

datatype idx_bar_interval = IDX_BAR_1S | IDX_BAR_1M | IDX_BAR_INTERVAL_COUNT

definition interval_number :: "idx_bar_interval \<Rightarrow> byte" where
  "interval_number interval = (case interval of IDX_BAR_1S \<Rightarrow> 0 | IDX_BAR_1M \<Rightarrow> 1 | IDX_BAR_INTERVAL_COUNT \<Rightarrow> 2)"

definition idx_bar_interval_name :: "idx_bar_interval \<Rightarrow> string" where
  "idx_bar_interval_name interval = (case interval of
      IDX_BAR_1S \<Rightarrow> ''1s'' | IDX_BAR_1M \<Rightarrow> ''1m'' | IDX_BAR_INTERVAL_COUNT \<Rightarrow> ''unknown'')"

definition idx_bar_interval_seconds :: "idx_bar_interval \<Rightarrow> 32 word" where
  "idx_bar_interval_seconds interval = (case interval of
      IDX_BAR_1S \<Rightarrow> 1 | IDX_BAR_1M \<Rightarrow> 60 | IDX_BAR_INTERVAL_COUNT \<Rightarrow> 0)"

record idx_bar_seq =
  sq_slot :: u64
  sq_transaction_index :: u16
  sq_instruction_index :: u16
  sq_inner_index :: u16
  sq_inner :: bool

definition idx_bar_seq_compare :: "idx_bar_seq \<Rightarrow> idx_bar_seq \<Rightarrow> int" where
  "idx_bar_seq_compare a b =
     (if sq_slot a \<noteq> sq_slot b then (if sq_slot a < sq_slot b then -1 else 1)
      else if sq_transaction_index a \<noteq> sq_transaction_index b
        then (if sq_transaction_index a < sq_transaction_index b then -1 else 1)
      else if sq_instruction_index a \<noteq> sq_instruction_index b
        then (if sq_instruction_index a < sq_instruction_index b then -1 else 1)
      else if sq_inner a \<noteq> sq_inner b then (if sq_inner a then 1 else -1)
      else if sq_inner_index a \<noteq> sq_inner_index b
        then (if sq_inner_index a < sq_inner_index b then -1 else 1)
      else 0)"

definition IDX_BAR_SEQ_KEY_LEN :: nat where "IDX_BAR_SEQ_KEY_LEN = 15"

definition idx_bar_seq_pack :: "idx_bar_seq \<Rightarrow> bytes" where
  "idx_bar_seq_pack sq =
     map (\<lambda>i. ucast (drop_bit (8 * (7 - i)) (sq_slot sq))) [0..<8] @
     [ucast (drop_bit 8 (sq_transaction_index sq)), ucast (sq_transaction_index sq),
      ucast (drop_bit 8 (sq_instruction_index sq)), ucast (sq_instruction_index sq),
      if sq_inner sq then 1 else 0,
      ucast (drop_bit 8 (sq_inner_index sq)), ucast (sq_inner_index sq)]"

section \<open>Bars and their registry\<close>

record idx_bar_input =
  in_pool :: idx_pubkey
  in_price :: idx_price
  in_block_time :: "64 word"
  in_seq :: idx_bar_seq

record idx_bar =
  ba_pool :: idx_pubkey
  ba_interval :: idx_bar_interval
  ba_bucket :: "64 word"
  ba_quote :: idx_quote
  ba_open :: double
  ba_high :: double
  ba_low :: double
  ba_close :: double
  ba_base_volume :: double
  ba_quote_volume :: double
  ba_swap_count :: "32 word"
  ba_open_seq :: idx_bar_seq
  ba_close_seq :: idx_bar_seq

type_synonym idx_bar_registry = "idx_bar registry"

definition idx_bar_registry_init :: "idx_bar_registry option \<Rightarrow> idx_bar_registry option" where
  "idx_bar_registry_init = map_option (\<lambda>_. registry_init)"

definition idx_bar_registry_free :: "idx_bar_registry option \<Rightarrow> idx_bar_registry option" where
  "idx_bar_registry_free = map_option registry_free"

text \<open>\<^verbatim>\<open>int64_t\<close> division truncates; the width is never zero for the intervals in use.\<close>

definition bucket_of :: "64 word \<Rightarrow> idx_bar_interval \<Rightarrow> 64 word" where
  "bucket_of time interval =
     (let width = uint (idx_bar_interval_seconds interval) in
      word_of_int ((sint time sdiv width) * width))"

definition BAR_KEY_LEN :: nat where "BAR_KEY_LEN = IDX_PUBKEY_LEN + 1 + 8"

definition bar_key :: "idx_pubkey \<Rightarrow> idx_bar_interval \<Rightarrow> 64 word \<Rightarrow> idx_slice" where
  "bar_key pool interval bucket =
     idx_slice_make (Some (take IDX_PUBKEY_LEN pool @ [interval_number interval] @
       map (\<lambda>i. ucast (drop_bit (8 * i) bucket AND 255)) [0..<8])) BAR_KEY_LEN"

definition new_bar :: "idx_bar_input \<Rightarrow> idx_bar_interval \<Rightarrow> double \<Rightarrow> double \<Rightarrow> double \<Rightarrow> idx_bar" where
  "new_bar inp interval price base_vol quote_vol =
     \<lparr>ba_pool = in_pool inp, ba_interval = interval, ba_bucket = bucket_of (in_block_time inp) interval,
      ba_quote = pr_quote (in_price inp), ba_open = price, ba_high = price, ba_low = price, ba_close = price,
      ba_base_volume = base_vol, ba_quote_volume = quote_vol, ba_swap_count = 1,
      ba_open_seq = in_seq inp, ba_close_seq = in_seq inp\<rparr>"

definition swap_folded :: "idx_bar_input \<Rightarrow> double \<Rightarrow> double \<Rightarrow> double \<Rightarrow> idx_bar \<Rightarrow> idx_bar" where
  "swap_folded inp price base_vol quote_vol bar =
     (let bar = (if price > ba_high bar then bar\<lparr>ba_high := price\<rparr> else bar);
          bar = (if price < ba_low bar then bar\<lparr>ba_low := price\<rparr> else bar);
          bar = (if idx_bar_seq_compare (in_seq inp) (ba_open_seq bar) < 0
                 then bar\<lparr>ba_open := price, ba_open_seq := in_seq inp\<rparr> else bar);
          bar = (if idx_bar_seq_compare (in_seq inp) (ba_close_seq bar) > 0
                 then bar\<lparr>ba_close := price, ba_close_seq := in_seq inp\<rparr> else bar)
      in bar\<lparr>ba_base_volume := double_add (ba_base_volume bar) base_vol,
             ba_quote_volume := double_add (ba_quote_volume bar) quote_vol,
             ba_swap_count := ba_swap_count bar + 1\<rparr>)"

definition observe_interval ::
    "idx_bar choice \<Rightarrow> idx_bar_registry \<Rightarrow> idx_bar_input \<Rightarrow> idx_bar_interval \<Rightarrow> double \<Rightarrow> double \<Rightarrow> double \<Rightarrow>
     idx_status \<times> idx_bar_registry" where
  "observe_interval ch reg inp interval price base_vol quote_vol =
     (let bucket = bucket_of (in_block_time inp) interval;
          key = bar_key (in_pool inp) interval bucket
      in case registry_find reg key of
           Some p \<Rightarrow> (IDX_OK, registry_update p (swap_folded inp price base_vol quote_vol) reg)
         | None \<Rightarrow> (case registry_insert ch reg key (new_bar inp interval price base_vol quote_vol) of
             (Inl status, reg) \<Rightarrow> (status, reg)
           | (Inr _, reg) \<Rightarrow> (IDX_OK, reg)))"

text \<open>
  Bars hold finite values: the price of a swap that has one is finite (\<open>price_number_finite\<close> in
  \<open>Prices\<close>), and so is a scaled amount (\<open>volumes_finite\<close>).
\<close>

definition input_metrics :: "idx_bar_input \<Rightarrow> double \<times> double \<times> double" where
  "input_metrics inp =
     (finite_value (pr_price (in_price inp)),
      finite_value (fp_div (double_of_u64 (pr_base_amount (in_price inp))) (pow10_double (pr_base_decimals (in_price inp)))),
      finite_value (fp_div (double_of_u64 (pr_quote_amount (in_price inp))) (pow10_double (pr_quote_decimals (in_price inp)))))"

lemma volumes_finite:
  "fp_div (double_of_u64 (pr_base_amount p)) (pow10_double (pr_base_decimals p)) =
     Finite (scaled_value (pr_base_amount p) (pr_base_decimals p))"
  "fp_div (double_of_u64 (pr_quote_amount p)) (pow10_double (pr_quote_decimals p)) =
     Finite (scaled_value (pr_quote_amount p) (pr_quote_decimals p))"
  by (rule scaled_finite)+

definition input_is_foldable :: "idx_bar_input \<Rightarrow> bool" where
  "input_is_foldable inp \<longleftrightarrow> pr_has_price (in_price inp) \<and> sint (in_block_time inp) > 0"

text \<open>The values of the loops over the intervals.\<close>

definition INTERVALS :: "idx_bar_interval list" where
  "INTERVALS = [IDX_BAR_1S, IDX_BAR_1M]"

fun observe_intervals ::
    "(idx_bar_interval \<Rightarrow> idx_bar choice) \<Rightarrow> idx_bar_registry \<Rightarrow> idx_bar_input \<Rightarrow> idx_bar_interval list \<Rightarrow>
     double \<Rightarrow> double \<Rightarrow> double \<Rightarrow> idx_status \<times> idx_bar_registry" where
  "observe_intervals ch reg inp [] price base_vol quote_vol = (IDX_OK, reg)"
| "observe_intervals ch reg inp (iv # ivs) price base_vol quote_vol =
     (case observe_interval (ch iv) reg inp iv price base_vol quote_vol of
        (st, reg) \<Rightarrow> if st \<noteq> IDX_OK then (st, reg)
          else observe_intervals ch reg inp ivs price base_vol quote_vol)"

fun idx_bar_registry_observe ::
    "(idx_bar_interval \<Rightarrow> idx_bar choice) \<Rightarrow> idx_bar_registry option \<Rightarrow> idx_bar_input option \<Rightarrow>
     idx_status \<times> idx_bar_registry option" where
  "idx_bar_registry_observe ch (Some reg) (Some inp) =
     (if \<not> input_is_foldable inp then (IDX_OK, Some reg)
      else case input_metrics inp of (price, base_vol, quote_vol) \<Rightarrow>
        (case observe_intervals ch reg inp INTERVALS price base_vol quote_vol of (st, reg) \<Rightarrow> (st, Some reg)))"
| "idx_bar_registry_observe ch reg _ = (IDX_ERR_INVALID_ARG, reg)"

fun idx_bar_registry_get ::
    "idx_bar_registry option \<Rightarrow> idx_pubkey option \<Rightarrow> idx_bar_interval \<Rightarrow> 64 word \<Rightarrow> idx_bar option" where
  "idx_bar_registry_get (Some reg) (Some pool) interval bucket =
     (case registry_find reg (bar_key pool interval bucket) of None \<Rightarrow> None | Some p \<Rightarrow> heap reg p)"
| "idx_bar_registry_get _ _ interval bucket = None"

definition idx_bar_registry_count :: "idx_bar_registry option \<Rightarrow> nat" where
  "idx_bar_registry_count reg = (case reg of None \<Rightarrow> 0 | Some r \<Rightarrow> idx_map_count (Some (by_key r)))"

section \<open>After a reorganisation\<close>

text \<open>
  The keys of the bars that hold a swap at or above the slot; \<open>puts\<close> is what the allocators
  answer when a key is entered into the set.
\<close>

fun mark_affected ::
    "(idx_slice \<Rightarrow> (nat \<Rightarrow> bool) \<times> bool) \<Rightarrow> u64 \<Rightarrow> (nat \<Rightarrow> idx_bar option) \<Rightarrow> (idx_slice \<times> nat option) list \<Rightarrow>
     nat idx_map \<Rightarrow> idx_status \<times> nat idx_map" where
  "mark_affected puts from_slot bars [] affected = (IDX_OK, affected)"
| "mark_affected puts from_slot bars ((key, v) # rest) affected =
     (case Option.bind v bars of
        Some bar \<Rightarrow>
          if sq_slot (ba_close_seq bar) \<ge> from_slot then
            (case idx_map_put (fst (puts key)) (snd (puts key)) (Some affected) key (Some 1) of (st, mp) \<Rightarrow>
               if st \<noteq> IDX_OK then (st, the mp) else mark_affected puts from_slot bars rest (the mp))
          else mark_affected puts from_slot bars rest affected
      | None \<Rightarrow> mark_affected puts from_slot bars rest affected)"

fun clear_affected :: "(idx_slice \<times> nat option) list \<Rightarrow> idx_bar_registry \<Rightarrow> idx_bar_registry" where
  "clear_affected [] reg = reg"
| "clear_affected ((key, _) # rest) reg = clear_affected rest (registry_remove reg key)"

definition refold_if_affected ::
    "idx_bar choice \<Rightarrow> idx_bar_registry \<Rightarrow> nat idx_map \<Rightarrow> idx_bar_input \<Rightarrow> idx_bar_interval \<Rightarrow>
     double \<Rightarrow> double \<Rightarrow> double \<Rightarrow> idx_status \<times> idx_bar_registry" where
  "refold_if_affected ch reg affected inp interval price base_vol quote_vol =
     (let bucket = bucket_of (in_block_time inp) interval;
          key = bar_key (in_pool inp) interval bucket
      in if \<not> idx_map_contains (Some affected) key then (IDX_OK, reg)
         else observe_interval ch reg inp interval price base_vol quote_vol)"

fun refold_intervals ::
    "(idx_bar_interval \<Rightarrow> idx_bar choice) \<Rightarrow> idx_bar_registry \<Rightarrow> nat idx_map \<Rightarrow> idx_bar_input \<Rightarrow>
     idx_bar_interval list \<Rightarrow> double \<Rightarrow> double \<Rightarrow> double \<Rightarrow> idx_status \<times> idx_bar_registry" where
  "refold_intervals ch reg affected inp [] price base_vol quote_vol = (IDX_OK, reg)"
| "refold_intervals ch reg affected inp (iv # ivs) price base_vol quote_vol =
     (case refold_if_affected (ch iv) reg affected inp iv price base_vol quote_vol of
        (st, reg) \<Rightarrow> if st \<noteq> IDX_OK then (st, reg)
          else refold_intervals ch reg affected inp ivs price base_vol quote_vol)"

text \<open>Each survivor comes with the allocators' answers to its folding.\<close>

fun refold_survivors ::
    "nat idx_map \<Rightarrow> ((idx_bar_interval \<Rightarrow> idx_bar choice) \<times> idx_bar_input) list \<Rightarrow> idx_bar_registry \<Rightarrow>
     idx_status \<times> idx_bar_registry" where
  "refold_survivors affected [] reg = (IDX_OK, reg)"
| "refold_survivors affected ((ch, inp) # rest) reg =
     (if \<not> input_is_foldable inp then refold_survivors affected rest reg
      else case input_metrics inp of (price, base_vol, quote_vol) \<Rightarrow>
        (case refold_intervals ch reg affected inp INTERVALS price base_vol quote_vol of
           (st, reg) \<Rightarrow> if st \<noteq> IDX_OK then (st, reg) else refold_survivors affected rest reg))"

text \<open>The status, the registry, and the number of bars cleared (0 after a failure).\<close>

definition recompute_registry ::
    "(idx_slice \<Rightarrow> (nat \<Rightarrow> bool) \<times> bool) \<Rightarrow> idx_bar_registry \<Rightarrow> u64 \<Rightarrow>
     ((idx_bar_interval \<Rightarrow> idx_bar choice) \<times> idx_bar_input) list \<Rightarrow> idx_status \<times> idx_bar_registry \<times> nat" where
  "recompute_registry puts reg from_slot survivors =
     (case mark_affected puts from_slot (heap reg) (iterate (capacity (by_key reg) + 1) (by_key reg) 0) fresh_map of
        (st, affected) \<Rightarrow>
          if st \<noteq> IDX_OK then (st, reg, 0)
          else
            (let reg = clear_affected (iterate (capacity affected + 1) affected 0) reg;
                 cleared = idx_map_count (Some affected)
             in case refold_survivors affected survivors reg of
                  (st, reg) \<Rightarrow> (st, reg, if st = IDX_OK then cleared else 0)))"

fun idx_bar_registry_recompute_range ::
    "(idx_slice \<Rightarrow> (nat \<Rightarrow> bool) \<times> bool) \<Rightarrow> idx_bar_registry option \<Rightarrow> u64 \<Rightarrow>
     ((idx_bar_interval \<Rightarrow> idx_bar choice) \<times> idx_bar_input) list option \<Rightarrow> nat \<Rightarrow>
     idx_status \<times> idx_bar_registry option \<times> nat" where
  "idx_bar_registry_recompute_range puts None from_slot survivors survivor_count = (IDX_ERR_INVALID_ARG, None, 0)"
| "idx_bar_registry_recompute_range puts (Some reg) from_slot survivors survivor_count =
     (if survivor_count > 0 \<and> survivors = None then (IDX_ERR_INVALID_ARG, Some reg, 0)
      else case recompute_registry puts reg from_slot
          (case survivors of None \<Rightarrow> [] | Some s \<Rightarrow> take survivor_count s) of
        (st, reg, dropped) \<Rightarrow> (st, Some reg, dropped))"

end
