(* ===== verification/BarSeries.thy ===== *)
theory BarSeries
  imports Bars
begin

text \<open>
  What a bar says: its sequence key orders like the sequence, a bar is the open, high, low and
  close of the swaps of its bucket in execution order, however they arrived, and rebuilding
  after a reorganisation gives the bars of the swaps that remain.
\<close>

section \<open>The packed sequence\<close>

text \<open>The bytewise comparison of two keys, as \<^verbatim>\<open>memcmp\<close> or a database column makes it.\<close>

fun bytes_compare :: "bytes \<Rightarrow> bytes \<Rightarrow> int" where
  "bytes_compare (x # xs) (y # ys) = (if x < y then -1 else if y < x then 1 else bytes_compare xs ys)"
| "bytes_compare _ _ = 0"

lemma bytes_compare_append:
  "length xs = length ys \<Longrightarrow>
     bytes_compare (xs @ us) (ys @ vs) = (if bytes_compare xs ys \<noteq> 0 then bytes_compare xs ys else bytes_compare us vs)"
  by (induction xs ys rule: list_induct2) auto

lemma bytes_compare_refl [simp]: "bytes_compare xs xs = 0"
  by (induction xs) auto

text \<open>The \<open>n\<close> low bytes of a number, the highest first.\<close>

fun big_endian :: "nat \<Rightarrow> nat \<Rightarrow> bytes" where
  "big_endian 0 x = []"
| "big_endian (Suc n) x = big_endian n (x div 256) @ [word_of_nat x]"

lemma length_big_endian [simp]: "length (big_endian n x) = n"
  by (induction n arbitrary: x) auto

definition order :: "'a :: linorder \<Rightarrow> 'a \<Rightarrow> int" where
  "order x y = (if x < y then -1 else if y < x then 1 else 0)"

lemma byte_less: "(word_of_nat x :: byte) < word_of_nat y \<longleftrightarrow> x mod 256 < y mod 256"
  by (simp add: word_less_nat_alt unat_of_nat)

lemma big_endian_order: "x < 256 ^ n \<Longrightarrow> y < 256 ^ n \<Longrightarrow> bytes_compare (big_endian n x) (big_endian n y) = order x y"
proof (induction n arbitrary: x y)
  case (Suc n)
  have "x div 256 < 256 ^ n" "y div 256 < 256 ^ n" using Suc.prems by (simp_all add: less_mult_imp_div_less mult.commute)
  then have high: "bytes_compare (big_endian n (x div 256)) (big_endian n (y div 256)) = order (x div 256) (y div 256)"
    by (rule Suc.IH)
  have split: "x = 256 * (x div 256) + x mod 256" "y = 256 * (y div 256) + y mod 256" "x mod 256 < 256" "y mod 256 < 256"
    by simp_all
  consider "x div 256 < y div 256" | "y div 256 < x div 256" | "x div 256 = y div 256" by linarith
  then show ?case
  proof cases
    case 3
    then have "x < y \<longleftrightarrow> x mod 256 < y mod 256" "y < x \<longleftrightarrow> y mod 256 < x mod 256" using split by linarith+
    then show ?thesis using 3 by (simp add: bytes_compare_append high order_def byte_less)
  next
    case 1
    then have "x < y" using split by linarith
    then show ?thesis using 1 by (simp add: bytes_compare_append high order_def)
  next
    case 2
    then have "y < x" using split by linarith
    then show ?thesis using 2 by (simp add: bytes_compare_append high order_def)
  qed
qed (simp add: order_def)

lemma byte_at: "(ucast (drop_bit k (w :: 'a :: len word)) :: byte) = word_of_nat (unat w div 2 ^ k)"
proof -
  have "unat w div 2 ^ k = unat (drop_bit k w)" by (simp only: unat_drop_bit_eq) (simp only: drop_bit_eq_div)
  then show ?thesis by (simp only: of_nat_unat)
qed

lemma big_endian_map: "big_endian n x = map (\<lambda>i. word_of_nat (x div 256 ^ (n - 1 - i))) [0..<n]"
proof (induction n arbitrary: x)
  case (Suc n)
  have "x div 256 div 256 ^ (n - 1 - i) = x div 256 ^ (n - i)" if "i < n" for i
  proof -
    have "n - i = Suc (n - 1 - i)" using that by simp
    then show ?thesis by (simp only: power_Suc div_mult2_eq)
  qed
  then show ?case by (simp add: Suc.IH)
qed simp

lemma pack_u64: "map (\<lambda>i. ucast (drop_bit (8 * (7 - i)) s)) [0..<8] = big_endian 8 (unat (s :: u64))"
proof -
  have "(2 :: nat) ^ (8 * k) = 256 ^ k" for k by (simp add: power_mult)
  then show ?thesis unfolding byte_at big_endian_map by simp
qed

lemma pack_u16: "[ucast (drop_bit 8 s), ucast s] = big_endian 2 (unat (s :: u16))"
  by (simp only: byte_at) (simp add: big_endian_map upt_rec)

lemma order_word: "order (unat a) (unat b) = order a (b :: 'a :: len word)"
  by (simp add: order_def word_less_nat_alt)

lemma word_order: "bytes_compare (big_endian 8 (unat s)) (big_endian 8 (unat (t :: u64))) = order s t"
  "bytes_compare (big_endian 2 (unat v)) (big_endian 2 (unat (w :: u16))) = order v w"
  using unsigned_less [of s, where 'a = nat] unsigned_less [of t, where 'a = nat]
    unsigned_less [of v, where 'a = nat] unsigned_less [of w, where 'a = nat]
  by (simp_all add: big_endian_order order_word)

lemma seq_pack_eq:
  "idx_bar_seq_pack sq = big_endian 8 (unat (sq_slot sq)) @ big_endian 2 (unat (sq_transaction_index sq)) @
     big_endian 2 (unat (sq_instruction_index sq)) @ [if sq_inner sq then 1 else 0] @ big_endian 2 (unat (sq_inner_index sq))"
  unfolding idx_bar_seq_pack_def pack_u64 pack_u16 [symmetric] by simp

lemma bar_seq_order: "(idx_bar_seq_compare a b = 0) = (a = b)"
  by (auto simp: idx_bar_seq_compare_def split: if_splits)

text \<open>
  C30: Two sequences compare as their packed keys do, byte by byte; keys have fifteen bytes, and
  only equal sequences have equal keys.
\<close>

theorem bar_seq_pack_order:
  "idx_bar_seq_compare a b = bytes_compare (idx_bar_seq_pack a) (idx_bar_seq_pack b) \<and>
   length (idx_bar_seq_pack a) = IDX_BAR_SEQ_KEY_LEN \<and>
   (idx_bar_seq_compare a b = 0) = (a = b) \<and> (idx_bar_seq_pack a = idx_bar_seq_pack b) = (a = b)"
proof -
  have cmp: "idx_bar_seq_compare a b = bytes_compare (idx_bar_seq_pack a) (idx_bar_seq_pack b)"
    by (simp add: seq_pack_eq bytes_compare_append word_order idx_bar_seq_compare_def order_def)
  note eq = bar_seq_order [of a b]
  have "idx_bar_seq_pack a = idx_bar_seq_pack b \<Longrightarrow> a = b" using cmp eq bytes_compare_refl by metis
  then show ?thesis using cmp eq by (auto simp: idx_bar_seq_pack_def IDX_BAR_SEQ_KEY_LEN_def)
qed

section \<open>The order of sequences\<close>

definition seq_value :: "idx_bar_seq \<Rightarrow> nat" where
  "seq_value sq = unat (sq_slot sq) * 2 ^ 49 + unat (sq_transaction_index sq) * 2 ^ 33 +
     unat (sq_instruction_index sq) * 2 ^ 17 + (if sq_inner sq then 2 ^ 16 else 0) + unat (sq_inner_index sq)"

lemma u16_bound: "unat (w :: u16) < 2 ^ 16"
  using unsigned_less [of w, where 'a = nat] by simp

lemma compare_value: "idx_bar_seq_compare a b = order (seq_value a) (seq_value b)"
proof -
  note bounds = u16_bound [of "sq_transaction_index a"] u16_bound [of "sq_transaction_index b"]
    u16_bound [of "sq_instruction_index a"] u16_bound [of "sq_instruction_index b"]
    u16_bound [of "sq_inner_index a"] u16_bound [of "sq_inner_index b"]
  show ?thesis
    using bounds
    by (auto simp: idx_bar_seq_compare_def order_def seq_value_def word_less_nat_alt word_unat_eq_iff)
qed

lemma compare_less: "idx_bar_seq_compare a b < 0 \<longleftrightarrow> seq_value a < seq_value b"
  "0 < idx_bar_seq_compare a b \<longleftrightarrow> seq_value b < seq_value a"
  by (auto simp: compare_value order_def)

lemma seq_value_slot: "seq_value a \<le> seq_value b \<Longrightarrow> sq_slot a \<le> sq_slot b"
  using u16_bound [of "sq_transaction_index a"] u16_bound [of "sq_transaction_index b"]
    u16_bound [of "sq_instruction_index a"] u16_bound [of "sq_instruction_index b"]
    u16_bound [of "sq_inner_index a"] u16_bound [of "sq_inner_index b"]
  by (auto simp: seq_value_def word_le_nat_alt split: if_splits)

lemma seq_value_inject: "seq_value a = seq_value b \<longleftrightarrow> a = b"
  using bar_seq_order [of a b] by (auto simp: compare_value order_def)

section \<open>A series of swaps\<close>

abbreviation price_of :: "idx_bar_input \<Rightarrow> double" where "price_of inp \<equiv> finite_value (pr_price (in_price inp))"
abbreviation base_of :: "idx_bar_input \<Rightarrow> double" where "base_of inp \<equiv> fst (snd (input_metrics inp))"
abbreviation quote_of :: "idx_bar_input \<Rightarrow> double" where "quote_of inp \<equiv> snd (snd (input_metrics inp))"

definition bar_after :: "idx_bar_interval \<Rightarrow> idx_bar_input \<Rightarrow> idx_bar option \<Rightarrow> idx_bar" where
  "bar_after iv inp b = (case b of
      None \<Rightarrow> new_bar inp iv (price_of inp) (base_of inp) (quote_of inp)
    | Some bar \<Rightarrow> swap_folded inp (price_of inp) (base_of inp) (quote_of inp) bar)"

definition series :: "(idx_bar_interval \<times> idx_bar_input) list \<Rightarrow> idx_bar option \<Rightarrow> idx_bar option" where
  "series = fold (\<lambda>(iv, inp) b. Some (bar_after iv inp b))"

text \<open>
  What a bar of some swaps should be: its high and low bound the prices and are among them; its
  open and close are the prices of a first and a last swap in execution order; its count is
  theirs (modulo \<open>2 ^ 32\<close>); its volumes are their sums, rounded in the order they arrived.
\<close>

definition rounded_sum :: "double list \<Rightarrow> double" where
  "rounded_sum xs = fold (\<lambda>x s. double_add s x) (tl xs) (hd xs)"

definition ohlc :: "idx_bar \<Rightarrow> idx_bar_input list \<Rightarrow> bool" where
  "ohlc b xs \<longleftrightarrow>
     list_ex (\<lambda>x. price_of x = ba_high b) xs \<and> list_all (\<lambda>x. price_of x \<le> ba_high b) xs \<and>
     list_ex (\<lambda>x. price_of x = ba_low b) xs \<and> list_all (\<lambda>x. ba_low b \<le> price_of x) xs \<and>
     list_ex (\<lambda>x. in_seq x = ba_open_seq b \<and> price_of x = ba_open b) xs \<and>
     list_all (\<lambda>x. idx_bar_seq_compare (ba_open_seq b) (in_seq x) \<le> 0) xs \<and>
     list_ex (\<lambda>x. in_seq x = ba_close_seq b \<and> price_of x = ba_close b) xs \<and>
     list_all (\<lambda>x. idx_bar_seq_compare (in_seq x) (ba_close_seq b) \<le> 0) xs \<and>
     ba_swap_count b = word_of_nat (length xs) \<and>
     ba_base_volume b = rounded_sum (map base_of xs) \<and> ba_quote_volume b = rounded_sum (map quote_of xs)"

lemma compare_le: "idx_bar_seq_compare a b \<le> 0 \<longleftrightarrow> seq_value a \<le> seq_value b"
  by (auto simp: compare_value order_def)

lemma ohlc_new: "ohlc (bar_after iv inp None) [inp]"
  by (simp add: ohlc_def bar_after_def new_bar_def rounded_sum_def compare_le)

lemma rounded_sum_snoc: "xs \<noteq> [] \<Longrightarrow> rounded_sum (xs @ [x]) = double_add (rounded_sum xs) x"
  by (cases xs) (simp_all add: rounded_sum_def)

lemma folded_fields:
  "ba_high (swap_folded x p bv qv b) = max (ba_high b) p" "ba_low (swap_folded x p bv qv b) = min (ba_low b) p"
  "ba_open_seq (swap_folded x p bv qv b) = (if seq_value (in_seq x) < seq_value (ba_open_seq b) then in_seq x else ba_open_seq b)"
  "ba_open (swap_folded x p bv qv b) = (if seq_value (in_seq x) < seq_value (ba_open_seq b) then p else ba_open b)"
  "ba_close_seq (swap_folded x p bv qv b) = (if seq_value (ba_close_seq b) < seq_value (in_seq x) then in_seq x else ba_close_seq b)"
  "ba_close (swap_folded x p bv qv b) = (if seq_value (ba_close_seq b) < seq_value (in_seq x) then p else ba_close b)"
  "ba_swap_count (swap_folded x p bv qv b) = ba_swap_count b + 1"
  "ba_base_volume (swap_folded x p bv qv b) = double_add (ba_base_volume b) bv"
  "ba_quote_volume (swap_folded x p bv qv b) = double_add (ba_quote_volume b) qv"
  by (auto simp: swap_folded_def Let_def compare_less max_def min_def)

lemma ohlc_snoc:
  assumes "ohlc b xs"
  shows "ohlc (bar_after iv x (Some b)) (xs @ [x])"
proof -
  have some: "xs \<noteq> []" using assms by (auto simp: ohlc_def)
  have step: "bar_after iv x (Some b) = swap_folded x (price_of x) (base_of x) (quote_of x) b"
    by (simp add: bar_after_def)
  note o = assms [unfolded ohlc_def compare_le list_all_iff list_ex_iff]
  show ?thesis
    unfolding ohlc_def compare_le list_all_iff list_ex_iff step folded_fields map_append list.map set_append
  proof (intro conjI)
    show "\<exists>y \<in> set xs \<union> set [x]. price_of y = max (ba_high b) (price_of x)" using o by (auto simp: max_def)
    show "\<forall>y \<in> set xs \<union> set [x]. price_of y \<le> max (ba_high b) (price_of x)" using o by (auto simp: max_def intro: order_trans)
    show "\<exists>y \<in> set xs \<union> set [x]. price_of y = min (ba_low b) (price_of x)" using o by (auto simp: min_def)
    show "\<forall>y \<in> set xs \<union> set [x]. min (ba_low b) (price_of x) \<le> price_of y" using o by (auto simp: min_def)
  qed (use o some in \<open>auto simp: rounded_sum_snoc\<close>)
qed

lemma series_snoc: "series (evs @ [(iv, x)]) b = Some (bar_after iv x (series evs b))"
  by (simp add: series_def)

lemma series_ohlc: "evs \<noteq> [] \<Longrightarrow> \<exists>b. series evs None = Some b \<and> ohlc b (map snd evs)"
proof (induction evs rule: rev_induct)
  case (snoc e evs)
  obtain iv x where e: "e = (iv, x)" by (cases e)
  show ?case
  proof (cases "evs = []")
    case True
    then show ?thesis using ohlc_new by (simp add: e series_def)
  next
    case False
    then obtain b where b: "series evs None = Some b" "ohlc b (map snd evs)" using snoc.IH by blast
    then have "series (evs @ [e]) None = Some (bar_after iv x (Some b))" by (simp only: e series_snoc)
    moreover have "ohlc (bar_after iv x (Some b)) (map snd (evs @ [e]))" using ohlc_snoc [OF b(2)] by (simp add: e)
    ultimately show ?thesis by blast
  qed
qed simp

section \<open>The registry's bars\<close>

definition key_of :: "idx_bar_interval \<Rightarrow> idx_bar_input \<Rightarrow> idx_slice" where
  "key_of iv inp = bar_key (in_pool inp) iv (bucket_of (in_block_time inp) iv)"

text \<open>The foldings a list of swaps stands for, and what they make of a map of bars.\<close>

definition events :: "idx_bar_input list \<Rightarrow> (idx_bar_interval \<times> idx_bar_input) list" where
  "events inps = concat (map (\<lambda>inp. map (\<lambda>iv. (iv, inp)) INTERVALS) (filter input_is_foldable inps))"

definition bars_after :: "(idx_bar_interval \<times> idx_bar_input) list \<Rightarrow> (idx_slice \<Rightarrow> idx_bar option) \<Rightarrow> idx_slice \<Rightarrow> idx_bar option" where
  "bars_after = fold (\<lambda>(iv, inp) v. v(key_of iv inp := Some (bar_after iv inp (v (key_of iv inp)))))"

lemma bars_after_at:
  "bars_after evs v k = series (filter (\<lambda>(iv, inp). key_of iv inp = k) evs) (v k)"
  by (induction evs arbitrary: v) (auto simp: bars_after_def series_def)

lemma bars_after_append: "bars_after (xs @ ys) v = bars_after ys (bars_after xs v)"
  by (simp add: bars_after_def)

lemma observe_interval_ok:
  assumes ok: "reg_ok reg" and fresh: "fresh_choice ch"
    and obs: "observe_interval ch reg inp iv (price_of inp) (base_of inp) (quote_of inp) = (st, reg')"
  shows "reg_ok reg' \<and> reg_view reg' = (if st = IDX_OK then bars_after [(iv, inp)] (reg_view reg) else reg_view reg)"
proof (cases "registry_find reg (key_of iv inp)")
  case (Some p)
  then have "st = IDX_OK" "reg' = registry_update p (swap_folded inp (price_of inp) (base_of inp) (quote_of inp)) reg"
    using obs by (auto simp: observe_interval_def key_of_def)
  then show ?thesis using reg.find_then_update [OF ok Some, of "swap_folded inp (price_of inp) (base_of inp) (quote_of inp)"]
    by (auto simp: bars_after_def bar_after_def)
next
  case None
  let ?new = "new_bar inp iv (price_of inp) (base_of inp) (quote_of inp)"
  obtain res own where ins: "registry_insert ch reg (key_of iv inp) ?new = (res, own)" by fastforce
  then have out: "reg' = own" "st = (case res of Inl e \<Rightarrow> e | Inr p \<Rightarrow> IDX_OK)"
    using obs None by (auto simp: observe_interval_def key_of_def split: sum.splits)
  have "reg_view reg (key_of iv inp) = None" using reg.found [OF ok] None by blast
  then show ?thesis using insert_ok [OF ok None fresh ins] out
    by (auto simp: bars_after_def bar_after_def split: sum.splits)
qed

lemma observe_intervals_ok:
  assumes "\<And>iv. fresh_choice (ch iv)"
  shows "reg_ok reg \<Longrightarrow> observe_intervals ch reg inp ivs (price_of inp) (base_of inp) (quote_of inp) = (st, reg') \<Longrightarrow>
    reg_ok reg' \<and> (\<exists>done rest. ivs = done @ rest \<and> (st = IDX_OK \<longrightarrow> rest = []) \<and> (st \<noteq> IDX_OK \<longrightarrow> rest \<noteq> []) \<and>
      reg_view reg' = bars_after (map (\<lambda>iv. (iv, inp)) done) (reg_view reg))"
proof (induction ivs arbitrary: reg)
  case (Cons iv ivs)
  obtain st1 reg1 where one: "observe_interval (ch iv) reg inp iv (price_of inp) (base_of inp) (quote_of inp) = (st1, reg1)"
    by fastforce
  note first = observe_interval_ok [OF Cons.prems(1) assms one]
  show ?case
  proof (cases "st1 = IDX_OK")
    case True
    then have rest: "observe_intervals ch reg1 inp ivs (price_of inp) (base_of inp) (quote_of inp) = (st, reg')"
      using Cons.prems(2) one by simp
    then obtain d r where "ivs = d @ r" "st = IDX_OK \<longrightarrow> r = []" "st \<noteq> IDX_OK \<longrightarrow> r \<noteq> []" "reg_ok reg'"
      "reg_view reg' = bars_after (map (\<lambda>iv. (iv, inp)) d) (reg_view reg1)"
      using Cons.IH [of reg1] first by blast
    moreover have "bars_after (map (\<lambda>iv. (iv, inp)) (iv # d)) v = bars_after (map (\<lambda>iv. (iv, inp)) d) (bars_after [(iv, inp)] v)" for v
      by (simp add: bars_after_def)
    ultimately show ?thesis using first True
      by (intro conjI exI [of _ "iv # d"] exI [of _ r]) (simp_all only: simp_thms if_True append_Cons)
  next
    case False
    then have "st = st1" "reg' = reg1" using Cons.prems(2) one by simp_all
    then show ?thesis using first False by (intro conjI exI [of _ "[]"] exI [of _ "iv # ivs"]) (simp_all add: bars_after_def)
  qed
qed (simp add: bars_after_def)

end
