(* ===== verification/BarHistory.thy ===== *)
theory BarHistory
  imports BarSeries
begin

text \<open>
  The bar registry over a run: after any swaps observed in any order every bar is the series of
  the swaps of its pool, interval and bucket.
\<close>

section \<open>Keys\<close>

lemma bucket_bytes_inject:
  "map (\<lambda>i. ucast (drop_bit (8 * i) (b :: 64 word) AND 255) :: byte) [0..<8] = map (\<lambda>i. ucast (drop_bit (8 * i) c AND 255)) [0..<8]
     \<longleftrightarrow> b = c"
proof
  assume eq: "map (\<lambda>i. ucast (drop_bit (8 * i) b AND 255) :: byte) [0..<8] = map (\<lambda>i. ucast (drop_bit (8 * i) c AND 255)) [0..<8]"
  show "b = c"
  proof (rule bit_word_eqI)
    fix n assume n: "n < LENGTH(64)"
    have mask: "bit (ucast (drop_bit m (w :: 64 word) AND 255) :: byte) j \<longleftrightarrow> bit w (m + j)" if "j < 8" for m w j
    proof -
      have "bit (255 :: 64 word) j" using that bit_mask_iff [of 8 j, where 'a = "64 word"] by (simp add: mask_numeral)
      then show ?thesis using that by (auto simp: bit_simps dest: bit_imp_le_length)
    qed
    have i: "n div 8 < 8" "n = 8 * (n div 8) + n mod 8" using n by simp_all
    have "(ucast (drop_bit (8 * (n div 8)) b AND 255) :: byte) = ucast (drop_bit (8 * (n div 8)) c AND 255)"
      using eq i(1) by (simp only: list_eq_iff_nth_eq length_map) (simp add: nth_map)
    then show "bit b n \<longleftrightarrow> bit c n" using mask [of "n mod 8" "8 * (n div 8)"] i(2) by (metis mod_less_divisor zero_less_numeral)
  qed
qed simp

lemma interval_number_inject: "interval_number iv = interval_number jv \<longleftrightarrow> iv = jv"
  by (cases iv; cases jv) (simp_all add: interval_number_def)

lemma bar_key_inject:
  assumes "key_ok pool" "key_ok other"
  shows "bar_key pool iv b = bar_key other jv c \<longleftrightarrow> pool = other \<and> iv = jv \<and> b = c"
proof -
  have whole: "bar_key p iv b = take IDX_PUBKEY_LEN p @ [interval_number iv] @ map (\<lambda>i. ucast (drop_bit (8 * i) b AND 255)) [0..<8]"
    for p iv b by (simp add: bar_key_def BAR_KEY_LEN_def)
  have "length pool = IDX_PUBKEY_LEN" "length other = IDX_PUBKEY_LEN" using assms by (simp_all add: key_ok_def)
  moreover from this have "take IDX_PUBKEY_LEN pool = pool" "take IDX_PUBKEY_LEN other = other" by simp_all
  ultimately show ?thesis
    unfolding whole by (simp only: append_eq_append_conv append_Cons append_Nil list.inject
        interval_number_inject bucket_bytes_inject simp_thms)
qed

section \<open>Runs\<close>

definition bar_step :: "(idx_bar_interval \<Rightarrow> idx_bar choice) \<times> idx_bar_input \<Rightarrow> idx_bar_registry \<Rightarrow> idx_status \<times> idx_bar_registry" where
  "bar_step e reg = (case idx_bar_registry_observe (fst e) (Some reg) (Some (snd e)) of (st, r) \<Rightarrow> (st, the r))"

lemma bars_after_Nil: "bars_after [] v = v"
  by (simp add: bars_after_def)

lemma bar_step_ok:
  assumes ok: "reg_ok reg" and fresh: "\<And>iv. fresh_choice (ch iv)" and step: "bar_step (ch, inp) reg = (st, reg')"
  shows "reg_ok reg' \<and> (st = IDX_OK \<longrightarrow> reg_view reg' = bars_after (events [inp]) (reg_view reg)) \<and>
    (st \<noteq> IDX_OK \<longrightarrow> reg_view reg' = reg_view reg \<or> reg_view reg' = bars_after [(IDX_BAR_1S, inp)] (reg_view reg))"
proof (cases "input_is_foldable inp")
  case True
  obtain p bv qv where m: "input_metrics inp = (p, bv, qv)" by (cases "input_metrics inp")
  then have "p = price_of inp" by (simp add: input_metrics_def)
  then have obs: "observe_intervals ch reg inp INTERVALS (price_of inp) (base_of inp) (quote_of inp) = (st, reg')"
    using step True by (auto simp: bar_step_def m split: prod.splits)
  from observe_intervals_ok [OF fresh ok obs] obtain d r where
    parts: "INTERVALS = d @ r" "st = IDX_OK \<longrightarrow> r = []" "st \<noteq> IDX_OK \<longrightarrow> r \<noteq> []" "reg_ok reg'"
    and view: "reg_view reg' = bars_after (map (\<lambda>iv. (iv, inp)) d) (reg_view reg)" by blast
  have "st = IDX_OK \<longrightarrow> d = INTERVALS" "st \<noteq> IDX_OK \<longrightarrow> d = [] \<or> d = [IDX_BAR_1S]"
    using parts(1-3) by (auto simp: INTERVALS_def Cons_eq_append_conv)
  moreover have "events [inp] = map (\<lambda>iv. (iv, inp)) INTERVALS" using True by (simp add: events_def)
  ultimately show ?thesis using parts(4) view 
    by (cases "st = IDX_OK") (auto simp: bars_after_Nil)
next
  case False
  then show ?thesis using ok step by (auto simp: bar_step_def events_def bars_after_def)
qed

lemma events_Cons: "events (x # xs) = events [x] @ events xs"
  by (simp add: events_def)

lemma bar_run_ok:
  "reg_ok reg \<Longrightarrow> \<forall>e \<in> set es. \<forall>iv. fresh_choice (fst e iv) \<Longrightarrow> observe_run bar_step es reg = (sts, reg') \<Longrightarrow>
     list_all ((=) IDX_OK) sts \<Longrightarrow> reg_ok reg' \<and> reg_view reg' = bars_after (events (map snd es)) (reg_view reg)"
proof (induction es arbitrary: reg sts)
  case Nil
  then show ?case by (simp add: events_def bars_after_def)
next
  case (Cons e es)
  obtain st reg1 where step: "bar_step e reg = (st, reg1)" by fastforce
  obtain sts1 where run: "observe_run bar_step es reg1 = (sts1, reg')" "sts = st # sts1"
    using Cons.prems(3) step by (auto split: prod.splits)
  have "reg_ok reg1 \<and> reg_view reg1 = bars_after (events [snd e]) (reg_view reg)"
    using bar_step_ok [OF Cons.prems(1), of "fst e" "snd e" st reg1] Cons.prems(2,4) step run(2) by auto
  moreover from this have "reg_ok reg' \<and> reg_view reg' = bars_after (events (map snd es)) (reg_view reg1)"
    using Cons.IH [OF _ _ run(1)] Cons.prems(2,4) run(2) by simp
  ultimately show ?case unfolding list.map events_Cons [of "snd e" "map snd es"] bars_after_append by simp
qed

definition folds_into :: "idx_pubkey \<Rightarrow> idx_bar_interval \<Rightarrow> 64 word \<Rightarrow> idx_bar_input \<Rightarrow> bool" where
  "folds_into pool iv bucket inp \<longleftrightarrow> input_is_foldable inp \<and> in_pool inp = pool \<and> bucket_of (in_block_time inp) iv = bucket"

definition bar_of :: "idx_pubkey \<Rightarrow> idx_bar_interval \<Rightarrow> 64 word \<Rightarrow> idx_bar_input list \<Rightarrow> idx_bar option" where
  "bar_of pool iv bucket inps = series (map (Pair iv) (filter (folds_into pool iv bucket) inps)) None"

lemma events_at:
  assumes "list_all (\<lambda>inp. key_ok (in_pool inp)) inps" "key_ok pool" "iv \<noteq> IDX_BAR_INTERVAL_COUNT"
  shows "filter (\<lambda>(jv, inp). key_of jv inp = bar_key pool iv bucket) (events inps) =
    map (Pair iv) (filter (folds_into pool iv bucket) inps)"
  using assms(1)
proof (induction inps)
  case (Cons inp inps)
  have key: "key_of jv inp = bar_key pool iv bucket \<longleftrightarrow> in_pool inp = pool \<and> jv = iv \<and> bucket_of (in_block_time inp) iv = bucket" for jv
    using Cons.prems assms(2) by (auto simp: key_of_def bar_key_inject)
  have "filter (\<lambda>(jv, inp). key_of jv inp = bar_key pool iv bucket) (events [inp]) = map (Pair iv) (filter (folds_into pool iv bucket) [inp])"
    using assms(3) key [of IDX_BAR_1S] key [of IDX_BAR_1M]
    by (cases iv) (simp_all add: events_def INTERVALS_def folds_into_def)
  then show ?case using Cons unfolding events_Cons [of inp inps] by simp
qed (simp add: events_def)

lemma get_view: "reg_ok reg \<Longrightarrow> idx_bar_registry_get (Some reg) (Some pool) iv bucket = reg_view reg (bar_key pool iv bucket)"
  by (simp add: find_view(1) [symmetric])

lemma series_named:
  "series (map (Pair iv) xs) None = Some b \<Longrightarrow> list_all (folds_into pool iv bucket) xs \<Longrightarrow>
     ba_pool b = pool \<and> ba_interval b = iv \<and> ba_bucket b = bucket"
proof (induction xs arbitrary: b rule: rev_induct)
  case (snoc x xs)
  have "series (map (Pair iv) (xs @ [x])) None = Some (bar_after iv x (series (map (Pair iv) xs) None))"
    by (simp add: series_snoc)
  then have b: "b = bar_after iv x (series (map (Pair iv) xs) None)" using snoc.prems(1) by simp
  have keeps: "ba_pool (swap_folded x p bv qv c) = ba_pool c" "ba_interval (swap_folded x p bv qv c) = ba_interval c"
    "ba_bucket (swap_folded x p bv qv c) = ba_bucket c" for p bv qv c
    by (simp_all add: swap_folded_def Let_def)
  show ?case
  proof (cases "series (map (Pair iv) xs) None")
    case None
    then show ?thesis using b snoc.prems(2) by (simp add: bar_after_def new_bar_def folds_into_def)
  next
    case (Some c)
    then show ?thesis using b snoc.IH [of c] snoc.prems(2) by (simp add: bar_after_def keeps)
  qed
qed (simp add: series_def)

lemma bar_of_ohlc:
  assumes "filter (folds_into pool iv bucket) inps \<noteq> []"
  shows "\<exists>b. bar_of pool iv bucket inps = Some b \<and> ba_pool b = pool \<and> ba_interval b = iv \<and> ba_bucket b = bucket \<and>
    ohlc b (filter (folds_into pool iv bucket) inps)"
proof -
  let ?xs = "filter (folds_into pool iv bucket) inps"
  obtain b where b: "series (map (Pair iv) ?xs) None = Some b" "ohlc b (map snd (map (Pair iv) ?xs))"
    using series_ohlc [of "map (Pair iv) ?xs"] assms by auto
  have "list_all (folds_into pool iv bucket) ?xs" by (simp add: list_all_iff)
  then show ?thesis using series_named [OF b(1)] b by (simp add: bar_of_def comp_def)
qed

text \<open>
  C12: After any run of successful observations on a fresh registry, in whatever order the swaps
  arrive, the registry has a bar for a pool, interval and bucket exactly if some swap with a
  price and a time belongs there, and that bar is the open, high, low and close of exactly those
  swaps in execution order, with their number and volumes.
\<close>

theorem bar_registry_ohlc:
  assumes "idx_bar_registry_init (Some junk) = Some start"
    "\<forall>e \<in> set es. (\<forall>iv. fresh_choice (fst e iv)) \<and> key_ok (in_pool (snd e))"
    "observe_run bar_step es start = (sts, reg)" "list_all ((=) IDX_OK) sts"
    "key_ok pool" "iv \<noteq> IDX_BAR_INTERVAL_COUNT"
  shows "case filter (folds_into pool iv bucket) (map snd es) of
      [] \<Rightarrow> idx_bar_registry_get (Some reg) (Some pool) iv bucket = None
    | x # xs \<Rightarrow> (\<exists>b. idx_bar_registry_get (Some reg) (Some pool) iv bucket = Some b \<and> ba_pool b = pool \<and>
        ba_interval b = iv \<and> ba_bucket b = bucket \<and> ohlc b (x # xs))"
proof -
  have "start = registry_init" using assms(1) by (simp add: idx_bar_registry_init_def)
  then have run: "reg_ok reg" "reg_view reg = bars_after (events (map snd es)) Map.empty"
    using bar_run_ok [OF registry_init_ok(1), of es sts reg] assms(2-4) by (simp_all add: registry_init_ok(2))
  have "list_all (\<lambda>inp. key_ok (in_pool inp)) (map snd es)" using assms(2) by (simp add: list_all_iff)
  from events_at [OF this assms(5,6)]
  have "idx_bar_registry_get (Some reg) (Some pool) iv bucket = bar_of pool iv bucket (map snd es)"
    unfolding get_view [OF run(1)] run(2) bars_after_at bar_of_def by simp
  then show ?thesis using bar_of_ohlc [of pool iv bucket "map snd es"]
    by (cases "filter (folds_into pool iv bucket) (map snd es)") (simp_all add: bar_of_def series_def)
qed

section \<open>A failed observation\<close>

text \<open>
  C40: An observation is not atomic, and this is all a failure can leave behind: every bar as it
  was, or the swap folded into its one-second bar and into no other.
\<close>

theorem bar_observe_failure:
  assumes "reg_ok reg" "\<forall>iv. fresh_choice (ch iv)"
    "idx_bar_registry_observe ch (Some reg) (Some inp) = (st, Some reg')" "st \<noteq> IDX_OK"
  shows "reg_ok reg' \<and> input_is_foldable inp \<and>
    (reg_view reg' = reg_view reg \<or>
     reg_view reg' = (reg_view reg)(key_of IDX_BAR_1S inp \<mapsto> bar_after IDX_BAR_1S inp (reg_view reg (key_of IDX_BAR_1S inp))))"
proof -
  have "bar_step (ch, inp) reg = (st, reg')" using assms(3) by (simp add: bar_step_def del: idx_bar_registry_observe.simps)
  from bar_step_ok [OF assms(1) _ this] assms(2,4)
  have "reg_ok reg'" "reg_view reg' = reg_view reg \<or> reg_view reg' = bars_after [(IDX_BAR_1S, inp)] (reg_view reg)" by auto
  moreover have "input_is_foldable inp" using assms(3,4) by (auto split: if_splits)
  ultimately show ?thesis by (simp add: bars_after_def)
qed

section \<open>Instances\<close>

text \<open>Allocators that grant everything, a record at the address \<open>p\<close>.\<close>

definition granting_at :: "nat \<Rightarrow> 'r choice" where
  "granting_at p = granting\<lparr>ch_record := (\<lambda>h. if h p = None then Some p else None)\<rparr>"

lemma granting_at_fresh: "fresh_choice (granting_at p)"
  by (simp add: fresh_choice_def granting_at_def)

lemma granted_insert:
  assumes "map_ok (by_key reg)" "capacity (by_key reg) \<le> 16" "heap reg p = None"
  obtains own where "registry_insert (granting_at p) reg k r = (Inr p, own)" "heap own = (heap reg)(p \<mapsto> r)"
proof -
  have "\<forall>n \<le> max 16 (2 * capacity (by_key reg)). calloc_grants (\<lambda>_. True) n"
    using assms(2) by (auto simp: calloc_grants_def sizeof_entry_def SIZE_MAX_def)
  then obtain mp where "dict_put (\<lambda>_. True) True (by_key reg) k (Some p) = Some mp"
    using dict_put_granted assms(1) by blast
  then have "idx_map_put (\<lambda>_. True) True (Some (by_key reg)) k (Some p) = (IDX_OK, Some mp)"
    by (auto simp: dict_put_def simp del: idx_map_put.simps split: prod.splits if_splits)
  then have "registry_insert (granting_at p) reg k r = (Inr p, reg\<lparr>heap := (heap reg)(p \<mapsto> r), by_key := mp\<rparr>)"
    using assms(3) by (simp add: registry_insert_def granting_at_def granting_def Let_def del: idx_map_put.simps)
  then show ?thesis using that by simp
qed

lemma fresh_put_capacity:
  fixes mp :: "'v idx_map"
  assumes "idx_map_put (\<lambda>_. True) b (Some fresh_map) k v = (st, Some mp)"
  shows "capacity mp = 16"
proof -
  have "ensure_room (\<lambda>_. True) (fresh_map :: 'v idx_map) = (IDX_OK, fresh_map\<lparr>entries := replicate 16 zero_entry, capacity := 16\<rparr>)"
    by (simp add: ensure_room_def rehash_def fresh_map_def calloc_grants_def sizeof_entry_def SIZE_MAX_def IDX_MAP_MIN_CAPACITY_def)
  then show ?thesis using assms by (auto simp: put_in_room_def Let_def split: option.splits if_splits prod.splits)
qed

definition sample_swap :: idx_bar_input where
  "sample_swap = \<lparr>in_pool = replicate 32 7, in_price = zero_price\<lparr>pr_has_price := True, pr_price := Finite 4\<rparr>, in_block_time = 75,
     in_seq = \<lparr>sq_slot = 1, sq_transaction_index = 0, sq_instruction_index = 0, sq_inner_index = 0, sq_inner = False\<rparr>\<rparr>"

definition both_granted :: "idx_bar_interval \<Rightarrow> idx_bar choice" where
  "both_granted iv = granting_at (if iv = IDX_BAR_1S then 0 else 1)"

definition one_granted :: "idx_bar_interval \<Rightarrow> idx_bar choice" where
  "one_granted iv = (granting_at 0)\<lparr>ch_record := (\<lambda>h. if iv = IDX_BAR_1S \<and> h 0 = None then Some 0 else None)\<rparr>"

lemma choices_fresh: "fresh_choice (both_granted iv)" "fresh_choice (one_granted iv)"
  by (simp_all add: both_granted_def one_granted_def granting_at_fresh) (simp add: fresh_choice_def)

lemma sample_foldable: "input_is_foldable sample_swap" "key_ok (in_pool sample_swap)"
  by (simp_all add: input_is_foldable_def sample_swap_def key_ok_def IDX_PUBKEY_LEN_def)

lemma first_bar:
  obtains own where "observe_interval (granting_at 0) registry_init inp iv p bv qv = (IDX_OK, own)"
    "map_ok (by_key own)" "capacity (by_key own) = 16" "heap own = Map.empty(0 \<mapsto> new_bar inp iv p bv qv)"
proof -
  let ?k = "key_of iv inp" and ?r = "new_bar inp iv p bv qv"
  have init: "map_ok (by_key (registry_init :: idx_bar registry))" "capacity (by_key (registry_init :: idx_bar registry)) \<le> 16"
    "heap (registry_init :: idx_bar registry) = Map.empty"
    by (simp_all add: registry_init_def fresh_map_ok) (simp_all add: fresh_map_def)
  obtain own where own: "registry_insert (granting_at 0) registry_init ?k ?r = (Inr 0, own)" "heap own = Map.empty(0 \<mapsto> ?r)"
    by (rule granted_insert [of registry_init 0 ?k ?r]) (use init in auto)
  have "capacity (by_key own) = 16"
  proof -
    obtain st m where put: "idx_map_put (\<lambda>_. True) True (Some fresh_map) ?k (Some (0 :: nat)) = (st, m)" by fastforce
    from put_cases [OF _ put] obtain mp where m: "m = Some mp" using fresh_map_ok(1) by (auto simp: map_ok_def)
    then have "by_key own = mp" using own(1) put
      by (auto simp: registry_insert_def granting_at_def granting_def registry_init_def Let_def simp del: idx_map_put.simps split: if_splits)
    then show ?thesis using fresh_put_capacity put m by simp
  qed
  moreover have "map_ok (by_key own)"
    using insert_ok [OF registry_init_ok(1) find_init granting_at_fresh own(1)] init(1) by simp
  moreover have "observe_interval (granting_at 0) registry_init inp iv p bv qv = (IDX_OK, own)"
    using own(1) by (simp add: observe_interval_def find_init key_of_def)
  ultimately show ?thesis using that own(2) by blast
qed

lemma sample_bar_run: "\<exists>reg. observe_run bar_step [(both_granted, sample_swap)] registry_init = ([IDX_OK], reg)"
proof -
  obtain p bv qv where m: "input_metrics sample_swap = (p, bv, qv)" by (cases "input_metrics sample_swap")
  obtain own where own: "observe_interval (granting_at 0) registry_init sample_swap IDX_BAR_1S p bv qv = (IDX_OK, own)"
    "map_ok (by_key own)" "capacity (by_key own) = 16" "heap own = Map.empty(0 \<mapsto> new_bar sample_swap IDX_BAR_1S p bv qv)"
    by (rule first_bar)
  have "\<exists>own2. observe_interval (granting_at 1) own sample_swap IDX_BAR_1M p bv qv = (IDX_OK, own2)"
  proof -
    let ?k = "bar_key (in_pool sample_swap) IDX_BAR_1M (bucket_of (in_block_time sample_swap) IDX_BAR_1M)"
    obtain own2 where "registry_insert (granting_at 1) own ?k (new_bar sample_swap IDX_BAR_1M p bv qv) = (Inr 1, own2)"
      by (rule granted_insert [of own 1 ?k]) (use own in auto)
    then show ?thesis by (simp add: observe_interval_def Let_def split: option.split)
  qed
  then show ?thesis using own(1) sample_foldable(1)
    by (auto simp: bar_step_def m INTERVALS_def both_granted_def)
qed

text \<open>One swap at second 75: it is in the one-minute bar of second 60.\<close>

theorem bar_registry_ohlc_witness:
  "\<exists>reg b. observe_run bar_step [(both_granted, sample_swap)] registry_init = ([IDX_OK], reg) \<and>
     idx_bar_registry_get (Some reg) (Some (in_pool sample_swap)) IDX_BAR_1M 60 = Some b \<and> ohlc b [sample_swap]"
proof -
  obtain reg where run: "observe_run bar_step [(both_granted, sample_swap)] registry_init = ([IDX_OK], reg)"
    using sample_bar_run by blast
  have "bucket_of (in_block_time sample_swap) IDX_BAR_1M = 60"
    by (simp add: bucket_of_def sample_swap_def idx_bar_interval_seconds_def signed_divide_int_def)
  then have here: "filter (folds_into (in_pool sample_swap) IDX_BAR_1M 60) (map snd [(both_granted, sample_swap)]) = [sample_swap]"
    by (simp add: folds_into_def sample_foldable)
  have "idx_bar_registry_init (Some registry_init) = Some registry_init" by (simp add: idx_bar_registry_init_def)
  from bar_registry_ohlc [OF this _ run, of "in_pool sample_swap" IDX_BAR_1M 60] here
  show ?thesis using run by (auto simp: choices_fresh sample_foldable simp del: idx_bar_registry_get.simps)
qed

text \<open>The second allocation refused: the one-second bar is there, the one-minute bar is not.\<close>

theorem bar_observe_failure_witness:
  "\<exists>st reg. idx_bar_registry_observe one_granted (Some registry_init) (Some sample_swap) = (st, Some reg) \<and> st \<noteq> IDX_OK \<and> reg_ok reg \<and>
     (reg_view reg = Map.empty \<or>
      reg_view reg = Map.empty(key_of IDX_BAR_1S sample_swap \<mapsto> bar_after IDX_BAR_1S sample_swap None))"
proof -
  let ?p = "price_of sample_swap" and ?bv = "base_of sample_swap" and ?qv = "quote_of sample_swap"
  obtain p bv qv where m: "input_metrics sample_swap = (p, bv, qv)" by (cases "input_metrics sample_swap")
  then have e: "?p = p" "?bv = bv" "?qv = qv" by (simp_all add: input_metrics_def)
  obtain own where own: "observe_interval (granting_at 0) registry_init sample_swap IDX_BAR_1S ?p ?bv ?qv = (IDX_OK, own)"
    by (rule first_bar)
  have one: "one_granted IDX_BAR_1S = granting_at 0" "ch_record (one_granted IDX_BAR_1M) h = None" for h
    by (simp_all add: one_granted_def granting_at_def)
  note first = observe_interval_ok [OF registry_init_ok(1) granting_at_fresh own, unfolded registry_init_ok(2)]
  have "key_of IDX_BAR_1M sample_swap \<noteq> key_of IDX_BAR_1S sample_swap"
    using bar_key_inject [OF sample_foldable(2) sample_foldable(2)] by (simp add: key_of_def)
  then have "reg_view own (key_of IDX_BAR_1M sample_swap) = None" using first by (simp add: bars_after_def)
  then have "registry_find own (key_of IDX_BAR_1M sample_swap) = None" using find_view(2) first by blast
  then have "observe_interval (one_granted IDX_BAR_1M) own sample_swap IDX_BAR_1M ?p ?bv ?qv = (IDX_ERR_NO_MEMORY, own)"
    by (simp add: observe_interval_def key_of_def registry_insert_def one)
  then have out: "idx_bar_registry_observe one_granted (Some registry_init) (Some sample_swap) = (IDX_ERR_NO_MEMORY, Some own)"
    using sample_foldable(1) own unfolding e by (simp add: m INTERVALS_def one)
  have failed: "IDX_ERR_NO_MEMORY \<noteq> IDX_OK" by simp
  have "\<forall>iv. fresh_choice (one_granted iv)" by (simp add: choices_fresh)
  from bar_observe_failure [OF registry_init_ok(1) this out failed, unfolded registry_init_ok(2)] out failed
  show ?thesis by blast
qed

end
