(* ===== verification/BarReorg.thy ===== *)
theory BarReorg
  imports "HOL-Library.Multiset" BarHistory
begin

text \<open>
  Rebuilding bars after a reorganisation, and the independence of a bar from the order in
  which its swaps arrive.
\<close>

section \<open>The bars marked and cleared\<close>

text \<open>The bar holds a swap at or above the slot.\<close>

definition reaches :: "u64 \<Rightarrow> idx_bar option \<Rightarrow> bool" where
  "reaches from_slot b \<longleftrightarrow> (case b of None \<Rightarrow> False | Some bar \<Rightarrow> from_slot \<le> sq_slot (ba_close_seq bar))"

lemma mark_ok:
  "map_wf m \<Longrightarrow> mark_affected puts from_slot bars bs m = (st, m') \<Longrightarrow>
     map_wf m' \<and> (st = IDX_OK \<longrightarrow> (\<forall>k. map_abs m' k \<noteq> None \<longleftrightarrow>
       (\<exists>v. (k, v) \<in> set bs \<and> reaches from_slot (Option.bind v bars)) \<or> map_abs m k \<noteq> None))"
proof (induction bs arbitrary: m)
  case (Cons b bs)
  obtain key v where b: "b = (key, v)" by (cases b)
  show ?case
  proof (cases "reaches from_slot (Option.bind v bars)")
    case False
    then have "mark_affected puts from_slot bars bs m = (st, m')"
      using Cons.prems(2) by (auto simp: b reaches_def split: option.splits)
    then show ?thesis using Cons.IH [OF Cons.prems(1)] False by (auto simp: b)
  next
    case True
    obtain st1 r where put: "idx_map_put (fst (puts key)) (snd (puts key)) (Some m) key (Some 1) = (st1, r)" by fastforce
    from put_cases [OF Cons.prems(1) put] obtain mp where mp: "r = Some mp" "map_wf mp"
      "st1 = IDX_OK \<longrightarrow> map_abs mp = (map_abs m)(key \<mapsto> Some 1)" by auto
    show ?thesis
    proof (cases "st1 = IDX_OK")
      case False
      then show ?thesis using Cons.prems(2) True put mp
        by (auto simp: b reaches_def simp del: idx_map_put.simps split: option.splits)
    next
      case ok: True
      then have "mark_affected puts from_slot bars bs mp = (st, m')"
        using Cons.prems(2) True put mp by (auto simp: b reaches_def simp del: idx_map_put.simps split: option.splits)
      then show ?thesis using Cons.IH [OF mp(2)] mp(3) ok True by (auto simp: b)
    qed
  qed
qed simp

lemma bindings_iff:
  assumes "map_wf m"
  shows "(k, v) \<in> set (bindings (entries m)) \<longleftrightarrow> map_abs m k = Some v" "distinct (map fst (bindings (entries m)))"
proof -
  have "capacity m = 0 \<longrightarrow> entries m = []" "capacity m \<noteq> 0 \<longrightarrow> table_ok (entries m)" using assms by (auto simp: map_wf_def)
  then show d: "distinct (map fst (bindings (entries m)))" using distinct_bindings by (cases "capacity m = 0") auto
  then show "(k, v) \<in> set (bindings (entries m)) \<longleftrightarrow> map_abs m k = Some v"
    using map_of_eq_Some_iff [OF d] bindings_lookup [of "entries m"] by (simp only: map_abs_def)
qed

lemma bound_keys:
  assumes "map_wf m"
  shows "k \<in> fst ` set (bindings (entries m)) \<longleftrightarrow> map_abs m k \<noteq> None"
proof
  assume "k \<in> fst ` set (bindings (entries m))"
  then obtain e where "e \<in> set (bindings (entries m))" "k = fst e" by (rule imageE)
  then have "(k, snd e) \<in> set (bindings (entries m))" by simp
  then show "map_abs m k \<noteq> None" using bindings_iff(1) [OF assms] by simp
next
  assume "map_abs m k \<noteq> None"
  then obtain v where "(k, v) \<in> set (bindings (entries m))" using bindings_iff(1) [OF assms] by blast
  then show "k \<in> fst ` set (bindings (entries m))" by (rule image_eqI [rotated]) simp
qed

lemma count_card: "map_wf m \<Longrightarrow> count m = card (dom (map_abs m))"
proof -
  assume wf: "map_wf m"
  note b = bindings_iff [OF wf]
  have "dom (map_abs m) = fst ` set (bindings (entries m))" using bound_keys [OF wf] by blast
  also have "fst ` set (bindings (entries m)) = set (map fst (bindings (entries m)))" by (simp only: set_map)
  also have "card \<dots> = length (bindings (entries m))" using distinct_card [OF b(2)] by simp
  finally show ?thesis using wf by (simp add: map_wf_def tally_def)
qed

lemma mark_registry:
  assumes ok: "reg_ok reg"
    and mark: "mark_affected puts from_slot (heap reg) (iterate (capacity (by_key reg) + 1) (by_key reg) 0) fresh_map = (IDX_OK, m)"
  shows "map_wf m" "map_abs m k \<noteq> None \<longleftrightarrow> reaches from_slot (reg_view reg k)"
proof -
  have wf: "map_wf (by_key reg)" using ok by (simp add: reg_ok_def)
  have fresh: "map_wf (fresh_map :: nat idx_map)" "map_abs (fresh_map :: nat idx_map) k = None"
    by (simp_all add: fresh_map_ok fresh_map_ok(1) [unfolded map_ok_def])
  note m = mark_ok [OF fresh(1) mark, unfolded iterate_all [OF wf] bindings_iff(1) [OF wf]]
  show "map_wf m" using m by blast
  have "reg_view reg k = (case map_abs (by_key reg) k of None \<Rightarrow> None | Some v \<Rightarrow> Option.bind v (heap reg))"
    by (auto simp: reg_view_def split: option.splits)
  then show "map_abs m k \<noteq> None \<longleftrightarrow> reaches from_slot (reg_view reg k)"
    using m fresh(2) by (auto simp: reaches_def split: option.splits)
qed

lemma clear_ok:
  "reg_ok reg \<Longrightarrow> reg_ok (clear_affected bs reg) \<and>
     (\<forall>k. reg_view (clear_affected bs reg) k = (if k \<in> fst ` set bs then None else reg_view reg k))"
proof (induction bs arbitrary: reg)
  case (Cons b bs)
  obtain key v where b: "b = (key, v)" by (cases b)
  show ?case using Cons.IH [OF remove_ok(1) [OF Cons.prems, of key]] by (auto simp: b remove_ok(2) [OF Cons.prems])
qed simp

section \<open>The bars rebuilt\<close>

definition marked :: "nat idx_map \<Rightarrow> idx_bar_interval \<times> idx_bar_input \<Rightarrow> bool" where
  "marked m e \<longleftrightarrow> map_abs m (key_of (fst e) (snd e)) \<noteq> None"

definition only_marked :: "nat idx_map \<Rightarrow> idx_bar_registry \<Rightarrow> idx_bar_registry \<Rightarrow> bool" where
  "only_marked m reg reg' \<longleftrightarrow> (\<forall>k. map_abs m k = None \<longrightarrow> reg_view reg' k = reg_view reg k)"

lemma refold_one:
  assumes "map_wf m" "reg_ok reg" "fresh_choice ch"
    "refold_if_affected ch reg m inp iv (price_of inp) (base_of inp) (quote_of inp) = (st, reg')"
  shows "reg_ok reg' \<and> only_marked m reg reg' \<and>
    (st = IDX_OK \<longrightarrow> reg_view reg' = bars_after (filter (marked m) [(iv, inp)]) (reg_view reg))"
proof (cases "marked m (iv, inp)")
  case False
  then have "st = IDX_OK" "reg' = reg" using assms(4)
    by (auto simp: refold_if_affected_def idx_map_contains_def get_eq [OF assms(1)] marked_def key_of_def simp del: idx_map_get.simps)
  then show ?thesis using assms(2) False by (simp add: only_marked_def bars_after_Nil)
next
  case True
  then have "observe_interval ch reg inp iv (price_of inp) (base_of inp) (quote_of inp) = (st, reg')" using assms(4)
    by (auto simp: refold_if_affected_def idx_map_contains_def get_eq [OF assms(1)] marked_def key_of_def simp del: idx_map_get.simps)
  from observe_interval_ok [OF assms(2,3) this] show ?thesis
    using True by (auto simp: only_marked_def marked_def bars_after_def split: if_splits)
qed

lemma only_marked_trans: "only_marked m a b \<Longrightarrow> only_marked m b c \<Longrightarrow> only_marked m a c"
  by (simp add: only_marked_def)

lemma refold_intervals_ok:
  assumes "map_wf m" "\<And>iv. fresh_choice (ch iv)"
  shows "reg_ok reg \<Longrightarrow> refold_intervals ch reg m inp ivs (price_of inp) (base_of inp) (quote_of inp) = (st, reg') \<Longrightarrow>
    reg_ok reg' \<and> only_marked m reg reg' \<and>
    (st = IDX_OK \<longrightarrow> reg_view reg' = bars_after (filter (marked m) (map (\<lambda>iv. (iv, inp)) ivs)) (reg_view reg))"
proof (induction ivs arbitrary: reg)
  case (Cons iv ivs)
  obtain st1 reg1 where one: "refold_if_affected (ch iv) reg m inp iv (price_of inp) (base_of inp) (quote_of inp) = (st1, reg1)"
    by fastforce
  note first = refold_one [OF assms(1) Cons.prems(1) assms(2) one]
  show ?case
  proof (cases "st1 = IDX_OK")
    case True
    then have "refold_intervals ch reg1 m inp ivs (price_of inp) (base_of inp) (quote_of inp) = (st, reg')"
      using Cons.prems(2) one by simp
    note rest = Cons.IH [OF conjunct1 [OF first] this]
    have "filter (marked m) (map (\<lambda>iv. (iv, inp)) (iv # ivs)) =
        filter (marked m) [(iv, inp)] @ filter (marked m) (map (\<lambda>iv. (iv, inp)) ivs)" by simp
    then show ?thesis using first rest True only_marked_trans
      by (simp only: bars_after_append simp_thms) blast
  next
    case False
    then show ?thesis using Cons.prems(2) one first by auto
  qed
qed (simp add: only_marked_def bars_after_Nil)

lemma refold_survivors_ok:
  assumes "map_wf m"
  shows "reg_ok reg \<Longrightarrow> \<forall>e \<in> set es. \<forall>iv. fresh_choice (fst e iv) \<Longrightarrow> refold_survivors m es reg = (st, reg') \<Longrightarrow>
    reg_ok reg' \<and> only_marked m reg reg' \<and>
    (st = IDX_OK \<longrightarrow> reg_view reg' = bars_after (filter (marked m) (events (map snd es))) (reg_view reg))"
proof (induction es arbitrary: reg)
  case (Cons e es)
  obtain ch inp where e: "e = (ch, inp)" by (cases e)
  have evs: "filter (marked m) (events (map snd (e # es))) = filter (marked m) (events [inp]) @ filter (marked m) (events (map snd es))"
    unfolding list.map e snd_conv events_Cons [of inp "map snd es"] by simp
  show ?case
  proof (cases "input_is_foldable inp")
    case False
    then have "refold_survivors m es reg = (st, reg')" "events [inp] = []" using Cons.prems(3) by (auto simp: e events_def)
    then show ?thesis unfolding evs using Cons.IH [OF Cons.prems(1)] Cons.prems(2) by simp
  next
    case True
    obtain p bv qv where m: "input_metrics inp = (p, bv, qv)" by (cases "input_metrics inp")
    then have vals: "price_of inp = p" "base_of inp = bv" "quote_of inp = qv" by (simp_all add: input_metrics_def)
    obtain st1 reg1 where one: "refold_intervals ch reg m inp INTERVALS p bv qv = (st1, reg1)" by fastforce
    have "\<And>iv. fresh_choice (ch iv)" using Cons.prems(2) by (simp add: e)
    from refold_intervals_ok [OF assms this Cons.prems(1), where inp = inp and ivs = INTERVALS, unfolded vals, OF one]
    have first: "reg_ok reg1" "only_marked m reg reg1"
      "st1 = IDX_OK \<longrightarrow> reg_view reg1 = bars_after (filter (marked m) (events [inp])) (reg_view reg)"
      using True by (simp_all add: events_def)
    show ?thesis
    proof (cases "st1 = IDX_OK")
      case ok: True
      then have "refold_survivors m es reg1 = (st, reg')" using Cons.prems(3) True one by (simp add: e m)
      from Cons.IH [OF first(1) _ this] Cons.prems(2)
      have rest: "reg_ok reg'" "only_marked m reg1 reg'"
        "st = IDX_OK \<longrightarrow> reg_view reg' = bars_after (filter (marked m) (events (map snd es))) (reg_view reg1)" by simp_all
      then show ?thesis unfolding evs bars_after_append using first(3) ok only_marked_trans [OF first(2) rest(2)] by simp
    next
      case False
      then show ?thesis using Cons.prems(3) True one first by (auto simp: e m)
    qed
  qed
qed (simp add: only_marked_def bars_after_Nil events_def)

lemma recompute_ok:
  assumes ok: "reg_ok reg" and fresh: "\<forall>e \<in> set survivors. \<forall>iv. fresh_choice (fst e iv)"
    and run: "recompute_registry puts reg from_slot survivors = (st, reg', dropped)"
  shows "reg_ok reg'" "\<not> reaches from_slot (reg_view reg k) \<Longrightarrow> reg_view reg' k = reg_view reg k"
    "st = IDX_OK \<Longrightarrow> reaches from_slot (reg_view reg k) \<Longrightarrow> reg_view reg' k = bars_after (events (map snd survivors)) Map.empty k"
    "st = IDX_OK \<Longrightarrow> dropped = card {k. reaches from_slot (reg_view reg k)}"
proof -
  obtain st1 m where mark: "mark_affected puts from_slot (heap reg) (iterate (capacity (by_key reg) + 1) (by_key reg) 0) fresh_map = (st1, m)"
    by fastforce
  have all: "reg_ok reg' \<and> (\<not> reaches from_slot (reg_view reg k) \<longrightarrow> reg_view reg' k = reg_view reg k) \<and>
    (st = IDX_OK \<longrightarrow> (reaches from_slot (reg_view reg k) \<longrightarrow> reg_view reg' k = bars_after (events (map snd survivors)) Map.empty k) \<and>
      dropped = card {k. reaches from_slot (reg_view reg k)})" for k
  proof (cases "st1 = IDX_OK")
    case True
    note m = mark_registry [OF ok mark [unfolded True]]
    define cleared where "cleared = clear_affected (iterate (capacity m + 1) m 0) reg"
    obtain st2 reg2 where refold: "refold_survivors m survivors cleared = (st2, reg2)" by fastforce
    have out: "st = st2" "reg' = reg2" "st2 = IDX_OK \<Longrightarrow> dropped = count m"
      using run [unfolded recompute_registry_def mark prod.case Let_def cleared_def [symmetric]] True refold
      by (auto simp: idx_map_count_def)
    have keys: "k \<in> fst ` set (iterate (capacity m + 1) m 0) \<longleftrightarrow> reaches from_slot (reg_view reg k)" for k
      unfolding iterate_all [OF m(1)] bound_keys [OF m(1)] by (rule m(2))
    from clear_ok [OF ok, of "iterate (capacity m + 1) m 0", folded cleared_def]
    have cl: "reg_ok cleared" "reg_view cleared k = (if reaches from_slot (reg_view reg k) then None else reg_view reg k)" for k
      by (simp_all only: keys simp_thms)
    note again = refold_survivors_ok [OF m(1) cl(1) fresh refold]
    have same: "filter (\<lambda>(iv, inp). key_of iv inp = k) (filter (marked m) es) = filter (\<lambda>(iv, inp). key_of iv inp = k) es"
      if "reaches from_slot (reg_view reg k)" for es
      using that m(2) [of k] by (auto simp: marked_def intro: filter_cong)
    have "dom (map_abs m) = {k. reaches from_slot (reg_view reg k)}" using m(2) by blast
    then have count: "count m = card {k. reaches from_slot (reg_view reg k)}" using count_card [OF m(1)] by simp
    show ?thesis
    proof (intro conjI impI)
      show "reg_ok reg'" using again out by simp
      show "reg_view reg' k = reg_view reg k" if "\<not> reaches from_slot (reg_view reg k)"
      proof -
        have "map_abs m k = None" using m(2) [of k] that by blast
        then show ?thesis using again out(2) cl(2) [of k] that by (simp add: only_marked_def)
      qed
      show "reg_view reg' k = bars_after (events (map snd survivors)) Map.empty k"
        if "st = IDX_OK" "reaches from_slot (reg_view reg k)"
      proof -
        have "reg_view reg' k = bars_after (filter (marked m) (events (map snd survivors))) (reg_view cleared) k"
          using again out(1,2) that(1) by simp
        also have "\<dots> = series (filter (\<lambda>(iv, inp). key_of iv inp = k) (events (map snd survivors))) None"
          using that(2) by (simp only: bars_after_at same cl(2) if_True)
        finally show ?thesis by (simp add: bars_after_at)
      qed
      show "dropped = card {k. reaches from_slot (reg_view reg k)}" if "st = IDX_OK"
        using out that count by simp
    qed
  next
    case False
    then show ?thesis using run [unfolded recompute_registry_def mark] ok by auto
  qed
  show "reg_ok reg'" "\<not> reaches from_slot (reg_view reg k) \<Longrightarrow> reg_view reg' k = reg_view reg k"
    "st = IDX_OK \<Longrightarrow> reaches from_slot (reg_view reg k) \<Longrightarrow> reg_view reg' k = bars_after (events (map snd survivors)) Map.empty k"
    "st = IDX_OK \<Longrightarrow> dropped = card {k. reaches from_slot (reg_view reg k)}"
    using all [of k] by simp_all
qed

section \<open>Properties\<close>

abbreviation below :: "u64 \<Rightarrow> idx_bar_input \<Rightarrow> bool" where
  "below from_slot inp \<equiv> sq_slot (in_seq inp) < from_slot"

text \<open>A bar that does not reach the slot has no swap at or above it.\<close>

lemma bar_of_below:
  assumes "\<not> reaches from_slot (bar_of pool iv bucket inps)"
  shows "bar_of pool iv bucket inps = bar_of pool iv bucket (filter (below from_slot) inps)"
proof (cases "filter (folds_into pool iv bucket) inps = []")
  case True
  then have "filter (folds_into pool iv bucket) (filter (below from_slot) inps) = []"
    by (auto simp: filter_empty_conv)
  then show ?thesis using True by (simp add: bar_of_def del: filter_filter)
next
  case False
  then obtain b where b: "bar_of pool iv bucket inps = Some b" "ohlc b (filter (folds_into pool iv bucket) inps)"
    using bar_of_ohlc by blast
  have low: "sq_slot (ba_close_seq b) < from_slot" using assms b(1) by (simp add: reaches_def not_le)
  have "below from_slot x" if "x \<in> set inps" "folds_into pool iv bucket x" for x
  proof -
    have "seq_value (in_seq x) \<le> seq_value (ba_close_seq b)"
      using b(2) that by (simp add: ohlc_def compare_le list_all_iff)
    then show ?thesis using seq_value_slot low by (meson le_less_trans)
  qed
  then have "filter (folds_into pool iv bucket) (filter (below from_slot) inps) = filter (folds_into pool iv bucket) inps"
    by (auto intro: filter_cong)
  then show ?thesis by (simp add: bar_of_def del: filter_filter)
qed

lemma recompute_range_cases:
  "idx_bar_registry_recompute_range puts (Some reg) from_slot (Some survivors) (length survivors) = (st, Some reg', dropped) \<Longrightarrow>
     recompute_registry puts reg from_slot survivors = (st, reg', dropped)"
  by (auto split: prod.splits)

text \<open>
  Rebuilding is local and complete. Whatever the allocators answer, a bar all of whose swaps
  are below the slot stays as it is; after a success every other bar is the series of the
  survivors of its key, absent when there is none, and the number reported is that of the bars
  cleared.
\<close>

theorem bar_recompute_local:
  assumes "reg_ok reg" "\<forall>e \<in> set survivors. \<forall>iv. fresh_choice (fst e iv)"
    "idx_bar_registry_recompute_range puts (Some reg) from_slot (Some survivors) (length survivors) = (st, Some reg', dropped)"
  shows "reg_ok reg' \<and> (\<not> reaches from_slot (reg_view reg k) \<longrightarrow> reg_view reg' k = reg_view reg k) \<and>
    (st = IDX_OK \<longrightarrow> dropped = card {k. reaches from_slot (reg_view reg k)} \<and>
      (reaches from_slot (reg_view reg k) \<longrightarrow>
         reg_view reg' k = series (filter (\<lambda>(iv, inp). key_of iv inp = k) (events (map snd survivors))) None))"
proof -
  note rebuilt = recompute_ok [OF assms(1,2) recompute_range_cases [OF assms(3)]]
  show ?thesis using rebuilt(1) rebuilt(2) [of k] rebuilt(3) [of k] rebuilt(4) by (auto simp: bars_after_at)
qed

text \<open>
  C11: After a reorganisation the registry is what a derivation from scratch would give. When it
  was filled by successful observations of some swaps and is rebuilt from those of them below
  the reorganised slot, every bar is exactly the bar of these.
\<close>

theorem bar_reorg_exact:
  assumes "idx_bar_registry_init (Some junk) = Some start"
    "\<forall>e \<in> set es. (\<forall>iv. fresh_choice (fst e iv)) \<and> key_ok (in_pool (snd e))"
    "observe_run bar_step es start = (sts, reg)" "list_all ((=) IDX_OK) sts"
    "map snd survivors = filter (below from_slot) (map snd es)" "\<forall>e \<in> set survivors. \<forall>iv. fresh_choice (fst e iv)"
    "idx_bar_registry_recompute_range puts (Some reg) from_slot (Some survivors) (length survivors) = (IDX_OK, Some reg', dropped)"
    "key_ok pool" "iv \<noteq> IDX_BAR_INTERVAL_COUNT"
  shows "idx_bar_registry_get (Some reg') (Some pool) iv bucket = bar_of pool iv bucket (filter (below from_slot) (map snd es))"
proof -
  have "start = registry_init" using assms(1) by (simp add: idx_bar_registry_init_def)
  then have run: "reg_ok reg" "reg_view reg = bars_after (events (map snd es)) Map.empty"
    using bar_run_ok [OF registry_init_ok(1), of es sts reg] assms(2-4) by (simp_all add: registry_init_ok(2))
  let ?k = "bar_key pool iv bucket" and ?old = "map snd es" and ?new = "filter (below from_slot) (map snd es)"
  note rebuilt = recompute_ok [OF run(1) assms(6) recompute_range_cases [OF assms(7)]]
  have keys: "list_all (\<lambda>inp. key_ok (in_pool inp)) ?old" "list_all (\<lambda>inp. key_ok (in_pool inp)) ?new"
    using assms(2) by (auto simp: list_all_iff)
  have old: "reg_view reg ?k = bar_of pool iv bucket ?old"
    unfolding run(2) bars_after_at events_at [OF keys(1) assms(8,9)] bar_of_def ..
  have new: "bars_after (events ?new) Map.empty ?k = bar_of pool iv bucket ?new"
    unfolding bars_after_at events_at [OF keys(2) assms(8,9)] bar_of_def ..
  have "reg_view reg' ?k = bar_of pool iv bucket ?new"
  proof (cases "reaches from_slot (reg_view reg ?k)")
    case True
    then show ?thesis using rebuilt(3) [of ?k] new unfolding assms(5) by simp
  next
    case False
    then show ?thesis using rebuilt(2) [of ?k] bar_of_below old by metis
  qed
  then show ?thesis unfolding get_view [OF rebuilt(1)] .
qed

definition same_candle :: "idx_bar \<Rightarrow> idx_bar \<Rightarrow> bool" where
  "same_candle b c \<longleftrightarrow> ba_open b = ba_open c \<and> ba_high b = ba_high c \<and> ba_low b = ba_low c \<and> ba_close b = ba_close c \<and>
     ba_swap_count b = ba_swap_count c \<and> ba_open_seq b = ba_open_seq c \<and> ba_close_seq b = ba_close_seq c"

lemma ohlc_same:
  assumes "ohlc b xs" "ohlc c ys" "mset xs = mset ys" "distinct (map in_seq xs)"
  shows "same_candle b c"
proof -
  have sets: "set xs = set ys" "length xs = length ys" using assms(3) by (metis set_mset_mset, metis size_mset)
  have one: "x = y" if "x \<in> set xs" "y \<in> set xs" "in_seq x = in_seq y" for x y
    using assms(4) that by (auto simp: distinct_map dest: inj_onD)
  note o = assms(1) [unfolded ohlc_def compare_le list_all_iff list_ex_iff]
    and o' = assms(2) [unfolded ohlc_def compare_le list_all_iff list_ex_iff, folded sets]
  have "ba_high b = ba_high c" using o o' by (metis order_antisym)
  moreover have "ba_low b = ba_low c" using o o' by (metis order_antisym)
  moreover obtain x y where xy: "x \<in> set xs" "y \<in> set xs" "in_seq x = ba_open_seq b" "price_of x = ba_open b"
    "in_seq y = ba_open_seq c" "price_of y = ba_open c" using o o' by blast
  moreover have "seq_value (ba_open_seq b) = seq_value (ba_open_seq c)" using o o' xy by (metis order_antisym)
  moreover obtain u v where uv: "u \<in> set xs" "v \<in> set xs" "in_seq u = ba_close_seq b" "price_of u = ba_close b"
    "in_seq v = ba_close_seq c" "price_of v = ba_close c" using o o' by blast
  moreover have "seq_value (ba_close_seq b) = seq_value (ba_close_seq c)" using o o' uv by (metis order_antisym)
  ultimately show ?thesis using o o' one [of x y] one [of u v] sets(2)
    by (simp add: same_candle_def seq_value_inject)
qed

text \<open>
  C29: Arrival order does not matter to a candle: when the swaps of a bucket have different
  sequences, any order of them gives the same open, high, low, close and count.
\<close>

theorem bar_order_independent:
  assumes "mset xs = mset ys" "distinct (map in_seq (filter (folds_into pool iv bucket) xs))"
  shows "rel_option same_candle (bar_of pool iv bucket xs) (bar_of pool iv bucket ys)"
proof -
  let ?f = "filter (folds_into pool iv bucket)"
  have ms: "mset (?f xs) = mset (?f ys)" using assms(1) by simp
  show ?thesis
  proof (cases "?f xs = []")
    case True
    then have "?f ys = []" using ms by simp
    then show ?thesis using True by (simp add: bar_of_def series_def)
  next
    case False
    then have "?f ys \<noteq> []" using ms by force
    then obtain b c where "bar_of pool iv bucket xs = Some b" "ohlc b (?f xs)" "bar_of pool iv bucket ys = Some c" "ohlc c (?f ys)"
      using bar_of_ohlc False by meson
    then show ?thesis using ohlc_same [OF _ _ ms assms(2)] by simp
  qed
qed

section \<open>Instances\<close>

definition nobody :: "((idx_bar_interval \<Rightarrow> idx_bar choice) \<times> idx_bar_input) list" where
  "nobody = []"

definition all_put :: "idx_slice \<Rightarrow> (nat \<Rightarrow> bool) \<times> bool" where
  "all_put key = ((\<lambda>_. True), True)"

lemma put_granted:
  assumes "map_ok m" "capacity m \<le> 16"
  obtains m' where "idx_map_put (\<lambda>_. True) True (Some m) k v = (IDX_OK, Some m')" "map_ok m'"
proof -
  have "\<forall>n \<le> max 16 (2 * capacity m). calloc_grants (\<lambda>_. True) n"
    using assms(2) by (auto simp: calloc_grants_def sizeof_entry_def SIZE_MAX_def)
  then obtain m' where m': "dict_put (\<lambda>_. True) True m k v = Some m'" using dict_put_granted assms(1) by blast
  then have "idx_map_put (\<lambda>_. True) True (Some m) k v = (IDX_OK, Some m')"
    by (auto simp: dict_put_def simp del: idx_map_put.simps split: prod.splits if_splits)
  then show ?thesis using that dict_put_ok [OF _ m'] assms(1) by (auto simp: map_ok_def)
qed

lemma mark_one: "map_ok m \<Longrightarrow> capacity m \<le> 16 \<Longrightarrow> length bs \<le> 1 \<Longrightarrow> \<exists>m'. mark_affected all_put from_slot bars bs m = (IDX_OK, m')"
proof (cases bs)
  case (Cons b rest)
  assume m: "map_ok m" "capacity m \<le> 16" "length bs \<le> 1"
  obtain key v where b: "bs = [(key, v)]" using Cons m(3) by (cases b) auto
  show ?thesis by (rule put_granted [OF m(1,2), of key "Some 1"]) (simp add: b all_put_def split: option.split del: idx_map_put.simps)
qed simp

lemma mark_two: "length bs \<le> 2 \<Longrightarrow> \<exists>m'. mark_affected all_put from_slot bars bs fresh_map = (IDX_OK, m')"
proof (cases bs)
  case (Cons b rest)
  assume len: "length bs \<le> 2"
  obtain key v where b: "b = (key, v)" by (cases b)
  have fresh: "map_ok (fresh_map :: nat idx_map)" "capacity (fresh_map :: nat idx_map) \<le> 16"
    by (simp_all add: fresh_map_ok) (simp add: fresh_map_def)
  have rest: "length rest \<le> 1" using len Cons by simp
  obtain m' where put: "idx_map_put (\<lambda>_. True) True (Some fresh_map) key (Some (1 :: nat)) = (IDX_OK, Some m')" "map_ok m'"
    by (rule put_granted [OF fresh])
  have "capacity m' \<le> 16" using fresh_put_capacity [OF put(1)] by simp
  note later = mark_one [OF put(2) this rest, of from_slot bars] mark_one [OF fresh rest, of from_slot bars]
  show ?thesis using later put(1) by (auto simp: Cons b all_put_def split: option.split simp del: idx_map_put.simps)
qed simp

lemma view_dom: "reg_ok reg \<Longrightarrow> dom (map_abs (by_key reg)) = dom (reg_view reg)"
  by (auto simp: reg_ok_def owns_def reg_view_def dom_def split: option.splits)

lemma sample_reorg:
  obtains reg reg' dropped where
    "observe_run bar_step [(both_granted, sample_swap)] registry_init = ([IDX_OK], reg)" "reg_ok reg"
    "idx_bar_registry_recompute_range all_put (Some reg) 1 (Some nobody) (length nobody) = (IDX_OK, Some reg', dropped)"
proof -
  obtain reg where run: "observe_run bar_step [(both_granted, sample_swap)] registry_init = ([IDX_OK], reg)"
    using sample_bar_run by blast
  have reg: "reg_ok reg" "reg_view reg = bars_after (events [sample_swap]) Map.empty"
    using bar_run_ok [OF registry_init_ok(1) _ run] by (simp_all add: choices_fresh registry_init_ok(2))
  let ?bs = "iterate (capacity (by_key reg) + 1) (by_key reg) 0"
  have wf: "map_wf (by_key reg)" using reg(1) by (simp add: reg_ok_def)
  have "dom (reg_view reg) \<subseteq> {key_of IDX_BAR_1S sample_swap, key_of IDX_BAR_1M sample_swap}"
    unfolding reg(2) by (auto simp: events_def INTERVALS_def sample_foldable bars_after_def split: if_splits)
  then have "card (dom (reg_view reg)) \<le> card {key_of IDX_BAR_1S sample_swap, key_of IDX_BAR_1M sample_swap}"
    by (rule card_mono [rotated]) simp
  also have "\<dots> \<le> 2" by (simp add: card_insert_if)
  finally have "card (dom (map_abs (by_key reg))) \<le> 2" unfolding view_dom [OF reg(1)] .
  moreover have "length ?bs = count (by_key reg)"
    unfolding iterate_all [OF wf] using wf by (simp add: map_wf_def tally_def)
  ultimately have "length ?bs \<le> 2" using count_card [OF wf] by simp
  then obtain m where mark: "mark_affected all_put 1 (heap reg) ?bs fresh_map = (IDX_OK, m)" using mark_two by blast
  have "recompute_registry all_put reg 1 nobody = (IDX_OK, clear_affected (iterate (capacity m + 1) m 0) reg, count m)"
    unfolding recompute_registry_def mark by (simp add: idx_map_count_def nobody_def)
  then show ?thesis using that [OF run reg(1)] by simp
qed

text \<open>The slot of the only swap is dropped: both its bars go.\<close>

theorem bar_reorg_exact_witness:
  "\<exists>reg reg' dropped. observe_run bar_step [(both_granted, sample_swap)] registry_init = ([IDX_OK], reg) \<and>
     idx_bar_registry_recompute_range all_put (Some reg) 1 (Some nobody) (length nobody) = (IDX_OK, Some reg', dropped) \<and>
     idx_bar_registry_get (Some reg') (Some (in_pool sample_swap)) IDX_BAR_1M 60 = None"
proof -
  obtain reg reg' dropped where run: "observe_run bar_step [(both_granted, sample_swap)] registry_init = ([IDX_OK], reg)"
    and out: "idx_bar_registry_recompute_range all_put (Some reg) 1 (Some nobody) (length nobody) = (IDX_OK, Some reg', dropped)"
    by (rule sample_reorg)
  have init: "idx_bar_registry_init (Some registry_init) = Some registry_init" by (simp add: idx_bar_registry_init_def)
  have slot: "sq_slot (in_seq sample_swap) = 1" by (simp add: sample_swap_def)
  have "idx_bar_registry_get (Some reg') (Some (in_pool sample_swap)) IDX_BAR_1M 60 =
      bar_of (in_pool sample_swap) IDX_BAR_1M 60 (filter (below 1) (map snd [(both_granted, sample_swap)]))"
    by (rule bar_reorg_exact [OF init _ run _ _ _ out]) (simp_all add: choices_fresh sample_foldable slot nobody_def)
  then show ?thesis using run out by (auto simp: slot bar_of_def series_def simp del: idx_bar_registry_get.simps
      idx_bar_registry_recompute_range.simps observe_run.simps)
qed

theorem bar_recompute_local_witness:
  "\<exists>reg reg' dropped. idx_bar_registry_recompute_range all_put (Some reg) 1 (Some nobody) (length nobody) = (IDX_OK, Some reg', dropped) \<and>
     reg_ok reg' \<and> dropped = card {k. reaches 1 (reg_view reg k)}"
proof -
  obtain reg reg' dropped where ok: "reg_ok reg"
    and out: "idx_bar_registry_recompute_range all_put (Some reg) 1 (Some nobody) (length nobody) = (IDX_OK, Some reg', dropped)"
    by (rule sample_reorg)
  have none: "\<forall>e \<in> set nobody. \<forall>iv. fresh_choice (fst e iv)" by (simp add: nobody_def)
  from bar_recompute_local [OF ok none out] have "reg_ok reg'" "dropped = card {k. reaches 1 (reg_view reg k)}" by blast+
  then show ?thesis using out by blast
qed

definition later_swap :: idx_bar_input where
  "later_swap = sample_swap\<lparr>in_price := (in_price sample_swap)\<lparr>pr_price := Finite 9\<rparr>, in_seq := (in_seq sample_swap)\<lparr>sq_slot := 2\<rparr>\<rparr>"

theorem bar_order_independent_witness:
  "rel_option same_candle (bar_of (in_pool sample_swap) IDX_BAR_1M 60 [sample_swap, later_swap])
     (bar_of (in_pool sample_swap) IDX_BAR_1M 60 [later_swap, sample_swap])"
  by (rule bar_order_independent) (simp_all add: later_swap_def sample_swap_def)

text \<open>
  Volumes do depend on the order: \<open>2 ^ 53\<close> units and twice one unit add up to \<open>2 ^ 53\<close> or to
  \<open>2 ^ 53 + 2\<close>.
\<close>

theorem bar_volume_order:
  "rounded_sum [2 ^ 53, 1, 1] = 2 ^ 53 \<and> rounded_sum [1, 1, 2 ^ 53] = 2 ^ 53 + 2"
  by (simp add: rounded_sum_def double_add_def) code_simp

end
