(* ===== verification/Vec.thy ===== *)
theory Vec
  imports Bytes
begin

text \<open>
  The growable array (\<^verbatim>\<open>src/vec.c\<close>, \<^verbatim>\<open>include/vec.h\<close>). The elements are values; the memory
  behind them counts only through its capacity. \<open>grant\<close> is what \<^verbatim>\<open>realloc\<close> answers: whether a block of a size is
  granted. A slot handed out uninitialised holds whatever was there (\<open>junk\<close>).
\<close>

section \<open>Model\<close>

record 'a idx_vec =
  vec_elems :: "'a list"
  vec_capacity :: nat
  vec_elem_size :: nat

definition IDX_VEC_MIN_CAPACITY :: nat where "IDX_VEC_MIN_CAPACITY = 8"

definition idx_vec_init :: "'a idx_vec option \<Rightarrow> nat \<Rightarrow> 'a idx_vec option" where
  "idx_vec_init vec elem_size =
     map_option (\<lambda>_. \<lparr>vec_elems = [], vec_capacity = 0, vec_elem_size = elem_size\<rparr>) vec"

text \<open>The doubling loop; it ends because the capacity, at least 1, grows until it suffices.\<close>

function grow_capacity :: "nat \<Rightarrow> nat \<Rightarrow> nat" where
  "grow_capacity cap needed =
     (if cap = 0 then needed
      else if cap < needed then (if cap > SIZE_MAX div 2 then needed else grow_capacity (cap * 2) needed)
      else cap)"
  by pat_completeness auto
termination by (relation "measure (\<lambda>(cap, needed). needed - cap)") auto

declare grow_capacity.simps [simp del]

text \<open>
  The source enters the loop with a capacity of at least eight, so its guard against a zero
  is not there; the model's first case is never taken.
\<close>

fun idx_vec_reserve :: "(nat \<Rightarrow> bool) \<Rightarrow> 'a idx_vec option \<Rightarrow> nat \<Rightarrow> idx_status \<times> 'a idx_vec option" where
  "idx_vec_reserve grant None additional = (IDX_ERR_INVALID_ARG, None)"
| "idx_vec_reserve grant (Some vec) additional =
     (if vec_elem_size vec = 0 then (IDX_ERR_INVALID_ARG, Some vec)
      else if additional \<le> vec_capacity vec - length (vec_elems vec) then (IDX_OK, Some vec)
      else if additional > SIZE_MAX - length (vec_elems vec) then (IDX_ERR_RANGE, Some vec)
      else
        let needed = length (vec_elems vec) + additional;
            cap = grow_capacity (if vec_capacity vec > 0 then vec_capacity vec else IDX_VEC_MIN_CAPACITY) needed
        in if cap > SIZE_MAX div vec_elem_size vec then (IDX_ERR_RANGE, Some vec)
           else if \<not> grant (cap * vec_elem_size vec) then (IDX_ERR_NO_MEMORY, Some vec)
           else (IDX_OK, Some (vec\<lparr>vec_capacity := cap\<rparr>)))"

text \<open>The index of the new element, which holds \<open>junk\<close>.\<close>

definition idx_vec_push_uninit ::
    "(nat \<Rightarrow> bool) \<Rightarrow> 'a \<Rightarrow> 'a idx_vec option \<Rightarrow> nat result \<times> 'a idx_vec option" where
  "idx_vec_push_uninit grant junk vec =
     (case idx_vec_reserve grant vec 1 of
        (st, vec) \<Rightarrow> if st \<noteq> IDX_OK then (Inl st, vec)
          else (Inr (length (vec_elems (the vec))), map_option (\<lambda>v. v\<lparr>vec_elems := vec_elems v @ [junk]\<rparr>) vec))"

fun idx_vec_push ::
    "(nat \<Rightarrow> bool) \<Rightarrow> 'a \<Rightarrow> 'a idx_vec option \<Rightarrow> 'a option \<Rightarrow> idx_status \<times> 'a idx_vec option" where
  "idx_vec_push grant junk vec None = (IDX_ERR_INVALID_ARG, vec)"
| "idx_vec_push grant junk vec (Some elem) =
     (case idx_vec_push_uninit grant junk vec of
        (Inl st, vec) \<Rightarrow> (st, vec)
      | (Inr i, vec) \<Rightarrow> (IDX_OK, map_option (\<lambda>v. v\<lparr>vec_elems := (vec_elems v)[i := elem]\<rparr>) vec))"

fun idx_vec_at :: "'a idx_vec option \<Rightarrow> nat \<Rightarrow> 'a option" where
  "idx_vec_at None index = None"
| "idx_vec_at (Some vec) index = (if index \<ge> length (vec_elems vec) then None else Some (vec_elems vec ! index))"

fun idx_vec_pop :: "'a idx_vec option \<Rightarrow> 'a option \<times> 'a idx_vec option" where
  "idx_vec_pop None = (None, None)"
| "idx_vec_pop (Some vec) =
     (if length (vec_elems vec) = 0 then (None, Some vec)
      else let n = length (vec_elems vec) - 1 in
        (Some (vec_elems vec ! n), Some (vec\<lparr>vec_elems := take n (vec_elems vec)\<rparr>)))"

definition idx_vec_len :: "'a idx_vec option \<Rightarrow> nat" where
  "idx_vec_len vec = (case vec of None \<Rightarrow> 0 | Some v \<Rightarrow> length (vec_elems v))"

definition idx_vec_is_empty :: "'a idx_vec option \<Rightarrow> bool" where
  "idx_vec_is_empty vec \<longleftrightarrow> idx_vec_len vec = 0"

definition idx_vec_clear :: "'a idx_vec option \<Rightarrow> 'a idx_vec option" where
  "idx_vec_clear = map_option (\<lambda>v. v\<lparr>vec_elems := []\<rparr>)"

definition idx_vec_free :: "'a idx_vec option \<Rightarrow> 'a idx_vec option" where
  "idx_vec_free vec = (case vec of None \<Rightarrow> None | Some v \<Rightarrow> idx_vec_init (Some v) (vec_elem_size v))"

section \<open>Facts\<close>

text \<open>The elements fit the memory, and the memory fits a size.\<close>

definition vec_ok :: "'a idx_vec \<Rightarrow> bool" where
  "vec_ok v \<longleftrightarrow> 0 < vec_elem_size v \<and> length (vec_elems v) \<le> vec_capacity v \<and>
     vec_capacity v * vec_elem_size v \<le> SIZE_MAX"

definition vec_room :: "'a idx_vec \<Rightarrow> nat" where
  "vec_room v = vec_capacity v - length (vec_elems v)"

lemma grow_enough: "needed \<le> grow_capacity cap needed"
  by (induction cap needed rule: grow_capacity.induct) (subst grow_capacity.simps, simp)

lemma grow_keeps: "cap \<le> grow_capacity cap needed"
proof (induction cap needed rule: grow_capacity.induct)
  case (1 cap needed)
  then show ?case by (subst grow_capacity.simps) auto
qed

lemma vec_reserve_ok:
  assumes "vec_ok v" "idx_vec_reserve grant (Some v) n = (st, r)"
  shows "\<exists>w. r = Some w \<and> vec_ok w \<and> vec_elems w = vec_elems v \<and> vec_elem_size w = vec_elem_size v \<and>
    vec_room v \<le> vec_room w \<and> (st = IDX_OK \<longrightarrow> n \<le> vec_room w) \<and>
    (st \<noteq> IDX_OK \<longrightarrow> w = v \<and> (st = IDX_ERR_RANGE \<or> st = IDX_ERR_NO_MEMORY))"
proof -
  let ?cap = "grow_capacity (if vec_capacity v > 0 then vec_capacity v else IDX_VEC_MIN_CAPACITY) (length (vec_elems v) + n)"
  have cap: "length (vec_elems v) + n \<le> ?cap" "vec_capacity v \<le> ?cap"
    using grow_enough grow_keeps [of "vec_capacity v"] by auto
  have fits: "?cap * vec_elem_size v \<le> SIZE_MAX" if "\<not> ?cap > SIZE_MAX div vec_elem_size v"
    using that by (meson div_times_less_eq_dividend le_trans mult_le_mono1 not_le)
  show ?thesis
    using assms cap fits
    by (auto simp: vec_ok_def vec_room_def Let_def simp del: One_nat_def split: if_splits)
qed

lemma push_with_room:
  assumes "vec_ok v" "0 < vec_room v"
  shows "\<exists>w. idx_vec_push grant junk (Some v) (Some x) = (IDX_OK, Some w) \<and> vec_ok w \<and>
    vec_elems w = vec_elems v @ [x] \<and> vec_elem_size w = vec_elem_size v \<and> vec_room w = vec_room v - 1 \<and>
    vec_capacity w = vec_capacity v"
  using assms by (auto simp: vec_ok_def vec_room_def idx_vec_push_uninit_def)

lemma push_ok:
  assumes "vec_ok v" "idx_vec_push grant junk (Some v) (Some x) = (st, r)"
  shows "\<exists>w. r = Some w \<and> vec_ok w \<and> vec_elems w = vec_elems v @ (if st = IDX_OK then [x] else [])"
proof -
  obtain st1 r1 where res: "idx_vec_reserve grant (Some v) 1 = (st1, r1)" by fastforce
  from vec_reserve_ok [OF assms(1) res] obtain w where "r1 = Some w" "vec_ok w" "vec_elems w = vec_elems v"
    "st1 = IDX_OK \<longrightarrow> 1 \<le> vec_room w" "st1 \<noteq> IDX_OK \<longrightarrow> w = v" by blast
  then show ?thesis using assms(2) res
    by (auto simp: idx_vec_push_uninit_def vec_ok_def vec_room_def simp del: idx_vec_reserve.simps split: if_splits)
qed

section \<open>The interface\<close>

text \<open>What callers rely on: a list whose appends may fail, but not after enough was reserved.\<close>

locale growable =
  fixes ok :: "'v \<Rightarrow> bool"
    and elems :: "'v \<Rightarrow> 'a list"
    and room :: "'v \<Rightarrow> nat"
    and reserve :: "'v \<Rightarrow> nat \<Rightarrow> idx_status \<times> 'v"
    and push :: "'v \<Rightarrow> 'a \<Rightarrow> idx_status \<times> 'v"
  assumes reserved: "ok v \<Longrightarrow> reserve v n = (st, w) \<Longrightarrow> ok w \<and> elems w = elems v \<and> room v \<le> room w \<and> (st = IDX_OK \<longrightarrow> n \<le> room w)"
    and pushed: "ok v \<Longrightarrow> 0 < room v \<Longrightarrow> \<exists>w. push v x = (IDX_OK, w) \<and> ok w \<and> elems w = elems v @ [x] \<and> room w = room v - 1"
begin

text \<open>Pushing one after the other, whatever the statuses.\<close>

fun push_all :: "'v \<Rightarrow> 'a list \<Rightarrow> 'v" where
  "push_all v [] = v"
| "push_all v (x # xs) = push_all (snd (push v x)) xs"

lemma push_all_ok: "ok v \<Longrightarrow> length xs \<le> room v \<Longrightarrow> ok (push_all v xs) \<and> elems (push_all v xs) = elems v @ xs"
proof (induction xs arbitrary: v)
  case (Cons x xs)
  then obtain w where "push v x = (IDX_OK, w)" "ok w" "elems w = elems v @ [x]" "room w = room v - 1"
    using pushed [of v x] by auto
  then show ?case using Cons.IH [of w] Cons.prems(2) by simp
qed simp

end

definition vec_reserve :: "(nat \<Rightarrow> bool) \<Rightarrow> 'a idx_vec \<Rightarrow> nat \<Rightarrow> idx_status \<times> 'a idx_vec" where
  "vec_reserve grant v n = (case idx_vec_reserve grant (Some v) n of (st, r) \<Rightarrow> (st, the r))"

definition vec_push :: "(nat \<Rightarrow> bool) \<Rightarrow> 'a \<Rightarrow> 'a idx_vec \<Rightarrow> 'a \<Rightarrow> idx_status \<times> 'a idx_vec" where
  "vec_push grant junk v x = (case idx_vec_push grant junk (Some v) (Some x) of (st, r) \<Rightarrow> (st, the r))"

interpretation vec: growable vec_ok vec_elems vec_room "vec_reserve grant" "vec_push grant junk" for grant junk
proof unfold_locales
  fix v w :: "'a idx_vec" and n st
  assume "vec_ok v" "vec_reserve grant v n = (st, w)"
  then show "vec_ok w \<and> vec_elems w = vec_elems v \<and> vec_room v \<le> vec_room w \<and> (st = IDX_OK \<longrightarrow> n \<le> vec_room w)"
    using vec_reserve_ok [of v grant n] by (auto simp: vec_reserve_def simp del: idx_vec_reserve.simps split: prod.splits)
next
  fix v :: "'a idx_vec" and x
  assume "vec_ok v" "0 < vec_room v"
  then show "\<exists>w. vec_push grant junk v x = (IDX_OK, w) \<and> vec_ok w \<and> vec_elems w = vec_elems v @ [x] \<and> vec_room w = vec_room v - 1"
    using push_with_room [of v grant junk x] by (auto simp: vec_push_def simp del: idx_vec_push.simps)
qed

section \<open>Properties\<close>

text \<open>Operations on an array, and what they are on a list; a push and a reservation may be refused.\<close>

datatype 'a vec_op = Vec_reserve nat | Vec_push 'a | Vec_pop | Vec_clear

definition vec_step :: "(nat \<Rightarrow> bool) \<times> 'a \<times> 'a vec_op \<Rightarrow> 'a idx_vec \<Rightarrow> idx_status \<times> 'a idx_vec" where
  "vec_step e v = (case e of (grant, junk, op) \<Rightarrow> (case op of
      Vec_reserve n \<Rightarrow> vec_reserve grant v n
    | Vec_push x \<Rightarrow> vec_push grant junk v x
    | Vec_pop \<Rightarrow> (IDX_OK, the (snd (idx_vec_pop (Some v))))
    | Vec_clear \<Rightarrow> (IDX_OK, the (idx_vec_clear (Some v)))))"

definition list_step :: "'a vec_op \<Rightarrow> idx_status \<Rightarrow> 'a list \<Rightarrow> 'a list" where
  "list_step op st xs = (case op of
      Vec_reserve n \<Rightarrow> xs
    | Vec_push x \<Rightarrow> if st = IDX_OK then xs @ [x] else xs
    | Vec_pop \<Rightarrow> butlast xs
    | Vec_clear \<Rightarrow> [])"

fun vec_run :: "((nat \<Rightarrow> bool) \<times> 'a \<times> 'a vec_op) list \<Rightarrow> 'a idx_vec \<Rightarrow> idx_status list \<times> 'a idx_vec" where
  "vec_run [] v = ([], v)"
| "vec_run (e # es) v = (case vec_step e v of (st, v) \<Rightarrow> (case vec_run es v of (sts, v) \<Rightarrow> (st # sts, v)))"

definition list_run :: "'a vec_op list \<Rightarrow> idx_status list \<Rightarrow> 'a list \<Rightarrow> 'a list" where
  "list_run ops sts xs = fold (\<lambda>(op, st). list_step op st) (zip ops sts) xs"

lemma vec_step_ok:
  assumes "vec_ok v" "vec_step e v = (st, w)"
  shows "vec_ok w \<and> vec_elems w = list_step (snd (snd e)) st (vec_elems v)"
proof -
  obtain grant junk op where e: "e = (grant, junk, op)" by (cases e)
  show ?thesis
  proof (cases op)
    case (Vec_reserve n)
    then show ?thesis using assms vec.reserved [of v grant n st w] by (simp add: e vec_step_def list_step_def)
  next
    case (Vec_push x)
    obtain r where "idx_vec_push grant junk (Some v) (Some x) = (st, r)" "w = the r"
      using assms(2) by (auto simp: e vec_step_def Vec_push vec_push_def simp del: idx_vec_push.simps split: prod.splits)
    then show ?thesis using push_ok [OF assms(1)] by (fastforce simp: e list_step_def Vec_push)
  next
    case Vec_pop
    then show ?thesis using assms
      by (auto simp: e vec_step_def list_step_def vec_ok_def Let_def butlast_conv_take split: if_splits)
  next
    case Vec_clear
    then show ?thesis using assms by (auto simp: e vec_step_def list_step_def vec_ok_def idx_vec_clear_def)
  qed
qed

lemma vec_run_ok:
  "vec_ok v \<Longrightarrow> vec_run es v = (sts, w) \<Longrightarrow>
     vec_ok w \<and> length sts = length es \<and> vec_elems w = list_run (map (snd \<circ> snd) es) sts (vec_elems v)"
proof (induction es arbitrary: v sts)
  case (Cons e es)
  obtain st v1 where step: "vec_step e v = (st, v1)" by fastforce
  obtain sts1 where run: "vec_run es v1 = (sts1, w)" "sts = st # sts1" using Cons.prems(2) step by (auto split: prod.splits)
  have "vec_ok v1" "vec_elems v1 = list_step (snd (snd e)) st (vec_elems v)" using vec_step_ok [OF Cons.prems(1) step] by simp_all
  then show ?case using Cons.IH [OF _ run(1)] run(2) by (simp add: list_run_def)
qed (simp add: list_run_def)

text \<open>
  C22: The array is a list. From an empty array, after any operations under any answers of the
  allocator, reading an index gives the element a list would have there, in which a refused
  push is no push; and the elements always fit the memory.
\<close>

theorem vec_refines_list:
  assumes "idx_vec_init (Some junk) elem_size = Some v" "0 < elem_size" "vec_run es v = (sts, w)"
  shows "idx_vec_at (Some w) i = (let xs = list_run (map (snd \<circ> snd) es) sts [] in if i < length xs then Some (xs ! i) else None) \<and>
    idx_vec_len (Some w) = length (list_run (map (snd \<circ> snd) es) sts []) \<and> vec_ok w"
proof -
  have "vec_ok v" "vec_elems v = []" using assms(1,2) by (auto simp: idx_vec_init_def vec_ok_def)
  then show ?thesis using vec_run_ok [OF _ assms(3)] by (simp add: idx_vec_len_def)
qed

theorem vec_refines_list_witness:
  "\<exists>w. vec_run [(\<lambda>_. True, 0, Vec_push (7 :: nat)), (\<lambda>_. True, 0, Vec_push 9), (\<lambda>_. True, 0, Vec_pop)]
       \<lparr>vec_elems = [], vec_capacity = 0, vec_elem_size = 8\<rparr> = ([IDX_OK, IDX_OK, IDX_OK], w) \<and>
     idx_vec_at (Some w) 0 = Some 7 \<and> idx_vec_len (Some w) = 1"
proof -
  let ?v = "\<lparr>vec_elems = [], vec_capacity = 0, vec_elem_size = 8\<rparr> :: nat idx_vec"
  let ?es = "[(\<lambda>_. True, 0, Vec_push (7 :: nat)), (\<lambda>_. True, 0, Vec_push 9), (\<lambda>_. True, 0, Vec_pop)]"
  have init: "idx_vec_init (Some ?v) 8 = Some ?v" by (simp add: idx_vec_init_def)
  have "grow_capacity 8 1 = 8" by (simp add: grow_capacity.simps)
  then have run: "\<exists>w. vec_run ?es ?v = ([IDX_OK, IDX_OK, IDX_OK], w)"
    by (simp add: vec_step_def vec_push_def idx_vec_push_uninit_def Let_def IDX_VEC_MIN_CAPACITY_def SIZE_MAX_def)
  then obtain w where w: "vec_run ?es ?v = ([IDX_OK, IDX_OK, IDX_OK], w)" by blast
  have "list_run (map (snd \<circ> snd) ?es) [IDX_OK, IDX_OK, IDX_OK] [] = [7]" by (simp add: list_run_def list_step_def)
  with vec_refines_list [OF init _ w, of 0] w show ?thesis by (auto simp del: vec_run.simps idx_vec_at.simps)
qed

end
