(* ===== verification/Store.thy ===== *)
theory Store
  imports Vec Arena Balance Transfers Pools Tokens Bars
begin

text \<open>
  The storage interface (\<^verbatim>\<open>src/store.c\<close>, \<^verbatim>\<open>include/store.h\<close>): what is written, the two tiers'
  tables of operations with the wrappers that dispatch on them, and the in-memory backends. A
  row of any kind is one datatype, where the source uses untyped memory and a table of
  sizes; a backend's operation takes, besides its context, the allocators' answers.
\<close>

section \<open>What is written\<close>

record idx_store_ref =
  rf_slot :: u64
  rf_transaction_index :: u16
  rf_signature :: idx_signature

record idx_store_block_row =
  bk_slot :: u64
  bk_blockhash :: idx_hash
  bk_previous_blockhash :: idx_hash
  bk_parent_slot :: u64
  bk_block_time :: "64 word"
  bk_has_block_time :: bool
  bk_block_height :: u64
  bk_has_block_height :: bool
  bk_transaction_count :: u32

record idx_store_sol_balance_row =
  sr_ref :: idx_store_ref
  sr_balance :: idx_sol_balance

record idx_store_token_balance_row =
  kr_ref :: idx_store_ref
  kr_balance :: idx_token_balance_state

record idx_store_transfer_row =
  xr_ref :: idx_store_ref
  xr_transfer :: idx_transfer

record idx_store_swap_row =
  wr_ref :: idx_store_ref
  wr_swap :: idx_swap_row
  wr_price :: idx_price
  wr_block_time :: "64 word"
  wr_has_block_time :: bool

record idx_store_write_set =
  ws_blocks :: "idx_store_block_row list"
  ws_sol_balances :: "idx_store_sol_balance_row list"
  ws_token_balances :: "idx_store_token_balance_row list"
  ws_transfers :: "idx_store_transfer_row list"
  ws_swaps :: "idx_store_swap_row list"
  ws_pools :: "idx_pool list"
  ws_tokens :: "idx_token list"
  ws_bars :: "idx_bar list"

datatype entity = E_BLOCK | E_SOL_BALANCE | E_TOKEN_BALANCE | E_TRANSFER | E_SWAP | E_POOL | E_TOKEN | E_BAR

definition ENTITIES :: "entity list" where
  "ENTITIES = [E_BLOCK, E_SOL_BALANCE, E_TOKEN_BALANCE, E_TRANSFER, E_SWAP, E_POOL, E_TOKEN, E_BAR]"

datatype store_row =
    Block_row idx_store_block_row
  | Sol_balance_row idx_store_sol_balance_row
  | Token_balance_row idx_store_token_balance_row
  | Transfer_row idx_store_transfer_row
  | Swap_store_row idx_store_swap_row
  | Pool_row idx_pool
  | Token_row idx_token
  | Bar_row idx_bar

definition g_elem_size :: "entity \<Rightarrow> nat" where
  "g_elem_size e = (case e of
      E_BLOCK \<Rightarrow> 112 | E_SOL_BALANCE \<Rightarrow> 128 | E_TOKEN_BALANCE \<Rightarrow> 200 | E_TRANSFER \<Rightarrow> 312
    | E_SWAP \<Rightarrow> 384 | E_POOL \<Rightarrow> 184 | E_TOKEN \<Rightarrow> 336 | E_BAR \<Rightarrow> 144)"

text \<open>The slot a row is deleted and read by.\<close>

definition row_slot :: "store_row \<Rightarrow> u64" where
  "row_slot row = (case row of
      Block_row r \<Rightarrow> bk_slot r
    | Sol_balance_row r \<Rightarrow> rf_slot (sr_ref r)
    | Token_balance_row r \<Rightarrow> rf_slot (kr_ref r)
    | Transfer_row r \<Rightarrow> rf_slot (xr_ref r)
    | Swap_store_row r \<Rightarrow> rf_slot (wr_ref r)
    | Pool_row r \<Rightarrow> po_first_seen_slot r
    | Token_row r \<Rightarrow> tk_first_seen_slot r
    | Bar_row r \<Rightarrow> sq_slot (ba_close_seq r))"

definition ws_arrays :: "idx_store_write_set \<Rightarrow> entity \<Rightarrow> store_row list" where
  "ws_arrays wset e = (case e of
      E_BLOCK \<Rightarrow> map Block_row (ws_blocks wset)
    | E_SOL_BALANCE \<Rightarrow> map Sol_balance_row (ws_sol_balances wset)
    | E_TOKEN_BALANCE \<Rightarrow> map Token_balance_row (ws_token_balances wset)
    | E_TRANSFER \<Rightarrow> map Transfer_row (ws_transfers wset)
    | E_SWAP \<Rightarrow> map Swap_store_row (ws_swaps wset)
    | E_POOL \<Rightarrow> map Pool_row (ws_pools wset)
    | E_TOKEN \<Rightarrow> map Token_row (ws_tokens wset)
    | E_BAR \<Rightarrow> map Bar_row (ws_bars wset))"

definition empty_write_set :: idx_store_write_set where
  "empty_write_set = \<lparr>ws_blocks = [], ws_sol_balances = [], ws_token_balances = [], ws_transfers = [],
     ws_swaps = [], ws_pools = [], ws_tokens = [], ws_bars = []\<rparr>"

definition idx_store_write_set_init :: "idx_store_write_set option \<Rightarrow> idx_store_write_set option" where
  "idx_store_write_set_init = map_option (\<lambda>_. empty_write_set)"

definition idx_store_write_set_total :: "idx_store_write_set option \<Rightarrow> nat" where
  "idx_store_write_set_total wset = (case wset of
      None \<Rightarrow> 0
    | Some s \<Rightarrow> fold (\<lambda>e n. n + length (ws_arrays s e)) ENTITIES 0)"

record idx_store_counts =
  ct_blocks :: nat
  ct_sol_balances :: nat
  ct_token_balances :: nat
  ct_transfers :: nat
  ct_swaps :: nat
  ct_pools :: nat
  ct_tokens :: nat
  ct_bars :: nat

definition idx_store_counts_total :: "idx_store_counts option \<Rightarrow> nat" where
  "idx_store_counts_total counts = (case counts of
      None \<Rightarrow> 0
    | Some c \<Rightarrow> ct_blocks c + ct_sol_balances c + ct_token_balances c + ct_transfers c + ct_swaps c +
        ct_pools c + ct_tokens c + ct_bars c)"

section \<open>The tiers' tables and the dispatch\<close>

text \<open>\<open>address\<close> identifies a table, where the source compares pointers to it.\<close>

record ('c, 's) idx_confirmed_store_vt =
  cv_address :: nat
  cv_name :: "('s \<Rightarrow> string) option"
  cv_write :: "('c \<Rightarrow> 's \<Rightarrow> idx_store_write_set \<Rightarrow> idx_status \<times> 's) option"
  cv_reorg :: "('c \<Rightarrow> 's \<Rightarrow> u64 \<Rightarrow> idx_store_write_set option \<Rightarrow> idx_status \<times> 's) option"
  cv_prune :: "('s \<Rightarrow> u64 \<Rightarrow> idx_status \<times> 's) option"
  cv_read_range :: "(malloc_fn \<Rightarrow> 's \<Rightarrow> u64 \<Rightarrow> u64 \<Rightarrow> (idx_store_write_set, idx_arena option) op) option"
  cv_close :: "('s \<Rightarrow> 's) option"

record ('c, 's) idx_confirmed_store =
  cs_vt :: "('c, 's) idx_confirmed_store_vt option"
  cs_ctx :: 's

text \<open>The operation behind a handle: \<open>None\<close> when the handle, its table or the entry is \<^verbatim>\<open>NULL\<close>.\<close>

definition confirmed_entry ::
    "(('c, 's) idx_confirmed_store_vt \<Rightarrow> 'f option) \<Rightarrow> ('c, 's) idx_confirmed_store option \<Rightarrow> 'f option" where
  "confirmed_entry sel store = Option.bind (Option.bind store cs_vt) sel"

definition idx_confirmed_store_name :: "('c, 's) idx_confirmed_store option \<Rightarrow> string" where
  "idx_confirmed_store_name store = (case confirmed_entry cv_name store of
      None \<Rightarrow> ''unset''
    | Some f \<Rightarrow> f (cs_ctx (the store)))"

definition confirmed_stateful ::
    "('s \<Rightarrow> idx_status \<times> 's) option \<Rightarrow> ('c, 's) idx_confirmed_store option \<Rightarrow> idx_status \<times> ('c, 's) idx_confirmed_store option" where
  "confirmed_stateful f store = (case f of
      None \<Rightarrow> (IDX_ERR_INVALID_ARG, store)
    | Some f \<Rightarrow> (case f (cs_ctx (the store)) of (st, ctx) \<Rightarrow> (st, Some ((the store)\<lparr>cs_ctx := ctx\<rparr>))))"

definition idx_confirmed_store_write ::
    "'c \<Rightarrow> ('c, 's) idx_confirmed_store option \<Rightarrow> idx_store_write_set option \<Rightarrow> idx_status \<times> ('c, 's) idx_confirmed_store option" where
  "idx_confirmed_store_write ch store wset =
     confirmed_stateful (case wset of None \<Rightarrow> None
       | Some s \<Rightarrow> map_option (\<lambda>f ctx. f ch ctx s) (confirmed_entry cv_write store)) store"

definition idx_confirmed_store_reorg ::
    "'c \<Rightarrow> ('c, 's) idx_confirmed_store option \<Rightarrow> u64 \<Rightarrow> idx_store_write_set option \<Rightarrow>
     idx_status \<times> ('c, 's) idx_confirmed_store option" where
  "idx_confirmed_store_reorg ch store from_slot replacement =
     confirmed_stateful (map_option (\<lambda>f ctx. f ch ctx from_slot replacement) (confirmed_entry cv_reorg store)) store"

definition idx_confirmed_store_prune ::
    "('c, 's) idx_confirmed_store option \<Rightarrow> u64 \<Rightarrow> idx_status \<times> ('c, 's) idx_confirmed_store option" where
  "idx_confirmed_store_prune store below_slot =
     confirmed_stateful (map_option (\<lambda>f ctx. f ctx below_slot) (confirmed_entry cv_prune store)) store"

definition idx_confirmed_store_read_range ::
    "malloc_fn \<Rightarrow> ('c, 's) idx_confirmed_store option \<Rightarrow> u64 \<Rightarrow> u64 \<Rightarrow> (idx_store_write_set, idx_arena option) op" where
  "idx_confirmed_store_read_range malloc store from_slot to_slot arena =
     (case confirmed_entry cv_read_range store of
        None \<Rightarrow> (Inl IDX_ERR_INVALID_ARG, arena)
      | Some f \<Rightarrow>
          if arena = None then (Inl IDX_ERR_INVALID_ARG, arena)
          else if from_slot > to_slot then (Inl IDX_ERR_RANGE, arena)
          else f malloc (cs_ctx (the store)) from_slot to_slot arena)"

text \<open>Closing frees the handle; the result is the state its context was left in.\<close>

definition idx_confirmed_store_close :: "('c, 's) idx_confirmed_store option \<Rightarrow> 's option" where
  "idx_confirmed_store_close store = (case store of
      None \<Rightarrow> None
    | Some s \<Rightarrow> (case confirmed_entry cv_close store of
        None \<Rightarrow> Some (cs_ctx s)
      | Some f \<Rightarrow> Some (f (cs_ctx s))))"

record ('c, 's) idx_finalized_store_vt =
  fv_address :: nat
  fv_name :: "('s \<Rightarrow> string) option"
  fv_append :: "('c \<Rightarrow> 's \<Rightarrow> idx_store_write_set \<Rightarrow> idx_status \<times> 's) option"
  fv_flush :: "('s \<Rightarrow> idx_status \<times> 's) option"
  fv_close :: "('s \<Rightarrow> 's) option"

record ('c, 's) idx_finalized_store =
  fs_vt :: "('c, 's) idx_finalized_store_vt option"
  fs_ctx :: 's

definition finalized_entry ::
    "(('c, 's) idx_finalized_store_vt \<Rightarrow> 'f option) \<Rightarrow> ('c, 's) idx_finalized_store option \<Rightarrow> 'f option" where
  "finalized_entry sel store = Option.bind (Option.bind store fs_vt) sel"

definition idx_finalized_store_name :: "('c, 's) idx_finalized_store option \<Rightarrow> string" where
  "idx_finalized_store_name store = (case finalized_entry fv_name store of
      None \<Rightarrow> ''unset''
    | Some f \<Rightarrow> f (fs_ctx (the store)))"

definition finalized_stateful ::
    "('s \<Rightarrow> idx_status \<times> 's) option \<Rightarrow> ('c, 's) idx_finalized_store option \<Rightarrow> idx_status \<times> ('c, 's) idx_finalized_store option" where
  "finalized_stateful f store = (case f of
      None \<Rightarrow> (IDX_ERR_INVALID_ARG, store)
    | Some f \<Rightarrow> (case f (fs_ctx (the store)) of (st, ctx) \<Rightarrow> (st, Some ((the store)\<lparr>fs_ctx := ctx\<rparr>))))"

definition idx_finalized_store_append ::
    "'c \<Rightarrow> ('c, 's) idx_finalized_store option \<Rightarrow> idx_store_write_set option \<Rightarrow> idx_status \<times> ('c, 's) idx_finalized_store option" where
  "idx_finalized_store_append ch store wset =
     finalized_stateful (case wset of None \<Rightarrow> None
       | Some s \<Rightarrow> map_option (\<lambda>f ctx. f ch ctx s) (finalized_entry fv_append store)) store"

definition idx_finalized_store_flush ::
    "('c, 's) idx_finalized_store option \<Rightarrow> idx_status \<times> ('c, 's) idx_finalized_store option" where
  "idx_finalized_store_flush store = finalized_stateful (finalized_entry fv_flush store) store"

definition idx_finalized_store_close :: "('c, 's) idx_finalized_store option \<Rightarrow> 's option" where
  "idx_finalized_store_close store = (case store of
      None \<Rightarrow> None
    | Some s \<Rightarrow> (case finalized_entry fv_close store of
        None \<Rightarrow> Some (fs_ctx s)
      | Some f \<Rightarrow> Some (f (fs_ctx s))))"

section \<open>Rows in memory\<close>

type_synonym mem_rows = "entity \<Rightarrow> store_row idx_vec"

text \<open>What \<^verbatim>\<open>realloc\<close> answers for each array, and what uninitialised memory holds.\<close>

type_synonym mem_choice = "(entity \<Rightarrow> nat \<Rightarrow> bool) \<times> store_row"

definition mem_rows_init :: mem_rows where
  "mem_rows_init e = \<lparr>vec_elems = [], vec_capacity = 0, vec_elem_size = g_elem_size e\<rparr>"

definition mem_rows_free :: "mem_rows \<Rightarrow> mem_rows" where
  "mem_rows_free m = fold (\<lambda>e m. m(e := the (idx_vec_free (Some (m e))))) ENTITIES m"

fun reserve_rows :: "mem_choice \<Rightarrow> (entity \<Rightarrow> store_row list) \<Rightarrow> entity list \<Rightarrow> mem_rows \<Rightarrow> idx_status \<times> mem_rows" where
  "reserve_rows ch arrays [] m = (IDX_OK, m)"
| "reserve_rows ch arrays (e # es) m =
     (case vec_reserve (fst ch e) (m e) (length (arrays e)) of
        (st, v) \<Rightarrow> if st \<noteq> IDX_OK then (st, m(e := v)) else reserve_rows ch arrays es (m(e := v)))"

text \<open>The pushes, whose statuses the source ignores.\<close>

fun push_rows :: "mem_choice \<Rightarrow> entity \<Rightarrow> store_row list \<Rightarrow> store_row idx_vec \<Rightarrow> store_row idx_vec" where
  "push_rows ch e [] v = v"
| "push_rows ch e (x # xs) v = push_rows ch e xs (snd (vec_push (fst ch e) (snd ch) v x))"

fun mem_rows_append :: "mem_choice \<Rightarrow> mem_rows \<Rightarrow> idx_store_write_set option \<Rightarrow> idx_status \<times> mem_rows" where
  "mem_rows_append ch m None = (IDX_OK, m)"
| "mem_rows_append ch m (Some wset) =
     (case reserve_rows ch (ws_arrays wset) ENTITIES m of
        (st, m) \<Rightarrow> if st \<noteq> IDX_OK then (st, m)
          else (IDX_OK, fold (\<lambda>e m. m(e := push_rows ch e (ws_arrays wset e) (m e))) ENTITIES m))"

text \<open>The compaction in place: \<open>n\<close> rows to look at, read index \<open>r\<close>, write index \<open>w\<close>.\<close>

fun compact :: "(store_row \<Rightarrow> bool) \<Rightarrow> nat \<Rightarrow> nat \<Rightarrow> nat \<Rightarrow> store_row list \<Rightarrow> store_row list \<times> nat" where
  "compact keep 0 r w xs = (xs, w)"
| "compact keep (Suc n) r w xs =
     (if keep (xs ! r) then compact keep n (r + 1) (w + 1) (if w \<noteq> r then xs[w := xs ! r] else xs)
      else compact keep n (r + 1) w xs)"

definition mem_rows_retain :: "mem_rows \<Rightarrow> (u64 \<Rightarrow> u64 \<Rightarrow> bool) \<Rightarrow> u64 \<Rightarrow> mem_rows" where
  "mem_rows_retain m keep pivot = (\<lambda>e.
     case compact (\<lambda>row. keep (row_slot row) pivot) (length (vec_elems (m e))) 0 0 (vec_elems (m e)) of
       (xs, w) \<Rightarrow> (m e)\<lparr>vec_elems := take w xs\<rparr>)"

definition keep_below :: "u64 \<Rightarrow> u64 \<Rightarrow> bool" where
  "keep_below at_slot pivot \<longleftrightarrow> at_slot < pivot"

definition keep_at_or_above :: "u64 \<Rightarrow> u64 \<Rightarrow> bool" where
  "keep_at_or_above at_slot pivot \<longleftrightarrow> at_slot \<ge> pivot"

definition mem_rows_counts :: "mem_rows \<Rightarrow> idx_store_counts" where
  "mem_rows_counts m =
     (let n = (\<lambda>e. length (vec_elems (m e))) in
      \<lparr>ct_blocks = n E_BLOCK, ct_sol_balances = n E_SOL_BALANCE, ct_token_balances = n E_TOKEN_BALANCE,
       ct_transfers = n E_TRANSFER, ct_swaps = n E_SWAP, ct_pools = n E_POOL, ct_tokens = n E_TOKEN, ct_bars = n E_BAR\<rparr>)"

definition mem_collect_range ::
    "malloc_fn \<Rightarrow> store_row idx_vec \<Rightarrow> u64 \<Rightarrow> u64 \<Rightarrow> (store_row list, idx_arena option) op" where
  "mem_collect_range malloc v from_slot to_slot =
     (let matched = filter (\<lambda>row. row_slot row \<ge> from_slot \<and> row_slot row \<le> to_slot) (vec_elems v) in
      if length matched = 0 then op_return (Inr [])
      else op_try (idx_arena_calloc malloc (length matched) (vec_elem_size v)) (\<lambda>_. op_return (Inr matched)))"

section \<open>The backends\<close>

definition mem_confirmed_name :: "mem_rows \<Rightarrow> string" where
  "mem_confirmed_name m = ''memory-confirmed''"

definition mem_confirmed_write :: "mem_choice \<Rightarrow> mem_rows \<Rightarrow> idx_store_write_set \<Rightarrow> idx_status \<times> mem_rows" where
  "mem_confirmed_write ch m wset = mem_rows_append ch m (Some wset)"

definition mem_confirmed_reorg ::
    "mem_choice \<Rightarrow> mem_rows \<Rightarrow> u64 \<Rightarrow> idx_store_write_set option \<Rightarrow> idx_status \<times> mem_rows" where
  "mem_confirmed_reorg ch m from_slot replacement =
     (case (case replacement of None \<Rightarrow> (IDX_OK, m) | Some wset \<Rightarrow> reserve_rows ch (ws_arrays wset) ENTITIES m) of
        (st, m) \<Rightarrow> if st \<noteq> IDX_OK then (st, m)
          else mem_rows_append ch (mem_rows_retain m keep_below from_slot) replacement)"

definition mem_confirmed_prune :: "mem_rows \<Rightarrow> u64 \<Rightarrow> idx_status \<times> mem_rows" where
  "mem_confirmed_prune m below_slot = (IDX_OK, mem_rows_retain m keep_at_or_above below_slot)"

text \<open>The collected arrays, in the order of the entities, as a write set.\<close>

definition collected_set :: "store_row list list \<Rightarrow> idx_store_write_set" where
  "collected_set data =
     \<lparr>ws_blocks = List.map_filter (\<lambda>r. case r of Block_row b \<Rightarrow> Some b | _ \<Rightarrow> None) (data ! 0),
      ws_sol_balances = List.map_filter (\<lambda>r. case r of Sol_balance_row b \<Rightarrow> Some b | _ \<Rightarrow> None) (data ! 1),
      ws_token_balances = List.map_filter (\<lambda>r. case r of Token_balance_row b \<Rightarrow> Some b | _ \<Rightarrow> None) (data ! 2),
      ws_transfers = List.map_filter (\<lambda>r. case r of Transfer_row b \<Rightarrow> Some b | _ \<Rightarrow> None) (data ! 3),
      ws_swaps = List.map_filter (\<lambda>r. case r of Swap_store_row b \<Rightarrow> Some b | _ \<Rightarrow> None) (data ! 4),
      ws_pools = List.map_filter (\<lambda>r. case r of Pool_row b \<Rightarrow> Some b | _ \<Rightarrow> None) (data ! 5),
      ws_tokens = List.map_filter (\<lambda>r. case r of Token_row b \<Rightarrow> Some b | _ \<Rightarrow> None) (data ! 6),
      ws_bars = List.map_filter (\<lambda>r. case r of Bar_row b \<Rightarrow> Some b | _ \<Rightarrow> None) (data ! 7)\<rparr>"

definition mem_confirmed_read_range ::
    "malloc_fn \<Rightarrow> mem_rows \<Rightarrow> u64 \<Rightarrow> u64 \<Rightarrow> (idx_store_write_set, idx_arena option) op" where
  "mem_confirmed_read_range malloc m from_slot to_slot =
     op_try (op_map (\<lambda>e. mem_collect_range malloc (m e) from_slot to_slot) ENTITIES)
       (\<lambda>data. op_return (Inr (collected_set data)))"

definition mem_confirmed_close :: "mem_rows \<Rightarrow> mem_rows" where
  "mem_confirmed_close = mem_rows_free"

definition g_mem_confirmed_vt :: "(mem_choice, mem_rows) idx_confirmed_store_vt" where
  "g_mem_confirmed_vt = \<lparr>cv_address = 1, cv_name = Some mem_confirmed_name, cv_write = Some mem_confirmed_write,
     cv_reorg = Some mem_confirmed_reorg, cv_prune = Some mem_confirmed_prune,
     cv_read_range = Some mem_confirmed_read_range, cv_close = Some mem_confirmed_close\<rparr>"

definition idx_mem_confirmed_store_open ::
    "bool \<Rightarrow> bool \<Rightarrow> (mem_choice, mem_rows) idx_confirmed_store result" where
  "idx_mem_confirmed_store_open store_granted rows_granted =
     (if \<not> store_granted \<or> \<not> rows_granted then Inl IDX_ERR_NO_MEMORY
      else Inr \<lparr>cs_vt = Some g_mem_confirmed_vt, cs_ctx = mem_rows_init\<rparr>)"

definition zero_counts :: idx_store_counts where
  "zero_counts = \<lparr>ct_blocks = 0, ct_sol_balances = 0, ct_token_balances = 0, ct_transfers = 0, ct_swaps = 0,
     ct_pools = 0, ct_tokens = 0, ct_bars = 0\<rparr>"

definition idx_mem_confirmed_store_counts :: "(mem_choice, mem_rows) idx_confirmed_store option \<Rightarrow> idx_store_counts" where
  "idx_mem_confirmed_store_counts store =
     (if map_option cv_address (Option.bind store cs_vt) \<noteq> Some (cv_address g_mem_confirmed_vt) then zero_counts
      else mem_rows_counts (cs_ctx (the store)))"

record mem_finalized =
  mf_rows :: mem_rows
  mf_pending :: nat
  mf_flushes :: nat

definition mem_finalized_name :: "mem_finalized \<Rightarrow> string" where
  "mem_finalized_name f = ''memory-finalized''"

definition mem_finalized_append :: "mem_choice \<Rightarrow> mem_finalized \<Rightarrow> idx_store_write_set \<Rightarrow> idx_status \<times> mem_finalized" where
  "mem_finalized_append ch f wset =
     (let before = idx_store_write_set_total (Some wset) in
      case mem_rows_append ch (mf_rows f) (Some wset) of
        (st, rows) \<Rightarrow> if st \<noteq> IDX_OK then (st, f\<lparr>mf_rows := rows\<rparr>)
          else (IDX_OK, f\<lparr>mf_rows := rows, mf_pending := mf_pending f + before\<rparr>))"

definition mem_finalized_flush :: "mem_finalized \<Rightarrow> idx_status \<times> mem_finalized" where
  "mem_finalized_flush f = (IDX_OK, f\<lparr>mf_pending := 0, mf_flushes := mf_flushes f + 1\<rparr>)"

definition mem_finalized_close :: "mem_finalized \<Rightarrow> mem_finalized" where
  "mem_finalized_close f = f\<lparr>mf_rows := mem_rows_free (mf_rows f)\<rparr>"

definition g_mem_finalized_vt :: "(mem_choice, mem_finalized) idx_finalized_store_vt" where
  "g_mem_finalized_vt = \<lparr>fv_address = 2, fv_name = Some mem_finalized_name, fv_append = Some mem_finalized_append,
     fv_flush = Some mem_finalized_flush, fv_close = Some mem_finalized_close\<rparr>"

definition idx_mem_finalized_store_open ::
    "bool \<Rightarrow> bool \<Rightarrow> (mem_choice, mem_finalized) idx_finalized_store result" where
  "idx_mem_finalized_store_open store_granted rows_granted =
     (if \<not> store_granted \<or> \<not> rows_granted then Inl IDX_ERR_NO_MEMORY
      else Inr \<lparr>fs_vt = Some g_mem_finalized_vt,
                fs_ctx = \<lparr>mf_rows = mem_rows_init, mf_pending = 0, mf_flushes = 0\<rparr>\<rparr>)"

definition mem_finalized_of :: "(mem_choice, mem_finalized) idx_finalized_store option \<Rightarrow> mem_finalized option" where
  "mem_finalized_of store =
     (if map_option fv_address (Option.bind store fs_vt) \<noteq> Some (fv_address g_mem_finalized_vt) then None
      else Some (fs_ctx (the store)))"

definition idx_mem_finalized_store_counts :: "(mem_choice, mem_finalized) idx_finalized_store option \<Rightarrow> idx_store_counts" where
  "idx_mem_finalized_store_counts store = (case mem_finalized_of store of None \<Rightarrow> zero_counts | Some f \<Rightarrow> mem_rows_counts (mf_rows f))"

definition idx_mem_finalized_store_pending :: "(mem_choice, mem_finalized) idx_finalized_store option \<Rightarrow> nat" where
  "idx_mem_finalized_store_pending store = (case mem_finalized_of store of None \<Rightarrow> 0 | Some f \<Rightarrow> mf_pending f)"

definition idx_mem_finalized_store_flushes :: "(mem_choice, mem_finalized) idx_finalized_store option \<Rightarrow> nat" where
  "idx_mem_finalized_store_flushes store = (case mem_finalized_of store of None \<Rightarrow> 0 | Some f \<Rightarrow> mf_flushes f)"

end
