(* ===== verification/StoreRuns.thy ===== *)
theory StoreRuns
  imports Store
begin

text \<open>
  What the two tiers promise and the in-memory backends keep: a write, a reorganisation and a
  pruning act on the rows as on lists, all or nothing; a range reads again exactly its rows; an
  append is counted as pending until the next flush.
\<close>

section \<open>Rows as lists\<close>

definition mem_ok :: "mem_rows \<Rightarrow> bool" where
  "mem_ok m \<longleftrightarrow> (\<forall>e. vec_ok (m e))"

definition mem_contents :: "mem_rows \<Rightarrow> entity \<Rightarrow> store_row list" where
  "mem_contents m e = vec_elems (m e)"

lemma all_entities: "e \<in> set ENTITIES"
  by (cases e) (simp_all add: ENTITIES_def)

lemma init_rows_ok: "mem_ok mem_rows_init" "mem_contents mem_rows_init = (\<lambda>_. [])"
  by (auto simp: mem_ok_def mem_rows_init_def vec_ok_def mem_contents_def fun_eq_iff g_elem_size_def split: entity.split)

lemma reserve_result:
  assumes "vec_ok v" "vec_reserve g v n = (st, w)"
  shows "vec_ok w \<and> vec_elems w = vec_elems v \<and> vec_room v \<le> vec_room w \<and> (st = IDX_OK \<longrightarrow> n \<le> vec_room w) \<and>
    (st = IDX_OK \<or> st = IDX_ERR_RANGE \<or> st = IDX_ERR_NO_MEMORY)"
proof -
  obtain r where "idx_vec_reserve g (Some v) n = (st, r)" "w = the r"
    using assms(2) by (auto simp: vec_reserve_def simp del: idx_vec_reserve.simps split: prod.splits)
  then show ?thesis using vec_reserve_ok [OF assms(1)] by fastforce
qed

lemma reserve_enough: "vec_ok v \<Longrightarrow> n \<le> vec_room v \<Longrightarrow> vec_reserve g v n = (IDX_OK, v)"
  by (simp add: vec_reserve_def vec_ok_def vec_room_def)

definition roomier :: "mem_rows \<Rightarrow> mem_rows \<Rightarrow> bool" where
  "roomier m m' \<longleftrightarrow> (\<forall>e. vec_room (m e) \<le> vec_room (m' e))"

definition reservable :: "idx_status \<Rightarrow> bool" where
  "reservable st \<longleftrightarrow> st = IDX_OK \<or> st = IDX_ERR_RANGE \<or> st = IDX_ERR_NO_MEMORY"

lemma reserve_rows_ok:
  "mem_ok m \<Longrightarrow> reserve_rows ch arrays es m = (st, m') \<Longrightarrow>
     mem_ok m' \<and> mem_contents m' = mem_contents m \<and> roomier m m' \<and> reservable st \<and>
     (st = IDX_OK \<longrightarrow> (\<forall>e \<in> set es. length (arrays e) \<le> vec_room (m' e)))"
proof (induction es arbitrary: m)
  case (Cons e es)
  obtain st1 v where one: "vec_reserve (fst ch e) (m e) (length (arrays e)) = (st1, v)" by fastforce
  have "vec_ok (m e)" using Cons.prems(1) by (simp add: mem_ok_def)
  note v = reserve_result [OF this one]
  define m1 where "m1 = m(e := v)"
  have m1: "mem_ok m1" "mem_contents m1 = mem_contents m" "roomier m m1" "m1 e = v"
    using Cons.prems(1) v by (auto simp: m1_def mem_ok_def mem_contents_def roomier_def fun_eq_iff)
  show ?case
  proof (cases "st1 = IDX_OK")
    case True
    then have "reserve_rows ch arrays es m1 = (st, m')" using Cons.prems(2) one by (simp add: m1_def)
    note rest = Cons.IH [OF m1(1) this]
    have "vec_room v \<le> vec_room (m' e)" using rest m1(4) by (auto simp: roomier_def)
    moreover have "roomier m m'" using rest m1(3) unfolding roomier_def by (meson order_trans)
    ultimately show ?thesis using rest m1(2) v True by auto
  next
    case False
    then have "st = st1" "m' = m1" using Cons.prems(2) one by (simp_all add: m1_def)
    then show ?thesis using v m1 False by (simp add: reservable_def)
  qed
qed (auto simp: roomier_def reservable_def)

lemma reserve_rows_enough:
  "mem_ok m \<Longrightarrow> \<forall>e \<in> set es. length (arrays e) \<le> vec_room (m e) \<Longrightarrow> reserve_rows ch arrays es m = (IDX_OK, m)"
  by (induction es) (simp_all add: reserve_enough mem_ok_def)

lemma push_rows_eq: "push_rows ch e xs v = growable.push_all (vec_push (fst ch e) (snd ch)) v xs"
  by (induction xs arbitrary: v) (simp_all add: vec.push_all.simps)

lemma push_rows_ok: "vec_ok v \<Longrightarrow> length xs \<le> vec_room v \<Longrightarrow> vec_ok (push_rows ch e xs v) \<and> vec_elems (push_rows ch e xs v) = vec_elems v @ xs"
  unfolding push_rows_eq by (rule vec.push_all_ok)

lemma each_entity: "fold (\<lambda>e m. m(e := f e (m e))) ENTITIES m = (\<lambda>e. f e (m e))"
proof
  fix e
  show "fold (\<lambda>e m. m(e := f e (m e))) ENTITIES m e = f e (m e)" by (cases e) (simp_all add: ENTITIES_def)
qed

lemma rows_append_ok:
  assumes "mem_ok m" "mem_rows_append ch m (Some wset) = (st, m')"
  shows "mem_ok m' \<and> reservable st \<and>
    mem_contents m' = (if st = IDX_OK then (\<lambda>e. mem_contents m e @ ws_arrays wset e) else mem_contents m)"
proof -
  obtain st1 m1 where res: "reserve_rows ch (ws_arrays wset) ENTITIES m = (st1, m1)" by fastforce
  note r = reserve_rows_ok [OF assms(1) res]
  show ?thesis
  proof (cases "st1 = IDX_OK")
    case True
    then have out: "st = IDX_OK" "m' = (\<lambda>e. push_rows ch e (ws_arrays wset e) (m1 e))"
      using assms(2) res each_entity [of "\<lambda>e. push_rows ch e (ws_arrays wset e)" m1] by simp_all
    have "vec_ok (m' e) \<and> vec_elems (m' e) = vec_elems (m1 e) @ ws_arrays wset e" for e
      unfolding out(2) using r True all_entities [of e] by (intro push_rows_ok) (simp_all add: mem_ok_def)
    then show ?thesis using r out(1) by (auto simp: mem_ok_def mem_contents_def fun_eq_iff reservable_def)
  next
    case False
    then show ?thesis using assms(2) res r by auto
  qed
qed

lemma append_enough:
  assumes "mem_ok m" "\<forall>e. length (ws_arrays wset e) \<le> vec_room (m e)"
  shows "fst (mem_rows_append ch m (Some wset)) = IDX_OK"
  using reserve_rows_enough [OF assms(1)] assms(2) by simp

lemma compact_ok:
  "compact keep n r w xs = (ys, v) \<Longrightarrow> w \<le> r \<Longrightarrow> r + n = length xs \<Longrightarrow>
     v \<le> length ys \<and> length ys = length xs \<and> take v ys = take w xs @ filter keep (drop r xs)"
proof (induction n arbitrary: r w xs)
  case (Suc n)
  have split: "drop r xs = xs ! r # drop (Suc r) xs" using Suc.prems(3) by (simp add: Cons_nth_drop_Suc)
  show ?case
  proof (cases "keep (xs ! r)")
    case True
    let ?xs = "if w \<noteq> r then xs[w := xs ! r] else xs"
    have xs: "length ?xs = length xs" "take (w + 1) ?xs = take w xs @ [xs ! r]" "drop (Suc r) ?xs = drop (Suc r) xs"
      using Suc.prems by (auto simp: take_Suc_conv_app_nth drop_update_cancel)
    have "compact keep n (r + 1) (w + 1) ?xs = (ys, v)" using Suc.prems(1) True by simp
    from Suc.IH [OF this] Suc.prems xs show ?thesis using True by (simp add: split)
  next
    case False
    then have "compact keep n (r + 1) w xs = (ys, v)" using Suc.prems(1) by simp
    from Suc.IH [OF this] Suc.prems False show ?thesis by (simp add: split)
  qed
qed auto

lemma retain_ok:
  assumes "mem_ok m"
  shows "mem_ok (mem_rows_retain m keep pivot)" "roomier m (mem_rows_retain m keep pivot)"
    "mem_contents (mem_rows_retain m keep pivot) = (\<lambda>e. filter (\<lambda>row. keep (row_slot row) pivot) (mem_contents m e))"
proof -
  have one: "\<exists>v ys. mem_rows_retain m keep pivot e = (m e)\<lparr>vec_elems := take v ys\<rparr> \<and>
      take v ys = filter (\<lambda>row. keep (row_slot row) pivot) (vec_elems (m e))" for e
  proof -
    obtain ys v where c: "compact (\<lambda>row. keep (row_slot row) pivot) (length (vec_elems (m e))) 0 0 (vec_elems (m e)) = (ys, v)"
      by fastforce
    from compact_ok [OF this] have "take v ys = filter (\<lambda>row. keep (row_slot row) pivot) (vec_elems (m e))" by simp
    moreover have "mem_rows_retain m keep pivot e = (m e)\<lparr>vec_elems := take v ys\<rparr>" by (simp add: mem_rows_retain_def c)
    ultimately show ?thesis by blast
  qed
  have short: "length (filter P xs) \<le> length xs" for P and xs :: "store_row list" by (rule length_filter_le)
  have ok: "vec_ok (mem_rows_retain m keep pivot e) \<and> vec_room (m e) \<le> vec_room (mem_rows_retain m keep pivot e)" for e
  proof -
    obtain ys where ys: "mem_rows_retain m keep pivot e = (m e)\<lparr>vec_elems := ys\<rparr>" "length ys \<le> length (vec_elems (m e))"
      using one [of e] short by metis
    moreover have "vec_ok (m e)" using assms by (simp add: mem_ok_def)
    ultimately show ?thesis by (auto simp: vec_ok_def vec_room_def)
  qed
  then show "mem_ok (mem_rows_retain m keep pivot)" "roomier m (mem_rows_retain m keep pivot)"
    by (simp_all add: mem_ok_def roomier_def)
  show "mem_contents (mem_rows_retain m keep pivot) = (\<lambda>e. filter (\<lambda>row. keep (row_slot row) pivot) (mem_contents m e))"
  proof
    fix e show "mem_contents (mem_rows_retain m keep pivot) e = filter (\<lambda>row. keep (row_slot row) pivot) (mem_contents m e)"
      using one [of e] by (auto simp: mem_contents_def)
  qed
qed

text \<open>The reorganisation reserves first; what it deletes only adds room, so the second step succeeds.\<close>

lemma reorg_ok:
  assumes "mem_ok m" "mem_confirmed_reorg ch m from_slot replacement = (st, m')"
  shows "mem_ok m' \<and> reservable st \<and> mem_contents m' = (if st = IDX_OK
      then (\<lambda>e. filter (\<lambda>row. row_slot row < from_slot) (mem_contents m e) @ (case replacement of None \<Rightarrow> [] | Some wset \<Rightarrow> ws_arrays wset e))
      else mem_contents m)"
proof (cases replacement)
  case None
  then have "st = IDX_OK" "m' = mem_rows_retain m keep_below from_slot"
    using assms(2) by (simp_all add: mem_confirmed_reorg_def)
  then show ?thesis using retain_ok [OF assms(1), of keep_below from_slot] None
    by (simp add: keep_below_def reservable_def)
next
  case (Some wset)
  obtain st1 m1 where res: "reserve_rows ch (ws_arrays wset) ENTITIES m = (st1, m1)" by fastforce
  note r = reserve_rows_ok [OF assms(1) res]
  show ?thesis
  proof (cases "st1 = IDX_OK")
    case True
    let ?m2 = "mem_rows_retain m1 keep_below from_slot"
    have app: "mem_rows_append ch ?m2 (Some wset) = (st, m')"
      using assms(2) True res Some by (simp add: mem_confirmed_reorg_def)
    have m1: "mem_ok m1" using r by blast
    note k = retain_ok [OF m1, of keep_below from_slot]
    have "length (ws_arrays wset e) \<le> vec_room (?m2 e)" for e
    proof -
      have "length (ws_arrays wset e) \<le> vec_room (m1 e)" using r True all_entities by blast
      then show ?thesis using k(2) unfolding roomier_def by (meson order_trans)
    qed
    then have "st = IDX_OK" using append_enough [OF k(1), of wset ch] app by simp
    then show ?thesis using rows_append_ok [OF k(1) app] k(3) r by (auto simp: Some keep_below_def fun_eq_iff)
  next
    case False
    then show ?thesis using assms(2) res r by (auto simp: mem_confirmed_reorg_def Some)
  qed
qed

section \<open>The confirmed tier\<close>

datatype tier_op = Tier_write idx_store_write_set | Tier_reorg u64 "idx_store_write_set option" | Tier_prune u64

type_synonym confirmed = "(mem_choice, mem_rows) idx_confirmed_store"

definition confirmed_step :: "mem_choice \<times> tier_op \<Rightarrow> confirmed \<Rightarrow> idx_status \<times> confirmed" where
  "confirmed_step e store =
     (case (case snd e of
        Tier_write wset \<Rightarrow> idx_confirmed_store_write (fst e) (Some store) (Some wset)
      | Tier_reorg from_slot replacement \<Rightarrow> idx_confirmed_store_reorg (fst e) (Some store) from_slot replacement
      | Tier_prune below_slot \<Rightarrow> idx_confirmed_store_prune (Some store) below_slot) of
      (st, s) \<Rightarrow> (st, the s))"

text \<open>What an operation is on the rows of an entity.\<close>

definition tier_effect :: "tier_op \<Rightarrow> (entity \<Rightarrow> store_row list) \<Rightarrow> entity \<Rightarrow> store_row list" where
  "tier_effect op rows e = (case op of
      Tier_write wset \<Rightarrow> rows e @ ws_arrays wset e
    | Tier_reorg from_slot replacement \<Rightarrow> filter (\<lambda>row. row_slot row < from_slot) (rows e) @
        (case replacement of None \<Rightarrow> [] | Some wset \<Rightarrow> ws_arrays wset e)
    | Tier_prune below_slot \<Rightarrow> filter (\<lambda>row. below_slot \<le> row_slot row) (rows e))"

definition mem_confirmed :: "mem_rows \<Rightarrow> confirmed" where
  "mem_confirmed m = \<lparr>cs_vt = Some g_mem_confirmed_vt, cs_ctx = m\<rparr>"

lemma confirmed_step_ok:
  assumes "mem_ok m" "confirmed_step (ch, op) (mem_confirmed m) = (st, store)"
  shows "\<exists>m'. store = mem_confirmed m' \<and> mem_ok m' \<and> reservable st \<and>
    mem_contents m' = (if st = IDX_OK then tier_effect op (mem_contents m) else mem_contents m)"
proof -
  note unfold = confirmed_step_def idx_confirmed_store_write_def idx_confirmed_store_reorg_def idx_confirmed_store_prune_def
    confirmed_stateful_def confirmed_entry_def mem_confirmed_def g_mem_confirmed_vt_def
  show ?thesis
  proof (cases op)
    case (Tier_write wset)
    obtain m' where "mem_rows_append ch m (Some wset) = (st, m')" "store = mem_confirmed m'"
      using assms(2) by (auto simp: unfold Tier_write mem_confirmed_write_def simp del: mem_rows_append.simps split: prod.splits)
    then show ?thesis using rows_append_ok [OF assms(1)] by (fastforce simp: Tier_write tier_effect_def)
  next
    case (Tier_reorg from_slot replacement)
    obtain m' where "mem_confirmed_reorg ch m from_slot replacement = (st, m')" "store = mem_confirmed m'"
      using assms(2) by (auto simp: unfold Tier_reorg split: prod.splits)
    then show ?thesis using reorg_ok [OF assms(1)] by (fastforce simp: Tier_reorg tier_effect_def)
  next
    case (Tier_prune below_slot)
    have "st = IDX_OK" "store = mem_confirmed (mem_rows_retain m keep_at_or_above below_slot)"
      using assms(2) by (auto simp: unfold Tier_prune mem_confirmed_prune_def)
    then show ?thesis using retain_ok [OF assms(1), of keep_at_or_above below_slot]
      by (auto simp: Tier_prune tier_effect_def keep_at_or_above_def reservable_def fun_eq_iff)
  qed
qed

fun confirmed_run :: "(mem_choice \<times> tier_op) list \<Rightarrow> confirmed \<Rightarrow> idx_status list \<times> confirmed" where
  "confirmed_run [] s = ([], s)"
| "confirmed_run (e # es) s = (case confirmed_step e s of (st, s) \<Rightarrow> (case confirmed_run es s of (sts, s) \<Rightarrow> (st # sts, s)))"

definition tier_rows :: "tier_op list \<Rightarrow> idx_status list \<Rightarrow> (entity \<Rightarrow> store_row list) \<Rightarrow> entity \<Rightarrow> store_row list" where
  "tier_rows ops sts = fold (\<lambda>(op, st) rows. if st = IDX_OK then tier_effect op rows else rows) (zip ops sts)"

lemma confirmed_run_ok:
  "mem_ok m \<Longrightarrow> confirmed_run es (mem_confirmed m) = (sts, store) \<Longrightarrow>
     \<exists>m'. store = mem_confirmed m' \<and> mem_ok m' \<and> list_all reservable sts \<and> mem_contents m' = tier_rows (map snd es) sts (mem_contents m)"
proof (induction es arbitrary: m sts)
  case Nil
  then show ?case by (auto simp: tier_rows_def)
next
  case (Cons e es)
  obtain ch op where e: "e = (ch, op)" by (cases e)
  obtain st s1 where step: "confirmed_step e (mem_confirmed m) = (st, s1)" by fastforce
  obtain sts1 where run: "confirmed_run es s1 = (sts1, store)" "sts = st # sts1"
    using Cons.prems(2) step by (auto split: prod.splits)
  obtain m1 where m1: "s1 = mem_confirmed m1" "mem_ok m1" "reservable st"
    "mem_contents m1 = (if st = IDX_OK then tier_effect op (mem_contents m) else mem_contents m)"
    using confirmed_step_ok [OF Cons.prems(1) step [unfolded e]] by blast
  from Cons.IH [OF m1(2) run(1) [unfolded m1(1)]] show ?case
    using m1(3,4) run(2) by (auto simp: tier_rows_def e)
qed

subsection \<open>Reading again\<close>

definition row_kind :: "store_row \<Rightarrow> entity" where
  "row_kind row = (case row of
      Block_row _ \<Rightarrow> E_BLOCK | Sol_balance_row _ \<Rightarrow> E_SOL_BALANCE | Token_balance_row _ \<Rightarrow> E_TOKEN_BALANCE
    | Transfer_row _ \<Rightarrow> E_TRANSFER | Swap_store_row _ \<Rightarrow> E_SWAP | Pool_row _ \<Rightarrow> E_POOL | Token_row _ \<Rightarrow> E_TOKEN
    | Bar_row _ \<Rightarrow> E_BAR)"

definition kinds_ok :: "(entity \<Rightarrow> store_row list) \<Rightarrow> bool" where
  "kinds_ok rows \<longleftrightarrow> (\<forall>e. list_all (\<lambda>row. row_kind row = e) (rows e))"

lemma arrays_kinds: "row \<in> set (ws_arrays wset e) \<Longrightarrow> row_kind row = e"
  by (auto simp: ws_arrays_def row_kind_def split: entity.splits)

lemma tier_kinds: "kinds_ok rows \<Longrightarrow> kinds_ok (tier_rows ops sts rows)"
proof -
  have one: "kinds_ok rows \<Longrightarrow> kinds_ok (tier_effect op rows)" for op rows
    by (auto simp: kinds_ok_def tier_effect_def list_all_iff arrays_kinds split: tier_op.splits option.splits)
  have "kinds_ok rows \<Longrightarrow> kinds_ok (fold (\<lambda>(op, st) rows. if st = IDX_OK then tier_effect op rows else rows) ps rows)"
    for ps rows by (induction ps arbitrary: rows) (auto simp: one)
  then show "kinds_ok rows \<Longrightarrow> kinds_ok (tier_rows ops sts rows)" unfolding tier_rows_def .
qed

lemma collected_arrays:
  assumes "kinds_ok rows"
  shows "ws_arrays (collected_set (map rows ENTITIES)) e = rows e"
proof -
  have again: "list_all (\<lambda>row. row_kind row = e) xs \<Longrightarrow> (\<And>row. row_kind row = e \<Longrightarrow> \<exists>x. sel row = Some x \<and> con x = row) \<Longrightarrow>
      map con (List.map_filter sel xs) = xs" for e xs and sel :: "store_row \<Rightarrow> 'x option" and con
  proof (induction xs)
    case (Cons x xs)
    then obtain y where "sel x = Some y" "con y = x" by force
    then show ?case using Cons by (simp add: List.map_filter_simps)
  qed (simp add: List.map_filter_simps)
  have k: "list_all (\<lambda>row. row_kind row = e) (rows e)" using assms by (simp add: kinds_ok_def)
  show ?thesis
    by (cases e) (use k in \<open>auto simp: ws_arrays_def collected_set_def ENTITIES_def row_kind_def intro!: again split: store_row.splits\<close>)
qed

lemma collect_range_yields:
  "yields (mem_collect_range malloc v from_slot to_slot)
     (\<lambda>rows. rows = filter (\<lambda>row. from_slot \<le> row_slot row \<and> row_slot row \<le> to_slot) (vec_elems v))"
  unfolding mem_collect_range_def Let_def
  by (intro yields_if yields_return yields_try_any) auto

lemma read_range_yields:
  "yields (mem_confirmed_read_range malloc m from_slot to_slot) (\<lambda>wset. wset = collected_set
     (map (\<lambda>e. filter (\<lambda>row. from_slot \<le> row_slot row \<and> row_slot row \<le> to_slot) (mem_contents m e)) ENTITIES))"
proof -
  let ?f = "\<lambda>e. filter (\<lambda>row. from_slot \<le> row_slot row \<and> row_slot row \<le> to_slot) (mem_contents m e)"
  have "yields (op_map (\<lambda>e. mem_collect_range malloc (m e) from_slot to_slot) es) (\<lambda>data. data = map ?f es)" for es
  proof (induction es)
    case (Cons e es)
    have one: "yields (mem_collect_range malloc (m e) from_slot to_slot) (\<lambda>rows. rows = ?f e)"
      using collect_range_yields unfolding mem_contents_def .
    show ?case unfolding op_map.simps
      by (intro yields_try [OF one] yields_try [OF Cons.IH] yields_return) simp
  qed (simp add: yields_def)
  then show ?thesis unfolding mem_confirmed_read_range_def
    by (rule yields_try [of _ "\<lambda>data. data = map ?f ENTITIES"]) (rule yields_return, simp)
qed

subsection \<open>Properties\<close>

text \<open>
  C16: The in-memory confirmed store is a set of lists changed atomically. After any run of
  writes, reorganisations and prunings through the interface, whatever the allocator answers,
  each either succeeded or reported RANGE or NO_MEMORY; the rows of each kind are those of the
  operations that succeeded applied to lists (a reorganisation deletes at or above its slot and
  appends its replacement; a pruning deletes below); one that failed changed nothing.
\<close>

theorem confirmed_store_atomic:
  assumes "idx_mem_confirmed_store_open True True = Inr store" "confirmed_run es store = (sts, store')"
  shows "list_all reservable sts \<and> mem_contents (cs_ctx store') = tier_rows (map snd es) sts (\<lambda>_. []) \<and>
    idx_store_counts_total (Some (idx_mem_confirmed_store_counts (Some store'))) =
      sum_list (map (\<lambda>e. length (tier_rows (map snd es) sts (\<lambda>_. []) e)) ENTITIES)"
proof -
  have "store = mem_confirmed mem_rows_init" using assms(1) by (simp add: idx_mem_confirmed_store_open_def mem_confirmed_def)
  with assms(2) have "confirmed_run es (mem_confirmed mem_rows_init) = (sts, store')" by simp
  from confirmed_run_ok [OF init_rows_ok(1) this, unfolded init_rows_ok(2)] obtain m where
    m: "store' = mem_confirmed m" "list_all reservable sts" "mem_contents m = tier_rows (map snd es) sts (\<lambda>_. [])" by blast
  have "idx_store_counts_total (Some (idx_mem_confirmed_store_counts (Some store'))) = sum_list (map (\<lambda>e. length (mem_contents m e)) ENTITIES)"
    by (simp add: m(1) mem_confirmed_def idx_mem_confirmed_store_counts_def g_mem_confirmed_vt_def mem_rows_counts_def
        idx_store_counts_total_def ENTITIES_def mem_contents_def)
  then show ?thesis using m by (simp add: mem_confirmed_def)
qed

text \<open>
  C17: Promotion reads what was written. In a store reached by any run, a range that is read
  gives, for each kind, exactly the rows held whose slot lies in it, in their order.
\<close>

theorem read_range_exact:
  assumes "idx_mem_confirmed_store_open True True = Inr store" "confirmed_run es store = (sts, store')"
    "idx_confirmed_store_read_range malloc (Some store') from_slot to_slot (Some arena) = (Inr wset, arena')"
  shows "ws_arrays wset e = filter (\<lambda>row. from_slot \<le> row_slot row \<and> row_slot row \<le> to_slot)
    (tier_rows (map snd es) sts (\<lambda>_. []) e)"
proof -
  have "store = mem_confirmed mem_rows_init" using assms(1) by (simp add: idx_mem_confirmed_store_open_def mem_confirmed_def)
  with assms(2) have "confirmed_run es (mem_confirmed mem_rows_init) = (sts, store')" by simp
  from confirmed_run_ok [OF init_rows_ok(1) this, unfolded init_rows_ok(2)] obtain m where
    m: "store' = mem_confirmed m" "mem_contents m = tier_rows (map snd es) sts (\<lambda>_. [])" by blast
  have "mem_confirmed_read_range malloc m from_slot to_slot (Some arena) = (Inr wset, arena')"
    using assms(3) by (auto simp: m(1) mem_confirmed_def idx_confirmed_store_read_range_def confirmed_entry_def g_mem_confirmed_vt_def
        split: if_splits)
  from yieldsD [OF read_range_yields this]
  have w: "wset = collected_set (map (\<lambda>e. filter (\<lambda>row. from_slot \<le> row_slot row \<and> row_slot row \<le> to_slot) (mem_contents m e)) ENTITIES)" .
  have "kinds_ok (mem_contents m)" unfolding m(2) by (rule tier_kinds) (simp add: kinds_ok_def)
  then have "kinds_ok (\<lambda>e. filter (\<lambda>row. from_slot \<le> row_slot row \<and> row_slot row \<le> to_slot) (mem_contents m e))"
    by (auto simp: kinds_ok_def list_all_iff)
  from collected_arrays [OF this, of e] show ?thesis unfolding w m(2) .
qed

section \<open>The finalized tier\<close>

type_synonym finalized = "(mem_choice, mem_finalized) idx_finalized_store"

text \<open>An append (of a write set) or a flush.\<close>

definition finalized_step :: "mem_choice \<times> idx_store_write_set option \<Rightarrow> finalized \<Rightarrow> idx_status \<times> finalized" where
  "finalized_step e store =
     (case (case snd e of
        Some wset \<Rightarrow> idx_finalized_store_append (fst e) (Some store) (Some wset)
      | None \<Rightarrow> idx_finalized_store_flush (Some store)) of
      (st, s) \<Rightarrow> (st, the s))"

fun finalized_run :: "(mem_choice \<times> idx_store_write_set option) list \<Rightarrow> finalized \<Rightarrow> idx_status list \<times> finalized" where
  "finalized_run [] s = ([], s)"
| "finalized_run (e # es) s = (case finalized_step e s of (st, s) \<Rightarrow> (case finalized_run es s of (sts, s) \<Rightarrow> (st # sts, s)))"

text \<open>The write sets that were accepted, and those accepted since the last flush.\<close>

definition accepted_sets :: "idx_store_write_set option list \<Rightarrow> idx_status list \<Rightarrow> idx_store_write_set option list" where
  "accepted_sets ops sts = map fst (filter (\<lambda>(op, st). st = IDX_OK) (zip ops sts))"

definition set_size :: "idx_store_write_set \<Rightarrow> nat" where
  "set_size wset = sum_list (map (\<lambda>e. length (ws_arrays wset e)) ENTITIES)"

definition pending_after :: "idx_store_write_set option list \<Rightarrow> nat \<Rightarrow> nat" where
  "pending_after ops n = fold (\<lambda>op n. case op of Some wset \<Rightarrow> n + set_size wset | None \<Rightarrow> 0) ops n"

definition appended :: "idx_store_write_set option list \<Rightarrow> entity \<Rightarrow> store_row list" where
  "appended ops e = concat (map (\<lambda>op. case op of Some wset \<Rightarrow> ws_arrays wset e | None \<Rightarrow> []) ops)"

definition mem_final :: "mem_finalized \<Rightarrow> finalized" where
  "mem_final f = \<lparr>fs_vt = Some g_mem_finalized_vt, fs_ctx = f\<rparr>"

lemma write_set_total_eq: "idx_store_write_set_total (Some wset) = set_size wset"
  by (simp add: idx_store_write_set_total_def set_size_def ENTITIES_def)

lemma finalized_step_ok:
  assumes "mem_ok (mf_rows f)" "finalized_step (ch, op) (mem_final f) = (st, store)"
  shows "\<exists>f'. store = mem_final f' \<and> mem_ok (mf_rows f') \<and> reservable st \<and>
    mem_contents (mf_rows f') = (\<lambda>e. mem_contents (mf_rows f) e @ appended (if st = IDX_OK then [op] else []) e) \<and>
    mf_pending f' = pending_after (if st = IDX_OK then [op] else []) (mf_pending f) \<and>
    mf_flushes f' = mf_flushes f + (if op = None then 1 else 0)"
proof -
  note unfold = finalized_step_def idx_finalized_store_append_def idx_finalized_store_flush_def finalized_stateful_def
    finalized_entry_def mem_final_def g_mem_finalized_vt_def mem_finalized_append_def mem_finalized_flush_def
  show ?thesis
  proof (cases op)
    case None
    then have "st = IDX_OK" "store = mem_final (f\<lparr>mf_pending := 0, mf_flushes := mf_flushes f + 1\<rparr>)"
      using assms(2) by (auto simp: unfold)
    then show ?thesis using assms(1) None by (auto simp: reservable_def appended_def pending_after_def)
  next
    case (Some wset)
    obtain st1 rows where app: "mem_rows_append ch (mf_rows f) (Some wset) = (st1, rows)" by fastforce
    have "st = st1 \<and> store = mem_final (if st1 = IDX_OK then f\<lparr>mf_rows := rows, mf_pending := mf_pending f + set_size wset\<rparr>
        else f\<lparr>mf_rows := rows\<rparr>)"
      using assms(2) Some app by (auto simp: unfold write_set_total_eq Let_def simp del: mem_rows_append.simps split: if_splits)
    then show ?thesis using rows_append_ok [OF assms(1) app] Some
      by (auto simp: appended_def pending_after_def)
  qed
qed

lemma appended_Cons: "appended (op # ops) e = appended [op] e @ appended ops e"
  by (simp add: appended_def)

lemma pending_Cons: "pending_after (op # ops) n = pending_after ops (pending_after [op] n)"
  by (simp add: pending_after_def)

lemma accepted_Cons: "accepted_sets (op # ops) (st # sts) = (if st = IDX_OK then [op] else []) @ accepted_sets ops sts"
  by (simp add: accepted_sets_def)

lemma finalized_run_ok:
  "mem_ok (mf_rows f) \<Longrightarrow> finalized_run es (mem_final f) = (sts, store) \<Longrightarrow>
     \<exists>f'. store = mem_final f' \<and> mem_ok (mf_rows f') \<and> list_all reservable sts \<and>
       mem_contents (mf_rows f') = (\<lambda>e. mem_contents (mf_rows f) e @ appended (accepted_sets (map snd es) sts) e) \<and>
       mf_pending f' = pending_after (accepted_sets (map snd es) sts) (mf_pending f) \<and>
       mf_flushes f' = mf_flushes f + length (filter ((=) None) (map snd es))"
proof (induction es arbitrary: f sts)
  case Nil
  then show ?case by (auto simp: accepted_sets_def appended_def pending_after_def)
next
  case (Cons e es)
  obtain ch op where e: "e = (ch, op)" by (cases e)
  obtain st s1 where step: "finalized_step e (mem_final f) = (st, s1)" by fastforce
  obtain sts1 where run: "finalized_run es s1 = (sts1, store)" "sts = st # sts1"
    using Cons.prems(2) step by (auto split: prod.splits)
  obtain f1 where f1: "s1 = mem_final f1" "mem_ok (mf_rows f1)" "reservable st"
    "mem_contents (mf_rows f1) = (\<lambda>e. mem_contents (mf_rows f) e @ appended (if st = IDX_OK then [op] else []) e)"
    "mf_pending f1 = pending_after (if st = IDX_OK then [op] else []) (mf_pending f)"
    "mf_flushes f1 = mf_flushes f + (if op = None then 1 else 0)"
    using finalized_step_ok [OF Cons.prems(1) step [unfolded e]] by blast
  have split: "appended ((if b then [op] else []) @ ops) k = appended (if b then [op] else []) k @ appended ops k"
    "pending_after ((if b then [op] else []) @ ops) n = pending_after ops (pending_after (if b then [op] else []) n)" for b ops k n
    by (simp_all add: appended_def pending_after_def)
  from Cons.IH [OF f1(2) run(1) [unfolded f1(1)]] obtain f2 where f2: "store = mem_final f2" "mem_ok (mf_rows f2)" "list_all reservable sts1"
    "mem_contents (mf_rows f2) = (\<lambda>e. mem_contents (mf_rows f1) e @ appended (accepted_sets (map snd es) sts1) e)"
    "mf_pending f2 = pending_after (accepted_sets (map snd es) sts1) (mf_pending f1)"
    "mf_flushes f2 = mf_flushes f1 + length (filter ((=) None) (map snd es))" by blast
  have ops: "accepted_sets (map snd (e # es)) sts = (if st = IDX_OK then [op] else []) @ accepted_sets (map snd es) sts1"
    by (simp only: list.map e snd_conv run(2) accepted_Cons)
  show ?case unfolding ops split using f1(3-6) f2 run(2) e by (intro exI [of _ f2]) auto
qed

text \<open>
  C18: The finalized store only grows. After any run of appends and flushes through the
  interface, whatever the allocator answers, it holds exactly the rows of the appends that
  succeeded, in order; pending are the rows accepted since the last flush; and every flush is
  counted.
\<close>

theorem finalized_store_appends:
  assumes "idx_mem_finalized_store_open True True = Inr store" "finalized_run es store = (sts, store')"
  shows "list_all reservable sts \<and>
    mem_contents (mf_rows (fs_ctx store')) = appended (accepted_sets (map snd es) sts) \<and>
    idx_mem_finalized_store_pending (Some store') = pending_after (accepted_sets (map snd es) sts) 0 \<and>
    idx_mem_finalized_store_flushes (Some store') = length (filter ((=) None) (map snd es))"
proof -
  let ?f = "\<lparr>mf_rows = mem_rows_init, mf_pending = 0, mf_flushes = 0\<rparr>"
  have "store = mem_final ?f" using assms(1) by (simp add: idx_mem_finalized_store_open_def mem_final_def)
  with assms(2) have "finalized_run es (mem_final ?f) = (sts, store')" by simp
  from finalized_run_ok [OF _ this] init_rows_ok show ?thesis
    by (auto simp: mem_final_def idx_mem_finalized_store_pending_def idx_mem_finalized_store_flushes_def mem_finalized_of_def)
qed

section \<open>Instances\<close>

definition token_at :: "u64 \<Rightarrow> idx_token" where
  "token_at seen = new_token IDX_PUBKEY_DEFAULT seen"

definition tokens_set :: "idx_token list \<Rightarrow> idx_store_write_set" where
  "tokens_set toks = empty_write_set\<lparr>ws_tokens := toks\<rparr>"

definition all_room :: mem_choice where
  "all_room = ((\<lambda>e n. True), Token_row (token_at 0))"

definition no_room :: mem_choice where
  "no_room = ((\<lambda>e n. False), Token_row (token_at 0))"

definition sample_ops :: "(mem_choice \<times> tier_op) list" where
  "sample_ops = [(all_room, Tier_write (tokens_set [token_at 4, token_at 6])), (all_room, Tier_reorg 6 None)]"

text \<open>No operation changes the size of an element.\<close>

lemma reserve_size: "vec_elem_size (snd (vec_reserve g v n)) = vec_elem_size v"
  by (simp add: vec_reserve_def Let_def)

lemma push_size: "vec_elem_size (snd (vec_push g j v x)) = vec_elem_size v"
  by (simp add: vec_push_def idx_vec_push_uninit_def Let_def)

lemma push_rows_size: "vec_elem_size (push_rows ch e xs v) = vec_elem_size v"
  by (induction xs arbitrary: v) (simp_all add: push_size)

lemma reserve_rows_size: "reserve_rows ch arrays es m = (st, m') \<Longrightarrow> vec_elem_size (m' e) = vec_elem_size (m e)"
proof (induction es arbitrary: m)
  case (Cons k es)
  have "vec_elem_size ((m(k := snd (vec_reserve (fst ch k) (m k) (length (arrays k))))) e) = vec_elem_size (m e)"
    by (simp add: reserve_size)
  then show ?case using Cons by (auto split: prod.splits if_splits)
qed simp

lemma append_size: "mem_rows_append ch m (Some wset) = (st, m') \<Longrightarrow> vec_elem_size (m' e) = vec_elem_size (m e)"
  using reserve_rows_size [of ch "ws_arrays wset" ENTITIES m]
  by (auto simp: each_entity [of "\<lambda>e. push_rows ch e (ws_arrays wset e)"] push_rows_size split: prod.splits if_splits)

lemma retain_size: "vec_elem_size (mem_rows_retain m keep pivot e) = vec_elem_size (m e)"
  by (simp add: mem_rows_retain_def split: prod.split)

lemma sample_tier:
  "\<exists>m. confirmed_run sample_ops (mem_confirmed mem_rows_init) = ([IDX_OK, IDX_OK], mem_confirmed m) \<and> vec_elem_size (m E_TOKEN) = 336"
proof -
  have grow: "grow_capacity 8 (Suc (Suc 0)) = 8" by (simp add: grow_capacity.simps)
  have "\<exists>m. mem_rows_append all_room mem_rows_init (Some (tokens_set [token_at 4, token_at 6])) = (IDX_OK, m)"
    by (simp add: ENTITIES_def vec_reserve_def mem_rows_init_def g_elem_size_def ws_arrays_def tokens_set_def empty_write_set_def
        all_room_def Let_def IDX_VEC_MIN_CAPACITY_def SIZE_MAX_def grow)
  then obtain m where m: "mem_rows_append all_room mem_rows_init (Some (tokens_set [token_at 4, token_at 6])) = (IDX_OK, m)" by blast
  then have "confirmed_run sample_ops (mem_confirmed mem_rows_init) = ([IDX_OK, IDX_OK], mem_confirmed (mem_rows_retain m keep_below 6))"
    by (simp add: sample_ops_def confirmed_step_def idx_confirmed_store_write_def idx_confirmed_store_reorg_def confirmed_stateful_def
        confirmed_entry_def mem_confirmed_def g_mem_confirmed_vt_def mem_confirmed_write_def mem_confirmed_reorg_def del: mem_rows_append.simps(2))
  moreover have "vec_elem_size (mem_rows_retain m keep_below 6 E_TOKEN) = 336"
    using append_size [OF m, of E_TOKEN] by (simp add: retain_size mem_rows_init_def g_elem_size_def)
  ultimately show ?thesis by blast
qed

text \<open>Two tokens written, one deleted by the reorganisation.\<close>

lemma sample_rows: "tier_rows (map snd sample_ops) [IDX_OK, IDX_OK] (\<lambda>_. []) E_TOKEN = [Token_row (token_at 4)]"
  by (simp add: tier_rows_def sample_ops_def tier_effect_def ws_arrays_def tokens_set_def row_slot_def token_at_def new_token_def)

lemma open_granted: "idx_mem_confirmed_store_open True True = Inr (mem_confirmed mem_rows_init)"
  by (simp add: idx_mem_confirmed_store_open_def mem_confirmed_def)

theorem confirmed_store_atomic_witness:
  "\<exists>store'. confirmed_run sample_ops (mem_confirmed mem_rows_init) = ([IDX_OK, IDX_OK], store') \<and>
     mem_contents (cs_ctx store') E_TOKEN = [Token_row (token_at 4)]"
proof -
  obtain m where run: "confirmed_run sample_ops (mem_confirmed mem_rows_init) = ([IDX_OK, IDX_OK], mem_confirmed m)"
    using sample_tier by blast
  show ?thesis using confirmed_store_atomic [OF open_granted run] sample_rows run by auto
qed

theorem read_range_exact_witness:
  "\<exists>store' wset arena. confirmed_run sample_ops (mem_confirmed mem_rows_init) = ([IDX_OK, IDX_OK], store') \<and>
     idx_confirmed_store_read_range one_block_malloc (Some store') 0 9 (Some no_chunk) = (Inr wset, arena) \<and>
     ws_arrays wset E_TOKEN = [Token_row (token_at 4)]"
proof -
  obtain m where run: "confirmed_run sample_ops (mem_confirmed mem_rows_init) = ([IDX_OK, IDX_OK], mem_confirmed m)"
    and size: "vec_elem_size (m E_TOKEN) = 336"
    using sample_tier by blast
  have held: "mem_contents m = tier_rows (map snd sample_ops) [IDX_OK, IDX_OK] (\<lambda>_. [])" "mem_ok m"
    using confirmed_run_ok [OF init_rows_ok(1) run] init_rows_ok(2) by (auto simp: mem_confirmed_def)
  have rows: "vec_elems (m e) = (if e = E_TOKEN then [Token_row (token_at 4)] else [])" for e
    using sample_rows held(1) by (cases e) (simp_all add: mem_contents_def [symmetric] tier_rows_def sample_ops_def tier_effect_def
        ws_arrays_def tokens_set_def empty_write_set_def)
  have "\<exists>p a. idx_arena_calloc one_block_malloc (Suc 0) 336 (Some no_chunk) = (Inr p, a)"
    by (simp add: idx_arena_calloc_def idx_arena_alloc_def ALIGNOF_max_align_t_def arena_eval op_return_def)
  then obtain p a where alloc: "idx_arena_calloc one_block_malloc (Suc 0) 336 (Some no_chunk) = (Inr p, a)" by blast
  have in_range: "row_slot (Token_row (token_at 4)) = 4" by (simp add: row_slot_def token_at_def new_token_def)
  have "\<exists>wset. mem_confirmed_read_range one_block_malloc m 0 9 (Some no_chunk) = (Inr wset, a)"
    using alloc by (simp add: mem_confirmed_read_range_def ENTITIES_def mem_collect_range_def rows in_range size op_try_def op_return_def)
  then obtain wset where "idx_confirmed_store_read_range one_block_malloc (Some (mem_confirmed m)) 0 9 (Some no_chunk) = (Inr wset, a)"
    by (auto simp: mem_confirmed_def idx_confirmed_store_read_range_def confirmed_entry_def g_mem_confirmed_vt_def)
  from read_range_exact [OF open_granted run this, of E_TOKEN] this run
  show ?thesis by (simp add: sample_rows in_range)
qed

theorem finalized_store_appends_witness:
  "\<exists>store'. finalized_run [(all_room, None), (no_room, Some (tokens_set [token_at 4]))]
       (mem_final \<lparr>mf_rows = mem_rows_init, mf_pending = 0, mf_flushes = 0\<rparr>) = ([IDX_OK, IDX_ERR_NO_MEMORY], store') \<and>
     idx_mem_finalized_store_pending (Some store') = 0 \<and> mem_contents (mf_rows (fs_ctx store')) E_TOKEN = []"
proof -
  let ?es = "[(all_room, None), (no_room, Some (tokens_set [token_at 4]))]"
  let ?f = "\<lparr>mf_rows = mem_rows_init, mf_pending = 0, mf_flushes = 0\<rparr>"
  have grow: "grow_capacity 8 (Suc 0) = 8" by (simp add: grow_capacity.simps)
  have start: "idx_mem_finalized_store_open True True = Inr (mem_final ?f)"
    by (simp add: idx_mem_finalized_store_open_def mem_final_def)
  have "\<exists>rows. mem_rows_append no_room mem_rows_init (Some (tokens_set [token_at 4])) = (IDX_ERR_NO_MEMORY, rows)"
    by (simp add: ENTITIES_def vec_reserve_def mem_rows_init_def g_elem_size_def ws_arrays_def tokens_set_def empty_write_set_def
        no_room_def Let_def IDX_VEC_MIN_CAPACITY_def SIZE_MAX_def grow)
  then have "\<exists>s. finalized_run ?es (mem_final ?f) = ([IDX_OK, IDX_ERR_NO_MEMORY], s)"
    by (auto simp: finalized_step_def idx_finalized_store_append_def idx_finalized_store_flush_def finalized_stateful_def
        finalized_entry_def mem_final_def g_mem_finalized_vt_def mem_finalized_append_def mem_finalized_flush_def Let_def
        simp del: mem_rows_append.simps)
  then obtain s where run: "finalized_run ?es (mem_final ?f) = ([IDX_OK, IDX_ERR_NO_MEMORY], s)" by blast
  have "accepted_sets (map snd ?es) [IDX_OK, IDX_ERR_NO_MEMORY] = [None]" by (simp add: accepted_sets_def)
  with finalized_store_appends [OF start run] run show ?thesis
    by (auto simp: appended_def pending_after_def simp del: finalized_run.simps)
qed

end
