(* ===== verification/VoteFilter.thy ===== *)
theory VoteFilter
  imports Transfers
begin

text \<open>
  The vote filter (\<^verbatim>\<open>src/vote_filter.c\<close>): which transactions are skipped before extraction, and
  that skipping them loses no transfer.
\<close>

section \<open>Model\<close>

definition idx_vote_program_matches :: "idx_pubkey option \<Rightarrow> bool" where
  "idx_vote_program_matches program_id = (case program_id of
      None \<Rightarrow> False
    | Some p \<Rightarrow> idx_pubkey_equal p IDX_PROGRAM_VOTE)"

fun all_votes :: "idx_transaction \<Rightarrow> idx_instruction list \<Rightarrow> bool" where
  "all_votes tx [] = True"
| "all_votes tx (ix # rest) =
     (if \<not> idx_vote_program_matches (Some (idx_instruction_program_id tx ix)) then False else all_votes tx rest)"

definition idx_vote_filter_should_drop :: "idx_transaction option \<Rightarrow> bool" where
  "idx_vote_filter_should_drop tx = (case tx of
      None \<Rightarrow> False
    | Some tx \<Rightarrow> if length (instructions tx) = 0 then False else all_votes tx (instructions tx))"

section \<open>Facts\<close>

lemma all_votes_iff: "all_votes tx ixs \<longleftrightarrow> list_all (\<lambda>ix. idx_pubkey_equal (idx_instruction_program_id tx ix) IDX_PROGRAM_VOTE) ixs"
  by (induction ixs) (simp_all add: idx_vote_program_matches_def)

lemma zeros: "replicate 32 (0 :: 8 word) = 0 # 0 # replicate 30 0"
  by (simp flip: replicate_Suc)

lemma vote_program_apart:
  "IDX_PROGRAM_VOTE \<noteq> IDX_PROGRAM_SYSTEM" "IDX_PROGRAM_VOTE \<noteq> IDX_PROGRAM_TOKEN"
  "IDX_PROGRAM_VOTE \<noteq> IDX_PROGRAM_TOKEN_2022"
  by (simp_all add: IDX_PROGRAM_VOTE_def IDX_PROGRAM_SYSTEM_def IDX_PROGRAM_TOKEN_def
      IDX_PROGRAM_TOKEN_2022_def IDX_PUBKEY_LEN_def zeros)

lemma vote_is_no_transfer_program:
  assumes "idx_pubkey_equal p IDX_PROGRAM_VOTE"
  shows "\<not> idx_pubkey_equal p IDX_PROGRAM_SYSTEM" "\<not> idx_pubkey_equal p IDX_PROGRAM_TOKEN"
    "\<not> idx_pubkey_equal p IDX_PROGRAM_TOKEN_2022"
  using assms vote_program_apart by (auto simp: idx_pubkey_equal_def IDX_PROGRAM_VOTE_def IDX_PROGRAM_SYSTEM_def
      IDX_PROGRAM_TOKEN_def IDX_PROGRAM_TOKEN_2022_def IDX_PUBKEY_LEN_def)

lemma vote_rows: "idx_pubkey_equal (idx_instruction_program_id tx ix) IDX_PROGRAM_VOTE \<Longrightarrow> instruction_rows tx p ix = Inr []"
  by (simp add: instruction_rows_def vote_is_no_transfer_program Let_def)

lemma no_groups: "inner_instructions tx = [] \<Longrightarrow> inner_of tx i = []"
  by (simp add: inner_of_def inner_group_def)

section \<open>Properties\<close>

text \<open>A vote, on an account that is the vote program.\<close>

definition vote_tx :: idx_transaction where
  "vote_tx = (sample_tx [1, 2, 3])\<lparr>accounts :=
     [\<lparr>pubkey = IDX_PROGRAM_VOTE, is_signer = False, is_writable = True, from_lookup_table = False\<rparr>]\<rparr>"

text \<open>
  C23: Dropping loses nothing. A transaction the filter drops has at least one instruction, all of
  them of the vote program; as that program calls no other, extracting the transaction gives no
  transfer.
\<close>

theorem vote_filter_loses_nothing:
  assumes "idx_vote_filter_should_drop (Some tx)" "inner_instructions tx = []"
    "idx_transfer_extract malloc (Some tx) (Some a) = (Inr rows, b)"
  shows "rows = [] \<and> instructions tx \<noteq> [] \<and>
    list_all (\<lambda>ix. idx_pubkey_equal (idx_instruction_program_id tx ix) IDX_PROGRAM_VOTE) (instructions tx)"
proof -
  have "rows_of tx (execution_from tx i ixs) = Inr []" if "all_votes tx ixs" for i ixs
    using that by (induction ixs arbitrary: i) (auto simp: inner_places_def all_votes_iff vote_rows no_groups [OF assms(2)])
  then have "rows_of tx (execution tx) = Inr []"
    using assms(1) by (auto simp: execution_def idx_vote_filter_should_drop_def split: if_splits)
  then have "rows = []" using assms(3) transfer_extract_eq [of malloc tx a]
    by (auto simp del: idx_transfer_extract.simps split: if_splits prod.splits sum.splits)
  then show ?thesis using assms(1) by (auto simp: idx_vote_filter_should_drop_def all_votes_iff split: if_splits)
qed

theorem vote_filter_loses_nothing_witness:
  "\<exists>b. idx_transfer_extract one_block_malloc (Some vote_tx) (Some sample_arena) = (Inr [], b) \<and>
     idx_pubkey_equal (idx_instruction_program_id vote_tx (hd (instructions vote_tx))) IDX_PROGRAM_VOTE"
proof -
  have drop: "idx_vote_filter_should_drop (Some vote_tx)"
    by (simp add: idx_vote_filter_should_drop_def vote_tx_def sample_tx_def all_votes_iff idx_instruction_program_id_def idx_pubkey_equal_def)
  have "\<exists>rows b. idx_transfer_extract one_block_malloc (Some vote_tx) (Some sample_arena) = (Inr rows, b)"
    using drop
    by (simp add: vote_tx_def sample_defs vote_is_no_transfer_program [unfolded idx_pubkey_equal_def]
        del: idx_transfer_extract.simps)
  then obtain rows b where run: "idx_transfer_extract one_block_malloc (Some vote_tx) (Some sample_arena) = (Inr rows, b)" by blast
  have inner: "inner_instructions vote_tx = []" by (simp add: vote_tx_def sample_tx_def)
  from vote_filter_loses_nothing [OF drop inner run]
  have "rows = []" "instructions vote_tx \<noteq> []" "list_all (\<lambda>ix. idx_pubkey_equal (idx_instruction_program_id vote_tx ix) IDX_PROGRAM_VOTE) (instructions vote_tx)"
    by blast+
  then show ?thesis using run by (cases "instructions vote_tx") auto
qed

end
