(* ===== verification/Config.thy ===== *)
theory Config
  imports SlotCursor Price
begin

text \<open>
  Runtime configuration (\<^verbatim>\<open>src/config.c\<close>, \<^verbatim>\<open>include/config.h\<close>) and the level names of
  \<^verbatim>\<open>src/log.c\<close>. Settings come from a file, the environment and the command line; \<open>conf_files\<close> says what
  can be read under a path and whether reading ends in an error, \<open>env\<close> is \<^verbatim>\<open>getenv\<close>, and the
  command line is the list of its words, the program's name first.
\<close>

section \<open>Settings\<close>

datatype idx_log_level = IDX_LOG_ERROR | IDX_LOG_WARN | IDX_LOG_INFO | IDX_LOG_DEBUG | IDX_LOG_TRACE

definition k_level_names :: "(idx_log_level \<times> string) list" where
  "k_level_names = [(IDX_LOG_ERROR, ''error''), (IDX_LOG_WARN, ''warn''), (IDX_LOG_INFO, ''info''),
     (IDX_LOG_DEBUG, ''debug''), (IDX_LOG_TRACE, ''trace'')]"

definition idx_log_level_name :: "idx_log_level \<Rightarrow> string" where
  "idx_log_level_name level = (case map_of k_level_names level of None \<Rightarrow> ''unknown'' | Some nam \<Rightarrow> nam)"

definition idx_log_level_parse :: "string option \<Rightarrow> idx_log_level result" where
  "idx_log_level_parse name = (case name of
      None \<Rightarrow> Inl IDX_ERR_INVALID_ARG
    | Some s \<Rightarrow> (case find (\<lambda>(_, nam). strcaseeq s nam) k_level_names of
        Some (level, _) \<Rightarrow> Inr level
      | None \<Rightarrow> if strcaseeq s ''warning'' then Inr IDX_LOG_WARN else Inl IDX_ERR_PARSE))"

datatype idx_tx_details =
  IDX_TX_DETAILS_FULL | IDX_TX_DETAILS_ACCOUNTS | IDX_TX_DETAILS_SIGNATURES | IDX_TX_DETAILS_NONE

definition k_tx_details_names :: "(idx_tx_details \<times> string) list" where
  "k_tx_details_names = [(IDX_TX_DETAILS_FULL, ''full''), (IDX_TX_DETAILS_ACCOUNTS, ''accounts''),
     (IDX_TX_DETAILS_SIGNATURES, ''signatures''), (IDX_TX_DETAILS_NONE, ''none'')]"

definition idx_tx_details_name :: "idx_tx_details \<Rightarrow> string" where
  "idx_tx_details_name details = (case map_of k_tx_details_names details of None \<Rightarrow> ''unknown'' | Some nam \<Rightarrow> nam)"

definition idx_tx_details_parse :: "string option \<Rightarrow> idx_tx_details result" where
  "idx_tx_details_parse name = (case name of
      None \<Rightarrow> Inl IDX_ERR_INVALID_ARG
    | Some s \<Rightarrow> (case find (\<lambda>(_, nam). strcaseeq s nam) k_tx_details_names of
        Some (details, _) \<Rightarrow> Inr details
      | None \<Rightarrow> Inl IDX_ERR_PARSE))"

definition IDX_CONFIG_STR_MAX :: nat where "IDX_CONFIG_STR_MAX = 512"
definition IDX_CONFIG_MAX_CONCURRENCY :: u64 where "IDX_CONFIG_MAX_CONCURRENCY = 1024"
definition IDX_CONFIG_MAX_QUEUE_DEPTH :: u64 where "IDX_CONFIG_MAX_QUEUE_DEPTH = 1024"
definition IDX_CONFIG_DEFAULT_FILE :: string where "IDX_CONFIG_DEFAULT_FILE = ''indexer.conf''"
definition IDX_CONFIG_LINE_MAX :: nat where "IDX_CONFIG_LINE_MAX = 1024"
definition COMMITMENT_MAX :: nat where "COMMITMENT_MAX = 32"

record idx_config =
  cf_rpc_url :: string
  cf_wss_url :: string
  cf_config_file :: string
  cf_state_file :: string
  cf_log_level :: idx_log_level
  cf_start_slot :: u64
  cf_end_slot :: u64
  cf_concurrency :: u32
  cf_queue_depth :: u32
  cf_commitment :: string
  cf_tx_details :: idx_tx_details
  cf_block_filter :: string
  cf_blocks_range_limit :: u64
  cf_quote_mints :: string
  cf_help :: bool

definition default_config :: idx_config where
  "default_config = \<lparr>cf_rpc_url = [], cf_wss_url = [], cf_config_file = [], cf_state_file = [],
     cf_log_level = IDX_LOG_INFO, cf_start_slot = 0, cf_end_slot = 0, cf_concurrency = 4, cf_queue_depth = 0,
     cf_commitment = ''confirmed'', cf_tx_details = IDX_TX_DETAILS_FULL, cf_block_filter = ''all'',
     cf_blocks_range_limit = 0, cf_quote_mints = ''usdc,usdt,usd1,sol'', cf_help = False\<rparr>"

definition idx_config_defaults :: "idx_config option \<Rightarrow> idx_config option" where
  "idx_config_defaults = map_option (\<lambda>_. default_config)"

section \<open>One setting\<close>

definition set_string :: "nat \<Rightarrow> string \<Rightarrow> string result" where
  "set_string dest_size v = (if length v \<ge> dest_size then Inl IDX_ERR_RANGE else Inr v)"

definition parse_u64 :: "string \<Rightarrow> u64 result" where
  "parse_u64 v =
     (if v = [] then Inl IDX_ERR_PARSE
      else let (parsed, erange, rest) = strtoull v in
        if erange then Inl IDX_ERR_RANGE
        else if rest = v \<or> rest \<noteq> [] then Inl IDX_ERR_PARSE
        else if CHR ''-'' \<in> set v then Inl IDX_ERR_RANGE
        else Inr (word_of_nat parsed))"

text \<open>The chain of comparisons on the key. A failure leaves the configuration alone.\<close>

definition apply_setting :: "idx_config \<Rightarrow> string \<Rightarrow> string \<Rightarrow> idx_config result" where
  "apply_setting cfg key v =
     (if key = ''rpc_url'' then idx_try (set_string IDX_CONFIG_STR_MAX v) (\<lambda>s. Inr (cfg\<lparr>cf_rpc_url := s\<rparr>))
      else if key = ''wss_url'' then idx_try (set_string IDX_CONFIG_STR_MAX v) (\<lambda>s. Inr (cfg\<lparr>cf_wss_url := s\<rparr>))
      else if key = ''log_level'' then
        (case idx_log_level_parse (Some v) of
           Inl _ \<Rightarrow> Inl IDX_ERR_PARSE
         | Inr level \<Rightarrow> Inr (cfg\<lparr>cf_log_level := level\<rparr>))
      else if key = ''start_slot'' then idx_try (parse_u64 v) (\<lambda>n. Inr (cfg\<lparr>cf_start_slot := n\<rparr>))
      else if key = ''end_slot'' then idx_try (parse_u64 v) (\<lambda>n. Inr (cfg\<lparr>cf_end_slot := n\<rparr>))
      else if key = ''concurrency'' then idx_try (parse_u64 v) (\<lambda>parsed.
        if parsed = 0 \<or> parsed > IDX_CONFIG_MAX_CONCURRENCY then Inl IDX_ERR_RANGE
        else Inr (cfg\<lparr>cf_concurrency := ucast parsed\<rparr>))
      else if key = ''queue_depth'' then idx_try (parse_u64 v) (\<lambda>parsed.
        if parsed = 1 \<or> parsed > IDX_CONFIG_MAX_QUEUE_DEPTH then Inl IDX_ERR_RANGE
        else Inr (cfg\<lparr>cf_queue_depth := ucast parsed\<rparr>))
      else if key = ''commitment'' then
        (if v \<noteq> ''confirmed'' \<and> v \<noteq> ''finalized'' then Inl IDX_ERR_PARSE
         else idx_try (set_string COMMITMENT_MAX v) (\<lambda>s. Inr (cfg\<lparr>cf_commitment := s\<rparr>)))
      else if key = ''tx_details'' \<or> key = ''transaction_details'' then
        (case idx_tx_details_parse (Some v) of
           Inl _ \<Rightarrow> Inl IDX_ERR_PARSE
         | Inr details \<Rightarrow> Inr (cfg\<lparr>cf_tx_details := details\<rparr>))
      else if key = ''block_filter'' then idx_try (set_string IDX_CONFIG_STR_MAX v) (\<lambda>s. Inr (cfg\<lparr>cf_block_filter := s\<rparr>))
      else if key = ''blocks_range_limit'' then idx_try (parse_u64 v) (\<lambda>n. Inr (cfg\<lparr>cf_blocks_range_limit := n\<rparr>))
      else if key = ''quote_mints'' \<or> key = ''quotes'' then
        idx_try (set_string IDX_CONFIG_STR_MAX v) (\<lambda>s. Inr (cfg\<lparr>cf_quote_mints := s\<rparr>))
      else if key = ''config'' \<or> key = ''config_file'' then
        idx_try (set_string IDX_CONFIG_STR_MAX v) (\<lambda>s. Inr (cfg\<lparr>cf_config_file := s\<rparr>))
      else if key = ''state_file'' then idx_try (set_string IDX_CONFIG_STR_MAX v) (\<lambda>s. Inr (cfg\<lparr>cf_state_file := s\<rparr>))
      else Inl IDX_ERR_NOT_FOUND)"

fun idx_config_apply_kv :: "string option \<Rightarrow> string option \<Rightarrow> (unit, idx_config option) op" where
  "idx_config_apply_kv (Some key) (Some v) (Some cfg) = (case apply_setting cfg key v of
      Inl e \<Rightarrow> (Inl e, Some cfg)
    | Inr cfg \<Rightarrow> (Inr (), Some cfg))"
| "idx_config_apply_kv _ _ cfg = (Inl IDX_ERR_INVALID_ARG, cfg)"

section \<open>The file\<close>

text \<open>One \<^verbatim>\<open>fgets\<close> of the loop, and whether it met the end of the file.\<close>

definition config_fgets :: "string \<Rightarrow> (string \<times> string) option" where
  "config_fgets text =
     (if text = [] then None
      else let room = take (IDX_CONFIG_LINE_MAX - 1) text;
               n = (if CHR 0x0A \<in> set room then length (takeWhile (\<lambda>c. c \<noteq> CHR 0x0A) room) + 1 else length room)
           in Some (take n text, drop n text))"

definition config_eof :: "string \<Rightarrow> bool" where
  "config_eof text \<longleftrightarrow> length text < IDX_CONFIG_LINE_MAX - 1 \<and> CHR 0x0A \<notin> set text"

text \<open>The setting on a line, if any. The source's \<^verbatim>\<open>trim\<close> is the one of the slot cursor.\<close>

definition config_line :: "string \<Rightarrow> bool \<Rightarrow> (string \<times> string) option result" where
  "config_line raw eof =
     (let line = cstr raw in
      if CHR 0x0A \<notin> set line \<and> \<not> eof then Inl IDX_ERR_PARSE
      else let content = trim (takeWhile (\<lambda>c. c \<noteq> CHR ''#'') line) in
        if content = [] then Inr None
        else if CHR ''='' \<notin> set content then Inl IDX_ERR_PARSE
        else Inr (Some (trim (takeWhile (\<lambda>c. c \<noteq> CHR ''='') content),
                        trim (tl (dropWhile (\<lambda>c. c \<noteq> CHR ''='') content)))))"

lemma config_fgets_shorter: "config_fgets text = Some (line, rest) \<Longrightarrow> length rest < length text"
  by (cases "text") (auto simp: config_fgets_def Let_def IDX_CONFIG_LINE_MAX_def split: if_splits)

function apply_lines :: "string \<Rightarrow> (unit, idx_config option) op" where
  "apply_lines text = (case config_fgets text of
      None \<Rightarrow> op_return (Inr ())
    | Some (line, rest) \<Rightarrow> (case config_line line (config_eof text) of
        Inl e \<Rightarrow> op_return (Inl e)
      | Inr None \<Rightarrow> apply_lines rest
      | Inr (Some (key, v)) \<Rightarrow>
          op_try (idx_config_apply_kv (Some key) (Some v)) (\<lambda>_. apply_lines rest)))"
  by pat_completeness auto
termination by (relation "measure length") (auto dest: config_fgets_shorter)

declare apply_lines.simps [simp del]

text \<open>
  What a path gives: nothing when it cannot be opened, else the text the reads deliver and
  whether they ended at the end of the file.
\<close>

type_synonym config_files = "string \<Rightarrow> (string \<times> bool) option"

fun idx_config_apply_file :: "config_files \<Rightarrow> string option \<Rightarrow> (unit, idx_config option) op" where
  "idx_config_apply_file conf_files (Some file) (Some cfg) = (case conf_files file of
      None \<Rightarrow> (Inl IDX_ERR_IO, Some cfg)
    | Some (stuff, file_read) \<Rightarrow>
        op_try (apply_lines stuff) (\<lambda>_. op_return (if \<not> file_read then Inl IDX_ERR_IO else Inr ())) (Some cfg))"
| "idx_config_apply_file conf_files _ cfg = (Inl IDX_ERR_INVALID_ARG, cfg)"

section \<open>The environment\<close>

definition env_mapping :: "(string \<times> string) list" where
  "env_mapping = [
     (''SOLANA_RPC_URL'', ''rpc_url''),
     (''SOLANA_WSS_URL'', ''wss_url''),
     (''INDEXER_LOG_LEVEL'', ''log_level''),
     (''INDEXER_START_SLOT'', ''start_slot''),
     (''INDEXER_END_SLOT'', ''end_slot''),
     (''INDEXER_CONCURRENCY'', ''concurrency''),
     (''INDEXER_QUEUE_DEPTH'', ''queue_depth''),
     (''INDEXER_COMMITMENT'', ''commitment''),
     (''INDEXER_TX_DETAILS'', ''tx_details''),
     (''INDEXER_BLOCK_FILTER'', ''block_filter''),
     (''INDEXER_BLOCKS_RANGE_LIMIT'', ''blocks_range_limit''),
     (''INDEXER_QUOTE_MINTS'', ''quote_mints''),
     (''INDEXER_STATE_FILE'', ''state_file'')]"

fun apply_variables :: "(string \<Rightarrow> string option) \<Rightarrow> (string \<times> string) list \<Rightarrow> (unit, idx_config option) op" where
  "apply_variables env [] = op_return (Inr ())"
| "apply_variables env ((variable, key) # rest) = (case env variable of
      None \<Rightarrow> apply_variables env rest
    | Some v \<Rightarrow> if v = [] then apply_variables env rest
        else op_try (idx_config_apply_kv (Some key) (Some v)) (\<lambda>_. apply_variables env rest))"

fun idx_config_apply_env :: "(string \<Rightarrow> string option) \<Rightarrow> (unit, idx_config option) op" where
  "idx_config_apply_env env None = (Inl IDX_ERR_INVALID_ARG, None)"
| "idx_config_apply_env env (Some cfg) = apply_variables env env_mapping (Some cfg)"

section \<open>The command line\<close>

definition flag_to_key :: "string \<Rightarrow> nat \<Rightarrow> string option" where
  "flag_to_key word out_size =
     (if take 2 word \<noteq> ''--'' then None
      else let word = drop 2 word in
        if length word = 0 \<or> length word \<ge> out_size then None
        else Some (map (\<lambda>c. if c = CHR ''-'' then CHR ''_'' else c) word))"

definition KEY_MAX :: nat where "KEY_MAX = 64"

text \<open>The setting an option gives, and the words after it.\<close>

definition next_option :: "string \<Rightarrow> string list \<Rightarrow> ((string \<times> string) \<times> string list) result" where
  "next_option arg rest =
     (if CHR ''='' \<in> set arg then
        let word = takeWhile (\<lambda>c. c \<noteq> CHR ''='') arg in
        if length word \<ge> KEY_MAX then Inl IDX_ERR_PARSE
        else (case flag_to_key word KEY_MAX of
          None \<Rightarrow> Inl IDX_ERR_PARSE
        | Some key \<Rightarrow> Inr ((key, tl (dropWhile (\<lambda>c. c \<noteq> CHR ''='') arg)), rest))
      else (case (if arg = ''-c'' then Some ''config'' else flag_to_key arg KEY_MAX) of
          None \<Rightarrow> Inl IDX_ERR_PARSE
        | Some key \<Rightarrow> (case rest of
            [] \<Rightarrow> Inl IDX_ERR_PARSE
          | v # rest \<Rightarrow> Inr ((key, v), rest))))"

definition help_flag :: "string \<Rightarrow> bool" where
  "help_flag arg \<longleftrightarrow> arg = ''--help'' \<or> arg = ''-h''"

lemma next_option_shorter: "next_option arg rest = Inr (kv, rest') \<Longrightarrow> length rest' < Suc (length rest)"
  by (auto simp: next_option_def Let_def split: if_splits option.splits list.splits)

function apply_words :: "string list \<Rightarrow> (unit, idx_config option) op" where
  "apply_words [] = op_return (Inr ())"
| "apply_words (arg # rest) =
     (if help_flag arg then (\<lambda>cfg. (Inr (), map_option (\<lambda>c. c\<lparr>cf_help := True\<rparr>) cfg))
      else (case next_option arg rest of
        Inl e \<Rightarrow> op_return (Inl e)
      | Inr ((key, v), rest) \<Rightarrow>
          op_try (idx_config_apply_kv (Some key) (Some v)) (\<lambda>_. apply_words rest)))"
  by pat_completeness auto
termination by (relation "measure length") (auto dest: next_option_shorter)

declare apply_words.simps [simp del]

fun idx_config_apply_args :: "string list \<Rightarrow> (unit, idx_config option) op" where
  "idx_config_apply_args argv None = (Inl IDX_ERR_INVALID_ARG, None)"
| "idx_config_apply_args argv (Some cfg) = apply_words (tl argv) (Some cfg)"

fun find_in_words :: "string list \<Rightarrow> idx_config \<Rightarrow> idx_config result" where
  "find_in_words [] cfg = Inr cfg"
| "find_in_words (arg # rest) cfg =
     (let store = (\<lambda>v. idx_try (set_string IDX_CONFIG_STR_MAX v) (\<lambda>s. Inr (cfg\<lparr>cf_config_file := s\<rparr>))) in
      if arg = ''--config'' \<or> arg = ''-c'' then
        (case rest of [] \<Rightarrow> Inl IDX_ERR_PARSE | v # _ \<Rightarrow> store v)
      else if take 9 arg = ''--config='' then store (drop 9 arg)
      else find_in_words rest cfg)"

definition find_config_file :: "string list \<Rightarrow> (unit, idx_config option) op" where
  "find_config_file argv cfg = (case find_in_words (tl argv) (the cfg) of
      Inl e \<Rightarrow> (Inl e, cfg)
    | Inr c \<Rightarrow> (Inr (), Some c))"

section \<open>Loading and checking\<close>

definition probe_default :: "config_files \<Rightarrow> (unit, idx_config option) op" where
  "probe_default conf_files = (case conf_files IDX_CONFIG_DEFAULT_FILE of
      None \<Rightarrow> op_return (Inr ())
    | Some _ \<Rightarrow> (\<lambda>cfg. case set_string IDX_CONFIG_STR_MAX IDX_CONFIG_DEFAULT_FILE of
        Inl e \<Rightarrow> (Inl e, cfg)
      | Inr s \<Rightarrow> idx_config_apply_file conf_files (Some IDX_CONFIG_DEFAULT_FILE)
                   (map_option (\<lambda>c. c\<lparr>cf_config_file := s\<rparr>) cfg)))"

definition load_file :: "config_files \<Rightarrow> (unit, idx_config option) op" where
  "load_file conf_files cfg =
     (if cf_config_file (the cfg) \<noteq> [] then idx_config_apply_file conf_files (Some (cf_config_file (the cfg))) cfg
      else probe_default conf_files cfg)"

fun idx_config_load ::
    "config_files \<Rightarrow> (string \<Rightarrow> string option) \<Rightarrow> string list \<Rightarrow> (unit, idx_config option) op" where
  "idx_config_load conf_files env argv None = (Inl IDX_ERR_INVALID_ARG, None)"
| "idx_config_load conf_files env argv (Some cfg) =
     (let cfg = idx_config_defaults (Some cfg) in
      if list_ex help_flag (tl argv) then (Inr (), map_option (\<lambda>c. c\<lparr>cf_help := True\<rparr>) cfg)
      else op_try (find_config_file argv) (\<lambda>_.
           op_try (load_file conf_files) (\<lambda>_.
           op_try (idx_config_apply_env env) (\<lambda>_. idx_config_apply_args argv))) cfg)"

fun idx_config_validate :: "bool \<Rightarrow> idx_config option \<Rightarrow> unit result" where
  "idx_config_validate calloc_ok None = Inl IDX_ERR_INVALID_ARG"
| "idx_config_validate calloc_ok (Some cfg) =
     (if cf_rpc_url cfg = [] then Inl IDX_ERR_INVALID_ARG
      else if take 7 (cf_rpc_url cfg) \<noteq> ''http://'' \<and> take 8 (cf_rpc_url cfg) \<noteq> ''https://'' then Inl IDX_ERR_INVALID_ARG
      else if cf_wss_url cfg \<noteq> [] \<and> take 5 (cf_wss_url cfg) \<noteq> ''ws://'' \<and> take 6 (cf_wss_url cfg) \<noteq> ''wss://''
        then Inl IDX_ERR_INVALID_ARG
      else if cf_end_slot cfg \<noteq> 0 \<and> cf_end_slot cfg < cf_start_slot cfg then Inl IDX_ERR_RANGE
      else if cf_concurrency cfg = 0 \<or> cf_concurrency cfg > ucast IDX_CONFIG_MAX_CONCURRENCY then Inl IDX_ERR_RANGE
      else if cf_queue_depth cfg = 1 \<or> cf_queue_depth cfg > ucast IDX_CONFIG_MAX_QUEUE_DEPTH then Inl IDX_ERR_RANGE
      else if cf_commitment cfg = [] then Inl IDX_ERR_INVALID_ARG
      else if cf_block_filter cfg = [] then Inl IDX_ERR_INVALID_ARG
      else idx_try (idx_quote_set_parse calloc_ok (Some []) (Some (cf_quote_mints cfg))) (\<lambda>_. Inr ()))"

text \<open>\<^verbatim>\<open>snprintf\<close> keeps what fits with the terminator and returns the whole length.\<close>

definition snprintf :: "nat \<Rightarrow> string \<Rightarrow> string \<times> nat" where
  "snprintf room t = (take (room - 1) t, length t)"

definition quoted :: "string \<Rightarrow> string" where
  "quoted s = [CHR 0x22] @ s @ [CHR 0x22]"

definition subscribe_filter :: "idx_config \<Rightarrow> string" where
  "subscribe_filter cfg =
     fst (snprintf (IDX_CONFIG_STR_MAX + 40)
       (if cf_block_filter cfg = ''all'' then quoted ''all''
        else ''{'' @ quoted ''mentionsAccountOrProgram'' @ '':'' @ quoted (cf_block_filter cfg) @ ''}''))"

fun idx_config_block_subscribe_params :: "idx_config option \<Rightarrow> nat \<Rightarrow> string result" where
  "idx_config_block_subscribe_params None out_size = Inl IDX_ERR_INVALID_ARG"
| "idx_config_block_subscribe_params (Some cfg) out_size =
     (let (out, written) = snprintf out_size
        (''['' @ subscribe_filter cfg @ '',{'' @ quoted ''commitment'' @ '':'' @ quoted (cf_commitment cfg) @ '','' @
         quoted ''encoding'' @ '':'' @ quoted ''json'' @ '','' @
         quoted ''transactionDetails'' @ '':'' @ quoted (idx_tx_details_name (cf_tx_details cfg)) @ '','' @
         quoted ''maxSupportedTransactionVersion'' @ '':0,'' @ quoted ''showRewards'' @ '':false}]'')
      in if written \<ge> out_size then Inl IDX_ERR_RANGE else Inr out)"

end
