(* ===== verification/ConfigLoad.thy ===== *)
theory ConfigLoad
  imports Config
begin

text \<open>
  What a configuration means: the settings as a dictionary, the sources as one list of
  assignments, the last of which decides; and the bounds every configuration stays in.
\<close>

section \<open>Settings as a dictionary\<close>

datatype setting = Rpc_url | Wss_url | Log_level | Start_slot | End_slot | Concurrency | Queue_depth | Commitment
  | Tx_details | Block_filter | Blocks_range_limit | Quote_mints | Config_file | State_file

datatype setting_value = Text string | Number u64 | Level idx_log_level | Details idx_tx_details

definition setting_names :: "(string \<times> setting) list" where
  "setting_names = [(''rpc_url'', Rpc_url), (''wss_url'', Wss_url), (''log_level'', Log_level),
     (''start_slot'', Start_slot), (''end_slot'', End_slot), (''concurrency'', Concurrency),
     (''queue_depth'', Queue_depth), (''commitment'', Commitment), (''tx_details'', Tx_details),
     (''transaction_details'', Tx_details), (''block_filter'', Block_filter),
     (''blocks_range_limit'', Blocks_range_limit), (''quote_mints'', Quote_mints), (''quotes'', Quote_mints),
     (''config'', Config_file), (''config_file'', Config_file), (''state_file'', State_file)]"

fun reads :: "setting \<Rightarrow> idx_config \<Rightarrow> setting_value" where
  "reads Rpc_url c = Text (cf_rpc_url c)"
| "reads Wss_url c = Text (cf_wss_url c)"
| "reads Log_level c = Level (cf_log_level c)"
| "reads Start_slot c = Number (cf_start_slot c)"
| "reads End_slot c = Number (cf_end_slot c)"
| "reads Concurrency c = Number (ucast (cf_concurrency c))"
| "reads Queue_depth c = Number (ucast (cf_queue_depth c))"
| "reads Commitment c = Text (cf_commitment c)"
| "reads Tx_details c = Details (cf_tx_details c)"
| "reads Block_filter c = Text (cf_block_filter c)"
| "reads Blocks_range_limit c = Number (cf_blocks_range_limit c)"
| "reads Quote_mints c = Text (cf_quote_mints c)"
| "reads Config_file c = Text (cf_config_file c)"
| "reads State_file c = Text (cf_state_file c)"

text \<open>The value a text stands for; \<open>None\<close> when the setting refuses it.\<close>

definition text_value :: "nat \<Rightarrow> string \<Rightarrow> setting_value option" where
  "text_value room v = (if length v < room then Some (Text v) else None)"

definition number_value :: "(u64 \<Rightarrow> bool) \<Rightarrow> string \<Rightarrow> setting_value option" where
  "number_value allowed v = (case parse_u64 v of Inr n \<Rightarrow> if allowed n then Some (Number n) else None | _ \<Rightarrow> None)"

fun meaning :: "setting \<Rightarrow> string \<Rightarrow> setting_value option" where
  "meaning Log_level v = (case idx_log_level_parse (Some v) of Inr l \<Rightarrow> Some (Level l) | _ \<Rightarrow> None)"
| "meaning Tx_details v = (case idx_tx_details_parse (Some v) of Inr d \<Rightarrow> Some (Details d) | _ \<Rightarrow> None)"
| "meaning Commitment v = (if v \<in> {''confirmed'', ''finalized''} then Some (Text v) else None)"
| "meaning Concurrency v = number_value (\<lambda>n. 1 \<le> n \<and> n \<le> 1024) v"
| "meaning Queue_depth v = number_value (\<lambda>n. n \<noteq> 1 \<and> n \<le> 1024) v"
| "meaning Start_slot v = number_value (\<lambda>_. True) v"
| "meaning End_slot v = number_value (\<lambda>_. True) v"
| "meaning Blocks_range_limit v = number_value (\<lambda>_. True) v"
| "meaning _ v = text_value 512 v"

definition config_ok :: "idx_config \<Rightarrow> bool" where
  "config_ok c \<longleftrightarrow> length (cf_rpc_url c) < 512 \<and> length (cf_wss_url c) < 512 \<and> length (cf_config_file c) < 512 \<and>
     length (cf_state_file c) < 512 \<and> length (cf_block_filter c) < 512 \<and> length (cf_quote_mints c) < 512 \<and>
     cf_commitment c \<in> {''confirmed'', ''finalized''} \<and> 1 \<le> cf_concurrency c \<and> cf_concurrency c \<le> 1024 \<and>
     cf_queue_depth c \<noteq> 1 \<and> cf_queue_depth c \<le> 1024"

lemma default_ok: "config_ok default_config"
  by (simp add: config_ok_def default_config_def)

lemma unat_down: "unat (ucast (n :: u64) :: u32) = unat n mod 2 ^ 32"
  by (simp add: unsigned_ucast_eq take_bit_eq_mod)

lemma unat_up: "unat (ucast (n :: u32) :: u64) = unat n"
proof -
  have "unat n < 2 ^ 32" using unsigned_less [of n] by (simp del: unsigned_less)
  then show ?thesis by (simp add: unsigned_ucast_eq take_bit_eq_mod)
qed

lemma small_ucast: "(n :: u64) \<le> 1024 \<Longrightarrow> (ucast (ucast n :: u32) :: u64) = n"
  by (simp add: word_unat_eq_iff unat_up unat_down word_le_nat_alt del: ucast_up_ucast_id)

lemma down_bounds:
  "(n :: u64) \<le> 1024 \<Longrightarrow> (ucast n :: u32) \<le> 1024"
  "(n :: u64) \<le> 1024 \<Longrightarrow> n \<noteq> 0 \<Longrightarrow> 1 \<le> (ucast n :: u32)"
  "(n :: u64) \<le> 1024 \<Longrightarrow> n \<noteq> 1 \<Longrightarrow> (ucast n :: u32) \<noteq> 1"
  by (auto simp: word_le_nat_alt unat_down word_unat_eq_iff)

lemma one_le_word: "1 \<le> n \<longleftrightarrow> n \<noteq> (0 :: u64)"
  by (auto simp: word_le_nat_alt word_unat_eq_iff)

lemmas setting_bounds = IDX_CONFIG_STR_MAX_def COMMITMENT_MAX_def IDX_CONFIG_MAX_CONCURRENCY_def
  IDX_CONFIG_MAX_QUEUE_DEPTH_def

fun writes :: "setting \<Rightarrow> setting_value \<Rightarrow> idx_config \<Rightarrow> idx_config" where
  "writes Rpc_url (Text t) c = c\<lparr>cf_rpc_url := t\<rparr>"
| "writes Wss_url (Text t) c = c\<lparr>cf_wss_url := t\<rparr>"
| "writes Log_level (Level l) c = c\<lparr>cf_log_level := l\<rparr>"
| "writes Start_slot (Number n) c = c\<lparr>cf_start_slot := n\<rparr>"
| "writes End_slot (Number n) c = c\<lparr>cf_end_slot := n\<rparr>"
| "writes Concurrency (Number n) c = c\<lparr>cf_concurrency := ucast n\<rparr>"
| "writes Queue_depth (Number n) c = c\<lparr>cf_queue_depth := ucast n\<rparr>"
| "writes Commitment (Text t) c = c\<lparr>cf_commitment := t\<rparr>"
| "writes Tx_details (Details d) c = c\<lparr>cf_tx_details := d\<rparr>"
| "writes Block_filter (Text t) c = c\<lparr>cf_block_filter := t\<rparr>"
| "writes Blocks_range_limit (Number n) c = c\<lparr>cf_blocks_range_limit := n\<rparr>"
| "writes Quote_mints (Text t) c = c\<lparr>cf_quote_mints := t\<rparr>"
| "writes Config_file (Text t) c = c\<lparr>cf_config_file := t\<rparr>"
| "writes State_file (Text t) c = c\<lparr>cf_state_file := t\<rparr>"
| "writes _ _ c = c"

lemma names [simp]:
  "map_of setting_names ''rpc_url'' = Some Rpc_url"
  "map_of setting_names ''wss_url'' = Some Wss_url"
  "map_of setting_names ''log_level'' = Some Log_level"
  "map_of setting_names ''start_slot'' = Some Start_slot"
  "map_of setting_names ''end_slot'' = Some End_slot"
  "map_of setting_names ''concurrency'' = Some Concurrency"
  "map_of setting_names ''queue_depth'' = Some Queue_depth"
  "map_of setting_names ''commitment'' = Some Commitment"
  "map_of setting_names ''tx_details'' = Some Tx_details"
  "map_of setting_names ''transaction_details'' = Some Tx_details"
  "map_of setting_names ''block_filter'' = Some Block_filter"
  "map_of setting_names ''blocks_range_limit'' = Some Blocks_range_limit"
  "map_of setting_names ''quote_mints'' = Some Quote_mints"
  "map_of setting_names ''quotes'' = Some Quote_mints"
  "map_of setting_names ''config'' = Some Config_file"
  "map_of setting_names ''config_file'' = Some Config_file"
  "map_of setting_names ''state_file'' = Some State_file"
  by (simp_all add: setting_names_def)

text \<open>Walking down the comparisons on the key.\<close>

lemma key_tests:
  "(if k = a then x else y) = Inr c \<Longrightarrow> (k = a \<Longrightarrow> x = Inr c \<Longrightarrow> R) \<Longrightarrow> (y = Inr c \<Longrightarrow> R) \<Longrightarrow> R"
  "(if k = a \<or> k = b then x else y) = Inr c \<Longrightarrow> (k = a \<Longrightarrow> x = Inr c \<Longrightarrow> R) \<Longrightarrow>
     (k = b \<Longrightarrow> x = Inr c \<Longrightarrow> R) \<Longrightarrow> (y = Inr c \<Longrightarrow> R) \<Longrightarrow> R"
  by (auto split: if_split_asm)

lemma setting_cases:
  assumes "apply_setting cfg key v = Inr c"
  shows "\<exists>s x. map_of setting_names key = Some s \<and> meaning s v = Some x \<and> c = writes s x cfg"
  using assms unfolding apply_setting_def
  by (elim key_tests; (hypsubst)?) (auto simp: set_string_def setting_bounds idx_try_Inr_iff text_value_def number_value_def
      not_less one_le_word split: if_split_asm sum.split_asm)

lemma reads_writes: "meaning s v = Some x \<Longrightarrow> reads t (writes s x c) = (if t = s then x else reads t c)"
  by (cases s; cases t) (auto simp: text_value_def number_value_def small_ucast split: if_split_asm sum.split_asm)

lemma writes_ok: "meaning s v = Some x \<Longrightarrow> config_ok c \<Longrightarrow> config_ok (writes s x c) \<and> cf_help (writes s x c) = cf_help c"
  apply (cases s)
  apply (simp_all only: meaning.simps text_value_def number_value_def one_le_word split: if_split_asm sum.split_asm)
  apply (simp_all only: option.inject option.distinct)
  by (safe; simp add: config_ok_def down_bounds)+

section \<open>The sources as assignments\<close>

fun assigned :: "(string \<times> string) list \<Rightarrow> idx_config \<Rightarrow> idx_config result" where
  "assigned [] c = Inr c"
| "assigned ((key, v) # rest) c = idx_try (apply_setting c key v) (assigned rest)"

lemma assigned_append: "assigned (xs @ ys) c = idx_try (assigned xs c) (assigned ys)"
proof (induction xs arbitrary: c)
  case (Cons x xs)
  then show ?case by (cases x; cases "apply_setting c (fst x) (snd x)") simp_all
qed simp

lemma assigned_ok: "assigned ps c = Inr d \<Longrightarrow> config_ok c \<Longrightarrow> config_ok d \<and> cf_help d = cf_help c"
proof (induction ps arbitrary: c)
  case (Cons p ps)
  obtain key v where p: "p = (key, v)" by (cases p)
  obtain b where b: "apply_setting c key v = Inr b" "assigned ps b = Inr d"
    using Cons.prems(1) by (auto simp: p idx_try_Inr_iff)
  then obtain s x where "meaning s v = Some x" "b = writes s x c" using setting_cases by blast
  then show ?case using Cons.IH [OF b(2)] writes_ok [of s v x c] Cons.prems(2) by simp
qed simp

text \<open>The last text given for a setting.\<close>

definition last_given :: "setting \<Rightarrow> (string \<times> string) list \<Rightarrow> string option" where
  "last_given s ps = map_option snd (find (\<lambda>(key, _). map_of setting_names key = Some s) (rev ps))"

lemma last_given_snoc:
  "last_given s (ps @ [(key, v)]) = (if map_of setting_names key = Some s then Some v else last_given s ps)"
  by (simp add: last_given_def)

lemma assigned_reads:
  "assigned ps c = Inr d \<Longrightarrow>
     (case last_given s ps of None \<Rightarrow> reads s d = reads s c | Some v \<Rightarrow> meaning s v = Some (reads s d))"
proof (induction ps arbitrary: d rule: rev_induct)
  case (snoc p ps)
  obtain key v where p: "p = (key, v)" by (cases p)
  obtain b where b: "assigned ps c = Inr b" "apply_setting b key v = Inr d"
    using snoc.prems by (auto simp: p assigned_append idx_try_Inr_iff)
  then obtain t x where t: "map_of setting_names key = Some t" "meaning t v = Some x" "d = writes t x b"
    using setting_cases by blast
  show ?case
  proof (cases "t = s")
    case True
    then show ?thesis using t reads_writes [OF t(2)] by (simp add: p last_given_snoc)
  next
    case False
    then show ?thesis using t(1,3) reads_writes [OF t(2)] snoc.IH [OF b(1)] by (simp add: p last_given_snoc split: option.splits)
  qed
qed (simp add: last_given_def)

text \<open>What an operation that assigns settings one after the other does.\<close>

definition assigns :: "(unit, idx_config option) op \<Rightarrow> (string \<times> string) list \<Rightarrow> bool" where
  "assigns m ps \<longleftrightarrow> (\<forall>c r o'. m (Some c) = (r, o') \<longrightarrow>
     (\<exists>d qs. o' = Some d \<and> assigned qs c = Inr d \<and> (r = Inr () \<longrightarrow> qs = ps)))"

lemma assigns_return: "assigns (op_return (Inr ())) []" "assigns (op_return (Inl e)) ps"
  by (auto simp: assigns_def intro: exI [of _ "[]"])

lemma assigns_kv:
  assumes "assigns m ps"
  shows "assigns (op_try (idx_config_apply_kv (Some key) (Some v)) (\<lambda>_. m)) ((key, v) # ps)"
  unfolding assigns_def
proof (intro allI impI)
  fix c r o' assume run: "op_try (idx_config_apply_kv (Some key) (Some v)) (\<lambda>_. m) (Some c) = (r, o')"
  show "\<exists>d qs. o' = Some d \<and> assigned qs c = Inr d \<and> (r = Inr () \<longrightarrow> qs = (key, v) # ps)"
  proof (cases "apply_setting c key v")
    case (Inl e)
    then show ?thesis using run by (intro exI [of _ c] exI [of _ "[]"]) (auto simp: op_try_def)
  next
    case (Inr b)
    then have "m (Some b) = (r, o')" using run by (simp add: op_try_def)
    then obtain d qs where "o' = Some d" "assigned qs b = Inr d" "r = Inr () \<longrightarrow> qs = ps"
      using assms unfolding assigns_def by blast
    then show ?thesis using Inr by (intro exI [of _ d] exI [of _ "(key, v) # qs"]) simp
  qed
qed

lemma assigns_then:
  assumes "assigns m ps" "assigns n qs"
  shows "assigns (op_try m (\<lambda>_. n)) (ps @ qs)"
  unfolding assigns_def
proof (intro allI impI)
  fix c r o' assume run: "op_try m (\<lambda>_. n) (Some c) = (r, o')"
  obtain r1 o1 where m: "m (Some c) = (r1, o1)" by fastforce
  with assms(1) obtain d1 qs1 where one: "o1 = Some d1" "assigned qs1 c = Inr d1" "r1 = Inr () \<longrightarrow> qs1 = ps"
    unfolding assigns_def by blast
  show "\<exists>d qs'. o' = Some d \<and> assigned qs' c = Inr d \<and> (r = Inr () \<longrightarrow> qs' = ps @ qs)"
  proof (cases r1)
    case (Inl e)
    then show ?thesis using run m one by (auto simp: op_try_def)
  next
    case (Inr u)
    then have "n (Some d1) = (r, o')" using run m one(1) by (simp add: op_try_def)
    then obtain d qs2 where "o' = Some d" "assigned qs2 d1 = Inr d" "r = Inr () \<longrightarrow> qs2 = qs"
      using assms(2) unfolding assigns_def by blast
    then show ?thesis using one Inr by (intro exI [of _ d] exI [of _ "qs1 @ qs2"]) (simp add: assigned_append)
  qed
qed

function file_pairs :: "string \<Rightarrow> (string \<times> string) list" where
  "file_pairs text = (case config_fgets text of
      None \<Rightarrow> []
    | Some (line, rest) \<Rightarrow> (case config_line line (config_eof text) of
        Inr (Some p) \<Rightarrow> p # file_pairs rest
      | _ \<Rightarrow> file_pairs rest))"
  by pat_completeness auto
termination by (relation "measure length") (auto dest: config_fgets_shorter)

definition env_pairs :: "(string \<Rightarrow> string option) \<Rightarrow> (string \<times> string) list \<Rightarrow> (string \<times> string) list" where
  "env_pairs env mapping = concat (map (\<lambda>(variable, key). case env variable of
      None \<Rightarrow> []
    | Some v \<Rightarrow> if v = [] then [] else [(key, v)]) mapping)"

function arg_pairs :: "string list \<Rightarrow> (string \<times> string) list" where
  "arg_pairs [] = []"
| "arg_pairs (arg # rest) = (case next_option arg rest of
      Inl _ \<Rightarrow> []
    | Inr (p, rest) \<Rightarrow> p # arg_pairs rest)"
  by pat_completeness auto
termination by (relation "measure length") (auto dest: next_option_shorter)

declare file_pairs.simps [simp del] arg_pairs.simps [simp del]

lemma lines_assign: "assigns (apply_lines t) (file_pairs t)"
proof (induction t rule: apply_lines.induct)
  case (1 t)
  show ?case
  proof (cases "config_fgets t")
    case None
    then show ?thesis by (simp add: apply_lines.simps [of t] file_pairs.simps [of t] assigns_return)
  next
    case (Some p)
    obtain line rest where p: "p = (line, rest)" by (cases p)
    show ?thesis
    proof (cases "config_line line (config_eof t)")
      case (Inl e)
      then show ?thesis using Some p by (simp add: apply_lines.simps [of t] assigns_return)
    next
      case (Inr q)
      then show ?thesis using 1 [OF Some] Some p
        by (cases q) (auto simp: apply_lines.simps [of t] file_pairs.simps [of t] assigns_kv)
    qed
  qed
qed

lemma variables_assign: "assigns (apply_variables env mapping) (env_pairs env mapping)"
proof (induction mapping)
  case (Cons x mapping)
  then show ?case by (cases x) (auto simp: env_pairs_def assigns_kv split: option.split)
qed (simp add: env_pairs_def assigns_return)

lemma words_assign: "\<not> list_ex help_flag ws \<Longrightarrow> assigns (apply_words ws) (arg_pairs ws)"
proof (induction ws rule: apply_words.induct)
  case (2 arg rest)
  show ?case
  proof (cases "next_option arg rest")
    case (Inl e)
    then show ?thesis using 2 by (simp add: apply_words.simps assigns_return)
  next
    case (Inr q)
    obtain key v rest' where q: "q = ((key, v), rest')" by (metis prod.collapse)
    have "set rest' \<subseteq> set rest" using Inr q
      by (auto simp: next_option_def Let_def split: if_splits option.splits list.splits)
    then have "\<not> list_ex help_flag rest'" using 2(2) by (auto simp: list_ex_iff)
    then show ?thesis using 2 Inr q by (simp add: apply_words.simps arg_pairs.simps assigns_kv)
  qed
qed (simp add: apply_words.simps arg_pairs.simps assigns_return)

section \<open>Loading\<close>

text \<open>The file the command line asks for, and the text that is read.\<close>

fun requested :: "string list \<Rightarrow> string option" where
  "requested [] = None"
| "requested (arg # rest) =
     (if arg = ''--config'' \<or> arg = ''-c'' then Some (hd rest)
      else if take 9 arg = ''--config='' then Some (drop 9 arg)
      else requested rest)"

definition config_file_of :: "config_files \<Rightarrow> string list \<Rightarrow> string" where
  "config_file_of conf_files argv = (case requested (tl argv) of
      None \<Rightarrow> if conf_files IDX_CONFIG_DEFAULT_FILE = None then [] else IDX_CONFIG_DEFAULT_FILE
    | Some p \<Rightarrow> if p \<noteq> [] then p else if conf_files IDX_CONFIG_DEFAULT_FILE = None then [] else IDX_CONFIG_DEFAULT_FILE)"

definition config_text :: "config_files \<Rightarrow> string list \<Rightarrow> string" where
  "config_text conf_files argv =
     (if config_file_of conf_files argv = [] then [] else fst (the (conf_files (config_file_of conf_files argv))))"

definition all_pairs :: "config_files \<Rightarrow> (string \<Rightarrow> string option) \<Rightarrow> string list \<Rightarrow> (string \<times> string) list" where
  "all_pairs conf_files env argv =
     file_pairs (config_text conf_files argv) @ env_pairs env env_mapping @ arg_pairs (tl argv)"

lemma find_in_words_eq:
  "find_in_words ws c = Inr d \<Longrightarrow> (case requested ws of None \<Rightarrow> d = c | Some p \<Rightarrow> length p < 512 \<and> d = c\<lparr>cf_config_file := p\<rparr>)"
  by (induction ws) (auto simp: Let_def set_string_def IDX_CONFIG_STR_MAX_def idx_try_Inr_iff split: if_split_asm list.split_asm)

lemma assigns_run:
  assumes "assigns m ps" "m (Some c) = (r, o')"
  shows "\<exists>d qs. o' = Some d \<and> assigned qs c = Inr d \<and> (r = Inr () \<longrightarrow> qs = ps)"
  using assms unfolding assigns_def by blast

lemma args_assign: "\<not> list_ex help_flag (tl argv) \<Longrightarrow> assigns (idx_config_apply_args argv) (arg_pairs (tl argv))"
  using words_assign [of "tl argv"] by (simp add: assigns_def)

lemma env_assign: "assigns (idx_config_apply_env env) (env_pairs env env_mapping)"
  using variables_assign [of env env_mapping] by (simp add: assigns_def)

lemma file_assign:
  assumes "idx_config_apply_file conf_files (Some p) (Some c) = (r, o')"
  shows "\<exists>d qs. o' = Some d \<and> assigned qs c = Inr d \<and>
    (r = Inr () \<longrightarrow> (\<exists>t. conf_files p = Some (t, True) \<and> qs = file_pairs t))"
proof (cases "conf_files p")
  case None
  then show ?thesis using assms by (intro exI [of _ c] exI [of _ "[]"]) auto
next
  case (Some tb)
  obtain t b where tb: "tb = (t, b)" by (cases tb)
  have "op_try (apply_lines t) (\<lambda>_. op_return (if \<not> b then Inl IDX_ERR_IO else Inr ())) (Some c) = (r, o')"
    using assms Some tb by simp
  moreover have "assigns (op_try (apply_lines t) (\<lambda>_. op_return (if \<not> b then Inl IDX_ERR_IO else Inr ()))) (file_pairs t @ [])"
    by (rule assigns_then [OF lines_assign]) (cases b; simp add: assigns_return)
  ultimately obtain d qs where d: "o' = Some d" "assigned qs c = Inr d" "r = Inr () \<longrightarrow> qs = file_pairs t"
    using assigns_run by fastforce
  have "r = Inr () \<longrightarrow> b" using assms Some tb by (auto simp: op_try_def split: prod.splits sum.splits if_splits)
  then show ?thesis using d Some tb by auto
qed

definition asked :: "string list \<Rightarrow> string" where
  "asked argv = (case requested (tl argv) of None \<Rightarrow> [] | Some p \<Rightarrow> p)"

lemma default_named [simp]: "cf_config_file default_config = []"
  by (simp add: default_config_def)

lemma file_renamed [simp]: "default_config\<lparr>cf_config_file := []\<rparr> = default_config"
  by (simp add: default_config_def)

lemma asked_found:
  "find_in_words (tl argv) default_config = Inr c \<Longrightarrow> length (asked argv) < 512 \<and> c = default_config\<lparr>cf_config_file := asked argv\<rparr>"
  using find_in_words_eq [of "tl argv" default_config c] by (auto simp: asked_def split: option.splits)

lemma load_file_runs:
  assumes "load_file conf_files (Some (default_config\<lparr>cf_config_file := asked argv\<rparr>)) = (r, o')" "length (asked argv) < 512"
  shows "\<exists>p d qs. length p < 512 \<and> o' = Some d \<and> assigned qs (default_config\<lparr>cf_config_file := p\<rparr>) = Inr d \<and>
    (r = Inr () \<longrightarrow> qs = file_pairs (config_text conf_files argv))"
proof -
  have of_asked: "config_file_of conf_files argv = (if asked argv \<noteq> [] then asked argv
      else if conf_files IDX_CONFIG_DEFAULT_FILE = None then [] else IDX_CONFIG_DEFAULT_FILE)"
    by (simp add: config_file_of_def asked_def split: option.split)
  have no_pairs: "file_pairs [] = []" by (simp add: file_pairs.simps config_fgets_def)
  consider (given) "asked argv \<noteq> []" | (absent) "asked argv = []" "conf_files IDX_CONFIG_DEFAULT_FILE = None"
    | (found) "asked argv = []" "conf_files IDX_CONFIG_DEFAULT_FILE \<noteq> None" by blast
  then show ?thesis
  proof cases
    case given
    then have "idx_config_apply_file conf_files (Some (asked argv)) (Some (default_config\<lparr>cf_config_file := asked argv\<rparr>)) = (r, o')"
      using assms(1) by (simp add: load_file_def del: idx_config_apply_file.simps)
    from file_assign [OF this] show ?thesis using given assms(2) of_asked by (fastforce simp: config_text_def)
  next
    case absent
    then show ?thesis using assms(1) of_asked
      by (intro exI [of _ "[]"] exI [of _ default_config] exI [of _ "[]"])
        (auto simp: load_file_def probe_default_def config_text_def no_pairs)
  next
    case found
    then obtain q where q: "conf_files IDX_CONFIG_DEFAULT_FILE = Some q" by blast
    have named: "length IDX_CONFIG_DEFAULT_FILE < 512" "IDX_CONFIG_DEFAULT_FILE \<noteq> []" by (simp_all add: IDX_CONFIG_DEFAULT_FILE_def)
    have "idx_config_apply_file conf_files (Some IDX_CONFIG_DEFAULT_FILE)
        (Some (default_config\<lparr>cf_config_file := IDX_CONFIG_DEFAULT_FILE\<rparr>)) = (r, o')"
      using assms(1) found q named
      by (simp add: load_file_def probe_default_def set_string_def IDX_CONFIG_STR_MAX_def del: idx_config_apply_file.simps)
    from file_assign [OF this] show ?thesis using found named of_asked by (fastforce simp: config_text_def)
  qed
qed

text \<open>Every outcome of a load that is not a request for help.\<close>

lemma load_runs:
  assumes "idx_config_load conf_files env argv (Some old) = (r, Some cfg)" "\<not> list_ex help_flag (tl argv)"
  shows "\<exists>p qs. length p < 512 \<and> assigned qs (default_config\<lparr>cf_config_file := p\<rparr>) = Inr cfg \<and>
    (r = Inr () \<longrightarrow> qs = all_pairs conf_files env argv)"
proof -
  have run: "op_try (find_config_file argv) (\<lambda>_. op_try (load_file conf_files) (\<lambda>_.
      op_try (idx_config_apply_env env) (\<lambda>_. idx_config_apply_args argv))) (Some default_config) = (r, Some cfg)"
    using assms by (simp add: idx_config_defaults_def del: idx_config_apply_env.simps idx_config_apply_args.simps)
  show ?thesis
  proof (cases "find_in_words (tl argv) default_config")
    case (Inl e)
    then show ?thesis using run by (intro exI [of _ "[]"]) (auto simp: op_try_def find_config_file_def)
  next
    case (Inr c)
    let ?rest = "op_try (idx_config_apply_env env) (\<lambda>_. idx_config_apply_args argv)"
    note asked = asked_found [OF Inr]
    have tail: "op_try (load_file conf_files) (\<lambda>_. ?rest) (Some (default_config\<lparr>cf_config_file := asked argv\<rparr>)) = (r, Some cfg)"
      using run Inr asked by (simp add: op_try_def find_config_file_def)
    obtain r1 o1 where one: "load_file conf_files (Some (default_config\<lparr>cf_config_file := asked argv\<rparr>)) = (r1, o1)" by fastforce
    from load_file_runs [OF one] asked obtain p d qs where loaded: "length p < 512" "o1 = Some d"
      "assigned qs (default_config\<lparr>cf_config_file := p\<rparr>) = Inr d" "r1 = Inr () \<longrightarrow> qs = file_pairs (config_text conf_files argv)"
      by blast
    show ?thesis
    proof (cases r1)
      case (Inl e)
      then show ?thesis using tail one loaded by (auto simp: op_try_def)
    next
      case (Inr u)
      then have "?rest (Some d) = (r, Some cfg)" using tail one loaded(2) by (simp add: op_try_def)
      from assigns_run [OF assigns_then [OF env_assign args_assign [OF assms(2)]] this]
      obtain qs2 where "assigned qs2 d = Inr cfg" "r = Inr () \<longrightarrow> qs2 = env_pairs env env_mapping @ arg_pairs (tl argv)" by auto
      then show ?thesis using loaded Inr by (intro exI [of _ p] exI [of _ "qs @ qs2"]) (auto simp: assigned_append all_pairs_def)
    qed
  qed
qed

section \<open>An instance\<close>

text \<open>No file; the environment and the command line both name the endpoint.\<close>

definition sample_env :: "string \<Rightarrow> string option" where
  "sample_env nam = (if nam = ''SOLANA_RPC_URL'' then Some ''http://a'' else None)"

definition sample_words :: "string list" where
  "sample_words = [''indexer'', ''--rpc-url'', ''http://b'']"

lemma sample_option: "next_option ''--rpc-url'' [''http://b''] = Inr ((''rpc_url'', ''http://b''), [])"
  by (simp add: next_option_def flag_to_key_def KEY_MAX_def numeral_eq_Suc)

lemma sample_load:
  "idx_config_load (\<lambda>_. None) sample_env sample_words (Some default_config) =
     (Inr (), Some (default_config\<lparr>cf_rpc_url := ''http://b''\<rparr>))"
  by (simp add: sample_words_def help_flag_def find_config_file_def idx_config_defaults_def op_try_def Let_def
      load_file_def probe_default_def env_mapping_def sample_env_def apply_words.simps sample_option
      apply_setting_def set_string_def IDX_CONFIG_STR_MAX_def op_return_def)

section \<open>Properties\<close>

text \<open>
  C31: The sources take precedence as documented. After a load that succeeded and was no request
  for help, every setting other than the file's name has the value of the last text given for
  it, in the order file, environment, command line; a setting nobody gave has its default. The
  file is the one the command line asks for, else the default one if it is there.
\<close>

theorem config_precedence:
  assumes "idx_config_load conf_files env argv (Some old) = (Inr (), Some cfg)" "\<not> list_ex help_flag (tl argv)"
    and "s \<noteq> Config_file"
  shows "case last_given s (all_pairs conf_files env argv) of
      None \<Rightarrow> reads s cfg = reads s default_config
    | Some v \<Rightarrow> meaning s v = Some (reads s cfg)"
proof -
  from load_runs [OF assms(1,2)] obtain p where
    "assigned (all_pairs conf_files env argv) (default_config\<lparr>cf_config_file := p\<rparr>) = Inr cfg" by blast
  moreover have "reads s (default_config\<lparr>cf_config_file := p\<rparr>) = reads s default_config"
    using assms(3) by (cases s) simp_all
  ultimately show ?thesis
    using assigned_reads [of "all_pairs conf_files env argv" "default_config\<lparr>cf_config_file := p\<rparr>" cfg s] by (simp split: option.splits)
qed

text \<open>
  Every configuration is within its bounds. Whatever the file, the environment and the
  command line hold, and also when loading fails part of the way, texts fit their arrays, the
  commitment is one of the two levels, there are 1 to 1024 fetchers and the queue has at most
  1024 places, never one.
\<close>

theorem config_in_bounds:
  assumes "idx_config_load conf_files env argv (Some old) = (r, Some cfg)"
  shows "config_ok cfg"
proof (cases "list_ex help_flag (tl argv)")
  case True
  then show ?thesis using assms default_ok by (auto simp: idx_config_defaults_def config_ok_def)
next
  case False
  from load_runs [OF assms this] obtain p qs where
    "length p < 512" "assigned qs (default_config\<lparr>cf_config_file := p\<rparr>) = Inr cfg" by blast
  then show ?thesis using assigned_ok [of qs _ cfg] default_ok by (auto simp: config_ok_def)
qed

theorem config_precedence_witness:
  "idx_config_load (\<lambda>_. None) sample_env sample_words (Some default_config) =
       (Inr (), Some (default_config\<lparr>cf_rpc_url := ''http://b''\<rparr>)) \<and>
     last_given Rpc_url (all_pairs (\<lambda>_. None) sample_env sample_words) = Some ''http://b'' \<and>
     reads Rpc_url (default_config\<lparr>cf_rpc_url := ''http://b''\<rparr>) = Text ''http://b''"
proof -
  have pairs: "all_pairs (\<lambda>_. None) sample_env sample_words = [(''rpc_url'', ''http://a''), (''rpc_url'', ''http://b'')]"
    by (simp add: all_pairs_def config_text_def config_file_of_def sample_words_def env_pairs_def env_mapping_def
        sample_env_def arg_pairs.simps sample_option file_pairs.simps config_fgets_def)
  have plain: "\<not> list_ex help_flag (tl sample_words)" by (simp add: sample_words_def help_flag_def)
  have given: "last_given Rpc_url (all_pairs (\<lambda>_. None) sample_env sample_words) = Some ''http://b''"
    by (simp add: pairs last_given_def)
  have "Rpc_url \<noteq> Config_file" by simp
  from config_precedence [OF sample_load plain this] have "meaning Rpc_url ''http://b'' = Some (reads Rpc_url (default_config\<lparr>cf_rpc_url := ''http://b''\<rparr>))"
    unfolding given by (simp only: option.case)
  then show ?thesis using sample_load given by (simp add: text_value_def)
qed

theorem config_in_bounds_witness:
  "idx_config_load (\<lambda>_. None) sample_env sample_words (Some default_config) =
       (Inr (), Some (default_config\<lparr>cf_rpc_url := ''http://b''\<rparr>)) \<and>
     config_ok (default_config\<lparr>cf_rpc_url := ''http://b''\<rparr>)"
  using sample_load config_in_bounds [OF sample_load] by blast

end
