(* ===== verification/Spec2Isabelle.thy ===== *)
theory Spec2Isabelle
  imports Fetcher Base64 HashMap SlotCursor Balance Routes Pools Tokens Quotes Prices BarReorg StoreRuns VoteFilter ConfigLoad
begin

text \<open>
  A verification library for a Solana indexer written in C. The program follows the chain:
  a subscription delivers blocks into a bounded hand-off, workers fetch the blocks the
  subscription missed, every block is decoded from JSON, and transfers, swaps and balances are
  extracted from its transactions and written to two databases.

  Parts and theories, in dependency order. Each opens with what it holds.

  \<^item> \<open>Prelude\<close>: status codes (\<^verbatim>\<open>include/error.h\<close>, \<^verbatim>\<open>src/error.c\<close>), the early return
    \<^verbatim>\<open>IDX_TRY\<close> as \<open>idx_try\<close>, operations that carry a state as \<open>op\<close>, word and list lemmas.
  \<^item> \<open>Gaps\<close> (\<^verbatim>\<open>src/gaps.c\<close>): the set of slot ranges still missing; \<open>Ring\<close> (\<^verbatim>\<open>src/ring.c\<close>): the
    hand-off between producers and the consumer; \<open>Fetcher\<close> (\<^verbatim>\<open>src/fetcher.c\<close>): a worker as the
    sequence of calls it makes on the two; \<open>SlotCursor\<close> (\<^verbatim>\<open>src/slot_cursor.c\<close>): the file that
    remembers where to resume, its update as the states the file system goes through.
  \<^item> \<open>Bytes\<close>, \<open>BufferWriter\<close>, \<open>Base58\<close>, \<open>Base64\<close>, \<open>Decimal\<close>, \<open>Types\<close> (\<^verbatim>\<open>src/bytes.c\<close>,
    \<^verbatim>\<open>src/base58.c\<close>, \<^verbatim>\<open>src/base64.c\<close>, \<^verbatim>\<open>src/types.c\<close>): cursors, buffers, text codecs and keys;
    \<open>HashMap\<close> (\<^verbatim>\<open>src/map.c\<close>): the open-addressing table; \<open>Arena\<close> (\<^verbatim>\<open>src/arena.c\<close>): the block
    allocator.
  \<^item> \<open>Json\<close> (\<^verbatim>\<open>src/json.c\<close>) and \<open>Block\<close> (\<^verbatim>\<open>src/block.c\<close>): access to a parsed document and the
    decoder from it to a block.
  \<^item> \<open>InstructionData\<close>, \<open>SystemProgram\<close>, \<open>TokenProgram\<close>, \<open>Token2022\<close>: the instruction decoders
    (\<^verbatim>\<open>src/system_program.c\<close>, \<^verbatim>\<open>src/token_program.c\<close>, \<^verbatim>\<open>src/token_2022.c\<close>); \<open>Transfers\<close>
    (\<^verbatim>\<open>src/transfer.c\<close>) and \<open>Balance\<close> (\<^verbatim>\<open>src/balance.c\<close>): what is extracted from a transaction.
  \<^item> \<open>Venue\<close>, \<open>VenuePump\<close>, \<open>VenueRaydium\<close>, \<open>VenueJupiter\<close>, \<open>SwapDecode\<close> (\<^verbatim>\<open>src/venue.c\<close> and
    \<^verbatim>\<open>src/venue_*.c\<close>): the trading venues and what their events and instructions state about a
    trade; \<open>Swaps\<close> (\<^verbatim>\<open>src/swap.c\<close>): the rows completed from balances and log lines;
    \<open>SwapRows\<close>: the specification of those rows, which the walk refines; \<open>Routes\<close>: what the
    netting of a route amounts to.
  \<^item> \<open>Registry\<close>: records owned through a table, with the heap of records explicit; \<open>Pools\<close> and
    \<open>Tokens\<close> (\<^verbatim>\<open>src/pool.c\<close>, \<^verbatim>\<open>src/token.c\<close>): the two registries as histories of observations.
  \<^item> \<open>Doubles\<close>, \<open>Price\<close>, \<open>Quotes\<close>, \<open>Prices\<close> (\<^verbatim>\<open>src/price.c\<close>): IEEE arithmetic with its
    infinity and NaN, the quote mints and the price of a swap; what the list of quotes means and how good a price is.
  \<^item> \<open>Bars\<close> (\<^verbatim>\<open>src/bar.c\<close>): price bars in the registry; \<open>BarSeries\<close>, \<open>BarHistory\<close>, \<open>BarReorg\<close>:
    the order of sequences, a bar as the candle of its swaps, and the rebuild after a
    reorganisation.
  \<^item> \<open>Vec\<close> (\<^verbatim>\<open>src/vec.c\<close>): the growable array; \<open>Store\<close> (\<^verbatim>\<open>src/store.c\<close>): the two tiers' tables of
    operations and the in-memory backends; \<open>StoreRuns\<close>: what a run of writes, reorganisations,
    prunes, appends and flushes leaves in them.
  \<^item> \<open>VoteFilter\<close> (\<^verbatim>\<open>src/vote_filter.c\<close>): the transactions skipped before extraction.
  \<^item> \<open>Config\<close> (\<^verbatim>\<open>src/config.c\<close>, the level names of \<^verbatim>\<open>src/log.c\<close>): the settings and their four
    sources; \<open>ConfigLoad\<close>: a load as assignments, of which the last one for a setting counts.

  Correspondence. A structure is a record with the fields of the C one (prefixed where two
  structures share a name), an enum a datatype with the source's constructors, a tagged union a
  datatype with one constructor per member. A fixed-width integer is a word of its width;
  \<^verbatim>\<open>size_t\<close> is \<open>nat\<close> with the wrap-around guards of the source written out. A pointer that may
  be \<^verbatim>\<open>NULL\<close> is an option. An output pointer is the result; the guards against a \<^verbatim>\<open>NULL\<close> output
  are not modelled. A fallible function returns \<open>idx_status + 'a\<close>; one that changes an arena, a
  buffer or a table also returns the new state, on failure too. Sizes in bytes are those of an
  LP64 platform. Allocation outcomes (\<^verbatim>\<open>malloc\<close>, \<^verbatim>\<open>calloc\<close>, \<^verbatim>\<open>realloc\<close>), the JSON parser, the file
  system, the RPC endpoint, the clock and the order in which threads take a lock are parameters
  or the sequence of steps of a run; hypotheses on them are stated in the theorems that use
  them.

  What the lemmas show. Each theory first models its part, then proves the functional
  behaviour of each operation, then the properties. Interfaces are locales (in \<open>Gaps\<close>, \<open>Ring\<close>,
  \<open>HashMap\<close>, \<open>Bytes\<close> and others) interpreted on the model. Properties range over every run of the operations, every
  allocator outcome, and every input, unless a hypothesis says otherwise. A theorem about an
  error states what the code does where a comment or a caller expects something else.

  Bounds. No definition uses fuel: loops are structural recursions, or functions with a
  termination proof.

  Not modelled, and why: the transports and the databases (\<^verbatim>\<open>src/ws.c\<close>, \<^verbatim>\<open>src/rpc.c\<close>, \<^verbatim>\<open>src/pg.c\<close>,
  \<^verbatim>\<open>src/ch.c\<close>, \<^verbatim>\<open>src/pg_store.c\<close>, \<^verbatim>\<open>src/ch_store.c\<close>, \<^verbatim>\<open>src/ch_rows.c\<close>) are calls of libraries outside
  the repository and the text sent to them; \<^verbatim>\<open>src/pubsub.c\<close>, \<^verbatim>\<open>src/pipeline.c\<close> and \<^verbatim>\<open>src/main.c\<close> wire
  the parts to sockets and threads, and the runs of the ring, the gap set and the stores take
  their steps in any order; the output of \<^verbatim>\<open>src/log.c\<close> and the tools only print; the vendored JSON
  parser is a parameter. The text of error messages is not modelled.
\<close>

end
